(* ===== verification/Prelude.thy ===== *)
theory Prelude
  imports Main "HOL-Library.Word" "HOL-Library.AList"
begin

section \<open>Shared vocabulary of the development\<close>

text \<open>
  This theory holds what every component uses: bytes, the exceptions of the program as
  values, results that are either an exception or a value, the big-endian integers of the
  binary formats, and the two interfaces that recur in the program, a codec (an encoder with
  the decoder that undoes it) and a machine (a state with operations that keep an invariant), and a relation that methods keep.

  A Python \<open>bytes\<close> object is a list of 8-bit words.  A Python \<open>str\<close> is represented
  by its UTF-8 encoding, as a HOL \<open>string\<close>: \<open>str.encode("utf-8")\<close> is then the
  character-wise injection \<open>str_encode\<close>, the order that \<open>sort_keys\<close> uses is the
  lexicographic order of the representation, and lengths in bytes are lengths of lists.
\<close>

type_synonym byte = "8 word"
type_synonym bytes = "byte list"

named_theorems res_simps \<open>equations that push results through the exception combinators\<close>

subsection \<open>Exceptions\<close>

text \<open>
  One constructor per exception class that the code raises or catches.  The message texts
  are not modelled; an HTTP status is.
\<close>

datatype pyerr =
    KeyError | TypeError | ValueError | AttributeError | IndexError | OverflowError
  | AssertionError | UnicodeError | JSONDecodeError | ZlibError | IntegrityError | SqliteError
  | PaddingError | AEADError | RatchetError | DuplicateMessage | SkippedTooFar
  | HandshakeError | PrekeyError | IdentityError | DeviceKeyError
  | WireError | TransportError | RelayHTTPError int | RelayNotFound | RelayUnauthorized
  | RelayQuotaExceeded | AllRelaysFailed
  | MailboxNotFound | BundleNotFound | BlobNotFound | QuotaExceeded | HTTPException int
  | CardError | AttachmentError | HistoryError | DeviceListError | SyncError
  | ClientError | NotProvisioned | UnknownContact | OSError

text \<open>\<open>UnicodeError\<close> and \<open>json.JSONDecodeError\<close> are subclasses of \<open>ValueError\<close>.\<close>

fun is_value_error :: "pyerr \<Rightarrow> bool" where
  "is_value_error ValueError = True"
| "is_value_error UnicodeError = True"
| "is_value_error JSONDecodeError = True"
| "is_value_error _ = False"

text \<open>The exception filter \<open>except (KeyError, TypeError, ValueError)\<close>.\<close>

definition is_shape_error :: "pyerr \<Rightarrow> bool" where
  "is_shape_error e \<longleftrightarrow> e = KeyError \<or> e = TypeError \<or> is_value_error e"

subsection \<open>Results\<close>

type_synonym 'a res = "pyerr + 'a"

fun bindE :: "'a res \<Rightarrow> ('a \<Rightarrow> 'b res) \<Rightarrow> 'b res" where
  "bindE (Inl e) f = Inl e"
| "bindE (Inr x) f = f x"

text \<open>\<open>try: m except p: raise e'\<close>.\<close>

definition rethrow :: "(pyerr \<Rightarrow> bool) \<Rightarrow> pyerr \<Rightarrow> 'a res \<Rightarrow> 'a res" where
  "rethrow p e' m = (case m of Inl e \<Rightarrow> if p e then Inl e' else Inl e | Inr x \<Rightarrow> Inr x)"

text \<open>A list comprehension whose element expression may raise: left to right, the first
  exception wins.\<close>

fun mapE :: "('a \<Rightarrow> 'b res) \<Rightarrow> 'a list \<Rightarrow> 'b list res" where
  "mapE f [] = Inr []"
| "mapE f (x # xs) = bindE (f x) (\<lambda>y. bindE (mapE f xs) (\<lambda>ys. Inr (y # ys)))"

definition of_option :: "pyerr \<Rightarrow> 'a option \<Rightarrow> 'a res" where
  "of_option e m = (case m of None \<Rightarrow> Inl e | Some x \<Rightarrow> Inr x)"

definition guardE :: "bool \<Rightarrow> pyerr \<Rightarrow> unit res" where
  "guardE b e = (if b then Inr () else Inl e)"

lemma bindE_Inr_iff [res_simps]: "bindE m f = Inr y \<longleftrightarrow> (\<exists>x. m = Inr x \<and> f x = Inr y)"
  by (cases m) auto

lemma bindE_Inl_iff [res_simps]:
  "bindE m f = Inl e \<longleftrightarrow> m = Inl e \<or> (\<exists>x. m = Inr x \<and> f x = Inl e)"
  by (cases m) auto

lemma bindE_assoc: "bindE (bindE m f) g = bindE m (\<lambda>x. bindE (f x) g)"
  by (cases m) auto

lemma rethrow_simps [simp]:
  "rethrow p e' (Inr x) = Inr x"
  "rethrow p e' (Inl e) = (if p e then Inl e' else Inl e)"
  by (simp_all add: rethrow_def)

lemma rethrow_Inr_iff [res_simps]: "rethrow p e' m = Inr x \<longleftrightarrow> m = Inr x"
  by (cases m) auto

lemma of_option_simps [simp]: "of_option e None = Inl e" "of_option e (Some x) = Inr x"
  by (simp_all add: of_option_def)

lemma of_option_Inr_iff [res_simps]: "of_option e m = Inr x \<longleftrightarrow> m = Some x"
  by (cases m) auto

lemma guardE_simps [simp]: "guardE True e = Inr ()" "guardE False e = Inl e"
  by (simp_all add: guardE_def)

lemma guardE_Inr_iff [res_simps]: "guardE b e = Inr u \<longleftrightarrow> b"
  by (cases b) auto

lemma guardE_Inl_iff [res_simps]: "guardE b e = Inl e' \<longleftrightarrow> \<not> b \<and> e' = e"
  by (cases b) auto

lemma mapE_map: "mapE f (map g xs) = mapE (f \<circ> g) xs"
  by (induction xs) auto

lemma mapE_Inr_all: "(\<And>x. x \<in> set xs \<Longrightarrow> f x = Inr (g x)) \<Longrightarrow> mapE f xs = Inr (map g xs)"
  by (induction xs) auto

lemma mapE_cong [fundef_cong]:
  "xs = ys \<Longrightarrow> (\<And>x. x \<in> set ys \<Longrightarrow> f x = g x) \<Longrightarrow> mapE f xs = mapE g ys"
  by (induction xs arbitrary: ys) auto

lemma mapE_Inr_map: "mapE f xs = Inr ys \<Longrightarrow> map f xs = map Inr ys"
  by (induction xs arbitrary: ys) (auto simp: res_simps)

lemma mapE_Inr_length: "mapE f xs = Inr ys \<Longrightarrow> length ys = length xs"
  by (induction xs arbitrary: ys) (auto simp: res_simps)

lemma mapE_Inr_nth: "mapE f xs = Inr ys \<Longrightarrow> i < length xs \<Longrightarrow> f (xs ! i) = Inr (ys ! i)"
  by (induction xs arbitrary: ys i) (auto simp: res_simps nth_Cons split: nat.splits)

subsection \<open>Stateful operations\<close>

text \<open>
  A method that reads and writes the state of its object and may raise: it returns its result
  together with the state as it is when the method returns or raises, so that what a failing
  method leaves behind is part of the model.  \<open>transact\<close> is the snapshot-and-restore of
  \<open>Ratchet.decrypt\<close> and the transaction of the databases.
\<close>

type_synonym ('s, 'a) meth = "'s \<Rightarrow> 'a res \<times> 's"

definition returnS :: "'a \<Rightarrow> ('s, 'a) meth" where
  "returnS x = (\<lambda>s. (Inr x, s))"

definition raiseS :: "pyerr \<Rightarrow> ('s, 'a) meth" where
  "raiseS e = (\<lambda>s. (Inl e, s))"

definition liftS :: "'a res \<Rightarrow> ('s, 'a) meth" where
  "liftS r = (\<lambda>s. (r, s))"

definition getS :: "('s \<Rightarrow> 'a) \<Rightarrow> ('s, 'a) meth" where
  "getS f = (\<lambda>s. (Inr (f s), s))"

definition modifyS :: "('s \<Rightarrow> 's) \<Rightarrow> ('s, unit) meth" where
  "modifyS f = (\<lambda>s. (Inr (), f s))"

definition bindS :: "('s, 'a) meth \<Rightarrow> ('a \<Rightarrow> ('s, 'b) meth) \<Rightarrow> ('s, 'b) meth" where
  "bindS m f = (\<lambda>s. case m s of (Inl e, s') \<Rightarrow> (Inl e, s') | (Inr x, s') \<Rightarrow> f x s')"

definition thenS :: "('s, 'a) meth \<Rightarrow> ('s, 'b) meth \<Rightarrow> ('s, 'b) meth" where
  "thenS m k = bindS m (\<lambda>_. k)"

definition transact :: "('s, 'a) meth \<Rightarrow> ('s, 'a) meth" where
  "transact m = (\<lambda>s. case m s of (Inl e, _) \<Rightarrow> (Inl e, s) | (Inr x, s') \<Rightarrow> (Inr x, s'))"

named_theorems meth_defs \<open>definitions of the combinators for methods\<close>

definition rethrowS :: "(pyerr \<Rightarrow> bool) \<Rightarrow> pyerr \<Rightarrow> ('s, 'a) meth \<Rightarrow> ('s, 'a) meth" where
  "rethrowS p e' m s = (case m s of (r, s') \<Rightarrow> (rethrow p e' r, s'))"

text \<open>\<open>try: m except p: h\<close>: what \<open>m\<close> changed before it raised stays changed.\<close>

definition catchS :: "(pyerr \<Rightarrow> bool) \<Rightarrow> ('s, 'a) meth \<Rightarrow> ('s, 'a) meth \<Rightarrow> ('s, 'a) meth" where
  "catchS p m h s = (case m s of (Inl e, s') \<Rightarrow> if p e then h s' else (Inl e, s') | (Inr x, s') \<Rightarrow> (Inr x, s'))"

lemmas meth_defs_base [meth_defs] =
  returnS_def raiseS_def liftS_def getS_def modifyS_def bindS_def thenS_def transact_def rethrowS_def catchS_def

text \<open>Loops over a list: collecting results, and passing a value along.\<close>

fun mapS :: "('a \<Rightarrow> ('s, 'b) meth) \<Rightarrow> 'a list \<Rightarrow> ('s, 'b list) meth" where
  "mapS f [] = returnS []"
| "mapS f (x # xs) = bindS (f x) (\<lambda>y. bindS (mapS f xs) (\<lambda>ys. returnS (y # ys)))"

fun foldS :: "('a \<Rightarrow> 'b \<Rightarrow> ('s, 'b) meth) \<Rightarrow> 'a list \<Rightarrow> 'b \<Rightarrow> ('s, 'b) meth" where
  "foldS f [] b = returnS b"
| "foldS f (x # xs) b = bindS (f x b) (foldS f xs)"

lemma transact_error: "transact m s = (Inl e, s') \<Longrightarrow> s' = s"
  by (auto simp: transact_def split: prod.splits sum.splits)

lemma transact_ok: "transact m s = (Inr x, s') \<longleftrightarrow> m s = (Inr x, s')"
  by (auto simp: transact_def split: prod.splits sum.splits)

lemma transact_Inl: "m s = (Inl e, s') \<Longrightarrow> transact m s = (Inl e, s)"
  by (simp add: transact_def)

subsection \<open>Text as bytes\<close>

definition str_encode :: "string \<Rightarrow> bytes" where
  "str_encode s = map of_char s"

definition str_of_bytes :: "bytes \<Rightarrow> string" where
  "str_of_bytes bs = map (\<lambda>b. char_of (unat b)) bs"

lemma unat_of_char8 [simp]: "unat (of_char c :: byte) = of_char c"
proof -
  have "unat (word_of_nat (of_char c) :: byte) = of_char c mod 2 ^ 8"
    by (simp only: unsigned_of_nat take_bit_eq_mod) simp
  then show ?thesis by (simp add: of_nat_of_char)
qed

lemma unat_byte_less [simp]: "unat (b :: byte) < 256"
  using unsigned_less [of b] by simp

lemma unat_byte_mod [simp]: "unat (b :: byte) mod 256 = unat b"
  by (rule mod_less) simp

lemma of_char_char_of_byte [simp]: "(of_char (char_of (unat b)) :: byte) = b"
proof -
  have "(of_char (char_of (unat b)) :: byte) = word_of_nat (of_char (char_of (unat b)))"
    by (simp only: of_nat_of_char)
  then show ?thesis by simp
qed

lemma str_of_bytes_encode [simp]: "str_of_bytes (str_encode s) = s"
  by (simp add: str_of_bytes_def str_encode_def o_def unat_of_char8)

lemma str_encode_of_bytes [simp]: "str_encode (str_of_bytes bs) = bs"
  by (simp add: str_of_bytes_def str_encode_def o_def)

lemma length_str_encode [simp]: "length (str_encode s) = length s"
  by (simp add: str_encode_def)

lemma str_encode_append [simp]: "str_encode (s @ t) = str_encode s @ str_encode t"
  by (simp add: str_encode_def)

lemma str_encode_inj [simp]: "str_encode s = str_encode t \<longleftrightarrow> s = t"
  by (metis str_of_bytes_encode)

subsection \<open>Big-endian integers\<close>

text \<open>\<open>int.to_bytes(4, "big")\<close> raises \<open>OverflowError\<close> outside the unsigned 32-bit range;
  \<open>int.from_bytes(bs, "big")\<close> reads any number of bytes.\<close>

definition to_bytes4 :: "int \<Rightarrow> bytes res" where
  "to_bytes4 i =
     (if 0 \<le> i \<and> i < 2 ^ 32
      then Inr [word_of_int (i div 2 ^ 24), word_of_int (i div 2 ^ 16), word_of_int (i div 2 ^ 8),
                word_of_int i]
      else Inl OverflowError)"

definition from_bytes :: "bytes \<Rightarrow> int" where
  "from_bytes bs = foldl (\<lambda>a b. a * 256 + uint b) 0 bs"

lemma uint_byte_of_int: "uint (word_of_int i :: byte) = i mod 256"
  by (simp add: uint_word_of_int)

lemma div_256_step: "((i::int) div (k * 256)) * 256 + (i div k) mod 256 = i div k" if "0 \<le> k"
  using that div_mult_mod_eq [of "i div k" 256] by (simp add: zdiv_zmult2_eq)

lemma from_bytes4:
  "from_bytes [a, b, c, d] = ((uint a * 256 + uint b) * 256 + uint c) * 256 + uint d"
  by (simp only: from_bytes_def foldl.simps mult_zero_left add_0_left)

lemma from_to_bytes4: "to_bytes4 i = Inr bs \<Longrightarrow> from_bytes bs = i"
proof -
  assume a: "to_bytes4 i = Inr bs"
  then have bs: "bs = [word_of_int (i div 16777216), word_of_int (i div 65536),
      word_of_int (i div 256), word_of_int i]" and i: "0 \<le> i" "i < 4294967296"
    unfolding to_bytes4_def by (simp_all split: if_splits)
  have "0 \<le> i div 16777216" "i div 16777216 < 256"
    using i by (auto simp: pos_imp_zdiv_nonneg_iff div_less_iff_less_mult)
  then have m: "(i div 16777216) mod 256 = i div 16777216"
    by (rule mod_pos_pos_trivial)
  have "from_bytes bs = (((i div 16777216) mod 256 * 256 + (i div 65536) mod 256) * 256
      + (i div 256) mod 256) * 256 + i mod 256"
    by (simp only: bs from_bytes4 uint_byte_of_int)
  also have "\<dots> = i"
    using div_256_step [of 65536 i] div_256_step [of 256 i] div_256_step [of 1 i]
    by (simp only: m mult_1 div_by_1) simp
  finally show ?thesis .
qed

lemma length_to_bytes4: "to_bytes4 i = Inr bs \<Longrightarrow> length bs = 4"
  by (auto simp: to_bytes4_def split: if_splits)

lemma to_bytes4_inj: "to_bytes4 i = Inr bs \<Longrightarrow> to_bytes4 j = Inr bs \<Longrightarrow> i = j"
  by (metis from_to_bytes4)

lemma to_bytes4_ok [simp]: "0 \<le> i \<Longrightarrow> i < 4294967296 \<Longrightarrow> \<exists>bs. to_bytes4 i = Inr bs"
  by (simp add: to_bytes4_def)

subsection \<open>Codecs\<close>

text \<open>
  Most of the program's data crosses a boundary as text or bytes and comes back: base32 and
  base64, JSON documents, ratchet states, sessions, cards, bundles, records.  Each such pair
  promises that decoding undoes encoding on well-formed values; what a client of the pair may
  conclude (no two values share an encoding, lists of values survive element by element, two
  codecs compose) is proved here once.
\<close>

locale codec =
  fixes enc :: "'a \<Rightarrow> 'b" and dec :: "'b \<Rightarrow> 'a res" and ok :: "'a \<Rightarrow> bool"
  assumes dec_enc: "ok x \<Longrightarrow> dec (enc x) = Inr x"
begin

lemma enc_eq_iff: "ok x \<Longrightarrow> ok y \<Longrightarrow> enc x = enc y \<longleftrightarrow> x = y"
  by (metis dec_enc sum.inject(2))

lemma mapE_dec_enc: "(\<And>x. x \<in> set xs \<Longrightarrow> ok x) \<Longrightarrow> mapE dec (map enc xs) = Inr xs"
  by (induction xs) (auto simp: dec_enc)

lemma map_option_enc_eq_iff:
  "(\<And>x. a = Some x \<Longrightarrow> ok x) \<Longrightarrow> (\<And>x. b = Some x \<Longrightarrow> ok x) \<Longrightarrow>
   map_option enc a = map_option enc b \<longleftrightarrow> a = b"
  by (cases a; cases b) (auto simp: enc_eq_iff)

end

subsection \<open>Machines\<close>

text \<open>
  A component with state is a step function over its operations together with an invariant
  that every operation keeps; runs are sequences of operations.
\<close>

locale machine =
  fixes step :: "'s \<Rightarrow> 'o \<Rightarrow> 's" and inv :: "'s \<Rightarrow> bool"
  assumes step_inv: "inv s \<Longrightarrow> inv (step s opn)"
begin

lemma run_inv: "inv s \<Longrightarrow> inv (foldl step s ops)"
  by (induction ops arbitrary: s) (auto intro: step_inv)

lemma run_mono:
  fixes f :: "'s \<Rightarrow> 'v::order"
  assumes "\<And>s opn. inv s \<Longrightarrow> f s \<le> f (step s opn)" and "inv s"
  shows "f s \<le> f (foldl step s ops)"
  using assms(2)
  by (induction ops arbitrary: s) (auto intro: order_trans assms(1) step_inv)

lemma run_frame:
  assumes "\<And>s opn. inv s \<Longrightarrow> f (step s opn) = f s" and "inv s"
  shows "f (foldl step s ops) = f s"
  using assms(2) by (induction ops arbitrary: s) (auto simp: assms(1) step_inv)

end

subsection \<open>Relations that methods keep\<close>

text \<open>
  A reflexive and transitive relation between the states before and after (some tables untouched, an invariant kept)
  holds for a method when it holds for its parts; also when the method raises.
\<close>

lemma bindS_InrE:
  assumes "bindS m f s = (Inr y, t)"
  obtains x s1 where "m s = (Inr x, s1)" "f x s1 = (Inr y, t)"
  using assms by (auto simp: bindS_def split: prod.splits sum.splits)

definition keeps :: "('s \<Rightarrow> 's \<Rightarrow> bool) \<Rightarrow> ('s, 'a) meth \<Rightarrow> bool" where
  "keeps R m \<longleftrightarrow> (\<forall>s. R s (snd (m s)))"

lemma keepsI: "(\<And>s. R s (snd (m s))) \<Longrightarrow> keeps R m"
  by (simp add: keeps_def)

lemma keepsD: "keeps R m \<Longrightarrow> m s = (r, t) \<Longrightarrow> R s t"
  unfolding keeps_def by (metis snd_conv)

lemma keeps_case_option: "(x = None \<Longrightarrow> keeps R m) \<Longrightarrow> (\<And>y. x = Some y \<Longrightarrow> keeps R (k y)) \<Longrightarrow> keeps R (case x of None \<Rightarrow> m | Some y \<Rightarrow> k y)"
  by (cases x) auto

lemma keeps_case_prod: "(\<And>a b. x = (a, b) \<Longrightarrow> keeps R (k a b)) \<Longrightarrow> keeps R (case x of (a, b) \<Rightarrow> k a b)"
  by (cases x) auto

lemma keeps_if: "(b \<Longrightarrow> keeps R m) \<Longrightarrow> (\<not> b \<Longrightarrow> keeps R k) \<Longrightarrow> keeps R (if b then m else k)"
  by simp

lemma keeps_let: "(\<And>y. y = x \<Longrightarrow> keeps R (k y)) \<Longrightarrow> keeps R (let y = x in k y)"
  by (simp add: Let_def)

lemma keeps_modify: "(\<And>s. R s (f s)) \<Longrightarrow> keeps R (modifyS f)"
  by (simp add: keeps_def modifyS_def)

locale method_relation =
  fixes R :: "'s \<Rightarrow> 's \<Rightarrow> bool"
  assumes R_refl: "R s s" and R_trans: "R a b \<Longrightarrow> R b c \<Longrightarrow> R a c"
begin

lemma rel_bind:
  assumes "R s (snd (m s))" "\<And>x. m s = (Inr x, snd (m s)) \<Longrightarrow> R (snd (m s)) (snd (f x (snd (m s))))"
  shows "R s (snd (bindS m f s))"
proof (cases "fst (m s)")
  case (Inl e)
  then show ?thesis using assms(1) by (cases "m s") (simp add: bindS_def)
next
  case (Inr x)
  then have m: "m s = (Inr x, snd (m s))" by (metis prod.collapse)
  then have "bindS m f s = f x (snd (m s))" by (cases "m s") (simp add: bindS_def)
  then show ?thesis using R_trans [OF assms(1) assms(2) [OF m]] by simp
qed

lemma rel_lift: "(\<And>x. r = Inr x \<Longrightarrow> R s (snd (f x s))) \<Longrightarrow> R s (snd (bindS (liftS r) f s))"
  by (cases r) (simp_all add: bindS_def liftS_def R_refl)

lemma rel_get: "R s (snd (f (g s) s)) \<Longrightarrow> R s (snd (bindS (getS g) f s))"
  by (simp add: bindS_def getS_def)

lemma rel_return: "R s (snd (returnS x s))"
  by (simp add: returnS_def R_refl)

lemma rel_then: "R s (snd (m s)) \<Longrightarrow> (\<And>t. R t (snd (k t))) \<Longrightarrow> R s (snd (thenS m k s))"
  unfolding thenS_def by (rule rel_bind)

lemma rel_rethrow: "R s (snd (m s)) \<Longrightarrow> R s (snd (rethrowS p e m s))"
  by (cases "m s") (simp add: rethrowS_def)

lemma rel_if: "(b \<Longrightarrow> R s (snd (m s))) \<Longrightarrow> (\<not> b \<Longrightarrow> R s (snd (k s))) \<Longrightarrow> R s (snd ((if b then m else k) s))"
  by simp

lemmas rel_intros = rel_lift rel_return rel_rethrow rel_then rel_if rel_get

lemma keeps_bind: "keeps R m \<Longrightarrow> (\<And>x. keeps R (f x)) \<Longrightarrow> keeps R (bindS m f)"
  unfolding keeps_def by (blast intro: rel_bind)

text \<open>When a sequence breaks a relation that its first part keeps, the second part breaks it.\<close>

lemma break_bind:
  assumes "\<not> R s (snd (bindS m f s))" "keeps R m"
  obtains x s1 where "m s = (Inr x, s1)" "R s s1" "\<not> R s1 (snd (f x s1))"
proof -
  have *: "R s (snd (m s))" using assms(2) by (simp add: keeps_def)
  then obtain x where x: "m s = (Inr x, snd (m s))" using assms(1) by (cases "m s"; cases "fst (m s)") (auto simp: bindS_def)
  then have "snd (bindS m f s) = snd (f x (snd (m s)))" by (cases "m s") (simp add: bindS_def)
  then show ?thesis using that [OF x *] assms(1) R_trans [OF *] by auto
qed

lemma keeps_then: "keeps R m \<Longrightarrow> keeps R k \<Longrightarrow> keeps R (thenS m k)"
  unfolding thenS_def by (rule keeps_bind)

lemma keeps_pure: "keeps R (returnS x)" "keeps R (raiseS e)" "keeps R (liftS r)" "keeps R (getS g)"
  by (simp_all add: keeps_def returnS_def raiseS_def liftS_def getS_def R_refl)

lemma keeps_rethrow: "keeps R m \<Longrightarrow> keeps R (rethrowS p e m)"
  unfolding keeps_def by (blast intro: rel_rethrow)

lemma keeps_catch:
  assumes "keeps R m" "keeps R h"
  shows "keeps R (catchS p m h)"
proof (rule keepsI)
  fix s
  have "R s (snd (m s))" "R (snd (m s)) (snd (h (snd (m s))))" using assms by (simp_all add: keeps_def)
  then show "R s (snd (catchS p m h s))"
    by (cases "m s") (auto simp: catchS_def split: sum.split intro: R_trans)
qed

lemma keeps_mapS: "(\<And>x. x \<in> set xs \<Longrightarrow> keeps R (f x)) \<Longrightarrow> keeps R (mapS f xs)"
  by (induction xs) (auto intro: keeps_bind keeps_pure)

lemma keeps_foldS: "(\<And>x b. x \<in> set xs \<Longrightarrow> keeps R (f x b)) \<Longrightarrow> keeps R (foldS f xs b)"
  by (induction xs arbitrary: b) (auto intro: keeps_bind keeps_pure)

lemmas keeps_intros = keeps_bind keeps_then keeps_pure keeps_rethrow keeps_catch keeps_mapS keeps_foldS
  keeps_case_option keeps_case_prod keeps_if keeps_let

end

end
