(* ===== verification/Json.thy ===== *)
theory Json
  imports Prelude "HOL-Library.List_Lexorder" "HOL-Library.Char_ord"
begin

section \<open>JSON documents, their canonical text and their parser\<close>

text \<open>
  Everything the program hashes, signs, authenticates or stores goes through
  \<open>canonical_json\<close> of \<^verbatim>\<open>crypto/encoding.py\<close>, and everything it reads goes through
  \<open>json.loads\<close>.  This theory models both on a datatype of documents whose objects are
  association lists in insertion order (a Python dict), and proves that parsing the canonical
  text of a document gives the document back with its keys sorted at every level.

  Numbers are integers: no document the program writes has a fraction, and a text with a
  fraction, an exponent, \<open>NaN\<close> or \<open>Infinity\<close> is outside the model and is refused.
  So are lone surrogate escapes, which have no UTF-8 encoding.
\<close>

datatype json = JNull | JBool bool | JInt int | JStr string | JArr "json list"
  | JObj "(string \<times> json) list"

type_synonym dict = "(string \<times> json) list"

subsection \<open>Printing\<close>

definition digit_char :: "nat \<Rightarrow> char" where
  "digit_char d = char_of (48 + d)"

fun show_nat :: "nat \<Rightarrow> string" where
  "show_nat n = (if n < 10 then [digit_char n] else show_nat (n div 10) @ [digit_char (n mod 10)])"

declare show_nat.simps [simp del]

definition show_int :: "int \<Rightarrow> string" where
  "show_int i = (if i < 0 then CHR ''-'' # show_nat (nat (- i)) else show_nat (nat i))"

definition hex_char :: "nat \<Rightarrow> char" where
  "hex_char d = (if d < 10 then char_of (48 + d) else char_of (87 + d))"

text \<open>With \<open>ensure_ascii=False\<close> only the quote, the backslash and the control characters
  below 32 are escaped.\<close>

definition esc_char :: "char \<Rightarrow> string" where
  "esc_char c =
     (if c = CHR 0x22 then [CHR 0x5C, CHR 0x22]
      else if c = CHR 0x5C then [CHR 0x5C, CHR 0x5C]
      else if c = CHR 0x08 then [CHR 0x5C, CHR ''b'']
      else if c = CHR 0x0C then [CHR 0x5C, CHR ''f'']
      else if c = CHR 0x0A then [CHR 0x5C, CHR ''n'']
      else if c = CHR 0x0D then [CHR 0x5C, CHR ''r'']
      else if c = CHR 0x09 then [CHR 0x5C, CHR ''t'']
      else if of_char c < (32::nat)
      then CHR 0x5C # ''u00'' @ [hex_char (of_char c div 16), hex_char (of_char c mod 16)]
      else [c])"

definition quote :: "string \<Rightarrow> string" where
  "quote s = CHR 0x22 # concat (map esc_char s) @ [CHR 0x22]"

fun join :: "string \<Rightarrow> string list \<Rightarrow> string" where
  "join sep [] = []"
| "join sep [x] = x"
| "join sep (x # y # xs) = x @ sep @ join sep (y # xs)"

fun dumps :: "json \<Rightarrow> string" where
  "dumps JNull = ''null''"
| "dumps (JBool b) = (if b then ''true'' else ''false'')"
| "dumps (JInt i) = show_int i"
| "dumps (JStr s) = quote s"
| "dumps (JArr xs) = ''['' @ join '','' (map dumps xs) @ '']''"
| "dumps (JObj kvs) =
     CHR 0x7B # join '','' (map (\<lambda>kt. quote (fst kt) @ '':'' @ snd kt)
        (sort_key fst (map (\<lambda>kv. (fst kv, dumps (snd kv))) kvs))) @ [CHR 0x7D]"

definition canonical_json :: "json \<Rightarrow> bytes" where
  "canonical_json v = str_encode (dumps v)"

subsection \<open>Parsing\<close>

fun is_ws :: "char \<Rightarrow> bool" where
  "is_ws c = (c = CHR '' '' \<or> c = CHR 0x09 \<or> c = CHR 0x0A \<or> c = CHR 0x0D)"

fun skip_ws :: "string \<Rightarrow> string" where
  "skip_ws [] = []"
| "skip_ws (c # cs) = (if is_ws c then skip_ws cs else c # cs)"

definition is_digit :: "char \<Rightarrow> bool" where
  "is_digit c = (48 \<le> (of_char c :: nat) \<and> of_char c \<le> (57::nat))"

definition digit_val :: "char \<Rightarrow> nat" where
  "digit_val c = of_char c - 48"

definition hex_val :: "char \<Rightarrow> nat option" where
  "hex_val c =
     (let n = (of_char c :: nat) in
      if 48 \<le> n \<and> n \<le> 57 then Some (n - 48)
      else if 65 \<le> n \<and> n \<le> 70 then Some (n - 55)
      else if 97 \<le> n \<and> n \<le> 102 then Some (n - 87) else None)"

fun hex4 :: "string \<Rightarrow> (nat \<times> string) option" where
  "hex4 (a # b # c # d # cs) =
     (case (hex_val a, hex_val b, hex_val c, hex_val d) of
        (Some w, Some x, Some y, Some z) \<Rightarrow> Some (((w * 16 + x) * 16 + y) * 16 + z, cs)
      | _ \<Rightarrow> None)"
| "hex4 _ = None"

text \<open>The UTF-8 encoding of one code point.\<close>

definition utf8_chars :: "nat \<Rightarrow> string" where
  "utf8_chars n =
     (if n < 128 then [char_of n]
      else if n < 2048 then [char_of (192 + n div 64), char_of (128 + n mod 64)]
      else if n < 65536
      then [char_of (224 + n div 4096), char_of (128 + n div 64 mod 64), char_of (128 + n mod 64)]
      else [char_of (240 + n div 262144), char_of (128 + n div 4096 mod 64),
            char_of (128 + n div 64 mod 64), char_of (128 + n mod 64)])"

text \<open>After a backslash: the characters the escape stands for and the rest of the text.\<close>

definition unescape :: "string \<Rightarrow> (string \<times> string) option" where
  "unescape s = (case s of [] \<Rightarrow> None
     | e # cs \<Rightarrow>
       if e = CHR 0x22 \<or> e = CHR 0x5C \<or> e = CHR ''/'' then Some ([e], cs)
       else if e = CHR ''b'' then Some ([CHR 0x08], cs)
       else if e = CHR ''f'' then Some ([CHR 0x0C], cs)
       else if e = CHR ''n'' then Some ([CHR 0x0A], cs)
       else if e = CHR ''r'' then Some ([CHR 0x0D], cs)
       else if e = CHR ''t'' then Some ([CHR 0x09], cs)
       else if e = CHR ''u'' then
         (case hex4 cs of None \<Rightarrow> None
          | Some (n, r) \<Rightarrow>
            if 0xD800 \<le> n \<and> n < 0xDC00 then
              (case r of (b # u # r') \<Rightarrow>
                 if b = CHR 0x5C \<and> u = CHR ''u'' then
                   (case hex4 r' of None \<Rightarrow> None
                    | Some (m, r'') \<Rightarrow>
                      if 0xDC00 \<le> m \<and> m < 0xE000
                      then Some (utf8_chars (0x10000 + (n - 0xD800) * 1024 + (m - 0xDC00)), r'')
                      else None)
                 else None
               | _ \<Rightarrow> None)
            else if 0xDC00 \<le> n \<and> n < 0xE000 then None
            else Some (utf8_chars n, r))
       else None)"

text \<open>The body of a string literal, after the opening quote.  The first argument bounds the
  number of characters; the length of the text is enough.\<close>

fun pstr :: "nat \<Rightarrow> string \<Rightarrow> (string \<times> string) option" where
  "pstr 0 s = None"
| "pstr (Suc n) [] = None"
| "pstr (Suc n) (c # cs) =
     (if c = CHR 0x22 then Some ([], cs)
      else if c = CHR 0x5C then
        (case unescape cs of None \<Rightarrow> None
         | Some (t, r) \<Rightarrow> map_option (\<lambda>(u, r'). (t @ u, r')) (pstr n r))
      else if of_char c < (32::nat) then None
      else map_option (\<lambda>(u, r'). (c # u, r')) (pstr n cs))"

definition pstring :: "string \<Rightarrow> (string \<times> string) option" where
  "pstring s = pstr (Suc (length s)) s"

fun pdigits :: "nat \<Rightarrow> string \<Rightarrow> nat \<times> string" where
  "pdigits acc [] = (acc, [])"
| "pdigits acc (c # cs) =
     (if is_digit c then pdigits (acc * 10 + digit_val c) cs else (acc, c # cs))"

text \<open>A non-negative number literal: no leading zero, and not the start of a fraction or an
  exponent.\<close>

definition pnat :: "string \<Rightarrow> (nat \<times> string) option" where
  "pnat s = (case s of [] \<Rightarrow> None
     | c # cs \<Rightarrow>
       if \<not> is_digit c then None
       else let (n, r) = (if c = CHR ''0'' then (0, cs) else pdigits 0 (c # cs)) in
         (case r of [] \<Rightarrow> Some (n, r)
          | d # _ \<Rightarrow> if d = CHR ''.'' \<or> d = CHR ''e'' \<or> d = CHR ''E'' then None else Some (n, r)))"

definition pint :: "string \<Rightarrow> (int \<times> string) option" where
  "pint s = (case s of [] \<Rightarrow> None
     | c # cs \<Rightarrow>
       if c = CHR ''-'' then map_option (\<lambda>(n, r). (- int n, r)) (pnat cs)
       else map_option (\<lambda>(n, r). (int n, r)) (pnat s))"

fun plit :: "string \<Rightarrow> string \<Rightarrow> string option" where
  "plit [] s = Some s"
| "plit (c # cs) [] = None"
| "plit (c # cs) (d # ds) = (if c = d then plit cs ds else None)"

text \<open>The elements of an array after its opening bracket, with \<open>p\<close> the parser of an element
  and the first number a bound on how many elements there are.\<close>

fun pelems :: "(string \<Rightarrow> (json \<times> string) option) \<Rightarrow> nat \<Rightarrow> string \<Rightarrow> (json list \<times> string) option"
  where
  "pelems p 0 s = None"
| "pelems p (Suc k) s =
     (case p s of None \<Rightarrow> None
      | Some (v, r) \<Rightarrow>
        (case skip_ws r of [] \<Rightarrow> None
         | c # cs \<Rightarrow>
           if c = CHR '']'' then Some ([v], cs)
           else if c = CHR '','' then
             map_option (\<lambda>(vs, r'). (v # vs, r')) (pelems p k (skip_ws cs))
           else None))"

fun pmembers :: "(string \<Rightarrow> (json \<times> string) option) \<Rightarrow> nat \<Rightarrow> string \<Rightarrow> (dict \<times> string) option"
  where
  "pmembers p 0 s = None"
| "pmembers p (Suc k) s =
     (case s of [] \<Rightarrow> None
      | q # qs \<Rightarrow> if q \<noteq> CHR 0x22 then None else
        (case pstring qs of None \<Rightarrow> None
         | Some (key, r) \<Rightarrow>
           (case skip_ws r of [] \<Rightarrow> None
            | c # cs \<Rightarrow> if c \<noteq> CHR '':'' then None else
              (case p (skip_ws cs) of None \<Rightarrow> None
               | Some (v, r1) \<Rightarrow>
                 (case skip_ws r1 of [] \<Rightarrow> None
                  | d # ds \<Rightarrow>
                    if d = CHR 0x7D then Some ([(key, v)], ds)
                    else if d = CHR '','' then
                      map_option (\<lambda>(kvs, r'). ((key, v) # kvs, r')) (pmembers p k (skip_ws ds))
                    else None)))))"

text \<open>\<open>dict(pairs)\<close>: a repeated key keeps its first position and takes its last value.\<close>

definition dict_of_pairs :: "(string \<times> json) list \<Rightarrow> dict" where
  "dict_of_pairs kvs = foldl (\<lambda>d kv. AList.update (fst kv) (snd kv) d) [] kvs"

text \<open>A value; the number bounds the nesting depth.\<close>

primrec pval :: "nat \<Rightarrow> string \<Rightarrow> (json \<times> string) option" where
  "pval 0 = (\<lambda>s. None)"
| "pval (Suc n) = (\<lambda>s. case s of [] \<Rightarrow> None
     | c # cs \<Rightarrow>
       if c = CHR 0x22 then map_option (\<lambda>(t, r). (JStr t, r)) (pstring cs)
       else if c = CHR ''['' then
         (case skip_ws cs of [] \<Rightarrow> None
          | d # ds \<Rightarrow> if d = CHR '']'' then Some (JArr [], ds)
            else map_option (\<lambda>(vs, r). (JArr vs, r)) (pelems (pval n) (length s) (d # ds)))
       else if c = CHR 0x7B then
         (case skip_ws cs of [] \<Rightarrow> None
          | d # ds \<Rightarrow> if d = CHR 0x7D then Some (JObj [], ds)
            else map_option (\<lambda>(kvs, r). (JObj (dict_of_pairs kvs), r))
              (pmembers (pval n) (length s) (d # ds)))
       else if c = CHR ''n'' then map_option (\<lambda>r. (JNull, r)) (plit ''null'' s)
       else if c = CHR ''t'' then map_option (\<lambda>r. (JBool True, r)) (plit ''true'' s)
       else if c = CHR ''f'' then map_option (\<lambda>r. (JBool False, r)) (plit ''false'' s)
       else map_option (\<lambda>(i, r). (JInt i, r)) (pint s))"

definition json_loads :: "string \<Rightarrow> json res" where
  "json_loads s =
     (case pval (Suc (length s)) (skip_ws s) of
        None \<Rightarrow> Inl JSONDecodeError
      | Some (v, r) \<Rightarrow> if skip_ws r = [] then Inr v else Inl JSONDecodeError)"

subsection \<open>Well-formed documents and their normal form\<close>

text \<open>A dict has no repeated key; \<open>jsort\<close> sorts the keys at every level.\<close>

fun jwf :: "json \<Rightarrow> bool" where
  "jwf (JArr xs) = (\<forall>x \<in> set xs. jwf x)"
| "jwf (JObj kvs) = (distinct (map fst kvs) \<and> (\<forall>kv \<in> set kvs. jwf (snd kv)))"
| "jwf _ = True"

fun jsort :: "json \<Rightarrow> json" where
  "jsort (JArr xs) = JArr (map jsort xs)"
| "jsort (JObj kvs) = JObj (sort_key fst (map (\<lambda>kv. (fst kv, jsort (snd kv))) kvs))"
| "jsort v = v"

subsection \<open>Integers round-trip\<close>

text \<open>What may follow a value in a canonical text without being taken for part of it.\<close>

definition follow :: "string \<Rightarrow> bool" where
  "follow r = (case r of [] \<Rightarrow> True
     | d # _ \<Rightarrow> \<not> is_digit d \<and> d \<noteq> CHR ''.'' \<and> d \<noteq> CHR ''e'' \<and> d \<noteq> CHR ''E'')"

lemma digit_char_props [simp]:
  "d < 10 \<Longrightarrow> is_digit (digit_char d)" "d < 10 \<Longrightarrow> digit_val (digit_char d) = d"
  by (simp_all add: digit_char_def is_digit_def digit_val_def)

lemma digit_char_zero: "d < 10 \<Longrightarrow> digit_char d = CHR ''0'' \<Longrightarrow> d = 0"
  using digit_char_props(2) [of d] by (simp add: digit_val_def)

lemma pdigits_show_nat:
  "pdigits acc (show_nat n @ rest) = pdigits (acc * 10 ^ length (show_nat n) + n) rest"
proof (induction n arbitrary: acc rest rule: show_nat.induct)
  case (1 n)
  show ?case
  proof (cases "n < 10")
    case True
    then show ?thesis by (subst (1 2) show_nat.simps) simp
  next
    case False
    let ?d = "digit_char (n mod 10)"
    have s: "show_nat n = show_nat (n div 10) @ [?d]"
      using False by (subst show_nat.simps) simp
    have "pdigits acc (show_nat n @ rest) = pdigits acc (show_nat (n div 10) @ (?d # rest))"
      by (simp add: s)
    also have "\<dots> = pdigits (acc * 10 ^ length (show_nat (n div 10)) + n div 10) (?d # rest)"
      using "1.IH" [OF False] by blast
    also have "\<dots> = pdigits (acc * 10 ^ length (show_nat n) + n) rest"
      by (simp add: s algebra_simps)
    finally show ?thesis .
  qed
qed

lemma show_nat_head:
  "\<exists>c cs. show_nat n = c # cs \<and> is_digit c \<and> (c = CHR ''0'' \<longrightarrow> n = 0 \<and> cs = [])"
proof (induction n rule: show_nat.induct)
  case (1 n)
  show ?case
  proof (cases "n < 10")
    case True
    then show ?thesis by (subst show_nat.simps) (auto dest: digit_char_zero)
  next
    case False
    then obtain c cs where "show_nat (n div 10) = c # cs" "is_digit c" "c = CHR ''0'' \<longrightarrow> n div 10 = 0"
      using "1.IH" by blast
    with False show ?thesis by (subst show_nat.simps) (auto)
  qed
qed

lemma pdigits_follow [simp]: "follow r \<Longrightarrow> pdigits acc r = (acc, r)"
  by (cases r) (auto simp: follow_def)

lemma pnat_show_nat: "follow r \<Longrightarrow> pnat (show_nat n @ r) = Some (n, r)"
proof -
  assume f: "follow r"
  obtain c cs where h: "show_nat n = c # cs" "is_digit c" "c = CHR ''0'' \<longrightarrow> n = 0 \<and> cs = []"
    using show_nat_head by blast
  have p: "pdigits 0 (c # cs @ r) = (n, r)"
    using pdigits_show_nat [of 0 n r] h f by simp
  show ?thesis
  proof (cases "c = CHR ''0''")
    case True
    with h f show ?thesis by (auto simp: pnat_def follow_def split: list.splits)
  next
    case False
    with h f p show ?thesis by (auto simp: pnat_def follow_def Let_def split: list.splits)
  qed
qed

lemma pint_show_int: "follow r \<Longrightarrow> pint (show_int i @ r) = Some (i, r)"
proof (cases "i < 0")
  case True
  assume "follow r"
  with True show ?thesis by (simp add: show_int_def pint_def pnat_show_nat)
next
  case False
  assume f: "follow r"
  obtain c cs where h: "show_nat (nat i) = c # cs" "is_digit c"
    using show_nat_head by blast
  then have "c \<noteq> CHR ''-''" by (auto simp: is_digit_def)
  with False f h pnat_show_nat [OF f, of "nat i"] show ?thesis
    by (simp add: show_int_def pint_def)
qed

subsection \<open>Strings round-trip\<close>

lemma hex_val_hex_char [simp]: "d < 16 \<Longrightarrow> hex_val (hex_char d) = Some d"
  by (auto simp: hex_val_def hex_char_def Let_def)

lemma esc_char_cases:
  obtains (plain) "esc_char c = [c]" "c \<noteq> CHR 0x22" "c \<noteq> CHR 0x5C" "\<not> of_char c < (32::nat)"
  | (escaped) e where "esc_char c = CHR 0x5C # e" "\<And>r. unescape (e @ r) = Some ([c], r)"
proof (cases "c \<in> {CHR 0x22, CHR 0x5C, CHR 0x08, CHR 0x0C, CHR 0x0A, CHR 0x0D, CHR 0x09}")
  case True
  then show ?thesis
    by (intro escaped [of "tl (esc_char c)"]) (auto simp: esc_char_def unescape_def)
next
  case False
  show ?thesis
  proof (cases "of_char c < (32::nat)")
    case True
    let ?n = "of_char c :: nat"
    have d: "?n div 16 < 16" "?n mod 16 < 16" "?n div 16 * 16 + ?n mod 16 = ?n"
      using True by auto
    have "hex_val (CHR ''0'') = Some 0" by (simp add: hex_val_def)
    with d True False show ?thesis
      by (intro escaped [of "tl (esc_char c)"])
        (auto simp: esc_char_def unescape_def utf8_chars_def)
  next
    case False': False
    with False show ?thesis by (intro plain) (auto simp: esc_char_def)
  qed
qed

lemma pstr_quote:
  "length s < n \<Longrightarrow> pstr n (concat (map esc_char s) @ CHR 0x22 # r) = Some (s, r)"
proof (induction s arbitrary: n)
  case Nil
  then show ?case by (cases n) auto
next
  case (Cons c s)
  then obtain m where n: "n = Suc m" "length s < m" by (cases n) auto
  from Cons.IH [OF n(2)] show ?case
    by (cases c rule: esc_char_cases) (auto simp: n)
qed

lemma pstring_quote: "pstring (concat (map esc_char s) @ CHR 0x22 # r) = Some (s, r)"
proof -
  have "length xs \<le> length (concat (map esc_char xs))" for xs
  proof (induction xs)
    case (Cons c xs)
    then show ?case by (cases c rule: esc_char_cases) auto
  qed simp
  from this [of s] have "length s < Suc (length (concat (map esc_char s) @ CHR 0x22 # r))"
    by simp
  then show ?thesis unfolding pstring_def by (rule pstr_quote)
qed

subsection \<open>Arrays, objects and documents round-trip\<close>

lemma skip_ws_nonws [simp]: "\<not> is_ws c \<Longrightarrow> skip_ws (c # cs) = c # cs"
  by simp

lemma dumps_head: "\<exists>c cs. dumps v = c # cs \<and> \<not> is_ws c \<and> c \<noteq> CHR '']'' \<and> c \<noteq> CHR 0x7D"
proof (cases v)
  case (JInt i)
  then show ?thesis
    using show_nat_head [of "nat i"] by (auto simp: show_int_def is_digit_def)
qed (auto simp: quote_def)

lemma skip_ws_dumps [simp]: "skip_ws (dumps v @ r) = dumps v @ r"
  using dumps_head [of v] by auto

lemma follow_sep [simp]:
  "follow (CHR '','' # r)" "follow (CHR '']'' # r)" "follow (CHR 0x7D # r)" "follow []"
  by (simp_all add: follow_def is_digit_def)

lemma pelems_join:
  assumes "vs \<noteq> []" "length vs \<le> k"
    and "\<And>v r. v \<in> set vs \<Longrightarrow> follow r \<Longrightarrow> p (dumps v @ r) = Some (jsort v, r)"
  shows "pelems p k (join '','' (map dumps vs) @ CHR '']'' # r) = Some (map jsort vs, r)"
  using assms
proof (induction vs arbitrary: k rule: list_nonempty_induct)
  case (single v)
  then show ?case by (cases k) auto
next
  case (cons v vs)
  then obtain m w ws where k: "k = Suc m" "length vs \<le> m" "vs = w # ws"
    by (cases k; cases vs) auto
  have "pelems p m (join '','' (map dumps vs) @ CHR '']'' # r) = Some (map jsort vs, r)"
    using cons k by auto
  moreover have "skip_ws (join '','' (map dumps vs) @ x) = join '','' (map dumps vs) @ x" for x
    by (cases ws) (auto simp: k)
  ultimately show ?case
    using cons.prems by (simp add: k)
qed

definition member_text :: "string \<times> json \<Rightarrow> string" where
  "member_text kv = quote (fst kv) @ '':'' @ dumps (snd kv)"

lemma pmembers_join:
  assumes "kvs \<noteq> []" "length kvs \<le> k"
    and "\<And>kv r. kv \<in> set kvs \<Longrightarrow> follow r \<Longrightarrow> p (dumps (snd kv) @ r) = Some (jsort (snd kv), r)"
  shows "pmembers p k (join '','' (map member_text kvs) @ CHR 0x7D # r)
         = Some (map (\<lambda>kv. (fst kv, jsort (snd kv))) kvs, r)"
  using assms
proof (induction kvs arbitrary: k rule: list_nonempty_induct)
  case (single kv)
  then show ?case
    by (cases k) (auto simp: member_text_def quote_def pstring_quote)
next
  case (cons kv kvs)
  then obtain m w ws where k: "k = Suc m" "length kvs \<le> m" "kvs = w # ws"
    by (cases k; cases kvs) auto
  have "pmembers p m (join '','' (map member_text kvs) @ CHR 0x7D # r)
      = Some (map (\<lambda>kv. (fst kv, jsort (snd kv))) kvs, r)"
    using cons k by auto
  moreover have "skip_ws (join '','' (map member_text kvs) @ x) = join '','' (map member_text kvs) @ x"
    for x
    by (cases ws) (auto simp: k member_text_def quote_def)
  ultimately show ?case
    using cons.prems by (simp add: k) (simp add: member_text_def quote_def pstring_quote)
qed

lemma insort_key_map_snd:
  "insort_key fst (g x) (map g xs) = map g (insort_key fst x xs)"
  if "\<And>y. fst (g y) = fst y"
  by (induction xs) (auto simp: that)

lemma sort_key_map_snd:
  "sort_key fst (map (\<lambda>kv. (fst kv, f (snd kv))) kvs)
   = map (\<lambda>kv. (fst kv, f (snd kv))) (sort_key fst kvs)"
  by (induction kvs) (auto simp: insort_key_map_snd [where g = "\<lambda>kv. (fst kv, f (snd kv))", simplified])

lemma alist_update_new: "k \<notin> fst ` set d \<Longrightarrow> AList.update k v d = d @ [(k, v)]"
  by (induction d) auto

lemma dict_of_pairs_distinct: "distinct (map fst kvs) \<Longrightarrow> dict_of_pairs kvs = kvs"
proof -
  have "distinct (map fst (d @ kvs)) \<Longrightarrow> foldl (\<lambda>d kv. AList.update (fst kv) (snd kv) d) d kvs = d @ kvs"
    for d
  proof (induction kvs arbitrary: d)
    case (Cons kv kvs)
    have "AList.update (fst kv) (snd kv) d = d @ [kv]"
      using Cons.prems by (simp add: alist_update_new)
    then show ?case using Cons.IH [of "d @ [kv]"] Cons.prems by auto
  qed simp
  from this [of "[]"] show "distinct (map fst kvs) \<Longrightarrow> ?thesis" by (simp add: dict_of_pairs_def)
qed

lemma dumps_obj:
  "dumps (JObj kvs) = CHR 0x7B # join '','' (map member_text (sort_key fst kvs)) @ [CHR 0x7D]"
  by (simp add: sort_key_map_snd member_text_def [abs_def] o_def)

lemma join_length: "x \<in> set xs \<Longrightarrow> length x \<le> length (join sep xs)"
  by (induction sep xs rule: join.induct) auto

lemma length_join: "length (join '','' xs) = sum_list (map length xs) + (length xs - 1)"
  by (induction "'',''" xs rule: join.induct) auto

lemma length_join_ge: "(\<And>x. x \<in> set xs \<Longrightarrow> x \<noteq> []) \<Longrightarrow> length xs \<le> length (join sep xs)"
proof (induction sep xs rule: join.induct)
  case (2 sep x)
  then show ?case by (cases x) auto
next
  case (3 sep x y xs)
  then have "x \<noteq> []" and "length (y # xs) \<le> length (join sep (y # xs))" by auto
  then show ?case by (cases x) auto
qed simp

lemma dumps_nonempty [simp]: "dumps v \<noteq> []"
  using dumps_head [of v] by auto

lemma jsort_obj:
  "jsort (JObj kvs) = JObj (map (\<lambda>kv. (fst kv, jsort (snd kv))) (sort_key fst kvs))"
  by (simp add: sort_key_map_snd)

lemma pval_dumps_array:
  assumes "vs \<noteq> []"
    and "\<And>v r. v \<in> set vs \<Longrightarrow> follow r \<Longrightarrow> pval n (dumps v @ r) = Some (jsort v, r)"
  shows "pval (Suc n) (dumps (JArr vs) @ r) = Some (JArr (map jsort vs), r)"
proof -
  obtain w ws where vs: "vs = w # ws" using assms(1) by (cases vs) auto
  let ?t = "join '','' (map dumps vs)"
  have "length (map dumps vs) \<le> length ?t" by (rule length_join_ge) auto
  then have p: "pelems (pval n) (Suc (length (?t @ CHR '']'' # r))) (?t @ CHR '']'' # r)
      = Some (map jsort vs, r)"
    using assms by (intro pelems_join) auto
  obtain c cs where c: "?t = c # cs" "\<not> is_ws c" "c \<noteq> CHR '']''"
    using dumps_head [of w] by (cases ws) (auto simp: vs)
  from p c show ?thesis by simp
qed

lemma pval_dumps_object:
  assumes "kvs \<noteq> []" "distinct (map fst kvs)"
    and "\<And>kv r. kv \<in> set kvs \<Longrightarrow> follow r \<Longrightarrow> pval n (dumps (snd kv) @ r) = Some (jsort (snd kv), r)"
  shows "pval (Suc n) (dumps (JObj kvs) @ r) = Some (jsort (JObj kvs), r)"
proof -
  let ?s = "sort_key fst kvs"
  let ?t = "join '','' (map member_text ?s)"
  have ne: "?s \<noteq> []" using assms(1) by (metis length_0_conv length_sort)
  then obtain w ws where s: "?s = w # ws" by (cases ?s) auto
  have "length ?s \<le> length ?t"
    using length_join_ge [of "map member_text ?s"] by (auto simp: member_text_def quote_def)
  then have p: "pmembers (pval n) (Suc (length (?t @ CHR 0x7D # r))) (?t @ CHR 0x7D # r)
      = Some (map (\<lambda>kv. (fst kv, jsort (snd kv))) ?s, r)"
    using assms ne by (intro pmembers_join) auto
  have d: "distinct (map fst (map (\<lambda>kv. (fst kv, jsort (snd kv))) ?s))"
    using assms(2) by (simp add: o_def) (metis distinct_map distinct_sort set_sort)
  obtain cs where c: "?t = CHR 0x22 # cs"
    by (cases ws) (auto simp: s member_text_def quote_def)
  show ?thesis
    unfolding dumps_obj jsort_obj
    using p c dict_of_pairs_distinct [OF d] by simp
qed

lemma pval_dumps:
  "jwf v \<Longrightarrow> length (dumps v) \<le> n \<Longrightarrow> follow r \<Longrightarrow> pval n (dumps v @ r) = Some (jsort v, r)"
proof (induction v arbitrary: n r rule: dumps.induct)
  case (5 xs)
  then obtain m where n: "n = Suc m" by (cases n) auto
  show ?case
  proof (cases "xs = []")
    case False
    have "pval m (dumps v @ r) = Some (jsort v, r)" if "v \<in> set xs" "follow r" for v r
    proof (rule "5.IH" [OF that(1)])
      show "jwf v" using "5.prems" that by simp
      show "length (dumps v) \<le> m"
        using "5.prems"(2) join_length [of "dumps v" "map dumps xs" "'',''"] that n by simp
    qed (rule that)
    with False show ?thesis unfolding n jsort.simps by (intro pval_dumps_array)
  qed (simp add: n)
next
  case (6 kvs)
  then obtain m where n: "n = Suc m" by (cases n) auto
  show ?case
  proof (cases "kvs = []")
    case False
    have "pval m (dumps (snd kv) @ r) = Some (jsort (snd kv), r)" if kv: "kv \<in> set kvs" and f: "follow r" for kv r
    proof (rule "6.IH" [OF kv])
      show "jwf (snd kv)" using "6.prems" kv by simp
      have "length (member_text kv) \<le> length (join '','' (map member_text (sort_key fst kvs)))"
        using kv by (intro join_length) simp
      then show "length (dumps (snd kv)) \<le> m"
        using "6.prems"(2) unfolding dumps_obj n by (simp add: member_text_def)
    qed (rule f)
    with False "6.prems"(1) show ?thesis unfolding n by (intro pval_dumps_object) auto
  qed (simp add: n)
next
  case (3 i)
  then obtain m where n: "n = Suc m"
    using dumps_nonempty [of "JInt i"] by (cases n) (simp_all del: dumps_nonempty)
  have "\<exists>c cs. show_int i = c # cs \<and> (is_digit c \<or> c = CHR ''-'')"
    using show_nat_head [of "nat i"] unfolding show_int_def by (cases "i < 0") auto
  then obtain c cs where h: "show_int i = c # cs" "is_digit c \<or> c = CHR ''-''" by blast
  have c: "c \<notin> {CHR 0x22, CHR ''['', CHR 0x7B, CHR ''n'', CHR ''t'', CHR ''f''}"
    using h(2) by (auto simp: is_digit_def)
  from c show ?case
    using pint_show_int [OF "3.prems"(3), of i] by (simp add: n h)
next
  case (4 s)
  then obtain m where n: "n = Suc m" by (cases n) (auto simp: quote_def)
  show ?case by (simp add: n quote_def pstring_quote)
next
  case 1
  then obtain m where n: "n = Suc m" by (cases n) auto
  show ?case by (simp add: n)
next
  case (2 b)
  then obtain m where n: "n = Suc m" by (cases n) (auto split: if_splits)
  show ?case by (simp add: n)
qed

theorem json_loads_dumps: "jwf v \<Longrightarrow> json_loads (dumps v) = Inr (jsort v)"
  using pval_dumps [of v "Suc (length (dumps v))" "[]"] skip_ws_dumps [of v "[]"]
  by (simp add: json_loads_def)

subsection \<open>The bounds of the parser are enough\<close>

lemma skip_ws_length: "length (skip_ws s) \<le> length s"
  by (induction s) auto

lemma hex4_length: "hex4 s = Some (n, r) \<Longrightarrow> length s = length r + 4"
  by (induction s rule: hex4.induct) (auto split: option.splits)

lemma unescape_length: "unescape s = Some (t, r) \<Longrightarrow> length r < length s"
  by (auto simp: unescape_def split: list.splits if_splits option.splits prod.splits
      dest!: hex4_length)

lemma pstr_length: "pstr n s = Some (t, r) \<Longrightarrow> length r < length s"
proof (induction n s arbitrary: t rule: pstr.induct)
  case (3 n c cs)
  show ?case
  proof (cases "c = CHR 0x5C")
    case True
    with "3.prems" obtain u q v where "unescape cs = Some (u, q)" "pstr n q = Some (v, r)"
      by (auto split: option.splits)
    with "3.IH"(1) [OF _ True, of "(u, q)" u q v] True show ?thesis
      by (auto dest: unescape_length)
  next
    case False
    with "3.prems" "3.IH"(2) show ?thesis by (fastforce split: if_splits)
  qed
qed auto

lemma pstr_fuel: "length s < n \<Longrightarrow> length s < m \<Longrightarrow> pstr n s = pstr m s"
proof (induction n arbitrary: s m)
  case (Suc n)
  obtain k where m: "m = Suc k" using Suc.prems by (cases m) auto
  show ?case
  proof (cases s)
    case (Cons c cs)
    have 1: "pstr n cs = pstr k cs" using Suc.prems by (intro Suc.IH) (simp_all add: Cons m)
    have 2: "pstr n r = pstr k r" if "unescape cs = Some (t, r)" for t r
      using Suc.prems unescape_length [OF that] by (intro Suc.IH) (simp_all add: Cons m)
    show ?thesis unfolding Cons m by (simp add: 1 2 split: option.split prod.split)
  qed (simp add: m)
qed simp

lemma pdigits_length: "length (snd (pdigits a s)) \<le> length s"
  by (induction a s rule: pdigits.induct) auto

lemma pnat_length: "pnat s = Some (n, r) \<Longrightarrow> length r < length s"
proof (cases s)
  case (Cons c cs)
  assume a: "pnat s = Some (n, r)"
  have "length (snd (pdigits (digit_val c) cs)) \<le> length cs" by (rule pdigits_length)
  with a Cons show ?thesis
    by (auto simp: pnat_def Let_def split: if_splits prod.splits list.splits)
qed (simp add: pnat_def)

lemma pint_length: "pint s = Some (i, r) \<Longrightarrow> length r < length s"
  by (auto simp: pint_def split: list.splits if_splits dest: pnat_length)

lemma plit_length: "plit t s = Some r \<Longrightarrow> length s = length t + length r"
  by (induction t s rule: plit.induct) (auto split: if_splits)

text \<open>A parser that always consumes, and whose result on short texts does not depend on its
  bound, keeps both properties inside arrays and objects.\<close>

lemma pelems_length:
  assumes p: "\<And>s v r. p s = Some (v, r) \<Longrightarrow> length r < length s"
  shows "pelems p k s = Some (vs, r) \<Longrightarrow> length r < length s"
proof (induction k arbitrary: s vs)
  case (Suc k)
  obtain v r0 where v: "p s = Some (v, r0)" using Suc.prems by (auto split: option.splits)
  obtain c cs where c: "skip_ws r0 = c # cs" using Suc.prems v by (auto split: list.splits)
  have l: "length cs < length s" using p [OF v] skip_ws_length [of r0] c by simp
  show ?case
  proof (cases "c = CHR '']''")
    case True
    then show ?thesis using Suc.prems v c l by simp
  next
    case False
    then obtain ws where "pelems p k (skip_ws cs) = Some (ws, r)"
      using Suc.prems v c by (auto split: if_splits)
    then have "length r < length (skip_ws cs)" by (rule Suc.IH)
    then show ?thesis using l skip_ws_length [of cs] by simp
  qed
qed simp

lemma pelems_fuel:
  assumes p: "\<And>s v r. p s = Some (v, r) \<Longrightarrow> length r < length s"
    and q: "\<And>t. length t \<le> length s \<Longrightarrow> p t = q t"
  shows "length s < k \<Longrightarrow> length s < m \<Longrightarrow> pelems p k s = pelems q m s"
  using q
proof (induction k arbitrary: s m)
  case (Suc k)
  then obtain j where m: "m = Suc j" by (cases m) auto
  have pq: "q s = p s" using Suc.prems(3) by simp
  show ?case
  proof (cases "p s")
    case (Some vr)
    obtain v r0 where v: "vr = (v, r0)" by (cases vr)
    show ?thesis
    proof (cases "skip_ws r0")
      case (Cons c cs)
      have l: "length (skip_ws cs) < length s"
        using p [of s v r0] Some v skip_ws_length [of r0] skip_ws_length [of cs] Cons by simp
      have "pelems p k (skip_ws cs) = pelems q j (skip_ws cs)"
        using l Suc.prems m by (intro Suc.IH) auto
      then show ?thesis using Some v Cons pq m by simp
    qed (use Some v pq m in simp)
  qed (use pq m in simp)
qed simp

lemma pmembers_length:
  assumes p: "\<And>s v r. p s = Some (v, r) \<Longrightarrow> length r < length s"
  shows "pmembers p k s = Some (vs, r) \<Longrightarrow> length r < length s"
proof (induction k arbitrary: s vs)
  case (Suc k)
  from Suc.prems obtain qs key r1 cs v r2 d ds where e: "s = CHR 0x22 # qs"
    "pstring qs = Some (key, r1)" "skip_ws r1 = CHR '':'' # cs" "p (skip_ws cs) = Some (v, r2)"
    "skip_ws r2 = d # ds"
    by (auto split: list.splits option.splits if_splits)
  have l: "length ds < length s"
    using pstr_length [of "Suc (length qs)" qs key r1] p [OF e(4)] skip_ws_length [of r1] skip_ws_length [of cs]
      skip_ws_length [of r2] e by (simp add: pstring_def)
  show ?case
  proof (cases "d = CHR 0x7D")
    case True
    then show ?thesis using Suc.prems e l by simp
  next
    case False
    then obtain ws where "pmembers p k (skip_ws ds) = Some (ws, r)"
      using Suc.prems e by (auto split: if_splits)
    then have "length r < length (skip_ws ds)" by (rule Suc.IH)
    then show ?thesis using l skip_ws_length [of ds] by simp
  qed
qed simp

lemma pmembers_fuel:
  assumes p: "\<And>s v r. p s = Some (v, r) \<Longrightarrow> length r < length s"
    and q: "\<And>t. length t \<le> length s \<Longrightarrow> p t = q t"
  shows "length s < k \<Longrightarrow> length s < m \<Longrightarrow> pmembers p k s = pmembers q m s"
  using q
proof (induction k arbitrary: s m)
  case (Suc k)
  then obtain j where m: "m = Suc j" by (cases m) auto
  show ?case
  proof (cases "\<exists>qs key r1 cs. s = CHR 0x22 # qs \<and> pstring qs = Some (key, r1) \<and> skip_ws r1 = CHR '':'' # cs")
    case False
    then show ?thesis by (auto simp: m split: list.splits option.splits)
  next
    case True
    then obtain qs key r1 cs where e: "s = CHR 0x22 # qs" "pstring qs = Some (key, r1)"
      "skip_ws r1 = CHR '':'' # cs" by blast
    have l1: "length (skip_ws cs) < length s"
      using pstr_length [of "Suc (length qs)" qs key r1] skip_ws_length [of r1] skip_ws_length [of cs] e
      by (simp add: pstring_def)
    then have pq: "q (skip_ws cs) = p (skip_ws cs)" using Suc.prems(3) by simp
    have "pmembers p k (skip_ws ds) = pmembers q j (skip_ws ds)"
      if "p (skip_ws cs) = Some (v, r2)" "skip_ws r2 = d # ds" for v r2 d ds
    proof -
      have "length (skip_ws ds) < length s"
        using p [OF that(1)] skip_ws_length [of r2] skip_ws_length [of ds] that(2) l1 by simp
      then show ?thesis using Suc.prems m by (intro Suc.IH) auto
    qed
    then show ?thesis
      using e pq by (auto simp: m split: list.splits option.splits)
  qed
qed simp

lemma pval_length: "pval n s = Some (v, r) \<Longrightarrow> length r < length s"
proof (induction n arbitrary: s v r)
  case (Suc n)
  have pe: "pelems (pval n) k t = Some (vs, u) \<Longrightarrow> length u < length t" for k t vs u
    using Suc.IH by (rule pelems_length)
  have pm: "pmembers (pval n) k t = Some (kvs, u) \<Longrightarrow> length u < length t" for k t kvs u
    using Suc.IH by (rule pmembers_length)
  obtain c cs where s: "s = c # cs" using Suc.prems by (cases s) auto
  have w: "skip_ws cs = d # ds \<Longrightarrow> length (d # ds) \<le> length cs" for d ds
    using skip_ws_length [of cs] by simp
  show ?case
    using Suc.prems unfolding s
    by (auto simp: pstring_def simp del: pelems.simps pmembers.simps split: if_splits list.splits
        dest!: pstr_length plit_length pint_length w pe pm)
qed simp


theorem pval_fuel: "length s < n \<Longrightarrow> length s < m \<Longrightarrow> pval n s = pval m s"
proof (induction n arbitrary: s m)
  case (Suc n)
  obtain k where m: "m = Suc k" using Suc.prems by (cases m) auto
  show ?case
  proof (cases s)
    case (Cons c cs)
    have q: "pval n t = pval k t" if "length t \<le> length cs" for t
      using Suc.prems that by (intro Suc.IH) (simp_all add: Cons m)
    have "pelems (pval n) (length s) t = pelems (pval k) (length s) t"
      if "length t \<le> length cs" for t
      by (rule pelems_fuel [OF pval_length]) (use q that in \<open>simp_all add: Cons\<close>)
    moreover have "pmembers (pval n) (length s) t = pmembers (pval k) (length s) t"
      if "length t \<le> length cs" for t
      by (rule pmembers_fuel [OF pval_length]) (use q that in \<open>simp_all add: Cons\<close>)
    ultimately have "pelems (pval n) (length s) (d # ds) = pelems (pval k) (length s) (d # ds)"
      and "pmembers (pval n) (length s) (d # ds) = pmembers (pval k) (length s) (d # ds)"
      if "skip_ws cs = d # ds" for d ds
      using skip_ws_length [of cs] that by simp_all
    then show ?thesis
      unfolding m by (simp add: Cons del: pelems.simps pmembers.simps split: list.split)
  qed (simp add: m)
qed simp

subsection \<open>Sorting the keys changes nothing a reader can see\<close>

lemma distinct_fst_sort [simp]: "distinct (map fst (sort_key fst kvs)) = distinct (map fst kvs)"
  by (metis distinct_map distinct_sort set_sort)

lemma map_of_jsort:
  assumes "distinct (map fst kvs)"
  shows "map_of (map (\<lambda>kv. (fst kv, f (snd kv))) (sort_key fst kvs)) k = map_option f (map_of kvs k)"
proof -
  have "map_of (sort_key fst kvs) = map_of kvs"
    using assms by (subst map_of_inject_set) auto
  then show ?thesis
    using map_of_map [of f "sort_key fst kvs"] by (simp add: case_prod_beta')
qed

lemma jsort_wf: "jwf v \<Longrightarrow> jwf (jsort v)"
proof (induction v rule: jsort.induct)
  case (2 kvs)
  then show ?case
    unfolding jsort_obj by (auto simp: o_def)
qed auto

lemma sort_key_sorted_map:
  "sort_key fst (map (\<lambda>kv. (fst kv, f (snd kv))) (sort_key fst kvs))
   = map (\<lambda>kv. (fst kv, f (snd kv))) (sort_key fst kvs)"
  by (rule sort_key_id_if_sorted) (simp add: o_def)

lemma dumps_jsort: "dumps (jsort v) = dumps v"
proof (induction v rule: jsort.induct)
  case (2 kvs)
  have *: "sort_key fst (map (\<lambda>kv. (fst kv, dumps (snd kv))) (map (\<lambda>kv. (fst kv, jsort (snd kv))) (sort_key fst kvs)))
     = sort_key fst (map (\<lambda>kv. (fst kv, dumps (snd kv))) kvs)"
  proof -
    have e: "map (\<lambda>kv. (fst kv, dumps (jsort (snd kv)))) (sort_key fst kvs)
        = map (\<lambda>kv. (fst kv, dumps (snd kv))) (sort_key fst kvs)"
      using 2 by (intro map_cong) auto
    show ?thesis
      unfolding map_map o_def fst_conv snd_conv e sort_key_sorted_map
      by (simp only: sort_key_map_snd)
  qed
  show ?case unfolding jsort_obj dumps.simps * ..
qed (auto cong: map_cong)

lemma jsort_idem: "jsort (jsort v) = jsort v"
proof (induction v rule: jsort.induct)
  case (2 kvs)
  then show ?case unfolding jsort_obj by (simp add: sort_key_sorted_map o_def)
qed auto

lemma canonical_json_eq_iff: "jwf v \<Longrightarrow> jwf w \<Longrightarrow> canonical_json v = canonical_json w \<longleftrightarrow> jsort v = jsort w"
  unfolding canonical_json_def str_encode_inj
  by (metis dumps_jsort json_loads_dumps sum.inject(2))

subsection \<open>UTF-8\<close>

text \<open>\<open>bytes.decode("utf-8")\<close> on the well-formed byte sequences of the Unicode standard
  (no overlong forms, no surrogates, nothing above U+10FFFF).\<close>

definition is_cont :: "byte \<Rightarrow> bool" where
  "is_cont b = (0x80 \<le> b \<and> b \<le> 0xBF)"

fun utf8_valid :: "bytes \<Rightarrow> bool" where
  "utf8_valid [] = True"
| "utf8_valid (a # bs) =
     (if a \<le> 0x7F then utf8_valid bs
      else case bs of [] \<Rightarrow> False
      | b # cs \<Rightarrow>
        if 0xC2 \<le> a \<and> a \<le> 0xDF then is_cont b \<and> utf8_valid cs
        else case cs of [] \<Rightarrow> False
        | c # ds \<Rightarrow>
          if 0xE0 \<le> a \<and> a \<le> 0xEF then
            is_cont b \<and> (a = 0xE0 \<longrightarrow> 0xA0 \<le> b) \<and> (a = 0xED \<longrightarrow> b \<le> 0x9F) \<and> is_cont c
            \<and> utf8_valid ds
          else case ds of [] \<Rightarrow> False
          | d # es \<Rightarrow>
            0xF0 \<le> a \<and> a \<le> 0xF4 \<and> is_cont b \<and> (a = 0xF0 \<longrightarrow> 0x90 \<le> b) \<and> (a = 0xF4 \<longrightarrow> b \<le> 0x8F)
            \<and> is_cont c \<and> is_cont d \<and> utf8_valid es)"

definition utf8_decode :: "bytes \<Rightarrow> string res" where
  "utf8_decode bs = (if utf8_valid bs then Inr (str_of_bytes bs) else Inl UnicodeError)"

text \<open>A string that represents a Python \<open>str\<close>.\<close>

definition str_ok :: "string \<Rightarrow> bool" where
  "str_ok s = utf8_valid (str_encode s)"

lemma utf8_decode_encode: "str_ok s \<Longrightarrow> utf8_decode (str_encode s) = Inr s"
  by (simp add: utf8_decode_def str_ok_def)

lemma is_cont_high [simp]: "is_cont b \<Longrightarrow> \<not> b \<le> 0x7F"
  by (simp add: is_cont_def word_le_nat_alt)

lemma utf8_valid_cases:
  assumes "utf8_valid s"
  obtains (empty) "s = []"
  | (one) a t where "s = a # t" "a \<le> 0x7F" "utf8_valid t"
  | (multi) p t where "s = p @ t" "p \<noteq> []" "\<forall>x \<in> set p. \<not> x \<le> 0x7F"
      "\<And>u. utf8_valid (p @ u) = utf8_valid u" "utf8_valid t"
proof (cases s)
  case s: (Cons a bs)
  show ?thesis
  proof (cases "a \<le> 0x7F")
    case True
    then show ?thesis using one [of a bs] assms s by simp
  next
    case a: False
    then obtain b cs where b: "bs = b # cs" using assms s by (cases bs) auto
    show ?thesis
    proof (cases "0xC2 \<le> a \<and> a \<le> 0xDF")
      case True
      then show ?thesis using multi [of "[a, b]" cs] assms s a b by simp
    next
      case a2: False
      then obtain c ds where c: "cs = c # ds"
        using assms s a b by (cases cs) (simp_all split: if_splits)
      show ?thesis
      proof (cases "0xE0 \<le> a \<and> a \<le> 0xEF")
        case True
        then show ?thesis using multi [of "[a, b, c]" ds] assms s a b a2 c by simp
      next
        case a3: False
        then obtain d es where d: "ds = d # es"
          using assms s a b a2 c by (cases ds) (simp_all split: if_splits)
        then show ?thesis using multi [of "[a, b, c, d]" es] assms s a b a2 c a3 by simp
      qed
    qed
  qed
qed (rule empty)

lemma utf8_valid_append: "utf8_valid a \<Longrightarrow> utf8_valid b \<Longrightarrow> utf8_valid (a @ b)"
proof (induction a rule: length_induct)
  case (1 a)
  from "1.prems"(1) show ?case
  proof (cases rule: utf8_valid_cases)
    case (one x t)
    then show ?thesis using "1.IH" "1.prems" by simp
  next
    case (multi p t)
    then show ?thesis using "1.IH" "1.prems" by (simp del: utf8_valid.simps)
  qed (use "1.prems" in simp)
qed

lemma str_ok_Nil [simp]: "str_ok []"
  by (simp add: str_ok_def str_encode_def)

lemma str_ok_append [intro]: "str_ok s \<Longrightarrow> str_ok t \<Longrightarrow> str_ok (s @ t)"
  by (simp add: str_ok_def utf8_valid_append)

lemma str_ok_Cons: "of_char c \<le> (127::nat) \<Longrightarrow> str_ok (c # s) = str_ok s"
proof -
  assume "of_char c \<le> (127::nat)"
  then have "(of_char c :: byte) \<le> 0x7F"
    by (simp add: word_le_nat_alt)
  then show ?thesis by (simp add: str_ok_def str_encode_def)
qed

definition ascii :: "string \<Rightarrow> bool" where
  "ascii s = (\<forall>c \<in> set s. of_char c \<le> (127::nat))"

lemma str_ok_ascii: "ascii s \<Longrightarrow> str_ok s"
  by (induction s) (auto simp: ascii_def str_ok_Cons)

text \<open>All strings and keys of a document represent Python strings.\<close>

fun jstr_ok :: "json \<Rightarrow> bool" where
  "jstr_ok (JStr s) = str_ok s"
| "jstr_ok (JArr xs) = (\<forall>x \<in> set xs. jstr_ok x)"
| "jstr_ok (JObj kvs) = (\<forall>kv \<in> set kvs. str_ok (fst kv) \<and> jstr_ok (snd kv))"
| "jstr_ok _ = True"

definition json_ok :: "json \<Rightarrow> bool" where
  "json_ok v = (jwf v \<and> jstr_ok v)"

lemma json_ok_atoms [simp]:
  "json_ok JNull" "json_ok (JInt i)" "json_ok (JBool b)" "json_ok (JStr s) \<longleftrightarrow> str_ok s"
  by (simp_all add: json_ok_def)

lemma json_ok_obj:
  "json_ok (JObj d) \<longleftrightarrow> distinct (map fst d) \<and> (\<forall>kv \<in> set d. str_ok (fst kv) \<and> json_ok (snd kv))"
  by (auto simp: json_ok_def)

lemma byte_le_7F: "(of_char c :: byte) \<le> 0x7F \<longleftrightarrow> of_char c \<le> (127::nat)"
  by (simp add: word_le_nat_alt)

lemma esc_char_high: "127 < (of_char c :: nat) \<Longrightarrow> esc_char c = [c]"
proof -
  assume h: "127 < (of_char c :: nat)"
  then have "c \<noteq> CHR 0x22" "c \<noteq> CHR 0x5C" "c \<noteq> CHR 0x08" "c \<noteq> CHR 0x0C" "c \<noteq> CHR 0x0A"
    "c \<noteq> CHR 0x0D" "c \<noteq> CHR 0x09" "\<not> of_char c < (32::nat)"
    by (intro notI; simp)+
  then show ?thesis by (simp only: esc_char_def if_False)
qed

lemma hex_char_ascii: "d < 16 \<Longrightarrow> of_char (hex_char d) \<le> (127::nat)"
  by (simp add: hex_char_def)

lemma ascii_esc_char: "of_char c \<le> (127::nat) \<Longrightarrow> ascii (esc_char c)"
proof (cases "of_char c < (32::nat)")
  case True
  then have "of_char c div 16 < (16::nat)" by auto
  with True show ?thesis unfolding esc_char_def by (simp add: ascii_def hex_char_ascii)
qed (simp add: esc_char_def ascii_def)

lemma str_ok_esc: "str_ok s \<Longrightarrow> str_ok (concat (map esc_char s))"
proof (induction s rule: length_induct)
  case (1 s)
  from "1.prems" have "utf8_valid (str_encode s)" by (simp add: str_ok_def)
  then show ?case
  proof (cases rule: utf8_valid_cases)
    case empty
    then show ?thesis by (simp add: str_encode_def)
  next
    case (one a t)
    then obtain c r where s: "s = c # r" "a = of_char c" "t = str_encode r"
      by (cases s) (auto simp: str_encode_def)
    have "str_ok (concat (map esc_char r))" using 1 one s by (simp add: str_ok_def)
    moreover have "str_ok (esc_char c)"
      using one s by (intro str_ok_ascii ascii_esc_char) (simp add: byte_le_7F)
    ultimately show ?thesis using s by auto
  next
    case (multi p t)
    define q where "q = take (length p) s"
    define r where "r = drop (length p) s"
    have s: "s = q @ r" and p: "p = str_encode q" and t: "t = str_encode r"
      using multi(1) by (auto simp: q_def r_def str_encode_def take_map [symmetric] drop_map [symmetric])
    have "length r < length s" using multi(2) s p by (cases q) (auto simp: str_encode_def)
    then have "str_ok (concat (map esc_char r))" using "1.IH" multi(5) t by (simp add: str_ok_def)
    moreover have "concat (map esc_char q) = q"
    proof -
      have m: "map esc_char q = map (\<lambda>c. [c]) q"
        using multi(3) p by (intro map_cong) (auto simp: str_encode_def byte_le_7F intro!: esc_char_high)
      show ?thesis unfolding m by simp
    qed
    ultimately show ?thesis
      using multi(4) [of "str_encode (concat (map esc_char r))"] s p by (simp add: str_ok_def)
  qed
qed

lemma str_ok_Cons_simps [simp]:
  "str_ok (CHR 0x22 # s) = str_ok s" "str_ok (CHR 0x7B # s) = str_ok s" "str_ok (CHR 0x7D # s) = str_ok s"
  "str_ok (CHR ''['' # s) = str_ok s" "str_ok (CHR '']'' # s) = str_ok s" "str_ok (CHR '':'' # s) = str_ok s"
  "str_ok (CHR '','' # s) = str_ok s"
  by (simp_all add: str_ok_Cons)

lemma str_ok_quote: "str_ok s \<Longrightarrow> str_ok (quote s)"
  by (auto simp: quote_def intro!: str_ok_append str_ok_esc)

lemma str_ok_join: "(\<And>x. x \<in> set xs \<Longrightarrow> str_ok x) \<Longrightarrow> str_ok (join '','' xs)"
  by (induction "'',''" xs rule: join.induct) (auto intro: str_ok_append)

lemma ascii_show_nat: "ascii (show_nat n)"
proof (induction n rule: show_nat.induct)
  case (1 n)
  then show ?case by (subst show_nat.simps) (auto simp: ascii_def digit_char_def)
qed

lemma str_ok_dumps: "jstr_ok v \<Longrightarrow> str_ok (dumps v)"
proof (induction v rule: dumps.induct)
  case (3 i)
  have "ascii (show_int i)" using ascii_show_nat by (auto simp: show_int_def ascii_def)
  then show ?case by (simp add: str_ok_ascii)
next
  case (5 xs)
  then show ?case by (auto intro!: str_ok_append str_ok_join)
next
  case (6 kvs)
  then show ?case
    unfolding dumps_obj by (auto intro!: str_ok_append str_ok_join str_ok_quote simp: member_text_def)
qed (auto simp: str_ok_quote str_ok_ascii ascii_def)

definition loads_bytes :: "bytes \<Rightarrow> json res" where
  "loads_bytes b = bindE (utf8_decode b) json_loads"

theorem loads_canonical_json: "json_ok v \<Longrightarrow> loads_bytes (canonical_json v) = Inr (jsort v)"
  by (simp add: loads_bytes_def canonical_json_def json_ok_def utf8_decode_encode str_ok_dumps
      json_loads_dumps)

text \<open>What a printed object answers to lookups when it is read back.\<close>

lemma loads_object:
  assumes "json_ok (JObj kvs)"
  obtains d where "loads_bytes (canonical_json (JObj kvs)) = Inr (JObj d)"
    "\<And>k. map_of d k = map_option jsort (map_of kvs k)"
proof (rule that)
  show "loads_bytes (canonical_json (JObj kvs)) = Inr (JObj (map (\<lambda>kv. (fst kv, jsort (snd kv))) (sort_key fst kvs)))"
    using loads_canonical_json [OF assms] by (simp only: jsort_obj)
  have "distinct (map fst kvs)" using assms by (simp add: json_ok_def)
  then show "map_of (map (\<lambda>kv. (fst kv, jsort (snd kv))) (sort_key fst kvs)) k = map_option jsort (map_of kvs k)" for k
    by (rule map_of_jsort)
qed

interpretation json_codec: codec canonical_json loads_bytes "\<lambda>v. json_ok v \<and> jsort v = v"
  by unfold_locales (auto simp: loads_canonical_json)

subsection \<open>What Python does with a parsed document\<close>

text \<open>\<open>d[k]\<close> on a value that should be a dict; \<open>d.get(k)\<close> on a dict is \<open>map_of d k\<close>,
  assignment is \<open>AList.update\<close>, \<open>d.pop(k, None)\<close> is \<open>AList.delete\<close>.\<close>

fun getitem :: "json \<Rightarrow> string \<Rightarrow> json res" where
  "getitem (JObj d) k = of_option KeyError (map_of d k)"
| "getitem _ k = Inl TypeError"

definition py_space :: "char \<Rightarrow> bool" where
  "py_space c = (let n = (of_char c :: nat) in (9 \<le> n \<and> n \<le> 13) \<or> (28 \<le> n \<and> n \<le> 32))"

definition lstrip :: "string \<Rightarrow> string" where
  "lstrip s = dropWhile py_space s"

definition strip :: "string \<Rightarrow> string" where
  "strip s = rev (dropWhile py_space (rev (lstrip s)))"

text \<open>The digits of \<open>int(text)\<close>: single underscores may separate them.\<close>

fun int_digits :: "nat \<Rightarrow> string \<Rightarrow> nat option" where
  "int_digits acc [] = None"
| "int_digits acc [c] = (if is_digit c then Some (acc * 10 + digit_val c) else None)"
| "int_digits acc (c # d # cs) =
     (if is_digit c
      then int_digits (acc * 10 + digit_val c) (if d = CHR ''_'' then cs else d # cs)
      else None)"

definition str_int :: "string \<Rightarrow> int res" where
  "str_int s =
     (case strip s of [] \<Rightarrow> Inl ValueError
      | c # cs \<Rightarrow>
        of_option ValueError
          (if c = CHR ''-'' then map_option (\<lambda>n. - int n) (int_digits 0 cs)
           else if c = CHR ''+'' then map_option int (int_digits 0 cs)
           else map_option int (int_digits 0 (c # cs))))"

fun py_int :: "json \<Rightarrow> int res" where
  "py_int (JInt i) = Inr i"
| "py_int (JBool b) = Inr (if b then 1 else 0)"
| "py_int (JStr s) = str_int s"
| "py_int _ = Inl TypeError"

fun truthy :: "json \<Rightarrow> bool" where
  "truthy JNull = False"
| "truthy (JBool b) = b"
| "truthy (JInt i) = (i \<noteq> 0)"
| "truthy (JStr s) = (s \<noteq> [])"
| "truthy (JArr xs) = (xs \<noteq> [])"
| "truthy (JObj d) = (d \<noteq> [])"

definition truthy_opt :: "json option \<Rightarrow> bool" where
  "truthy_opt m = (case m of None \<Rightarrow> False | Some v \<Rightarrow> truthy v)"

text \<open>\<open>repr\<close> of a string (its printable non-ASCII characters stand for themselves) and
  \<open>str\<close> of a document.\<close>

definition repr_char :: "char \<Rightarrow> char \<Rightarrow> string" where
  "repr_char q c =
     (if c = q \<or> c = CHR 0x5C then [CHR 0x5C, c]
      else if c = CHR 0x0A then [CHR 0x5C, CHR ''n'']
      else if c = CHR 0x0D then [CHR 0x5C, CHR ''r'']
      else if c = CHR 0x09 then [CHR 0x5C, CHR ''t'']
      else if of_char c < (32::nat) \<or> of_char c = (127::nat)
      then [CHR 0x5C, CHR ''x'', hex_char (of_char c div 16), hex_char (of_char c mod 16)]
      else [c])"

definition repr_str :: "string \<Rightarrow> string" where
  "repr_str s =
     (let q = (if CHR 0x27 \<in> set s \<and> CHR 0x22 \<notin> set s then CHR 0x22 else CHR 0x27)
      in q # concat (map (repr_char q) s) @ [q])"

fun py_repr :: "json \<Rightarrow> string" where
  "py_repr JNull = ''None''"
| "py_repr (JBool b) = (if b then ''True'' else ''False'')"
| "py_repr (JInt i) = show_int i"
| "py_repr (JStr s) = repr_str s"
| "py_repr (JArr xs) = ''['' @ join '', '' (map py_repr xs) @ '']''"
| "py_repr (JObj kvs) =
     CHR 0x7B # join '', '' (map (\<lambda>kv. repr_str (fst kv) @ '': '' @ py_repr (snd kv)) kvs) @ [CHR 0x7D]"

definition py_str :: "json \<Rightarrow> string" where
  "py_str v = (case v of JStr s \<Rightarrow> s | _ \<Rightarrow> py_repr v)"

lemma py_str_JStr [simp]: "py_str (JStr s) = s"
  by (simp add: py_str_def)

lemma getitem_Inr_iff [res_simps]: "getitem v k = Inr x \<longleftrightarrow> (\<exists>d. v = JObj d \<and> map_of d k = Some x)"
  by (cases v) (auto simp: res_simps)

text \<open>The characters of a \<open>str\<close>: a byte of its encoding with the continuation bytes after it.\<close>

definition cont_char :: "char \<Rightarrow> bool" where
  "cont_char c = (128 \<le> (of_char c :: nat) \<and> of_char c < (192 :: nat))"

function code_points :: "string \<Rightarrow> string list" where
  "code_points [] = []"
| "code_points (c # cs) = (c # takeWhile cont_char cs) # code_points (dropWhile cont_char cs)"
  by pat_completeness auto
termination
  by (relation "measure length") (auto simp: length_dropWhile_le less_Suc_eq_le)

text \<open>\<open>list(v or [])\<close>: the items of a list, the keys of a dict, the characters of a string.\<close>

definition py_list_or :: "json option \<Rightarrow> json list res" where
  "py_list_or m = (if \<not> truthy_opt m then Inr []
     else case m of Some (JArr xs) \<Rightarrow> Inr xs
       | Some (JObj d) \<Rightarrow> Inr (map (\<lambda>kv. JStr (fst kv)) d)
       | Some (JStr s) \<Rightarrow> Inr (map JStr (code_points s))
       | _ \<Rightarrow> Inl TypeError)"

text \<open>\<open>[f(x) for x in v]\<close> where \<open>f\<close> looks up an item of \<open>x\<close> by name first: an empty dict or string has no
  elements, the elements of others are strings, which have no such items.\<close>

definition each :: "(json \<Rightarrow> 'a res) \<Rightarrow> json \<Rightarrow> 'a list res" where
  "each f v = (case v of JArr xs \<Rightarrow> mapE f xs | JObj [] \<Rightarrow> Inr [] | JStr [] \<Rightarrow> Inr [] | _ \<Rightarrow> Inl TypeError)"

text \<open>What an object answers to lookups when its keys have been sorted.\<close>

lemma jsort_object:
  assumes "distinct (map fst kvs)"
  obtains d where "jsort (JObj kvs) = JObj d" "\<And>k. map_of d k = map_option jsort (map_of kvs k)"
  using map_of_jsort [OF assms, of jsort] jsort_obj by blast

subsection \<open>Values as SQL parameters\<close>

text \<open>Binding a Python integer to a statement: SQLite integers have 64 bits.\<close>

definition sql_int :: "int \<Rightarrow> int res" where
  "sql_int i = (if - (2 ^ 63) \<le> i \<and> i < 2 ^ 63 then Inr i else Inl OverflowError)"

text \<open>Binding a value of a parsed document to a \<open>TEXT\<close> column: numbers become text, \<open>null\<close> is
  \<open>NULL\<close>, lists and dicts are not supported by the driver.\<close>

definition sql_text :: "json \<Rightarrow> string option res" where
  "sql_text v = (case v of JStr s \<Rightarrow> Inr (Some s)
     | JInt i \<Rightarrow> bindE (sql_int i) (\<lambda>i. Inr (Some (show_int i)))
     | JBool b \<Rightarrow> Inr (Some (if b then ''1'' else ''0''))
     | JNull \<Rightarrow> Inr None | _ \<Rightarrow> Inl SqliteError)"

subsection \<open>Sorting keys changes nothing that the code looks at\<close>

lemma canonical_json_jsort: "canonical_json (jsort v) = canonical_json v"
  by (simp add: canonical_json_def dumps_jsort)

lemma canonical_json_fields:
  "canonical_json (JObj [(a, jsort x), (b, jsort y)]) = canonical_json (JObj [(a, x), (b, y)])"
proof -
  have "jsort (JObj [(a, jsort x), (b, jsort y)]) = jsort (JObj [(a, x), (b, y)])" by (simp add: jsort_idem)
  then show ?thesis by (metis canonical_json_jsort)
qed

lemma sort_key_Nil_iff: "sort_key f xs = [] \<longleftrightarrow> xs = []"
  by (metis set_empty set_sort)

lemma truthy_jsort [simp]: "truthy (jsort v) = truthy v"
  by (cases v) (auto simp: sort_key_Nil_iff)

lemma jsort_JNull_iff [simp]: "jsort v = JNull \<longleftrightarrow> v = JNull"
  by (cases v) auto

lemma jstr_ok_jsort: "jstr_ok v \<Longrightarrow> jstr_ok (jsort v)"
proof (induction v rule: jsort.induct)
  case (2 kvs)
  then show ?case unfolding jsort_obj by auto
qed auto

lemma json_ok_jsort: "json_ok v \<Longrightarrow> json_ok (jsort v)"
  by (simp add: json_ok_def jsort_wf jstr_ok_jsort)

lemma json_loads_error: "json_loads t = Inl e \<Longrightarrow> e = JSONDecodeError"
  by (auto simp: json_loads_def simp del: pval.simps split: option.splits prod.splits list.splits if_splits)

lemma utf8_decode_error: "utf8_decode b = Inl e \<Longrightarrow> e = UnicodeError"
  by (auto simp: utf8_decode_def split: if_splits)

end
