(* ===== verification/Encoding.thy ===== *)
theory Encoding
  imports Json
begin

section \<open>Text encodings\<close>

text \<open>
  \<^verbatim>\<open>crypto/encoding.py\<close>: base64url without padding, Crockford base32, and the compact form of
  a contact card.  The base64 decoder is the non-strict one of Python's \<open>binascii\<close>: it skips
  characters outside the alphabet and stops at a complete padding.  Upper-casing and stripping
  act on ASCII characters.  The round trips are stated for every byte string.
\<close>

subsection \<open>base64url\<close>

definition b64_alphabet :: string where
  "b64_alphabet = ''ABCDEFGHIJKLMNOPQRSTUVWXYZabcdefghijklmnopqrstuvwxyz0123456789-_''"

definition b64_char :: "nat \<Rightarrow> char" where
  "b64_char n = b64_alphabet ! n"

fun b64e :: "bytes \<Rightarrow> string" where
  "b64e [] = []"
| "b64e [a] = [b64_char (unat a div 4), b64_char (unat a mod 4 * 16)]"
| "b64e [a, b] =
     [b64_char (unat a div 4), b64_char (unat a mod 4 * 16 + unat b div 16),
      b64_char (unat b mod 16 * 4)]"
| "b64e (a # b # c # r) =
     [b64_char (unat a div 4), b64_char (unat a mod 4 * 16 + unat b div 16),
      b64_char (unat b mod 16 * 4 + unat c div 64), b64_char (unat c mod 64)] @ b64e r"

text \<open>The value of a character after \<open>-_\<close> have been translated to \<open>+/\<close>.\<close>

definition b64_val :: "char \<Rightarrow> nat option" where
  "b64_val ch =
     (let n = (of_char ch :: nat) in
      if 65 \<le> n \<and> n \<le> 90 then Some (n - 65)
      else if 97 \<le> n \<and> n \<le> 122 then Some (n - 71)
      else if 48 \<le> n \<and> n \<le> 57 then Some (n + 4)
      else if ch = CHR ''-'' \<or> ch = CHR ''+'' then Some 62
      else if ch = CHR ''_'' \<or> ch = CHR ''/'' then Some 63 else None)"

text \<open>\<open>binascii.a2b_base64\<close>: position in the quad, bits left over, padding seen, output.\<close>

fun a2b_base64 :: "nat \<Rightarrow> nat \<Rightarrow> nat \<Rightarrow> bytes \<Rightarrow> string \<Rightarrow> bytes res" where
  "a2b_base64 quad left pads out [] = (if quad = 0 then Inr out else Inl ValueError)"
| "a2b_base64 quad left pads out (ch # cs) =
     (if ch = CHR ''='' then
        (if 2 \<le> quad then
           (if 4 \<le> quad + (pads + 1) then Inr out else a2b_base64 quad left (pads + 1) out cs)
         else a2b_base64 quad left pads out cs)
      else case b64_val ch of
        None \<Rightarrow> a2b_base64 quad left pads out cs
      | Some v \<Rightarrow>
          if quad = 0 then a2b_base64 1 v 0 out cs
          else if quad = 1
          then a2b_base64 2 (v mod 16) 0 (out @ [word_of_nat (left * 4 + v div 16)]) cs
          else if quad = 2
          then a2b_base64 3 (v mod 4) 0 (out @ [word_of_nat (left * 16 + v div 4)]) cs
          else a2b_base64 0 0 0 (out @ [word_of_nat (left * 64 + v)]) cs)"

definition b64d :: "string \<Rightarrow> bytes res" where
  "b64d text =
     (if \<not> ascii text then Inl UnicodeError
      else a2b_base64 0 0 0 [] (text @ replicate ((4 - length text mod 4) mod 4) (CHR ''='')))"

text \<open>\<open>b64d\<close> applied to a value of a parsed document: everything but a string ends in a
  \<open>TypeError\<close>, from \<open>len\<close> or from the concatenation.\<close>

definition b64d_json :: "json \<Rightarrow> bytes res" where
  "b64d_json v = (case v of JStr s \<Rightarrow> b64d s | _ \<Rightarrow> Inl TypeError)"

subsection \<open>Crockford base32\<close>

definition B32_ALPHABET :: string where
  "B32_ALPHABET = ''0123456789ABCDEFGHJKMNPQRSTVWXYZ''"

definition b32_char :: "nat \<Rightarrow> char" where
  "b32_char n = B32_ALPHABET ! n"

text \<open>The loop \<open>while bits >= 5\<close>; shifts and masks of unbounded integers as division and
  remainder.\<close>

fun b32_emit :: "nat \<Rightarrow> nat \<Rightarrow> string \<Rightarrow> nat \<times> string" where
  "b32_emit v bits out =
     (if 5 \<le> bits
      then b32_emit v (bits - 5) (out @ [b32_char (v div 2 ^ (bits - 5) mod 32)])
      else (bits, out))"

declare b32_emit.simps [simp del]

fun b32_step :: "nat \<times> nat \<times> string \<Rightarrow> byte \<Rightarrow> nat \<times> nat \<times> string" where
  "b32_step (v, bits, out) b =
     (let v' = v * 256 + unat b; (bits', out') = b32_emit v' (bits + 8) out in (v', bits', out'))"

definition b32e :: "bytes \<Rightarrow> string" where
  "b32e data =
     (let (v, bits, out) = foldl b32_step (0, 0, []) data in
      if 0 < bits then out @ [b32_char (v * 2 ^ (5 - bits) mod 32)] else out)"

definition upper_char :: "char \<Rightarrow> char" where
  "upper_char ch =
     (if 97 \<le> (of_char ch :: nat) \<and> of_char ch \<le> (122::nat)
      then char_of (of_char ch - (32::nat)) else ch)"

definition b32_confusable :: "char \<Rightarrow> char" where
  "b32_confusable ch =
     (if ch = CHR ''I'' \<or> ch = CHR ''L'' then CHR ''1''
      else if ch = CHR ''O'' then CHR ''0''
      else if ch = CHR ''U'' then CHR ''V'' else ch)"

fun index_of :: "char \<Rightarrow> string \<Rightarrow> nat option" where
  "index_of ch [] = None"
| "index_of ch (x # xs) = (if ch = x then Some 0 else map_option Suc (index_of ch xs))"

fun b32d_loop :: "nat \<Rightarrow> nat \<Rightarrow> bytes \<Rightarrow> string \<Rightarrow> bytes res" where
  "b32d_loop v bits out [] = Inr out"
| "b32d_loop v bits out (ch # cs) =
     (case index_of (b32_confusable ch) B32_ALPHABET of
        None \<Rightarrow> Inl ValueError
      | Some digit \<Rightarrow>
        let v' = v * 32 + digit; bits' = bits + 5 in
        if 8 \<le> bits'
        then b32d_loop v' (bits' - 8) (out @ [word_of_nat (v' div 2 ^ (bits' - 8) mod 256)]) cs
        else b32d_loop v' bits' out cs)"

definition b32d :: "string \<Rightarrow> bytes res" where
  "b32d text = b32d_loop 0 0 [] (map upper_char (filter (\<lambda>ch. ch \<noteq> CHR ''-'') (strip text)))"

subsection \<open>Card text\<close>

text \<open>\<open>zlib\<close> is a parameter: \<open>compress\<close> at level 9 and \<open>decompress\<close>, which fails with
  \<open>zlib.error\<close>.\<close>

record zlib =
  z_compress :: "bytes \<Rightarrow> bytes"
  z_decompress :: "bytes \<Rightarrow> bytes res"

definition zlib_ok :: "zlib \<Rightarrow> bool" where
  "zlib_ok z \<longleftrightarrow> (\<forall>b. z_decompress z (z_compress z b) = Inr b)"

definition CARD_PREFIX :: string where
  "CARD_PREFIX = ''nk://1/''"

definition lower_char :: "char \<Rightarrow> char" where
  "lower_char ch =
     (if 65 \<le> (of_char ch :: nat) \<and> of_char ch \<le> (90::nat)
      then char_of (of_char ch + (32::nat)) else ch)"

definition card_encode :: "zlib \<Rightarrow> json \<Rightarrow> string" where
  "card_encode z payload = CARD_PREFIX @ b64e (z_compress z (canonical_json payload))"

definition card_decode :: "zlib \<Rightarrow> string \<Rightarrow> json res" where
  "card_decode z text0 =
     (let text = strip text0 in
      if take (length CARD_PREFIX) (map lower_char text) \<noteq> CARD_PREFIX then Inl ValueError
      else bindE (b64d (drop (length CARD_PREFIX) text)) (\<lambda>raw.
        rethrow (\<lambda>e. e = ZlibError) ValueError
          (bindE (z_decompress z raw) loads_bytes)))"

subsection \<open>base64 round trip\<close>

lemma nat_join_div_mod:
  "k < c \<Longrightarrow> (m * c + k) div c = (m::nat)" "k < c \<Longrightarrow> (m * c + k) mod c = (k::nat)"
  by simp_all

lemma b64_table_all:
  "list_all2 (\<lambda>ch n. b64_val ch = Some n \<and> ch \<noteq> CHR ''='' \<and> of_char ch \<le> (127::nat) \<and> \<not> py_space ch)
     b64_alphabet [0..<64]"
  by (simp add: b64_alphabet_def b64_val_def py_space_def upt_conv_Cons)

lemma b64_table: "n < 64 \<Longrightarrow> b64_val (b64_char n) = Some n \<and> b64_char n \<noteq> CHR ''=''
    \<and> of_char (b64_char n) \<le> (127::nat) \<and> \<not> py_space (b64_char n)"
  using list_all2_nthD2 [OF b64_table_all, of n] by (simp add: b64_char_def)

lemmas b64_table_simps = b64_table [THEN conjunct1] b64_table [THEN conjunct2, THEN conjunct1]

lemma div_byte [simp]: "unat (a :: byte) div 4 < 64" "unat (a :: byte) div 16 < 16"
    "unat (a :: byte) div 64 < 4"
  using unat_byte_less [of a] by (auto simp: div_less_iff_less_mult)

lemma mix_bytes [simp]:
  "unat (a :: byte) mod 4 * 16 + unat (b :: byte) div 16 < 64"
  "unat (a :: byte) mod 16 * 4 + unat (b :: byte) div 64 < 64"
  "unat (a :: byte) mod 4 * 16 < 64" "unat (a :: byte) mod 16 * 4 < 64"
proof -
  have "unat a mod 4 \<le> 3" "unat a mod 16 \<le> 15" "unat b div 16 \<le> 15" "unat b div 64 \<le> 3"
    using div_byte [of b] by (auto simp: less_Suc_eq_le [symmetric])
  then show "unat a mod 4 * 16 + unat b div 16 < 64" "unat a mod 16 * 4 + unat b div 64 < 64"
    "unat a mod 4 * 16 < 64" "unat a mod 16 * 4 < 64" by linarith+
qed

definition b64_pad :: "bytes \<Rightarrow> string" where
  "b64_pad bs = replicate ((4 - length (b64e bs) mod 4) mod 4) (CHR ''='')"

lemma b64_pad_simps [simp]:
  "b64_pad [] = []" "b64_pad [a] = ''==''" "b64_pad [a, b] = ''=''"
  "b64_pad (a # b # c # r) = b64_pad r"
  by (simp_all add: b64_pad_def numeral_2_eq_2)

lemma a2b_b64e: "a2b_base64 0 0 p out (b64e bs @ b64_pad bs) = Inr (out @ bs)"
proof (induction bs arbitrary: out p rule: b64e.induct)
  case (4 a b c r)
  then show ?case
    by (simp add: b64_table_simps nat_join_div_mod)
qed (simp_all add: b64_table_simps nat_join_div_mod)

lemma set_b64e: "set (b64e bs) \<subseteq> b64_char ` {..<64}"
  by (induction bs rule: b64e.induct) (auto intro!: imageI)

lemma ascii_b64e [simp]: "ascii (b64e bs)"
  using set_b64e [of bs] b64_table by (fastforce simp: ascii_def)

lemma str_ok_b64e [simp]: "str_ok (b64e bs)"
  by (simp add: str_ok_ascii)

theorem b64d_b64e [simp]: "b64d (b64e bs) = Inr bs"
  using a2b_b64e [of 0 "[]" bs] by (simp add: b64d_def b64_pad_def)

interpretation b64_codec: codec b64e b64d "\<lambda>_. True"
  by unfold_locales simp

lemma b64e_eq_iff [simp]: "b64e x = b64e y \<longleftrightarrow> x = y"
  by (rule b64_codec.enc_eq_iff) simp_all

lemma b64e_Nil_iff [simp]: "b64e x = [] \<longleftrightarrow> x = []"
  using b64e_eq_iff [of x "[]"] by (simp del: b64e_eq_iff)

subsection \<open>base32 round trip\<close>

fun to_digits :: "nat \<Rightarrow> nat \<Rightarrow> nat \<Rightarrow> nat list" where
  "to_digits b 0 v = []"
| "to_digits b (Suc n) v = to_digits b n (v div b) @ [v mod b]"

definition from_digits :: "nat \<Rightarrow> nat list \<Rightarrow> nat" where
  "from_digits b ds = foldl (\<lambda>a d. a * b + d) 0 ds"

lemma from_digits_snoc [simp]:
  "from_digits b [] = 0" "from_digits b (ds @ [d]) = from_digits b ds * b + d"
  by (simp_all add: from_digits_def)

lemma length_to_digits [simp]: "length (to_digits b n v) = n"
  by (induction n arbitrary: v) auto

lemma to_from_digits: "(\<And>d. d \<in> set ds \<Longrightarrow> d < b) \<Longrightarrow> to_digits b (length ds) (from_digits b ds) = ds"
  by (induction ds rule: rev_induct) (auto simp: nat_join_div_mod)

lemma from_to_digits: "0 < b \<Longrightarrow> v < b ^ n \<Longrightarrow> from_digits b (to_digits b n v) = v"
  by (induction n arbitrary: v) (auto simp: less_mult_imp_div_less mult.commute)

lemma set_to_digits: "0 < b \<Longrightarrow> d \<in> set (to_digits b n v) \<Longrightarrow> d < b"
  by (induction n arbitrary: v) auto

lemma from_digits_less: "0 < b \<Longrightarrow> (\<And>d. d \<in> set ds \<Longrightarrow> d < b) \<Longrightarrow> from_digits b ds < b ^ length ds"
proof (induction ds rule: rev_induct)
  case (snoc d ds)
  then have "from_digits b ds < b ^ length ds" and "d < b" by auto
  then have "from_digits b ds * b + d < (from_digits b ds + 1) * b" by simp
  also have "\<dots> \<le> b ^ length ds * b"
    using \<open>from_digits b ds < b ^ length ds\<close> by (intro mult_right_mono) auto
  finally show ?case by (simp add: mult.commute)
qed simp

lemma b32_emit_digits:
  "b32_emit v bits (map b32_char (to_digits 32 m (v div 2 ^ bits)))
   = (bits mod 5, map b32_char (to_digits 32 (m + bits div 5) (v div 2 ^ (bits mod 5))))"
proof (induction bits arbitrary: m rule: less_induct)
  case (less bits)
  show ?case
  proof (cases "5 \<le> bits")
    case True
    have e: "v div 2 ^ (bits - 5) div 32 = v div 2 ^ bits"
    proof -
      have "2 ^ bits = (2::nat) ^ (bits - 5) * 32"
        using True power_add [of "2::nat" "bits - 5" 5] by simp
      then show ?thesis by (simp only: div_mult2_eq)
    qed
    have "b32_emit v bits (map b32_char (to_digits 32 m (v div 2 ^ bits)))
      = b32_emit v (bits - 5) (map b32_char (to_digits 32 (Suc m) (v div 2 ^ (bits - 5))))"
      using True by (subst b32_emit.simps) (simp add: e)
    also have "\<dots> = ((bits - 5) mod 5, map b32_char (to_digits 32 (Suc m + (bits - 5) div 5) (v div 2 ^ ((bits - 5) mod 5))))"
      using True by (intro less.IH) simp
    finally show ?thesis using True by (simp add: le_mod_geq le_div_geq)
  next
    case False
    then show ?thesis by (subst b32_emit.simps) simp
  qed
qed

lemma div_mod_shift:
  "(n::nat) div 5 + (n mod 5 + 8) div 5 = (n + 8) div 5" "(n mod 5 + 8) mod 5 = (n + 8) mod 5"
  by presburger (simp add: mod_add_left_eq)

lemma b32_fold:
  "foldl b32_step (0, 0, []) data =
     (let v = from_digits 256 (map unat data); n = 8 * length data in
      (v, n mod 5, map b32_char (to_digits 32 (n div 5) (v div 2 ^ (n mod 5)))))"
proof (induction data rule: rev_induct)
  case (snoc x data)
  let ?v = "from_digits 256 (map unat data)" and ?n = "8 * length data"
  have e: "(?v * 256 + unat x) div 2 ^ (?n mod 5 + 8) = ?v div 2 ^ (?n mod 5)"
  proof -
    have "2 ^ (?n mod 5 + 8) = 256 * (2::nat) ^ (?n mod 5)" by (simp add: power_add)
    moreover have "(?v * 256 + unat x) div 256 = ?v" by (rule nat_join_div_mod) simp
    ultimately show ?thesis by (simp only: div_mult2_eq)
  qed
  note d = div_mod_shift [of ?n]
  have emit: "b32_emit (?v * 256 + unat x) (?n mod 5 + 8)
      (map b32_char (to_digits 32 (?n div 5) (?v div 2 ^ (?n mod 5))))
    = ((?n + 8) mod 5, map b32_char (to_digits 32 ((?n + 8) div 5)
        ((?v * 256 + unat x) div 2 ^ ((?n + 8) mod 5))))"
    using b32_emit_digits [of "?v * 256 + unat x" "?n mod 5 + 8" "?n div 5"] unfolding e d .
  have l: "8 * length (data @ [x]) = ?n + 8" by simp
  have v: "from_digits 256 (map unat (data @ [x])) = ?v * 256 + unat x" by simp
  show ?case
    unfolding l v Let_def foldl_append foldl.simps snoc b32_step.simps emit by simp
qed (simp add: Let_def)

lemma b32e_digits:
  obtains n p where "5 * n = 8 * length data + p" "p < 5"
    "b32e data = map b32_char (to_digits 32 n (from_digits 256 (map unat data) * 2 ^ p))"
proof (cases "8 * length data mod 5 = 0")
  case True
  then have "5 * (8 * length data div 5) = 8 * length data + 0"
    using mult_div_mod_eq [of 5 "8 * length data"] by linarith
  moreover have "b32e data
      = map b32_char (to_digits 32 (8 * length data div 5) (from_digits 256 (map unat data) * 2 ^ 0))"
    unfolding b32e_def b32_fold Let_def True by simp
  ultimately show ?thesis using that by (metis zero_less_numeral)
next
  case False
  let ?b = "8 * length data mod 5" and ?v = "from_digits 256 (map unat data)"
  let ?p = "5 - ?b"
  have b: "?b < 5" "0 < ?b" using False by auto
  have "5 * Suc (8 * length data div 5) = 8 * length data + ?p"
  proof -
    have "5 * k + b = n \<Longrightarrow> b < 5 \<Longrightarrow> 5 * Suc k = n + (5 - b)" for k b n :: nat by simp
    from this [OF mult_div_mod_eq b(1)] show ?thesis .
  qed
  moreover have "?v * 2 ^ ?p div 32 = ?v div 2 ^ ?b"
  proof -
    have "(32::nat) = 2 ^ ?p * 2 ^ ?b"
      using b power_add [of "2::nat" ?p ?b] by simp
    then show ?thesis by (simp only: div_mult2_eq) simp
  qed
  then have "b32e data = map b32_char (to_digits 32 (Suc (8 * length data div 5)) (?v * 2 ^ ?p))"
    using b(2) unfolding b32e_def b32_fold Let_def by simp
  moreover have "?p < 5" using b by simp
  ultimately show ?thesis using that by blast
qed

lemma b32_table_all:
  "list_all2 (\<lambda>ch n. index_of (b32_confusable ch) B32_ALPHABET = Some n \<and> upper_char ch = ch
      \<and> ch \<noteq> CHR ''-'' \<and> \<not> py_space ch)
     B32_ALPHABET [0..<32]"
  by (simp add: B32_ALPHABET_def b32_confusable_def upper_char_def py_space_def upt_conv_Cons)

lemma b32_table: "n < 32 \<Longrightarrow> index_of (b32_confusable (b32_char n)) B32_ALPHABET = Some n
    \<and> upper_char (b32_char n) = b32_char n \<and> b32_char n \<noteq> CHR ''-'' \<and> \<not> py_space (b32_char n)"
  using list_all2_nthD2 [OF b32_table_all, of n] by (simp add: b32_char_def)

lemma b32d_loop_digits:
  assumes "\<And>d. d \<in> set ds \<Longrightarrow> d < 32" and "bits < 8"
  shows "b32d_loop v bits (map word_of_nat (to_digits 256 m (v div 2 ^ bits))) (map b32_char ds)
     = (let w = foldl (\<lambda>a d. a * 32 + d) v ds; n = bits + 5 * length ds in
        Inr (map word_of_nat (to_digits 256 (m + n div 8) (w div 2 ^ (n mod 8)))))"
  using assms
proof (induction ds arbitrary: v bits m)
  case (Cons d ds)
  let ?v = "v * 32 + d"
  have t: "index_of (b32_confusable (b32_char d)) B32_ALPHABET = Some d"
    using b32_table Cons.prems by simp
  have e: "?v div 2 ^ (bits + 5) = v div 2 ^ bits"
  proof -
    have "2 ^ (bits + 5) = 32 * (2::nat) ^ bits" by (simp add: power_add)
    moreover have "?v div 32 = v" using Cons.prems by (intro nat_join_div_mod) simp
    ultimately show ?thesis by (simp only: div_mult2_eq)
  qed
  show ?case
  proof (cases "8 \<le> bits + 5")
    case True
    have e2: "?v div 2 ^ (bits + 5 - 8) div 256 = v div 2 ^ bits"
    proof -
      have "(2::nat) ^ (bits + 5) = 2 ^ (bits + 5 - 8) * 256"
        using True power_add [of "2::nat" "bits + 5 - 8" 8] by (simp add: add.commute)
      with e show ?thesis by (simp only: div_mult2_eq)
    qed
    have "b32d_loop v bits (map word_of_nat (to_digits 256 m (v div 2 ^ bits))) (map b32_char (d # ds))
      = b32d_loop ?v (bits + 5 - 8)
          (map word_of_nat (to_digits 256 (Suc m) (?v div 2 ^ (bits + 5 - 8)))) (map b32_char ds)"
      using True e2 by (simp add: t Let_def)
    also have "\<dots> = (let w = foldl (\<lambda>a d. a * 32 + d) ?v ds; n = bits + 5 - 8 + 5 * length ds in
        Inr (map word_of_nat (to_digits 256 (Suc m + n div 8) (w div 2 ^ (n mod 8)))))"
      using Cons.prems by (intro Cons.IH) auto
    also have "bits + 5 - 8 + 5 * length ds = bits + 5 * length (d # ds) - 8" using True by simp
    finally show ?thesis
      using True by (simp add: Let_def le_mod_geq le_div_geq)
  next
    case False
    then have "b32d_loop v bits (map word_of_nat (to_digits 256 m (v div 2 ^ bits))) (map b32_char (d # ds))
      = b32d_loop ?v (bits + 5) (map word_of_nat (to_digits 256 m (?v div 2 ^ (bits + 5)))) (map b32_char ds)"
      by (simp add: t Let_def e)
    also have "\<dots> = (let w = foldl (\<lambda>a d. a * 32 + d) ?v ds; n = bits + 5 + 5 * length ds in
        Inr (map word_of_nat (to_digits 256 (m + n div 8) (w div 2 ^ (n mod 8)))))"
      using Cons.prems False by (intro Cons.IH) auto
    finally show ?thesis by (simp add: Let_def add.assoc)
  qed
qed (simp add: Let_def)

lemma dropWhile_none: "(\<And>x. x \<in> set xs \<Longrightarrow> \<not> P x) \<Longrightarrow> dropWhile P xs = xs"
  by (cases xs) auto

lemma strip_id: "(\<And>ch. ch \<in> set s \<Longrightarrow> \<not> py_space ch) \<Longrightarrow> strip s = s"
  using dropWhile_none [of s py_space] dropWhile_none [of "rev s" py_space]
  by (simp add: strip_def lstrip_def)

theorem b32d_b32e: "b32d (b32e data) = Inr data"
proof -
  obtain n p where np: "5 * n = 8 * length data + p" "p < 5"
    and e: "b32e data = map b32_char (to_digits 32 n (from_digits 256 (map unat data) * 2 ^ p))"
    by (rule b32e_digits)
  let ?v = "from_digits 256 (map unat data)"
  let ?ds = "to_digits 32 n (?v * 2 ^ p)"
  have lt: "d \<in> set ?ds \<Longrightarrow> d < 32" for d by (rule set_to_digits) simp_all
  have clean: "map upper_char (filter (\<lambda>ch. ch \<noteq> CHR ''-'') (strip (b32e data))) = b32e data"
    unfolding e using lt b32_table by (subst strip_id) (auto intro!: map_idI simp: filter_id_conv)
  have "?v < 256 ^ length (map unat data)"
    by (rule from_digits_less) auto
  then have "?v * 2 ^ p < 2 ^ (8 * length data + p)"
    by (simp add: power_add power_mult)
  then have w: "from_digits 32 ?ds = ?v * 2 ^ p"
    using np power_mult [of "2::nat" 5 n] by (intro from_to_digits) simp_all
  have q: "5 * n div 8 = length data" "5 * n mod 8 = p"
    using np by (auto simp: nat_join_div_mod)
  have "b32d (b32e data) = b32d_loop 0 0 (map word_of_nat (to_digits 256 0 (0 div 2 ^ 0))) (map b32_char ?ds)"
    unfolding b32d_def clean by (simp add: e)
  also have "\<dots> = Inr (map word_of_nat (to_digits 256 (5 * n div 8) (?v * 2 ^ p div 2 ^ (5 * n mod 8))))"
    using w by (subst b32d_loop_digits [OF lt]) (simp_all add: Let_def from_digits_def)
  also have "\<dots> = Inr data"
  proof -
    have "to_digits 256 (length (map unat data)) ?v = map unat data"
      by (rule to_from_digits) auto
    then show ?thesis unfolding q by (simp add: o_def)
  qed
  finally show ?thesis .
qed

interpretation b32_codec: codec b32e b32d "\<lambda>_. True"
  by unfold_locales (rule b32d_b32e)

lemma length_b32e: "length (b32e data) = (8 * length data + 4) div 5"
proof -
  obtain n p where np: "5 * n = 8 * length data + p" "p < 5"
    and e: "b32e data = map b32_char (to_digits 32 n (from_digits 256 (map unat data) * 2 ^ p))"
    by (rule b32e_digits)
  have "length (b32e data) = n" by (simp add: e)
  with np show ?thesis by simp
qed

lemma set_b32e: "set (b32e data) \<subseteq> set B32_ALPHABET"
proof -
  obtain n p where "b32e data = map b32_char (to_digits 32 n (from_digits 256 (map unat data) * 2 ^ p))"
    by (rule b32e_digits)
  moreover have "d < 32 \<Longrightarrow> b32_char d \<in> set B32_ALPHABET" for d
    unfolding b32_char_def by (rule nth_mem) (simp add: B32_ALPHABET_def)
  ultimately show ?thesis using set_to_digits [of 32] by auto
qed

subsection \<open>Card text round trip\<close>

lemma strip_card: "strip (CARD_PREFIX @ b64e bs) = CARD_PREFIX @ b64e bs"
  using set_b64e [of bs] b64_table
  by (intro strip_id) (auto simp: CARD_PREFIX_def py_space_def)

theorem card_decode_encode:
  "zlib_ok z \<Longrightarrow> json_ok v \<Longrightarrow> card_decode z (card_encode z v) = Inr (jsort v)"
  by (simp add: card_decode_def card_encode_def strip_card loads_canonical_json zlib_ok_def)
    (simp add: CARD_PREFIX_def lower_char_def)

end
