(* ===== verification/Padding.thy ===== *)
theory Padding
  imports Encoding "HOL-Library.Multiset"
begin

section \<open>Envelope padding\<close>

text \<open>
  \<^verbatim>\<open>crypto/padding.py\<close>: an envelope is serialised with a random \<open>pad\<close> field that fills it up
  to a multiple of the bucket size, so that the length of a ciphertext shows only the bucket of
  its plaintext.  The randomness (\<open>secrets.choice\<close>) is an argument: a stream of numbers that
  select characters of the pad alphabet.  The lemmas show that the result has exactly the
  target size, that padding fails only on an envelope over the limit (the code's defensive
  length check is unreachable), and that unpadding gives the envelope back.
\<close>

definition BUCKET :: int where "BUCKET = 256"
definition DEFAULT_MAX :: int where "DEFAULT_MAX = 2048"
definition MAX_ATTACHMENT_ENVELOPE :: int where "MAX_ATTACHMENT_ENVELOPE = 65536"

definition PAD_ALPHABET :: string where
  "PAD_ALPHABET = ''ABCDEFGHIJKLMNOPQRSTUVWXYZabcdefghijklmnopqrstuvwxyz0123456789''"

definition padded_size :: "int \<Rightarrow> int \<Rightarrow> int option \<Rightarrow> int" where
  "padded_size base_length bucket max_size =
     (let target = max bucket ((base_length div bucket + 1) * bucket) in
      case max_size of None \<Rightarrow> target | Some m \<Rightarrow> if m < target then m else target)"

definition pad_choice :: "(nat \<Rightarrow> nat) \<Rightarrow> nat \<Rightarrow> char" where
  "pad_choice rnd i = PAD_ALPHABET ! (rnd i mod 62)"

definition pad_envelope :: "(nat \<Rightarrow> nat) \<Rightarrow> dict \<Rightarrow> int \<Rightarrow> int option \<Rightarrow> bytes res" where
  "pad_envelope rnd envelope bucket max_size =
     (let env0 = AList.update ''pad'' (JStr []) envelope;
          base = canonical_json (JObj env0);
          len = int (length base) in
      if (case max_size of None \<Rightarrow> False | Some m \<Rightarrow> m < len) then Inl PaddingError
      else let target = padded_size len bucket max_size;
               pad_length = target - len in
        if pad_length < 0 then Inl PaddingError
        else let pad = map (pad_choice rnd) [0..<nat pad_length];
                 data = canonical_json (JObj (AList.update ''pad'' (JStr pad) env0)) in
          if int (length data) \<noteq> target then Inl PaddingError else Inr data)"

definition unpad_envelope :: "bytes \<Rightarrow> dict res" where
  "unpad_envelope data =
     bindE (utf8_decode data) (\<lambda>text. bindE (json_loads text) (\<lambda>obj.
       case obj of JObj d \<Rightarrow> Inr (AList.delete ''pad'' d) | _ \<Rightarrow> Inl PaddingError))"

text \<open>The length of the unpadded serialisation, which is what the size bucket depends on.\<close>

definition base_len :: "dict \<Rightarrow> int" where
  "base_len e = int (length (canonical_json (JObj (AList.update ''pad'' (JStr []) e))))"

subsection \<open>The size of a serialised object\<close>

lemma length_dumps_obj:
  "kvs \<noteq> [] \<Longrightarrow> length (dumps (JObj kvs))
   = 1 + sum_list (map (\<lambda>kv. length (member_text kv)) kvs) + length kvs"
proof -
  assume ne: "kvs \<noteq> []"
  let ?s = "sort_key fst kvs"
  have "?s \<noteq> []" using ne by (metis length_0_conv length_sort)
  then have j: "length (join '','' (map member_text ?s)) + 1
      = sum_list (map (\<lambda>kv. length (member_text kv)) ?s) + length ?s"
    by (cases ?s) (simp_all add: length_join o_def)
  have "sum_list (map (\<lambda>kv. length (member_text kv)) ?s) = sum_list (map (\<lambda>kv. length (member_text kv)) kvs)"
    by (simp only: sum_mset_sum_list [symmetric] mset_map mset_sort)
  with j show ?thesis unfolding dumps_obj by simp
qed

lemma sum_list_update:
  "map_of d k = Some v0 \<Longrightarrow>
   sum_list (map f (AList.update k v d)) + f (k, v0) = sum_list (map f d) + (f (k, v) :: nat)"
  by (induction d) auto

lemma length_update_present: "k \<in> fst ` set d \<Longrightarrow> length (AList.update k v d) = length d"
  by (induction d) auto

lemma pad_table: "list_all (\<lambda>ch. esc_char ch = [ch] \<and> of_char ch \<le> (127::nat)) PAD_ALPHABET"
  by (simp add: PAD_ALPHABET_def esc_char_def)

lemma pad_choice_props: "esc_char (pad_choice rnd i) = [pad_choice rnd i]"
    "of_char (pad_choice rnd i) \<le> (127::nat)"
proof -
  have "pad_choice rnd i \<in> set PAD_ALPHABET"
    unfolding pad_choice_def by (rule nth_mem) (simp add: PAD_ALPHABET_def)
  then show "esc_char (pad_choice rnd i) = [pad_choice rnd i]" "of_char (pad_choice rnd i) \<le> (127::nat)"
    using pad_table by (auto simp: list_all_iff)
qed

lemma quote_pad: "length (quote (map (pad_choice rnd) xs)) = length xs + 2"
proof -
  have m: "map esc_char (map (pad_choice rnd) xs) = map (\<lambda>c. [c]) (map (pad_choice rnd) xs)"
    by (simp add: pad_choice_props)
  show ?thesis unfolding quote_def m by (simp add: length_concat o_def sum_list_triv)
qed

lemma length_padded:
  "length (canonical_json (JObj (AList.update ''pad'' (JStr (map (pad_choice rnd) [0..<n]))
      (AList.update ''pad'' (JStr []) e))))
   = length (canonical_json (JObj (AList.update ''pad'' (JStr []) e))) + n"
proof -
  let ?e = "AList.update ''pad'' (JStr []) e"
  let ?p = "JStr (map (pad_choice rnd) [0..<n])"
  let ?f = "\<lambda>kv. length (member_text kv)"
  have l: "map_of ?e ''pad'' = Some (JStr [])" by (simp add: update_conv')
  then have in_e: "''pad'' \<in> fst ` set ?e" by (metis map_of_eq_None_iff option.distinct(1))
  then have ne: "?e \<noteq> []" "AList.update ''pad'' ?p ?e \<noteq> []" by auto
  have "sum_list (map ?f (AList.update ''pad'' ?p ?e)) = sum_list (map ?f ?e) + n"
    using sum_list_update [OF l, of ?f ?p] quote_pad [of rnd "[0..<n]"]
    by (simp add: member_text_def quote_def)
  then show ?thesis
    using length_update_present [OF in_e, of ?p]
    unfolding canonical_json_def length_str_encode length_dumps_obj [OF ne(1)] length_dumps_obj [OF ne(2)]
    by linarith
qed

subsection \<open>Padding\<close>

lemma padded_size_ge: "0 < b \<Longrightarrow> 0 \<le> n \<Longrightarrow> (\<And>m. ms = Some m \<Longrightarrow> n \<le> m) \<Longrightarrow> n \<le> padded_size n b ms"
proof -
  assume b: "0 < b" and n: "0 \<le> n" and m: "\<And>m. ms = Some m \<Longrightarrow> n \<le> m"
  have "n = n div b * b + n mod b" by simp
  moreover have "n mod b < b" using b by simp
  ultimately have "n \<le> n div b * b + b" by linarith
  then have "n \<le> (n div b + 1) * b" by (simp add: distrib_right)
  then show ?thesis using m by (auto simp: padded_size_def Let_def split: option.split)
qed

lemma length_padded_int:
  "int (length (canonical_json (JObj (AList.update ''pad'' (JStr (map (pad_choice rnd) [0..<n])) e))))
   = base_len e + int n"
  using length_padded [of rnd n e] by (simp add: base_len_def)

lemma pad_envelope_eq:
  assumes "0 < b"
  shows "pad_envelope rnd e b ms =
    (if (case ms of None \<Rightarrow> False | Some m \<Rightarrow> m < base_len e) then Inl PaddingError
     else Inr (canonical_json (JObj (AList.update ''pad''
       (JStr (map (pad_choice rnd) [0..<nat (padded_size (base_len e) b ms - base_len e)])) e))))"
proof (cases "case ms of None \<Rightarrow> False | Some m \<Rightarrow> m < base_len e")
  case True
  then show ?thesis unfolding pad_envelope_def Let_def base_len_def [symmetric] by simp
next
  case False
  have "0 \<le> base_len e" by (simp add: base_len_def)
  then have "base_len e \<le> padded_size (base_len e) b ms"
    using False assms by (intro padded_size_ge) auto
  then show ?thesis
    using False unfolding pad_envelope_def Let_def base_len_def [symmetric]
    by (simp add: length_padded_int)
qed

lemma pad_envelope_length:
  assumes "0 < b" and "pad_envelope rnd e b ms = Inr data"
  shows "int (length data) = padded_size (base_len e) b ms"
proof -
  have f: "\<not> (case ms of None \<Rightarrow> False | Some m \<Rightarrow> m < base_len e)"
    using assms by (auto simp: pad_envelope_eq split: if_splits)
  have "0 \<le> base_len e" by (simp add: base_len_def)
  then have "base_len e \<le> padded_size (base_len e) b ms"
    using f assms(1) by (intro padded_size_ge) auto
  then show ?thesis
    using assms f by (auto simp: pad_envelope_eq length_padded_int)
qed

lemma padded_size_dvd:
  "0 < b \<Longrightarrow> 0 \<le> n \<Longrightarrow> (\<And>m. ms = Some m \<Longrightarrow> b dvd m) \<Longrightarrow> b dvd padded_size n b ms"
  by (auto simp: padded_size_def Let_def max_def split: option.split)

text \<open>C39: padding an envelope with a positive bucket fails only when the serialised envelope is
  over the limit; otherwise the result is at least as long as the envelope, within the limit,
  and a whole number of buckets whenever the limit is.\<close>

theorem pad_envelope_size:
  assumes "0 < b"
  shows "((\<exists>e'. pad_envelope rnd e b ms = Inl e') \<longleftrightarrow> (\<exists>m. ms = Some m \<and> m < base_len e))
    \<and> (\<forall>data. pad_envelope rnd e b ms = Inr data \<longrightarrow>
         base_len e \<le> int (length data) \<and> (\<forall>m. ms = Some m \<longrightarrow> int (length data) \<le> m)
         \<and> ((\<forall>m. ms = Some m \<longrightarrow> b dvd m) \<longrightarrow> b dvd int (length data)))"
proof (intro conjI allI impI)
  show "(\<exists>e'. pad_envelope rnd e b ms = Inl e') \<longleftrightarrow> (\<exists>m. ms = Some m \<and> m < base_len e)"
    using assms by (auto simp: pad_envelope_eq split: option.splits)
  fix data
  assume p: "pad_envelope rnd e b ms = Inr data"
  then have m: "base_len e \<le> m" if "ms = Some m" for m
    using assms that by (auto simp: pad_envelope_eq split: if_splits)
  have n: "0 \<le> base_len e" by (simp add: base_len_def)
  note l = pad_envelope_length [OF assms p]
  show "base_len e \<le> int (length data)"
    unfolding l using assms n m by (rule padded_size_ge)
  show "int (length data) \<le> m" if "ms = Some m" for m
    unfolding l using that by (auto simp: padded_size_def Let_def not_less)
  show "b dvd int (length data)" if "\<forall>m. ms = Some m \<longrightarrow> b dvd m"
    unfolding l using assms n that by (intro padded_size_dvd) auto
qed

subsection \<open>Unpadding\<close>

lemma delete_map_snd:
  "AList.delete k (map (\<lambda>kv. (fst kv, f (snd kv))) d) = map (\<lambda>kv. (fst kv, f (snd kv))) (AList.delete k d)"
  by (induction d) auto

lemma delete_sort: "AList.delete k (sort_key fst d) = sort_key fst (AList.delete k d)"
  by (simp add: AList.delete_eq filter_sort)

lemma set_update: "kv \<in> set (AList.update k v d) \<Longrightarrow> kv = (k, v) \<or> kv \<in> set d"
  by (induction d) (auto split: if_splits)

lemma json_ok_update:
  assumes "json_ok (JObj d)" "str_ok k" "json_ok v"
  shows "json_ok (JObj (AList.update k v d))"
proof -
  have "str_ok (fst kv) \<and> json_ok (snd kv)" if "kv \<in> set (AList.update k v d)" for kv
    using set_update [OF that] assms unfolding json_ok_obj by auto
  then show ?thesis using assms(1) unfolding json_ok_obj by (simp add: distinct_update)
qed

lemma unpad_pad:
  assumes "0 < b" "json_ok (JObj e)" "pad_envelope rnd e b ms = Inr data"
  shows "\<exists>d. unpad_envelope data = Inr d \<and> JObj d = jsort (JObj (AList.delete ''pad'' e))"
proof -
  define p where "p = JStr (map (pad_choice rnd) [0..<nat (padded_size (base_len e) b ms - base_len e)])"
  have data: "data = canonical_json (JObj (AList.update ''pad'' p e))"
    using assms(1,3) by (auto simp: pad_envelope_eq p_def split: if_splits)
  have "json_ok p"
    using pad_choice_props(2) by (auto simp: p_def json_ok_def ascii_def intro!: str_ok_ascii)
  then have "json_ok (JObj (AList.update ''pad'' p e))"
    using assms(2) by (intro json_ok_update) (auto intro!: str_ok_ascii simp: ascii_def)
  then have "loads_bytes data = Inr (jsort (JObj (AList.update ''pad'' p e)))"
    unfolding data by (rule loads_canonical_json)
  then have "unpad_envelope data = Inr (AList.delete ''pad''
      (map (\<lambda>kv. (fst kv, jsort (snd kv))) (sort_key fst (AList.update ''pad'' p e))))"
    unfolding loads_bytes_def unpad_envelope_def jsort_obj
    by (auto simp: bindE_Inr_iff)
  then show ?thesis
    by (auto simp: sort_key_map_snd delete_map_snd delete_sort delete_update_same)
qed

text \<open>Unpadding a padded envelope gives the envelope back, with its keys sorted and without
  any \<open>pad\<close> field of its own.\<close>

theorem unpad_pad_envelope:
  assumes "0 < b" "json_ok (JObj e)" "pad_envelope rnd e b ms = Inr data"
  shows "\<exists>d. unpad_envelope data = Inr d \<and> JObj d = jsort (JObj (AList.delete ''pad'' e))"
  using assms by (rule unpad_pad)

text \<open>A concrete envelope, padded by the model itself.\<close>

definition sample_padded :: bytes where
  "sample_padded = canonical_json (JObj [(''a'', JInt 7), (''pad'', JStr (replicate 10 (CHR ''A'')))])"

lemma pad_sample: "pad_envelope (\<lambda>_. 0) [(''a'', JInt 7)] 26 (Some 52) = Inr sample_padded"
  by code_simp

theorem pad_envelope_size_witness:
  "(0::int) < 26 \<and> pad_envelope (\<lambda>_. 0) [(''a'', JInt 7)] 26 (Some 52) = Inr sample_padded
   \<and> base_len [(''a'', JInt 7)] \<le> int (length sample_padded) \<and> 26 dvd int (length sample_padded)"
  using pad_envelope_size [of 26 "\<lambda>_. 0" "[(''a'', JInt 7)]" "Some 52"] pad_sample by simp

theorem unpad_pad_envelope_witness:
  "\<exists>d. unpad_envelope sample_padded = Inr d \<and> JObj d = jsort (JObj [(''a'', JInt 7)])"
proof -
  have "json_ok (JObj [(''a'', JInt 7)])"
    by (auto simp: json_ok_def ascii_def intro!: str_ok_ascii)
  from unpad_pad_envelope [OF _ this pad_sample] show ?thesis by simp
qed

end
