(* ===== verification/RateLimit.thy ===== *)
theory RateLimit
  imports Prelude
begin

section \<open>The sliding-window rate limiter\<close>

text \<open>
  \<^verbatim>\<open>server/ratelimit.py\<close>.  The clock readings are integers of some unit instead of floats.  The
  abstract specification keeps every admitted call for ever and admits a call exactly when fewer
  than \<open>limit\<close> calls of its key were admitted during the window that ends with it; the code, which
  drops old events from a queue, implements it for a clock that does not run backwards.
\<close>

record limiter =
  limit :: int
  window :: int
  events :: "string \<Rightarrow> int list"

definition new_limiter :: "int \<Rightarrow> int \<Rightarrow> limiter" where
  "new_limiter lim win = \<lparr>limit = max 0 lim, window = win, events = (\<lambda>_. [])\<rparr>"

text \<open>The loop \<open>while events and events[0] < cutoff: events.popleft()\<close> is \<open>dropWhile\<close>.\<close>

definition allow :: "string \<Rightarrow> int \<Rightarrow> limiter \<Rightarrow> bool \<times> limiter" where
  "allow key current l =
     (if limit l = 0 then (True, l)
      else let cutoff = current - window l;
               evs = dropWhile (\<lambda>t. t < cutoff) (events l key) in
           if limit l \<le> int (length evs) then (False, l\<lparr>events := (events l)(key := evs)\<rparr>)
           else (True, l\<lparr>events := (events l)(key := evs @ [current])\<rparr>))"

definition reset :: "limiter \<Rightarrow> limiter" where
  "reset l = l\<lparr>events := (\<lambda>_. [])\<rparr>"

record limiters =
  lim_create :: limiter
  lim_write :: limiter
  lim_bundle :: limiter

definition new_limiters :: "int \<Rightarrow> int \<Rightarrow> int \<Rightarrow> limiters" where
  "new_limiters creates_per_hour writes_per_minute bundles_per_hour =
     \<lparr>lim_create = new_limiter creates_per_hour 3600, lim_write = new_limiter writes_per_minute 60,
      lim_bundle = new_limiter bundles_per_hour 3600\<rparr>"

definition reset_all :: "limiters \<Rightarrow> limiters" where
  "reset_all ls = ls\<lparr>lim_create := reset (lim_create ls), lim_write := reset (lim_write ls),
     lim_bundle := reset (lim_bundle ls)\<rparr>"

subsection \<open>Specification\<close>

text \<open>A sequence of calls, each a key and the time it is made, and the decisions on them.\<close>

fun run_calls :: "limiter \<Rightarrow> (string \<times> int) list \<Rightarrow> bool list" where
  "run_calls l [] = []"
| "run_calls l ((k, t) # cs) = (let (b, l') = allow k t l in b # run_calls l' cs)"

type_synonym history = "string \<Rightarrow> int list"

definition admits :: "nat \<Rightarrow> int \<Rightarrow> history \<Rightarrow> string \<Rightarrow> int \<Rightarrow> bool" where
  "admits n w A k t \<longleftrightarrow> length (filter (\<lambda>x. t - w \<le> x) (A k)) < n"

fun spec_calls :: "nat \<Rightarrow> int \<Rightarrow> history \<Rightarrow> (string \<times> int) list \<Rightarrow> bool list" where
  "spec_calls n w A [] = []"
| "spec_calls n w A ((k, t) # cs) =
     (let b = admits n w A k t in b # spec_calls n w (if b then A(k := A k @ [t]) else A) cs)"

text \<open>The queue of a key is the part of its history that some cutoff up to now has not removed.\<close>

definition tracks :: "limiter \<Rightarrow> nat \<Rightarrow> int \<Rightarrow> history \<Rightarrow> int \<Rightarrow> bool" where
  "tracks l n w A now \<longleftrightarrow> limit l = int n \<and> 0 < n \<and> window l = w
     \<and> (\<forall>k. sorted (A k) \<and> (\<forall>x \<in> set (A k). x \<le> now)
         \<and> (\<exists>old. A k = old @ events l k \<and> (\<forall>x \<in> set old. x < now - w)))"

lemma dropWhile_filter_sorted: "sorted xs \<Longrightarrow> dropWhile (\<lambda>t. t < (c::int)) xs = filter (\<lambda>t. c \<le> t) xs"
  by (induction xs) (auto intro!: filter_True [symmetric])

lemma tracks_queue:
  assumes "tracks l n w A now" "now \<le> t"
  shows "dropWhile (\<lambda>x. x < t - w) (events l k) = filter (\<lambda>x. t - w \<le> x) (A k)"
proof -
  obtain old where o: "A k = old @ events l k" "\<forall>x \<in> set old. x < now - w" and s: "sorted (A k)"
    using assms(1) unfolding tracks_def by blast
  have "filter (\<lambda>x. t - w \<le> x) old = []" using o(2) assms(2) by (force simp: filter_empty_conv)
  then show ?thesis using o(1) s by (simp add: dropWhile_filter_sorted sorted_append)
qed

lemma filter_suffix:
  "sorted xs \<Longrightarrow> \<exists>old. xs = old @ filter (\<lambda>x. c \<le> x) xs \<and> (\<forall>x \<in> set old. x < (c::int))"
  using takeWhile_dropWhile_id [of "\<lambda>t. t < c" xs] set_takeWhileD [of _ "\<lambda>t. t < c" xs]
  by (intro exI [of _ "takeWhile (\<lambda>t. t < c) xs"]) (auto simp: dropWhile_filter_sorted)

lemma allow_step:
  assumes tr: "tracks l n w A now" and t: "now \<le> t"
  shows "fst (allow k t l) = admits n w A k t
    \<and> tracks (snd (allow k t l)) n w (if admits n w A k t then A(k := A k @ [t]) else A) t"
proof -
  have l: "limit l = int n" "0 < n" "window l = w" using tr by (auto simp: tracks_def)
  let ?q = "filter (\<lambda>x. t - w \<le> x) (A k)"
  have e: "allow k t l = (if length ?q < n then (True, l\<lparr>events := (events l)(k := ?q @ [t])\<rparr>)
       else (False, l\<lparr>events := (events l)(k := ?q)\<rparr>))"
    using l tracks_queue [OF tr t, of k] by (simp add: allow_def Let_def)
  have other: "sorted (A j) \<and> (\<forall>x \<in> set (A j). x \<le> t)
      \<and> (\<exists>old. A j = old @ events l j \<and> (\<forall>x \<in> set old. x < t - w))" for j
    using tr t unfolding tracks_def by (meson diff_right_mono order_less_le_trans order_trans)
  have own: "\<exists>old. A k = old @ ?q \<and> (\<forall>x \<in> set old. x < t - w)" using other [of k] filter_suffix by blast
  then have own': "\<exists>old. A k @ [t] = old @ ?q @ [t] \<and> (\<forall>x \<in> set old. x < t - w)" by auto
  show ?thesis
    using l other own own' unfolding e admits_def tracks_def by (auto simp: sorted_append)
qed

lemma run_calls_spec:
  assumes "0 < n" "sorted (map snd cs)"
  shows "run_calls (new_limiter (int n) w) cs = spec_calls n w (\<lambda>_. []) cs"
proof -
  have "tracks l n w A now \<Longrightarrow> sorted (map snd cs) \<Longrightarrow> (\<And>c. c \<in> set cs \<Longrightarrow> now \<le> snd c) \<Longrightarrow>
      run_calls l cs = spec_calls n w A cs" for l A now
  proof (induction cs arbitrary: l A now)
    case (Cons c cs)
    obtain k t where c: "c = (k, t)" by (cases c)
    have t: "now \<le> t" "\<And>c. c \<in> set cs \<Longrightarrow> t \<le> snd c" using Cons.prems(2) Cons.prems(3) [of c] c by auto
    have s: "fst (allow k t l) = admits n w A k t"
      "tracks (snd (allow k t l)) n w (if admits n w A k t then A(k := A k @ [t]) else A) t"
      using allow_step [OF Cons.prems(1) t(1)] by auto
    show ?case using Cons.IH [OF s(2)] Cons.prems(2) t(2) s(1) by (simp add: c Let_def split_beta)
  qed simp
  moreover have "tracks (new_limiter (int n) w) n w (\<lambda>_. []) (if cs = [] then 0 else snd (hd cs))"
    using assms(1) by (simp add: tracks_def new_limiter_def)
  ultimately show ?thesis using assms(2) by (cases cs) auto
qed

text \<open>C25: the limiter implements its specification.  For calls made at times that do not decrease, a
  limiter for \<open>n > 0\<close> calls per window \<open>w\<close> admits a call exactly when fewer than \<open>n\<close> earlier calls
  with the same key were admitted no more than \<open>w\<close> before it; calls with other keys and refused
  calls do not count.\<close>

theorem limiter_refines_spec:
  assumes "0 < n" "sorted (map snd cs)"
  shows "run_calls (new_limiter (int n) w) cs = spec_calls n w (\<lambda>_. []) cs"
  by (rule run_calls_spec [OF assms])

text \<open>The times of the admitted calls of a key.\<close>

definition admitted :: "string \<Rightarrow> (string \<times> int) list \<Rightarrow> bool list \<Rightarrow> int list" where
  "admitted k cs bs = map (snd \<circ> fst) (filter (\<lambda>(c, b). b \<and> fst c = k) (zip cs bs))"

lemma length_filter_mono: "(\<And>x. P x \<Longrightarrow> Q x) \<Longrightarrow> length (filter P xs) \<le> length (filter Q xs)"
  by (induction xs) auto

lemma spec_window:
  "sorted (map snd cs) \<Longrightarrow> (\<And>x c. x \<in> set (A k) \<Longrightarrow> c \<in> set cs \<Longrightarrow> x \<le> snd c) \<Longrightarrow>
   (\<And>c. length (filter (\<lambda>x. c \<le> x \<and> x \<le> c + w) (A k)) \<le> n) \<Longrightarrow>
   length (filter (\<lambda>x. c \<le> x \<and> x \<le> c + w) (A k @ admitted k cs (spec_calls n w A cs))) \<le> n"
proof (induction cs arbitrary: A)
  case Nil
  then show ?case by (simp add: admitted_def)
next
  case (Cons d cs)
  obtain j t where d: "d = (j, t)" by (cases d)
  let ?b = "admits n w A j t"
  let ?A = "if ?b then A(j := A j @ [t]) else A"
  have w: "length (filter (\<lambda>x. c \<le> x \<and> x \<le> c + w) (?A k)) \<le> n" for c
  proof (cases "?b \<and> j = k \<and> c \<le> t \<and> t \<le> c + w")
    case True
    have "length (filter (\<lambda>x. c \<le> x \<and> x \<le> c + w) (A k)) \<le> length (filter (\<lambda>x. t - w \<le> x) (A k))"
      using True by (intro length_filter_mono) auto
    then show ?thesis using True by (auto simp: admits_def)
  next
    case False
    then show ?thesis using Cons.prems(3) [of c] by auto
  qed
  have a: "x \<le> snd e" if "x \<in> set (?A k)" "e \<in> set cs" for x e
    using that Cons.prems(1) Cons.prems(2) [of x e] d by (auto split: if_splits)
  have e: "A k @ admitted k (d # cs) (spec_calls n w A (d # cs)) = ?A k @ admitted k cs (spec_calls n w ?A cs)"
    by (auto simp: d admitted_def Let_def)
  show ?case unfolding e using Cons.IH [of ?A, OF _ a w] Cons.prems(1) by simp
qed

text \<open>Within any stretch of time of the window's length, at whatever moment it begins, a limiter
  admits at most its limit of calls per key.\<close>

theorem limiter_window_bound:
  assumes "0 < n" "sorted (map snd cs)"
  shows "length (filter (\<lambda>x. c \<le> x \<and> x \<le> c + w) (admitted k cs (run_calls (new_limiter (int n) w) cs))) \<le> n"
  using spec_window [OF assms(2), of "\<lambda>_. []" k w n c] run_calls_spec [OF assms] by simp

text \<open>Both at a concrete sequence of calls: two calls per ten ticks.\<close>

definition sample_calls :: "(string \<times> int) list" where
  "sample_calls = [(''a'', 0), (''a'', 1), (''a'', 2), (''b'', 3), (''a'', 10), (''a'', 11)]"

theorem limiter_refines_spec_witness:
  "run_calls (new_limiter (int 2) 10) sample_calls = [True, True, False, True, False, True]
   \<and> spec_calls 2 10 (\<lambda>_. []) sample_calls = [True, True, False, True, False, True]"
proof -
  have "spec_calls 2 10 (\<lambda>_. []) sample_calls = [True, True, False, True, False, True]"
    by (simp add: sample_calls_def admits_def)
  then show ?thesis using limiter_refines_spec [of 2 sample_calls 10] by (simp add: sample_calls_def)
qed

theorem limiter_window_bound_witness:
  "length (filter (\<lambda>x. 0 \<le> x \<and> x \<le> 0 + 10)
     (admitted ''a'' sample_calls (run_calls (new_limiter (int 2) 10) sample_calls))) \<le> 2"
  by (rule limiter_window_bound) (simp_all add: sample_calls_def)

end
