(* ===== verification/Crypto.thy ===== *)
theory Crypto
  imports Encoding
begin

section \<open>Primitives, key derivation and authenticated encryption\<close>

text \<open>
  The primitives come from the \<open>cryptography\<close> package and from \<open>hashlib\<close>/\<open>hmac\<close>: they
  are a parameter of the model, a record of functions that every definition which reaches them
  takes as its first argument.  What the code relies on is stated as predicates on that record
  (output lengths, that opening undoes sealing, that both sides of a key agreement compute the
  same secret, that signing produces a signature that verifies); they are the documented
  behaviour of the primitives.  Keys, nonces and other random bytes are arguments.

  On top of them: \<^verbatim>\<open>crypto/kdf.py\<close> and \<^verbatim>\<open>crypto/aead.py\<close>.
\<close>

record crypto =
  hkdf_sha256 :: "bytes \<Rightarrow> bytes \<Rightarrow> bytes \<Rightarrow> nat \<Rightarrow> bytes"
  hmac_sha256 :: "bytes \<Rightarrow> bytes \<Rightarrow> bytes"
  sha256 :: "bytes \<Rightarrow> bytes"
  chacha_seal :: "bytes \<Rightarrow> bytes \<Rightarrow> bytes \<Rightarrow> bytes \<Rightarrow> bytes"
  chacha_open :: "bytes \<Rightarrow> bytes \<Rightarrow> bytes \<Rightarrow> bytes \<Rightarrow> bytes option"
  x25519_public :: "bytes \<Rightarrow> bytes"
  x25519_exchange :: "bytes \<Rightarrow> bytes \<Rightarrow> bytes res"
  ed25519_public :: "bytes \<Rightarrow> bytes"
  ed25519_sign :: "bytes \<Rightarrow> bytes \<Rightarrow> bytes"
  ed25519_verify :: "bytes \<Rightarrow> bytes \<Rightarrow> bytes \<Rightarrow> bool"

subsection \<open>What the code relies on\<close>

definition hash_lengths :: "crypto \<Rightarrow> bool" where
  "hash_lengths C \<longleftrightarrow> (\<forall>ikm salt info n. length (hkdf_sha256 C ikm salt info n) = n)
     \<and> (\<forall>k m. length (hmac_sha256 C k m) = 32) \<and> (\<forall>m. length (sha256 C m) = 32)"

definition aead_correct :: "crypto \<Rightarrow> bool" where
  "aead_correct C \<longleftrightarrow> (\<forall>k n p a. length k = 32 \<longrightarrow> length n = 12 \<longrightarrow>
     chacha_open C k n (chacha_seal C k n p a) a = Some p)"

text \<open>A ciphertext is longer than its plaintext: it carries the authentication tag.\<close>

definition aead_tagged :: "crypto \<Rightarrow> bool" where
  "aead_tagged C \<longleftrightarrow> (\<forall>k n p a. length p < length (chacha_seal C k n p a))"

definition dh_correct :: "crypto \<Rightarrow> bool" where
  "dh_correct C \<longleftrightarrow> (\<forall>a. length a = 32 \<longrightarrow> length (x25519_public C a) = 32)
     \<and> (\<forall>a b. length a = 32 \<longrightarrow> length b = 32 \<longrightarrow>
         (\<exists>s. x25519_exchange C a (x25519_public C b) = Inr s
            \<and> x25519_exchange C b (x25519_public C a) = Inr s))"

definition sign_correct :: "crypto \<Rightarrow> bool" where
  "sign_correct C \<longleftrightarrow> (\<forall>k m. length k = 32 \<longrightarrow> length (ed25519_public C k) = 32
     \<and> length (ed25519_sign C k m) = 64
     \<and> ed25519_verify C (ed25519_public C k) (ed25519_sign C k m) m)"

subsection \<open>Key derivation\<close>

definition IDENTITY_INFO :: bytes where "IDENTITY_INFO = str_encode ''noknowledge/identity/v1''"
definition X3DH_INFO :: bytes where "X3DH_INFO = str_encode ''noknowledge/x3dh/v1''"
definition ROOT_INFO :: bytes where "ROOT_INFO = str_encode ''nk/ratchet-root/v1''"
definition SK_COMMIT_INFO :: bytes where "SK_COMMIT_INFO = str_encode ''nk/sk-commit/v1''"
definition CARD_SIGN_INFO :: bytes where "CARD_SIGN_INFO = str_encode ''nk/card/v1''"
definition SPK_SIGN_INFO :: bytes where "SPK_SIGN_INFO = str_encode ''nk/spk/v1''"
definition AUTH_SIGN_INFO :: bytes where "AUTH_SIGN_INFO = str_encode ''nk/auth/v1''"
definition DEVICE_SIGN_INFO :: bytes where "DEVICE_SIGN_INFO = str_encode ''nk/devices/v1''"
definition DEVICE_LIST_ID_INFO :: bytes where "DEVICE_LIST_ID_INFO = str_encode ''nk/devices/v1/id''"
definition DEVICE_KEYS_ID_INFO :: bytes where "DEVICE_KEYS_ID_INFO = str_encode ''nk/devices/v1/keys''"
definition DEVICE_KEYS_SIGN_INFO :: bytes where "DEVICE_KEYS_SIGN_INFO = str_encode ''nk/devices/v1/keys/sig''"
definition DEVICE_SYNC_INFO :: bytes where "DEVICE_SYNC_INFO = str_encode ''nk/devices/v1/sync''"
definition DEVICE_SYNC_ITEM_INFO :: bytes where "DEVICE_SYNC_ITEM_INFO = str_encode ''nk/devices/v1/sync/item''"
definition DEVICE_LIST_ENC_INFO :: bytes where "DEVICE_LIST_ENC_INFO = str_encode ''nk/devices/v1/enc''"
definition ID_HASH_INFO :: bytes where "ID_HASH_INFO = str_encode ''nk-id''"

definition F_prefix :: bytes where "F_prefix = replicate 32 255"
definition ZERO_SALT :: bytes where "ZERO_SALT = replicate 32 0"

definition hkdf :: "crypto \<Rightarrow> bytes \<Rightarrow> bytes \<Rightarrow> bytes \<Rightarrow> nat \<Rightarrow> bytes" where
  "hkdf C ikm salt info n = hkdf_sha256 C ikm salt info n"

definition kdf_rk :: "crypto \<Rightarrow> bytes \<Rightarrow> bytes \<Rightarrow> bytes \<times> bytes" where
  "kdf_rk C root_key dh_output =
     (let out = hkdf C dh_output root_key ROOT_INFO 64 in (take 32 out, drop 32 out))"

definition kdf_ck :: "crypto \<Rightarrow> bytes \<Rightarrow> bytes \<times> bytes" where
  "kdf_ck C chain_key = (hmac_sha256 C chain_key [1], hmac_sha256 C chain_key [2])"

definition sk_commitment :: "crypto \<Rightarrow> bytes \<Rightarrow> bytes" where
  "sk_commitment C sk = sha256 C (SK_COMMIT_INFO @ sk)"

lemma kdf_ck_length: "hash_lengths C \<Longrightarrow> length (fst (kdf_ck C ck)) = 32"
  by (simp add: kdf_ck_def hash_lengths_def)

lemma kdf_rk_length:
  "hash_lengths C \<Longrightarrow> length (fst (kdf_rk C rk d)) = 32 \<and> length (snd (kdf_rk C rk d)) = 32"
  by (simp add: kdf_rk_def hash_lengths_def hkdf_def Let_def)

text \<open>\<open>digest.hex()\<close>.\<close>

definition hexdigest :: "bytes \<Rightarrow> string" where
  "hexdigest bs = concat (map (\<lambda>b. [hex_char (unat b div 16), hex_char (unat b mod 16)]) bs)"

subsection \<open>Authenticated encryption\<close>

definition aead_encrypt :: "crypto \<Rightarrow> bytes \<Rightarrow> bytes \<Rightarrow> bytes \<Rightarrow> bytes \<Rightarrow> (bytes \<times> bytes) res" where
  "aead_encrypt C nonce key plaintext ad =
     (if length key \<noteq> 32 then Inl AEADError
      else Inr (nonce, chacha_seal C key nonce plaintext ad))"

definition aead_decrypt :: "crypto \<Rightarrow> bytes \<Rightarrow> bytes \<Rightarrow> bytes \<Rightarrow> bytes \<Rightarrow> bytes res" where
  "aead_decrypt C key nonce ciphertext ad =
     (if length key \<noteq> 32 then Inl AEADError
      else if length nonce \<noteq> 12 then Inl AEADError
      else of_option AEADError (chacha_open C key nonce ciphertext ad))"

lemma aead_decrypt_encrypt:
  "aead_correct C \<Longrightarrow> length nonce = 12 \<Longrightarrow> aead_encrypt C nonce key p ad = Inr (n, ct) \<Longrightarrow>
   aead_decrypt C key n ct ad = Inr p"
  by (auto simp: aead_encrypt_def aead_decrypt_def aead_correct_def split: if_splits)

lemma aead_encrypt_Inr: "length key = 32 \<Longrightarrow>
   aead_encrypt C nonce key p ad = Inr (nonce, chacha_seal C key nonce p ad)"
  by (simp add: aead_encrypt_def)

lemma aead_decrypt_error: "aead_decrypt C key n ct ad = Inl e \<Longrightarrow> e = AEADError"
  by (auto simp: aead_decrypt_def of_option_def split: if_splits option.splits)

subsection \<open>A concrete instance\<close>

text \<open>
  Simple functions that satisfy the assumptions, for the concrete inputs of the witnesses: the
  public key of a private key is a copy of it, an exchange adds the two
  keys, sealing prefixes key, nonce and associated data, and a signature spells out key and
  length.  Nothing about the program rests on this instance.
\<close>

definition fit :: "nat \<Rightarrow> bytes \<Rightarrow> bytes" where
  "fit n bs = take n (bs @ replicate n 0)"

definition mix :: "bytes \<Rightarrow> byte" where
  "mix bs = foldl (\<lambda>a b. a * 31 + b) 7 bs"

definition toy :: crypto where
  "toy = \<lparr>
     hkdf_sha256 = (\<lambda>ikm salt info n. map (\<lambda>i. mix ikm + mix salt * 3 + mix info + word_of_nat i) [0..<n]),
     hmac_sha256 = (\<lambda>k m. map (\<lambda>i. mix k + mix m * 5 + word_of_nat i) [0..<32]),
     sha256 = (\<lambda>m. map (\<lambda>i. mix m + word_of_nat i) [0..<32]),
     chacha_seal = (\<lambda>k n p a. fit 4 k @ [mix k, mix n, mix a] @ p),
     chacha_open = (\<lambda>k n c a. if take 7 c = fit 4 k @ [mix k, mix n, mix a] then Some (drop 7 c) else None),
     x25519_public = (\<lambda>a. fit 32 a),
     x25519_exchange = (\<lambda>a b. if length a = 32 \<and> length b = 32
        then Inr (map (\<lambda>i. a ! i + b ! i) [0..<32]) else Inl ValueError),
     ed25519_public = (\<lambda>a. fit 32 a),
     ed25519_sign = (\<lambda>k m. fit 32 k @ map (\<lambda>i. mix m + word_of_nat i) [0..<32]),
     ed25519_verify = (\<lambda>pk s m. s = pk @ map (\<lambda>i. mix m + word_of_nat i) [0..<32]) \<rparr>"

lemma length_fit [simp]: "length (fit n bs) = n"
  by (simp add: fit_def)

lemma fit_id [simp]: "length bs = n \<Longrightarrow> fit n bs = bs"
  by (simp add: fit_def)

lemma toy_ok: "hash_lengths toy" "aead_correct toy" "dh_correct toy" "sign_correct toy"
  by (simp_all add: toy_def hash_lengths_def aead_correct_def dh_correct_def sign_correct_def
      add.commute)

lemma toy_tagged: "aead_tagged toy"
  by (simp add: toy_def aead_tagged_def)

end
