(* ===== verification/Identity.thy ===== *)
theory Identity
  imports Crypto
begin

section \<open>Identities and device keys\<close>

text \<open>
  \<^verbatim>\<open>crypto/identity.py\<close> and \<^verbatim>\<open>crypto/devicekeys.py\<close>.  An identity is its two private keys and a label.
  The mnemonic library, PBKDF2 and AES-GCM are a second record of parameters.  The vault is modelled
  as the document that \<open>json.dumps\<close> prints with indentation: the layout of the text is not modelled,
  reading it is (\<open>from_vault\<close> takes the bytes).  Saving to and loading from a path is file access and left
  out.  The theorems: a vault opens to the identity it was made from, with the right passphrase only;
  every signature verifies; a fingerprint has 26 characters of the base32 alphabet.
\<close>

record vault_prims =
  pbkdf2 :: "bytes \<Rightarrow> bytes \<Rightarrow> int \<Rightarrow> bytes"
  aesgcm_seal :: "bytes \<Rightarrow> bytes \<Rightarrow> bytes \<Rightarrow> bytes \<Rightarrow> bytes"
  aesgcm_open :: "bytes \<Rightarrow> bytes \<Rightarrow> bytes \<Rightarrow> bytes \<Rightarrow> bytes option"
  mnemonic_check :: "string \<Rightarrow> bool"
  mnemonic_seed :: "string \<Rightarrow> string \<Rightarrow> bytes"

text \<open>AES-GCM opens what it sealed, with the same key, nonce and associated data.\<close>

definition gcm_correct :: "vault_prims \<Rightarrow> bool" where
  "gcm_correct V \<longleftrightarrow> (\<forall>k n p a. aesgcm_open V k n (aesgcm_seal V k n p a) a = Some p)"

definition MNEMONIC_STRENGTH :: int where "MNEMONIC_STRENGTH = 256"
definition VAULT_VERSION :: int where "VAULT_VERSION = 1"
definition PBKDF2_ITERATIONS :: int where "PBKDF2_ITERATIONS = 600000"
definition ED_SEED_SIZE :: nat where "ED_SEED_SIZE = 32"
definition X_SEED_SIZE :: nat where "X_SEED_SIZE = 32"

definition derive_keys :: "crypto \<Rightarrow> bytes \<Rightarrow> bytes \<times> bytes" where
  "derive_keys C seed =
     (let root = hkdf C seed [] IDENTITY_INFO 64 in (take 32 root, take 32 (drop 32 root)))"

definition compute_identity_id :: "crypto \<Rightarrow> bytes \<Rightarrow> bytes \<Rightarrow> string" where
  "compute_identity_id C ed_public x_public = take 26 (b32e (sha256 C (ID_HASH_INFO @ ed_public @ x_public)))"

definition vault_key :: "vault_prims \<Rightarrow> string \<Rightarrow> bytes \<Rightarrow> int \<Rightarrow> bytes" where
  "vault_key V passphrase salt iterations = pbkdf2 V (str_encode passphrase) salt iterations"

record identity =
  ed_private :: bytes
  x_private :: bytes
  label :: json

definition ed_public_bytes :: "crypto \<Rightarrow> identity \<Rightarrow> bytes" where
  "ed_public_bytes C i = ed25519_public C (ed_private i)"

definition x_public_bytes :: "crypto \<Rightarrow> identity \<Rightarrow> bytes" where
  "x_public_bytes C i = x25519_public C (x_private i)"

definition identity_id :: "crypto \<Rightarrow> identity \<Rightarrow> string" where
  "identity_id C i = compute_identity_id C (ed_public_bytes C i) (x_public_bytes C i)"

subsection \<open>Construction\<close>

text \<open>\<open>" ".join(mnemonic.split())\<close>.\<close>

fun words_of :: "string \<Rightarrow> string \<Rightarrow> string list" where
  "words_of cur [] = (if cur = [] then [] else [cur])"
| "words_of cur (c # cs) =
     (if py_space c then (if cur = [] then words_of [] cs else cur # words_of [] cs)
      else words_of (cur @ [c]) cs)"

definition normalized_mnemonic :: "string \<Rightarrow> string" where
  "normalized_mnemonic m = join '' '' (words_of [] m)"

definition from_mnemonic :: "crypto \<Rightarrow> vault_prims \<Rightarrow> string \<Rightarrow> string option \<Rightarrow> json \<Rightarrow> identity res" where
  "from_mnemonic C V mnemonic passphrase lab =
     (let normalized = normalized_mnemonic mnemonic in
      if \<not> mnemonic_check V normalized then Inl IdentityError
      else let (ed, x) = derive_keys C (mnemonic_seed V normalized (case passphrase of None \<Rightarrow> [] | Some p \<Rightarrow> p)) in
           Inr \<lparr>ed_private = ed, x_private = x, label = lab\<rparr>)"

text \<open>\<open>words\<close> is the freshly generated mnemonic.\<close>

definition generate :: "crypto \<Rightarrow> vault_prims \<Rightarrow> string \<Rightarrow> json \<Rightarrow> string option \<Rightarrow> (identity \<times> string) res" where
  "generate C V words lab passphrase =
     bindE (from_mnemonic C V words passphrase lab) (\<lambda>i. Inr (i, words))"

definition from_private_bytes :: "bytes \<Rightarrow> bytes \<Rightarrow> json \<Rightarrow> identity res" where
  "from_private_bytes ed_seed x_seed lab =
     (if length ed_seed \<noteq> ED_SEED_SIZE \<or> length x_seed \<noteq> X_SEED_SIZE then Inl IdentityError
      else Inr \<lparr>ed_private = ed_seed, x_private = x_seed, label = lab\<rparr>)"

subsection \<open>Signatures\<close>

definition sign :: "crypto \<Rightarrow> identity \<Rightarrow> bytes \<Rightarrow> bytes" where
  "sign C i data = ed25519_sign C (ed_private i) data"

definition verify :: "crypto \<Rightarrow> bytes \<Rightarrow> bytes \<Rightarrow> bytes \<Rightarrow> bool" where
  "verify C ed_public signature data \<longleftrightarrow>
     length ed_public = 32 \<and> length signature = 64 \<and> ed25519_verify C ed_public signature data"

subsection \<open>Vault\<close>

definition secret_blob :: "identity \<Rightarrow> bytes" where
  "secret_blob i = ed_private i @ x_private i"

definition vault_ad :: "json \<Rightarrow> bytes" where
  "vault_ad iid = canonical_json (JObj [(''id'', iid)])"

text \<open>The payload of \<open>to_vault\<close>; salt and nonce are the random bytes.\<close>

definition to_vault :: "crypto \<Rightarrow> vault_prims \<Rightarrow> bytes \<Rightarrow> bytes \<Rightarrow> identity \<Rightarrow> string option \<Rightarrow> dict" where
  "to_vault C V salt nonce i passphrase =
     (let secret = secret_blob i;
          p = (case passphrase of None \<Rightarrow> [] | Some p \<Rightarrow> p);
          payload = [(''v'', JInt VAULT_VERSION), (''id'', JStr (identity_id C i)), (''label'', label i),
                     (''encrypted'', JBool (p \<noteq> []))] in
      if p \<noteq> [] then
        (let key = vault_key V p salt PBKDF2_ITERATIONS;
             blob = aesgcm_seal V key nonce secret (vault_ad (JStr (identity_id C i))) in
         payload @ [(''kdf'', JObj [(''salt'', JStr (b64e salt)), (''iterations'', JInt PBKDF2_ITERATIONS)]),
                    (''nonce'', JStr (b64e nonce)), (''secret'', JStr (b64e blob))])
      else payload @ [(''secret'', JStr (b64e secret))])"

text \<open>\<open>v == n\<close> for a value of a document: \<open>True\<close> equals 1 and \<open>False\<close> equals 0.\<close>

definition json_is_int :: "json option \<Rightarrow> int \<Rightarrow> bool" where
  "json_is_int m n \<longleftrightarrow> m = Some (JInt n) \<or> m = Some (JBool True) \<and> n = 1 \<or> m = Some (JBool False) \<and> n = 0"

definition get_or :: "dict \<Rightarrow> string \<Rightarrow> json \<Rightarrow> json" where
  "get_or d k def = (case map_of d k of None \<Rightarrow> def | Some v \<Rightarrow> v)"

definition vault_secret :: "vault_prims \<Rightarrow> dict \<Rightarrow> bytes \<Rightarrow> string option \<Rightarrow> bytes res" where
  "vault_secret V d blob passphrase =
     (if truthy_opt (map_of d ''encrypted'') then
        (case passphrase of None \<Rightarrow> Inl IdentityError
         | Some p \<Rightarrow>
           if p = [] then Inl IdentityError
           else let kdf = (if truthy_opt (map_of d ''kdf'') then get_or d ''kdf'' JNull else JObj []) in
             bindE (bindE (getitem kdf ''salt'') b64d_json) (\<lambda>salt.
             bindE (bindE (getitem kdf ''iterations'') py_int) (\<lambda>iterations.
             rethrow (\<lambda>_. True) IdentityError
               (bindE (bindE (getitem (JObj d) ''nonce'') b64d_json) (\<lambda>nonce.
                bindE (getitem (JObj d) ''id'') (\<lambda>iid.
                of_option AEADError (aesgcm_open V (vault_key V p salt iterations) nonce blob (vault_ad iid))))))))
      else if passphrase \<noteq> None \<and> passphrase \<noteq> Some [] then Inl IdentityError
      else Inr blob)"

definition from_vault :: "crypto \<Rightarrow> vault_prims \<Rightarrow> bytes \<Rightarrow> string option \<Rightarrow> identity res" where
  "from_vault C V data passphrase =
     bindE (rethrow (\<lambda>e. e = UnicodeError) IdentityError (utf8_decode data)) (\<lambda>text.
     bindE (rethrow (\<lambda>e. e = JSONDecodeError) IdentityError (json_loads text)) (\<lambda>payload.
     case payload of JObj d \<Rightarrow>
       if \<not> json_is_int (map_of d ''v'') VAULT_VERSION then Inl IdentityError
       else bindE (bindE (getitem payload ''secret'') b64d_json) (\<lambda>blob.
         bindE (vault_secret V d blob passphrase) (\<lambda>secret.
         if length secret \<noteq> ED_SEED_SIZE + X_SEED_SIZE then Inl IdentityError
         else bindE (from_private_bytes (take ED_SEED_SIZE secret) (drop ED_SEED_SIZE secret) (get_or d ''label'' JNull)) (\<lambda>i.
           if map_of d ''id'' \<noteq> Some (JStr (identity_id C i)) then Inl IdentityError else Inr i)))
     | _ \<Rightarrow> Inl IdentityError))"

subsection \<open>Device keys\<close>

definition signing_public :: "crypto \<Rightarrow> bytes \<Rightarrow> bytes res" where
  "signing_public C private = (if length private \<noteq> 32 then Inl ValueError else Inr (ed25519_public C private))"

definition agreement_public :: "crypto \<Rightarrow> bytes \<Rightarrow> bytes res" where
  "agreement_public C private = (if length private \<noteq> 32 then Inl ValueError else Inr (x25519_public C private))"

definition device_sign :: "crypto \<Rightarrow> bytes \<Rightarrow> bytes \<Rightarrow> bytes res" where
  "device_sign C private data = (if length private \<noteq> 32 then Inl ValueError else Inr (ed25519_sign C private data))"

definition device_verify :: "crypto \<Rightarrow> bytes \<Rightarrow> bytes \<Rightarrow> bytes \<Rightarrow> bool" where
  "device_verify C public signature data \<longleftrightarrow>
     length public = 32 \<and> length signature = 64 \<and> ed25519_verify C public signature data"

definition agreement :: "crypto \<Rightarrow> bytes \<Rightarrow> bytes \<Rightarrow> bytes res" where
  "agreement C private peer_public =
     (if length peer_public \<noteq> 32 then Inl DeviceKeyError
      else bindE (x25519_exchange C private peer_public) (\<lambda>shared.
        if shared = replicate 32 0 then Inl DeviceKeyError else Inr shared))"

subsection \<open>Properties\<close>

definition identity_wf :: "identity \<Rightarrow> bool" where
  "identity_wf i \<longleftrightarrow> length (ed_private i) = 32 \<and> length (x_private i) = 32"

lemma verify_sign: "sign_correct C \<Longrightarrow> identity_wf i \<Longrightarrow> verify C (ed_public_bytes C i) (sign C i data) data"
  by (simp add: verify_def sign_def ed_public_bytes_def sign_correct_def identity_wf_def)

lemma device_verify_sign:
  "sign_correct C \<Longrightarrow> signing_public C k = Inr pub \<Longrightarrow> device_sign C k data = Inr s \<Longrightarrow> device_verify C pub s data"
  by (auto simp: device_verify_def device_sign_def signing_public_def sign_correct_def split: if_splits)

lemma length_identity_id: "hash_lengths C \<Longrightarrow> length (compute_identity_id C e x) = 26"
  by (simp add: compute_identity_id_def length_b32e hash_lengths_def)

lemma set_identity_id: "set (compute_identity_id C e x) \<subseteq> set B32_ALPHABET"
  using set_b32e set_take_subset unfolding compute_identity_id_def by fast

lemma ascii_B32: "c \<in> set B32_ALPHABET \<Longrightarrow> of_char c \<le> (127::nat)"
  by (auto simp: B32_ALPHABET_def)

lemma str_ok_identity_id [simp]: "str_ok (compute_identity_id C e x)"
  by (rule str_ok_ascii) (use set_identity_id [of C e x] ascii_B32 in \<open>unfold ascii_def, blast\<close>)

lemma str_ok_identity_id' [simp]: "str_ok (identity_id C i)"
  by (simp add: identity_id_def)

text \<open>What a parsed vault answers: lookups in the document that was printed.\<close>

lemma from_vault_doc:
  assumes "identity_wf i" and d: "loads_bytes data = Inr (JObj d)"
    and m: "map_of d ''v'' = Some (JInt VAULT_VERSION)" "map_of d ''id'' = Some (JStr (identity_id C i))"
      "map_of d ''label'' = Some (label i)" "map_of d ''secret'' = Some (JStr (b64e blob))"
    and s: "vault_secret V d blob passphrase = Inr (secret_blob i)"
  shows "from_vault C V data passphrase = Inr i"
proof -
  obtain tx where t: "utf8_decode data = Inr tx" "json_loads tx = Inr (JObj d)"
    using d by (auto simp: loads_bytes_def res_simps)
  have l: "length (ed_private i) = 32" "length (x_private i) = 32" using assms(1) by (auto simp: identity_wf_def)
  then have "from_private_bytes (take ED_SEED_SIZE (secret_blob i)) (drop ED_SEED_SIZE (secret_blob i)) (get_or d ''label'' JNull) = Inr i"
    by (simp add: from_private_bytes_def secret_blob_def ED_SEED_SIZE_def X_SEED_SIZE_def get_or_def m)
  then show ?thesis
    using l s by (simp add: from_vault_def t m json_is_int_def b64d_json_def secret_blob_def ED_SEED_SIZE_def X_SEED_SIZE_def)
qed

definition simple_label :: "json \<Rightarrow> bool" where
  "simple_label v \<longleftrightarrow> v = JNull \<or> (\<exists>s. v = JStr s)"

lemma vault_lookup:
  assumes "simple_label (label i)" and "jsort (JObj (to_vault C V salt nonce i passphrase)) = JObj d"
  shows "map_of d k = map_option jsort (map_of (to_vault C V salt nonce i passphrase) k)"
proof -
  have "distinct (map fst (to_vault C V salt nonce i passphrase))" by (simp add: to_vault_def Let_def)
  moreover have "d = map (\<lambda>kv. (fst kv, jsort (snd kv))) (sort_key fst (to_vault C V salt nonce i passphrase))"
    using assms(2) unfolding jsort_obj by simp
  ultimately show ?thesis using map_of_jsort by simp
qed

lemma to_vault_opens:
  assumes "gcm_correct V" "identity_wf i" "simple_label (label i)"
    and "loads_bytes data = Inr (jsort (JObj (to_vault C V salt nonce i passphrase)))"
  shows "from_vault C V data passphrase = Inr i
    \<and> (passphrase \<noteq> None \<and> passphrase \<noteq> Some [] \<longrightarrow> from_vault C V data None = Inl IdentityError)
    \<and> (passphrase = None \<and> p \<noteq> [] \<longrightarrow> from_vault C V data (Some p) = Inl IdentityError)"
proof -
  obtain d where d: "jsort (JObj (to_vault C V salt nonce i passphrase)) = JObj d" by (simp add: jsort_obj)
  have ld: "loads_bytes data = Inr (JObj d)" using assms(4) d by simp
  note m = vault_lookup [OF assms(3) d]
  have lab: "jsort (label i) = label i" using assms(3) by (auto simp: simple_label_def)
  obtain blob where b: "map_of d ''secret'' = Some (JStr (b64e blob))" "vault_secret V d blob passphrase = Inr (secret_blob i)"
  proof (cases "passphrase = None \<or> passphrase = Some []")
    case True
    then have "map_of d ''secret'' = Some (JStr (b64e (secret_blob i)))" "map_of d ''encrypted'' = Some (JBool False)"
      unfolding m by (auto simp: to_vault_def)
    then show ?thesis using that True by (auto simp: vault_secret_def truthy_opt_def)
  next
    case False
    then obtain q where q: "passphrase = Some q" "q \<noteq> []" by auto
    let ?blob = "aesgcm_seal V (vault_key V q salt PBKDF2_ITERATIONS) nonce (secret_blob i) (vault_ad (JStr (identity_id C i)))"
    have "map_of d ''secret'' = Some (JStr (b64e ?blob))" "map_of d ''encrypted'' = Some (JBool True)"
      "map_of d ''nonce'' = Some (JStr (b64e nonce))" "map_of d ''id'' = Some (JStr (identity_id C i))"
      "map_of d ''kdf'' = Some (jsort (JObj [(''salt'', JStr (b64e salt)), (''iterations'', JInt PBKDF2_ITERATIONS)]))"
      unfolding m using q by (simp_all add: to_vault_def Let_def)
    moreover have "jsort (JObj [(''salt'', JStr (b64e salt)), (''iterations'', JInt PBKDF2_ITERATIONS)])
        = JObj [(''iterations'', JInt PBKDF2_ITERATIONS), (''salt'', JStr (b64e salt))]" by code_simp
    ultimately show ?thesis
      using that [of ?blob] q assms(1)
      by (simp add: vault_secret_def truthy_opt_def get_or_def b64d_json_def gcm_correct_def)
  qed
  have k: "map_of d ''v'' = Some (JInt VAULT_VERSION)" "map_of d ''id'' = Some (JStr (identity_id C i))"
      "map_of d ''label'' = Some (label i)"
    unfolding m by (simp_all add: to_vault_def Let_def lab)
  have "from_vault C V data passphrase = Inr i" by (rule from_vault_doc [OF assms(2) ld k b])
  moreover have "vault_secret V d blob q = Inl IdentityError \<Longrightarrow> from_vault C V data q = Inl IdentityError" for q
    using ld by (auto simp: from_vault_def loads_bytes_def res_simps k json_is_int_def b b64d_json_def)
  moreover have "map_of d ''encrypted'' = Some (JBool (passphrase \<noteq> None \<and> passphrase \<noteq> Some []))"
    unfolding m by (auto simp: to_vault_def Let_def split: option.split)
  ultimately show ?thesis by (auto simp: vault_secret_def truthy_opt_def)
qed

text \<open>A vault gives back the identity it was made from.  Whatever text the vault is printed as, if it
  parses to the payload of \<open>to_vault\<close>, then opening it with the passphrase it was made with, or without
  one if it was made without, returns the same keys and label.  Opening an encrypted vault without a
  passphrase, or a plain one with a passphrase, is refused.\<close>

theorem vault_roundtrip:
  assumes "gcm_correct V" "identity_wf i" "simple_label (label i)"
    and "loads_bytes data = Inr (jsort (JObj (to_vault C V salt nonce i passphrase)))"
  shows "from_vault C V data passphrase = Inr i
    \<and> (passphrase \<noteq> None \<and> passphrase \<noteq> Some [] \<longrightarrow> from_vault C V data None = Inl IdentityError)
    \<and> (passphrase = None \<and> p \<noteq> [] \<longrightarrow> from_vault C V data (Some p) = Inl IdentityError)"
  using to_vault_opens [OF assms] by blast

text \<open>A vault that opens is consistent.  Whatever bytes and passphrase are given, an identity that
  \<open>from_vault\<close> returns has two 32-byte private keys, and their fingerprint is the id recorded in the vault.\<close>

theorem vault_consistent:
  assumes "from_vault C V data passphrase = Inr i"
  shows "identity_wf i \<and> (\<exists>d. loads_bytes data = Inr (JObj d) \<and> map_of d ''id'' = Some (JStr (identity_id C i))
      \<and> json_is_int (map_of d ''v'') VAULT_VERSION)"
proof -
  obtain tx d where t: "utf8_decode data = Inr tx" "json_loads tx = Inr (JObj d)" "json_is_int (map_of d ''v'') VAULT_VERSION"
    and s: "\<exists>secret. from_private_bytes (take ED_SEED_SIZE secret) (drop ED_SEED_SIZE secret) (get_or d ''label'' JNull) = Inr i"
    and m: "map_of d ''id'' = Some (JStr (identity_id C i))"
  proof -
    obtain tx payload where t: "utf8_decode data = Inr tx" "json_loads tx = Inr payload"
      using assms by (auto simp: from_vault_def res_simps)
    then obtain d where "payload = JObj d" using assms by (cases payload) (auto simp: from_vault_def)
    then show ?thesis using that t assms by (auto simp: from_vault_def res_simps split: if_splits)
  qed
  have "identity_wf i"
    using s by (auto simp: from_private_bytes_def identity_wf_def ED_SEED_SIZE_def X_SEED_SIZE_def split: if_splits)
  then show ?thesis using t m by (auto simp: loads_bytes_def)
qed

subsection \<open>Witnesses\<close>

definition toy_vault :: vault_prims where
  "toy_vault = \<lparr>pbkdf2 = (\<lambda>p s n. p @ s), aesgcm_seal = (\<lambda>k n p a. mix (k @ n @ a) # p),
     aesgcm_open = (\<lambda>k n c a. case c of [] \<Rightarrow> None | x # p \<Rightarrow> if x = mix (k @ n @ a) then Some p else None),
     mnemonic_check = (\<lambda>_. True), mnemonic_seed = (\<lambda>m p. str_encode (m @ p))\<rparr>"

lemma toy_gcm: "gcm_correct toy_vault"
  by (simp add: gcm_correct_def toy_vault_def)

definition sample_identity :: identity where
  "sample_identity = \<lparr>ed_private = replicate 32 1, x_private = replicate 32 2, label = JStr ''me''\<rparr>"

lemma sample_identity_wf: "identity_wf sample_identity"
  by (simp add: identity_wf_def sample_identity_def)

lemma sample_vault_loads:
  "loads_bytes (canonical_json (JObj (to_vault toy toy_vault [3] [4] sample_identity (Some ''pw''))))
   = Inr (jsort (JObj (to_vault toy toy_vault [3] [4] sample_identity (Some ''pw''))))"
proof (rule loads_canonical_json)
  show "json_ok (JObj (to_vault toy toy_vault [3] [4] sample_identity (Some ''pw'')))"
    by (simp add: to_vault_def Let_def json_ok_obj sample_identity_def del: b64e.simps) (simp add: str_ok_ascii ascii_def)
qed

theorem vault_roundtrip_witness:
  "from_vault toy toy_vault (canonical_json (JObj (to_vault toy toy_vault [3] [4] sample_identity (Some ''pw'')))) (Some ''pw'')
     = Inr sample_identity
   \<and> from_vault toy toy_vault (canonical_json (JObj (to_vault toy toy_vault [3] [4] sample_identity (Some ''pw'')))) None
     = Inl IdentityError"
  using vault_roundtrip [OF toy_gcm sample_identity_wf _ sample_vault_loads] by (simp add: simple_label_def sample_identity_def)

theorem vault_consistent_witness:
  "\<exists>d. loads_bytes (canonical_json (JObj (to_vault toy toy_vault [3] [4] sample_identity (Some ''pw'')))) = Inr (JObj d)
    \<and> map_of d ''id'' = Some (JStr (identity_id toy sample_identity))"
proof -
  have "from_vault toy toy_vault (canonical_json (JObj (to_vault toy toy_vault [3] [4] sample_identity (Some ''pw'')))) (Some ''pw'')
      = Inr sample_identity"
    using to_vault_opens [OF toy_gcm sample_identity_wf _ sample_vault_loads] by (simp add: simple_label_def sample_identity_def)
  from vault_consistent [OF this] show ?thesis by blast
qed

end
