(* ===== verification/Ratchet.thy ===== *)
theory Ratchet
  imports Crypto Padding
begin

section \<open>The Double Ratchet\<close>

text \<open>
  \<^verbatim>\<open>crypto/ratchet.py\<close>.  \<open>ratchet_state\<close> is the dataclass \<open>RatchetState\<close>; the methods
  of \<open>Ratchet\<close> are methods over that state, so that what a raising method leaves behind is
  visible.  A private key that the code generates is an argument.  The theorems: decryption is
  transactional; a receiver in step with a chain decrypts its messages in any order, each once;
  two sides stay in step over any number of turns; the skipped-key cache grows by a bounded
  number of keys per message; a state survives serialisation.
\<close>

definition MAX_SKIP :: int where "MAX_SKIP = 1000"
definition AD_DOMAIN :: bytes where "AD_DOMAIN = str_encode ''nk/v1/msg''"

record ratchet_state =
  root_key :: bytes
  sending_chain :: "bytes option"
  receiving_chain :: "bytes option"
  dh_self_private :: "bytes option"
  dh_self_public :: "bytes option"
  dh_remote :: "bytes option"
  send_count :: int
  recv_count :: int
  prev_send_count :: int
  skipped :: "(string \<times> bytes) list"

subsection \<open>Serialisation\<close>

text \<open>\<open>b64e(x) if x else None\<close>: an empty value counts as absent.\<close>

definition b64e_opt :: "bytes option \<Rightarrow> json" where
  "b64e_opt m = (case m of None \<Rightarrow> JNull | Some b \<Rightarrow> if b = [] then JNull else JStr (b64e b))"

text \<open>\<open>b64d(data[k]) if data.get(k) else None\<close>.\<close>

definition b64d_opt :: "dict \<Rightarrow> string \<Rightarrow> bytes option res" where
  "b64d_opt d k =
     (case map_of d k of None \<Rightarrow> Inr None
      | Some v \<Rightarrow> if truthy v then bindE (b64d_json v) (\<lambda>b. Inr (Some b)) else Inr None)"

text \<open>\<open>int(data.get(k, 0))\<close>.\<close>

definition get_int0 :: "dict \<Rightarrow> string \<Rightarrow> int res" where
  "get_int0 d k = (case map_of d k of None \<Rightarrow> Inr 0 | Some v \<Rightarrow> py_int v)"

definition to_dict :: "ratchet_state \<Rightarrow> dict" where
  "to_dict s =
     [(''v'', JInt 1),
      (''rk'', JStr (b64e (root_key s))),
      (''cks'', b64e_opt (sending_chain s)),
      (''ckr'', b64e_opt (receiving_chain s)),
      (''dhs_priv'', b64e_opt (dh_self_private s)),
      (''dhs_pub'', b64e_opt (dh_self_public s)),
      (''dhr'', b64e_opt (dh_remote s)),
      (''ns'', JInt (send_count s)),
      (''nr'', JInt (recv_count s)),
      (''pn'', JInt (prev_send_count s)),
      (''skipped'', JObj (map (\<lambda>kv. (fst kv, JStr (b64e (snd kv)))) (skipped s)))]"

definition load_skipped :: "json option \<Rightarrow> (string \<times> bytes) list res" where
  "load_skipped m =
     (if truthy_opt m
      then case m of Some (JObj kvs) \<Rightarrow>
             mapE (\<lambda>kv. bindE (b64d_json (snd kv)) (\<lambda>b. Inr (fst kv, b))) kvs
           | _ \<Rightarrow> Inl AttributeError
      else Inr [])"

definition from_dict :: "json \<Rightarrow> ratchet_state res" where
  "from_dict data =
     bindE (getitem data ''rk'') (\<lambda>v. bindE (b64d_json v) (\<lambda>rk.
     case data of JObj d \<Rightarrow>
       bindE (b64d_opt d ''cks'') (\<lambda>cks. bindE (b64d_opt d ''ckr'') (\<lambda>ckr.
       bindE (b64d_opt d ''dhs_priv'') (\<lambda>priv. bindE (b64d_opt d ''dhs_pub'') (\<lambda>pub.
       bindE (b64d_opt d ''dhr'') (\<lambda>dhr.
       bindE (get_int0 d ''ns'') (\<lambda>ns. bindE (get_int0 d ''nr'') (\<lambda>nr. bindE (get_int0 d ''pn'') (\<lambda>pn.
       bindE (load_skipped (map_of d ''skipped'')) (\<lambda>sk.
         Inr \<lparr>root_key = rk, sending_chain = cks, receiving_chain = ckr, dh_self_private = priv,
              dh_self_public = pub, dh_remote = dhr, send_count = ns, recv_count = nr,
              prev_send_count = pn, skipped = sk\<rparr>)))))))))
     | _ \<Rightarrow> Inl TypeError))"

subsection \<open>Construction\<close>

definition fresh_state :: "bytes \<Rightarrow> ratchet_state" where
  "fresh_state rk = \<lparr>root_key = rk, sending_chain = None, receiving_chain = None,
     dh_self_private = None, dh_self_public = None, dh_remote = None,
     send_count = 0, recv_count = 0, prev_send_count = 0, skipped = []\<rparr>"

definition initiator :: "crypto \<Rightarrow> bytes \<Rightarrow> bytes \<Rightarrow> bytes \<Rightarrow> ratchet_state res" where
  "initiator C priv session_key remote_ratchet_public =
     (let s = (fresh_state session_key)\<lparr>dh_self_private := Some priv,
                dh_self_public := Some (x25519_public C priv),
                dh_remote := Some remote_ratchet_public\<rparr> in
      bindE (x25519_exchange C priv remote_ratchet_public) (\<lambda>d.
        let (rk, ck) = kdf_rk C (root_key s) d in
        Inr (s\<lparr>root_key := rk, sending_chain := Some ck\<rparr>)))"

definition responder :: "bytes \<Rightarrow> bytes \<Rightarrow> bytes \<Rightarrow> ratchet_state" where
  "responder session_key spk_private spk_public =
     (fresh_state session_key)\<lparr>dh_self_private := Some spk_private,
        dh_self_public := Some spk_public\<rparr>"

subsection \<open>Internals\<close>

definition skipped_key :: "bytes option \<Rightarrow> int \<Rightarrow> string" where
  "skipped_key dh number =
     b64e (case dh of None \<Rightarrow> [] | Some b \<Rightarrow> b) @ '':'' @ show_int number"

text \<open>\<open>ad_context or {}\<close>: the context comes from a parsed message and may be any value.\<close>

definition ad_context_or :: "json option \<Rightarrow> json" where
  "ad_context_or ctx = (case ctx of None \<Rightarrow> JObj [] | Some v \<Rightarrow> if truthy v then v else JObj [])"

definition associated_data :: "json \<Rightarrow> json option \<Rightarrow> bytes" where
  "associated_data header ad_context =
     AD_DOMAIN @ canonical_json (JObj [(''init'', ad_context_or ad_context), (''hdr'', header)])"

text \<open>The loop of \<open>_skip_keys\<close>, entered with a receiving chain \<open>ck\<close>.\<close>

function skip_loop :: "crypto \<Rightarrow> int \<Rightarrow> bytes \<Rightarrow> ratchet_state \<Rightarrow> ratchet_state" where
  "skip_loop C until ck s =
     (if recv_count s < until
      then let (mk, ck') = kdf_ck C ck in
           skip_loop C until ck'
             (s\<lparr>receiving_chain := Some ck',
                skipped := AList.update (skipped_key (dh_remote s) (recv_count s)) mk (skipped s),
                recv_count := recv_count s + 1\<rparr>)
      else s)"
  by auto
termination
  by (relation "measure (\<lambda>(C, until, ck, s). nat (until - recv_count s))") auto

declare skip_loop.simps [simp del]

definition skip_keys :: "crypto \<Rightarrow> int \<Rightarrow> (ratchet_state, unit) meth" where
  "skip_keys C until s =
     (case receiving_chain s of None \<Rightarrow> (Inr (), s)
      | Some ck \<Rightarrow>
        if recv_count s + MAX_SKIP < until then (Inl SkippedTooFar, s)
        else (Inr (), skip_loop C until ck s))"

definition dh_ratchet :: "crypto \<Rightarrow> bytes \<Rightarrow> bytes \<Rightarrow> (ratchet_state, unit) meth" where
  "dh_ratchet C priv remote =
     thenS (modifyS (\<lambda>s. s\<lparr>prev_send_count := send_count s, send_count := 0, recv_count := 0,
                           dh_remote := Some remote\<rparr>))
     (bindS (getS dh_self_private) (\<lambda>own.
        case own of None \<Rightarrow> raiseS RatchetError
        | Some own_priv \<Rightarrow>
          bindS (liftS (x25519_exchange C own_priv remote)) (\<lambda>d.
          thenS (modifyS (\<lambda>s. let (rk, ck) = kdf_rk C (root_key s) d in
                              s\<lparr>root_key := rk, receiving_chain := Some ck\<rparr>))
          (thenS (modifyS (\<lambda>s. s\<lparr>dh_self_private := Some priv,
                                 dh_self_public := Some (x25519_public C priv)\<rparr>))
          (bindS (liftS (x25519_exchange C priv remote)) (\<lambda>d'.
           modifyS (\<lambda>s. let (rk, ck) = kdf_rk C (root_key s) d' in
                        s\<lparr>root_key := rk, sending_chain := Some ck\<rparr>)))))))"

subsection \<open>Encryption\<close>

definition make_header :: "bytes \<Rightarrow> int \<Rightarrow> int \<Rightarrow> json" where
  "make_header pub pn n = JObj [(''dh'', JStr (b64e pub)), (''pn'', JInt pn), (''n'', JInt n)]"

definition encrypt ::
  "crypto \<Rightarrow> bytes \<Rightarrow> bytes \<Rightarrow> json option \<Rightarrow> (ratchet_state, json \<times> bytes \<times> bytes) meth" where
  "encrypt C nonce plaintext ad_context =
     bindS (getS sending_chain) (\<lambda>chain.
       case chain of None \<Rightarrow> raiseS RatchetError
       | Some ck \<Rightarrow>
         let (mk, ck') = kdf_ck C ck in
         thenS (modifyS (\<lambda>s. s\<lparr>sending_chain := Some ck'\<rparr>))
         (bindS (getS (\<lambda>s. (dh_self_public s, prev_send_count s, send_count s))) (\<lambda>(pub, pn, n).
            case pub of None \<Rightarrow> raiseS TypeError
            | Some p \<Rightarrow>
              let header = make_header p pn n in
              bindS (liftS (aead_encrypt C nonce mk plaintext (associated_data header ad_context)))
                (\<lambda>(nonce', ct).
                 thenS (modifyS (\<lambda>s. s\<lparr>send_count := send_count s + 1\<rparr>))
                   (returnS (header, nonce', ct))))))"

subsection \<open>Decryption\<close>

definition parse_header :: "json \<Rightarrow> (bytes \<times> int \<times> int) res" where
  "parse_header header =
     rethrow is_shape_error RatchetError
       (bindE (bindE (getitem header ''dh'') b64d_json) (\<lambda>dh.
        bindE (bindE (getitem header ''n'') py_int) (\<lambda>n.
        bindE (bindE (getitem header ''pn'') py_int) (\<lambda>pn. Inr (dh, n, pn)))))"

text \<open>\<open>skipped.pop(key, None)\<close>, then either the cached key or the next keys of the chain.\<close>

definition take_key :: "crypto \<Rightarrow> bytes \<Rightarrow> int \<Rightarrow> (ratchet_state, bytes) meth" where
  "take_key C remote number =
     bindS (getS (\<lambda>s. map_of (skipped s) (skipped_key (Some remote) number))) (\<lambda>cached.
     thenS (modifyS (\<lambda>s. s\<lparr>skipped := AList.delete (skipped_key (Some remote) number) (skipped s)\<rparr>))
     (case cached of Some mk \<Rightarrow> returnS mk
      | None \<Rightarrow>
        bindS (getS recv_count) (\<lambda>nr.
        if number < nr then raiseS DuplicateMessage
        else if nr + MAX_SKIP < number then raiseS SkippedTooFar
        else thenS (skip_keys C number)
          (bindS (getS receiving_chain) (\<lambda>chain.
             case chain of None \<Rightarrow> raiseS TypeError
             | Some ck \<Rightarrow>
               let (mk, ck') = kdf_ck C ck in
               thenS (modifyS (\<lambda>s. s\<lparr>receiving_chain := Some ck', recv_count := recv_count s + 1\<rparr>))
                 (returnS mk))))))"

definition advance :: "crypto \<Rightarrow> bytes \<Rightarrow> bytes \<Rightarrow> int \<Rightarrow> (ratchet_state, unit) meth" where
  "advance C priv remote prev =
     bindS (getS (\<lambda>s. (dh_remote s, receiving_chain s))) (\<lambda>(dhr, ckr).
       if dhr \<noteq> Some remote \<or> ckr = None
       then thenS (if ckr \<noteq> None then skip_keys C prev else returnS ())
              (dh_ratchet C priv remote)
       else returnS ())"

definition decrypt_raw ::
  "crypto \<Rightarrow> bytes \<Rightarrow> json \<Rightarrow> bytes \<Rightarrow> bytes \<Rightarrow> json option \<Rightarrow> (ratchet_state, bytes) meth" where
  "decrypt_raw C priv header nonce ct ad_context =
     bindS (liftS (parse_header header)) (\<lambda>(remote, number, prev).
     thenS (advance C priv remote prev)
     (bindS (take_key C remote number) (\<lambda>mk.
        liftS (aead_decrypt C mk nonce ct (associated_data header ad_context)))))"

definition decrypt ::
  "crypto \<Rightarrow> bytes \<Rightarrow> json \<Rightarrow> bytes \<Rightarrow> bytes \<Rightarrow> json option \<Rightarrow> (ratchet_state, bytes) meth" where
  "decrypt C priv header nonce ct ad_context = transact (decrypt_raw C priv header nonce ct ad_context)"


subsection \<open>Cache keys\<close>

lemma colon_notin_b64e: "CHR '':'' \<notin> set (b64e bs)"
proof
  assume "CHR '':'' \<in> set (b64e bs)"
  then obtain n where n: "n < 64" "CHR '':'' = b64_char n" using set_b64e [of bs] by blast
  have "b64_val (CHR '':'') = None" by (simp add: b64_val_def)
  then show False using b64_table [OF n(1)] by (simp only: n(2)) simp
qed

lemma show_int_inj: "show_int i = show_int j \<longleftrightarrow> i = j"
proof
  assume e: "show_int i = show_int j"
  show "i = j" using pint_show_int [of "[]" i] pint_show_int [of "[]" j] unfolding e by simp
qed simp

lemma append_sep_eq:
  "c \<notin> set a \<Longrightarrow> c \<notin> set b \<Longrightarrow> a @ c # s = b @ c # t \<longleftrightarrow> a = b \<and> s = t"
proof (induction a arbitrary: b)
  case Nil then show ?case by (cases b) auto
next
  case (Cons x a) then show ?case by (cases b) auto
qed

lemma skipped_key_eq_iff [simp]: "skipped_key (Some d) n = skipped_key (Some d') m \<longleftrightarrow> d = d' \<and> n = m"
  using colon_notin_b64e
  by (simp add: skipped_key_def append_sep_eq show_int_inj)

subsection \<open>Chains\<close>

text \<open>The chain key after \<open>n\<close> steps and the message key of number \<open>n\<close>.\<close>

primrec ck_at :: "crypto \<Rightarrow> bytes \<Rightarrow> nat \<Rightarrow> bytes" where
  "ck_at C ck 0 = ck"
| "ck_at C ck (Suc n) = snd (kdf_ck C (ck_at C ck n))"

definition mk_at :: "crypto \<Rightarrow> bytes \<Rightarrow> nat \<Rightarrow> bytes" where
  "mk_at C ck n = fst (kdf_ck C (ck_at C ck n))"

lemma ck_at_add: "ck_at C (ck_at C ck a) b = ck_at C ck (a + b)"
  by (induction b) simp_all

lemma mk_at_add: "mk_at C (ck_at C ck a) b = mk_at C ck (a + b)"
  by (simp add: mk_at_def ck_at_add)

lemma ck_at_Suc2: "ck_at C (snd (kdf_ck C ck)) n = ck_at C ck (Suc n)"
  using ck_at_add [of C ck 1 n] by simp

lemma kdf_ck_at: "kdf_ck C (ck_at C ck n) = (mk_at C ck n, ck_at C ck (Suc n))"
  by (simp add: mk_at_def)

lemma length_mk_at: "hash_lengths C \<Longrightarrow> length (mk_at C ck n) = 32"
  by (simp add: mk_at_def kdf_ck_length)

text \<open>The cache after storing the keys of \<open>k\<close> chain steps.\<close>

primrec skip_cache ::
  "crypto \<Rightarrow> bytes option \<Rightarrow> int \<Rightarrow> bytes \<Rightarrow> nat \<Rightarrow> (string \<times> bytes) list \<Rightarrow> (string \<times> bytes) list" where
  "skip_cache C dh r ck 0 sk = sk"
| "skip_cache C dh r ck (Suc k) sk =
     AList.update (skipped_key dh (r + int k)) (mk_at C ck k) (skip_cache C dh r ck k sk)"

lemma skip_cache_Suc2:
  "skip_cache C dh r ck (Suc k) sk
   = skip_cache C dh (r + 1) (snd (kdf_ck C ck)) k (AList.update (skipped_key dh r) (mk_at C ck 0) sk)"
proof (induction k)
  case (Suc k)
  have "mk_at C (snd (kdf_ck C ck)) k = mk_at C ck (Suc k)"
    by (simp add: mk_at_def ck_at_Suc2)
  then show ?case using Suc.IH by (simp add: algebra_simps)
qed simp

lemma skip_loop_eq:
  "receiving_chain s = Some ck \<Longrightarrow> until - recv_count s \<le> int k \<Longrightarrow> int k = until - recv_count s \<or> k = 0 \<Longrightarrow>
   skip_loop C until ck s = s\<lparr>receiving_chain := Some (ck_at C ck k), recv_count := recv_count s + int k,
     skipped := skip_cache C (dh_remote s) (recv_count s) ck k (skipped s)\<rparr>"
proof (induction k arbitrary: ck s)
  case 0
  then show ?case by (subst skip_loop.simps) simp
next
  case (Suc k)
  show ?case
    using Suc.prems
    by (subst skip_loop.simps)
      (simp add: Suc.IH Let_def split_beta ck_at_Suc2 skip_cache_Suc2 mk_at_def
        del: ck_at.simps(2) skip_cache.simps(2))
qed

lemma skip_cache_same:
  "map_of (skip_cache C (Some dh) r ck k sk) (skipped_key (Some dh) n)
   = (if r \<le> n \<and> n < r + int k then Some (mk_at C ck (nat (n - r))) else map_of sk (skipped_key (Some dh) n))"
  by (induction k) (auto simp: update_conv')

lemma skip_cache_other:
  "d \<noteq> dh \<Longrightarrow> map_of (skip_cache C (Some dh) r ck k sk) (skipped_key (Some d) n) = map_of sk (skipped_key (Some d) n)"
  by (induction k) (auto simp: update_conv')

lemma length_update: "length (AList.update k v d) \<le> Suc (length d)"
  by (induction d) auto

lemma length_skip_cache: "length (skip_cache C dh r ck k sk) \<le> length sk + k"
proof (induction k)
  case (Suc k)
  then show ?case
    using length_update [of "skipped_key dh (r + int k)" "mk_at C ck k" "skip_cache C dh r ck k sk"] by simp
qed simp

lemma keys_skip_cache:
  "fst ` set (skip_cache C dh r ck k sk) \<subseteq> fst ` set sk \<union> range (skipped_key dh)"
  by (induction k) (auto simp: dom_update)

subsection \<open>A receiver in step with a chain\<close>

text \<open>
  \<open>in_chain C dh ck0 used s\<close>: the state receives on the chain of remote key \<open>dh\<close> that
  started at \<open>ck0\<close>, and of the numbers below its counter exactly those in \<open>used\<close> have no
  cached key.
\<close>

definition in_chain :: "crypto \<Rightarrow> bytes \<Rightarrow> bytes \<Rightarrow> nat set \<Rightarrow> ratchet_state \<Rightarrow> bool" where
  "in_chain C dh ck0 used s \<longleftrightarrow> dh_remote s = Some dh \<and> 0 \<le> recv_count s
     \<and> receiving_chain s = Some (ck_at C ck0 (nat (recv_count s)))
     \<and> (\<forall>n. map_of (skipped s) (skipped_key (Some dh) n)
          = (if 0 \<le> n \<and> n < recv_count s \<and> nat n \<notin> used then Some (mk_at C ck0 (nat n)) else None))
     \<and> (\<forall>n \<in> used. int n < recv_count s)"

text \<open>What receiving on a chain leaves alone: everything but the chain, its counter and the cache.\<close>

definition send_half :: "ratchet_state \<Rightarrow> bytes \<times> bytes option \<times> bytes option \<times> bytes option \<times> int \<times> int" where
  "send_half s = (root_key s, sending_chain s, dh_self_private s, dh_self_public s, send_count s, prev_send_count s)"

definition cache_keys :: "ratchet_state \<Rightarrow> string set" where
  "cache_keys s = fst ` set (skipped s)"

lemma map_of_delete_key: "map_of (AList.delete k d) x = (if x = k then None else map_of d x)"
  by (simp add: delete_conv')

lemma set_delete: "x \<in> set (AList.delete k d) \<longleftrightarrow> x \<in> set d \<and> fst x \<noteq> k"
  by (auto simp: AList.delete_eq)

lemma in_chain_parts:
  assumes "in_chain C dh ck0 used s"
  shows "dh_remote s = Some dh" "0 \<le> recv_count s"
    "receiving_chain s = Some (ck_at C ck0 (nat (recv_count s)))"
    "n \<in> used \<Longrightarrow> int n < recv_count s"
    "map_of (skipped s) (skipped_key (Some dh) i)
       = (if 0 \<le> i \<and> i < recv_count s \<and> nat i \<notin> used then Some (mk_at C ck0 (nat i)) else None)"
  using assms by (auto simp: in_chain_def)

lemma take_key_cached:
  assumes "in_chain C dh ck0 used s" "int n < recv_count s" "n \<notin> used"
  shows "take_key C dh (int n) s
    = (Inr (mk_at C ck0 n), s\<lparr>skipped := AList.delete (skipped_key (Some dh) (int n)) (skipped s)\<rparr>)"
  using assms in_chain_parts(5) [OF assms(1), of "int n"]
  by (simp add: take_key_def meth_defs)

lemma take_key_dup:
  assumes "in_chain C dh ck0 used s" "n \<in> used"
  shows "fst (take_key C dh (int n) s) = Inl DuplicateMessage"
  using assms in_chain_parts(5) [OF assms(1), of "int n"] in_chain_parts(4) [OF assms]
  by (simp add: take_key_def meth_defs)

lemma take_key_too_far:
  assumes "in_chain C dh ck0 used s" "recv_count s + MAX_SKIP < n"
  shows "fst (take_key C dh n s) = Inl SkippedTooFar"
  using assms in_chain_parts(5) [OF assms(1), of n] in_chain_parts(2) [OF assms(1)]
  by (simp add: take_key_def meth_defs MAX_SKIP_def)

lemma take_key_new:
  assumes c: "in_chain C dh ck0 used s" and n: "recv_count s \<le> int n" "int n \<le> recv_count s + MAX_SKIP"
  shows "take_key C dh (int n) s = (Inr (mk_at C ck0 n),
     s\<lparr>receiving_chain := Some (ck_at C ck0 (Suc n)), recv_count := int n + 1,
       skipped := skip_cache C (Some dh) (recv_count s) (ck_at C ck0 (nat (recv_count s)))
          (n - nat (recv_count s)) (AList.delete (skipped_key (Some dh) (int n)) (skipped s))\<rparr>)"
proof -
  let ?s = "s\<lparr>skipped := AList.delete (skipped_key (Some dh) (int n)) (skipped s)\<rparr>"
  let ?k = "n - nat (recv_count s)"
  note p = in_chain_parts [OF c]
  have none: "map_of (skipped s) (skipped_key (Some dh) (int n)) = None" using p(5) n by simp
  have k: "int ?k = int n - recv_count s" using n p(2) by simp
  have "skip_loop C (int n) (ck_at C ck0 (nat (recv_count s))) ?s
      = ?s\<lparr>receiving_chain := Some (ck_at C ck0 n), recv_count := int n,
           skipped := skip_cache C (Some dh) (recv_count s) (ck_at C ck0 (nat (recv_count s))) ?k (skipped ?s)\<rparr>"
    using skip_loop_eq [of ?s "ck_at C ck0 (nat (recv_count s))" "int n" ?k C] k p(1-3) n
    by (simp add: ck_at_add)
  then show ?thesis
    using none n p(1-3)
    by (simp add: take_key_def meth_defs skip_keys_def kdf_ck_at del: ck_at.simps)
qed

lemma take_key_step:
  assumes c: "in_chain C dh ck0 used s" and n: "n \<notin> used" "int n \<le> recv_count s + MAX_SKIP"
  shows "\<exists>s'. take_key C dh (int n) s = (Inr (mk_at C ck0 n), s') \<and> in_chain C dh ck0 (insert n used) s'
    \<and> send_half s' = send_half s \<and> recv_count s \<le> recv_count s' \<and> int n < recv_count s'
    \<and> cache_keys s' \<subseteq> cache_keys s \<union> range (skipped_key (Some dh))"
proof (cases "int n < recv_count s")
  case True
  then show ?thesis
    using take_key_cached [OF c True n(1)] c
    by (auto simp: in_chain_def map_of_delete_key send_half_def cache_keys_def set_delete image_iff)
next
  case False
  then have r: "recv_count s \<le> int n" by simp
  note p = in_chain_parts [OF c]
  let ?sk = "skip_cache C (Some dh) (recv_count s) (ck_at C ck0 (nat (recv_count s)))
          (n - nat (recv_count s)) (AList.delete (skipped_key (Some dh) (int n)) (skipped s))"
  let ?s = "s\<lparr>receiving_chain := Some (ck_at C ck0 (Suc n)), recv_count := int n + 1, skipped := ?sk\<rparr>"
  have k: "int (n - nat (recv_count s)) = int n - recv_count s" using r p(2) by simp
  have m: "map_of ?sk (skipped_key (Some dh) i)
      = (if 0 \<le> i \<and> i < int n + 1 \<and> nat i \<notin> insert n used then Some (mk_at C ck0 (nat i)) else None)" for i
  proof (cases "recv_count s \<le> i \<and> i < int n")
    case True
    have "nat (recv_count s) + nat (i - recv_count s) = nat i"
      using True p(2) by (simp add: nat_add_distrib [symmetric])
    then show ?thesis
      using True k p(2) p(4) [of "nat i"] by (auto simp: skip_cache_same mk_at_add)
  next
    case False
    then show ?thesis
      using k p(2) p(4) [of "nat i"] p(5) [of i] r by (auto simp: skip_cache_same map_of_delete_key)
  qed
  have "in_chain C dh ck0 (insert n used) ?s"
  proof -
    have u: "\<forall>j \<in> used. int j < int n + 1" using p(4) r by fastforce
    show ?thesis
      unfolding in_chain_def using m p(1,2) r u by (auto simp: nat_add_distrib simp del: ck_at.simps)
  qed
  moreover
  have "fst ` set ?sk \<subseteq> fst ` set (skipped s) \<union> range (skipped_key (Some dh))"
  proof (rule subset_trans [OF keys_skip_cache])
    have "fst ` set (AList.delete k d) \<subseteq> fst ` set d" for k and d :: "(string \<times> bytes) list"
      by (auto simp: set_delete)
    then show "fst ` set (AList.delete (skipped_key (Some dh) (int n)) (skipped s)) \<union> range (skipped_key (Some dh))
      \<subseteq> fst ` set (skipped s) \<union> range (skipped_key (Some dh))"
      by blast
  qed
  then have "cache_keys ?s \<subseteq> cache_keys s \<union> range (skipped_key (Some dh))" by (simp add: cache_keys_def)
  ultimately show ?thesis
    using take_key_new [OF c r n(2)] r by (intro exI [of _ ?s]) (simp add: send_half_def del: ck_at.simps)
qed

subsection \<open>Messages\<close>

text \<open>The message of number \<open>n\<close> of a chain that starts at \<open>ck0\<close>, as \<open>encrypt\<close> builds it.\<close>

type_synonym message = "json \<times> bytes \<times> bytes"

definition chain_msg :: "crypto \<Rightarrow> bytes \<Rightarrow> int \<Rightarrow> bytes \<Rightarrow> nat \<Rightarrow> bytes \<Rightarrow> bytes \<Rightarrow> json option \<Rightarrow> message" where
  "chain_msg C pub pn ck0 n nonce pt ctx =
     (make_header pub pn (int n), nonce,
      chacha_seal C (mk_at C ck0 n) nonce pt (associated_data (make_header pub pn (int n)) ctx))"

lemma parse_make_header [simp]: "parse_header (make_header pub pn n) = Inr (pub, n, pn)"
  by (simp add: parse_header_def make_header_def b64d_json_def)

lemma encrypt_chain:
  assumes "hash_lengths C" "sending_chain s = Some (ck_at C ck0 n)" "send_count s = int n"
    "dh_self_public s = Some pub"
  shows "encrypt C nonce pt ctx s = (Inr (chain_msg C pub (prev_send_count s) ck0 n nonce pt ctx),
     s\<lparr>sending_chain := Some (ck_at C ck0 (Suc n)), send_count := int (Suc n)\<rparr>)"
  using assms
  by (simp add: encrypt_def meth_defs kdf_ck_at aead_encrypt_Inr length_mk_at chain_msg_def Let_def
      add.commute del: ck_at.simps)

lemma advance_same:
  "dh_remote s = Some dh \<Longrightarrow> receiving_chain s = Some ck \<Longrightarrow> advance C priv dh prev s = (Inr (), s)"
  by (simp add: advance_def meth_defs)

lemma open_chain_msg:
  "hash_lengths C \<Longrightarrow> aead_correct C \<Longrightarrow> length nonce = 12 \<Longrightarrow>
   aead_decrypt C (mk_at C ck0 n) nonce (chacha_seal C (mk_at C ck0 n) nonce pt ad) ad = Inr pt"
  by (simp add: aead_decrypt_def aead_correct_def length_mk_at)

lemma decrypt_via_key:
  assumes "advance C priv pub pn s = (Inr (), s1)" "take_key C pub (int n) s1 = (Inr (mk_at C ck0 n), s2)"
    and "hash_lengths C" "aead_correct C" "length nonce = 12"
    and m: "chain_msg C pub pn ck0 n nonce pt ctx = (h, no, ct)"
  shows "decrypt C priv h no ct ctx s = (Inr pt, s2)"
proof -
  have e: "h = make_header pub pn (int n)" "no = nonce"
    "ct = chacha_seal C (mk_at C ck0 n) nonce pt (associated_data h ctx)"
    using m by (auto simp: chain_msg_def)
  show ?thesis
    unfolding decrypt_def transact_ok using assms
    by (simp add: e decrypt_raw_def meth_defs open_chain_msg)
qed

lemma decrypt_key_error:
  assumes "advance C priv pub pn s = (Inr (), s1)" "fst (take_key C pub n s1) = Inl e"
  shows "decrypt C priv (make_header pub pn n) no ct ctx s = (Inl e, s)"
proof -
  obtain s2 where "take_key C pub n s1 = (Inl e, s2)" using assms(2) by (metis prod.collapse)
  then have "decrypt_raw C priv (make_header pub pn n) no ct ctx s = (Inl e, s2)"
    using assms(1) by (simp add: decrypt_raw_def meth_defs)
  then show ?thesis unfolding decrypt_def by (rule transact_Inl)
qed

lemma decrypt_in_chain:
  assumes c: "in_chain C pub ck0 used s" "n \<notin> used" "int n \<le> recv_count s + MAX_SKIP"
    and h: "hash_lengths C" "aead_correct C" "length nonce = 12"
    and m: "chain_msg C pub pn ck0 n nonce pt ctx = (h, no, ct)"
  shows "\<exists>s'. decrypt C priv h no ct ctx s = (Inr pt, s') \<and> in_chain C pub ck0 (insert n used) s'
    \<and> send_half s' = send_half s \<and> recv_count s \<le> recv_count s' \<and> int n < recv_count s'
    \<and> cache_keys s' \<subseteq> cache_keys s \<union> range (skipped_key (Some pub))"
proof -
  obtain s' where s': "take_key C pub (int n) s = (Inr (mk_at C ck0 n), s')"
    and r: "in_chain C pub ck0 (insert n used) s'" "send_half s' = send_half s" "recv_count s \<le> recv_count s'"
      "int n < recv_count s'" "cache_keys s' \<subseteq> cache_keys s \<union> range (skipped_key (Some pub))"
    using take_key_step [OF c] by blast
  have "advance C priv pub pn s = (Inr (), s)"
    using in_chain_parts(1,3) [OF c(1)] by (rule advance_same)
  then show ?thesis using decrypt_via_key [OF _ s' h m] r by blast
qed

text \<open>Delivering a list of messages, one after the other, whatever happens to each.\<close>

fun recv_all :: "crypto \<Rightarrow> (bytes \<times> message \<times> json option) list \<Rightarrow> ratchet_state \<Rightarrow>
    bytes res list \<times> ratchet_state" where
  "recv_all C [] s = ([], s)"
| "recv_all C ((priv, (h, no, ct), ctx) # ms) s =
     (let (r, s1) = decrypt C priv h no ct ctx s; (rs, s2) = recv_all C ms s1 in (r # rs, s2))"

text \<open>Encrypting a list of plaintexts.\<close>

fun send_all :: "crypto \<Rightarrow> (bytes \<times> bytes \<times> json option) list \<Rightarrow> ratchet_state \<Rightarrow>
    message res list \<times> ratchet_state" where
  "send_all C [] s = ([], s)"
| "send_all C ((nonce, pt, ctx) # xs) s =
     (let (r, s1) = encrypt C nonce pt ctx s; (rs, s2) = send_all C xs s1 in (r # rs, s2))"

definition nth_msg :: "crypto \<Rightarrow> bytes \<Rightarrow> int \<Rightarrow> bytes \<Rightarrow> (bytes \<times> bytes \<times> json option) list \<Rightarrow> nat \<Rightarrow> message" where
  "nth_msg C pub pn ck0 xs i = (case xs ! i of (nonce, pt, ctx) \<Rightarrow> chain_msg C pub pn ck0 i nonce pt ctx)"

lemma send_all_chain:
  assumes "hash_lengths C" "sending_chain s = Some (ck_at C ck0 n)" "send_count s = int n"
    "dh_self_public s = Some pub" "drop n ys = xs" "n + length xs = length ys"
  shows "send_all C xs s = (map (\<lambda>i. Inr (nth_msg C pub (prev_send_count s) ck0 ys i)) [n..<length ys],
     s\<lparr>sending_chain := Some (ck_at C ck0 (length ys)), send_count := int (length ys)\<rparr>)"
  using assms(2-)
proof (induction xs arbitrary: n s)
  case (Cons x xs)
  obtain nonce pt ctx where x: "x = (nonce, pt, ctx)" by (cases x) auto
  have l: "n < length ys" "ys ! n = x" "drop (Suc n) ys = xs"
    using Cons.prems(4,5) by (auto simp: nth_via_drop drop_Suc tl_drop [symmetric] simp del: tl_drop)
  let ?s = "s\<lparr>sending_chain := Some (ck_at C ck0 (Suc n)), send_count := int (Suc n)\<rparr>"
  have "send_all C xs ?s = (map (\<lambda>i. Inr (nth_msg C pub (prev_send_count ?s) ck0 ys i)) [Suc n..<length ys],
     ?s\<lparr>sending_chain := Some (ck_at C ck0 (length ys)), send_count := int (length ys)\<rparr>)"
    using Cons.prems l by (intro Cons.IH) auto
  then show ?case
    using encrypt_chain [OF assms(1) Cons.prems(1-3), of nonce pt ctx] l
    by (simp add: x upt_conv_Cons nth_msg_def del: ck_at.simps)
qed simp

lemma recv_all_chain:
  assumes h: "hash_lengths C" "aead_correct C" "\<And>x. x \<in> set xs \<Longrightarrow> length (fst x) = 12"
  shows "in_chain C pub ck0 used s \<Longrightarrow> distinct (map snd js) \<Longrightarrow> set (map snd js) \<inter> used = {} \<Longrightarrow>
    (\<And>j. j \<in> set js \<Longrightarrow> snd j < length xs \<and> int (snd j) \<le> MAX_SKIP) \<Longrightarrow>
    \<exists>s'. recv_all C (map (\<lambda>(p, i). (p, nth_msg C pub pn ck0 xs i, snd (snd (xs ! i)))) js) s
        = (map (\<lambda>(p, i). Inr (fst (snd (xs ! i)))) js, s')
      \<and> in_chain C pub ck0 (used \<union> set (map snd js)) s' \<and> send_half s' = send_half s
      \<and> recv_count s \<le> recv_count s' \<and> cache_keys s' \<subseteq> cache_keys s \<union> range (skipped_key (Some pub))"
proof (induction js arbitrary: s used)
  case (Cons j js)
  obtain p i where j: "j = (p, i)" by (cases j)
  obtain nonce pt ctx where x: "xs ! i = (nonce, pt, ctx)" by (cases "xs ! i") auto
  obtain hd no ct where m: "chain_msg C pub pn ck0 i nonce pt ctx = (hd, no, ct)"
    by (cases "chain_msg C pub pn ck0 i nonce pt ctx") auto
  have i: "i < length xs" "int i \<le> MAX_SKIP" "i \<notin> used" using Cons.prems(3) Cons.prems(4) [of j] j by auto
  have "length nonce = 12" using h(3) [OF nth_mem [OF i(1)]] x by simp
  moreover have "int i \<le> recv_count s + MAX_SKIP" using i(2) in_chain_parts(2) [OF Cons.prems(1)] by simp
  ultimately obtain s1 where s1: "decrypt C p hd no ct ctx s = (Inr pt, s1)"
      "in_chain C pub ck0 (insert i used) s1" "send_half s1 = send_half s" "recv_count s \<le> recv_count s1"
      "cache_keys s1 \<subseteq> cache_keys s \<union> range (skipped_key (Some pub))"
    using decrypt_in_chain [OF Cons.prems(1) i(3) _ h(1,2) _ m] by blast
  have d: "distinct (map snd js)" "set (map snd js) \<inter> insert i used = {}"
    and b: "\<And>j. j \<in> set js \<Longrightarrow> snd j < length xs \<and> int (snd j) \<le> MAX_SKIP"
    using Cons.prems(2-4) j by auto
  obtain s2 where "recv_all C (map (\<lambda>(p, i). (p, nth_msg C pub pn ck0 xs i, snd (snd (xs ! i)))) js) s1
        = (map (\<lambda>(p, i). Inr (fst (snd (xs ! i)))) js, s2)"
      "in_chain C pub ck0 (insert i used \<union> set (map snd js)) s2" "send_half s2 = send_half s1"
      "recv_count s1 \<le> recv_count s2" "cache_keys s2 \<subseteq> cache_keys s1 \<union> range (skipped_key (Some pub))"
    using Cons.IH [OF s1(2) d b] by blast
  then show ?case using s1 by (auto simp: j x m nth_msg_def)
qed auto

subsection \<open>Two sides in step\<close>

text \<open>
  \<open>in_step C D a b\<close>: \<open>a\<close> is about to send on a chain that \<open>b\<close> can derive, from \<open>b\<close>'s root key and
  its private key, and has not derived yet.  \<open>D\<close> holds every ratchet public key seen so far.
\<close>

definition cache_in :: "bytes set \<Rightarrow> ratchet_state \<Rightarrow> bool" where
  "cache_in D s \<longleftrightarrow> (\<forall>k \<in> cache_keys s. \<exists>d \<in> D. \<exists>n. k = skipped_key (Some d) n)"

definition counts_ok :: "ratchet_state \<Rightarrow> bool" where
  "counts_ok s \<longleftrightarrow> send_count s \<le> MAX_SKIP + 1 \<and> prev_send_count s \<le> MAX_SKIP + 1
     \<and> (receiving_chain s \<noteq> None \<longrightarrow> 1 \<le> recv_count s \<and> dh_remote s \<noteq> None)"

definition in_step :: "crypto \<Rightarrow> bytes set \<Rightarrow> ratchet_state \<Rightarrow> ratchet_state \<Rightarrow> bool" where
  "in_step C D a b \<longleftrightarrow> (\<exists>apriv bpriv d ck0. length apriv = 32 \<and> length bpriv = 32
     \<and> dh_self_private a = Some apriv \<and> dh_self_public a = Some (x25519_public C apriv)
     \<and> dh_self_private b = Some bpriv \<and> dh_remote a = Some (x25519_public C bpriv)
     \<and> x25519_exchange C bpriv (x25519_public C apriv) = Inr d
     \<and> kdf_rk C (root_key b) d = (root_key a, ck0) \<and> sending_chain a = Some ck0 \<and> send_count a = 0
     \<and> dh_remote b \<noteq> Some (x25519_public C apriv)
     \<and> (\<forall>n. skipped_key (Some (x25519_public C apriv)) n \<notin> cache_keys b)
     \<and> {x25519_public C apriv, x25519_public C bpriv} \<subseteq> D \<and> set_option (dh_remote b) \<subseteq> D
     \<and> cache_in D a \<and> cache_in D b \<and> counts_ok a \<and> counts_ok b)"

lemma map_of_None_keys: "map_of (skipped s) k = None \<longleftrightarrow> k \<notin> cache_keys s"
  by (simp add: cache_keys_def map_of_eq_None_iff)

text \<open>The DH ratchet of a receiver, when both exchanges succeed.\<close>

lemma dh_ratchet_ok:
  assumes "dh_self_private s = Some own" "x25519_exchange C own remote = Inr d"
    "x25519_exchange C priv remote = Inr d'" "kdf_rk C (root_key s) d = (rk1, ckr)"
    "kdf_rk C rk1 d' = (rk2, cks)"
  shows "dh_ratchet C priv remote s = (Inr (), s\<lparr>root_key := rk2, sending_chain := Some cks,
     receiving_chain := Some ckr, dh_self_private := Some priv, dh_self_public := Some (x25519_public C priv),
     dh_remote := Some remote, send_count := 0, recv_count := 0, prev_send_count := send_count s\<rparr>)"
  using assms by (simp add: dh_ratchet_def meth_defs)

text \<open>The skipping before it: it fits, and only adds keys of the old chain.\<close>

lemma skip_prev:
  assumes "counts_ok s" "prev \<le> MAX_SKIP + 1" "set_option (dh_remote s) \<subseteq> D" "dh_remote s \<noteq> Some pub"
    "cache_in D s" "\<And>n. skipped_key (Some pub) n \<notin> cache_keys s"
  shows "\<exists>s'. (if receiving_chain s \<noteq> None then skip_keys C prev else returnS ()) s = (Inr (), s')
     \<and> send_half s' = send_half s \<and> cache_in D s' \<and> (\<forall>n. skipped_key (Some pub) n \<notin> cache_keys s')"
proof (cases "receiving_chain s")
  case None
  then show ?thesis using assms by (simp add: returnS_def)
next
  case (Some ck)
  then obtain dh where dh: "dh_remote s = Some dh" "dh \<in> D" "dh \<noteq> pub" and r: "1 \<le> recv_count s"
    using assms(1,3,4) by (auto simp: counts_ok_def)
  have "\<exists>k. prev - recv_count s \<le> int k \<and> (int k = prev - recv_count s \<or> k = 0)"
    by (rule exI [of _ "nat (prev - recv_count s)"]) auto
  then obtain k where k: "prev - recv_count s \<le> int k" "int k = prev - recv_count s \<or> k = 0" by blast
  let ?s = "skip_loop C prev ck s"
  have e: "skip_keys C prev s = (Inr (), ?s)" using Some r assms(2) by (simp add: skip_keys_def)
  have q: "?s = s\<lparr>receiving_chain := Some (ck_at C ck k), recv_count := recv_count s + int k,
     skipped := skip_cache C (dh_remote s) (recv_count s) ck k (skipped s)\<rparr>"
    by (rule skip_loop_eq [OF Some k])
  have "cache_keys ?s \<subseteq> cache_keys s \<union> range (skipped_key (Some dh))"
    unfolding q using keys_skip_cache [of C "Some dh"] by (simp add: cache_keys_def dh(1))
  then have "cache_in D ?s" "\<forall>n. skipped_key (Some pub) n \<notin> cache_keys ?s"
    using assms(5,6) dh by (auto simp: cache_in_def)
  then show ?thesis using e Some by (auto simp: send_half_def q)
qed

text \<open>What the first message of a turn does to the receiver.\<close>

lemma advance_turn:
  assumes h: "dh_correct C" and st: "in_step C D a b" and p: "length p = 32" "x25519_public C p \<notin> D"
  obtains apriv ck0 b1 where "dh_self_public a = Some (x25519_public C apriv)"
    "sending_chain a = Some ck0"
    "advance C p (x25519_public C apriv) (prev_send_count a) b = (Inr (), b1)"
    "in_chain C (x25519_public C apriv) ck0 {} b1"
    "\<forall>b' ck' m. send_half b' = send_half b1 \<and> 1 \<le> recv_count b' \<and> dh_remote b' = dh_remote b1 \<and>
       cache_keys b' \<subseteq> cache_keys b1 \<union> range (skipped_key (Some (x25519_public C apriv))) \<and>
       m \<le> MAX_SKIP + 1 \<longrightarrow>
       in_step C (insert (x25519_public C p) D) b' (a\<lparr>sending_chain := ck', send_count := m\<rparr>)"
proof -
  from st obtain apriv bpriv d ck0 where l: "length apriv = 32" "length bpriv = 32"
     and a: "dh_self_private a = Some apriv" "dh_self_public a = Some (x25519_public C apriv)"
       "dh_remote a = Some (x25519_public C bpriv)" "sending_chain a = Some ck0"
     and b: "dh_self_private b = Some bpriv" "x25519_exchange C bpriv (x25519_public C apriv) = Inr d"
       "kdf_rk C (root_key b) d = (root_key a, ck0)" "dh_remote b \<noteq> Some (x25519_public C apriv)"
       "\<forall>n. skipped_key (Some (x25519_public C apriv)) n \<notin> cache_keys b"
     and D: "x25519_public C apriv \<in> D" "x25519_public C bpriv \<in> D" "set_option (dh_remote b) \<subseteq> D"
       "cache_in D a" "cache_in D b" "counts_ok a" "counts_ok b"
    unfolding in_step_def by auto
  let ?pub = "x25519_public C apriv"
  obtain d' where d': "x25519_exchange C p ?pub = Inr d'" "x25519_exchange C apriv (x25519_public C p) = Inr d'"
    using h p(1) l(1) unfolding dh_correct_def by blast
  obtain rk2 cks where k2: "kdf_rk C (root_key a) d' = (rk2, cks)" by (cases "kdf_rk C (root_key a) d'")
  have "prev_send_count a \<le> MAX_SKIP + 1" using D(6) by (simp add: counts_ok_def)
  then obtain b0 where b0: "(if receiving_chain b \<noteq> None then skip_keys C (prev_send_count a) else returnS ()) b = (Inr (), b0)"
      "send_half b0 = send_half b" "cache_in D b0" "\<forall>n. skipped_key (Some ?pub) n \<notin> cache_keys b0"
    using skip_prev [OF D(7) _ D(3) b(4) D(5), of _ C] b(5) by blast
  define b1 where "b1 = b0\<lparr>root_key := rk2, sending_chain := Some cks,
     receiving_chain := Some ck0, dh_self_private := Some p, dh_self_public := Some (x25519_public C p),
     dh_remote := Some ?pub, send_count := 0, recv_count := 0, prev_send_count := send_count b0\<rparr>"
  have "dh_ratchet C p ?pub b0 = (Inr (), b1)"
    unfolding b1_def using b0(2) b d'(1) k2
    by (intro dh_ratchet_ok [of b0 bpriv]) (auto simp: send_half_def)
  then have adv: "advance C p ?pub (prev_send_count a) b = (Inr (), b1)"
    using b0(1) b(4) by (simp add: advance_def bindS_def thenS_def getS_def)
  have ch: "in_chain C ?pub ck0 {} b1"
    using b0(4) by (auto simp: in_chain_def b1_def cache_keys_def map_of_eq_None_iff)
  have nxt: "in_step C (insert (x25519_public C p) D) b' a'"
    if "send_half b' = send_half b1" "1 \<le> recv_count b'" "dh_remote b' = dh_remote b1"
      "cache_keys b' \<subseteq> cache_keys b1 \<union> range (skipped_key (Some ?pub))"
      "a' = a\<lparr>sending_chain := ck', send_count := m\<rparr>" "m \<le> MAX_SKIP + 1" for a' b' ck' m
  proof -
    have "cache_keys b1 = cache_keys b0" "cache_keys a' = cache_keys a"
      by (simp_all add: cache_keys_def b1_def that(5))
    then have c: "cache_in (insert (x25519_public C p) D) b'" "cache_in (insert (x25519_public C p) D) a'"
        "\<forall>n. skipped_key (Some (x25519_public C p)) n \<notin> cache_keys a'"
    proof -
      have "\<exists>d \<in> insert (x25519_public C p) D. \<exists>n. k = skipped_key (Some d) n" if "k \<in> cache_keys b'" for k
        using that \<open>cache_keys b' \<subseteq> _\<close> \<open>cache_keys b1 = _\<close> b0(3) D(1) unfolding cache_in_def by blast
      then show "cache_in (insert (x25519_public C p) D) b'" by (simp add: cache_in_def)
      show "cache_in (insert (x25519_public C p) D) a'"
        using D(4) \<open>cache_keys a' = _\<close> unfolding cache_in_def by blast
      show "\<forall>n. skipped_key (Some (x25519_public C p)) n \<notin> cache_keys a'"
        using D(4) p(2) \<open>cache_keys a' = _\<close> by (auto simp: cache_in_def)
    qed
    have f: "dh_remote a' \<noteq> Some (x25519_public C p)" using a(3) D(2) p(2) that(5) by auto
    have k: "counts_ok b'" "counts_ok a'"
      using that(1-3,5,6) b0(2) D(6,7) by (auto simp: counts_ok_def send_half_def b1_def MAX_SKIP_def)
    show ?thesis
      unfolding in_step_def
      using that(1,3,5) l(1) p(1) a(1-3) D(1,2) d'(2) k2 c f k
      by (intro exI [of _ p] exI [of _ apriv] exI [of _ d'] exI [of _ cks])
        (auto simp: send_half_def b1_def)
  qed
  show ?thesis by (rule that [OF a(2,4) adv ch]) (use nxt in blast)
qed

text \<open>
  One turn: \<open>a\<close> encrypts \<open>xs\<close>, and the messages whose numbers \<open>js\<close> lists reach \<open>b\<close> in that
  order (the others are lost); \<open>p\<close> is the key pair \<open>b\<close> generates.
\<close>

definition turn ::
  "crypto \<Rightarrow> (bytes \<times> bytes \<times> json option) list \<times> bytes \<times> nat list \<Rightarrow> ratchet_state \<Rightarrow> ratchet_state \<Rightarrow>
   bytes res list \<times> ratchet_state \<times> ratchet_state" where
  "turn C t a b =
     (let (xs, p, js) = t; (ms, a') = send_all C xs a;
          (rs, b') = recv_all C (map (\<lambda>j. (p, (case ms ! j of Inr m \<Rightarrow> m | Inl _ \<Rightarrow> (JNull, [], [])),
                                         snd (snd (xs ! j)))) js) b
      in (rs, a', b'))"

definition turn_ok :: "(bytes \<times> bytes \<times> json option) list \<times> bytes \<times> nat list \<Rightarrow> bool" where
  "turn_ok t = (case t of (xs, p, js) \<Rightarrow> (\<forall>x \<in> set xs. length (fst x) = 12) \<and> int (length xs) \<le> MAX_SKIP + 1
     \<and> length p = 32 \<and> js \<noteq> [] \<and> distinct js \<and> (\<forall>j \<in> set js. j < length xs))"

definition turn_texts :: "(bytes \<times> bytes \<times> json option) list \<times> bytes \<times> nat list \<Rightarrow> bytes res list" where
  "turn_texts t = (case t of (xs, p, js) \<Rightarrow> map (\<lambda>j. Inr (fst (snd (xs ! j)))) js)"

lemma turn_eq:
  assumes "send_all C xs a = (map (\<lambda>i. Inr (f i)) [0..<length xs], a')" "\<forall>j \<in> set js. j < length xs"
  shows "turn C (xs, p, js) a b
    = (let (rs, b') = recv_all C (map (\<lambda>(p, i). (p, f i, snd (snd (xs ! i)))) (map (Pair p) js)) b in (rs, a', b'))"
proof -
  have "map (\<lambda>j. (p, (case map (\<lambda>i. Inr (f i) :: message res) [0..<length xs] ! j of Inr m \<Rightarrow> m | Inl _ \<Rightarrow> (JNull, [], [])),
          snd (snd (xs ! j)))) js
      = map (\<lambda>(p, i). (p, f i, snd (snd (xs ! i)))) (map (Pair p) js)"
    using assms(2) by auto
  then show ?thesis by (simp only: turn_def assms(1) Let_def prod.case)
qed

lemma recv_all_first:
  assumes adv: "advance C p pub pn b = (Inr (), b1)" and ch: "in_chain C pub ck0 {} b1"
    and h: "hash_lengths C" "aead_correct C" and t: "turn_ok (xs, p, js)"
  shows "\<exists>b'. recv_all C (map (\<lambda>(p, i). (p, nth_msg C pub pn ck0 xs i, snd (snd (xs ! i)))) (map (Pair p) js)) b
      = (turn_texts (xs, p, js), b') \<and> in_chain C pub ck0 (set js) b' \<and> send_half b' = send_half b1
      \<and> 1 \<le> recv_count b' \<and> cache_keys b' \<subseteq> cache_keys b1 \<union> range (skipped_key (Some pub))"
proof -
  obtain j js' where js: "js = j # js'" using t by (cases js) (auto simp: turn_ok_def)
  obtain nonce pt ctx where x: "xs ! j = (nonce, pt, ctx)" by (cases "xs ! j") auto
  obtain hd no ct where m: "chain_msg C pub pn ck0 j nonce pt ctx = (hd, no, ct)"
    by (cases "chain_msg C pub pn ck0 j nonce pt ctx") auto
  have j: "j < length xs" "int j \<le> MAX_SKIP" using t js by (auto simp: turn_ok_def)
  have no: "length nonce = 12" using t x nth_mem [OF j(1)] by (force simp: turn_ok_def)
  have "int j \<le> recv_count b1 + MAX_SKIP" using j(2) in_chain_parts(2) [OF ch] by simp
  then obtain b2 where b2: "take_key C pub (int j) b1 = (Inr (mk_at C ck0 j), b2)"
      "in_chain C pub ck0 (insert j {}) b2" "send_half b2 = send_half b1" "int j < recv_count b2"
      "cache_keys b2 \<subseteq> cache_keys b1 \<union> range (skipped_key (Some pub))"
    using take_key_step [OF ch, of j] by blast
  have d: "decrypt C p hd no ct ctx b = (Inr pt, b2)"
    by (rule decrypt_via_key [OF adv b2(1) h no m])
  have "\<exists>s'. recv_all C (map (\<lambda>(p, i). (p, nth_msg C pub pn ck0 xs i, snd (snd (xs ! i)))) (map (Pair p) js')) b2
        = (map (\<lambda>(p, i). Inr (fst (snd (xs ! i)))) (map (Pair p) js'), s')
      \<and> in_chain C pub ck0 (insert j {} \<union> set (map snd (map (Pair p) js'))) s' \<and> send_half s' = send_half b2
      \<and> recv_count b2 \<le> recv_count s' \<and> cache_keys s' \<subseteq> cache_keys b2 \<union> range (skipped_key (Some pub))"
    using t js by (intro recv_all_chain [OF h _ b2(2)]) (auto simp: turn_ok_def o_def)
  then obtain b' where "recv_all C (map (\<lambda>(p, i). (p, nth_msg C pub pn ck0 xs i, snd (snd (xs ! i)))) (map (Pair p) js')) b2
        = (map (\<lambda>(p, i). Inr (fst (snd (xs ! i)))) (map (Pair p) js'), b')"
      "in_chain C pub ck0 (set js) b'" "send_half b' = send_half b2"
      "recv_count b2 \<le> recv_count b'" "cache_keys b' \<subseteq> cache_keys b2 \<union> range (skipped_key (Some pub))"
    using js by (auto simp: o_def)
  then show ?thesis
    using d b2(3-5) by (intro exI [of _ b']) (auto simp: js x m nth_msg_def turn_texts_def o_def)
qed

lemma turn_step:
  assumes h: "hash_lengths C" "aead_correct C" "dh_correct C"
    and st: "in_step C D a b" and t: "turn_ok t" "x25519_public C (fst (snd t)) \<notin> D"
  shows "\<exists>a' b'. turn C t a b = (turn_texts t, a', b')
     \<and> in_step C (insert (x25519_public C (fst (snd t))) D) b' a'"
proof -
  obtain xs p js where tt: "t = (xs, p, js)" by (cases t) auto
  have p: "length p = 32" "x25519_public C p \<notin> D" using t by (auto simp: tt turn_ok_def)
  obtain apriv ck0 b1 where r: "dh_self_public a = Some (x25519_public C apriv)"
    "sending_chain a = Some ck0"
    "advance C p (x25519_public C apriv) (prev_send_count a) b = (Inr (), b1)"
    "in_chain C (x25519_public C apriv) ck0 {} b1"
    and nxt: "\<forall>b' ck' m. send_half b' = send_half b1 \<and> 1 \<le> recv_count b' \<and> dh_remote b' = dh_remote b1 \<and>
       cache_keys b' \<subseteq> cache_keys b1 \<union> range (skipped_key (Some (x25519_public C apriv))) \<and>
       m \<le> MAX_SKIP + 1 \<longrightarrow>
       in_step C (insert (x25519_public C p) D) b' (a\<lparr>sending_chain := ck', send_count := m\<rparr>)"
    by (rule advance_turn [OF h(3) st p])
  have "send_count a = 0" using st by (auto simp: in_step_def)
  then have s: "send_all C xs a = (map (\<lambda>i. Inr (nth_msg C (x25519_public C apriv) (prev_send_count a) ck0 xs i))
      [0..<length xs], a\<lparr>sending_chain := Some (ck_at C ck0 (length xs)), send_count := int (length xs)\<rparr>)"
    using send_all_chain [OF h(1), of a ck0 0 "x25519_public C apriv" xs xs] r(1,2) by simp
  obtain b' where b': "recv_all C (map (\<lambda>(q, i). (q, nth_msg C (x25519_public C apriv) (prev_send_count a) ck0 xs i,
        snd (snd (xs ! i)))) (map (Pair p) js)) b = (turn_texts t, b')"
      "in_chain C (x25519_public C apriv) ck0 (set js) b'" "send_half b' = send_half b1" "1 \<le> recv_count b'"
      "cache_keys b' \<subseteq> cache_keys b1 \<union> range (skipped_key (Some (x25519_public C apriv)))"
    using recv_all_first [OF r(3,4) h(1,2) t(1) [unfolded tt]] unfolding tt by blast
  have "turn C t a b = (turn_texts t,
      a\<lparr>sending_chain := Some (ck_at C ck0 (length xs)), send_count := int (length xs)\<rparr>, b')"
    using turn_eq [OF s, of js p b] t(1) b'(1) by (simp add: tt turn_ok_def)
  moreover have "dh_remote b' = dh_remote b1" using in_chain_parts(1) [OF b'(2)] in_chain_parts(1) [OF r(4)] by simp
  then have "in_step C (insert (x25519_public C p) D) b'
      (a\<lparr>sending_chain := Some (ck_at C ck0 (length xs)), send_count := int (length xs)\<rparr>)"
    using t(1) b'(3-5) nxt by (auto simp: tt turn_ok_def)
  ultimately show ?thesis by (auto simp: tt)
qed

text \<open>A conversation: the sides take turns, starting with the first.\<close>

fun converse ::
  "crypto \<Rightarrow> ((bytes \<times> bytes \<times> json option) list \<times> bytes \<times> nat list) list \<Rightarrow> ratchet_state \<Rightarrow> ratchet_state \<Rightarrow>
   bytes res list list" where
  "converse C [] a b = []"
| "converse C (t # ts) a b = (let (rs, a', b') = turn C t a b in rs # converse C ts b' a')"

lemma converse_in_step:
  assumes "hash_lengths C" "aead_correct C" "dh_correct C"
  shows "in_step C D a b \<Longrightarrow> (\<And>t. t \<in> set ts \<Longrightarrow> turn_ok t) \<Longrightarrow>
    distinct (map (\<lambda>t. x25519_public C (fst (snd t))) ts) \<Longrightarrow>
    (\<And>t. t \<in> set ts \<Longrightarrow> x25519_public C (fst (snd t)) \<notin> D) \<Longrightarrow> converse C ts a b = map turn_texts ts"
proof (induction ts arbitrary: a b D)
  case (Cons t ts)
  obtain a' b' where "turn C t a b = (turn_texts t, a', b')"
      and s: "in_step C (insert (x25519_public C (fst (snd t))) D) b' a'"
    using turn_step [OF assms Cons.prems(1)] Cons.prems(2,4) by (meson list.set_intros(1))
  moreover have "converse C ts b' a' = map turn_texts ts"
  proof (rule Cons.IH [OF s])
    show "x25519_public C (fst (snd u)) \<notin> insert (x25519_public C (fst (snd t))) D" if "u \<in> set ts" for u
    proof -
      have "x25519_public C (fst (snd t)) \<notin> (\<lambda>t. x25519_public C (fst (snd t))) ` set ts"
        using Cons.prems(3) by simp
      moreover have "x25519_public C (fst (snd u)) \<notin> D" using Cons.prems(4) that by simp
      moreover have "x25519_public C (fst (snd u)) \<in> (\<lambda>t. x25519_public C (fst (snd t))) ` set ts"
        using that by (rule imageI)
      ultimately show ?thesis by (simp only: insert_iff) metis
    qed
  qed (use Cons.prems(2,3) in auto)
  ultimately show ?case by simp
qed simp

lemma in_step_start:
  assumes "dh_correct C" "length spk = 32" "length priv = 32" "x25519_public C priv \<noteq> x25519_public C spk"
  shows "\<exists>a. initiator C priv sk (x25519_public C spk) = Inr a
    \<and> in_step C {x25519_public C priv, x25519_public C spk} a (responder sk spk (x25519_public C spk))"
proof -
  obtain d where d: "x25519_exchange C priv (x25519_public C spk) = Inr d"
      "x25519_exchange C spk (x25519_public C priv) = Inr d"
    using assms unfolding dh_correct_def by blast
  obtain rk ck where k: "kdf_rk C sk d = (rk, ck)" by (cases "kdf_rk C sk d")
  show ?thesis
    using assms(2,3) d k
    by (auto simp: initiator_def responder_def fresh_state_def in_step_def cache_in_def cache_keys_def
        counts_ok_def MAX_SKIP_def)
qed

text \<open>C6: two sides that start from the same session key, the initiator with the responder's
  signed prekey, understand each other for any number of turns.  In each turn one side sends up
  to 1001 messages, each with its own context; any non-empty selection of them arrives, in any
  order; every message that arrives decrypts to its plaintext, and then the other side replies.
  Only the freshly generated ratchet keys have to be distinct.\<close>

theorem conversation_decrypts:
  assumes "hash_lengths C" "aead_correct C" "dh_correct C" "length spk = 32" "length priv = 32"
    and "\<forall>t \<in> set ts. turn_ok t"
    and "distinct (x25519_public C spk # x25519_public C priv # map (\<lambda>t. x25519_public C (fst (snd t))) ts)"
  shows "\<exists>a. initiator C priv sk (x25519_public C spk) = Inr a
    \<and> converse C ts a (responder sk spk (x25519_public C spk)) = map turn_texts ts"
proof -
  obtain a where a: "initiator C priv sk (x25519_public C spk) = Inr a"
      "in_step C {x25519_public C priv, x25519_public C spk} a (responder sk spk (x25519_public C spk))"
    using in_step_start [OF assms(3-5), of sk] assms(7) by auto
  have "converse C ts a (responder sk spk (x25519_public C spk)) = map turn_texts ts"
    by (rule converse_in_step [OF assms(1-3) a(2)]) (use assms(6,7) in \<open>auto simp: image_iff\<close>)
  then show ?thesis using a(1) by blast
qed

subsection \<open>Decisions on the current chain\<close>

text \<open>For a receiver in step with a chain, a message of that chain with an already consumed
  number is refused as a duplicate and one more than 1000 numbers ahead as too far, whatever its
  nonce and ciphertext, and both leave the state as it was; any other genuine message decrypts,
  consumes its number and leaves the sending half of the state alone.\<close>

theorem decrypt_decisions:
  assumes "hash_lengths C" "aead_correct C" "in_chain C pub ck0 used s"
  shows "(n \<in> used \<longrightarrow> decrypt C priv (make_header pub pn (int n)) no ct ctx s = (Inl DuplicateMessage, s))
    \<and> (recv_count s + MAX_SKIP < int n \<longrightarrow>
         decrypt C priv (make_header pub pn (int n)) no ct ctx s = (Inl SkippedTooFar, s))
    \<and> (n \<notin> used \<and> int n \<le> recv_count s + MAX_SKIP \<and> length nonce = 12
         \<and> (h, no, ct) = chain_msg C pub pn ck0 n nonce pt ctx \<longrightarrow>
        (\<exists>s'. decrypt C priv h no ct ctx s = (Inr pt, s') \<and> in_chain C pub ck0 (insert n used) s'
           \<and> send_half s' = send_half s))"
proof -
  have adv: "advance C priv pub pn s = (Inr (), s)"
    using in_chain_parts(1,3) [OF assms(3)] by (rule advance_same)
  show ?thesis
    using decrypt_key_error [OF adv] take_key_dup [OF assms(3)] take_key_too_far [OF assms(3)]
      decrypt_in_chain [OF assms(3) _ _ assms(1,2), of n nonce pn pt ctx h no ct priv]
    by (metis (no_types, lifting))
qed

subsection \<open>Well-formed states\<close>

text \<open>X25519 accepts only 32-byte keys, and its public keys have 32 bytes.\<close>

definition dh_lengths :: "crypto \<Rightarrow> bool" where
  "dh_lengths C \<longleftrightarrow> (\<forall>a b s. x25519_exchange C a b = Inr s \<longrightarrow> length a = 32 \<and> length b = 32)
     \<and> (\<forall>a. length a = 32 \<longrightarrow> length (x25519_public C a) = 32)"

definition key32 :: "bytes option \<Rightarrow> bool" where
  "key32 m \<longleftrightarrow> (\<forall>k. m = Some k \<longrightarrow> length k = 32)"

definition ratchet_wf :: "ratchet_state \<Rightarrow> bool" where
  "ratchet_wf s \<longleftrightarrow> key32 (sending_chain s) \<and> key32 (receiving_chain s) \<and> key32 (dh_self_private s)
     \<and> key32 (dh_self_public s) \<and> key32 (dh_remote s)
     \<and> (receiving_chain s \<noteq> None \<longrightarrow> dh_remote s \<noteq> None) \<and> (sending_chain s \<noteq> None \<longrightarrow> dh_self_public s \<noteq> None)
     \<and> 0 \<le> send_count s \<and> 0 \<le> recv_count s \<and> 0 \<le> prev_send_count s
     \<and> distinct (map fst (skipped s)) \<and> (\<forall>kv \<in> set (skipped s). length (snd kv) = 32 \<and> ascii (fst kv))"

definition wf_crypto :: "crypto \<Rightarrow> bool" where
  "wf_crypto C \<longleftrightarrow> hash_lengths C \<and> dh_lengths C"

lemma key32_simps [simp]: "key32 None" "key32 (Some k) \<longleftrightarrow> length k = 32"
  by (simp_all add: key32_def)

lemma ascii_skipped_key: "ascii (skipped_key dh n)"
proof -
  have "ascii (show_int n)" using ascii_show_nat by (auto simp: show_int_def ascii_def)
  then show ?thesis using ascii_b64e unfolding skipped_key_def ascii_def by auto
qed

lemma cache_wf_update:
  assumes "distinct (map fst sk)" "\<forall>kv \<in> set sk. length (snd kv) = 32 \<and> ascii (fst kv)" "length mk = 32"
  shows "distinct (map fst (AList.update (skipped_key dh n) mk sk))
    \<and> (\<forall>kv \<in> set (AList.update (skipped_key dh n) mk sk). length (snd kv) = 32 \<and> ascii (fst kv))"
  using assms ascii_skipped_key [of dh n] by (auto simp: distinct_update dest!: set_update)

lemma skip_loop_wf:
  "ratchet_wf s \<Longrightarrow> hash_lengths C \<Longrightarrow> receiving_chain s = Some ck \<Longrightarrow> ratchet_wf (skip_loop C until ck s)"
proof (induction C until ck s rule: skip_loop.induct)
  case (1 C until ck s)
  obtain mk ck' where k: "kdf_ck C ck = (mk, ck')" by (cases "kdf_ck C ck")
  have l: "length mk = 32" "length ck' = 32" using k "1.prems"(2) by (auto simp: kdf_ck_def hash_lengths_def)
  let ?s = "s\<lparr>receiving_chain := Some ck',
     skipped := AList.update (skipped_key (dh_remote s) (recv_count s)) mk (skipped s), recv_count := recv_count s + 1\<rparr>"
  have "ratchet_wf ?s"
    using "1.prems"(1,3) l cache_wf_update [of "skipped s" mk "dh_remote s" "recv_count s"]
    by (simp add: ratchet_wf_def)
  then show ?case
    using "1.IH" [OF _ k [symmetric] refl] "1.prems" by (subst skip_loop.simps) (simp add: k)
qed

lemma skip_keys_wf: "ratchet_wf s \<Longrightarrow> hash_lengths C \<Longrightarrow> ratchet_wf (snd (skip_keys C until s))"
  by (auto simp: skip_keys_def skip_loop_wf split: option.split)

lemma dh_ratchet_inv:
  assumes "dh_ratchet C priv remote s = (Inr u, s')"
  obtains own d d' rk1 ckr rk2 cks where "dh_self_private s = Some own" "x25519_exchange C own remote = Inr d"
    "x25519_exchange C priv remote = Inr d'" "kdf_rk C (root_key s) d = (rk1, ckr)"
    "kdf_rk C rk1 d' = (rk2, cks)"
    "s' = s\<lparr>root_key := rk2, sending_chain := Some cks,
     receiving_chain := Some ckr, dh_self_private := Some priv, dh_self_public := Some (x25519_public C priv),
     dh_remote := Some remote, send_count := 0, recv_count := 0, prev_send_count := send_count s\<rparr>"
proof -
  obtain own where own: "dh_self_private s = Some own"
    using assms by (auto simp: dh_ratchet_def meth_defs split: option.splits)
  obtain d where d: "x25519_exchange C own remote = Inr d"
    using assms own by (auto simp: dh_ratchet_def meth_defs split: sum.splits)
  obtain rk1 ckr where k: "kdf_rk C (root_key s) d = (rk1, ckr)" by (cases "kdf_rk C (root_key s) d")
  obtain d' where d': "x25519_exchange C priv remote = Inr d'"
    using assms own d k by (auto simp: dh_ratchet_def meth_defs split: sum.splits)
  obtain rk2 cks where k': "kdf_rk C rk1 d' = (rk2, cks)" by (cases "kdf_rk C rk1 d'")
  show ?thesis using that [OF own d d' k k'] dh_ratchet_ok [OF own d d' k k'] assms by simp
qed

lemma dh_ratchet_wf:
  assumes "ratchet_wf s" "wf_crypto C" "dh_ratchet C priv remote s = (Inr u, s')"
  shows "ratchet_wf s' \<and> dh_remote s' = Some remote \<and> receiving_chain s' \<noteq> None"
proof -
  obtain own d d' rk1 ckr rk2 cks where x: "x25519_exchange C priv remote = Inr d'"
    and k: "kdf_rk C (root_key s) d = (rk1, ckr)" "kdf_rk C rk1 d' = (rk2, cks)"
    and s': "s' = s\<lparr>root_key := rk2, sending_chain := Some cks,
     receiving_chain := Some ckr, dh_self_private := Some priv, dh_self_public := Some (x25519_public C priv),
     dh_remote := Some remote, send_count := 0, recv_count := 0, prev_send_count := send_count s\<rparr>"
    by (rule dh_ratchet_inv [OF assms(3)])
  have "length priv = 32" "length remote = 32" "length (x25519_public C priv) = 32" "length ckr = 32" "length cks = 32"
    using x k assms(2) kdf_rk_length [of C "root_key s" d] kdf_rk_length [of C rk1 d']
    by (auto simp: wf_crypto_def dh_lengths_def)
  then show ?thesis using assms(1) unfolding s' by (simp add: ratchet_wf_def)
qed

lemma advance_wf:
  assumes "ratchet_wf s" "wf_crypto C" "advance C priv remote prev s = (Inr u, s')"
  shows "ratchet_wf s' \<and> dh_remote s' = Some remote \<and> receiving_chain s' \<noteq> None"
proof (cases "dh_remote s \<noteq> Some remote \<or> receiving_chain s = None")
  case True
  let ?m = "if receiving_chain s \<noteq> None then skip_keys C prev else returnS ()"
  obtain r0 s0 where s0: "?m s = (r0, s0)" by (cases "?m s")
  have wf: "ratchet_wf s0"
    using s0 skip_keys_wf [OF assms(1), of C prev] assms(1,2)
    by (auto simp: wf_crypto_def returnS_def split: if_splits)
  have "dh_ratchet C priv remote s0 = (Inr u, s')"
    using assms(3) True s0 by (cases r0) (auto simp: advance_def bindS_def thenS_def getS_def)
  then show ?thesis using dh_ratchet_wf [OF wf assms(2)] by blast
next
  case False
  then show ?thesis using assms by (auto simp: advance_def meth_defs)
qed

lemma delete_wf: "ratchet_wf s \<Longrightarrow> ratchet_wf (s\<lparr>skipped := AList.delete k (skipped s)\<rparr>)"
  by (auto simp: ratchet_wf_def distinct_delete set_delete)

lemma take_key_wf:
  assumes "ratchet_wf s" "hash_lengths C" "take_key C remote n s = (Inr mk, s')"
  shows "ratchet_wf s' \<and> length mk = 32"
proof (cases "map_of (skipped s) (skipped_key (Some remote) n)")
  case (Some k)
  have e: "mk = k" "s' = s\<lparr>skipped := AList.delete (skipped_key (Some remote) n) (skipped s)\<rparr>"
    using assms(3) Some by (simp_all add: take_key_def meth_defs)
  have "length k = 32" using assms(1) map_of_SomeD [OF Some] unfolding ratchet_wf_def by force
  then show ?thesis using e delete_wf [OF assms(1)] by simp
next
  case None
  let ?s = "s\<lparr>skipped := AList.delete (skipped_key (Some remote) n) (skipped s)\<rparr>"
  obtain r1 s1 where s1: "skip_keys C n ?s = (r1, s1)" by (cases "skip_keys C n ?s")
  have wf: "ratchet_wf s1" using skip_keys_wf [OF delete_wf [OF assms(1)] assms(2)] s1 by (metis snd_conv)
  have "r1 = Inr () \<and> (\<exists>ck. receiving_chain s1 = Some ck \<and> mk = fst (kdf_ck C ck)
      \<and> s' = s1\<lparr>receiving_chain := Some (snd (kdf_ck C ck)), recv_count := recv_count s1 + 1\<rparr>)"
    using assms(3) None s1
    by (auto simp: take_key_def meth_defs split_beta split: if_splits sum.splits option.splits)
  then show ?thesis using wf assms(2) by (auto simp: kdf_ck_def hash_lengths_def ratchet_wf_def)
qed

lemma decrypt_ok_steps:
  assumes "decrypt C priv h no ct ctx s = (Inr pt, s')"
  obtains remote n prev u s1 mk where "parse_header h = Inr (remote, n, prev)"
    "advance C priv remote prev s = (Inr u, s1)" "take_key C remote n s1 = (Inr mk, s')"
    "aead_decrypt C mk no ct (associated_data h ctx) = Inr pt"
  using assms unfolding decrypt_def transact_ok
  by (auto simp: decrypt_raw_def bindS_def thenS_def liftS_def split: prod.splits sum.splits)

lemma decrypt_wf: "ratchet_wf s \<Longrightarrow> wf_crypto C \<Longrightarrow> ratchet_wf (snd (decrypt C priv h no ct ctx s))"
proof (cases "decrypt C priv h no ct ctx s")
  case (Pair r s')
  assume a: "ratchet_wf s" "wf_crypto C"
  show ?thesis
  proof (cases r)
    case (Inl e)
    then show ?thesis using Pair a transact_error [of "decrypt_raw C priv h no ct ctx" s] by (simp add: decrypt_def)
  next
    case (Inr pt)
    then have "decrypt C priv h no ct ctx s = (Inr pt, s')" using Pair by simp
    then obtain remote n prev u s1 mk where "advance C priv remote prev s = (Inr u, s1)"
        and t: "take_key C remote n s1 = (Inr mk, s')"
      by (rule decrypt_ok_steps)
    then have "ratchet_wf s1" using advance_wf a by blast
    then show ?thesis using take_key_wf [OF _ _ t] a(2) Pair by (simp add: wf_crypto_def)
  qed
qed

lemma encrypt_wf:
  assumes "ratchet_wf s" "hash_lengths C"
  shows "ratchet_wf (snd (encrypt C nonce pt ctx s))
    \<and> (sending_chain s \<noteq> None \<longrightarrow> (\<exists>m. fst (encrypt C nonce pt ctx s) = Inr m))
    \<and> (sending_chain s = None \<longrightarrow> encrypt C nonce pt ctx s = (Inl RatchetError, s))"
proof (cases "sending_chain s")
  case None
  then show ?thesis using assms by (simp add: encrypt_def meth_defs)
next
  case (Some ck)
  then obtain pub where pub: "dh_self_public s = Some pub" using assms(1) by (auto simp: ratchet_wf_def)
  have "length (fst (kdf_ck C ck)) = 32" "length (snd (kdf_ck C ck)) = 32"
    using assms(2) by (simp_all add: kdf_ck_def hash_lengths_def)
  then show ?thesis
    using Some pub assms(1)
    by (simp add: encrypt_def meth_defs split_beta Let_def aead_encrypt_Inr ratchet_wf_def)
qed

datatype ratchet_op =
    Encrypt bytes bytes "json option"
  | Decrypt bytes json bytes bytes "json option"

fun ratchet_step :: "crypto \<Rightarrow> ratchet_state \<Rightarrow> ratchet_op \<Rightarrow> ratchet_state" where
  "ratchet_step C s (Encrypt nonce pt ctx) = snd (encrypt C nonce pt ctx s)"
| "ratchet_step C s (Decrypt priv h no ct ctx) = snd (decrypt C priv h no ct ctx s)"

interpretation ratchet_machine: machine "ratchet_step C" "\<lambda>s. wf_crypto C \<longrightarrow> ratchet_wf s" for C
proof
  fix s opn
  assume "wf_crypto C \<longrightarrow> ratchet_wf s"
  then show "wf_crypto C \<longrightarrow> ratchet_wf (ratchet_step C s opn)"
    by (cases opn) (auto simp: decrypt_wf encrypt_wf wf_crypto_def)
qed

subsection \<open>Serialisation round trip\<close>

lemma b64d_opt_b64e_opt:
  "map_of d k = Some (b64e_opt m) \<Longrightarrow> m \<noteq> Some [] \<Longrightarrow> b64d_opt d k = Inr m"
  by (cases m) (auto simp: b64d_opt_def b64e_opt_def b64d_json_def)

lemma get_int0_JInt: "map_of d k = Some (JInt i) \<Longrightarrow> get_int0 d k = Inr i"
  by (simp add: get_int0_def)

lemma load_skipped_dump:
  "load_skipped (Some (JObj (map (\<lambda>kv. (fst kv, JStr (b64e (snd kv)))) sk))) = Inr sk"
proof -
  have "mapE (\<lambda>kv. bindE (b64d_json (snd kv)) (\<lambda>b. Inr (fst kv, b))) (map (\<lambda>kv. (fst kv, JStr (b64e (snd kv)))) sk) = Inr sk"
    by (induction sk) (auto simp: b64d_json_def)
  then show ?thesis by (auto simp: load_skipped_def truthy_opt_def)
qed

definition chains_present :: "ratchet_state \<Rightarrow> bool" where
  "chains_present s \<longleftrightarrow> [] \<notin> set_option (sending_chain s) \<and> [] \<notin> set_option (receiving_chain s)
     \<and> [] \<notin> set_option (dh_self_private s) \<and> [] \<notin> set_option (dh_self_public s) \<and> [] \<notin> set_option (dh_remote s)"

lemma from_dict_fields:
  assumes "chains_present s" "\<And>k. k \<noteq> ''skipped'' \<Longrightarrow> map_of d k = map_of (to_dict s) k"
    and "map_of d ''skipped'' = Some (JObj (map (\<lambda>kv. (fst kv, JStr (b64e (snd kv)))) sk))"
  shows "from_dict (JObj d) = Inr (s\<lparr>skipped := sk\<rparr>)"
proof -
  have o: "b64d_opt d ''cks'' = Inr (sending_chain s)" "b64d_opt d ''ckr'' = Inr (receiving_chain s)"
    "b64d_opt d ''dhs_priv'' = Inr (dh_self_private s)" "b64d_opt d ''dhs_pub'' = Inr (dh_self_public s)"
    "b64d_opt d ''dhr'' = Inr (dh_remote s)"
    using assms(1) by (auto intro!: b64d_opt_b64e_opt simp: assms(2) to_dict_def chains_present_def)
  have i: "get_int0 d ''ns'' = Inr (send_count s)" "get_int0 d ''nr'' = Inr (recv_count s)"
    "get_int0 d ''pn'' = Inr (prev_send_count s)"
    by (auto intro!: get_int0_JInt simp: assms(2) to_dict_def)
  have r: "map_of d ''rk'' = Some (JStr (b64e (root_key s)))" by (simp add: assms(2) to_dict_def)
  show ?thesis by (simp add: from_dict_def r b64d_json_def o i assms(3) load_skipped_dump)
qed

lemma from_dict_to_dict: "chains_present s \<Longrightarrow> from_dict (JObj (to_dict s)) = Inr s"
  using from_dict_fields [of s "to_dict s" "skipped s"] by (simp add: to_dict_def)

text \<open>The stored form: the dictionary printed with sorted keys and parsed again; only the order of
  the cached keys may change.\<close>

lemma jsort_to_dict_lookup:
  assumes "k \<noteq> ''skipped''"
  shows "map_option jsort (map_of (to_dict s) k) = map_of (to_dict s) k"
  using assms by (auto simp: to_dict_def b64e_opt_def split: option.split)

lemma from_dict_stored:
  assumes "chains_present s"
  shows "\<exists>d. jsort (JObj (to_dict s)) = JObj d \<and> from_dict (JObj d) = Inr (s\<lparr>skipped := sort_key fst (skipped s)\<rparr>)"
proof -
  let ?d = "map (\<lambda>kv. (fst kv, jsort (snd kv))) (sort_key fst (to_dict s))"
  have dis: "distinct (map fst (to_dict s))" by (simp add: to_dict_def)
  have m: "map_of ?d k = map_option jsort (map_of (to_dict s) k)" for k
    by (rule map_of_jsort [OF dis])
  have "map_of (to_dict s) ''skipped'' = Some (JObj (map (\<lambda>kv. (fst kv, JStr (b64e (snd kv)))) (skipped s)))"
    by (simp add: to_dict_def)
  then have "map_of ?d ''skipped'' = Some (JObj (map (\<lambda>kv. (fst kv, JStr (b64e (snd kv)))) (sort_key fst (skipped s))))"
    unfolding m by (simp add: jsort_obj sort_key_map_snd [of "\<lambda>b. JStr (b64e b)"] o_def del: jsort.simps(2))
  then have "from_dict (JObj ?d) = Inr (s\<lparr>skipped := sort_key fst (skipped s)\<rparr>)"
    using m jsort_to_dict_lookup by (intro from_dict_fields [OF assms]) auto
  then show ?thesis by (metis jsort_obj)
qed

lemma ratchet_wf_present: "ratchet_wf s \<Longrightarrow> chains_present s"
  by (auto simp: ratchet_wf_def chains_present_def key32_def)

lemma json_ok_b64e_opt [simp]: "json_ok (b64e_opt m)"
  by (simp add: b64e_opt_def split: option.split)

lemma json_ok_to_dict:
  assumes "ratchet_wf s"
  shows "json_ok (JObj (to_dict s))"
proof -
  have "json_ok (JObj (map (\<lambda>kv. (fst kv, JStr (b64e (snd kv)))) (skipped s)))"
    using assms by (auto simp: json_ok_obj ratchet_wf_def o_def str_ok_ascii)
  moreover have "list_all ascii (map fst (to_dict s))" "distinct (map fst (to_dict s))"
    by (simp_all add: to_dict_def ascii_def)
  ultimately show ?thesis by (auto simp: json_ok_obj to_dict_def str_ok_ascii)
qed

text \<open>C27: however a session is used, by any sequence of encryptions and of decryptions of
  arbitrary, also hostile, input, starting from an initiator or a responder, its state stays
  well-formed: keys have their lengths, counters are not negative, the cache has no duplicate.
  Such a state survives storage: its dictionary, printed canonically and parsed, loads as the same
  state up to the order of the cache, and encryption fails only where there is no sending chain.\<close>

theorem ratchet_run_storable:
  assumes "wf_crypto C"
    and "initiator C priv sk remote = Inr s0 \<or> length spk = 32 \<and> s0 = responder sk spk (x25519_public C spk)"
    and "s = foldl (ratchet_step C) s0 ops"
  shows "ratchet_wf s \<and> from_dict (JObj (to_dict s)) = Inr s
    \<and> bindE (loads_bytes (canonical_json (JObj (to_dict s)))) from_dict
        = Inr (s\<lparr>skipped := sort_key fst (skipped s)\<rparr>)
    \<and> (sending_chain s \<noteq> None \<longrightarrow> (\<exists>m. fst (encrypt C nonce pt ctx s) = Inr m))"
proof -
  have "ratchet_wf s0"
  proof (cases "initiator C priv sk remote = Inr s0")
    case True
    then obtain d where d: "x25519_exchange C priv remote = Inr d"
      by (auto simp: initiator_def Let_def res_simps)
    then have "length priv = 32" "length remote = 32" "length (x25519_public C priv) = 32"
      using assms(1) by (auto simp: wf_crypto_def dh_lengths_def)
    then show ?thesis
      using True d kdf_rk_length [of C sk d] assms(1)
      by (auto simp: initiator_def Let_def split_beta wf_crypto_def ratchet_wf_def fresh_state_def)
  next
    case False
    then show ?thesis
      using assms(1,2) by (auto simp: responder_def fresh_state_def ratchet_wf_def wf_crypto_def dh_lengths_def)
  qed
  then have wf: "ratchet_wf s" using ratchet_machine.run_inv [of C s0 ops] assms(1,3) by simp
  then have "loads_bytes (canonical_json (JObj (to_dict s))) = Inr (jsort (JObj (to_dict s)))"
    by (intro loads_canonical_json json_ok_to_dict)
  then show ?thesis
    using wf from_dict_to_dict from_dict_stored ratchet_wf_present encrypt_wf [OF wf, of C nonce pt ctx] assms(1)
    by (fastforce simp: wf_crypto_def)
qed

subsection \<open>Failure and growth\<close>

lemma skip_keys_bound:
  "skip_keys C until s = (r, s') \<Longrightarrow> int (length (skipped s')) \<le> int (length (skipped s)) + MAX_SKIP"
proof -
  assume a: "skip_keys C until s = (r, s')"
  show ?thesis
  proof (cases "receiving_chain s")
    case None
    then show ?thesis using a by (simp add: skip_keys_def MAX_SKIP_def)
  next
    case (Some ck)
    show ?thesis
    proof (cases "recv_count s + MAX_SKIP < until")
      case True
      then show ?thesis using a Some by (simp add: skip_keys_def MAX_SKIP_def)
    next
      case False
      let ?k = "nat (until - recv_count s)"
      have "s' = skip_loop C until ck s" using a Some False by (simp add: skip_keys_def)
      also have "\<dots> = s\<lparr>receiving_chain := Some (ck_at C ck ?k), recv_count := recv_count s + int ?k,
         skipped := skip_cache C (dh_remote s) (recv_count s) ck ?k (skipped s)\<rparr>"
        by (rule skip_loop_eq [OF Some]) auto
      finally have "length (skipped s') \<le> length (skipped s) + ?k" using length_skip_cache by simp
      moreover have "int ?k \<le> MAX_SKIP" using False by (simp add: MAX_SKIP_def)
      ultimately show ?thesis by linarith
    qed
  qed
qed

lemma length_delete: "length (AList.delete k d) \<le> length d"
  by (simp add: AList.delete_eq)

lemma advance_bound:
  assumes "advance C priv remote prev s = (Inr u, s')"
  shows "int (length (skipped s')) \<le> int (length (skipped s)) + MAX_SKIP"
proof (cases "dh_remote s \<noteq> Some remote \<or> receiving_chain s = None")
  case True
  let ?m = "if receiving_chain s \<noteq> None then skip_keys C prev else returnS ()"
  obtain r0 s0 where s0: "?m s = (r0, s0)" by (cases "?m s")
  have b: "int (length (skipped s0)) \<le> int (length (skipped s)) + MAX_SKIP"
    using s0 skip_keys_bound [of C prev s r0 s0] by (auto simp: returnS_def MAX_SKIP_def split: if_splits)
  have "dh_ratchet C priv remote s0 = (Inr u, s')"
    using assms True s0 by (cases r0) (auto simp: advance_def bindS_def thenS_def getS_def)
  then show ?thesis using b by (auto elim!: dh_ratchet_inv)
next
  case False
  then show ?thesis using assms by (auto simp: advance_def meth_defs MAX_SKIP_def)
qed

lemma take_key_bound:
  assumes "take_key C remote n s = (Inr mk, s')"
  shows "int (length (skipped s')) \<le> int (length (skipped s)) + MAX_SKIP"
proof -
  let ?s = "s\<lparr>skipped := AList.delete (skipped_key (Some remote) n) (skipped s)\<rparr>"
  have d: "int (length (skipped ?s)) \<le> int (length (skipped s))"
    using length_delete [of "skipped_key (Some remote) n" "skipped s"] by simp
  obtain r1 s1 where s1: "skip_keys C n ?s = (r1, s1)" by (cases "skip_keys C n ?s")
  have "skipped s' = skipped ?s \<or> skipped s' = skipped s1"
    using assms s1 by (auto simp: take_key_def meth_defs split_beta split: if_splits sum.splits option.splits)
  then show ?thesis using skip_keys_bound [OF s1] d by (auto simp: MAX_SKIP_def)
qed


lemma take_key_cached_any:
  "map_of (skipped s) (skipped_key (Some remote) n) = Some mk \<Longrightarrow> take_key C remote n s
    = (Inr mk, s\<lparr>skipped := AList.delete (skipped_key (Some remote) n) (skipped s)\<rparr>)"
  by (simp add: take_key_def meth_defs)

text \<open>A message that names a remote key other than the current one always turns the DH ratchet,
  also when its message key is already in the cache, that is when it is a late message of an
  earlier chain: the current chains are replaced by chains for the key the message names, and the
  counters start again at zero.\<close>

theorem late_message_turns_ratchet:
  assumes "receiving_chain s = Some ck" "prev \<le> recv_count s" "dh_remote s \<noteq> Some remote"
    and "map_of (skipped s) (skipped_key (Some remote) n) = Some mk"
    and "dh_self_private s = Some own" "x25519_exchange C own remote = Inr d" "x25519_exchange C priv remote = Inr d'"
    and "aead_decrypt C mk no ct (associated_data (make_header remote prev n) ctx) = Inr pt"
  shows "\<exists>s'. decrypt C priv (make_header remote prev n) no ct ctx s = (Inr pt, s')
    \<and> dh_remote s' = Some remote \<and> dh_self_private s' = Some priv
    \<and> send_count s' = 0 \<and> recv_count s' = 0 \<and> prev_send_count s' = send_count s
    \<and> receiving_chain s' = Some (snd (kdf_rk C (root_key s) d))
    \<and> sending_chain s' = Some (snd (kdf_rk C (fst (kdf_rk C (root_key s) d)) d'))"
proof -
  have sk: "skip_keys C prev s = (Inr (), s)"
    using assms(1,2) by (simp add: skip_keys_def MAX_SKIP_def skip_loop.simps)
  obtain rk1 ckr where k: "kdf_rk C (root_key s) d = (rk1, ckr)" by (cases "kdf_rk C (root_key s) d")
  obtain rk2 cks where k': "kdf_rk C rk1 d' = (rk2, cks)" by (cases "kdf_rk C rk1 d'")
  let ?s = "s\<lparr>root_key := rk2, sending_chain := Some cks,
     receiving_chain := Some ckr, dh_self_private := Some priv, dh_self_public := Some (x25519_public C priv),
     dh_remote := Some remote, send_count := 0, recv_count := 0, prev_send_count := send_count s\<rparr>"
  have "advance C priv remote prev s = (Inr (), ?s)"
    using dh_ratchet_ok [OF assms(5-7) k k'] sk assms(1,3) by (simp add: advance_def meth_defs)
  moreover have "take_key C remote n ?s
      = (Inr mk, ?s\<lparr>skipped := AList.delete (skipped_key (Some remote) n) (skipped ?s)\<rparr>)"
    by (rule take_key_cached_any) (simp add: assms(4))
  ultimately have "decrypt_raw C priv (make_header remote prev n) no ct ctx s
      = (Inr pt, ?s\<lparr>skipped := AList.delete (skipped_key (Some remote) n) (skipped ?s)\<rparr>)"
    using assms(8) by (simp add: decrypt_raw_def meth_defs)
  then show ?thesis unfolding decrypt_def transact_ok [of "decrypt_raw _ _ _ _ _ _", symmetric]
    using k k' by (auto simp: transact_def)
qed

subsection \<open>Witnesses\<close>

lemma toy_wf: "wf_crypto toy"
  using toy_ok by (auto simp: wf_crypto_def dh_lengths_def toy_def split: if_splits)

definition key_of :: "byte \<Rightarrow> bytes" where
  "key_of b = replicate 32 b"

lemma length_key_of [simp]: "length (key_of b) = 32"
  by (simp add: key_of_def)

lemma toy_public [simp]: "length a = 32 \<Longrightarrow> x25519_public toy a = a"
  by (simp add: toy_def)

lemma key_of_eq [simp]: "key_of a = key_of b \<longleftrightarrow> a = b"
  by (simp add: key_of_def replicate_eq_replicate)

definition sample_turns :: "((bytes \<times> bytes \<times> json option) list \<times> bytes \<times> nat list) list" where
  "sample_turns =
     [([(replicate 12 1, [104, 105], Some (JObj [(''v'', JInt 1)])), (replicate 12 2, [33], None)], key_of 3, [1, 0]),
      ([(replicate 12 4, [], None)], key_of 5, [0])]"

theorem conversation_decrypts_witness:
  "\<exists>a. initiator toy (key_of 2) (key_of 9) (key_of 1) = Inr a
    \<and> converse toy sample_turns a (responder (key_of 9) (key_of 1) (key_of 1))
        = [[Inr [33], Inr [104, 105]], [Inr []]]"
  using conversation_decrypts [OF toy_ok(1-3), of "key_of 1" "key_of 2" sample_turns "key_of 9"]
  by (simp add: sample_turns_def turn_ok_def turn_texts_def MAX_SKIP_def)

definition sample_receiver :: ratchet_state where
  "sample_receiver = (fresh_state (key_of 9))\<lparr>dh_remote := Some (key_of 1), receiving_chain := Some (key_of 7),
     dh_self_private := Some (key_of 4)\<rparr>"

lemma sample_in_chain: "in_chain toy (key_of 1) (key_of 7) {} sample_receiver"
  by (simp add: in_chain_def sample_receiver_def fresh_state_def)

theorem decrypt_decisions_witness:
  "decrypt toy (key_of 2) (make_header (key_of 1) 0 (int 2000)) [] [] None sample_receiver
     = (Inl SkippedTooFar, sample_receiver)"
  using decrypt_decisions [OF toy_ok(1,2) sample_in_chain, of 2000 "key_of 2" 0 "[]" "[]" None]
  by (simp add: sample_receiver_def fresh_state_def MAX_SKIP_def)

theorem ratchet_run_storable_witness:
  "from_dict (JObj (to_dict (foldl (ratchet_step toy) (responder (key_of 9) (key_of 1) (key_of 1))
       [Decrypt (key_of 2) JNull [] [] None])))
   = Inr (foldl (ratchet_step toy) (responder (key_of 9) (key_of 1) (key_of 1))
       [Decrypt (key_of 2) JNull [] [] None])"
  using ratchet_run_storable [OF toy_wf, of "[]" "key_of 9" "[]" "responder (key_of 9) (key_of 1) (key_of 1)" "key_of 1",
      OF _ refl, of "[Decrypt (key_of 2) JNull [] [] None]"]
  by simp

lemma decrypt_garbage: "decrypt toy (key_of 2) JNull [] [] None sample_receiver = (Inl RatchetError, sample_receiver)"
  by (simp add: decrypt_def decrypt_raw_def parse_header_def meth_defs is_shape_error_def)


theorem late_message_turns_ratchet_witness:
  "\<exists>s'. decrypt toy (key_of 2) (make_header (key_of 6) 0 3) (replicate 12 0)
      (chacha_seal toy (key_of 8) (replicate 12 0) [1] (associated_data (make_header (key_of 6) 0 3) None)) None
      (sample_receiver\<lparr>skipped := [(skipped_key (Some (key_of 6)) 3, key_of 8)]\<rparr>) = (Inr [1], s')
    \<and> dh_remote s' = Some (key_of 6)"
proof -
  obtain d d' where x: "x25519_exchange toy (key_of 4) (key_of 6) = Inr d" "x25519_exchange toy (key_of 2) (key_of 6) = Inr d'"
    by (simp add: toy_def)
  have o: "aead_decrypt toy (key_of 8) (replicate 12 0)
      (chacha_seal toy (key_of 8) (replicate 12 0) [1] (associated_data (make_header (key_of 6) 0 3) None))
      (associated_data (make_header (key_of 6) 0 3) None) = Inr [1]"
    using toy_ok(2) by (simp add: aead_decrypt_def aead_correct_def)
  show ?thesis
    using late_message_turns_ratchet [OF _ _ _ _ _ x o,
        of "sample_receiver\<lparr>skipped := [(skipped_key (Some (key_of 6)) 3, key_of 8)]\<rparr>" "key_of 7"]
    by (auto simp: sample_receiver_def fresh_state_def)
qed

end
