(* ===== verification/Handshake.thy ===== *)
theory Handshake
  imports Identity Ratchet
begin

section \<open>Prekey bundles and the handshake\<close>

text \<open>
  \<^verbatim>\<open>crypto/prekeys.py\<close> and \<^verbatim>\<open>crypto/x3dh.py\<close>.  The theorems: what is published verifies and comes back
  unchanged, and carries no identity key; both halves of the handshake derive the same secret, with and
  without a one-time prekey, and a ratchet started from it understands the other side; the sender's
  proof verifies, and a proof that verifies names the fingerprint of the keys that signed it.
\<close>

definition BUNDLE_VERSION :: int where "BUNDLE_VERSION = 1"
definition BUNDLE_ID_SIZE :: nat where "BUNDLE_ID_SIZE = 16"
definition BUNDLE_MAX_OPKS :: nat where "BUNDLE_MAX_OPKS = 100"

record prekey_bundle =
  bundle_id :: bytes
  isign :: bytes
  idh :: bytes
  spk_id :: int
  spk :: bytes
  spk_sig :: bytes
  bundle_opks :: "(int \<times> bytes) list"

definition spk_message :: "bytes \<Rightarrow> int \<Rightarrow> bytes \<Rightarrow> bytes res" where
  "spk_message bid sid key = bindE (to_bytes4 sid) (\<lambda>n. Inr (SPK_SIGN_INFO @ bid @ n @ key))"

definition spk_signature :: "crypto \<Rightarrow> identity \<Rightarrow> bytes \<Rightarrow> int \<Rightarrow> bytes \<Rightarrow> bytes res" where
  "spk_signature C i bid sid key = bindE (spk_message bid sid key) (\<lambda>m. Inr (sign C i m))"

definition opk_dicts :: "(int \<times> bytes) list \<Rightarrow> json" where
  "opk_dicts xs = JArr (map (\<lambda>(i, p). JObj [(''opk_id'', JInt i), (''opk'', JStr (b64e p))]) xs)"

definition bundle_to_dict :: "prekey_bundle \<Rightarrow> dict" where
  "bundle_to_dict b =
     [(''v'', JInt BUNDLE_VERSION), (''bundle_id'', JStr (b64e (bundle_id b))), (''isign'', JStr (b64e (isign b))),
      (''idh'', JStr (b64e (idh b))), (''spk_id'', JInt (spk_id b)), (''spk'', JStr (b64e (spk b))),
      (''spk_sig'', JStr (b64e (spk_sig b))), (''opks'', opk_dicts (bundle_opks b))]"

definition to_public_dict :: "prekey_bundle \<Rightarrow> dict" where
  "to_public_dict b =
     [(''v'', JInt BUNDLE_VERSION), (''bundle_id'', JStr (b64e (bundle_id b))), (''spk_id'', JInt (spk_id b)),
      (''spk'', JStr (b64e (spk b))), (''spk_sig'', JStr (b64e (spk_sig b))), (''opks'', opk_dicts (bundle_opks b))]"

text \<open>\<open>[... for o in data.get("opks", [])]\<close>: iterating a dict or a string yields strings, which have no
  \<open>"opk_id"\<close>; other values cannot be iterated.\<close>

definition read_opks :: "json option \<Rightarrow> (int \<times> bytes) list res" where
  "read_opks m =
     (case m of None \<Rightarrow> Inr []
      | Some (JArr xs) \<Rightarrow>
          mapE (\<lambda>x. bindE (bindE (getitem x ''opk_id'') py_int) (\<lambda>i.
                    bindE (bindE (getitem x ''opk'') b64d_json) (\<lambda>p. Inr (i, p)))) xs
      | Some (JObj []) \<Rightarrow> Inr []
      | Some (JStr []) \<Rightarrow> Inr []
      | _ \<Rightarrow> Inl TypeError)"

definition bundle_from_dict :: "json \<Rightarrow> prekey_bundle res" where
  "bundle_from_dict data =
     (case data of JObj d \<Rightarrow>
        if \<not> json_is_int (map_of d ''v'') BUNDLE_VERSION then Inl PrekeyError
        else rethrow is_shape_error PrekeyError
          (bindE (bindE (getitem data ''bundle_id'') b64d_json) (\<lambda>bid.
           bindE (b64d_json (get_or d ''isign'' (JStr []))) (\<lambda>is.
           bindE (b64d_json (get_or d ''idh'' (JStr []))) (\<lambda>ih.
           bindE (bindE (getitem data ''spk_id'') py_int) (\<lambda>sid.
           bindE (bindE (getitem data ''spk'') b64d_json) (\<lambda>sp.
           bindE (bindE (getitem data ''spk_sig'') b64d_json) (\<lambda>sg.
           bindE (read_opks (map_of d ''opks'')) (\<lambda>os.
             Inr \<lparr>bundle_id = bid, isign = is, idh = ih, spk_id = sid, spk = sp, spk_sig = sg, bundle_opks = os\<rparr>))))))))
      | _ \<Rightarrow> Inl AttributeError)"

definition from_public :: "json \<Rightarrow> bytes \<Rightarrow> bytes \<Rightarrow> prekey_bundle res" where
  "from_public data is ih = bindE (bundle_from_dict data) (\<lambda>b. Inr (b\<lparr>isign := is, idh := ih\<rparr>))"

definition bundle_to_bytes :: "prekey_bundle \<Rightarrow> bytes" where
  "bundle_to_bytes b = canonical_json (JObj (to_public_dict b))"

definition bundle_from_bytes :: "bytes \<Rightarrow> bytes \<Rightarrow> bytes \<Rightarrow> prekey_bundle res" where
  "bundle_from_bytes data is ih = bindE (utf8_decode data) (\<lambda>t. bindE (json_loads t) (\<lambda>v. from_public v is ih))"

definition make_bundle :: "crypto \<Rightarrow> identity \<Rightarrow> bytes \<Rightarrow> int \<Rightarrow> bytes \<Rightarrow> (int \<times> bytes) list \<Rightarrow> prekey_bundle res" where
  "make_bundle C i bid sid spk_public opks =
     (if length bid \<noteq> BUNDLE_ID_SIZE then Inl PrekeyError
      else if length opks > BUNDLE_MAX_OPKS then Inl PrekeyError
      else bindE (spk_signature C i bid sid spk_public) (\<lambda>sg.
        Inr \<lparr>bundle_id = bid, isign = ed_public_bytes C i, idh = x_public_bytes C i, spk_id = sid,
             spk = spk_public, spk_sig = sg, bundle_opks = opks\<rparr>))"

definition verify_bundle :: "crypto \<Rightarrow> prekey_bundle \<Rightarrow> bytes \<Rightarrow> unit res" where
  "verify_bundle C b expected_isign =
     (if isign b \<noteq> expected_isign then Inl PrekeyError
      else if length (spk b) \<noteq> 32 \<or> length (idh b) \<noteq> 32 then Inl PrekeyError
      else bindE (spk_message (bundle_id b) (spk_id b) (spk b)) (\<lambda>m.
        guardE (verify C (isign b) (spk_sig b) m) PrekeyError))"

subsection \<open>The handshake\<close>

definition INIT_VERSION :: int where "INIT_VERSION = 1"

definition pub_key :: "bytes \<Rightarrow> bytes res" where
  "pub_key seed = (if length seed = 32 then Inr seed else Inl HandshakeError)"

definition priv_key :: "bytes \<Rightarrow> bytes res" where
  "priv_key seed = (if length seed = 32 then Inr seed else Inl HandshakeError)"

record initiation =
  ek_public :: bytes
  ek_private :: bytes
  init_spk_id :: int
  init_opk_id :: "int option"
  sk :: bytes

definition init_dict :: "initiation \<Rightarrow> dict" where
  "init_dict n = [(''ek'', JStr (b64e (ek_public n))), (''spk_id'', JInt (init_spk_id n)),
     (''opk_id'', case init_opk_id n of None \<Rightarrow> JNull | Some i \<Rightarrow> JInt i)]"

definition initiate :: "crypto \<Rightarrow> bytes \<Rightarrow> prekey_bundle \<Rightarrow> bytes \<Rightarrow> bytes \<Rightarrow> initiation res" where
  "initiate C ephemeral b expected_isign expected_idh =
     bindE (rethrow (\<lambda>e. e = PrekeyError) HandshakeError (verify_bundle C b expected_isign)) (\<lambda>_.
     if idh b \<noteq> expected_idh then Inl HandshakeError
     else bindE (bindE (pub_key (idh b)) (x25519_exchange C ephemeral)) (\<lambda>dh1.
       bindE (bindE (pub_key (spk b)) (x25519_exchange C ephemeral)) (\<lambda>dh2.
       bindE (case bundle_opks b of [] \<Rightarrow> Inr (None, [])
              | (i, p) # _ \<Rightarrow> bindE (bindE (pub_key p) (x25519_exchange C ephemeral)) (\<lambda>d. Inr (Some i, d))) (\<lambda>(oid, dh3).
       Inr \<lparr>ek_public = x25519_public C ephemeral, ek_private = ephemeral, init_spk_id = spk_id b, init_opk_id = oid,
            sk = hkdf C (F_prefix @ dh1 @ dh2 @ dh3) ZERO_SALT X3DH_INFO 32\<rparr>))))"

definition respond :: "crypto \<Rightarrow> bytes \<Rightarrow> bytes \<Rightarrow> bytes option \<Rightarrow> bytes \<Rightarrow> bytes res" where
  "respond C identity_x signed_prekey opk_private ek =
     bindE (pub_key ek) (\<lambda>e.
     bindE (bindE (priv_key identity_x) (\<lambda>k. x25519_exchange C k e)) (\<lambda>dh1.
     bindE (bindE (priv_key signed_prekey) (\<lambda>k. x25519_exchange C k e)) (\<lambda>dh2.
     bindE (case opk_private of None \<Rightarrow> Inr []
            | Some p \<Rightarrow> if p = [] then Inr [] else bindE (priv_key p) (\<lambda>k. x25519_exchange C k e)) (\<lambda>dh3.
     Inr (hkdf C (F_prefix @ dh1 @ dh2 @ dh3) ZERO_SALT X3DH_INFO 32)))))"

subsection \<open>Sender authentication\<close>

definition auth_message :: "crypto \<Rightarrow> bytes \<Rightarrow> json \<Rightarrow> bytes \<Rightarrow> bytes" where
  "auth_message C sid init key = AUTH_SIGN_INFO @ sid @ canonical_json init @ sk_commitment C key"

definition build_auth :: "crypto \<Rightarrow> identity \<Rightarrow> bytes \<Rightarrow> json \<Rightarrow> bytes \<Rightarrow> dict" where
  "build_auth C i sid init key =
     [(''v'', JInt INIT_VERSION), (''id'', JStr (identity_id C i)), (''isign'', JStr (b64e (ed_public_bytes C i))),
      (''idh'', JStr (b64e (x_public_bytes C i))), (''sk_commit'', JStr (b64e (sk_commitment C key))),
      (''sig'', JStr (b64e (sign C i (auth_message C sid init key))))]"

text \<open>The body of the \<open>try\<close>; \<open>auth.get\<close> on something that is not a dict is an \<open>AttributeError\<close>, which is not
  caught.\<close>

definition verify_auth :: "crypto \<Rightarrow> json \<Rightarrow> bytes \<Rightarrow> json \<Rightarrow> bytes \<Rightarrow> bool res" where
  "verify_auth C auth sid init key =
     (case auth of JObj d \<Rightarrow>
        (let r = (if \<not> json_is_int (map_of d ''v'') INIT_VERSION then Inr False
            else bindE (bindE (getitem auth ''sk_commit'') b64d_json) (\<lambda>c.
              if c \<noteq> sk_commitment C key then Inr False
              else bindE (bindE (getitem auth ''isign'') b64d_json) (\<lambda>is.
                bindE (bindE (getitem auth ''idh'') b64d_json) (\<lambda>ih.
                if map_of d ''id'' \<noteq> Some (JStr (compute_identity_id C is ih)) then Inr False
                else bindE (bindE (getitem auth ''sig'') b64d_json) (\<lambda>sg.
                  Inr (verify C is sg (auth_message C sid init key)))))))
         in case r of Inl e \<Rightarrow> if is_shape_error e then Inr False else Inl e | Inr b \<Rightarrow> Inr b)
      | _ \<Rightarrow> Inl AttributeError)"

subsection \<open>Both halves compute the same secret\<close>

lemma make_bundle_Inr:
  assumes "make_bundle C i bid sid pub opks = Inr b"
  obtains m where "spk_message bid sid pub = Inr m" "length bid = BUNDLE_ID_SIZE" "length opks \<le> BUNDLE_MAX_OPKS"
    "b = \<lparr>bundle_id = bid, isign = ed_public_bytes C i, idh = x_public_bytes C i, spk_id = sid,
          spk = pub, spk_sig = sign C i m, bundle_opks = opks\<rparr>"
  using assms by (auto simp: make_bundle_def spk_signature_def res_simps split: if_splits)

lemma verify_make_bundle:
  assumes "dh_correct C" "sign_correct C" "identity_wf i" "length pub = 32" "make_bundle C i bid sid pub opks = Inr b"
  shows "verify_bundle C b (ed_public_bytes C i) = Inr ()"
proof -
  have "length (x_public_bytes C i) = 32"
    using assms(1,3) by (simp add: x_public_bytes_def dh_correct_def identity_wf_def)
  then show ?thesis
    by (rule_tac make_bundle_Inr [OF assms(5)]) (simp add: verify_bundle_def assms(4) verify_sign [OF assms(2,3)])
qed

lemma dh_agree:
  assumes "dh_correct C" "length a = 32" "length b = 32"
  obtains d where "x25519_exchange C a (x25519_public C b) = Inr d" "x25519_exchange C b (x25519_public C a) = Inr d"
  using assms unfolding dh_correct_def by blast

lemma dh_public_length: "dh_correct C \<Longrightarrow> length a = 32 \<Longrightarrow> length (x25519_public C a) = 32"
  by (simp add: dh_correct_def)

text \<open>The one-time prekey that a bundle offers first, and the private half its owner looks up.\<close>

definition offers :: "crypto \<Rightarrow> (int \<times> bytes) list \<Rightarrow> int option \<Rightarrow> bytes option \<Rightarrow> bool" where
  "offers C opks oid opk \<longleftrightarrow> opks = [] \<and> oid = None \<and> opk = None
     \<or> (\<exists>i p rest. opks = (i, x25519_public C p) # rest \<and> oid = Some i \<and> opk = Some p \<and> length p = 32)"

lemma handshake_agree:
  assumes C: "dh_correct C" "sign_correct C" and i: "identity_wf i" and l: "length sp = 32" "length eph = 32"
    and b: "make_bundle C i bid sid (x25519_public C sp) opks = Inr b" and o: "offers C opks oid opk"
  shows "\<exists>k. initiate C eph b (ed_public_bytes C i) (x_public_bytes C i)
      = Inr \<lparr>ek_public = x25519_public C eph, ek_private = eph, init_spk_id = sid, init_opk_id = oid, sk = k\<rparr>
    \<and> respond C (x_private i) sp opk (x25519_public C eph) = Inr k"
proof -
  have xl: "length (x_private i) = 32" using i by (simp add: identity_wf_def)
  obtain d1 where d1: "x25519_exchange C eph (x25519_public C (x_private i)) = Inr d1"
      "x25519_exchange C (x_private i) (x25519_public C eph) = Inr d1"
    by (rule dh_agree [OF C(1) l(2) xl])
  obtain d2 where d2: "x25519_exchange C eph (x25519_public C sp) = Inr d2" "x25519_exchange C sp (x25519_public C eph) = Inr d2"
    by (rule dh_agree [OF C(1) l(2) l(1)])
  note pl = dh_public_length [OF C(1)]
  note v = verify_make_bundle [OF C i pl [OF l(1)] b]
  obtain m where bb: "b = \<lparr>bundle_id = bid, isign = ed_public_bytes C i, idh = x_public_bytes C i, spk_id = sid,
          spk = x25519_public C sp, spk_sig = sign C i m, bundle_opks = opks\<rparr>"
    by (rule make_bundle_Inr [OF b])
  from o consider "opks = []" "oid = None" "opk = None"
    | j p rest where "opks = (j, x25519_public C p) # rest" "oid = Some j" "opk = Some p" "length p = 32"
    unfolding offers_def by blast
  then show ?thesis
  proof cases
    case 1
    then show ?thesis using v xl l d1 d2
      by (simp add: initiate_def respond_def bb pub_key_def priv_key_def pl x_public_bytes_def)
  next
    case 2
    obtain d3 where "x25519_exchange C eph (x25519_public C p) = Inr d3" "x25519_exchange C p (x25519_public C eph) = Inr d3"
      by (rule dh_agree [OF C(1) l(2) 2(4)])
    moreover have "p \<noteq> []" using 2(4) by auto
    ultimately show ?thesis using v xl l d1 d2 2
      by (simp add: initiate_def respond_def bb pub_key_def priv_key_def pl x_public_bytes_def)
  qed
qed

text \<open>Whatever one-time prekey the bundle offers, or none, the initiator's half of the handshake on a
  bundle its owner made succeeds against the keys of the owner's card, and the owner's half on the
  ephemeral key in the header derives the same 32-byte secret.\<close>

theorem handshake_agreement:
  assumes "hash_lengths C" "dh_correct C" "sign_correct C" "identity_wf i" "length sp = 32" "length eph = 32"
    and "make_bundle C i bid sid (x25519_public C sp) opks = Inr b" and "offers C opks oid opk"
  shows "\<exists>n. initiate C eph b (ed_public_bytes C i) (x_public_bytes C i) = Inr n
    \<and> respond C (x_private i) sp opk (ek_public n) = Inr (sk n) \<and> length (sk n) = 32
    \<and> init_dict n = [(''ek'', JStr (b64e (x25519_public C eph))), (''spk_id'', JInt sid),
                     (''opk_id'', case oid of None \<Rightarrow> JNull | Some j \<Rightarrow> JInt j)]"
proof -
  obtain k where k: "initiate C eph b (ed_public_bytes C i) (x_public_bytes C i)
      = Inr \<lparr>ek_public = x25519_public C eph, ek_private = eph, init_spk_id = sid, init_opk_id = oid, sk = k\<rparr>"
      "respond C (x_private i) sp opk (x25519_public C eph) = Inr k"
    using handshake_agree [OF assms(2-8)] by blast
  moreover have "length k = 32" using k(2) assms(1) by (auto simp: respond_def res_simps hkdf_def hash_lengths_def)
  ultimately show ?thesis by (simp add: init_dict_def)
qed

text \<open>The two ratchets that the handshake starts understand each other: every conversation, with
  messages of a turn delivered in any order that the receiver's window admits, decrypts to what was
  sent.\<close>

theorem session_established:
  assumes "hash_lengths C" "aead_correct C" "dh_correct C" "sign_correct C" "identity_wf i"
    and "length sp = 32" "length eph = 32" "length priv = 32"
    and "make_bundle C i bid sid (x25519_public C sp) opks = Inr b" "offers C opks oid opk"
    and "\<And>t. t \<in> set ts \<Longrightarrow> turn_ok t"
    and "distinct (x25519_public C sp # x25519_public C priv # map (\<lambda>t. x25519_public C (fst (snd t))) ts)"
  shows "\<exists>n k a. initiate C eph b (ed_public_bytes C i) (x_public_bytes C i) = Inr n
    \<and> respond C (x_private i) sp opk (ek_public n) = Inr k
    \<and> initiator C priv (sk n) (spk b) = Inr a
    \<and> converse C ts a (responder k sp (x25519_public C sp)) = map turn_texts ts"
proof -
  obtain k where k: "initiate C eph b (ed_public_bytes C i) (x_public_bytes C i)
      = Inr \<lparr>ek_public = x25519_public C eph, ek_private = eph, init_spk_id = sid, init_opk_id = oid, sk = k\<rparr>"
      "respond C (x_private i) sp opk (x25519_public C eph) = Inr k"
    using handshake_agree [OF assms(3-7,9,10)] by blast
  have "spk b = x25519_public C sp" by (rule make_bundle_Inr [OF assms(9)]) simp
  moreover obtain a where a: "initiator C priv k (x25519_public C sp) = Inr a"
      "in_step C {x25519_public C priv, x25519_public C sp} a (responder k sp (x25519_public C sp))"
    using in_step_start [OF assms(3,6,8), of k] assms(12) by auto
  moreover have "converse C ts a (responder k sp (x25519_public C sp)) = map turn_texts ts"
    by (rule converse_in_step [OF assms(1-3) a(2)]) (use assms(11,12) in \<open>auto simp: image_iff\<close>)
  ultimately show ?thesis using k by simp
qed

text \<open>C37: a handshake starts only on a bundle that carries the card's keys and whose signed prekey, under its
  identifiers, is signed by the card's signing key; if the relay changed any of them the answer is a
  \<open>HandshakeError\<close> (or the \<open>OverflowError\<close> of a prekey number that does not fit four bytes).\<close>

theorem initiate_authentic:
  assumes "initiate C eph b ei eh = r"
  shows "(\<forall>n. r = Inr n \<longrightarrow> isign b = ei \<and> idh b = eh \<and> length (spk b) = 32
       \<and> (\<exists>m. spk_message (bundle_id b) (spk_id b) (spk b) = Inr m \<and> verify C ei (spk_sig b) m))
    \<and> (isign b \<noteq> ei \<or> idh b \<noteq> eh \<longrightarrow> r = Inl HandshakeError \<or> r = Inl OverflowError)
    \<and> (\<forall>m. spk_message (bundle_id b) (spk_id b) (spk b) = Inr m \<and> \<not> verify C ei (spk_sig b) m \<longrightarrow> r = Inl HandshakeError)"
proof -
  have ok: "r = Inr n \<Longrightarrow> isign b = ei \<and> idh b = eh \<and> length (spk b) = 32
       \<and> (\<exists>m. spk_message (bundle_id b) (spk_id b) (spk b) = Inr m \<and> verify C ei (spk_sig b) m)" for n
    using assms by (auto simp: initiate_def verify_bundle_def res_simps split: if_splits)
  have ov: "spk_message x y z = Inl e \<Longrightarrow> e = OverflowError" for x y z e
    by (auto simp: spk_message_def res_simps to_bytes4_def split: if_splits)
  have "isign b \<noteq> ei \<or> idh b \<noteq> eh \<Longrightarrow> r = Inl HandshakeError \<or> r = Inl OverflowError"
    using assms ov by (cases "spk_message (bundle_id b) (spk_id b) (spk b)")
      (auto simp: initiate_def verify_bundle_def guardE_def split: if_splits)
  moreover have "spk_message (bundle_id b) (spk_id b) (spk b) = Inr m \<Longrightarrow> \<not> verify C ei (spk_sig b) m \<Longrightarrow> r = Inl HandshakeError" for m
    using assms by (auto simp: initiate_def verify_bundle_def split: if_splits)
  ultimately show ?thesis using ok by blast
qed

subsection \<open>What is published\<close>

lemma read_opks_dicts: "read_opks (Some (jsort (opk_dicts xs))) = Inr xs"
proof -
  have "mapE (\<lambda>x. bindE (bindE (getitem x ''opk_id'') py_int) (\<lambda>i. bindE (bindE (getitem x ''opk'') b64d_json) (\<lambda>p. Inr (i, p))))
      (map (\<lambda>(i, p). jsort (JObj [(''opk_id'', JInt i), (''opk'', JStr (b64e p))])) xs) = Inr xs"
    by (induction xs) (auto simp: jsort_obj b64d_json_def)
  then show ?thesis by (simp add: read_opks_def opk_dicts_def comp_def split_def)
qed

lemma json_ok_opk_dicts: "json_ok (opk_dicts xs)"
  by (auto simp: opk_dicts_def json_ok_def str_ok_ascii ascii_def)

lemma json_ok_public_dict: "json_ok (JObj (to_public_dict b))"
  using json_ok_opk_dicts by (simp add: to_public_dict_def json_ok_obj str_ok_ascii ascii_def del: b64e.simps)

lemma from_public_dict:
  "bundle_from_bytes (bundle_to_bytes b) is ih = Inr (b\<lparr>isign := is, idh := ih\<rparr>)"
proof -
  obtain d where "loads_bytes (bundle_to_bytes b) = Inr (JObj d)"
      and m: "\<And>k. map_of d k = map_option jsort (map_of (to_public_dict b) k)"
    by (rule loads_object [OF json_ok_public_dict [of b], folded bundle_to_bytes_def]) (rule that)
  moreover have "bundle_from_dict (JObj d) = Inr (b\<lparr>isign := [], idh := []\<rparr>)"
    by (simp add: bundle_from_dict_def m to_public_dict_def json_is_int_def get_or_def b64d_json_def read_opks_dicts
        b64d_b64e [of "[]", simplified])
  ultimately show ?thesis by (auto simp: bundle_from_bytes_def loads_bytes_def from_public_def res_simps)
qed

text \<open>The bytes a bundle is published as carry neither identity key (they are the same whatever the
  identity keys are), read back with the card's keys they give the bundle, and that bundle passes
  verification against the card's signing key.\<close>

theorem published_bundle:
  assumes "dh_correct C" "sign_correct C" "identity_wf i" "length pub = 32" "make_bundle C i bid sid pub opks = Inr b"
  shows "bundle_from_bytes (bundle_to_bytes b) (ed_public_bytes C i) (x_public_bytes C i) = Inr b
    \<and> verify_bundle C b (ed_public_bytes C i) = Inr ()
    \<and> (\<forall>is ih. bundle_to_bytes (b\<lparr>isign := is, idh := ih\<rparr>) = bundle_to_bytes b)
    \<and> length (bundle_opks b) \<le> BUNDLE_MAX_OPKS"
proof -
  have "b\<lparr>isign := ed_public_bytes C i, idh := x_public_bytes C i\<rparr> = b" "length (bundle_opks b) \<le> BUNDLE_MAX_OPKS"
    by (rule make_bundle_Inr [OF assms(5)], simp)+
  then show ?thesis
    using from_public_dict [of b] verify_make_bundle [OF assms] by (simp add: bundle_to_bytes_def to_public_dict_def)
qed

subsection \<open>The sender's proof\<close>

lemma verify_auth_True:
  "verify_auth C (JObj d) sid init key = Inr True \<longleftrightarrow>
     json_is_int (map_of d ''v'') INIT_VERSION
     \<and> bindE (getitem (JObj d) ''sk_commit'') b64d_json = Inr (sk_commitment C key)
     \<and> (\<exists>is ih sg. bindE (getitem (JObj d) ''isign'') b64d_json = Inr is \<and> bindE (getitem (JObj d) ''idh'') b64d_json = Inr ih
         \<and> map_of d ''id'' = Some (JStr (compute_identity_id C is ih))
         \<and> bindE (getitem (JObj d) ''sig'') b64d_json = Inr sg \<and> verify C is sg (auth_message C sid init key))"
  by (auto simp: verify_auth_def Let_def res_simps split: sum.splits if_splits)

text \<open>The proof an identity builds for a session verifies for that session's identifier, header and
  secret; and a proof that verifies commits to that secret, names the fingerprint of the two keys it
  carries, and holds a signature by the first of them over exactly this session.\<close>

theorem auth_proof:
  assumes "sign_correct C" "identity_wf i"
  shows "verify_auth C (JObj (build_auth C i sid init key)) sid init key = Inr True
    \<and> (verify_auth C auth sid' init' key' = Inr True \<longrightarrow>
        (\<exists>d is ih sg. auth = JObj d \<and> bindE (getitem auth ''isign'') b64d_json = Inr is \<and> bindE (getitem auth ''idh'') b64d_json = Inr ih
          \<and> map_of d ''id'' = Some (JStr (compute_identity_id C is ih))
          \<and> bindE (getitem auth ''sk_commit'') b64d_json = Inr (sk_commitment C key')
          \<and> bindE (getitem auth ''sig'') b64d_json = Inr sg \<and> verify C is sg (auth_message C sid' init' key')))"
proof -
  have 1: "verify_auth C (JObj (build_auth C i sid init key)) sid init key = Inr True"
    unfolding verify_auth_True build_auth_def
    using verify_sign [OF assms] by (simp add: json_is_int_def b64d_json_def identity_id_def)
  have 2: "\<exists>d is ih sg. auth = JObj d \<and> bindE (getitem auth ''isign'') b64d_json = Inr is \<and> bindE (getitem auth ''idh'') b64d_json = Inr ih
          \<and> map_of d ''id'' = Some (JStr (compute_identity_id C is ih))
          \<and> bindE (getitem auth ''sk_commit'') b64d_json = Inr (sk_commitment C key')
          \<and> bindE (getitem auth ''sig'') b64d_json = Inr sg \<and> verify C is sg (auth_message C sid' init' key')"
    if v: "verify_auth C auth sid' init' key' = Inr True"
  proof -
    obtain d where d: "auth = JObj d" using v by (cases auth) (auto simp: verify_auth_def)
    from v [unfolded d verify_auth_True] obtain ik ih sg where
      "bindE (getitem (JObj d) ''sk_commit'') b64d_json = Inr (sk_commitment C key')"
      "bindE (getitem (JObj d) ''isign'') b64d_json = Inr ik" "bindE (getitem (JObj d) ''idh'') b64d_json = Inr ih"
      "map_of d ''id'' = Some (JStr (compute_identity_id C ik ih))"
      "bindE (getitem (JObj d) ''sig'') b64d_json = Inr sg" "verify C ik sg (auth_message C sid' init' key')"
      by (elim conjE exE)
    then show ?thesis unfolding d by (intro exI [of _ d] exI [of _ ik] exI [of _ ih] exI [of _ sg]) simp
  qed
  show ?thesis by (intro conjI impI) (rule 1, rule 2)
qed

subsection \<open>Concrete inputs\<close>

definition sample_bundle :: prekey_bundle where
  "sample_bundle = \<lparr>bundle_id = replicate 16 9, isign = ed_public_bytes toy sample_identity,
     idh = x_public_bytes toy sample_identity, spk_id = 1, spk = key_of 5,
     spk_sig = sign toy sample_identity (SPK_SIGN_INFO @ replicate 16 9 @ [0, 0, 0, 1] @ key_of 5),
     bundle_opks = [(7, key_of 6)]\<rparr>"

lemma sample_make_bundle:
  "make_bundle toy sample_identity (replicate 16 9) 1 (x25519_public toy (key_of 5)) [(7, x25519_public toy (key_of 6))] = Inr sample_bundle"
  by (simp add: make_bundle_def BUNDLE_ID_SIZE_def BUNDLE_MAX_OPKS_def spk_signature_def spk_message_def to_bytes4_def
      sample_bundle_def)

lemma sample_offers: "offers toy [(7, x25519_public toy (key_of 6))] (Some 7) (Some (key_of 6))"
  by (simp add: offers_def)

theorem handshake_agreement_witness:
  "\<exists>n. initiate toy (key_of 8) sample_bundle (ed_public_bytes toy sample_identity) (x_public_bytes toy sample_identity) = Inr n
    \<and> respond toy (x_private sample_identity) (key_of 5) (Some (key_of 6)) (ek_public n) = Inr (sk n)"
  using handshake_agreement [OF toy_ok(1,3,4) sample_identity_wf _ _ sample_make_bundle sample_offers, of "key_of 8"]
  by auto

theorem session_established_witness:
  "\<exists>n k a. initiate toy (key_of 8) sample_bundle (ed_public_bytes toy sample_identity) (x_public_bytes toy sample_identity) = Inr n
    \<and> initiator toy (key_of 10) (sk n) (spk sample_bundle) = Inr a
    \<and> converse toy [] a (responder k (key_of 5) (key_of 5)) = []"
  using session_established [OF toy_ok(1,2,3,4) sample_identity_wf _ _ _ sample_make_bundle sample_offers, of "key_of 8" "key_of 10" "[]"]
  by auto

theorem initiate_authentic_witness:
  "initiate toy (key_of 8) sample_bundle (key_of 3) (key_of 4) = Inl HandshakeError
   \<and> (initiate toy (key_of 8) sample_bundle (key_of 3) (key_of 4) = Inl HandshakeError
      \<or> initiate toy (key_of 8) sample_bundle (key_of 3) (key_of 4) = Inl OverflowError)"
proof -
  have n: "isign sample_bundle \<noteq> key_of 3"
    by (simp add: sample_bundle_def ed_public_bytes_def toy_def sample_identity_def key_of_def replicate_eq_replicate)
  then have "initiate toy (key_of 8) sample_bundle (key_of 3) (key_of 4) = Inl HandshakeError"
    by (simp add: initiate_def verify_bundle_def)
  then show ?thesis using initiate_authentic [OF refl, of toy "key_of 8" sample_bundle "key_of 3" "key_of 4"] n by blast
qed

theorem published_bundle_witness:
  "bundle_from_bytes (bundle_to_bytes sample_bundle) (ed_public_bytes toy sample_identity) (x_public_bytes toy sample_identity)
     = Inr sample_bundle"
  using published_bundle [OF toy_ok(3,4) sample_identity_wf _ sample_make_bundle] by simp

theorem auth_proof_witness:
  "verify_auth toy (JObj (build_auth toy sample_identity [1] JNull [2])) [1] JNull [2] = Inr True"
  using auth_proof [OF toy_ok(4) sample_identity_wf] by blast

end
