(* ===== verification/Protocol.thy ===== *)
theory Protocol
  imports Handshake Padding
begin

section \<open>Wire messages and sessions\<close>

text \<open>
  \<^verbatim>\<open>wire/protocol.py\<close> and \<^verbatim>\<open>core/session.py\<close>: framing, padding and encrypting an envelope for the relay, and
  the way back.  Sealing and opening are methods on the ratchet state.  The theorems: for two ends that
  are in step, what one seals the other opens, and they are in step again; the first message of a session
  carries what the other side needs to start its half; a message that does not open leaves the session as
  it was; a stored session loads as itself.
\<close>

definition WIRE_VERSION :: int where "WIRE_VERSION = 1"
definition ENVELOPE_VERSION :: int where "ENVELOPE_VERSION = 1"

definition wire_dict :: "bytes \<Rightarrow> json \<Rightarrow> bytes \<Rightarrow> bytes \<Rightarrow> json option \<Rightarrow> dict" where
  "wire_dict sid header nonce ciphertext init =
     [(''v'', JInt WIRE_VERSION), (''sid'', JStr (b64e sid)), (''hdr'', header),
      (''nonce'', JStr (b64e nonce)), (''ct'', JStr (b64e ciphertext))]
     @ (case init of None \<Rightarrow> [] | Some i \<Rightarrow> [(''init'', i)])"

definition build_wire :: "bytes \<Rightarrow> json \<Rightarrow> bytes \<Rightarrow> bytes \<Rightarrow> json option \<Rightarrow> bytes" where
  "build_wire sid header nonce ciphertext init = canonical_json (JObj (wire_dict sid header nonce ciphertext init))"

definition parse_wire :: "bytes \<Rightarrow> dict res" where
  "parse_wire blob =
     bindE (rethrow (\<lambda>e. e = UnicodeError) WireError (utf8_decode blob)) (\<lambda>t.
     bindE (rethrow (\<lambda>e. e = JSONDecodeError) WireError (json_loads t)) (\<lambda>wire.
     case wire of JObj w \<Rightarrow>
       if \<not> json_is_int (map_of w ''v'') WIRE_VERSION then Inl WireError
       else if \<exists>field \<in> set [''sid'', ''hdr'', ''nonce'', ''ct'']. map_of w field = None then Inl WireError
       else Inr w
     | _ \<Rightarrow> Inl WireError))"

text \<open>\<open>wire.get("init")\<close>; a JSON null is Python's \<open>None\<close>.\<close>

definition wire_init :: "dict \<Rightarrow> json option" where
  "wire_init w = (case map_of w ''init'' of Some JNull \<Rightarrow> None | m \<Rightarrow> m)"

definition seal :: "crypto \<Rightarrow> (nat \<Rightarrow> nat) \<Rightarrow> bytes \<Rightarrow> dict \<Rightarrow> bytes \<Rightarrow> json option \<Rightarrow> int option \<Rightarrow> (ratchet_state, bytes) meth" where
  "seal C rnd nonce envelope sid init max_size =
     (let limit = (case max_size of None \<Rightarrow> DEFAULT_MAX | Some m \<Rightarrow> m) in
      bindS (liftS (pad_envelope rnd envelope BUCKET (Some limit))) (\<lambda>plaintext.
      bindS (encrypt C nonce plaintext init) (\<lambda>(header, n, ciphertext).
      returnS (build_wire sid header n ciphertext init))))"

definition unseal :: "crypto \<Rightarrow> bytes \<Rightarrow> bytes \<Rightarrow> (ratchet_state, dict \<times> bytes \<times> json option) meth" where
  "unseal C priv blob =
     bindS (liftS (parse_wire blob)) (\<lambda>w.
     bindS (rethrowS (\<lambda>_. True) WireError
       (bindS (liftS (getitem (JObj w) ''hdr'')) (\<lambda>hdr.
        bindS (liftS (bindE (getitem (JObj w) ''nonce'') b64d_json)) (\<lambda>nonce.
        bindS (liftS (bindE (getitem (JObj w) ''ct'') b64d_json)) (\<lambda>ct.
        decrypt C priv hdr nonce ct (wire_init w)))))) (\<lambda>plaintext.
     bindS (liftS (unpad_envelope plaintext)) (\<lambda>envelope.
     bindS (liftS (bindE (getitem (JObj w) ''sid'') b64d_json)) (\<lambda>sid.
     returnS (envelope, sid, wire_init w)))))"

definition make_envelope :: "string \<Rightarrow> json \<Rightarrow> string \<Rightarrow> int \<Rightarrow> json option \<Rightarrow> json option \<Rightarrow> dict" where
  "make_envelope kind body message_id timestamp_ms auth crd =
     [(''v'', JInt ENVELOPE_VERSION), (''type'', JStr kind), (''id'', JStr message_id), (''ts'', JInt timestamp_ms), (''body'', body)]
     @ (case auth of None \<Rightarrow> [] | Some a \<Rightarrow> [(''auth'', a)]) @ (case crd of None \<Rightarrow> [] | Some c \<Rightarrow> [(''card'', c)])"

definition envelope_max_size :: "string \<Rightarrow> int" where
  "envelope_max_size kind = (if kind = ''file'' then MAX_ATTACHMENT_ENVELOPE else DEFAULT_MAX)"

subsection \<open>Sessions\<close>

record session =
  session_sid :: bytes
  session_state :: ratchet_state
  session_sk :: "bytes option"
  session_init :: "json option"
  established :: bool

definition is_pending :: "session \<Rightarrow> bool" where
  "is_pending s \<longleftrightarrow> \<not> established s"

definition session_to_dict :: "session \<Rightarrow> dict" where
  "session_to_dict s =
     [(''sid'', JStr (b64e (session_sid s))), (''state'', JObj (to_dict (session_state s))),
      (''sk'', b64e_opt (session_sk s)), (''init'', case session_init s of None \<Rightarrow> JNull | Some v \<Rightarrow> v),
      (''established'', JBool (established s))]"

definition session_from_dict :: "json \<Rightarrow> session res" where
  "session_from_dict data =
     bindE (bindE (getitem data ''sid'') b64d_json) (\<lambda>sid.
     bindE (bindE (getitem data ''state'') from_dict) (\<lambda>st.
     case data of JObj d \<Rightarrow>
       bindE (b64d_opt d ''sk'') (\<lambda>k.
       Inr \<lparr>session_sid = sid, session_state = st, session_sk = k, session_init = wire_init d,
            established = truthy_opt (map_of d ''established'')\<rparr>)
     | _ \<Rightarrow> Inl AttributeError))"

subsection \<open>Framing\<close>

lemma ad_context_jsort: "ad_context_or (map_option jsort ctx) = jsort (ad_context_or ctx)"
  by (cases ctx) (auto simp: ad_context_or_def)

lemma associated_data_jsort: "associated_data (jsort h) (map_option jsort ctx) = associated_data h ctx"
  by (simp add: associated_data_def ad_context_jsort canonical_json_fields)

lemma parse_header_jsort: "parse_header (jsort (make_header pub pn n)) = parse_header (make_header pub pn n)"
  by (simp add: parse_header_def make_header_def jsort_obj)

lemma decrypt_jsort:
  "decrypt C priv (jsort (make_header pub pn n)) no ct (map_option jsort ctx) = decrypt C priv (make_header pub pn n) no ct ctx"
  by (simp add: decrypt_def decrypt_raw_def parse_header_jsort associated_data_jsort)

lemma encrypt_header:
  "encrypt C nonce pt ctx s = (Inr (h, n, ct), s') \<Longrightarrow> n = nonce \<and> (\<exists>pub pn k. h = make_header pub pn k)"
  by (auto simp: encrypt_def meth_defs aead_encrypt_def Let_def split_beta split: option.splits if_splits)

lemma json_ok_header: "json_ok (make_header pub pn n)"
  by (simp add: make_header_def json_ok_obj str_ok_ascii ascii_def)

definition init_ok :: "json option \<Rightarrow> bool" where
  "init_ok init \<longleftrightarrow> init \<noteq> Some JNull \<and> (\<forall>v. init = Some v \<longrightarrow> json_ok v)"

lemma parse_build_wire:
  assumes "init_ok init" "json_ok h"
  obtains w where "parse_wire (build_wire sid h nonce ct init) = Inr w" "getitem (JObj w) ''hdr'' = Inr (jsort h)"
    "bindE (getitem (JObj w) ''nonce'') b64d_json = Inr nonce" "bindE (getitem (JObj w) ''ct'') b64d_json = Inr ct"
    "bindE (getitem (JObj w) ''sid'') b64d_json = Inr sid" "wire_init w = map_option jsort init"
proof -
  have ok: "json_ok (JObj (wire_dict sid h nonce ct init))"
    using assms by (auto simp: wire_dict_def json_ok_obj init_ok_def str_ok_ascii ascii_def split: option.split)
  obtain w where l: "loads_bytes (build_wire sid h nonce ct init) = Inr (JObj w)"
      and m: "\<And>k. map_of w k = map_option jsort (map_of (wire_dict sid h nonce ct init) k)"
    by (rule loads_object [OF ok, folded build_wire_def]) (rule that)
  show ?thesis
  proof (rule that [of w])
    show "parse_wire (build_wire sid h nonce ct init) = Inr w"
      using l by (auto simp: parse_wire_def loads_bytes_def res_simps m wire_dict_def json_is_int_def)
    show "wire_init w = map_option jsort init"
      using assms(1) by (cases init) (auto simp: wire_init_def m wire_dict_def init_ok_def split: option.split json.split)
  qed (simp_all add: m wire_dict_def b64d_json_def)
qed

subsection \<open>What is sealed opens\<close>

lemma in_step_message:
  assumes "hash_lengths C" "aead_correct C" "dh_correct C" "in_step C D a b"
    and "length nonce = 12" "length priv = 32" "x25519_public C priv \<notin> D"
  shows "\<exists>h ct a' b'. encrypt C nonce pt ctx a = (Inr (h, nonce, ct), a') \<and> json_ok h
    \<and> decrypt C priv (jsort h) nonce ct (map_option jsort ctx) b = (Inr pt, b')
    \<and> in_step C (insert (x25519_public C priv) D) b' a'"
proof -
  let ?t = "([(nonce, pt, ctx)], priv, [0 :: nat])"
  obtain a' b' where t: "turn C ?t a b = ([Inr pt], a', b')" and s: "in_step C (insert (x25519_public C priv) D) b' a'"
    using turn_step [OF assms(1-4), of ?t] assms(5-7) by (auto simp: turn_ok_def turn_texts_def MAX_SKIP_def)
  obtain r a'' where e: "encrypt C nonce pt ctx a = (r, a'')" by (cases "encrypt C nonce pt ctx a")
  have d: "decrypt C priv (fst (case r of Inr m \<Rightarrow> m | Inl _ \<Rightarrow> (JNull, [], [])))
      (fst (snd (case r of Inr m \<Rightarrow> m | Inl _ \<Rightarrow> (JNull, [], [])))) (snd (snd (case r of Inr m \<Rightarrow> m | Inl _ \<Rightarrow> (JNull, [], [])))) ctx b
      = (Inr pt, b')" and a'': "a'' = a'"
    using t e by (cases r; auto simp: turn_def split_beta Let_def prod_eq_iff)+
  have "decrypt C priv JNull [] [] ctx b = (Inl RatchetError, b)"
    by (simp add: decrypt_def decrypt_raw_def parse_header_def meth_defs is_shape_error_def)
  then obtain h n ct where r: "r = Inr (h, n, ct)" using d by (cases r) auto
  have "n = nonce" and "\<exists>pub pn k. h = make_header pub pn k" using encrypt_header e r by metis+
  then show ?thesis using e d s a'' decrypt_jsort json_ok_header unfolding r by fastforce
qed

lemma pad_envelope_fits:
  "0 < b \<Longrightarrow> base_len e \<le> m \<Longrightarrow> \<exists>data. pad_envelope rnd e b (Some m) = Inr data"
  using pad_envelope_eq [of b rnd e "Some m"] by auto

lemma seal_unseal:
  assumes C: "hash_lengths C" "aead_correct C" "dh_correct C" and st: "in_step C D a b"
    and l: "length nonce = 12" "length priv = 32" "x25519_public C priv \<notin> D"
    and e: "json_ok (JObj e)" "base_len e \<le> (case ms of None \<Rightarrow> DEFAULT_MAX | Some m \<Rightarrow> m)" and i: "init_ok init"
  shows "\<exists>blob a' b' d. seal C rnd nonce e sid init ms a = (Inr blob, a')
    \<and> unseal C priv blob b = (Inr (d, sid, map_option jsort init), b')
    \<and> JObj d = jsort (JObj (AList.delete ''pad'' e)) \<and> in_step C (insert (x25519_public C priv) D) b' a'
    \<and> (\<exists>w. parse_wire blob = Inr w \<and> wire_init w = map_option jsort init)"
proof -
  have b: "0 < BUCKET" by (simp add: BUCKET_def)
  obtain pt where p: "pad_envelope rnd e BUCKET (Some (case ms of None \<Rightarrow> DEFAULT_MAX | Some m \<Rightarrow> m)) = Inr pt"
    using pad_envelope_fits [OF b e(2)] by blast
  obtain d where d: "unpad_envelope pt = Inr d" "JObj d = jsort (JObj (AList.delete ''pad'' e))"
    using unpad_pad [OF b e(1) p] by blast
  obtain h ct a' b' where m: "encrypt C nonce pt init a = (Inr (h, nonce, ct), a')" "json_ok h"
      "decrypt C priv (jsort h) nonce ct (map_option jsort init) b = (Inr pt, b')"
      and s: "in_step C (insert (x25519_public C priv) D) b' a'"
    using in_step_message [OF C st l] by blast
  obtain w where w: "parse_wire (build_wire sid h nonce ct init) = Inr w" "getitem (JObj w) ''hdr'' = Inr (jsort h)"
    "bindE (getitem (JObj w) ''nonce'') b64d_json = Inr nonce" "bindE (getitem (JObj w) ''ct'') b64d_json = Inr ct"
    "bindE (getitem (JObj w) ''sid'') b64d_json = Inr sid" "wire_init w = map_option jsort init"
    by (rule parse_build_wire [OF i m(2)])
  have "seal C rnd nonce e sid init ms a = (Inr (build_wire sid h nonce ct init), a')"
    using p m(1) by (simp add: seal_def meth_defs Let_def)
  moreover have "unseal C priv (build_wire sid h nonce ct init) b = (Inr (d, sid, map_option jsort init), b')"
    using w m(3) d(1) by (simp add: unseal_def meth_defs)
  ultimately show ?thesis using d(2) s w by blast
qed

text \<open>Take two sessions that are in step, the next message coming from the first.  An envelope that is
  JSON data and fits the limit seals to a blob that the other session opens to the same
  envelope (keys sorted, a field \<open>pad\<close> aside), the same session identifier and the same handshake header,
  after which the sessions are in step in the other direction.\<close>

theorem sealed_message_opens:
  assumes "hash_lengths C" "aead_correct C" "dh_correct C" "in_step C D a b"
    and "length nonce = 12" "length priv = 32" "x25519_public C priv \<notin> D"
    and "json_ok (JObj e)" "base_len e \<le> (case ms of None \<Rightarrow> DEFAULT_MAX | Some m \<Rightarrow> m)" "init_ok init"
  shows "\<exists>blob a' b' d. seal C rnd nonce e sid init ms a = (Inr blob, a')
    \<and> unseal C priv blob b = (Inr (d, sid, map_option jsort init), b')
    \<and> JObj d = jsort (JObj (AList.delete ''pad'' e)) \<and> in_step C (insert (x25519_public C priv) D) b' a'"
  using seal_unseal [OF assms] by blast

lemma init_ok_init_dict: "init_ok (Some (JObj (init_dict n)))"
  by (auto simp: init_ok_def init_dict_def json_ok_obj str_ok_ascii ascii_def split: option.split)

lemma unseal_parts:
  "unseal C priv blob st = (Inr (d, sid, i), st') \<Longrightarrow> parse_wire blob = Inr w \<Longrightarrow> bindE (getitem (JObj w) ''sid'') b64d_json = Inr sid \<and> i = wire_init w"
  by (auto simp: unseal_def liftS_def returnS_def elim!: bindS_InrE)

lemma first_sealed:
  assumes "hash_lengths C" "aead_correct C" "dh_correct C" "sign_correct C" "identity_wf i"
    and "length sp = 32" "length eph = 32" "length rk = 32" "length priv = 32" "length nonce = 12"
    and "make_bundle C i bid sid (x25519_public C sp) opks = Inr b" "offers C opks oid opk"
    and "distinct [x25519_public C sp, x25519_public C rk, x25519_public C priv]"
    and "json_ok (JObj e)" "base_len e \<le> (case ms of None \<Rightarrow> DEFAULT_MAX | Some m \<Rightarrow> m)"
  shows "\<exists>n a blob a' w hdr k b' d. initiate C eph b (ed_public_bytes C i) (x_public_bytes C i) = Inr n
    \<and> initiator C rk (sk n) (spk b) = Inr a
    \<and> seal C rnd nonce e ssid (Some (JObj (init_dict n))) ms a = (Inr blob, a')
    \<and> parse_wire blob = Inr w \<and> wire_init w = Some hdr
    \<and> hdr = jsort (JObj (init_dict n)) \<and> bindE (getitem (JObj w) ''sid'') b64d_json = Inr ssid
    \<and> getitem hdr ''ek'' = Inr (JStr (b64e (x25519_public C eph))) \<and> getitem hdr ''spk_id'' = Inr (JInt sid)
    \<and> getitem hdr ''opk_id'' = Inr (case oid of None \<Rightarrow> JNull | Some j \<Rightarrow> JInt j)
    \<and> respond C (x_private i) sp opk (x25519_public C eph) = Inr k \<and> k = sk n
    \<and> unseal C priv blob (responder k sp (x25519_public C sp)) = (Inr (d, ssid, Some hdr), b')
    \<and> JObj d = jsort (JObj (AList.delete ''pad'' e))"
proof -
  obtain k where k: "initiate C eph b (ed_public_bytes C i) (x_public_bytes C i)
      = Inr \<lparr>ek_public = x25519_public C eph, ek_private = eph, init_spk_id = sid, init_opk_id = oid, sk = k\<rparr>"
      "respond C (x_private i) sp opk (x25519_public C eph) = Inr k"
    using handshake_agree [OF assms(3-7,11,12)] by blast
  define n where "n = \<lparr>ek_public = x25519_public C eph, ek_private = eph, init_spk_id = sid, init_opk_id = oid, sk = k\<rparr>"
  have sp: "spk b = x25519_public C sp" by (rule make_bundle_Inr [OF assms(11)]) simp
  obtain a where a: "initiator C rk k (x25519_public C sp) = Inr a"
      "in_step C {x25519_public C rk, x25519_public C sp} a (responder k sp (x25519_public C sp))"
    using in_step_start [OF assms(3,6,8), of k] assms(13) by auto
  have nd: "x25519_public C priv \<notin> {x25519_public C rk, x25519_public C sp}" using assms(13) by auto
  obtain blob a' b' d w where s: "seal C rnd nonce e ssid (Some (JObj (init_dict n))) ms a = (Inr blob, a')"
      "unseal C priv blob (responder k sp (x25519_public C sp)) = (Inr (d, ssid, Some (jsort (JObj (init_dict n)))), b')"
      "JObj d = jsort (JObj (AList.delete ''pad'' e))" "parse_wire blob = Inr w" "wire_init w = Some (jsort (JObj (init_dict n)))"
    using seal_unseal [OF assms(1-3) a(2) assms(10,9) nd assms(14), of ms "Some (JObj (init_dict n))" rnd ssid]
      assms(15) init_ok_init_dict by auto
  have "bindE (getitem (JObj w) ''sid'') b64d_json = Inr ssid" using unseal_parts [OF s(2,4)] by simp
  moreover have "getitem (jsort (JObj (init_dict n))) ''ek'' = Inr (JStr (b64e (x25519_public C eph)))"
      "getitem (jsort (JObj (init_dict n))) ''spk_id'' = Inr (JInt sid)"
      "getitem (jsort (JObj (init_dict n))) ''opk_id'' = Inr (case oid of None \<Rightarrow> JNull | Some j \<Rightarrow> JInt j)"
    by (auto simp: init_dict_def n_def jsort_obj split: option.split)
  ultimately show ?thesis using k a(1) s sp unfolding n_def [symmetric] by (simp add: n_def)
qed

text \<open>The first message of a session.  The initiator runs its half of the handshake on the recipient's
  bundle, starts a ratchet and seals an envelope with the handshake header.  The recipient finds the
  header in the clear part, derives the same secret from the ephemeral key, the signed prekey and the
  one-time prekey it names, and the ratchet it starts opens the message.\<close>

theorem first_message_opens:
  assumes "hash_lengths C" "aead_correct C" "dh_correct C" "sign_correct C" "identity_wf i"
    and "length sp = 32" "length eph = 32" "length rk = 32" "length priv = 32" "length nonce = 12"
    and "make_bundle C i bid sid (x25519_public C sp) opks = Inr b" "offers C opks oid opk"
    and "distinct [x25519_public C sp, x25519_public C rk, x25519_public C priv]"
    and "json_ok (JObj e)" "base_len e \<le> DEFAULT_MAX"
  shows "\<exists>n a blob a' w hdr k b' d. initiate C eph b (ed_public_bytes C i) (x_public_bytes C i) = Inr n
    \<and> initiator C rk (sk n) (spk b) = Inr a
    \<and> seal C rnd nonce e ssid (Some (JObj (init_dict n))) None a = (Inr blob, a')
    \<and> parse_wire blob = Inr w \<and> wire_init w = Some hdr
    \<and> getitem hdr ''ek'' = Inr (JStr (b64e (x25519_public C eph))) \<and> getitem hdr ''spk_id'' = Inr (JInt sid)
    \<and> getitem hdr ''opk_id'' = Inr (case oid of None \<Rightarrow> JNull | Some j \<Rightarrow> JInt j)
    \<and> respond C (x_private i) sp opk (x25519_public C eph) = Inr k
    \<and> unseal C priv blob (responder k sp (x25519_public C sp)) = (Inr (d, ssid, Some hdr), b')
    \<and> JObj d = jsort (JObj (AList.delete ''pad'' e))"
  using first_sealed [OF assms(1-14), of None, unfolded option.case, OF assms(15), of rnd ssid]
  by (elim exE conjE) (intro exI conjI, assumption+)

lemma parse_wire_error: "parse_wire blob = Inl e \<Longrightarrow> e = WireError"
  using utf8_decode_error [of blob] json_loads_error
  by (auto simp: parse_wire_def bindE_Inl_iff rethrow_def split: sum.splits json.splits if_splits)

text \<open>A blob that does not open, whether malformed, forged, replayed or too far ahead, is a
  \<open>WireError\<close> and leaves the session as it was; any other error comes after the ciphertext has been
  authenticated by the session.\<close>

theorem unseal_failure:
  assumes "unseal C priv blob s = (Inl e, s')"
  shows "e = WireError \<and> s' = s
    \<or> (\<exists>w h nonce ct pt. parse_wire blob = Inr w \<and> decrypt C priv h nonce ct (wire_init w) s = (Inr pt, s')
         \<and> (unpad_envelope pt = Inl e \<or> bindE (getitem (JObj w) ''sid'') b64d_json = Inl e))"
proof (cases "parse_wire blob")
  case (Inl x)
  then have "x = WireError" by (rule parse_wire_error)
  then show ?thesis using assms Inl by (simp add: unseal_def meth_defs)
next
  case (Inr w)
  let ?hdr = "getitem (JObj w) ''hdr''" and ?n = "bindE (getitem (JObj w) ''nonce'') b64d_json" and ?c = "bindE (getitem (JObj w) ''ct'') b64d_json"
  show ?thesis
  proof (cases "\<exists>h n c. ?hdr = Inr h \<and> ?n = Inr n \<and> ?c = Inr c")
    case False
    then show ?thesis using assms Inr
      by (cases ?hdr; cases ?n; cases ?c) (simp_all add: unseal_def meth_defs)
  next
    case True
    then obtain h n c where h: "?hdr = Inr h" "?n = Inr n" "?c = Inr c" by blast
    obtain r s1 where r: "decrypt C priv h n c (wire_init w) s = (r, s1)" by (cases "decrypt C priv h n c (wire_init w) s")
    show ?thesis
    proof (cases r)
      case (Inl x)
      then have "s1 = s" using r transact_error [of "decrypt_raw C priv h n c (wire_init w)" s x s1] by (simp add: decrypt_def)
      then show ?thesis using assms Inr h r Inl by (simp add: unseal_def meth_defs)
    next
      case ok: (Inr pt)
      then have "s' = s1 \<and> (unpad_envelope pt = Inl e \<or> bindE (getitem (JObj w) ''sid'') b64d_json = Inl e)"
        using assms Inr h r
        by (cases "unpad_envelope pt"; cases "bindE (getitem (JObj w) ''sid'') b64d_json")
          (simp_all add: unseal_def meth_defs)
      then show ?thesis using Inr ok r by (intro disjI2 exI [of _ w] exI [of _ h] exI [of _ n] exI [of _ c] exI [of _ pt]) simp
    qed
  qed
qed

subsection \<open>Stored sessions\<close>

definition session_wf :: "session \<Rightarrow> bool" where
  "session_wf s \<longleftrightarrow> ratchet_wf (session_state s) \<and> session_sk s \<noteq> Some [] \<and> init_ok (session_init s)"

text \<open>The state as storage keeps it: the cache of skipped keys in the order of its keys.\<close>

definition stored_state :: "ratchet_state \<Rightarrow> ratchet_state" where
  "stored_state st = st\<lparr>skipped := sort_key fst (skipped st)\<rparr>"

lemma session_roundtrip:
  assumes "session_wf s"
  shows "bindE (loads_bytes (canonical_json (JObj (session_to_dict s)))) session_from_dict
    = Inr (s\<lparr>session_state := stored_state (session_state s), session_init := map_option jsort (session_init s)\<rparr>)"
proof -
  have wf: "ratchet_wf (session_state s)" and io: "init_ok (session_init s)" and sk: "session_sk s \<noteq> Some []"
    using assms by (auto simp: session_wf_def)
  have ok: "json_ok (JObj (session_to_dict s))"
    using json_ok_to_dict [OF wf] io
    by (auto simp: session_to_dict_def json_ok_obj init_ok_def str_ok_ascii ascii_def split: option.split)
  obtain d where l: "loads_bytes (canonical_json (JObj (session_to_dict s))) = Inr (JObj d)"
      and m: "\<And>k. map_of d k = map_option jsort (map_of (session_to_dict s) k)"
    by (rule loads_object [OF ok]) (rule that)
  obtain e where e: "jsort (JObj (to_dict (session_state s))) = JObj e"
      "from_dict (JObj e) = Inr (stored_state (session_state s))"
    using from_dict_stored [OF ratchet_wf_present [OF wf]] unfolding stored_state_def by blast
  have st: "map_of d ''state'' = Some (JObj e)"
    using e(1) by (simp add: m session_to_dict_def del: jsort.simps)
  have "jsort (b64e_opt v) = b64e_opt v" for v by (simp add: b64e_opt_def split: option.split)
  then have k: "b64d_opt d ''sk'' = Inr (session_sk s)"
    by (intro b64d_opt_b64e_opt [OF _ sk]) (simp add: m session_to_dict_def)
  have "wire_init d = map_option jsort (session_init s)"
    using io by (cases "session_init s") (auto simp: wire_init_def m session_to_dict_def init_ok_def split: json.split)
  then show ?thesis
    using l st e(2) k by (simp add: session_from_dict_def m session_to_dict_def b64d_json_def truthy_opt_def)
qed

text \<open>A session whose ratchet state is well-formed survives storage: printed and read back it has the
  same identifier, secret, header and status, and its ratchet state is the same but for the order of the cache;
  a session stored twice reads as the session stored once.\<close>

theorem session_storable:
  assumes "session_wf s" "bindE (loads_bytes (canonical_json (JObj (session_to_dict s)))) session_from_dict = r"
  shows "\<exists>s'. r = Inr s' \<and> session_sid s' = session_sid s \<and> session_sk s' = session_sk s
    \<and> established s' = established s \<and> session_state s' = stored_state (session_state s)
    \<and> bindE (loads_bytes (canonical_json (JObj (session_to_dict s')))) session_from_dict = Inr s'"
proof -
  let ?s = "s\<lparr>session_state := stored_state (session_state s), session_init := map_option jsort (session_init s)\<rparr>"
  have "json_ok (jsort v)" if "json_ok v" for v using that by (rule json_ok_jsort)
  then have "session_wf ?s"
    using assms(1) by (auto simp: session_wf_def stored_state_def ratchet_wf_def init_ok_def)
  from session_roundtrip [OF this] have "bindE (loads_bytes (canonical_json (JObj (session_to_dict ?s)))) session_from_dict = Inr ?s"
    by (simp add: stored_state_def option.map_comp o_def jsort_idem sort_key_id_if_sorted)
  then show ?thesis using session_roundtrip [OF assms(1)] assms(2) by (intro exI [of _ ?s]) simp
qed

subsection \<open>Concrete inputs\<close>

definition sample_envelope :: dict where
  "sample_envelope = make_envelope ''text'' (JObj [(''text'', JStr ''hi'')]) ''m1'' 5 None None"

lemma sample_envelope_ok: "json_ok (JObj sample_envelope)" "base_len sample_envelope \<le> DEFAULT_MAX"
proof -
  show "json_ok (JObj sample_envelope)"
    by (simp add: sample_envelope_def make_envelope_def json_ok_obj str_ok_ascii ascii_def)
  show "base_len sample_envelope \<le> DEFAULT_MAX" by code_simp
qed

lemma sample_in_step: "\<exists>a. initiator toy (key_of 2) (key_of 9) (key_of 1) = Inr a
    \<and> in_step toy {key_of 2, key_of 1} a (responder (key_of 9) (key_of 1) (key_of 1))"
  using in_step_start [OF toy_ok(3), of "key_of 1" "key_of 2" "key_of 9"] by simp

theorem sealed_message_opens_witness:
  "\<exists>a blob a' b' d. seal toy (\<lambda>_. 0) (replicate 12 0) sample_envelope [7] None None a = (Inr blob, a')
    \<and> unseal toy (key_of 3) blob (responder (key_of 9) (key_of 1) (key_of 1)) = (Inr (d, [7], None), b')
    \<and> JObj d = jsort (JObj (AList.delete ''pad'' sample_envelope))"
proof -
  obtain a where a: "in_step toy {key_of 2, key_of 1} a (responder (key_of 9) (key_of 1) (key_of 1))"
    using sample_in_step by blast
  show ?thesis
    using sealed_message_opens [OF toy_ok(1-3) a, of "replicate 12 0" "key_of 3" sample_envelope None None "\<lambda>_. 0" "[7]"] sample_envelope_ok
    by (fastforce simp: init_ok_def)
qed

theorem first_message_opens_witness:
  "\<exists>n blob a a'. initiate toy (key_of 8) sample_bundle (ed_public_bytes toy sample_identity) (x_public_bytes toy sample_identity) = Inr n
    \<and> seal toy (\<lambda>_. 0) (replicate 12 0) sample_envelope [7] (Some (JObj (init_dict n))) None a = (Inr blob, a')
    \<and> (\<exists>k. fst (unseal toy (key_of 11) blob (responder k (key_of 5) (key_of 5))) \<in> range Inr)"
proof -
  have "distinct [x25519_public toy (key_of 5), x25519_public toy (key_of 10), x25519_public toy (key_of 11)]" by simp
  from first_message_opens [OF toy_ok(1-4) sample_identity_wf length_key_of length_key_of [of 8]
      length_key_of length_key_of length_replicate [of 12 0] sample_make_bundle sample_offers this sample_envelope_ok,
      of "\<lambda>_. 0" "[7]"]
  obtain n a blob a' k d hdr b' where
    "initiate toy (key_of 8) sample_bundle (ed_public_bytes toy sample_identity) (x_public_bytes toy sample_identity) = Inr n"
    "seal toy (\<lambda>_. 0) (replicate 12 0) sample_envelope [7] (Some (JObj (init_dict n))) None a = (Inr blob, a')"
    "unseal toy (key_of 11) blob (responder k (key_of 5) (x25519_public toy (key_of 5))) = (Inr (d, [7], Some hdr), b')"
    by (elim exE conjE)
  then show ?thesis
    by (intro exI [of _ n] exI [of _ blob] exI [of _ a] exI [of _ a'] conjI exI [of _ k]) simp_all
qed

theorem unseal_failure_witness:
  "unseal toy (key_of 3) [] (responder (key_of 9) (key_of 1) (key_of 1)) = (Inl WireError, responder (key_of 9) (key_of 1) (key_of 1))
   \<and> responder (key_of 9) (key_of 1) (key_of 1) = responder (key_of 9) (key_of 1) (key_of 1)"
proof -
  have p: "parse_wire [] = Inl WireError" by code_simp
  then have u: "unseal toy (key_of 3) [] (responder (key_of 9) (key_of 1) (key_of 1)) = (Inl WireError, responder (key_of 9) (key_of 1) (key_of 1))"
    by (simp add: unseal_def meth_defs)
  from unseal_failure [OF this] show ?thesis using p u by auto
qed

definition sample_session :: session where
  "sample_session = \<lparr>session_sid = [7], session_state = responder (key_of 9) (key_of 1) (key_of 1), session_sk = Some (key_of 9),
     session_init = None, established = False\<rparr>"

theorem session_storable_witness:
  "\<exists>s'. bindE (loads_bytes (canonical_json (JObj (session_to_dict sample_session)))) session_from_dict = Inr s'
    \<and> session_sid s' = [7]"
proof -
  have "session_wf sample_session"
    by (simp add: session_wf_def sample_session_def init_ok_def ratchet_wf_def responder_def fresh_state_def key_of_def)
  from session_storable [OF this refl] show ?thesis by (auto simp: sample_session_def)
qed

end
