(* ===== verification/Signed.thy ===== *)
theory Signed
  imports Identity
begin

section \<open>Signed records\<close>

text \<open>
  Contact cards, device lists and device keys share one scheme: a dictionary built from the fields of the
  record is printed canonically, a label is put in front, and the result is signed; the record is sent as
  the same dictionary with the signature added.  The locale states what the scheme needs of the dictionary
  (its keys are distinct and none is \<open>sig\<close>) and proves once what the records rely on: the dictionary can be
  read back field by field, and the signature covers every field.
\<close>

definition with_sig :: "dict \<Rightarrow> bytes \<Rightarrow> dict" where
  "with_sig d sg = d @ [(''sig'', JStr (b64e sg))]"

definition to_be_signed :: "bytes \<Rightarrow> dict \<Rightarrow> bytes" where
  "to_be_signed info d = info @ canonical_json (JObj d)"

locale signed_record =
  fixes fields :: "'r \<Rightarrow> dict"
  assumes distinct_fields: "distinct (map fst (fields r))"
    and no_sig: "''sig'' \<notin> fst ` set (fields r)"
begin

lemma distinct_with_sig: "distinct (map fst (with_sig (fields r) sg))"
  using distinct_fields no_sig by (simp add: with_sig_def)

lemma json_ok_with_sig: "json_ok (JObj (fields r)) \<Longrightarrow> json_ok (JObj (with_sig (fields r) sg))"
  using distinct_with_sig [of r sg]
  by (auto simp: json_ok_obj with_sig_def str_ok_ascii ascii_def)

lemma lookup_with_sig:
  "map_of (with_sig (fields r) sg) k = (if k = ''sig'' then Some (JStr (b64e sg)) else map_of (fields r) k)"
proof -
  have "map_of (fields r) ''sig'' = None" using no_sig by (simp add: map_of_eq_None_iff)
  then show ?thesis by (auto simp: with_sig_def map_add_def split: option.split)
qed

lemma sorted_lookup:
  obtains d where "jsort (JObj (with_sig (fields r) sg)) = JObj d"
    "\<And>k. map_of d k = (if k = ''sig'' then Some (JStr (b64e sg)) else map_option jsort (map_of (fields r) k))"
proof (rule jsort_object [OF distinct_with_sig [of r sg]])
  fix d
  assume "jsort (JObj (with_sig (fields r) sg)) = JObj d" "\<And>k. map_of d k = map_option jsort (map_of (with_sig (fields r) sg) k)"
  then show thesis by (intro that [of d]) (auto simp: lookup_with_sig)
qed

lemma loads_signed:
  assumes "json_ok (JObj (fields r))"
  obtains d where "loads_bytes (canonical_json (JObj (with_sig (fields r) sg))) = Inr (JObj d)"
    "\<And>k. map_of d k = (if k = ''sig'' then Some (JStr (b64e sg)) else map_option jsort (map_of (fields r) k))"
proof (rule sorted_lookup [of r sg])
  fix d
  assume "jsort (JObj (with_sig (fields r) sg)) = JObj d"
    "\<And>k. map_of d k = (if k = ''sig'' then Some (JStr (b64e sg)) else map_option jsort (map_of (fields r) k))"
  then show thesis using loads_canonical_json [OF json_ok_with_sig [OF assms]] by (intro that [of d]) auto
qed

lemma signature_covers:
  assumes "to_be_signed info (fields r) = to_be_signed info (fields r')" "jwf (JObj (fields r))" "jwf (JObj (fields r'))"
  shows "map_option jsort (map_of (fields r) k) = map_option jsort (map_of (fields r') k)"
proof -
  have "jsort (JObj (fields r)) = jsort (JObj (fields r'))"
    using assms canonical_json_eq_iff by (simp add: to_be_signed_def)
  then have e: "map (\<lambda>kv. (fst kv, jsort (snd kv))) (sort_key fst (fields r)) = map (\<lambda>kv. (fst kv, jsort (snd kv))) (sort_key fst (fields r'))"
    unfolding jsort_obj by simp
  show ?thesis unfolding map_of_jsort [OF distinct_fields, of jsort, symmetric] e ..
qed

end

text \<open>Canonical JSON of an object begins with a brace, so labels can be prefixes of each other.\<close>

lemma canonical_object_head: "\<exists>r. canonical_json (JObj d) = 123 # r"
  by (simp add: canonical_json_def str_encode_def)

end
