(* ===== verification/Cards.thy ===== *)
theory Cards
  imports Signed
begin

section \<open>Mailbox capabilities and contact cards\<close>

text \<open>
  The value types of \<^verbatim>\<open>wire/backends/base.py\<close> and \<^verbatim>\<open>core/card.py\<close>.  A card is read from untrusted text, so its
  relays and its name can be any JSON value.  The theorems: a card that its owner made is read back as it
  was, and never holds a read token; a card that is accepted is signed by the keys its fingerprint names;
  the signature covers every field.
\<close>

definition MAILBOX_ID_SIZE :: nat where "MAILBOX_ID_SIZE = 16"
definition CAPABILITY_TOKEN_SIZE :: nat where "CAPABILITY_TOKEN_SIZE = 32"

record mailbox_capability =
  mailbox_id :: string
  write_token :: string
  read_token :: "string option"

text \<open>The three random byte strings are arguments.\<close>

definition generate_capability :: "bytes \<Rightarrow> bytes \<Rightarrow> bytes \<Rightarrow> mailbox_capability" where
  "generate_capability rid rw rr = \<lparr>mailbox_id = b64e rid, write_token = b64e rw, read_token = Some (b64e rr)\<rparr>"

definition capability_to_json :: "mailbox_capability \<Rightarrow> dict" where
  "capability_to_json c = [(''mailbox_id'', JStr (mailbox_id c)), (''write_token'', JStr (write_token c))]
     @ (case read_token c of None \<Rightarrow> [] | Some r \<Rightarrow> [(''read_token'', JStr r)])"

definition card_view :: "mailbox_capability \<Rightarrow> dict" where
  "card_view c = [(''id'', JStr (mailbox_id c)), (''w'', JStr (write_token c))]"

definition from_card_view :: "json \<Rightarrow> mailbox_capability res" where
  "from_card_view view = bindE (getitem view ''id'') (\<lambda>i. bindE (getitem view ''w'') (\<lambda>w.
     Inr \<lparr>mailbox_id = py_str i, write_token = py_str w, read_token = None\<rparr>))"

definition validate_token :: "string option \<Rightarrow> unit res" where
  "validate_token t = (case t of None \<Rightarrow> Inr ()
     | Some s \<Rightarrow> bindE (rethrow (\<lambda>_. True) ValueError (b64d s)) (\<lambda>raw. guardE (length raw = CAPABILITY_TOKEN_SIZE) ValueError))"

definition capability_validate :: "mailbox_capability \<Rightarrow> unit res" where
  "capability_validate c = bindE (validate_token (Some (write_token c))) (\<lambda>_. validate_token (read_token c))"

definition capability_from_json :: "dict \<Rightarrow> bool \<Rightarrow> mailbox_capability res" where
  "capability_from_json payload with_read =
     (let read = (if with_read then map_of payload ''read_token'' else None) in
      bindE (getitem (JObj payload) ''mailbox_id'') (\<lambda>i. bindE (getitem (JObj payload) ''write_token'') (\<lambda>w.
      let c = \<lparr>mailbox_id = py_str i, write_token = py_str w,
               read_token = (if truthy_opt read then map_option py_str read else None)\<rparr> in
      bindE (capability_validate c) (\<lambda>_. Inr c))))"

subsection \<open>Cards\<close>

definition CARD_VERSION :: int where "CARD_VERSION = 1"

record contact_card =
  card_identity_id :: string
  card_isign :: bytes
  card_idh :: bytes
  card_bundle_id :: string
  inbox :: mailbox_capability
  relays :: "json list"
  card_name :: json
  signature :: "bytes option"

definition payload :: "contact_card \<Rightarrow> dict" where
  "payload c =
     [(''v'', JInt CARD_VERSION), (''id'', JStr (card_identity_id c)), (''isign'', JStr (b64e (card_isign c))),
      (''idh'', JStr (b64e (card_idh c))), (''bundle'', JStr (card_bundle_id c)), (''inbox'', JObj (card_view (inbox c))),
      (''relays'', JArr (relays c))]
     @ (if truthy (card_name c) then [(''name'', card_name c)] else [])"

definition signed_dict :: "contact_card \<Rightarrow> dict" where
  "signed_dict c = with_sig (payload c) (case signature c of None \<Rightarrow> [] | Some s \<Rightarrow> s)"

definition signed_bytes :: "contact_card \<Rightarrow> bytes" where
  "signed_bytes c = to_be_signed CARD_SIGN_INFO (payload c)"

definition to_string :: "zlib \<Rightarrow> contact_card \<Rightarrow> string" where
  "to_string z c = card_encode z (JObj (signed_dict c))"

definition card_fields :: "dict \<Rightarrow> contact_card res" where
  "card_fields d =
     rethrow is_shape_error CardError
       (bindE (bindE (getitem (JObj d) ''isign'') b64d_json) (\<lambda>is.
        bindE (bindE (getitem (JObj d) ''idh'') b64d_json) (\<lambda>ih.
        bindE (getitem (JObj d) ''id'') (\<lambda>i.
        bindE (getitem (JObj d) ''bundle'') (\<lambda>b.
        bindE (bindE (getitem (JObj d) ''inbox'') from_card_view) (\<lambda>ib.
        bindE (py_list_or (map_of d ''relays'')) (\<lambda>rs.
        bindE (bindE (getitem (JObj d) ''sig'') b64d_json) (\<lambda>sg.
        Inr \<lparr>card_identity_id = py_str i, card_isign = is, card_idh = ih, card_bundle_id = py_str b, inbox = ib,
             relays = rs, card_name = get_or d ''name'' JNull, signature = Some sg\<rparr>))))))))"

definition card_from_dict :: "crypto \<Rightarrow> json \<Rightarrow> contact_card res" where
  "card_from_dict C data =
     (case data of JObj d \<Rightarrow>
        if \<not> json_is_int (map_of d ''v'') CARD_VERSION then Inl CardError
        else bindE (card_fields d) (\<lambda>c.
          if relays c = [] then Inl CardError
          else if compute_identity_id C (card_isign c) (card_idh c) \<noteq> card_identity_id c then Inl CardError
          else bindE (capability_validate (inbox c)) (\<lambda>_.
            if verify C (card_isign c) (case signature c of None \<Rightarrow> [] | Some s \<Rightarrow> s) (signed_bytes c) then Inr c else Inl CardError))
      | _ \<Rightarrow> Inl AttributeError)"

definition from_string :: "crypto \<Rightarrow> zlib \<Rightarrow> string \<Rightarrow> contact_card res" where
  "from_string C z t = bindE (rethrow is_value_error CardError (card_decode z t)) (card_from_dict C)"

definition create :: "crypto \<Rightarrow> identity \<Rightarrow> string \<Rightarrow> mailbox_capability \<Rightarrow> json list \<Rightarrow> json \<Rightarrow> contact_card" where
  "create C i bundle_id ib rs name =
     (let c = \<lparr>card_identity_id = identity_id C i, card_isign = ed_public_bytes C i, card_idh = x_public_bytes C i,
               card_bundle_id = bundle_id, inbox = \<lparr>mailbox_id = mailbox_id ib, write_token = write_token ib, read_token = None\<rparr>,
               relays = rs, card_name = name, signature = None\<rparr> in
      c\<lparr>signature := Some (sign C i (signed_bytes c))\<rparr>)"

subsection \<open>Capabilities\<close>

lemma validate_b64e [simp]: "validate_token (Some (b64e t)) = guardE (length t = CAPABILITY_TOKEN_SIZE) ValueError"
  by (simp add: validate_token_def)

definition capability_wf :: "mailbox_capability \<Rightarrow> bool" where
  "capability_wf c \<longleftrightarrow> capability_validate c = Inr () \<and> str_ok (mailbox_id c) \<and> str_ok (write_token c)
     \<and> read_token c \<noteq> Some [] \<and> (\<forall>r. read_token c = Some r \<longrightarrow> str_ok r)"

lemma generated_capability_wf:
  "length rw = CAPABILITY_TOKEN_SIZE \<Longrightarrow> length rr = CAPABILITY_TOKEN_SIZE \<Longrightarrow> capability_wf (generate_capability rid rw rr)"
  by (auto simp: capability_wf_def generate_capability_def capability_validate_def CAPABILITY_TOKEN_SIZE_def)

lemma capability_roundtrip:
  assumes "capability_wf c"
  shows "capability_from_json (capability_to_json c) True = Inr c
    \<and> capability_from_json (capability_to_json c) False = Inr (c\<lparr>read_token := None\<rparr>)"
proof -
  have "capability_validate c = Inr ()" "read_token c \<noteq> Some []" using assms by (auto simp: capability_wf_def)
  moreover from this have "capability_validate (c\<lparr>read_token := None\<rparr>) = Inr ()"
    by (auto simp: capability_validate_def res_simps validate_token_def)
  ultimately show ?thesis
    by (cases c; cases "read_token c") (auto simp: capability_from_json_def capability_to_json_def truthy_opt_def Let_def)
qed

subsection \<open>A card read back\<close>

definition plain_strings :: "json list \<Rightarrow> bool" where
  "plain_strings rs \<longleftrightarrow> (\<forall>r \<in> set rs. \<exists>s. r = JStr s \<and> str_ok s)"

definition plain_name :: "json \<Rightarrow> bool" where
  "plain_name v \<longleftrightarrow> v = JNull \<or> (\<exists>s. v = JStr s \<and> str_ok s \<and> s \<noteq> [])"

lemma plain_strings_jsort: "plain_strings rs \<Longrightarrow> map jsort rs = rs"
  by (rule map_idI) (auto simp: plain_strings_def)

interpretation card_record: signed_record payload
  by unfold_locales (auto simp: payload_def)

lemma json_ok_payload:
  assumes "plain_strings (relays c)" "plain_name (card_name c)" "str_ok (card_identity_id c)" "str_ok (card_bundle_id c)"
    "str_ok (mailbox_id (inbox c))" "str_ok (write_token (inbox c))"
  shows "json_ok (JObj (payload c))"
proof -
  have "json_ok (JArr (relays c))" using assms(1) by (auto simp: plain_strings_def json_ok_def)
  moreover have "json_ok (card_name c)" using assms(2) by (auto simp: plain_name_def)
  ultimately show ?thesis using assms
    by (simp add: json_ok_obj payload_def card_view_def str_ok_ascii ascii_def)
qed

lemma card_fields_signed:
  assumes m: "\<And>k. map_of d k = (if k = ''sig'' then Some (JStr (b64e sg)) else map_option jsort (map_of (payload c) k))"
    and "plain_strings (relays c)" "relays c \<noteq> []" "plain_name (card_name c)" "read_token (inbox c) = None" "signature c = Some sg"
  shows "card_fields d = Inr c"
proof -
  have i: "from_card_view (jsort (JObj (card_view (inbox c)))) = Inr (inbox c)"
    using assms(5) by (cases "inbox c") (simp add: from_card_view_def card_view_def jsort_obj)
  have r: "py_list_or (Some (JArr (map jsort (relays c)))) = Inr (relays c)"
    using assms(2,3) by (simp add: py_list_or_def truthy_opt_def plain_strings_jsort)
  have n: "get_or d ''name'' JNull = card_name c"
    using assms(4) by (auto simp: get_or_def m payload_def plain_name_def)
  show ?thesis using i r n assms(6)
    by (cases c) (simp add: card_fields_def m payload_def b64d_json_def del: jsort.simps(2) split: if_split)
qed

lemma card_dict_reads_back:
  assumes "sign_correct C" "identity_wf i" "capability_wf ib" "str_ok bid" "plain_strings rs" "rs \<noteq> []" "plain_name name"
  defines "c \<equiv> create C i bid ib rs name"
  shows "card_from_dict C (jsort (JObj (signed_dict c))) = Inr c" "json_ok (JObj (signed_dict c))" "read_token (inbox c) = None"
proof -
  have f: "plain_strings (relays c)" "relays c \<noteq> []" "plain_name (card_name c)" "read_token (inbox c) = None"
      "card_identity_id c = identity_id C i" "card_isign c = ed_public_bytes C i" "card_idh c = x_public_bytes C i"
    using assms by (simp_all add: c_def create_def Let_def)
  then show "read_token (inbox c) = None" by simp
  have sg: "signature c = Some (sign C i (signed_bytes c))" by (simp add: c_def create_def Let_def signed_bytes_def payload_def)
  have "json_ok (JObj (payload c))"
    by (rule json_ok_payload) (use f assms in \<open>simp_all add: c_def create_def Let_def capability_wf_def\<close>)
  then show "json_ok (JObj (signed_dict c))" by (simp add: signed_dict_def card_record.json_ok_with_sig)
  obtain d where d: "jsort (JObj (signed_dict c)) = JObj d"
      "\<And>k. map_of d k = (if k = ''sig'' then Some (JStr (b64e (sign C i (signed_bytes c)))) else map_option jsort (map_of (payload c) k))"
    using card_record.sorted_lookup [of c "sign C i (signed_bytes c)"] sg unfolding signed_dict_def by auto
  have "card_fields d = Inr c" by (rule card_fields_signed [OF d(2) f(1-4) sg])
  moreover have "capability_validate (inbox c) = Inr ()"
    using assms(3) by (auto simp: c_def create_def Let_def capability_wf_def capability_validate_def validate_token_def res_simps)
  moreover have "map_of d ''v'' = Some (JInt CARD_VERSION)" by (simp add: d(2) payload_def)
  ultimately have "card_from_dict C (JObj d) = Inr c"
    using f(2,5,6,7) sg verify_sign [OF assms(1,2)] by (simp add: card_from_dict_def json_is_int_def identity_id_def)
  then show "card_from_dict C (jsort (JObj (signed_dict c))) = Inr c" unfolding d(1) .
qed

lemma card_reads_back:
  assumes "zlib_ok z" "sign_correct C" "identity_wf i" "capability_wf ib" "str_ok bid"
    and "plain_strings rs" "rs \<noteq> []" "plain_name name"
  shows "from_string C z (to_string z (create C i bid ib rs name)) = Inr (create C i bid ib rs name)
    \<and> read_token (inbox (create C i bid ib rs name)) = None"
proof -
  note r = card_dict_reads_back [OF assms(2-8)]
  show ?thesis using r card_decode_encode [OF assms(1) r(2)] by (simp only: from_string_def to_string_def) simp
qed

text \<open>C29: a card that its owner made and shared as text is read back as the same card, provided it names a
  relay and its write token is well-formed; the inbox in it never has a read token.\<close>

theorem card_roundtrip:
  assumes "zlib_ok z" "sign_correct C" "identity_wf i" "capability_wf ib" "str_ok bid"
    and "plain_strings rs" "rs \<noteq> []" "plain_name name"
  shows "from_string C z (to_string z (create C i bid ib rs name)) = Inr (create C i bid ib rs name)
    \<and> read_token (inbox (create C i bid ib rs name)) = None"
  using assms by (rule card_reads_back)

subsection \<open>An accepted card\<close>

lemma card_from_dict_Inr:
  assumes "card_from_dict C data = Inr c"
  shows "compute_identity_id C (card_isign c) (card_idh c) = card_identity_id c \<and> relays c \<noteq> []
    \<and> read_token (inbox c) = None \<and> (\<exists>raw. b64d (write_token (inbox c)) = Inr raw \<and> length raw = 32)
    \<and> (\<exists>sg. signature c = Some sg \<and> verify C (card_isign c) sg (signed_bytes c))"
  using assms
  by (auto simp: card_from_dict_def card_fields_def from_card_view_def capability_validate_def validate_token_def
      CAPABILITY_TOKEN_SIZE_def res_simps split: json.splits if_splits)

text \<open>C28: a card that is accepted can be trusted as far as its fingerprint.  Its identifier is the fingerprint of
  the two keys in it, the first of them signed it, it names a relay, and its inbox has a 32-byte write token
  and no read token.  The signature covers every field: two cards with the same signed bytes have the same
  identifier, keys, bundle, inbox and relays, and the same name or none.\<close>

theorem card_authentic:
  assumes "from_string C z t = Inr c" "signed_bytes c = signed_bytes c'" "jwf (JObj (payload c))" "jwf (JObj (payload c'))"
  shows "card_identity_id c = compute_identity_id C (card_isign c) (card_idh c)
    \<and> relays c \<noteq> [] \<and> read_token (inbox c) = None \<and> (\<exists>raw. b64d (write_token (inbox c)) = Inr raw \<and> length raw = 32)
    \<and> (\<exists>sg. signature c = Some sg \<and> verify C (card_isign c) sg (signed_bytes c))
    \<and> card_identity_id c' = card_identity_id c \<and> card_isign c' = card_isign c \<and> card_idh c' = card_idh c
    \<and> card_bundle_id c' = card_bundle_id c \<and> mailbox_id (inbox c') = mailbox_id (inbox c)
    \<and> write_token (inbox c') = write_token (inbox c) \<and> map jsort (relays c') = map jsort (relays c)
    \<and> (truthy (card_name c) \<or> truthy (card_name c') \<longrightarrow> jsort (card_name c') = jsort (card_name c))"
proof -
  note k = card_record.signature_covers [OF assms(2-4) [unfolded signed_bytes_def]]
  have "card_identity_id c' = card_identity_id c" using k [of "''id''"] by (simp add: payload_def)
  moreover have "card_isign c' = card_isign c" using k [of "''isign''"] by (simp add: payload_def)
  moreover have "card_idh c' = card_idh c" using k [of "''idh''"] by (simp add: payload_def)
  moreover have "card_bundle_id c' = card_bundle_id c" using k [of "''bundle''"] by (simp add: payload_def)
  moreover have "mailbox_id (inbox c') = mailbox_id (inbox c) \<and> write_token (inbox c') = write_token (inbox c)"
    using k [of "''inbox''"] by (simp add: payload_def card_view_def)
  moreover have "map jsort (relays c') = map jsort (relays c)" using k [of "''relays''"] by (simp add: payload_def)
  moreover have "truthy (card_name c) \<or> truthy (card_name c') \<longrightarrow> jsort (card_name c') = jsort (card_name c)"
    using k [of "''name''"] by (simp add: payload_def split: if_splits)
  moreover obtain data where "card_from_dict C data = Inr c" using assms(1) by (auto simp: from_string_def res_simps)
  ultimately show ?thesis using card_from_dict_Inr by metis
qed

subsection \<open>Concrete inputs\<close>

definition toy_zlib :: zlib where
  "toy_zlib = \<lparr>z_compress = (\<lambda>b. 120 # b), z_decompress = (\<lambda>b. case b of [] \<Rightarrow> Inl ZlibError | _ # r \<Rightarrow> Inr r)\<rparr>"

definition sample_inbox :: mailbox_capability where
  "sample_inbox = generate_capability (replicate 16 1) (replicate 32 2) (replicate 32 3)"

definition sample_card :: contact_card where
  "sample_card = create toy sample_identity ''b1'' sample_inbox [JStr ''https://r.example''] (JStr ''Ann'')"

lemma sample_card_read: "zlib_ok toy_zlib" "capability_wf sample_inbox" "plain_strings [JStr ''https://r.example'']" "plain_name (JStr ''Ann'')"
  by (simp_all add: zlib_ok_def toy_zlib_def sample_inbox_def generated_capability_wf CAPABILITY_TOKEN_SIZE_def
      plain_strings_def plain_name_def str_ok_ascii ascii_def)

theorem card_roundtrip_witness:
  "from_string toy toy_zlib (to_string toy_zlib sample_card) = Inr sample_card"
  unfolding sample_card_def
  using card_roundtrip [OF sample_card_read(1) toy_ok(4) sample_identity_wf sample_card_read(2) _ sample_card_read(3) _ sample_card_read(4),
      of "''b1''"]
  by (simp add: str_ok_ascii ascii_def)

lemma sample_card_ok: "from_string toy toy_zlib (to_string toy_zlib sample_card) = Inr sample_card"
  unfolding sample_card_def
  using card_reads_back [OF sample_card_read(1) toy_ok(4) sample_identity_wf sample_card_read(2) _ sample_card_read(3) _ sample_card_read(4),
      of "''b1''"]
  by (simp add: str_ok_ascii ascii_def)

theorem card_authentic_witness:
  "card_identity_id sample_card = compute_identity_id toy (card_isign sample_card) (card_idh sample_card)
   \<and> card_isign (sample_card\<lparr>signature := None\<rparr>) = card_isign sample_card"
proof -
  have e: "signed_bytes sample_card = signed_bytes (sample_card\<lparr>signature := None\<rparr>)" by (simp add: signed_bytes_def payload_def)
  have w: "jwf (JObj (payload sample_card))" "jwf (JObj (payload (sample_card\<lparr>signature := None\<rparr>)))"
    by (simp_all add: payload_def card_view_def sample_card_def create_def Let_def)
  show ?thesis using card_authentic [OF sample_card_ok e w] by (elim conjE) (intro conjI)
qed

end
