(* ===== verification/Devices.thy ===== *)
theory Devices
  imports Signed
begin

section \<open>Device lists and device keys\<close>

text \<open>
  \<^verbatim>\<open>core/devices.py\<close>: the signed list of an account's devices, the signed keys of one device, and the sealed
  form in which both are stored on a relay under an address derived from the account's public keys.  What is
  read comes from a relay, as a parsed value or as bytes.  The theorems: what an account publishes, anyone
  with its public keys reads back; a list or key record that is accepted is signed by the account it names,
  and the signature covers every field; adding a device keeps the others.
\<close>

definition DEVICE_LIST_VERSION :: int where "DEVICE_LIST_VERSION = 1"
definition DEVICE_ID_SIZE :: nat where "DEVICE_ID_SIZE = 16"
definition LEGACY_DEVICE :: string where "LEGACY_DEVICE = ''legacy''"

definition device_list_id :: "crypto \<Rightarrow> bytes \<Rightarrow> bytes \<Rightarrow> string" where
  "device_list_id C ed_public x_public = b64e (take 16 (sha256 C (DEVICE_LIST_ID_INFO @ ed_public @ x_public)))"

definition device_keys_id :: "crypto \<Rightarrow> bytes \<Rightarrow> bytes \<Rightarrow> string \<Rightarrow> string" where
  "device_keys_id C ed_public x_public device_id =
     b64e (take 16 (sha256 C (DEVICE_KEYS_ID_INFO @ ed_public @ x_public @ str_encode device_id)))"

text \<open>The random bytes are an argument.\<close>

definition new_device_id :: "bytes \<Rightarrow> string" where
  "new_device_id rnd = b64e rnd"

record device_entry =
  entry_device_id :: string
  entry_inbox :: dict
  entry_relays :: "string list"
  entry_bundle_id :: string
  entry_name :: string

definition entry_to_dict :: "device_entry \<Rightarrow> dict" where
  "entry_to_dict e =
     [(''device'', JStr (entry_device_id e)), (''inbox'', JObj (entry_inbox e)),
      (''relays'', JArr (map JStr (entry_relays e))), (''bundle'', JStr (entry_bundle_id e))]
     @ (if entry_name e \<noteq> [] then [(''name'', JStr (entry_name e))] else [])"

text \<open>\<open>dict(v)\<close>: a dict as it is, a sequence of pairs with text keys; a key that is not a text is not modelled and
  counts as malformed here.\<close>

definition py_pair :: "json \<Rightarrow> (string \<times> json) res" where
  "py_pair v = (case v of JArr [JStr k, x] \<Rightarrow> Inr (k, x)
     | JArr [_, _] \<Rightarrow> Inl TypeError
     | JArr _ \<Rightarrow> Inl ValueError
     | JStr s \<Rightarrow> (case code_points s of [a, b] \<Rightarrow> Inr (a, JStr b) | _ \<Rightarrow> Inl ValueError)
     | JObj [(a, _), (b, _)] \<Rightarrow> Inr (a, JStr b)
     | JObj _ \<Rightarrow> Inl ValueError
     | _ \<Rightarrow> Inl TypeError)"

definition py_dict :: "json \<Rightarrow> dict res" where
  "py_dict v = (case v of JObj d \<Rightarrow> Inr d
     | JArr xs \<Rightarrow> bindE (mapE py_pair xs) (\<lambda>kvs. Inr (foldl (\<lambda>d (k, x). AList.update k x d) [] kvs))
     | JStr [] \<Rightarrow> Inr []
     | JStr _ \<Rightarrow> Inl ValueError
     | _ \<Rightarrow> Inl TypeError)"

text \<open>The values that iterating over \<open>v\<close> yields.\<close>

definition py_iter :: "json \<Rightarrow> json list res" where
  "py_iter v = (case v of JArr xs \<Rightarrow> Inr xs | JObj d \<Rightarrow> Inr (map (\<lambda>kv. JStr (fst kv)) d)
     | JStr s \<Rightarrow> Inr (map JStr (code_points s)) | _ \<Rightarrow> Inl TypeError)"

text \<open>\<open>str(data.get(k) or "")\<close>.\<close>

definition get_str_or :: "dict \<Rightarrow> string \<Rightarrow> string" where
  "get_str_or d k = (if truthy_opt (map_of d k) then py_str (get_or d k JNull) else [])"

definition entry_from_dict :: "json \<Rightarrow> device_entry res" where
  "entry_from_dict data =
     rethrow is_shape_error DeviceListError
       (bindE (getitem data ''device'') (\<lambda>dev.
        bindE (bindE (getitem data ''inbox'') py_dict) (\<lambda>ib.
        bindE (bindE (getitem data ''relays'') py_iter) (\<lambda>rs.
        bindE (getitem data ''bundle'') (\<lambda>b.
        case data of JObj d \<Rightarrow>
          Inr \<lparr>entry_device_id = py_str dev, entry_inbox = ib, entry_relays = map py_str rs,
               entry_bundle_id = py_str b, entry_name = get_str_or d ''name''\<rparr>
        | _ \<Rightarrow> Inl TypeError)))))"

subsection \<open>Device lists\<close>

record device_list =
  dl_account :: string
  dl_devices :: "device_entry list"
  dl_updated :: int
  dl_isign :: bytes
  dl_idh :: bytes
  dl_signature :: bytes
  dl_version :: int

definition dl_address :: "crypto \<Rightarrow> device_list \<Rightarrow> string" where
  "dl_address C l = device_list_id C (dl_isign l) (dl_idh l)"

definition dl_payload :: "crypto \<Rightarrow> device_list \<Rightarrow> dict" where
  "dl_payload C l =
     [(''v'', JInt (dl_version l)), (''account'', JStr (dl_account l)), (''isign'', JStr (b64e (dl_isign l))),
      (''idh'', JStr (b64e (dl_idh l))), (''bundle_id'', JStr (dl_address C l)), (''updated'', JInt (dl_updated l)),
      (''devices'', JArr (map (\<lambda>e. JObj (entry_to_dict e)) (dl_devices l)))]"

definition dl_signed_bytes :: "crypto \<Rightarrow> device_list \<Rightarrow> bytes" where
  "dl_signed_bytes C l = to_be_signed DEVICE_SIGN_INFO (dl_payload C l)"

definition dl_to_bytes :: "crypto \<Rightarrow> device_list \<Rightarrow> bytes" where
  "dl_to_bytes C l = canonical_json (JObj (with_sig (dl_payload C l) (dl_signature l)))"

definition dl_fields :: "json \<Rightarrow> device_list res" where
  "dl_fields data =
     rethrow is_shape_error DeviceListError
       (bindE (bindE (getitem data ''isign'') b64d_json) (\<lambda>is.
        bindE (bindE (getitem data ''idh'') b64d_json) (\<lambda>ih.
        bindE (getitem data ''account'') (\<lambda>acc.
        bindE (bindE (getitem data ''devices'') (each entry_from_dict)) (\<lambda>ds.
        bindE (bindE (getitem data ''updated'') py_int) (\<lambda>up.
        bindE (bindE (getitem data ''sig'') b64d_json) (\<lambda>sg.
        Inr \<lparr>dl_account = py_str acc, dl_devices = ds, dl_updated = up, dl_isign = is, dl_idh = ih,
             dl_signature = sg, dl_version = DEVICE_LIST_VERSION\<rparr>)))))))"

definition dl_from_value :: "crypto \<Rightarrow> json \<Rightarrow> device_list res" where
  "dl_from_value C data =
     (case data of JObj d \<Rightarrow>
        if \<not> json_is_int (map_of d ''v'') DEVICE_LIST_VERSION then Inl DeviceListError
        else bindE (dl_fields data) (\<lambda>l.
          if compute_identity_id C (dl_isign l) (dl_idh l) \<noteq> dl_account l then Inl DeviceListError
          else if dl_devices l = [] then Inl DeviceListError
          else if verify C (dl_isign l) (dl_signature l) (dl_signed_bytes C l) then Inr l else Inl DeviceListError)
      | _ \<Rightarrow> Inl DeviceListError)"

text \<open>\<open>json.loads(data.decode("utf-8"))\<close> with the parser's error turned into a \<open>DeviceListError\<close>; an error of the decoder
  is not caught.\<close>

definition parse_record_bytes :: "bytes \<Rightarrow> json res" where
  "parse_record_bytes b = bindE (utf8_decode b) (\<lambda>t. rethrow (\<lambda>e. e = JSONDecodeError) DeviceListError (json_loads t))"

definition dl_from_bytes :: "crypto \<Rightarrow> bytes \<Rightarrow> device_list res" where
  "dl_from_bytes C b = bindE (parse_record_bytes b) (dl_from_value C)"

definition dl_create :: "crypto \<Rightarrow> identity \<Rightarrow> device_entry list \<Rightarrow> int \<Rightarrow> device_list" where
  "dl_create C i devices updated =
     (let l = \<lparr>dl_account = identity_id C i, dl_devices = devices, dl_updated = updated, dl_isign = ed_public_bytes C i,
               dl_idh = x_public_bytes C i, dl_signature = [], dl_version = DEVICE_LIST_VERSION\<rparr> in
      l\<lparr>dl_signature := sign C i (dl_signed_bytes C l)\<rparr>)"

definition with_device :: "int \<Rightarrow> device_list \<Rightarrow> device_entry \<Rightarrow> device_list" where
  "with_device now l e =
     \<lparr>dl_account = dl_account l, dl_devices = filter (\<lambda>d. entry_device_id d \<noteq> entry_device_id e) (dl_devices l) @ [e],
      dl_updated = now, dl_isign = dl_isign l, dl_idh = dl_idh l, dl_signature = [], dl_version = DEVICE_LIST_VERSION\<rparr>"

definition dl_belongs_to :: "device_list \<Rightarrow> string \<Rightarrow> bytes \<Rightarrow> bytes \<Rightarrow> bool" where
  "dl_belongs_to l account is ih \<longleftrightarrow> dl_account l = account \<and> dl_isign l = is \<and> dl_idh l = ih"

subsection \<open>Sealed storage\<close>

text \<open>What a relay's answer is: bytes, or a value that has been parsed already.\<close>

datatype raw_record = RawBytes bytes | RawValue json

definition device_list_key :: "crypto \<Rightarrow> bytes \<Rightarrow> bytes \<Rightarrow> bytes" where
  "device_list_key C is ih = hkdf C (is @ ih) ZERO_SALT DEVICE_LIST_ENC_INFO 32"

definition seal_payload :: "crypto \<Rightarrow> bytes \<Rightarrow> bytes \<Rightarrow> bytes \<Rightarrow> string \<Rightarrow> bytes \<Rightarrow> bytes res" where
  "seal_payload C nonce is ih address plaintext =
     bindE (aead_encrypt C nonce (device_list_key C is ih) plaintext []) (\<lambda>(n, ct).
     Inr (canonical_json (JObj [(''v'', JInt DEVICE_LIST_VERSION), (''bundle_id'', JStr address), (''box'', JStr (b64e (n @ ct)))])))"

definition open_box :: "crypto \<Rightarrow> json \<Rightarrow> bytes \<Rightarrow> bytes \<Rightarrow> bytes res" where
  "open_box C raw is ih =
     (case raw of JObj d \<Rightarrow>
        (case map_of d ''box'' of None \<Rightarrow> Inl DeviceListError
         | Some box \<Rightarrow>
           if box = JNull then Inl DeviceListError
           else bindE (rethrow (\<lambda>_. True) DeviceListError (b64d (py_str box))) (\<lambda>blob.
             if length blob \<le> 12 then Inl DeviceListError
             else rethrow (\<lambda>e. e = AEADError) DeviceListError
               (aead_decrypt C (device_list_key C is ih) (take 12 blob) (drop 12 blob) [])))
      | _ \<Rightarrow> Inl DeviceListError)"

definition open_payload :: "crypto \<Rightarrow> raw_record \<Rightarrow> bytes \<Rightarrow> bytes \<Rightarrow> bytes res" where
  "open_payload C data is ih =
     (case data of RawBytes b \<Rightarrow> bindE (parse_record_bytes b) (\<lambda>raw. open_box C raw is ih)
      | RawValue raw \<Rightarrow> open_box C raw is ih)"

definition seal_device_list :: "crypto \<Rightarrow> bytes \<Rightarrow> device_list \<Rightarrow> bytes res" where
  "seal_device_list C nonce l = seal_payload C nonce (dl_isign l) (dl_idh l) (dl_address C l) (dl_to_bytes C l)"

text \<open>\<open>isinstance(parsed, dict) and parsed.get("box") is None\<close>.\<close>

definition unsealed :: "json \<Rightarrow> bool" where
  "unsealed v \<longleftrightarrow> (case v of JObj d \<Rightarrow> map_of d ''box'' = None \<or> map_of d ''box'' = Some JNull | _ \<Rightarrow> False)"

definition open_device_list :: "crypto \<Rightarrow> raw_record \<Rightarrow> bytes \<Rightarrow> bytes \<Rightarrow> device_list res" where
  "open_device_list C data is ih =
     (case data of
        RawBytes b \<Rightarrow> bindE (parse_record_bytes b) (\<lambda>parsed.
          if unsealed parsed then dl_from_value C parsed
          else bindE (open_payload C data is ih) (dl_from_bytes C))
      | RawValue _ \<Rightarrow> bindE (open_payload C data is ih) (dl_from_bytes C))"

definition open_signed_payload :: "crypto \<Rightarrow> raw_record \<Rightarrow> bytes \<Rightarrow> bytes \<Rightarrow> dict res" where
  "open_signed_payload C data is ih =
     (let opened = bindE (open_payload C data is ih) (\<lambda>plaintext.
            bindE (rethrow is_value_error DeviceListError (loads_bytes plaintext)) (\<lambda>v.
            case v of JObj d \<Rightarrow> Inr d | _ \<Rightarrow> Inl DeviceListError)) in
      case data of
        RawBytes b \<Rightarrow> bindE (parse_record_bytes b) (\<lambda>parsed.
          if unsealed parsed then (case parsed of JObj d \<Rightarrow> Inr d | _ \<Rightarrow> Inl DeviceListError) else opened)
      | RawValue _ \<Rightarrow> opened)"

subsection \<open>Device keys\<close>

record device_keys =
  dk_device_id :: string
  dk_sdev :: bytes
  dk_sagree :: bytes
  dk_isign :: bytes
  dk_idh :: bytes
  dk_account :: string
  dk_signature :: bytes
  dk_version :: int

definition dk_address :: "crypto \<Rightarrow> device_keys \<Rightarrow> string" where
  "dk_address C k = device_keys_id C (dk_isign k) (dk_idh k) (dk_device_id k)"

definition dk_payload :: "crypto \<Rightarrow> device_keys \<Rightarrow> dict" where
  "dk_payload C k =
     [(''v'', JInt (dk_version k)), (''account'', JStr (dk_account k)), (''isign'', JStr (b64e (dk_isign k))),
      (''idh'', JStr (b64e (dk_idh k))), (''device'', JStr (dk_device_id k)), (''sdev'', JStr (b64e (dk_sdev k))),
      (''sagree'', JStr (b64e (dk_sagree k))), (''bundle_id'', JStr (dk_address C k))]"

definition dk_signed_bytes :: "crypto \<Rightarrow> device_keys \<Rightarrow> bytes" where
  "dk_signed_bytes C k = to_be_signed DEVICE_KEYS_SIGN_INFO (dk_payload C k)"

definition dk_to_bytes :: "crypto \<Rightarrow> device_keys \<Rightarrow> bytes" where
  "dk_to_bytes C k = canonical_json (JObj (with_sig (dk_payload C k) (dk_signature k)))"

definition b64d_str :: "json \<Rightarrow> bytes res" where
  "b64d_str v = b64d (py_str v)"

definition dk_fields :: "json \<Rightarrow> device_keys res" where
  "dk_fields data =
     rethrow is_shape_error DeviceListError
       (bindE (bindE (getitem data ''isign'') b64d_str) (\<lambda>is.
        bindE (bindE (getitem data ''idh'') b64d_str) (\<lambda>ih.
        bindE (getitem data ''account'') (\<lambda>acc.
        bindE (getitem data ''device'') (\<lambda>dev.
        bindE (bindE (getitem data ''sdev'') b64d_str) (\<lambda>sd.
        bindE (bindE (getitem data ''sagree'') b64d_str) (\<lambda>sa.
        bindE (bindE (getitem data ''sig'') b64d_str) (\<lambda>sg.
        Inr \<lparr>dk_device_id = py_str dev, dk_sdev = sd, dk_sagree = sa, dk_isign = is, dk_idh = ih,
             dk_account = py_str acc, dk_signature = sg, dk_version = DEVICE_LIST_VERSION\<rparr>))))))))"

definition dk_from_value :: "crypto \<Rightarrow> json \<Rightarrow> device_keys res" where
  "dk_from_value C data =
     (case data of JObj d \<Rightarrow>
        if \<not> json_is_int (map_of d ''v'') DEVICE_LIST_VERSION then Inl DeviceListError
        else bindE (dk_fields data) (\<lambda>k.
          if length (dk_sdev k) \<noteq> 32 \<or> length (dk_sagree k) \<noteq> 32 then Inl DeviceListError
          else if compute_identity_id C (dk_isign k) (dk_idh k) \<noteq> dk_account k then Inl DeviceListError
          else if verify C (dk_isign k) (dk_signature k) (dk_signed_bytes C k) then Inr k else Inl DeviceListError)
      | _ \<Rightarrow> Inl DeviceListError)"

definition dk_from_bytes :: "crypto \<Rightarrow> bytes \<Rightarrow> device_keys res" where
  "dk_from_bytes C b = bindE (parse_record_bytes b) (dk_from_value C)"

definition dk_belongs_to :: "device_keys \<Rightarrow> string \<Rightarrow> bytes \<Rightarrow> bytes \<Rightarrow> bool" where
  "dk_belongs_to k account is ih \<longleftrightarrow> dk_account k = account \<and> dk_isign k = is \<and> dk_idh k = ih"

definition dk_create :: "crypto \<Rightarrow> identity \<Rightarrow> string \<Rightarrow> bytes \<Rightarrow> bytes \<Rightarrow> device_keys" where
  "dk_create C i device_id sdev sagree =
     (let k = \<lparr>dk_device_id = device_id, dk_sdev = sdev, dk_sagree = sagree, dk_isign = ed_public_bytes C i,
               dk_idh = x_public_bytes C i, dk_account = identity_id C i, dk_signature = [], dk_version = DEVICE_LIST_VERSION\<rparr> in
      k\<lparr>dk_signature := sign C i (dk_signed_bytes C k)\<rparr>)"

interpretation list_record: signed_record "dl_payload C" for C
  by unfold_locales (auto simp: dl_payload_def)

interpretation keys_record: signed_record "dk_payload C" for C
  by unfold_locales (auto simp: dk_payload_def)

subsection \<open>What is published is read back\<close>

definition entry_wf :: "device_entry \<Rightarrow> bool" where
  "entry_wf e \<longleftrightarrow> str_ok (entry_device_id e) \<and> str_ok (entry_bundle_id e) \<and> str_ok (entry_name e)
     \<and> (\<forall>r \<in> set (entry_relays e). str_ok r) \<and> json_ok (JObj (entry_inbox e)) \<and> jsort (JObj (entry_inbox e)) = JObj (entry_inbox e)"

lemma json_ok_entry: "entry_wf e \<Longrightarrow> json_ok (JObj (entry_to_dict e))"
proof -
  assume w: "entry_wf e"
  then have "json_ok (JArr (map JStr (entry_relays e)))" by (auto simp: entry_wf_def json_ok_def)
  then show ?thesis using w by (simp add: entry_to_dict_def json_ok_obj entry_wf_def str_ok_ascii ascii_def)
qed

lemma entry_roundtrip:
  assumes "entry_wf e"
  shows "entry_from_dict (jsort (JObj (entry_to_dict e))) = Inr e"
proof -
  have dis: "distinct (map fst (entry_to_dict e))" by (simp add: entry_to_dict_def)
  obtain d where d: "jsort (JObj (entry_to_dict e)) = JObj d" "\<And>k. map_of d k = map_option jsort (map_of (entry_to_dict e) k)"
    by (rule jsort_object [OF dis]) (rule that)
  have i: "jsort (JObj (entry_inbox e)) = JObj (entry_inbox e)" using assms by (simp add: entry_wf_def)
  have n: "get_str_or d ''name'' = entry_name e"
    by (simp add: get_str_or_def truthy_opt_def get_or_def d(2) entry_to_dict_def)
  show ?thesis unfolding d(1)
    using i n by (cases e) (simp add: entry_from_dict_def d(2) entry_to_dict_def py_dict_def py_iter_def o_def del: jsort.simps(2))
qed

lemma json_ok_dl_payload:
  assumes "\<forall>e \<in> set (dl_devices l). entry_wf e" "str_ok (dl_account l)"
  shows "json_ok (JObj (dl_payload C l))"
proof -
  have "json_ok (JObj (entry_to_dict e))" if "e \<in> set (dl_devices l)" for e using assms(1) that json_ok_entry by blast
  then have "json_ok (JArr (map (\<lambda>e. JObj (entry_to_dict e)) (dl_devices l)))" by (auto simp: json_ok_def)
  then show ?thesis
    using assms(2) by (simp add: dl_payload_def json_ok_obj dl_address_def device_list_id_def str_ok_ascii ascii_def)
qed

lemma each_entries:
  assumes "\<forall>e \<in> set es. entry_wf e"
  shows "each entry_from_dict (jsort (JArr (map (\<lambda>e. JObj (entry_to_dict e)) es))) = Inr es"
proof -
  have "mapE entry_from_dict (map (\<lambda>e. jsort (JObj (entry_to_dict e))) es) = Inr es"
    using assms entry_roundtrip by (induction es) auto
  then show ?thesis by (simp add: each_def o_def del: jsort.simps(2))
qed

lemma dl_create_fields:
  "dl_account (dl_create C i ds up) = identity_id C i" "dl_devices (dl_create C i ds up) = ds"
  "dl_isign (dl_create C i ds up) = ed_public_bytes C i" "dl_idh (dl_create C i ds up) = x_public_bytes C i"
  "dl_version (dl_create C i ds up) = DEVICE_LIST_VERSION" "dl_updated (dl_create C i ds up) = up"
  "dl_signature (dl_create C i ds up) = sign C i (dl_signed_bytes C (dl_create C i ds up))"
  by (simp_all add: dl_create_def Let_def dl_signed_bytes_def dl_payload_def dl_address_def)

lemma dl_bytes_roundtrip:
  assumes "sign_correct C" "identity_wf i" "ds \<noteq> []" "\<forall>e \<in> set ds. entry_wf e"
  shows "dl_from_bytes C (dl_to_bytes C (dl_create C i ds up)) = Inr (dl_create C i ds up)"
proof -
  let ?l = "dl_create C i ds up"
  have ok: "json_ok (JObj (dl_payload C ?l))" by (rule json_ok_dl_payload) (use assms(4) in \<open>simp_all add: dl_create_fields\<close>)
  obtain d where d: "loads_bytes (dl_to_bytes C ?l) = Inr (JObj d)"
      "\<And>k. map_of d k = (if k = ''sig'' then Some (JStr (b64e (dl_signature ?l))) else map_option jsort (map_of (dl_payload C ?l) k))"
    by (rule list_record.loads_signed [OF ok, of "dl_signature ?l", folded dl_to_bytes_def]) (rule that)
  have p: "parse_record_bytes (dl_to_bytes C ?l) = Inr (JObj d)"
    using d(1) by (auto simp: parse_record_bytes_def loads_bytes_def res_simps)
  have "each entry_from_dict (jsort (JArr (map (\<lambda>e. JObj (entry_to_dict e)) ds))) = Inr ds"
    by (rule each_entries [OF assms(4)])
  then have "dl_fields (JObj d) = Inr ?l"
    by (cases ?l) (simp add: dl_fields_def d(2) dl_payload_def b64d_json_def dl_create_fields dl_create_def Let_def del: jsort.simps(1))
  then show ?thesis
    using p assms(3) verify_sign [OF assms(1,2)]
    by (simp add: dl_from_bytes_def dl_from_value_def d(2) dl_payload_def json_is_int_def dl_create_fields identity_id_def)
qed

text \<open>A sealed record opens with the public keys it was sealed under, whatever fields are added next to the box.\<close>

lemma seal_open_payload:
  assumes "hash_lengths C" "aead_correct C" "aead_tagged C" "length nonce = 12" "str_ok address"
  obtains b d where "seal_payload C nonce pk xk address plaintext = Inr b" "loads_bytes b = Inr (JObj d)" "\<not> unsealed (JObj d)"
    "\<And>d'. map_of d' ''box'' = map_of d ''box'' \<Longrightarrow> open_box C (JObj d') pk xk = Inr plaintext"
proof -
  let ?k = "device_list_key C pk xk"
  have k: "length ?k = 32" using assms(1) by (simp add: device_list_key_def hkdf_def hash_lengths_def)
  define ct where "ct = chacha_seal C ?k nonce plaintext []"
  let ?kvs = "[(''v'', JInt DEVICE_LIST_VERSION), (''bundle_id'', JStr address), (''box'', JStr (b64e (nonce @ ct)))]"
  have s: "seal_payload C nonce pk xk address plaintext = Inr (canonical_json (JObj ?kvs))"
    by (simp add: seal_payload_def aead_encrypt_Inr k ct_def)
  have ok: "json_ok (JObj ?kvs)" using assms(5) by (simp add: json_ok_obj str_ok_ascii ascii_def)
  obtain d where d: "loads_bytes (canonical_json (JObj ?kvs)) = Inr (JObj d)" "\<And>k. map_of d k = map_option jsort (map_of ?kvs k)"
    by (rule loads_object [OF ok]) (rule that)
  have "0 < length ct" using assms(3) unfolding ct_def aead_tagged_def by (metis gr_zeroI not_less_zero)
  moreover have "chacha_open C ?k nonce ct [] = Some plaintext" using assms(2,4) k by (simp add: ct_def aead_correct_def)
  ultimately have "open_box C (JObj d') pk xk = Inr plaintext" if "map_of d' ''box'' = map_of d ''box''" for d'
    using that assms(4) k by (simp add: open_box_def d(2) aead_decrypt_def)
  then show ?thesis using s d(1) by (intro that [of "canonical_json (JObj ?kvs)" d]) (simp_all add: unsealed_def d(2))
qed

lemma parse_record_loads: "loads_bytes b = Inr v \<Longrightarrow> parse_record_bytes b = Inr v"
  by (auto simp: parse_record_bytes_def loads_bytes_def res_simps)

text \<open>An account's device list reaches its contacts.  The list that an account signs and seals for the relay
  opens, with the account's public keys, to the same list, whether it is presented as the bytes that were
  published or as the value that a relay returns with fields added next to the sealed box.\<close>

theorem device_list_roundtrip:
  assumes "hash_lengths C" "aead_correct C" "aead_tagged C" "sign_correct C" "identity_wf i" "length nonce = 12"
    and "ds \<noteq> []" "\<forall>e \<in> set ds. entry_wf e"
  shows "\<exists>b d. seal_device_list C nonce (dl_create C i ds up) = Inr b \<and> loads_bytes b = Inr (JObj d)
    \<and> open_device_list C (RawBytes b) (ed_public_bytes C i) (x_public_bytes C i) = Inr (dl_create C i ds up)
    \<and> (\<forall>d'. map_of d' ''box'' = map_of d ''box'' \<longrightarrow>
          open_device_list C (RawValue (JObj d')) (ed_public_bytes C i) (x_public_bytes C i) = Inr (dl_create C i ds up))
    \<and> dl_belongs_to (dl_create C i ds up) (identity_id C i) (ed_public_bytes C i) (x_public_bytes C i)"
proof -
  let ?l = "dl_create C i ds up"
  have a: "str_ok (dl_address C ?l)" by (simp add: dl_address_def device_list_id_def)
  obtain b d where b: "seal_device_list C nonce ?l = Inr b" "loads_bytes b = Inr (JObj d)" "\<not> unsealed (JObj d)"
    "\<And>d'. map_of d' ''box'' = map_of d ''box'' \<Longrightarrow> open_box C (JObj d') (dl_isign ?l) (dl_idh ?l) = Inr (dl_to_bytes C ?l)"
    by (rule seal_open_payload [OF assms(1-3,6) a, where pk = "dl_isign ?l" and xk = "dl_idh ?l" and plaintext = "dl_to_bytes C ?l",
        folded seal_device_list_def]) (rule that)
  note r = dl_bytes_roundtrip [OF assms(4,5,7,8), of up]
  have "open_device_list C (RawValue (JObj d')) (ed_public_bytes C i) (x_public_bytes C i) = Inr ?l" if "map_of d' ''box'' = map_of d ''box''" for d'
    using b(4) [OF that] r by (simp add: open_device_list_def open_payload_def dl_create_fields)
  moreover have "open_device_list C (RawBytes b) (ed_public_bytes C i) (x_public_bytes C i) = Inr ?l"
    using b(4) [OF refl] b(3) r by (simp add: open_device_list_def open_payload_def dl_create_fields parse_record_loads [OF b(2)])
  ultimately show ?thesis using b(1,2) by (auto simp: dl_belongs_to_def dl_create_fields)
qed

subsection \<open>What is accepted\<close>

lemma dl_from_value_Inr:
  "dl_from_value C v = Inr l \<Longrightarrow> dl_account l = compute_identity_id C (dl_isign l) (dl_idh l) \<and> dl_devices l \<noteq> []
     \<and> verify C (dl_isign l) (dl_signature l) (dl_signed_bytes C l)"
  by (auto simp: dl_from_value_def res_simps split: json.splits if_splits)

lemma open_device_list_value: "open_device_list C data pk xk = Inr l \<Longrightarrow> \<exists>v. dl_from_value C v = Inr l"
  by (auto simp: open_device_list_def dl_from_bytes_def res_simps split: raw_record.splits if_splits)

text \<open>C30: a device list that is accepted, from whatever a relay returned, names the account whose public keys it
  carries and is signed by that account's signing key over its contents; if it belongs to the account that
  was asked for, the signature is by the key of that account's card.  The signature covers the account, its keys,
  the time and every device with its inbox, relays, bundle and name.\<close>

theorem device_list_authentic:
  assumes "open_device_list C data pk xk = Inr l"
    and "dl_signed_bytes C l = dl_signed_bytes C l'" "jwf (JObj (dl_payload C l))" "jwf (JObj (dl_payload C l'))"
  shows "dl_account l = compute_identity_id C (dl_isign l) (dl_idh l) \<and> dl_devices l \<noteq> []
    \<and> verify C (dl_isign l) (dl_signature l) (dl_signed_bytes C l)
    \<and> (dl_belongs_to l account pk xk \<longrightarrow> verify C pk (dl_signature l) (dl_signed_bytes C l) \<and> account = compute_identity_id C pk xk)
    \<and> dl_account l' = dl_account l \<and> dl_isign l' = dl_isign l \<and> dl_idh l' = dl_idh l \<and> dl_updated l' = dl_updated l
    \<and> map (\<lambda>e. jsort (JObj (entry_to_dict e))) (dl_devices l') = map (\<lambda>e. jsort (JObj (entry_to_dict e))) (dl_devices l)"
proof -
  obtain v where "dl_from_value C v = Inr l" using open_device_list_value [OF assms(1)] by blast
  note f = dl_from_value_Inr [OF this]
  note k = list_record.signature_covers [OF assms(2-4) [unfolded dl_signed_bytes_def]]
  have "dl_account l' = dl_account l" using k [of "''account''"] by (simp add: dl_payload_def)
  moreover have "dl_isign l' = dl_isign l" using k [of "''isign''"] by (simp add: dl_payload_def)
  moreover have "dl_idh l' = dl_idh l" using k [of "''idh''"] by (simp add: dl_payload_def)
  moreover have "dl_updated l' = dl_updated l" using k [of "''updated''"] by (simp add: dl_payload_def)
  moreover have "map (\<lambda>e. jsort (JObj (entry_to_dict e))) (dl_devices l') = map (\<lambda>e. jsort (JObj (entry_to_dict e))) (dl_devices l)"
    using k [of "''devices''"] by (simp add: dl_payload_def o_def del: jsort.simps(2))
  ultimately show ?thesis using f by (auto simp: dl_belongs_to_def)
qed

text \<open>Adding a device replaces the entry with its identifier and keeps all others, in order.\<close>

lemma with_device_lookup:
  "filter (\<lambda>d. entry_device_id d = x) (dl_devices (with_device now l e))
     = (if x = entry_device_id e then [e] else filter (\<lambda>d. entry_device_id d = x) (dl_devices l))"
  by (auto simp: with_device_def filter_empty_conv intro: filter_cong)

subsection \<open>Device keys\<close>

lemma dk_create_fields:
  "dk_account (dk_create C i dev sd sa) = identity_id C i" "dk_device_id (dk_create C i dev sd sa) = dev"
  "dk_isign (dk_create C i dev sd sa) = ed_public_bytes C i" "dk_idh (dk_create C i dev sd sa) = x_public_bytes C i"
  "dk_version (dk_create C i dev sd sa) = DEVICE_LIST_VERSION" "dk_sdev (dk_create C i dev sd sa) = sd"
  "dk_sagree (dk_create C i dev sd sa) = sa"
  "dk_signature (dk_create C i dev sd sa) = sign C i (dk_signed_bytes C (dk_create C i dev sd sa))"
  by (simp_all add: dk_create_def Let_def dk_signed_bytes_def dk_payload_def dk_address_def)

lemma json_ok_dk_payload:
  "str_ok (dk_account k) \<Longrightarrow> str_ok (dk_device_id k) \<Longrightarrow> json_ok (JObj (dk_payload C k))"
  by (simp add: dk_payload_def json_ok_obj dk_address_def device_keys_id_def str_ok_ascii ascii_def)

lemma dk_from_value_Inr:
  "dk_from_value C v = Inr k \<Longrightarrow> dk_account k = compute_identity_id C (dk_isign k) (dk_idh k)
     \<and> length (dk_sdev k) = 32 \<and> length (dk_sagree k) = 32 \<and> verify C (dk_isign k) (dk_signature k) (dk_signed_bytes C k)"
  by (auto simp: dk_from_value_def res_simps split: json.splits if_splits)

lemma device_keys_published:
  assumes C: "hash_lengths C" "aead_correct C" "aead_tagged C" "sign_correct C" and i: "identity_wf i" and l: "length nonce = 12"
    and w: "length sd = 32" "length sa = 32" "str_ok dev"
  shows "\<exists>b d. seal_payload C nonce (ed_public_bytes C i) (x_public_bytes C i) (dk_address C (dk_create C i dev sd sa))
        (dk_to_bytes C (dk_create C i dev sd sa)) = Inr b
    \<and> open_signed_payload C (RawBytes b) (ed_public_bytes C i) (x_public_bytes C i) = Inr d
    \<and> dk_from_value C (JObj d) = Inr (dk_create C i dev sd sa)"
proof -
  let ?k = "dk_create C i dev sd sa"
  have ok: "json_ok (JObj (dk_payload C ?k))" by (rule json_ok_dk_payload) (simp_all add: dk_create_fields w(3))
  obtain d where d: "loads_bytes (dk_to_bytes C ?k) = Inr (JObj d)"
      "\<And>x. map_of d x = (if x = ''sig'' then Some (JStr (b64e (dk_signature ?k))) else map_option jsort (map_of (dk_payload C ?k) x))"
    by (rule keys_record.loads_signed [OF ok, of "dk_signature ?k", folded dk_to_bytes_def]) (rule that)
  have "dk_fields (JObj d) = Inr ?k"
    by (simp add: dk_fields_def d(2) dk_payload_def b64d_str_def dk_create_fields)
  then have v: "dk_from_value C (JObj d) = Inr ?k"
    using w verify_sign [OF C(4) i]
    by (simp add: dk_from_value_def d(2) dk_payload_def json_is_int_def dk_create_fields identity_id_def)
  have a: "str_ok (dk_address C ?k)" by (simp add: dk_address_def device_keys_id_def)
  obtain b e where b: "seal_payload C nonce (ed_public_bytes C i) (x_public_bytes C i) (dk_address C ?k) (dk_to_bytes C ?k) = Inr b"
    "loads_bytes b = Inr (JObj e)" "\<not> unsealed (JObj e)"
    "\<And>d'. map_of d' ''box'' = map_of e ''box'' \<Longrightarrow> open_box C (JObj d') (ed_public_bytes C i) (x_public_bytes C i) = Inr (dk_to_bytes C ?k)"
    by (rule seal_open_payload [OF C(1-3) l a, where pk = "ed_public_bytes C i" and xk = "x_public_bytes C i" and plaintext = "dk_to_bytes C ?k"])
      (rule that)
  have "open_signed_payload C (RawBytes b) (ed_public_bytes C i) (x_public_bytes C i) = Inr d"
    using b(3) b(4) [OF refl] d(1) by (simp add: open_signed_payload_def open_payload_def parse_record_loads [OF b(2)])
  then show ?thesis using b(1) v by blast
qed

text \<open>A device's keys reach its siblings.  The key record that an account signs and seals for one device opens,
  with the account's public keys, to the same record; and any record that is accepted has keys of 32 bytes and is
  signed, with its device identifier and both keys, by the account it names.\<close>

theorem device_keys_roundtrip:
  assumes "hash_lengths C" "aead_correct C" "aead_tagged C" "sign_correct C" "identity_wf i" "length nonce = 12"
    and "length sd = 32" "length sa = 32" "str_ok dev"
  shows "\<exists>b d. seal_payload C nonce (ed_public_bytes C i) (x_public_bytes C i) (dk_address C (dk_create C i dev sd sa))
        (dk_to_bytes C (dk_create C i dev sd sa)) = Inr b
    \<and> open_signed_payload C (RawBytes b) (ed_public_bytes C i) (x_public_bytes C i) = Inr d
    \<and> dk_from_value C (JObj d) = Inr (dk_create C i dev sd sa)
    \<and> (\<forall>v k. dk_from_value C v = Inr k \<longrightarrow> dk_account k = compute_identity_id C (dk_isign k) (dk_idh k)
         \<and> length (dk_sdev k) = 32 \<and> length (dk_sagree k) = 32 \<and> verify C (dk_isign k) (dk_signature k) (dk_signed_bytes C k))"
proof -
  obtain b d where 1: "seal_payload C nonce (ed_public_bytes C i) (x_public_bytes C i) (dk_address C (dk_create C i dev sd sa))
        (dk_to_bytes C (dk_create C i dev sd sa)) = Inr b"
    "open_signed_payload C (RawBytes b) (ed_public_bytes C i) (x_public_bytes C i) = Inr d"
    "dk_from_value C (JObj d) = Inr (dk_create C i dev sd sa)"
    using device_keys_published [OF assms] by blast
  show ?thesis using 1 by (intro exI [of _ b] exI [of _ d] conjI allI impI) (auto dest: dk_from_value_Inr)
qed

subsection \<open>Concrete inputs\<close>

definition sample_entry :: device_entry where
  "sample_entry = \<lparr>entry_device_id = ''d1'', entry_inbox = [(''id'', JStr ''m''), (''w'', JStr ''t'')],
     entry_relays = [''https://r.example''], entry_bundle_id = ''b1'', entry_name = []\<rparr>"

lemma sample_entry_wf: "entry_wf sample_entry"
  by (simp add: entry_wf_def sample_entry_def json_ok_obj str_ok_ascii ascii_def)

theorem device_list_roundtrip_witness:
  "\<exists>b. seal_device_list toy (replicate 12 0) (dl_create toy sample_identity [sample_entry] 5) = Inr b
    \<and> open_device_list toy (RawBytes b) (ed_public_bytes toy sample_identity) (x_public_bytes toy sample_identity)
      = Inr (dl_create toy sample_identity [sample_entry] 5)"
  using device_list_roundtrip [OF toy_ok(1,2) toy_tagged toy_ok(4) sample_identity_wf, of "replicate 12 0" "[sample_entry]" 5] sample_entry_wf
  by auto

lemma sample_list_read:
  "dl_from_bytes toy (dl_to_bytes toy (dl_create toy sample_identity [sample_entry] 5)) = Inr (dl_create toy sample_identity [sample_entry] 5)"
  by (rule dl_bytes_roundtrip [OF toy_ok(4) sample_identity_wf]) (simp_all add: sample_entry_wf)

theorem device_list_authentic_witness:
  "\<exists>v. open_device_list toy (RawBytes v) [] [] = Inr (dl_create toy sample_identity [sample_entry] 5)
   \<and> dl_devices (dl_create toy sample_identity [sample_entry] 5) \<noteq> []"
proof -
  let ?l = "dl_create toy sample_identity [sample_entry] 5"
  have ok: "json_ok (JObj (dl_payload toy ?l))" by (rule json_ok_dl_payload) (simp_all add: dl_create_fields sample_entry_wf)
  obtain d where d: "loads_bytes (dl_to_bytes toy ?l) = Inr (JObj d)"
      "\<And>k. map_of d k = (if k = ''sig'' then Some (JStr (b64e (dl_signature ?l))) else map_option jsort (map_of (dl_payload toy ?l) k))"
    by (rule list_record.loads_signed [OF ok, of "dl_signature ?l", folded dl_to_bytes_def]) (rule that)
  have "unsealed (JObj d)" by (simp add: unsealed_def d(2) dl_payload_def)
  then have o: "open_device_list toy (RawBytes (dl_to_bytes toy ?l)) [] [] = Inr ?l"
    using sample_list_read by (simp add: open_device_list_def parse_record_loads [OF d(1)] dl_from_bytes_def)
  have w: "jwf (JObj (dl_payload toy ?l))" using ok by (simp only: json_ok_def)
  show ?thesis using device_list_authentic [OF o refl w w, of "[]"] o by blast
qed

theorem device_keys_roundtrip_witness:
  "\<exists>b d. seal_payload toy (replicate 12 0) (ed_public_bytes toy sample_identity) (x_public_bytes toy sample_identity)
        (dk_address toy (dk_create toy sample_identity ''d1'' (replicate 32 1) (replicate 32 2)))
        (dk_to_bytes toy (dk_create toy sample_identity ''d1'' (replicate 32 1) (replicate 32 2))) = Inr b
    \<and> open_signed_payload toy (RawBytes b) (ed_public_bytes toy sample_identity) (x_public_bytes toy sample_identity) = Inr d
    \<and> dk_from_value toy (JObj d) = Inr (dk_create toy sample_identity ''d1'' (replicate 32 1) (replicate 32 2))"
proof -
  have "str_ok ''d1''" by (simp add: str_ok_ascii ascii_def)
  from device_keys_roundtrip [OF toy_ok(1,2) toy_tagged toy_ok(4) sample_identity_wf length_replicate [of 12 0]
      length_replicate [of 32 1] length_replicate [of 32 2] this]
  show ?thesis by blast
qed

end
