(* ===== verification/DeviceChannel.thy ===== *)
theory DeviceChannel
  imports Devices
begin

section \<open>The device-to-device channel\<close>

text \<open>
  \<^verbatim>\<open>core/device_channel.py\<close>: records that one device of an account seals for another, and the running digest of
  a transfer.  The ephemeral key, the nonce and the clock are arguments.  The theorems: a record that a device
  seals opens at the device it is for; a record that opens was signed by the device it is attributed to; the
  kind of a record is not covered by the signature; a digest resumes from its stored form.
\<close>

definition MAGIC :: bytes where "MAGIC = str_encode ''NKS1''"
definition VERSION :: byte where "VERSION = 1"
definition PREFIX_BYTES :: nat where "PREFIX_BYTES = 12"
definition REQUEST :: byte where "REQUEST = 1"
definition OFFER :: byte where "OFFER = 2"
definition ITEM :: byte where "ITEM = 3"
definition COMPLETE :: byte where "COMPLETE = 4"
definition APPROVAL :: byte where "APPROVAL = 5"
definition MIRROR :: byte where "MIRROR = 6"

definition is_device_record :: "bytes \<Rightarrow> bool" where
  "is_device_record blob \<longleftrightarrow> length blob \<ge> PREFIX_BYTES \<and> take 4 blob = MAGIC"

definition frame :: "byte \<Rightarrow> dict \<Rightarrow> bytes \<Rightarrow> bytes res" where
  "frame kind header payload =
     (let hb = canonical_json (JObj header) in
      bindE (to_bytes4 (int (length hb))) (\<lambda>n. Inr (MAGIC @ [VERSION, kind] @ [0, 0] @ n @ hb @ payload)))"

definition parse_record :: "bytes \<Rightarrow> (byte \<times> dict \<times> bytes) res" where
  "parse_record blob =
     (if \<not> is_device_record blob then Inl SyncError
      else if blob ! 4 \<noteq> VERSION then Inl SyncError
      else let kind = blob ! 5; header_len = from_bytes (take 4 (drop 8 blob)) in
        if header_len \<le> 0 \<or> int (length blob) < int PREFIX_BYTES + header_len then Inl SyncError
        else bindE (rethrow is_value_error SyncError (loads_bytes (take (nat header_len) (drop PREFIX_BYTES blob)))) (\<lambda>v.
          case v of JObj h \<Rightarrow> Inr (kind, h, drop (PREFIX_BYTES + nat header_len) blob) | _ \<Rightarrow> Inl SyncError))"

definition transfer_key :: "crypto \<Rightarrow> bytes \<Rightarrow> string \<Rightarrow> bytes" where
  "transfer_key C shared transfer_id = hkdf C shared (str_encode transfer_id) DEVICE_SYNC_INFO 32"

definition item_key :: "crypto \<Rightarrow> bytes \<Rightarrow> int \<Rightarrow> bytes res" where
  "item_key C key seq = bindE (to_bytes4 seq) (\<lambda>n. Inr (hkdf C key [] (DEVICE_SYNC_ITEM_INFO @ n) 32))"

text \<open>\<open>d.update(extra)\<close> and the header without its signature.\<close>

definition dict_update :: "dict \<Rightarrow> dict \<Rightarrow> dict" where
  "dict_update d extra = foldl (\<lambda>d kv. AList.update (fst kv) (snd kv) d) d extra"

definition unsigned_header :: "dict \<Rightarrow> dict" where
  "unsigned_header h = filter (\<lambda>kv. fst kv \<noteq> ''sig'') h"

definition record_header :: "crypto \<Rightarrow> bytes \<Rightarrow> int \<Rightarrow> string \<Rightarrow> string \<Rightarrow> int \<Rightarrow> dict \<Rightarrow> dict res" where
  "record_header C eph now transfer_id sender_device_id seq extra =
     bindE (agreement_public C eph) (\<lambda>pub.
     Inr (dict_update [(''v'', JInt (uint VERSION)), (''transfer'', JStr transfer_id), (''from'', JStr sender_device_id),
            (''eph'', JStr (b64e pub)), (''ts'', JInt now), (''seq'', JInt seq)] extra))"

definition seal_record ::
  "crypto \<Rightarrow> bytes \<Rightarrow> bytes \<Rightarrow> int \<Rightarrow> byte \<Rightarrow> bytes \<Rightarrow> bytes \<Rightarrow> string \<Rightarrow> bytes \<Rightarrow> string \<Rightarrow> int \<Rightarrow> dict \<Rightarrow> bytes res" where
  "seal_record C eph nonce now kind plaintext recipient_sagree sender_device_id sender_sdev_private transfer_id seq extra =
     bindE (agreement C eph recipient_sagree) (\<lambda>shared.
     let key = transfer_key C shared transfer_id in
     bindE (record_header C eph now transfer_id sender_device_id seq extra) (\<lambda>h0.
     bindE (device_sign C sender_sdev_private (canonical_json (JObj (unsigned_header h0)))) (\<lambda>sg.
     let header = AList.update ''sig'' (JStr (b64e sg)) h0 in
     bindE (item_key C key seq) (\<lambda>ik.
     bindE (aead_encrypt C nonce ik plaintext (canonical_json (JObj header))) (\<lambda>(n, ct).
     frame kind header (n @ ct))))))"

definition open_record :: "crypto \<Rightarrow> bytes \<Rightarrow> bytes \<Rightarrow> bytes \<Rightarrow> string \<Rightarrow> (byte \<times> dict \<times> bytes) res" where
  "open_record C blob my_sagree_private sender_sdev sender_device_id =
     bindE (parse_record blob) (\<lambda>(kind, header, payload).
     if py_str (get_or header ''from'' JNull) \<noteq> sender_device_id then Inl SyncError
     else bindE (rethrow is_shape_error SyncError
            (bindE (bindE (getitem (JObj header) ''sig'') b64d_str) (\<lambda>sg.
             bindE (bindE (getitem (JObj header) ''eph'') b64d_str) (\<lambda>eph.
             bindE (getitem (JObj header) ''transfer'') (\<lambda>tr.
             bindE (if truthy_opt (map_of header ''seq'') then py_int (get_or header ''seq'' JNull) else Inr 0) (\<lambda>seq.
             Inr (sg, eph, py_str tr, seq))))))) (\<lambda>(sg, eph, transfer_id, seq).
       if \<not> device_verify C sender_sdev sg (canonical_json (JObj (unsigned_header header))) then Inl SyncError
       else bindE (agreement C my_sagree_private eph) (\<lambda>shared.
         if length payload \<le> 12 then Inl SyncError
         else bindE (item_key C (transfer_key C shared transfer_id) seq) (\<lambda>ik.
           bindE (rethrow (\<lambda>e. e = AEADError) SyncError
                    (aead_decrypt C ik (take 12 payload) (drop 12 payload) (canonical_json (JObj header)))) (\<lambda>plaintext.
           Inr (kind, header, plaintext))))))"

subsection \<open>The running digest\<close>

definition hex_blank :: "char \<Rightarrow> bool" where
  "hex_blank c \<longleftrightarrow> (let n = (of_char c :: nat) in 9 \<le> n \<and> n \<le> 13 \<or> n = 32)"

text \<open>\<open>bytes.fromhex\<close>: pairs of hexadecimal digits, blanks between them ignored.\<close>

fun fromhex :: "string \<Rightarrow> bytes res" where
  "fromhex [] = Inr []"
| "fromhex (a # cs) =
     (if hex_blank a then fromhex cs
      else case cs of [] \<Rightarrow> Inl ValueError
        | b # rest \<Rightarrow> (case (hex_val a, hex_val b) of
            (Some x, Some y) \<Rightarrow> bindE (fromhex rest) (\<lambda>bs. Inr (word_of_nat (16 * x + y) # bs))
          | _ \<Rightarrow> Inl ValueError))"

definition chain_start :: "crypto \<Rightarrow> string \<Rightarrow> string \<Rightarrow> bytes res" where
  "chain_start C seed resumed = (if resumed \<noteq> [] then fromhex resumed else Inr (sha256 C (str_encode seed)))"

definition chain_add :: "crypto \<Rightarrow> bytes \<Rightarrow> int \<Rightarrow> bytes \<Rightarrow> bytes res" where
  "chain_add C item seq digest = bindE (to_bytes4 seq) (\<lambda>n. Inr (sha256 C (digest @ n @ item)))"

subsection \<open>Framing\<close>

lemma length_MAGIC: "length MAGIC = 4"
  by (simp add: MAGIC_def)

lemma parse_frame:
  assumes "frame kind header payload = Inr blob" "json_ok (JObj header)"
  obtains h where "parse_record blob = Inr (kind, h, payload)" "JObj h = jsort (JObj header)"
proof -
  let ?hb = "canonical_json (JObj header)"
  obtain n where n: "to_bytes4 (int (length ?hb)) = Inr n" and b: "blob = MAGIC @ [VERSION, kind] @ [0, 0] @ n @ ?hb @ payload"
    using assms(1) by (auto simp: frame_def Let_def res_simps)
  have l: "length n = 4" "from_bytes n = int (length ?hb)" using length_to_bytes4 [OF n] from_to_bytes4 [OF n] by auto
  have h0: "0 < length ?hb" using canonical_object_head [of header] by auto
  obtain h where h: "jsort (JObj header) = JObj h" by (simp add: jsort_obj)
  have "loads_bytes ?hb = Inr (JObj h)" using loads_canonical_json [OF assms(2)] h by simp
  moreover have "take 4 (drop 8 blob) = n" "blob ! 4 = VERSION" "blob ! 5 = kind" "take 4 blob = MAGIC"
      "drop PREFIX_BYTES blob = ?hb @ payload" "length blob = PREFIX_BYTES + length ?hb + length payload"
    using l(1) by (simp_all add: b length_MAGIC nth_append PREFIX_BYTES_def drop_Cons' take_Cons')
  moreover from this(5) have "drop (PREFIX_BYTES + length ?hb) blob = payload"
    by (metis append_eq_conv_conj drop_drop add.commute)
  ultimately have "parse_record blob = Inr (kind, h, payload)"
    using l(2) h0 by (simp add: parse_record_def is_device_record_def Let_def)
  then show ?thesis using that h by simp
qed

lemma unsigned_jsort:
  assumes "JObj h = jsort (JObj header)"
  shows "canonical_json (JObj (unsigned_header h)) = canonical_json (JObj (unsigned_header header))"
proof -
  have "h = map (\<lambda>kv. (fst kv, jsort (snd kv))) (sort_key fst header)" using assms unfolding jsort_obj by simp
  then have "unsigned_header h = map (\<lambda>kv. (fst kv, jsort (snd kv))) (sort_key fst (unsigned_header header))"
    by (simp add: unsigned_header_def filter_map o_def filter_sort)
  then have "JObj (unsigned_header h) = jsort (JObj (unsigned_header header))" unfolding jsort_obj by simp
  then show ?thesis by (simp only: canonical_json_jsort)
qed

lemma update_new_key: "k \<notin> fst ` set d \<Longrightarrow> AList.update k v d = d @ [(k, v)]"
  by (induction d) auto

lemma dict_update_new:
  "distinct (map fst extra) \<Longrightarrow> fst ` set extra \<inter> fst ` set d = {} \<Longrightarrow> dict_update d extra = d @ extra"
proof (induction extra arbitrary: d)
  case (Cons kv extra)
  have "AList.update (fst kv) (snd kv) d = d @ [kv]" using Cons.prems by (simp add: update_new_key)
  then show ?case using Cons.IH [of "d @ [kv]"] Cons.prems by (auto simp: dict_update_def)
qed (simp add: dict_update_def)

subsection \<open>A record reaches its device\<close>

definition base_header :: "crypto \<Rightarrow> bytes \<Rightarrow> int \<Rightarrow> string \<Rightarrow> string \<Rightarrow> int \<Rightarrow> dict" where
  "base_header C eph now transfer_id sender_device_id seq =
     [(''v'', JInt 1), (''transfer'', JStr transfer_id), (''from'', JStr sender_device_id),
      (''eph'', JStr (b64e (x25519_public C eph))), (''ts'', JInt now), (''seq'', JInt seq)]"

definition sent_header :: "crypto \<Rightarrow> bytes \<Rightarrow> int \<Rightarrow> string \<Rightarrow> string \<Rightarrow> bytes \<Rightarrow> int \<Rightarrow> dict \<Rightarrow> dict" where
  "sent_header C eph now transfer_id sender_device_id sdev seq extra =
     (let h = base_header C eph now transfer_id sender_device_id seq @ extra in
      h @ [(''sig'', JStr (b64e (ed25519_sign C sdev (canonical_json (JObj h)))))])"

definition extra_ok :: "dict \<Rightarrow> bool" where
  "extra_ok extra \<longleftrightarrow> json_ok (JObj extra)
     \<and> fst ` set extra \<inter> {''v'', ''transfer'', ''from'', ''eph'', ''ts'', ''seq'', ''sig''} = {}"

lemma sent_header_ok:
  assumes "extra_ok extra" "str_ok tid" "str_ok dev"
  shows "json_ok (JObj (sent_header C eph now tid dev sdev seq extra))"
    "unsigned_header (sent_header C eph now tid dev sdev seq extra) = base_header C eph now tid dev seq @ extra"
    "map_of (sent_header C eph now tid dev sdev seq extra) ''sig''
       = Some (JStr (b64e (ed25519_sign C sdev (canonical_json (JObj (base_header C eph now tid dev seq @ extra))))))"
    "map_of (sent_header C eph now tid dev sdev seq extra) ''eph'' = Some (JStr (b64e (x25519_public C eph)))"
    "map_of (sent_header C eph now tid dev sdev seq extra) ''from'' = Some (JStr dev)"
    "map_of (sent_header C eph now tid dev sdev seq extra) ''transfer'' = Some (JStr tid)"
    "map_of (sent_header C eph now tid dev sdev seq extra) ''seq'' = Some (JInt seq)"
proof -
  have e: "json_ok (JObj extra)" "''sig'' \<notin> fst ` set extra" "fst ` set extra \<inter> {''v'', ''transfer'', ''from'', ''eph'', ''ts'', ''seq''} = {}"
    using assms(1) by (auto simp: extra_ok_def)
  show "json_ok (JObj (sent_header C eph now tid dev sdev seq extra))"
    using e assms(2,3) by (auto simp: sent_header_def Let_def base_header_def json_ok_obj str_ok_ascii ascii_def)
  have "filter (\<lambda>kv. fst kv \<noteq> ''sig'') extra = extra" using e(2) by (intro filter_True) force
  then show "unsigned_header (sent_header C eph now tid dev sdev seq extra) = base_header C eph now tid dev seq @ extra"
    by (simp add: unsigned_header_def sent_header_def Let_def base_header_def)
  have "map_of extra ''sig'' = None" using e(2) by (simp add: map_of_eq_None_iff)
  then show "map_of (sent_header C eph now tid dev sdev seq extra) ''sig''
       = Some (JStr (b64e (ed25519_sign C sdev (canonical_json (JObj (base_header C eph now tid dev seq @ extra))))))"
    by (simp add: sent_header_def Let_def base_header_def map_add_def)
qed (simp_all add: sent_header_def Let_def base_header_def)

lemma agreement_symmetric:
  assumes "dh_correct C" "length a = 32" "length b = 32" "agreement C a (x25519_public C b) = Inr s"
  shows "agreement C b (x25519_public C a) = Inr s"
proof -
  obtain t where "x25519_exchange C a (x25519_public C b) = Inr t" "x25519_exchange C b (x25519_public C a) = Inr t"
    using assms(1-3) unfolding dh_correct_def by blast
  then show ?thesis using assms by (auto simp: agreement_def dh_correct_def split: if_splits)
qed

lemma seal_record_eq:
  assumes "hash_lengths C" "length eph = 32" "length sdev = 32" "agreement C eph sagree = Inr shared" "extra_ok extra"
    and "to_bytes4 seq = Inr nb"
  shows "seal_record C eph nonce now kind pt sagree dev sdev tid seq extra
    = (let h = sent_header C eph now tid dev sdev seq extra;
           ik = hkdf C (transfer_key C shared tid) [] (DEVICE_SYNC_ITEM_INFO @ nb) 32 in
       frame kind h (nonce @ chacha_seal C ik nonce pt (canonical_json (JObj h))))"
proof -
  let ?b = "base_header C eph now tid dev seq"
  have d: "distinct (map fst extra)" "fst ` set extra \<inter> fst ` set ?b = {}" "''sig'' \<notin> fst ` set extra"
    using assms(5) by (auto simp: extra_ok_def json_ok_obj base_header_def)
  have r: "record_header C eph now tid dev seq extra = Inr (?b @ extra)"
    using dict_update_new [OF d(1,2)] assms(2)
    by (simp add: record_header_def agreement_public_def VERSION_def base_header_def)
  have u: "unsigned_header (?b @ extra) = ?b @ extra"
    using d(3) by (force simp: unsigned_header_def base_header_def filter_id_conv)
  have "''sig'' \<notin> fst ` set (?b @ extra)" using d(3) by (auto simp: base_header_def)
  then have "AList.update ''sig'' v (?b @ extra) = ?b @ extra @ [(''sig'', v)]" for v
    using update_new_key [of "''sig''" "?b @ extra"] by simp
  then show ?thesis
    using assms(1,3,4,6) r u
    by (simp add: seal_record_def Let_def device_sign_def item_key_def aead_encrypt_Inr hkdf_def hash_lengths_def sent_header_def)
qed

lemma record_opens:
  assumes "hash_lengths C" "aead_correct C" "aead_tagged C" "dh_correct C" "sign_correct C"
    and "length nonce = 12" "length eph = 32" "length own = 32" "length sdev = 32"
    and "agreement C eph (x25519_public C own) = Inr shared" "0 \<le> seq" "seq < 4294967296"
    and "extra_ok extra" "str_ok tid" "str_ok dev"
    and "int (length (canonical_json (JObj (sent_header C eph now tid dev sdev seq extra)))) < 4294967296"
  shows "\<exists>blob h. seal_record C eph nonce now kind pt (x25519_public C own) dev sdev tid seq extra = Inr blob
    \<and> is_device_record blob \<and> JObj h = jsort (JObj (sent_header C eph now tid dev sdev seq extra))
    \<and> open_record C blob own (ed25519_public C sdev) dev = Inr (kind, h, pt)"
proof -
  let ?H = "sent_header C eph now tid dev sdev seq extra"
  obtain nb where nb: "to_bytes4 seq = Inr nb" using to_bytes4_ok assms(11,12) by blast
  define ik where "ik = hkdf C (transfer_key C shared tid) [] (DEVICE_SYNC_ITEM_INFO @ nb) 32"
  define ct where "ct = chacha_seal C ik nonce pt (canonical_json (JObj ?H))"
  have s: "seal_record C eph nonce now kind pt (x25519_public C own) dev sdev tid seq extra = frame kind ?H (nonce @ ct)"
    using seal_record_eq [OF assms(1,7,9,10,13) nb] by (simp add: ct_def ik_def Let_def)
  obtain lb where "to_bytes4 (int (length (canonical_json (JObj ?H)))) = Inr lb" using to_bytes4_ok assms(16) by fastforce
  then obtain blob where f: "frame kind ?H (nonce @ ct) = Inr blob" by (simp add: frame_def)
  note H = sent_header_ok [OF assms(13-15), of C eph now sdev seq]
  obtain h where h: "parse_record blob = Inr (kind, h, nonce @ ct)" "JObj h = jsort (JObj ?H)"
    by (rule parse_frame [OF f H(1)])
  have dis: "distinct (map fst ?H)" using H(1) by (simp only: json_ok_obj)
  have m: "map_of h k = map_option jsort (map_of ?H k)" for k
    using map_of_jsort [OF dis, of jsort] h(2) unfolding jsort_obj by simp
  have mh: "map_of h ''sig'' = Some (JStr (b64e (ed25519_sign C sdev (canonical_json (JObj (base_header C eph now tid dev seq @ extra))))))"
      "map_of h ''eph'' = Some (JStr (b64e (x25519_public C eph)))" "map_of h ''transfer'' = Some (JStr tid)"
      "get_or h ''from'' JNull = JStr dev"
      "(if truthy_opt (map_of h ''seq'') then py_int (get_or h ''seq'' JNull) else Inr 0) = Inr seq"
    by (simp_all add: m H(3-7) get_or_def truthy_opt_def)
  have "canonical_json (JObj h) = canonical_json (JObj ?H)" using h(2) by (simp only: canonical_json_jsort)
  moreover have "canonical_json (JObj (unsigned_header h)) = canonical_json (JObj (base_header C eph now tid dev seq @ extra))"
    using unsigned_jsort [OF h(2)] H(2) by simp
  moreover have "device_verify C (ed25519_public C sdev) (ed25519_sign C sdev m) m" for m
    using assms(5,9) by (simp add: device_verify_def sign_correct_def)
  moreover have "agreement C own (x25519_public C eph) = Inr shared" by (rule agreement_symmetric [OF assms(4,7,8,10)])
  moreover have "0 < length ct" using assms(3) unfolding ct_def aead_tagged_def by (metis gr_zeroI not_less_zero)
  moreover have "aead_decrypt C ik nonce ct (canonical_json (JObj ?H)) = Inr pt"
    using assms(1,2,6) by (simp add: aead_decrypt_def aead_correct_def ct_def ik_def hkdf_def hash_lengths_def)
  ultimately have "open_record C blob own (ed25519_public C sdev) dev = Inr (kind, h, pt)"
    using h(1) assms(6) nb
    by (simp add: open_record_def mh b64d_str_def item_key_def ik_def)
  moreover have "is_device_record blob" using h(1) by (auto simp: parse_record_def split: if_splits)
  ultimately show ?thesis using s f h(2) by auto
qed

text \<open>A record reaches its device.  A record that one device seals for another, of any kind and with any
  further fields in its header, has the form of a device record, and the recipient opens it, with the sender's
  published signing key, to the same kind, header and contents.\<close>

theorem device_record_opens:
  assumes "hash_lengths C" "aead_correct C" "aead_tagged C" "dh_correct C" "sign_correct C"
    and "length nonce = 12" "length eph = 32" "length own = 32" "length sdev = 32"
    and "agreement C eph (x25519_public C own) = Inr shared" "0 \<le> seq" "seq < 4294967296"
    and "extra_ok extra" "str_ok tid" "str_ok dev"
    and "int (length (canonical_json (JObj (sent_header C eph now tid dev sdev seq extra)))) < 4294967296"
  shows "\<exists>blob h. seal_record C eph nonce now kind pt (x25519_public C own) dev sdev tid seq extra = Inr blob
    \<and> is_device_record blob \<and> JObj h = jsort (JObj (sent_header C eph now tid dev sdev seq extra))
    \<and> open_record C blob own (ed25519_public C sdev) dev = Inr (kind, h, pt)"
  using assms by (rule record_opens)

text \<open>C31: a record that opens was sent by the device it is attributed to: its header names that device and carries a
  signature of the header by the key it was checked against.  The header, but not the kind of the record, is
  covered: whoever changes the kind byte on the way changes what the recipient takes the record for, and
  nothing else.\<close>

theorem device_record_authentic:
  assumes "open_record C blob own sdev_public dev = Inr (kind, h, pt)"
  shows "py_str (get_or h ''from'' JNull) = dev
    \<and> (\<exists>sg. bindE (getitem (JObj h) ''sig'') b64d_str = Inr sg
          \<and> device_verify C sdev_public sg (canonical_json (JObj (unsigned_header h))))
    \<and> open_record C (blob[5 := kind']) own sdev_public dev = Inr (kind', h, pt)"
proof -
  obtain pl where p: "parse_record blob = Inr (kind, h, pl)" and f: "py_str (get_or h ''from'' JNull) = dev"
      and v: "\<exists>sg. bindE (getitem (JObj h) ''sig'') b64d_str = Inr sg
          \<and> device_verify C sdev_public sg (canonical_json (JObj (unsigned_header h)))"
    using assms by (auto simp: open_record_def res_simps split: if_splits)
  have l: "12 \<le> length blob" using p by (auto simp: parse_record_def is_device_record_def PREFIX_BYTES_def split: if_splits)
  have "take 4 (blob[5 := kind']) = take 4 blob" "blob[5 := kind'] ! 4 = blob ! 4" "blob[5 := kind'] ! 5 = kind'"
      "drop n (blob[5 := kind']) = drop n blob" if "6 \<le> n" for n
    using l that by (simp_all add: take_update_cancel drop_update_cancel)
  note u = this(1-3) [of 6, simplified] and ud = this(4)
  have "parse_record (blob[5 := kind']) = Inr (kind', h, pl)"
    using p l u ud [of 8] ud [of PREFIX_BYTES] ud [of "PREFIX_BYTES + nat (from_bytes (take 4 (drop 8 blob)))"]
    by (auto simp: parse_record_def is_device_record_def Let_def PREFIX_BYTES_def res_simps split: if_splits json.splits)
  then have "open_record C (blob[5 := kind']) own sdev_public dev = Inr (kind', h, pt)"
    using assms p f by (auto simp: open_record_def res_simps split: if_splits)
  then show ?thesis using f v by blast
qed

subsection \<open>The digest resumes\<close>

lemma hex_table: "n < 16 \<Longrightarrow> hex_val (hex_char n) = Some n \<and> \<not> hex_blank (hex_char n)"
proof -
  have "list_all (\<lambda>n. hex_val (hex_char n) = Some n \<and> \<not> hex_blank (hex_char n)) [0..<16]"
    by (simp add: hex_val_def hex_char_def hex_blank_def upt_conv_Cons)
  then show "n < 16 \<Longrightarrow> hex_val (hex_char n) = Some n \<and> \<not> hex_blank (hex_char n)" by (simp add: list_all_iff)
qed

lemma fromhex_hexdigest: "fromhex (hexdigest bs) = Inr bs"
proof (induction bs)
  case (Cons b bs)
  have "unat b div 16 < 16" "unat b mod 16 < 16" using unat_byte_less [of b] by auto
  then show ?case using Cons hex_table [of "unat b div 16"] hex_table [of "unat b mod 16"] by (simp add: hexdigest_def)
qed (simp add: hexdigest_def)

lemma chain_resumes: "digest \<noteq> [] \<Longrightarrow> chain_start C seed (hexdigest digest) = Inr digest"
  by (cases digest) (auto simp: chain_start_def fromhex_hexdigest, simp add: hexdigest_def)

subsection \<open>Concrete inputs\<close>

definition own_key :: bytes where "own_key = replicate 32 2"
definition eph_key :: bytes where "eph_key = replicate 32 3"

lemma sample_agreement: "agreement toy eph_key (x25519_public toy own_key) = Inr (replicate 32 5)"
  by (simp add: agreement_def toy_def own_key_def eph_key_def map_replicate_const) (auto simp: list_eq_iff_nth_eq intro: exI [of _ 0])

lemma sample_record_opens:
  "\<exists>blob h. seal_record toy eph_key (replicate 12 0) 7 ITEM [1, 2] (x25519_public toy own_key) ''d1'' (replicate 32 4) ''t'' 0 [] = Inr blob
    \<and> is_device_record blob \<and> JObj h = jsort (JObj (sent_header toy eph_key 7 ''t'' ''d1'' (replicate 32 4) 0 []))
    \<and> open_record toy blob own_key (ed25519_public toy (replicate 32 4)) ''d1'' = Inr (ITEM, h, [1, 2])"
proof -
  have "int (length (canonical_json (JObj (sent_header toy eph_key 7 ''t'' ''d1'' (replicate 32 4) 0 [])))) < 4294967296" by code_simp
  moreover have "extra_ok []" "str_ok ''t''" "str_ok ''d1''" by (simp_all add: extra_ok_def json_ok_obj str_ok_ascii ascii_def)
  ultimately show ?thesis
    using record_opens [OF toy_ok(1,2) toy_tagged toy_ok(3,4) _ _ _ _ sample_agreement, of "replicate 12 0" "replicate 32 4" 0 "[]" "''t''" "''d1''" 7 ITEM "[1, 2]"]
    by (simp add: own_key_def eph_key_def)
qed

theorem device_record_opens_witness:
  "\<exists>blob h. seal_record toy eph_key (replicate 12 0) 7 ITEM [1, 2] (x25519_public toy own_key) ''d1'' (replicate 32 4) ''t'' 0 [] = Inr blob
    \<and> open_record toy blob own_key (ed25519_public toy (replicate 32 4)) ''d1'' = Inr (ITEM, h, [1, 2])"
proof -
  have "int (length (canonical_json (JObj (sent_header toy eph_key 7 ''t'' ''d1'' (replicate 32 4) 0 [])))) < 4294967296" by code_simp
  moreover have "extra_ok []" "str_ok ''t''" "str_ok ''d1''" by (simp_all add: extra_ok_def json_ok_obj str_ok_ascii ascii_def)
  ultimately show ?thesis
    using device_record_opens [OF toy_ok(1,2) toy_tagged toy_ok(3,4) _ _ _ _ sample_agreement, of "replicate 12 0" "replicate 32 4" 0 "[]" "''t''" "''d1''" 7 ITEM "[1, 2]"]
    by (auto simp: own_key_def eph_key_def)
qed

theorem device_record_authentic_witness:
  "\<exists>blob h. open_record toy blob own_key (ed25519_public toy (replicate 32 4)) ''d1'' = Inr (ITEM, h, [1, 2])
    \<and> open_record toy (blob[5 := MIRROR]) own_key (ed25519_public toy (replicate 32 4)) ''d1'' = Inr (MIRROR, h, [1, 2])"
proof -
  obtain blob h where o: "open_record toy blob own_key (ed25519_public toy (replicate 32 4)) ''d1'' = Inr (ITEM, h, [1, 2])"
    using sample_record_opens by blast
  show ?thesis using o device_record_authentic [OF o, of MIRROR] by blast
qed

end
