(* ===== verification/Store.thy ===== *)
theory Store
  imports Json
begin

section \<open>The client's local store\<close>

text \<open>
  \<^verbatim>\<open>core/store.py\<close>, class \<open>LocalStore\<close>.  A table is the list of its rows in insertion order; each method is one or
  more statements on a connection in autocommit mode, and every statement that can fail is the last one to write.
  Columns that hold a sealed or printed document (\<open>body_enc\<close>, \<open>inbox_json\<close> and the like) are modelled by the
  document: \<open>_seal\<close> and \<open>_open\<close> are the authenticated encryption of \<^verbatim>\<open>crypto/aead.py\<close> around \<open>json.dumps\<close> and
  \<open>json.loads\<close>.  The clock is an argument.  Where the key comes from (keyring or key file) is not modelled.

  An upsert is the same operation on every table; a locale proves once what follows for a table with a key.
  The theorems: in every reachable state keys are unique and the attachment cache is within its cap; cursors
  never move back; clearing the outbox for a message removes the rows of that message and no others.
\<close>

subsection \<open>Upserts\<close>

definition upsert :: "('r \<Rightarrow> 'k) \<Rightarrow> ('r \<Rightarrow> 'r \<Rightarrow> 'r) \<Rightarrow> 'r \<Rightarrow> 'r list \<Rightarrow> 'r list" where
  "upsert key merge r rows =
     (if list_ex (\<lambda>x. key x = key r) rows then map (\<lambda>x. if key x = key r then merge x r else x) rows else rows @ [r])"

definition lookup :: "('r \<Rightarrow> 'k) \<Rightarrow> 'k \<Rightarrow> 'r list \<Rightarrow> 'r option" where
  "lookup key k rows = find (\<lambda>x. key x = k) rows"

text \<open>A value bound to a \<open>TEXT\<close> column; \<open>NULL\<close> is kept as \<open>JNull\<close>.\<close>

definition col_text :: "json \<Rightarrow> json res" where
  "col_text v = bindE (sql_text v) (\<lambda>t. Inr (case t of None \<Rightarrow> JNull | Some s \<Rightarrow> JStr s))"

subsection \<open>Rows\<close>

record identity_row =
  ir_id :: string
  ir_label :: json
  ir_vault_path :: string
  ir_created_at :: int

record contact =
  ct_identity :: string
  ct_id :: string
  ct_nickname :: json
  ct_isign :: bytes
  ct_idh :: bytes
  ct_bundle_id :: json
  ct_inbox :: json
  ct_relays :: json
  ct_session :: json
  ct_verified :: bool
  ct_created_at :: int

record message =
  msg_id :: string
  msg_identity :: string
  msg_contact :: json
  msg_direction :: json
  msg_type :: json
  msg_body :: json
  msg_remote_id :: json
  msg_ts :: int
  msg_state :: json
  msg_meta :: json

record outbox_row =
  ob_id :: string
  ob_identity :: string
  ob_contact :: string
  ob_mailbox :: string
  ob_relay :: json
  ob_payload :: json
  ob_seq :: "int option"
  ob_created_at :: int

record cursor_row =
  cu_identity :: string
  cu_mailbox :: string
  cu_relay :: string
  cu_seq :: int

record state_row =
  kv_identity :: string
  kv_key :: string
  kv_value :: json

record local_blob =
  lb_id :: string
  lb_ciphertext :: bytes
  lb_size :: int
  lb_created_at :: int

record store =
  s_identities :: "identity_row list"
  s_contacts :: "contact list"
  s_messages :: "message list"
  s_prekeys :: "(string \<times> json) list"
  s_outbox :: "outbox_row list"
  s_cursors :: "cursor_row list"
  s_state :: "state_row list"
  s_blobs :: "local_blob list"

definition initialize :: store where
  "initialize = \<lparr>s_identities = [], s_contacts = [], s_messages = [], s_prekeys = [], s_outbox = [], s_cursors = [],
     s_state = [], s_blobs = []\<rparr>"

definition LOCAL_BLOB_CAP_BYTES :: int where "LOCAL_BLOB_CAP_BYTES = 2 * 1024 * 1024 * 1024"

subsection \<open>Identities and contacts\<close>

definition register_identity :: "int \<Rightarrow> string \<Rightarrow> json \<Rightarrow> string \<Rightarrow> (store, unit) meth" where
  "register_identity now iid lab path =
     bindS (liftS (col_text lab)) (\<lambda>l.
     modifyS (\<lambda>s. s\<lparr>s_identities := upsert ir_id (\<lambda>x r. x\<lparr>ir_label := ir_label r, ir_vault_path := ir_vault_path r\<rparr>)
       \<lparr>ir_id = iid, ir_label = l, ir_vault_path = path, ir_created_at = now\<rparr> (s_identities s)\<rparr>))"

definition list_identities :: "store \<Rightarrow> identity_row list" where
  "list_identities s = sort_key ir_created_at (s_identities s)"

definition contact_key :: "contact \<Rightarrow> string \<times> string" where
  "contact_key c = (ct_identity c, ct_id c)"

definition merge_contact_row :: "contact \<Rightarrow> contact \<Rightarrow> contact" where
  "merge_contact_row x r = r\<lparr>ct_identity := ct_identity x, ct_id := ct_id x, ct_created_at := ct_created_at x\<rparr>"

definition upsert_contact :: "int \<Rightarrow> string \<Rightarrow> contact \<Rightarrow> (store, unit) meth" where
  "upsert_contact now iid c =
     bindS (liftS (col_text (ct_nickname c))) (\<lambda>nick.
     bindS (liftS (col_text (ct_bundle_id c))) (\<lambda>bid.
     bindS (liftS (sql_int (if ct_created_at c = 0 then now else ct_created_at c))) (\<lambda>cr.
     modifyS (\<lambda>s. s\<lparr>s_contacts := upsert contact_key merge_contact_row
       (c\<lparr>ct_identity := iid, ct_nickname := nick, ct_bundle_id := bid,
          ct_relays := (if truthy (ct_relays c) then ct_relays c else JArr []), ct_created_at := cr\<rparr>) (s_contacts s)\<rparr>))))"

definition get_contact :: "string \<Rightarrow> string \<Rightarrow> store \<Rightarrow> contact option" where
  "get_contact iid cid s = lookup contact_key (iid, cid) (s_contacts s)"

definition list_contacts :: "string \<Rightarrow> store \<Rightarrow> contact list" where
  "list_contacts iid s = sort_key ct_created_at (filter (\<lambda>c. ct_identity c = iid) (s_contacts s))"

definition delete_contact :: "string \<Rightarrow> string \<Rightarrow> (store, unit) meth" where
  "delete_contact iid cid = modifyS (\<lambda>s. s\<lparr>s_contacts := filter (\<lambda>c. contact_key c \<noteq> (iid, cid)) (s_contacts s)\<rparr>)"

definition set_contact_session :: "string \<Rightarrow> string \<Rightarrow> json \<Rightarrow> (store, unit) meth" where
  "set_contact_session iid cid sess =
     modifyS (\<lambda>s. s\<lparr>s_contacts := map (\<lambda>c. if contact_key c = (iid, cid) then c\<lparr>ct_session := sess\<rparr> else c) (s_contacts s)\<rparr>)"

subsection \<open>Messages\<close>

definition merge_message_row :: "message \<Rightarrow> message \<Rightarrow> message" where
  "merge_message_row x r =
     x\<lparr>msg_body := msg_body r, msg_remote_id := msg_remote_id r, msg_state := msg_state r, msg_meta := msg_meta r\<rparr>"

text \<open>The parameters are bound in order, then the row is checked against \<open>NOT NULL\<close>.\<close>

definition not_null :: "message \<Rightarrow> bool" where
  "not_null m \<longleftrightarrow> msg_contact m \<noteq> JNull \<and> msg_direction m \<noteq> JNull \<and> msg_type m \<noteq> JNull"

definition message_columns :: "message \<Rightarrow> message res" where
  "message_columns m =
     bindE (col_text (msg_contact m)) (\<lambda>ct.
     bindE (col_text (msg_direction m)) (\<lambda>dir.
     bindE (col_text (msg_type m)) (\<lambda>ty.
     bindE (col_text (msg_remote_id m)) (\<lambda>rid.
     bindE (sql_int (msg_ts m)) (\<lambda>ts.
     bindE (col_text (msg_state m)) (\<lambda>st.
     let r = m\<lparr>msg_contact := ct, msg_direction := dir, msg_type := ty, msg_remote_id := rid, msg_ts := ts, msg_state := st\<rparr>
     in if not_null r then Inr r else Inl IntegrityError))))))"

definition add_message :: "message \<Rightarrow> (store, unit) meth" where
  "add_message m =
     bindS (liftS (message_columns m)) (\<lambda>r.
     modifyS (\<lambda>s. s\<lparr>s_messages := upsert msg_id merge_message_row r (s_messages s)\<rparr>))"

definition get_message :: "string \<Rightarrow> store \<Rightarrow> message option" where
  "get_message mid s = lookup msg_id mid (s_messages s)"

definition list_messages :: "string \<Rightarrow> string \<Rightarrow> store \<Rightarrow> message list" where
  "list_messages iid cid s =
     sort_key msg_ts (filter (\<lambda>m. msg_identity m = iid \<and> msg_contact m = JStr cid) (s_messages s))"

text \<open>\<open>LIMIT 1\<close> without an order: the first row in the order of the table.\<close>

definition find_by_remote_id :: "string \<Rightarrow> string \<Rightarrow> string option \<Rightarrow> store \<Rightarrow> message option" where
  "find_by_remote_id iid rid direction s =
     find (\<lambda>m. msg_identity m = iid \<and> msg_remote_id m = JStr rid
        \<and> (case direction of None \<Rightarrow> True | Some d \<Rightarrow> d = [] \<or> msg_direction m = JStr d)) (s_messages s)"

definition list_all_messages :: "string \<Rightarrow> store \<Rightarrow> message list" where
  "list_all_messages iid s =
     sort_key msg_ts (sort_key msg_id (filter (\<lambda>m. msg_identity m = iid) (s_messages s)))"

text \<open>The keyword arguments of \<open>update_message\<close>, one constructor per column that can be set.\<close>

datatype msg_field = FBody json | FMeta json | FState json | FRemoteId json | FDirection json | FType json | FTs int

fun field_update :: "msg_field \<Rightarrow> (message \<Rightarrow> message) res" where
  "field_update (FBody v) = Inr (\<lambda>m. m\<lparr>msg_body := v\<rparr>)"
| "field_update (FMeta v) = Inr (\<lambda>m. m\<lparr>msg_meta := v\<rparr>)"
| "field_update (FState v) = bindE (col_text v) (\<lambda>t. Inr (\<lambda>m. m\<lparr>msg_state := t\<rparr>))"
| "field_update (FRemoteId v) = bindE (col_text v) (\<lambda>t. Inr (\<lambda>m. m\<lparr>msg_remote_id := t\<rparr>))"
| "field_update (FDirection v) = bindE (col_text v) (\<lambda>t. Inr (\<lambda>m. m\<lparr>msg_direction := t\<rparr>))"
| "field_update (FType v) = bindE (col_text v) (\<lambda>t. Inr (\<lambda>m. m\<lparr>msg_type := t\<rparr>))"
| "field_update (FTs i) = bindE (sql_int i) (\<lambda>i. Inr (\<lambda>m. m\<lparr>msg_ts := i\<rparr>))"

definition update_message :: "string \<Rightarrow> msg_field list \<Rightarrow> (store, unit) meth" where
  "update_message mid fs =
     (if fs = [] then returnS ()
      else bindS (liftS (mapE field_update fs)) (\<lambda>us s.
        if list_ex (\<lambda>m. msg_id m = mid \<and> \<not> not_null (fold (\<lambda>u. u) us m)) (s_messages s) then (Inl IntegrityError, s)
        else (Inr (), s\<lparr>s_messages := map (\<lambda>m. if msg_id m = mid then fold (\<lambda>u. u) us m else m) (s_messages s)\<rparr>)))"

subsection \<open>Prekeys and outbox\<close>

definition save_prekeys :: "string \<Rightarrow> json \<Rightarrow> (store, unit) meth" where
  "save_prekeys iid data = modifyS (\<lambda>s. s\<lparr>s_prekeys := upsert fst (\<lambda>x r. r) (iid, data) (s_prekeys s)\<rparr>)"

definition load_prekeys :: "string \<Rightarrow> store \<Rightarrow> json option" where
  "load_prekeys iid s = map_option snd (lookup fst iid (s_prekeys s))"

definition outbox_add :: "int \<Rightarrow> outbox_row \<Rightarrow> (store, unit) meth" where
  "outbox_add now e =
     bindS (liftS (col_text (ob_relay e))) (\<lambda>rl.
     bindS (liftS (case ob_seq e of None \<Rightarrow> Inr None | Some i \<Rightarrow> bindE (sql_int i) (\<lambda>i. Inr (Some i)))) (\<lambda>sq.
     bindS (liftS (sql_int (if ob_created_at e = 0 then now else ob_created_at e))) (\<lambda>cr s.
     if list_ex (\<lambda>x. ob_id x = ob_id e) (s_outbox s) then (Inl IntegrityError, s)
     else (Inr (), s\<lparr>s_outbox := s_outbox s @ [e\<lparr>ob_relay := rl, ob_seq := sq, ob_created_at := cr\<rparr>]\<rparr>))))"

definition outbox_list :: "string \<Rightarrow> string option \<Rightarrow> store \<Rightarrow> outbox_row list" where
  "outbox_list iid cid s =
     sort_key ob_created_at (filter (\<lambda>x. ob_identity x = iid
        \<and> (case cid of None \<Rightarrow> True | Some c \<Rightarrow> c = [] \<or> ob_contact x = c)) (s_outbox s))"

definition outbox_remove :: "string \<Rightarrow> (store, unit) meth" where
  "outbox_remove eid = modifyS (\<lambda>s. s\<lparr>s_outbox := filter (\<lambda>x. ob_id x \<noteq> eid) (s_outbox s)\<rparr>)"

text \<open>SQLite's \<open>LIKE\<close> on the characters of pattern and text: \<open>%\<close> any characters, \<open>_\<close> one, letters of ASCII in either
  case.\<close>

definition fold_case :: "string \<Rightarrow> string" where
  "fold_case cs = map (\<lambda>c. if 65 \<le> (of_char c :: nat) \<and> of_char c \<le> (90 :: nat) then char_of (of_char c + 32 :: nat) else c) cs"

fun sql_like :: "string list \<Rightarrow> string list \<Rightarrow> bool" where
  "sql_like [] [] = True"
| "sql_like [] (_ # _) = False"
| "sql_like (p # ps) [] = (p = ''%'' \<and> sql_like ps [])"
| "sql_like (p # ps) (c # cs) =
     (if p = ''%'' then sql_like ps (c # cs) \<or> sql_like (p # ps) cs
      else (p = ''_'' \<or> fold_case p = fold_case c) \<and> sql_like ps cs)"

definition outbox_remove_for_message :: "string \<Rightarrow> (store, unit) meth" where
  "outbox_remove_for_message mid =
     modifyS (\<lambda>s. s\<lparr>s_outbox := filter (\<lambda>x. \<not> (ob_id x = mid \<or> sql_like (code_points (mid @ '':%'')) (code_points (ob_id x)))) (s_outbox s)\<rparr>)"

definition outbox_mark_sent :: "string \<Rightarrow> (store, unit) meth" where
  "outbox_mark_sent eid =
     modifyS (\<lambda>s. s\<lparr>s_outbox := map (\<lambda>x. if ob_id x = eid then x\<lparr>ob_seq := Some 1\<rparr> else x) (s_outbox s)\<rparr>)"

definition outbox_count :: "string \<Rightarrow> store \<Rightarrow> int" where
  "outbox_count iid s = int (length (filter (\<lambda>x. ob_identity x = iid) (s_outbox s)))"

subsection \<open>Attachment cache\<close>

definition blob_bytes :: "local_blob list \<Rightarrow> int" where
  "blob_bytes bs = sum_list (map lb_size bs)"

lemma oldest_in: "sort_key f bs = r # rs \<Longrightarrow> r \<in> set bs"
  by (metis list.set_intros(1) set_sort)

function prune_loop :: "int \<Rightarrow> int \<Rightarrow> local_blob list \<Rightarrow> int \<Rightarrow> local_blob list \<times> int" where
  "prune_loop cap tot bs dropped =
     (if cap < tot then
        (case sort_key lb_created_at bs of [] \<Rightarrow> (bs, dropped)
         | r # _ \<Rightarrow> prune_loop cap (tot - lb_size r) (filter (\<lambda>x. lb_id x \<noteq> lb_id r) bs) (dropped + 1))
      else (bs, dropped))"
  by pat_completeness auto

termination
proof (relation "measure (\<lambda>(cap, tot, bs, dropped). length bs)")
  fix cap tot :: int and bs :: "local_blob list" and dropped :: int and r rs
  assume "sort_key lb_created_at bs = r # rs"
  then have "r \<in> set bs" by (rule oldest_in)
  then have "length (filter (\<lambda>x. lb_id x \<noteq> lb_id r) bs) < length bs" by (intro length_filter_less [of r]) auto
  then show "((cap, tot - lb_size r, filter (\<lambda>x. lb_id x \<noteq> lb_id r) bs, dropped + 1), (cap, tot, bs, dropped))
      \<in> measure (\<lambda>(cap, tot, bs, dropped). length bs)" by simp
qed simp

declare prune_loop.simps [simp del]

definition prune_local_blobs :: "int \<Rightarrow> (store, int) meth" where
  "prune_local_blobs cap s =
     (let (bs, dropped) = prune_loop cap (blob_bytes (s_blobs s)) (s_blobs s) 0 in (Inr dropped, s\<lparr>s_blobs := bs\<rparr>))"

definition put_local_blob :: "int \<Rightarrow> string \<Rightarrow> bytes \<Rightarrow> (store, unit) meth" where
  "put_local_blob now cid ct =
     thenS (modifyS (\<lambda>s. s\<lparr>s_blobs := upsert lb_id (\<lambda>x r. x)
        \<lparr>lb_id = cid, lb_ciphertext = ct, lb_size = int (length ct), lb_created_at = now\<rparr> (s_blobs s)\<rparr>))
     (thenS (prune_local_blobs LOCAL_BLOB_CAP_BYTES) (returnS ()))"

definition get_local_blob :: "string \<Rightarrow> store \<Rightarrow> bytes option" where
  "get_local_blob cid s = map_option lb_ciphertext (lookup lb_id cid (s_blobs s))"

definition has_local_blob :: "string \<Rightarrow> store \<Rightarrow> bool" where
  "has_local_blob cid s \<longleftrightarrow> lookup lb_id cid (s_blobs s) \<noteq> None"

definition local_blob_count :: "store \<Rightarrow> int" where
  "local_blob_count s = int (length (s_blobs s))"

definition local_blob_bytes :: "store \<Rightarrow> int" where
  "local_blob_bytes s = blob_bytes (s_blobs s)"

subsection \<open>Cursors and state\<close>

definition cursor_key :: "cursor_row \<Rightarrow> string \<times> string \<times> string" where
  "cursor_key c = (cu_identity c, cu_mailbox c, cu_relay c)"

definition get_cursors :: "string \<Rightarrow> string \<Rightarrow> store \<Rightarrow> (string \<times> int) list" where
  "get_cursors iid mid s =
     map (\<lambda>c. (cu_relay c, cu_seq c)) (filter (\<lambda>c. cu_identity c = iid \<and> cu_mailbox c = mid) (s_cursors s))"

definition set_cursor :: "string \<Rightarrow> string \<Rightarrow> string \<Rightarrow> int \<Rightarrow> (store, unit) meth" where
  "set_cursor iid mid relay seq =
     bindS (liftS (sql_int seq)) (\<lambda>n.
     modifyS (\<lambda>s. s\<lparr>s_cursors := upsert cursor_key (\<lambda>x r. x\<lparr>cu_seq := max (cu_seq x) (cu_seq r)\<rparr>)
       \<lparr>cu_identity = iid, cu_mailbox = mid, cu_relay = relay, cu_seq = n\<rparr> (s_cursors s)\<rparr>))"

definition state_key :: "state_row \<Rightarrow> string \<times> string" where
  "state_key r = (kv_identity r, kv_key r)"

definition set_state :: "string \<Rightarrow> string \<Rightarrow> json \<Rightarrow> (store, unit) meth" where
  "set_state iid k v =
     modifyS (\<lambda>s. s\<lparr>s_state := upsert state_key (\<lambda>x r. r) \<lparr>kv_identity = iid, kv_key = k, kv_value = v\<rparr> (s_state s)\<rparr>)"

definition get_state :: "string \<Rightarrow> string \<Rightarrow> json \<Rightarrow> store \<Rightarrow> json" where
  "get_state iid k dflt s = (case lookup state_key (iid, k) (s_state s) of None \<Rightarrow> dflt | Some r \<Rightarrow> kv_value r)"

subsection \<open>Tables with a key\<close>

lemma key_notin: "k \<notin> key ` set xs \<Longrightarrow> x \<in> set xs \<Longrightarrow> key x \<noteq> k"
  by blast

lemma find_SomeD: "find P xs = Some x \<Longrightarrow> P x \<and> x \<in> set xs"
  by (induction xs) (auto split: if_splits)

lemma find_exists: "list_ex P xs \<Longrightarrow> \<exists>x. find P xs = Some x"
  by (induction xs) auto

text \<open>What an upsert promises for a table whose rows have a key that merging keeps.\<close>

locale keyed_table =
  fixes key :: "'r \<Rightarrow> 'k" and merge :: "'r \<Rightarrow> 'r \<Rightarrow> 'r"
  assumes key_merge: "key x = key r \<Longrightarrow> key (merge x r) = key x"
begin

lemma key_present: "list_ex (\<lambda>x. key x = key r) rows \<longleftrightarrow> key r \<in> key ` set rows"
  by (induction rows) auto

lemma keys_upsert:
  "map key (upsert key merge r rows) = (if key r \<in> key ` set rows then map key rows else map key rows @ [key r])"
  by (simp add: upsert_def key_present key_merge o_def)

lemma distinct_upsert: "distinct (map key rows) \<Longrightarrow> distinct (map key (upsert key merge r rows))"
  by (simp add: keys_upsert)

lemma lookup_upsert:
  "lookup key k (upsert key merge r rows)
     = (if k = key r then Some (case lookup key k rows of None \<Rightarrow> r | Some x \<Rightarrow> merge x r) else lookup key k rows)"
proof (cases "list_ex (\<lambda>x. key x = key r) rows")
  case True
  have f: "find (\<lambda>x. key x = k) (map (\<lambda>x. if key x = key r then merge x r else x) rows)
      = map_option (\<lambda>x. if key x = key r then merge x r else x) (find (\<lambda>x. key x = k) rows)"
    by (induction rows) (auto simp: key_merge)
  obtain y where y: "find (\<lambda>x. key x = key r) rows = Some y" "key y = key r"
    using find_exists [OF True] find_SomeD [of "\<lambda>x. key x = key r" rows] by blast
  have g: "key x = k" if "find (\<lambda>x. key x = k) rows = Some x" for x using find_SomeD [OF that] by simp
  show ?thesis
  proof (cases "k = key r")
    case k: True
    then show ?thesis using True f y by (simp add: lookup_def upsert_def)
  next
    case k: False
    then show ?thesis using True f g by (cases "find (\<lambda>x. key x = k) rows") (auto simp: lookup_def upsert_def)
  qed
next
  case False
  then have n: "find (\<lambda>x. key x = key r) rows = None" by (auto simp: find_None_iff list_ex_iff)
  have "find P (rows @ [r]) = (case find P rows of None \<Rightarrow> if P r then Some r else None | Some x \<Rightarrow> Some x)" for P
    by (induction rows) auto
  then show ?thesis using False n by (auto simp: lookup_def upsert_def split: option.split)
qed

end

interpretation identity_table: keyed_table ir_id "\<lambda>x r. x\<lparr>ir_label := ir_label r, ir_vault_path := ir_vault_path r\<rparr>"
  by unfold_locales simp

interpretation contact_table: keyed_table contact_key merge_contact_row
  by unfold_locales (simp add: contact_key_def merge_contact_row_def)

interpretation message_table: keyed_table msg_id merge_message_row
  by unfold_locales (simp add: merge_message_row_def)

interpretation prekey_table: keyed_table fst "\<lambda>x r. r"
  by unfold_locales simp

interpretation blob_table: keyed_table lb_id "\<lambda>x r. x"
  by unfold_locales simp

interpretation cursor_table: keyed_table cursor_key "\<lambda>x r. x\<lparr>cu_seq := max (cu_seq x) (cu_seq r)\<rparr>"
  by unfold_locales (simp add: cursor_key_def)

interpretation state_table: keyed_table state_key "\<lambda>x r. r"
  by unfold_locales simp

lemma lookup_filter:
  "distinct (map key rows) \<Longrightarrow> lookup key k (filter P rows) = (case lookup key k rows of None \<Rightarrow> None | Some x \<Rightarrow> if P x then Some x else None)"
proof (induction rows)
  case (Cons x rows)
  have "y \<in> set rows \<Longrightarrow> key y \<noteq> key x" for y using Cons.prems key_notin [of "key x" key rows y] by simp
  then have "lookup key (key x) rows = None" by (auto simp: lookup_def find_None_iff)
  then show ?case using Cons by (auto simp: lookup_def split: option.splits)
qed (simp add: lookup_def)

subsection \<open>Pruning\<close>

lemma filter_key_remove1:
  "distinct (map key bs) \<Longrightarrow> r \<in> set bs \<Longrightarrow> filter (\<lambda>x. key x \<noteq> key r) bs = remove1 r bs"
proof (induction bs)
  case (Cons x bs)
  show ?case
  proof (cases "x = r")
    case True
    have "y \<in> set bs \<Longrightarrow> key y \<noteq> key r" for y using Cons.prems(1) True key_notin [of "key r" key bs y] by simp
    then show ?thesis using True by (auto intro: filter_True)
  next
    case False
    then have "r \<in> set bs" using Cons.prems(2) by simp
    then have "key x \<noteq> key r" using Cons.prems(1) key_notin [of "key x" key bs r] by auto
    then show ?thesis using False Cons \<open>r \<in> set bs\<close> by simp
  qed
qed simp

lemma sum_remove1: "r \<in> set bs \<Longrightarrow> sum_list (map f (remove1 r bs)) = sum_list (map f bs) - (f r :: int)"
  by (induction bs) auto

lemma prune_loop_spec:
  assumes "prune_loop cap tot bs dropped = (bs', dropped')" "tot = blob_bytes bs" "distinct (map lb_id bs)"
    "\<forall>x \<in> set bs. 0 \<le> lb_size x"
  shows "(0 \<le> cap \<longrightarrow> blob_bytes bs' \<le> cap) \<and> blob_bytes bs' \<le> blob_bytes bs \<and> set bs' \<subseteq> set bs \<and> distinct (map lb_id bs')
    \<and> dropped' = dropped + int (length bs) - int (length bs') \<and> (blob_bytes bs \<le> cap \<longrightarrow> bs' = bs)
    \<and> (\<forall>x \<in> set bs'. \<forall>y \<in> set bs - set bs'. lb_created_at y \<le> lb_created_at x)"
  using assms
proof (induction cap tot bs dropped rule: prune_loop.induct)
  case (1 cap tot bs dropped)
  show ?case
  proof (cases "cap < tot")
    case False
    then show ?thesis using 1(2,3,4) by (subst (asm) prune_loop.simps) simp
  next
    case True
    show ?thesis
    proof (cases "sort_key lb_created_at bs")
      case Nil
      then have "bs = []" by (metis set_empty set_sort)
      moreover have "bs' = bs \<and> dropped' = dropped"
        using 1(2) True Nil by (subst (asm) prune_loop.simps) simp
      ultimately show ?thesis using True 1(3) by (simp add: blob_bytes_def)
    next
      case (Cons r rs)
      let ?bs = "filter (\<lambda>x. lb_id x \<noteq> lb_id r) bs"
      have r: "r \<in> set bs" by (rule oldest_in [OF Cons])
      have old: "lb_created_at r \<le> lb_created_at x" if "x \<in> set bs" for x
      proof -
        have "sorted (map lb_created_at (r # rs))" "x \<in> set (r # rs)" using Cons that by (metis sorted_sort_key, metis set_sort)
        then show ?thesis by auto
      qed
      have u: "x = r" if "x \<in> set bs" "lb_id x = lb_id r" for x
        using 1(4) r that by (metis distinct_map inj_onD)
      then have s: "set ?bs = set bs - {r}" by auto
      have rem: "?bs = remove1 r bs"
        by (rule filter_key_remove1 [OF 1(4) r])
      have b: "blob_bytes ?bs = blob_bytes bs - lb_size r"
        unfolding rem blob_bytes_def by (rule sum_remove1 [OF r])
      have l: "int (length ?bs) = int (length bs) - 1"
        unfolding rem using r length_pos_if_in_set [OF r] by (simp add: length_remove1 of_nat_diff Suc_leI)
      have d: "distinct (map lb_id ?bs)" using 1(4) by (simp add: distinct_map_filter)
      have p: "prune_loop cap (tot - lb_size r) ?bs (dropped + 1) = (bs', dropped')"
        using 1(2) True Cons by (simp add: prune_loop.simps [of cap tot])
      have i: "(0 \<le> cap \<longrightarrow> blob_bytes bs' \<le> cap) \<and> blob_bytes bs' \<le> blob_bytes ?bs \<and> set bs' \<subseteq> set ?bs \<and> distinct (map lb_id bs')
          \<and> dropped' = dropped + 1 + int (length ?bs) - int (length bs')
          \<and> (\<forall>x \<in> set bs'. \<forall>y \<in> set ?bs - set bs'. lb_created_at y \<le> lb_created_at x)"
        using "1.IH" [OF True Cons p _ d] 1(3,5) b by auto
      have "lb_created_at y \<le> lb_created_at x" if "x \<in> set bs'" "y \<in> set bs" "y \<notin> set bs'" for x y
        using that i s old by (cases "y = r") auto
      moreover have "blob_bytes ?bs \<le> blob_bytes bs" using b 1(5) r by simp
      ultimately show ?thesis using i l s True 1(3) by auto
    qed
  qed
qed

subsection \<open>The store as a machine\<close>

datatype store_op =
    RegisterIdentity int string json string | UpsertContact int string contact | DeleteContact string string
  | SetContactSession string string json | AddMessage message | UpdateMessage string "msg_field list"
  | SavePrekeys string json | OutboxAdd int outbox_row | OutboxRemove string | OutboxRemoveForMessage string
  | OutboxMarkSent string | PutLocalBlob int string bytes | PruneLocalBlobs int
  | SetCursor string string string int | SetState string string json

fun store_step :: "store \<Rightarrow> store_op \<Rightarrow> store" where
  "store_step s (RegisterIdentity now iid lab path) = snd (register_identity now iid lab path s)"
| "store_step s (UpsertContact now iid c) = snd (upsert_contact now iid c s)"
| "store_step s (DeleteContact iid cid) = snd (delete_contact iid cid s)"
| "store_step s (SetContactSession iid cid sess) = snd (set_contact_session iid cid sess s)"
| "store_step s (AddMessage m) = snd (add_message m s)"
| "store_step s (UpdateMessage mid fs) = snd (update_message mid fs s)"
| "store_step s (SavePrekeys iid d) = snd (save_prekeys iid d s)"
| "store_step s (OutboxAdd now e) = snd (outbox_add now e s)"
| "store_step s (OutboxRemove eid) = snd (outbox_remove eid s)"
| "store_step s (OutboxRemoveForMessage mid) = snd (outbox_remove_for_message mid s)"
| "store_step s (OutboxMarkSent eid) = snd (outbox_mark_sent eid s)"
| "store_step s (PutLocalBlob now cid ct) = snd (put_local_blob now cid ct s)"
| "store_step s (PruneLocalBlobs cap) = snd (prune_local_blobs cap s)"
| "store_step s (SetCursor iid mid relay n) = snd (set_cursor iid mid relay n s)"
| "store_step s (SetState iid k v) = snd (set_state iid k v s)"

definition blobs_ok :: "local_blob list \<Rightarrow> bool" where
  "blobs_ok bs \<longleftrightarrow> distinct (map lb_id bs) \<and> list_all (\<lambda>b. lb_size b = int (length (lb_ciphertext b))) bs
     \<and> blob_bytes bs \<le> LOCAL_BLOB_CAP_BYTES"

definition store_inv :: "store \<Rightarrow> bool" where
  "store_inv s \<longleftrightarrow> distinct (map ir_id (s_identities s)) \<and> distinct (map contact_key (s_contacts s))
     \<and> distinct (map msg_id (s_messages s)) \<and> list_all not_null (s_messages s)
     \<and> distinct (map fst (s_prekeys s)) \<and> distinct (map ob_id (s_outbox s))
     \<and> distinct (map cursor_key (s_cursors s)) \<and> distinct (map state_key (s_state s)) \<and> blobs_ok (s_blobs s)"

lemma map_key_same: "(\<And>x. key (f x) = key x) \<Longrightarrow> map key (map f xs) = map key xs"
  by (simp add: o_def)

lemma field_update_id: "field_update f = Inr u \<Longrightarrow> msg_id (u m) = msg_id m"
  by (cases f) (auto simp: res_simps)

lemma fold_updates_id: "mapE field_update fs = Inr us \<Longrightarrow> msg_id (fold (\<lambda>u. u) us m) = msg_id m"
  by (induction fs arbitrary: us m) (auto simp: res_simps field_update_id)

lemma message_columns_Inr: "message_columns m = Inr r \<Longrightarrow> not_null r \<and> msg_id r = msg_id m"
  by (auto simp: message_columns_def res_simps Let_def split: if_splits)

lemma not_null_upsert:
  "list_all not_null rows \<Longrightarrow> not_null r \<Longrightarrow> list_all not_null (upsert msg_id merge_message_row r rows)"
  by (auto simp: upsert_def list_all_iff merge_message_row_def not_null_def)

lemma blobs_nonneg: "list_all (\<lambda>b. lb_size b = int (length (lb_ciphertext b))) bs \<Longrightarrow> \<forall>x \<in> set bs. 0 \<le> lb_size x"
  by (auto simp: list_all_iff)

lemma prune_loop_ok:
  assumes "distinct (map lb_id bs)" "list_all (\<lambda>b. lb_size b = int (length (lb_ciphertext b))) bs"
    "prune_loop cap (blob_bytes bs) bs n = (bs', n')" "blob_bytes bs \<le> LOCAL_BLOB_CAP_BYTES \<or> cap = LOCAL_BLOB_CAP_BYTES"
  shows "blobs_ok bs'"
proof -
  note p = prune_loop_spec [OF assms(3) refl assms(1) blobs_nonneg [OF assms(2)]]
  moreover have "0 \<le> LOCAL_BLOB_CAP_BYTES" by (simp add: LOCAL_BLOB_CAP_BYTES_def)
  ultimately have "blob_bytes bs' \<le> LOCAL_BLOB_CAP_BYTES" using assms(4) by auto
  moreover have "list_all (\<lambda>b. lb_size b = int (length (lb_ciphertext b))) bs'"
    using p assms(2) unfolding list_all_iff by blast
  ultimately show ?thesis using p by (simp add: blobs_ok_def)
qed

lemma prune_blobs_ok: "blobs_ok (s_blobs s) \<Longrightarrow> blobs_ok (s_blobs (snd (prune_local_blobs cap s)))"
  using prune_loop_ok [of "s_blobs s" cap 0]
  by (auto simp: prune_local_blobs_def blobs_ok_def split: prod.split)

lemma put_local_blob_ok:
  assumes "blobs_ok (s_blobs s)"
  shows "blobs_ok (s_blobs (snd (put_local_blob now cid ct s)))"
proof -
  let ?r = "\<lparr>lb_id = cid, lb_ciphertext = ct, lb_size = int (length ct), lb_created_at = now\<rparr>"
  let ?bs = "upsert lb_id (\<lambda>x r. x) ?r (s_blobs s)"
  obtain bs' n where p: "prune_loop LOCAL_BLOB_CAP_BYTES (blob_bytes ?bs) ?bs 0 = (bs', n)" by force
  have "distinct (map lb_id ?bs)" using assms by (intro blob_table.distinct_upsert) (simp add: blobs_ok_def)
  moreover have "list_all (\<lambda>b. lb_size b = int (length (lb_ciphertext b))) ?bs"
    using assms by (auto simp: blobs_ok_def list_all_iff upsert_def)
  ultimately have "blobs_ok bs'" by (rule prune_loop_ok [OF _ _ p]) simp
  then show ?thesis using p by (simp add: put_local_blob_def prune_local_blobs_def meth_defs)
qed

lemma blob_ops_frame:
  "snd (put_local_blob now cid ct s) = s\<lparr>s_blobs := s_blobs (snd (put_local_blob now cid ct s))\<rparr>"
  "snd (prune_local_blobs cap s) = s\<lparr>s_blobs := s_blobs (snd (prune_local_blobs cap s))\<rparr>"
  by (simp_all add: put_local_blob_def prune_local_blobs_def meth_defs split: prod.split)

lemma bind_lift_step:
  "snd (bindS (liftS r) k s) = (case r of Inl e \<Rightarrow> s | Inr x \<Rightarrow> snd (k x s))"
  by (simp add: meth_defs split: sum.split)

lemma snd_modify: "snd (modifyS f s) = f s"
  by (simp add: meth_defs)

lemmas store_step_simps = bind_lift_step snd_modify

lemma store_step_messages:
  assumes "store_inv s"
  shows "store_inv (store_step s (AddMessage m))" "store_inv (store_step s (UpdateMessage mid fs))"
proof -
  show "store_inv (store_step s (AddMessage m))"
    using assms by (auto simp: store_inv_def add_message_def store_step_simps message_table.distinct_upsert not_null_upsert
        dest: message_columns_Inr split: sum.split)
  have "distinct (map msg_id (map (\<lambda>m. if msg_id m = mid then fold (\<lambda>u. u) us m else m) (s_messages s)))"
    if "mapE field_update fs = Inr us" for us
    using assms fold_updates_id [OF that] by (subst map_key_same) (auto simp: store_inv_def)
  then show "store_inv (store_step s (UpdateMessage mid fs))"
    using assms by (auto simp: store_inv_def update_message_def bind_lift_step returnS_def list_all_iff list_ex_iff
        split: sum.split)
qed

lemma store_step_contacts:
  assumes "store_inv s"
  shows "store_inv (store_step s (UpsertContact now iid c))" "store_inv (store_step s (DeleteContact iid cid))"
    "store_inv (store_step s (SetContactSession iid cid sess))"
proof -
  show "store_inv (store_step s (UpsertContact now iid c))"
    using assms by (simp add: store_inv_def upsert_contact_def store_step_simps contact_table.distinct_upsert split: sum.split)
  show "store_inv (store_step s (DeleteContact iid cid))"
    using assms by (simp add: store_inv_def delete_contact_def store_step_simps distinct_map_filter)
  have "map contact_key (map (\<lambda>c. if contact_key c = (iid, cid) then c\<lparr>ct_session := sess\<rparr> else c) (s_contacts s))
      = map contact_key (s_contacts s)"
    by (rule map_key_same) (simp add: contact_key_def)
  then show "store_inv (store_step s (SetContactSession iid cid sess))"
    using assms by (simp add: store_inv_def set_contact_session_def store_step_simps del: map_map)
qed

lemma store_step_outbox:
  assumes "store_inv s"
  shows "store_inv (store_step s (OutboxAdd now e))" "store_inv (store_step s (OutboxRemove eid))"
    "store_inv (store_step s (OutboxRemoveForMessage mid))" "store_inv (store_step s (OutboxMarkSent eid))"
proof -
  show "store_inv (store_step s (OutboxAdd now e))"
    using assms by (auto simp: store_inv_def outbox_add_def bind_lift_step list_ex_iff split: sum.split)
  show "store_inv (store_step s (OutboxRemove eid))" "store_inv (store_step s (OutboxRemoveForMessage mid))"
    using assms by (simp_all add: store_inv_def outbox_remove_def outbox_remove_for_message_def store_step_simps
        distinct_map_filter)
  have "map ob_id (map (\<lambda>x. if ob_id x = eid then x\<lparr>ob_seq := Some 1\<rparr> else x) (s_outbox s)) = map ob_id (s_outbox s)"
    by (rule map_key_same) simp
  then show "store_inv (store_step s (OutboxMarkSent eid))"
    using assms by (simp add: store_inv_def outbox_mark_sent_def store_step_simps del: map_map)
qed

lemma store_step_inv: "store_inv s \<Longrightarrow> store_inv (store_step s opn)"
proof (cases opn)
  case (PutLocalBlob now cid ct)
  moreover assume i: "store_inv s"
  ultimately show ?thesis
    using put_local_blob_ok [of s now cid ct] by (subst PutLocalBlob, subst store_step.simps, subst blob_ops_frame)
      (simp add: store_inv_def)
next
  case (PruneLocalBlobs cap)
  moreover assume i: "store_inv s"
  ultimately show ?thesis
    using prune_blobs_ok [of s cap] by (subst PruneLocalBlobs, subst store_step.simps, subst blob_ops_frame)
      (simp add: store_inv_def)
next
  case (RegisterIdentity now iid lab path)
  moreover assume "store_inv s"
  ultimately show ?thesis
    by (simp add: store_inv_def register_identity_def store_step_simps identity_table.distinct_upsert split: sum.split)
next
  case (SavePrekeys iid d)
  moreover assume "store_inv s"
  ultimately show ?thesis
    by (simp add: store_inv_def save_prekeys_def store_step_simps prekey_table.distinct_upsert)
next
  case (SetCursor iid mid relay n)
  moreover assume "store_inv s"
  ultimately show ?thesis
    by (simp add: store_inv_def set_cursor_def store_step_simps cursor_table.distinct_upsert split: sum.split)
next
  case (SetState iid k v)
  moreover assume "store_inv s"
  ultimately show ?thesis
    by (simp add: store_inv_def set_state_def store_step_simps state_table.distinct_upsert)
qed (simp_all only: store_step_messages store_step_contacts store_step_outbox)

interpretation store_machine: machine store_step store_inv
  by unfold_locales (rule store_step_inv)

lemma initialize_inv: "store_inv initialize"
  by (simp add: store_inv_def initialize_def blobs_ok_def blob_bytes_def LOCAL_BLOB_CAP_BYTES_def)

text \<open>C23: In every state that the store can reach from an empty database by any sequence of its operations, also
  failing ones, each table has at most one row per key, no message row lacks a mandatory column, the recorded
  size of every cached attachment chunk is its length, and the cache is within its cap of 2 GiB.\<close>

theorem store_invariant: "store_inv (foldl store_step initialize ops)"
  by (rule store_machine.run_inv [OF initialize_inv])

subsection \<open>Cursors\<close>

definition cursor_at :: "string \<times> string \<times> string \<Rightarrow> store \<Rightarrow> int" where
  "cursor_at k s = (case lookup cursor_key k (s_cursors s) of None \<Rightarrow> - (2 ^ 63) - 1 | Some r \<Rightarrow> cu_seq r)"

lemma sql_int_Inr: "sql_int i = Inr j \<Longrightarrow> j = i \<and> - (2 ^ 63) \<le> j \<and> j < 2 ^ 63"
  by (auto simp: sql_int_def split: if_splits)

lemma set_cursor_at:
  "sql_int n = Inr n \<Longrightarrow> cursor_at k (snd (set_cursor iid mid relay n s))
     = (if k = (iid, mid, relay) then max (cursor_at k s) n else cursor_at k s)"
  by (auto simp: set_cursor_def store_step_simps cursor_at_def cursor_table.lookup_upsert cursor_key_def
      dest!: sql_int_Inr split: option.split)

lemma set_cursor_step: "cursor_at k s \<le> cursor_at k (snd (set_cursor iid mid relay n s))"
proof (cases "sql_int n")
  case (Inl e)
  then show ?thesis by (simp add: set_cursor_def store_step_simps)
next
  case (Inr m)
  then show ?thesis using sql_int_Inr [OF Inr] by (simp add: set_cursor_at)
qed

lemma cursor_step_mono: "cursor_at k s \<le> cursor_at k (store_step s opn)"
proof (cases opn)
  case (SetCursor iid mid relay n)
  then show ?thesis by (simp only: store_step.simps set_cursor_step)
next
  case (PutLocalBlob now cid ct)
  then show ?thesis by (simp only: store_step.simps) (subst blob_ops_frame, simp add: cursor_at_def)
next
  case (PruneLocalBlobs cap)
  then show ?thesis by (simp only: store_step.simps) (subst blob_ops_frame, simp add: cursor_at_def)
qed (simp_all add: cursor_at_def register_identity_def upsert_contact_def delete_contact_def set_contact_session_def
    add_message_def update_message_def save_prekeys_def outbox_add_def outbox_remove_def outbox_remove_for_message_def
    outbox_mark_sent_def set_state_def store_step_simps returnS_def split: sum.split)

lemma get_cursors_at:
  "distinct (map cursor_key (s_cursors s)) \<Longrightarrow>
   map_of (get_cursors iid mid s) relay = map_option cu_seq (lookup cursor_key (iid, mid, relay) (s_cursors s))"
proof -
  have "map_of (map (\<lambda>c. (cu_relay c, cu_seq c)) (filter (\<lambda>c. cu_identity c = iid \<and> cu_mailbox c = mid) cs)) relay
      = map_option cu_seq (find (\<lambda>c. cursor_key c = (iid, mid, relay)) cs)" for cs
    by (induction cs) (auto simp: cursor_key_def)
  then show ?thesis by (simp add: get_cursors_def lookup_def)
qed

lemma cursor_kept:
  assumes "fst (set_cursor iid mid relay n s) = Inr ()" "store_inv s"
  shows "\<exists>m. map_of (get_cursors iid mid (foldl store_step (snd (set_cursor iid mid relay n s)) ops)) relay = Some m \<and> n \<le> m"
proof -
  let ?s = "snd (set_cursor iid mid relay n s)"
  let ?t = "foldl store_step ?s ops"
  let ?k = "(iid, mid, relay)"
  obtain j where "sql_int n = Inr j" using assms(1) by (cases "sql_int n") (auto simp: set_cursor_def meth_defs)
  then have ok: "sql_int n = Inr n" using sql_int_Inr by blast
  have i: "store_inv ?s" using store_step_inv [OF assms(2), of "SetCursor iid mid relay n"] by simp
  have "cursor_at ?k ?s \<le> cursor_at ?k ?t"
    by (rule store_machine.run_mono [OF cursor_step_mono i])
  then have ge: "n \<le> cursor_at ?k ?t" using ok by (simp add: set_cursor_at)
  have "- (2 ^ 63) \<le> n" using sql_int_Inr [OF ok] by blast
  moreover have "distinct (map cursor_key (s_cursors ?t))" using store_machine.run_inv [OF i, of ops] by (simp add: store_inv_def)
  ultimately show ?thesis using ge by (simp add: get_cursors_at cursor_at_def split: option.splits)
qed

text \<open>Once a cursor has been stored for a relay, it is never lost and never moves back: after any further
  operations, the cursor that \<open>get_cursors\<close> reports is at least the stored value.\<close>

theorem cursors_never_back:
  assumes "fst (set_cursor iid mid relay n s) = Inr ()" "store_inv s"
  shows "\<exists>m. map_of (get_cursors iid mid (foldl store_step (snd (set_cursor iid mid relay n s)) ops)) relay = Some m \<and> n \<le> m"
  by (rule cursor_kept [OF assms])

theorem cursors_never_back_witness:
  "\<exists>m. map_of (get_cursors ''i'' ''m'' (foldl store_step (snd (set_cursor ''i'' ''m'' ''r'' 7 initialize))
     [SetCursor ''i'' ''m'' ''r'' 5])) ''r'' = Some m \<and> 7 \<le> m"
proof -
  have "fst (set_cursor ''i'' ''m'' ''r'' 7 initialize) = Inr ()" by (simp add: set_cursor_def sql_int_def meth_defs)
  then show ?thesis by (rule cursors_never_back [OF _ initialize_inv])
qed

subsection \<open>Clearing the outbox\<close>

lemma code_points_ascii: "ascii s \<Longrightarrow> code_points s = map (\<lambda>c. [c]) s"
proof (induction s)
  case (Cons c s)
  then have "takeWhile cont_char s = []" "dropWhile cont_char s = s"
    by (cases s; simp add: ascii_def cont_char_def)+
  then show ?case using Cons by (simp add: ascii_def)
qed simp

lemma sql_like_any: "sql_like [''%''] cs"
  by (induction cs) auto

lemma sql_like_prefix:
  assumes "\<forall>p \<in> set ps. p \<noteq> ''%'' \<and> p \<noteq> ''_''"
  shows "sql_like (ps @ [''%'']) cs \<longleftrightarrow> length ps \<le> length cs \<and> map fold_case (take (length ps) cs) = map fold_case ps"
  using assms
proof (induction ps arbitrary: cs)
  case Nil
  then show ?case by (simp add: sql_like_any)
next
  case (Cons p ps)
  then show ?case by (cases cs) auto
qed

text \<open>The ids of messages are lower-case hexadecimal; the id of an outbox row is that of its message, followed by a colon
  and a device id.\<close>

definition hex_id :: "string \<Rightarrow> bool" where
  "hex_id m \<longleftrightarrow> list_all (\<lambda>c. c \<in> set ''0123456789abcdef'') m"

definition row_message :: "string \<Rightarrow> string" where
  "row_message i = takeWhile (\<lambda>c. c \<noteq> CHR '':'') i"

lemma hex_chars: "hex_id m \<Longrightarrow> c \<in> set m \<Longrightarrow> c \<noteq> CHR ''%'' \<and> c \<noteq> CHR ''_'' \<and> c \<noteq> CHR '':'' \<and> of_char c \<le> (127::nat) \<and> fold_case [c] = [c]"
proof -
  assume "hex_id m" "c \<in> set m"
  then have "c \<in> set ''0123456789abcdef''" unfolding hex_id_def list_all_iff by blast
  moreover have "list_all (\<lambda>c. c \<noteq> CHR ''%'' \<and> c \<noteq> CHR ''_'' \<and> c \<noteq> CHR '':'' \<and> of_char c \<le> (127::nat) \<and> fold_case [c] = [c])
      ''0123456789abcdef''"
    by (simp add: fold_case_def)
  ultimately show ?thesis unfolding list_all_iff by blast
qed

definition fold_char :: "char \<Rightarrow> char" where
  "fold_char c = hd (fold_case [c])"

lemma fold_case_map: "fold_case s = map fold_char s"
  by (simp add: fold_case_def fold_char_def)

lemma fold_char_colon: "fold_char c = CHR '':'' \<longleftrightarrow> c = CHR '':''"
proof
  assume a: "fold_char c = CHR '':''"
  show "c = CHR '':''"
  proof (cases "65 \<le> (of_char c :: nat) \<and> of_char c \<le> (90 :: nat)")
    case True
    then have "char_of (of_char c + 32 :: nat) = CHR '':''" using a by (simp add: fold_char_def fold_case_def)
    then have "(of_char (char_of (of_char c + 32 :: nat)) :: nat) = of_char (CHR '':'')" by simp
    then show ?thesis using True by simp
  qed (use a in \<open>auto simp: fold_char_def fold_case_def split: if_splits\<close>)
qed (simp add: fold_char_def fold_case_def)

lemma fold_case_hex: "hex_id m \<Longrightarrow> fold_case m = m"
  unfolding fold_case_map by (rule map_idI) (use hex_chars in \<open>simp add: fold_char_def\<close>)

lemma map_singles_eq: "map (\<lambda>c. [c]) s = map (\<lambda>c. [c]) t \<longleftrightarrow> s = t"
  by (rule inj_map_eq_map) (simp add: inj_def)

lemma row_prefix:
  assumes "hex_id m" "hex_id (row_message i)" "length m < length i" "fold_case (take (length m + 1) i) = m @ '':''"
  shows "row_message i = m"
proof -
  let ?t = "take (length m) i"
  have "take (length m + 1) i = ?t @ [i ! length m]" using assms(3) by (simp add: take_Suc_conv_app_nth)
  then have t: "map fold_char ?t = m" and c: "i ! length m = CHR '':''"
    using assms(4) by (simp_all add: fold_case_map fold_char_colon)
  have "x \<noteq> CHR '':''" if "x \<in> set ?t" for x
  proof -
    have "fold_char x \<in> set m" using that t by (metis image_eqI set_map)
    then show ?thesis using hex_chars [OF assms(1)] fold_char_colon by blast
  qed
  then have "row_message (?t @ i ! length m # drop (length m + 1) i) = ?t"
    unfolding row_message_def using c by (subst takeWhile_append2) auto
  moreover have "?t @ i ! length m # drop (length m + 1) i = i" using assms(3) by (simp add: id_take_nth_drop [symmetric])
  ultimately have r: "row_message i = ?t" by simp
  then have "hex_id ?t" using assms(2) by simp
  then have "fold_case ?t = ?t" by (rule fold_case_hex)
  then show ?thesis using t r by (simp add: fold_case_map)
qed

lemma map_fold_case_singles: "map fold_case (map (\<lambda>c. [c]) s) = map (\<lambda>c. [c]) (fold_case s)"
  by (simp add: fold_case_def)

lemma like_row:
  assumes "hex_id m" "ascii i" "hex_id (row_message i)"
  shows "(i = m \<or> sql_like (code_points (m @ '':%'')) (code_points i)) \<longleftrightarrow> row_message i = m"
proof -
  have asc: "ascii (m @ '':%'')" using hex_chars [OF assms(1)] by (auto simp: ascii_def)
  have w: "\<forall>p \<in> set (map (\<lambda>c. [c]) (m @ '':'')). p \<noteq> ''%'' \<and> p \<noteq> ''_''" using hex_chars [OF assms(1)] by auto
  have f: "fold_case (m @ '':'') = m @ '':''" using fold_case_hex [OF assms(1)] by (simp add: fold_case_def)
  have "sql_like (code_points (m @ '':%'')) (code_points i)
      \<longleftrightarrow> sql_like (map (\<lambda>c. [c]) (m @ '':'') @ [''%'']) (map (\<lambda>c. [c]) i)"
    using asc assms(2) by (simp add: code_points_ascii)
  also have "\<dots> \<longleftrightarrow> length m < length i \<and> map (\<lambda>c. [c]) (fold_case (take (length m + 1) i)) = map (\<lambda>c. [c]) (m @ '':'')"
    unfolding sql_like_prefix [OF w] take_map map_fold_case_singles f by auto
  also have "\<dots> \<longleftrightarrow> length m < length i \<and> fold_case (take (length m + 1) i) = m @ '':''"
    unfolding map_singles_eq ..
  finally have like: "sql_like (code_points (m @ '':%'')) (code_points i)
      \<longleftrightarrow> length m < length i \<and> fold_case (take (length m + 1) i) = m @ '':''" .
  show ?thesis
  proof
    assume "i = m \<or> sql_like (code_points (m @ '':%'')) (code_points i)"
    moreover have "row_message m = m" using hex_chars [OF assms(1)] by (simp add: row_message_def takeWhile_eq_all_conv)
    ultimately show "row_message i = m" using like row_prefix [OF assms(1,3)] by blast
  next
    assume r: "row_message i = m"
    let ?d = "dropWhile (\<lambda>c. c \<noteq> CHR '':'') i"
    have i: "i = m @ ?d" using r takeWhile_dropWhile_id [of "\<lambda>c. c \<noteq> CHR '':''" i] by (simp add: row_message_def)
    show "i = m \<or> sql_like (code_points (m @ '':%'')) (code_points i)"
    proof (cases ?d)
      case Nil
      then show ?thesis using i by (metis append_Nil2)
    next
      case (Cons c cs)
      then have "c = CHR '':''" using hd_dropWhile [of "\<lambda>c. c \<noteq> CHR '':''" i] by simp
      then have "i = m @ CHR '':'' # cs" using i Cons by simp
      then show ?thesis unfolding like using f by simp
    qed
  qed
qed

lemma outbox_cleared:
  assumes "hex_id mid" "list_all (\<lambda>x. ascii (ob_id x) \<and> hex_id (row_message (ob_id x))) (s_outbox s)"
  shows "outbox_remove_for_message mid s
    = (Inr (), s\<lparr>s_outbox := filter (\<lambda>x. row_message (ob_id x) \<noteq> mid) (s_outbox s)\<rparr>)"
proof -
  have "filter (\<lambda>x. \<not> (ob_id x = mid \<or> sql_like (code_points (mid @ '':%'')) (code_points (ob_id x)))) (s_outbox s)
      = filter (\<lambda>x. row_message (ob_id x) \<noteq> mid) (s_outbox s)"
    using assms(2) like_row [OF assms(1)] unfolding list_all_iff by (intro filter_cong) auto
  then show ?thesis by (simp add: outbox_remove_for_message_def modifyS_def)
qed

text \<open>A receipt for a message clears its outbox rows and no others: when the ids of the rows are a message id
  (lower-case hexadecimal), optionally with a colon and a device id, \<open>outbox_remove_for_message\<close> removes exactly
  the rows of that message, although it matches with SQL's \<open>LIKE\<close>.\<close>

theorem outbox_clear_exact:
  assumes "hex_id mid" "list_all (\<lambda>x. ascii (ob_id x) \<and> hex_id (row_message (ob_id x))) (s_outbox s)"
  shows "outbox_remove_for_message mid s
    = (Inr (), s\<lparr>s_outbox := filter (\<lambda>x. row_message (ob_id x) \<noteq> mid) (s_outbox s)\<rparr>)"
  by (rule outbox_cleared [OF assms])

definition sample_row :: "string \<Rightarrow> outbox_row" where
  "sample_row i = \<lparr>ob_id = i, ob_identity = ''me'', ob_contact = ''you'', ob_mailbox = ''box'', ob_relay = JNull,
     ob_payload = JNull, ob_seq = Some 1, ob_created_at = 9\<rparr>"

definition sample_outbox :: store where
  "sample_outbox = initialize\<lparr>s_outbox := map sample_row [''ab:DEV1'', ''ab:DEV2'', ''abc:DEV1'', ''ab'', ''0ab:AB:X'']\<rparr>"

theorem outbox_clear_exact_witness:
  "snd (outbox_remove_for_message ''ab'' sample_outbox)
     = sample_outbox\<lparr>s_outbox := map sample_row [''abc:DEV1'', ''0ab:AB:X'']\<rparr>"
proof -
  have "hex_id ''ab''" by (simp add: hex_id_def)
  moreover have "list_all (\<lambda>x. ascii (ob_id x) \<and> hex_id (row_message (ob_id x))) (s_outbox sample_outbox)"
    by (simp add: sample_outbox_def sample_row_def ascii_def hex_id_def row_message_def)
  ultimately have "snd (outbox_remove_for_message ''ab'' sample_outbox)
      = sample_outbox\<lparr>s_outbox := filter (\<lambda>x. row_message (ob_id x) \<noteq> ''ab'') (s_outbox sample_outbox)\<rparr>"
    by (simp add: outbox_clear_exact)
  then show ?thesis by (simp add: sample_outbox_def sample_row_def row_message_def)
qed

text \<open>The pattern is built from an id that a peer sends in a receipt: with a wildcard in it, rows of other messages go too.\<close>

lemma sql_like_inner: "sql_like [''%'', '':'', ''%''] (map (\<lambda>c. [c]) s) \<longleftrightarrow> CHR '':'' \<in> set s"
proof (induction s)
  case (Cons c s)
  have "fold_char (CHR '':'') = CHR '':''" using fold_char_colon [of "CHR '':''"] by blast
  then have "fold_case '':'' = fold_case [c] \<longleftrightarrow> c = CHR '':''"
    using fold_char_colon [of c] by (simp only: fold_case_map list.map list.inject) metis
  then have "sql_like ['':'', ''%''] (map (\<lambda>c. [c]) (c # s)) \<longleftrightarrow> c = CHR '':''" by (simp add: sql_like_any)
  moreover have "sql_like [''%'', '':'', ''%''] (map (\<lambda>c. [c]) (c # s))
      \<longleftrightarrow> sql_like ['':'', ''%''] (map (\<lambda>c. [c]) (c # s)) \<or> sql_like [''%'', '':'', ''%''] (map (\<lambda>c. [c]) s)" by simp
  ultimately show ?case using Cons.IH by (simp only: list.set) blast
qed simp

lemma outbox_wildcard:
  assumes "list_all (\<lambda>x. ascii (ob_id x)) (s_outbox s)"
  shows "s_outbox (snd (outbox_remove_for_message ''%'' s)) = filter (\<lambda>x. CHR '':'' \<notin> set (ob_id x) \<and> ob_id x \<noteq> ''%'') (s_outbox s)"
proof -
  have "code_points ''%:%'' = [''%'', '':'', ''%'']" using code_points_ascii [of "''%:%''"] by (simp add: ascii_def)
  then show ?thesis using assms code_points_ascii unfolding list_all_iff
    by (auto simp: outbox_remove_for_message_def modifyS_def sql_like_inner intro!: filter_cong)
qed

end
