(* ===== verification/StoreKey.thy ===== *)
theory StoreKey
  imports Identity
begin

section \<open>The key of the local store\<close>

text \<open>
  \<^verbatim>\<open>core/store.py\<close>, module functions: where the 32-byte key of the local database comes from.  The file \<open>local.key\<close> is
  modelled by the document it holds (\<open>json.dump\<close> and \<open>json.load\<close>); the \<open>keyring\<close> package is a parameter, a getter
  and a setter on a state of its own that may both raise, with the hypothesis that a password that was
  stored is read back.  The random bytes are arguments.  The theorems: a key file opens with the passphrase it was
  written with, and to the key that was written; resolving the key twice in the same mode gives the same key.
\<close>

definition LOCAL_KEY_SIZE :: nat where "LOCAL_KEY_SIZE = 32"
definition KEYRING_SERVICE :: string where "KEYRING_SERVICE = ''noknowledge''"

definition derive_key_from_passphrase :: "vault_prims \<Rightarrow> string \<Rightarrow> bytes \<Rightarrow> int \<Rightarrow> bytes" where
  "derive_key_from_passphrase V passphrase salt iterations = pbkdf2 V (str_encode passphrase) salt iterations"

definition has_passphrase :: "string option \<Rightarrow> bool" where
  "has_passphrase p \<longleftrightarrow> p \<noteq> None \<and> p \<noteq> Some []"

definition split_blob :: "bytes \<Rightarrow> bytes \<times> bytes" where
  "split_blob blob = (take 12 blob, drop 12 blob)"

definition load_key_file :: "crypto \<Rightarrow> vault_prims \<Rightarrow> json \<Rightarrow> string option \<Rightarrow> bytes res" where
  "load_key_file C V data passphrase =
     (case data of JObj d \<Rightarrow>
        if truthy_opt (map_of d ''wrapped'') then
          (if \<not> has_passphrase passphrase then Inl ValueError
           else bindE (bindE (getitem data ''salt'') b64d_json) (\<lambda>salt.
             bindE (bindE (getitem data ''iterations'') py_int) (\<lambda>iterations.
             let wrapper = derive_key_from_passphrase V (the passphrase) salt iterations in
             bindE (bindE (getitem data ''wrapped'') b64d_json) (\<lambda>blob.
             let (nonce, ciphertext) = split_blob blob in aead_decrypt C wrapper nonce ciphertext []))))
        else bindE (getitem data ''key'') b64d_json
      | _ \<Rightarrow> Inl AttributeError)"

definition write_key_file :: "crypto \<Rightarrow> vault_prims \<Rightarrow> bytes \<Rightarrow> bytes \<Rightarrow> bytes \<Rightarrow> string option \<Rightarrow> json res" where
  "write_key_file C V salt nonce key passphrase =
     (if has_passphrase passphrase then
        (let wrapper = derive_key_from_passphrase V (the passphrase) salt 600000 in
         bindE (aead_encrypt C nonce wrapper key []) (\<lambda>(n, ciphertext).
         Inr (JObj [(''salt'', JStr (b64e salt)), (''iterations'', JInt 600000), (''wrapped'', JStr (b64e (n @ ciphertext)))])))
      else Inr (JObj [(''key'', JStr (b64e key))]))"

text \<open>The state outside the process: the file, if it exists, and the keyring.\<close>

record 'k key_state =
  key_file :: "json option"
  keyring :: 'k

record 'k keyring_api =
  get_password :: "string \<Rightarrow> string \<Rightarrow> 'k \<Rightarrow> string option res"
  set_password :: "string \<Rightarrow> string \<Rightarrow> string \<Rightarrow> ('k, unit) meth"

text \<open>The \<open>try\<close> block around the keyring: \<open>None\<close> when it raised or was left out, with the keyring as it is then.\<close>

definition from_keyring :: "'k keyring_api \<Rightarrow> bytes \<Rightarrow> string \<Rightarrow> 'k \<Rightarrow> bytes option \<times> 'k" where
  "from_keyring R rnd iid k =
     (case get_password R KEYRING_SERVICE iid k of
        Inl _ \<Rightarrow> (None, k)
      | Inr stored \<Rightarrow>
          if stored \<noteq> None \<and> stored \<noteq> Some [] then
            (case b64d (the stored) of Inl _ \<Rightarrow> (None, k) | Inr key \<Rightarrow> (Some key, k))
          else (case set_password R KEYRING_SERVICE iid (b64e rnd) k of
                  (Inl _, k') \<Rightarrow> (None, k') | (Inr _, k') \<Rightarrow> (Some rnd, k')))"

record key_random =
  rnd_ring :: bytes
  rnd_file :: bytes
  rnd_salt :: bytes
  rnd_nonce :: bytes

definition resolve_store_key ::
  "crypto \<Rightarrow> vault_prims \<Rightarrow> 'k keyring_api \<Rightarrow> bool \<Rightarrow> key_random \<Rightarrow> string \<Rightarrow> string option \<Rightarrow> ('k key_state, bytes) meth" where
  "resolve_store_key C V R disabled rnd iid passphrase st =
     (case key_file st of
        Some data \<Rightarrow> (load_key_file C V data passphrase, st)
      | None \<Rightarrow>
          (let (found, k) = (if disabled then (None, keyring st) else from_keyring R (rnd_ring rnd) iid (keyring st));
               st' = st\<lparr>keyring := k\<rparr> in
           case found of Some key \<Rightarrow> (Inr key, st')
           | None \<Rightarrow>
               (case write_key_file C V (rnd_salt rnd) (rnd_nonce rnd) (rnd_file rnd) passphrase of
                  Inl e \<Rightarrow> (Inl e, st')
                | Inr data \<Rightarrow> (Inr (rnd_file rnd), st'\<lparr>key_file := Some data\<rparr>))))"

text \<open>What the code relies on: a stored password is read back, and derived keys have 32 bytes.\<close>

definition keyring_stores :: "'k keyring_api \<Rightarrow> bool" where
  "keyring_stores R \<longleftrightarrow> (\<forall>s i v k k'. set_password R s i v k = (Inr (), k') \<longrightarrow> get_password R s i k' = Inr (Some v))"

definition pbkdf2_length :: "vault_prims \<Rightarrow> bool" where
  "pbkdf2_length V \<longleftrightarrow> (\<forall>p s n. length (pbkdf2 V p s n) = 32)"

subsection \<open>Key files\<close>

lemma load_write_key_file:
  assumes "aead_correct C" "pbkdf2_length V" "length nonce = 12"
  shows "\<exists>data. write_key_file C V salt nonce key passphrase = Inr data \<and> load_key_file C V data passphrase = Inr key"
proof (cases "has_passphrase passphrase")
  case True
  let ?w = "derive_key_from_passphrase V (the passphrase) salt 600000"
  have w: "length ?w = 32" using assms(2) by (simp add: pbkdf2_length_def derive_key_from_passphrase_def)
  have "nonce \<noteq> []" using assms(3) by auto
  moreover have "aead_decrypt C ?w nonce (chacha_seal C ?w nonce key []) [] = Inr key"
    by (rule aead_decrypt_encrypt [OF assms(1,3) aead_encrypt_Inr [OF w]])
  ultimately show ?thesis using True w assms(3)
    by (simp add: write_key_file_def load_key_file_def aead_encrypt_Inr Let_def truthy_opt_def b64d_json_def split_blob_def)
qed (simp add: write_key_file_def load_key_file_def truthy_opt_def b64d_json_def)

lemma from_keyring_again:
  assumes "keyring_stores R" "from_keyring R rnd iid k = (Some key, k')" "rnd \<noteq> []"
  shows "from_keyring R rnd' iid k' = (Some key, k')"
proof (cases "get_password R KEYRING_SERVICE iid k")
  case (Inl e)
  then show ?thesis using assms(2) by (simp add: from_keyring_def)
next
  case (Inr stored)
  show ?thesis
  proof (cases "stored \<noteq> None \<and> stored \<noteq> Some []")
    case True
    then show ?thesis using Inr assms(2) by (auto simp: from_keyring_def split: sum.splits)
  next
    case False
    then have s: "set_password R KEYRING_SERVICE iid (b64e rnd) k = (Inr (), k')" "key = rnd"
      using Inr assms(2) by (auto simp: from_keyring_def split: sum.splits prod.splits)
    then have "get_password R KEYRING_SERVICE iid k' = Inr (Some (b64e rnd))"
      using assms(1) unfolding keyring_stores_def by blast
    then show ?thesis using s(2) assms(3) by (simp add: from_keyring_def)
  qed
qed

lemma resolve_twice:
  assumes "aead_correct C" "pbkdf2_length V" "keyring_stores R" "length (rnd_nonce rnd) = 12" "rnd_ring rnd \<noteq> []"
    "resolve_store_key C V R disabled rnd iid passphrase st = (Inr key, st')"
    "disabled' = disabled \<or> key_file st' \<noteq> None"
  shows "resolve_store_key C V R disabled' rnd' iid passphrase st' = (Inr key, st')"
proof (cases "key_file st")
  case (Some data)
  then show ?thesis using assms(6) by (auto simp: resolve_store_key_def)
next
  case None
  obtain found k where f: "(if disabled then (None, keyring st) else from_keyring R (rnd_ring rnd) iid (keyring st)) = (found, k)"
    by force
  show ?thesis
  proof (cases found)
    case None': None
    obtain data where d: "write_key_file C V (rnd_salt rnd) (rnd_nonce rnd) (rnd_file rnd) passphrase = Inr data"
      "load_key_file C V data passphrase = Inr (rnd_file rnd)"
      using load_write_key_file [OF assms(1,2,4)] by blast
    then have "key = rnd_file rnd" "st' = st\<lparr>keyring := k, key_file := Some data\<rparr>"
      using assms(6) None None' f by (simp_all add: resolve_store_key_def Let_def)
    then show ?thesis using d by (simp add: resolve_store_key_def)
  next
    case (Some r)
    then have s: "key = r" "st' = st\<lparr>keyring := k\<rparr>" "\<not> disabled" "from_keyring R (rnd_ring rnd) iid (keyring st) = (Some r, k)"
      using assms(6) None f by (auto simp: resolve_store_key_def Let_def split: if_splits)
    then have "disabled' = disabled" using assms(7) None by simp
    moreover have "from_keyring R (rnd_ring rnd') iid k = (Some r, k)"
      by (rule from_keyring_again [OF assms(3) s(4) assms(5)])
    ultimately show ?thesis using s None by (simp add: resolve_store_key_def Let_def)
  qed
qed

subsection \<open>Theorems\<close>

text \<open>A keyring with one entry per service and identity, for concrete inputs.\<close>

definition toy_keyring :: "((string \<times> string) \<times> string) list keyring_api" where
  "toy_keyring = \<lparr>get_password = (\<lambda>s i k. Inr (map_of k (s, i))), set_password = (\<lambda>s i v k. (Inr (), ((s, i), v) # k))\<rparr>"

definition toy_vault_prims :: vault_prims where
  "toy_vault_prims = \<lparr>pbkdf2 = (\<lambda>p s n. fit 32 (p @ s)), aesgcm_seal = (\<lambda>k n p a. p), aesgcm_open = (\<lambda>k n c a. Some c),
     mnemonic_check = (\<lambda>_. True), mnemonic_seed = (\<lambda>m p. str_encode (m @ p))\<rparr>"

definition sample_random :: "byte \<Rightarrow> key_random" where
  "sample_random b = \<lparr>rnd_ring = replicate 32 b, rnd_file = replicate 32 (b + 1), rnd_salt = replicate 16 b, rnd_nonce = replicate 12 b\<rparr>"

lemma toy_prims_ok: "pbkdf2_length toy_vault_prims" "keyring_stores toy_keyring"
  by (simp_all add: pbkdf2_length_def toy_vault_prims_def keyring_stores_def toy_keyring_def)

text \<open>The local database is not orphaned by restarting: when \<open>resolve_store_key\<close> has returned a key, then resolving again
  with the same passphrase returns the same key and changes nothing, in the same keyring mode and, once a key file exists, in either
  mode; this covers a keyring that fails on the first call.\<close>

theorem store_key_stable:
  assumes "aead_correct C" "pbkdf2_length V" "keyring_stores R" "length (rnd_nonce rnd) = 12" "rnd_ring rnd \<noteq> []"
    "resolve_store_key C V R disabled rnd iid passphrase st = (Inr key, st')"
    "disabled' = disabled \<or> key_file st' \<noteq> None"
  shows "resolve_store_key C V R disabled' rnd' iid passphrase st' = (Inr key, st')"
  by (rule resolve_twice [OF assms])

theorem store_key_stable_witness:
  "fst (resolve_store_key toy toy_vault_prims toy_keyring False (sample_random 9) ''me'' (Some ''pw'')
     (snd (resolve_store_key toy toy_vault_prims toy_keyring True (sample_random 3) ''me'' (Some ''pw'') \<lparr>key_file = None, keyring = []\<rparr>)))
   = Inr (replicate 32 4)"
proof -
  let ?st = "\<lparr>key_file = None, keyring = []\<rparr>"
  let ?r = "resolve_store_key toy toy_vault_prims toy_keyring True (sample_random 3) ''me'' (Some ''pw'') ?st"
  obtain data where "write_key_file toy toy_vault_prims (replicate 16 3) (replicate 12 3) (replicate 32 4) (Some ''pw'') = Inr data"
    using load_write_key_file [OF toy_ok(2) toy_prims_ok(1), of "replicate 12 3"] by fastforce
  then have r: "?r = (Inr (replicate 32 4), \<lparr>key_file = Some data, keyring = []\<rparr>)"
    by (simp add: resolve_store_key_def sample_random_def)
  have "resolve_store_key toy toy_vault_prims toy_keyring False (sample_random 9) ''me'' (Some ''pw'') \<lparr>key_file = Some data, keyring = []\<rparr>
      = (Inr (replicate 32 4), \<lparr>key_file = Some data, keyring = []\<rparr>)"
    by (rule store_key_stable [OF toy_ok(2) toy_prims_ok _ _ r]) (simp_all add: sample_random_def)
  then show ?thesis using r by simp
qed

text \<open>The other direction: a key that lives in the keyring is not found when the keyring is switched off, and a fresh one is written.\<close>

lemma keyring_then_disabled:
  assumes "key_file st = None" "resolve_store_key C V R False rnd iid None st = (Inr key, st')" "key_file st' = None"
  shows "fst (resolve_store_key C V R True rnd' iid None st') = Inr (rnd_file rnd')"
  using assms(3) by (simp add: resolve_store_key_def write_key_file_def has_passphrase_def)

end
