(* ===== verification/History.thy ===== *)
theory History
  imports Store StoreKey Encoding
begin

section \<open>History bundles\<close>

text \<open>
  \<^verbatim>\<open>core/history.py\<close>: collecting what a device knows, merging it into the store of another, and the encrypted export
  file.  A bundle is a JSON document; merging is a method on the store of \<^verbatim>\<open>core/store.py\<close>, so that what a merge that
  raises leaves behind is part of the model.  The client is its identity id and its device id; clock and random bytes are
  arguments, \<open>zlib\<close> and PBKDF2 parameters.
\<close>

definition HISTORY_VERSION :: int where "HISTORY_VERSION = 1"
definition HISTORY_MAGIC :: bytes where "HISTORY_MAGIC = str_encode ''NKX1''"
definition DEFAULT_BUDGET_BYTES :: int where "DEFAULT_BUDGET_BYTES = 100 * 1024 * 1024"
definition PBKDF2_ITERATIONS :: int where "PBKDF2_ITERATIONS = 600000"

text \<open>\<open>v.get(k)\<close> on a value of a document: only a dict has the method.\<close>

fun py_get :: "json \<Rightarrow> string \<Rightarrow> json res" where
  "py_get (JObj d) k = Inr (case map_of d k of None \<Rightarrow> JNull | Some v \<Rightarrow> v)"
| "py_get _ k = Inl AttributeError"

text \<open>\<open>v or d\<close>.\<close>

definition py_or :: "json \<Rightarrow> json \<Rightarrow> json" where
  "py_or v d = (if truthy v then v else d)"

text \<open>A value used as a dict key: lists and dicts are not hashable, and \<open>True\<close> and 1 are the same key.\<close>

fun hash_key :: "json \<Rightarrow> json res" where
  "hash_key (JArr _) = Inl TypeError"
| "hash_key (JObj _) = Inl TypeError"
| "hash_key (JBool b) = Inr (JInt (if b then 1 else 0))"
| "hash_key v = Inr v"

definition STATE_RANK :: "(json \<times> int) list" where
  "STATE_RANK = [(JStr ''received'', 0), (JStr ''sent'', 0), (JNull, 0), (JStr ''delivered'', 1), (JStr ''read'', 2)]"

definition state_rank :: "json \<Rightarrow> int res" where
  "state_rank state = bindE (hash_key state) (\<lambda>k. Inr (case map_of STATE_RANK k of None \<Rightarrow> 0 | Some n \<Rightarrow> n))"

subsection \<open>Collection\<close>

definition contact_item :: "contact \<Rightarrow> json res" where
  "contact_item c =
     bindE (py_list_or (Some (ct_relays c))) (\<lambda>relays.
     Inr (JObj [(''id'', JStr (ct_id c)), (''isign'', JStr (b64e (ct_isign c))), (''idh'', JStr (b64e (ct_idh c))),
       (''bundle'', ct_bundle_id c), (''inbox'', py_or (ct_inbox c) (JObj [])), (''relays'', JArr relays),
       (''nickname'', ct_nickname c), (''verified'', JBool (ct_verified c)), (''created_at'', JInt (ct_created_at c))]))"

definition message_item :: "message \<Rightarrow> json" where
  "message_item m = JObj [(''contact_id'', msg_contact m), (''direction'', msg_direction m), (''type'', msg_type m),
     (''body'', msg_body m), (''remote_id'', msg_remote_id m), (''ts'', JInt (msg_ts m)), (''state'', msg_state m)]"

text \<open>\<open>_message_from_row\<close> of the store: the dict that its readers return.\<close>

definition message_dict :: "message \<Rightarrow> json" where
  "message_dict m = JObj [(''id'', JStr (msg_id m)), (''identity_id'', JStr (msg_identity m)), (''contact_id'', msg_contact m),
     (''direction'', msg_direction m), (''type'', msg_type m), (''body'', msg_body m), (''remote_id'', msg_remote_id m),
     (''ts'', JInt (msg_ts m)), (''state'', msg_state m), (''meta'', msg_meta m)]"

definition body_digest :: "crypto \<Rightarrow> json \<Rightarrow> string" where
  "body_digest C body = take 16 (hexdigest (sha256 C (canonical_json (if body = JNull then JObj [] else body))))"

text \<open>The two shapes of a key, with the values in them as keys of a dict.\<close>

datatype mkey = KRemote json json string | KLocal json json int string string

definition message_key :: "crypto \<Rightarrow> json \<Rightarrow> mkey res" where
  "message_key C item =
     bindE (py_get item ''remote_id'') (\<lambda>remote_id.
     bindE (py_get item ''contact_id'') (\<lambda>contact_id.
     bindE (py_get item ''direction'') (\<lambda>direction.
     if truthy remote_id then Inr (KRemote contact_id direction (py_str remote_id))
     else bindE (py_get item ''ts'') (\<lambda>ts.
       bindE (py_int (py_or ts (JInt 0))) (\<lambda>ts.
       bindE (py_get item ''type'') (\<lambda>ty.
       bindE (py_get item ''body'') (\<lambda>body.
       Inr (KLocal contact_id direction ts (py_str ty) (body_digest C body)))))))))"

text \<open>Hashing the tuple when it is looked up.\<close>

fun hash_mkey :: "mkey \<Rightarrow> mkey res" where
  "hash_mkey (KRemote c d r) = bindE (hash_key c) (\<lambda>c. bindE (hash_key d) (\<lambda>d. Inr (KRemote c d r)))"
| "hash_mkey (KLocal c d t ty b) = bindE (hash_key c) (\<lambda>c. bindE (hash_key d) (\<lambda>d. Inr (KLocal c d t ty b)))"

record chunk_acc =
  ca_seen :: "string list"
  ca_used :: int
  ca_chunks :: "json list"
  ca_skipped :: "json list"

definition skip_entry :: "string \<Rightarrow> string \<Rightarrow> json" where
  "skip_entry cid reason = JObj [(''id'', JStr cid), (''reason'', JStr reason)]"

definition collect_chunk :: "store \<Rightarrow> int \<Rightarrow> chunk_acc \<Rightarrow> json \<Rightarrow> chunk_acc res" where
  "collect_chunk s budget a entry =
     bindE (py_get entry ''id'') (\<lambda>v.
     let cid = py_str v in
     if cid = [] \<or> cid \<in> set (ca_seen a) then Inr a
     else let a = a\<lparr>ca_seen := cid # ca_seen a\<rparr> in
       (case get_local_blob cid s of
          None \<Rightarrow> Inr (a\<lparr>ca_skipped := ca_skipped a @ [skip_entry cid ''not held here'']\<rparr>)
        | Some ct \<Rightarrow>
            if budget < ca_used a + int (length ct)
            then Inr (a\<lparr>ca_skipped := ca_skipped a @ [skip_entry cid ''over budget'']\<rparr>)
            else Inr (a\<lparr>ca_used := ca_used a + int (length ct),
                        ca_chunks := ca_chunks a @ [JObj [(''id'', JStr cid), (''ct'', JStr (b64e ct))]]\<rparr>)))"

fun foldE :: "('a \<Rightarrow> 'b \<Rightarrow> 'a res) \<Rightarrow> 'a \<Rightarrow> 'b list \<Rightarrow> 'a res" where
  "foldE f a [] = Inr a"
| "foldE f a (x # xs) = bindE (f a x) (\<lambda>a. foldE f a xs)"

text \<open>The chunk entries of one message: \<open>(item.get("body") or {}).get("attachment") or {}\<close>, then its \<open>chunks\<close>.\<close>

definition item_chunks :: "json \<Rightarrow> json list res" where
  "item_chunks item =
     bindE (py_get item ''body'') (\<lambda>body.
     bindE (py_get (py_or body (JObj [])) ''attachment'') (\<lambda>att.
     bindE (py_get (py_or att (JObj [])) ''chunks'') (\<lambda>cs. py_list_or (Some cs))))"

definition collect_chunks :: "store \<Rightarrow> int \<Rightarrow> json list \<Rightarrow> chunk_acc res" where
  "collect_chunks s budget items =
     foldE (\<lambda>a item. bindE (item_chunks item) (foldE (collect_chunk s budget) a))
       \<lparr>ca_seen = [], ca_used = 0, ca_chunks = [], ca_skipped = []\<rparr> items"

record bundle_args =
  ba_since :: "int option"
  ba_until :: "int option"
  ba_budget :: int
  ba_attachments :: bool

definition in_window :: "int \<Rightarrow> int \<Rightarrow> message \<Rightarrow> bool" where
  "in_window since til m \<longleftrightarrow> since \<le> msg_ts m \<and> msg_ts m \<le> til"

definition bundle_dict :: "int \<Rightarrow> string option \<Rightarrow> int \<Rightarrow> int \<Rightarrow> json list \<Rightarrow> json list \<Rightarrow> chunk_acc \<Rightarrow> dict" where
  "bundle_dict now device since til contacts messages acc =
     [(''v'', JInt HISTORY_VERSION), (''created'', JInt now),
      (''from_device'', JStr (if device = None \<or> device = Some [] then ''legacy'' else the device)),
      (''range'', JObj [(''since'', JInt since), (''until'', JInt til)]),
      (''contacts'', JArr contacts), (''messages'', JArr messages),
      (''chunks'', JArr (ca_chunks acc)), (''skipped'', JArr (ca_skipped acc))]"

text \<open>\<open>now\<close> is the clock in milliseconds.\<close>

definition build_bundle :: "int \<Rightarrow> string \<Rightarrow> string option \<Rightarrow> bundle_args \<Rightarrow> store \<Rightarrow> dict res" where
  "build_bundle now iid device a s =
     (let til = (case ba_until a of None \<Rightarrow> now | Some u \<Rightarrow> u);
          since = (case ba_since a of None \<Rightarrow> 0 | Some x \<Rightarrow> x) in
      bindE (mapE contact_item (list_contacts iid s)) (\<lambda>contacts.
      let messages = map message_item (filter (in_window since til) (list_all_messages iid s)) in
      bindE (if ba_attachments a then collect_chunks s (ba_budget a) messages
             else Inr \<lparr>ca_seen = [], ca_used = 0, ca_chunks = [], ca_skipped = []\<rparr>) (\<lambda>acc.
      Inr (bundle_dict now device since til contacts messages acc))))"

definition encode_bundle :: "dict \<Rightarrow> bytes" where
  "encode_bundle bundle = canonical_json (JObj bundle)"

definition is_list_field :: "dict \<Rightarrow> string \<Rightarrow> bool" where
  "is_list_field d k \<longleftrightarrow> (case map_of d k of Some (JArr _) \<Rightarrow> True | _ \<Rightarrow> False)"

definition decode_bundle :: "bytes \<Rightarrow> dict res" where
  "decode_bundle data =
     bindE (utf8_decode data) (\<lambda>t.
     bindE (rethrow (\<lambda>e. e = JSONDecodeError) HistoryError (json_loads t)) (\<lambda>bundle.
     (case bundle of
        JObj d \<Rightarrow>
          if json_is_int (map_of d ''v'') HISTORY_VERSION
          then (if list_all (is_list_field d) [''contacts'', ''messages'', ''chunks''] then Inr d else Inl HistoryError)
          else Inl HistoryError
      | _ \<Rightarrow> Inl HistoryError)))"

subsection \<open>Merge\<close>

definition read_contact_item :: "int \<Rightarrow> string \<Rightarrow> string \<Rightarrow> json \<Rightarrow> contact res" where
  "read_contact_item now iid cid item =
     bindE (py_get item ''nickname'') (\<lambda>nick.
     bindE (bindE (getitem item ''isign'') (\<lambda>v. b64d (py_str v))) (\<lambda>isign.
     bindE (bindE (getitem item ''idh'') (\<lambda>v. b64d (py_str v))) (\<lambda>idh.
     bindE (py_get item ''bundle'') (\<lambda>bid.
     bindE (py_get item ''inbox'') (\<lambda>inbox.
     bindE (bindE (py_get item ''relays'') (\<lambda>v. py_list_or (Some v))) (\<lambda>relays.
     bindE (py_get item ''verified'') (\<lambda>verified.
     bindE (bindE (py_get item ''created_at'') (\<lambda>v. py_int (py_or v (JInt now)))) (\<lambda>created.
     Inr \<lparr>ct_identity = iid, ct_id = cid, ct_nickname = nick, ct_isign = isign, ct_idh = idh,
       ct_bundle_id = bid, ct_inbox = py_or inbox (JObj []), ct_relays = JArr relays, ct_session = JNull,
       ct_verified = truthy verified, ct_created_at = created\<rparr>))))))))"

definition merge_contact :: "int \<Rightarrow> string \<Rightarrow> json \<Rightarrow> (store, bool) meth" where
  "merge_contact now iid item =
     bindS (liftS (py_get item ''id'')) (\<lambda>v.
     let cid = py_str (py_or v (JStr [])) in
     if cid = [] then returnS False
     else bindS (getS (get_contact iid cid)) (\<lambda>existing.
       if existing \<noteq> None then returnS False
       else thenS (rethrowS is_shape_error HistoryError
         (bindS (liftS (read_contact_item now iid cid item)) (upsert_contact now iid))) (returnS True)))"

record counts =
  n_contacts :: int
  n_messages :: int
  n_updates :: int
  n_chunks :: int

definition new_counts :: counts where
  "new_counts = \<lparr>n_contacts = 0, n_messages = 0, n_updates = 0, n_chunks = 0\<rparr>"

text \<open>The index of known messages: the latest entry of a key counts.\<close>

type_synonym known = "(mkey \<times> message) list"

definition message_index :: "crypto \<Rightarrow> string \<Rightarrow> store \<Rightarrow> known res" where
  "message_index C iid s =
     foldE (\<lambda>k m. bindE (bindE (message_key C (message_dict m)) hash_mkey) (\<lambda>key. Inr ((key, m) # k))) [] (list_all_messages iid s)"

fun merge_contacts :: "int \<Rightarrow> string \<Rightarrow> json list \<Rightarrow> counts \<Rightarrow> (store, counts) meth" where
  "merge_contacts now iid [] c = returnS c"
| "merge_contacts now iid (item # items) c =
     bindS (merge_contact now iid item) (\<lambda>added.
     merge_contacts now iid items (if added then c\<lparr>n_contacts := n_contacts c + 1\<rparr> else c))"

text \<open>One item; \<open>rnd\<close> is a fresh random id.  \<open>known.get(key)\<close> hashes the key.\<close>

definition update_known :: "message \<Rightarrow> json \<Rightarrow> known \<Rightarrow> counts \<Rightarrow> (store, known \<times> counts) meth" where
  "update_known existing incoming known c =
     bindS (liftS (state_rank incoming)) (\<lambda>new.
     bindS (liftS (state_rank (msg_state existing))) (\<lambda>old.
     if old < new then
       thenS (update_message (msg_id existing) [FState incoming]) (returnS (known, c\<lparr>n_updates := n_updates c + 1\<rparr>))
     else returnS (known, c)))"

definition read_message_item :: "string \<Rightarrow> bytes \<Rightarrow> json \<Rightarrow> message res" where
  "read_message_item iid rnd item =
     bindE (py_get item ''id'') (\<lambda>v.
     bindE (getitem item ''contact_id'') (\<lambda>contact.
     bindE (py_get item ''direction'') (\<lambda>direction.
     bindE (py_get item ''type'') (\<lambda>ty.
     bindE (py_get item ''body'') (\<lambda>body.
     bindE (py_get item ''remote_id'') (\<lambda>remote_id.
     bindE (bindE (py_get item ''ts'') (\<lambda>v. py_int (py_or v (JInt 0)))) (\<lambda>ts.
     bindE (py_get item ''state'') (\<lambda>state.
     Inr \<lparr>msg_id = (if truthy v then py_str v else hexdigest rnd), msg_identity = iid, msg_contact = contact,
         msg_direction = py_or direction (JStr ''received''), msg_type = py_or ty (JStr ''text''), msg_body = body,
         msg_remote_id = remote_id, msg_ts = ts, msg_state = state, msg_meta = JNull\<rparr>))))))))"

definition add_item :: "string \<Rightarrow> bytes \<Rightarrow> json \<Rightarrow> mkey \<Rightarrow> known \<Rightarrow> counts \<Rightarrow> (store, known \<times> counts) meth" where
  "add_item iid rnd item key known c =
     bindS (liftS (read_message_item iid rnd item)) (\<lambda>m.
     thenS (add_message m)
     (bindS (getS (get_message (msg_id m))) (\<lambda>row.
      returnS ((key, the row) # known, c\<lparr>n_messages := n_messages c + 1\<rparr>))))"

definition merge_message :: "crypto \<Rightarrow> string \<Rightarrow> bytes \<Rightarrow> json \<Rightarrow> known \<Rightarrow> counts \<Rightarrow> (store, known \<times> counts) meth" where
  "merge_message C iid rnd item known c =
     bindS (liftS (py_get item ''contact_id'')) (\<lambda>contact.
     if \<not> truthy contact then returnS (known, c)
     else bindS (liftS (bindE (message_key C item) hash_mkey)) (\<lambda>key.
       case map_of known key of
         Some existing \<Rightarrow> bindS (liftS (py_get item ''state'')) (\<lambda>incoming. update_known existing incoming known c)
       | None \<Rightarrow> add_item iid rnd item key known c))"

fun merge_messages :: "crypto \<Rightarrow> string \<Rightarrow> (nat \<Rightarrow> bytes) \<Rightarrow> json list \<Rightarrow> known \<Rightarrow> counts \<Rightarrow> (store, known \<times> counts) meth" where
  "merge_messages C iid rnd [] known c = returnS (known, c)"
| "merge_messages C iid rnd (item # items) known c =
     bindS (merge_message C iid (rnd 0) item known c) (\<lambda>(known, c). merge_messages C iid (\<lambda>n. rnd (n + 1)) items known c)"

definition merge_chunk :: "int \<Rightarrow> json \<Rightarrow> counts \<Rightarrow> (store, counts) meth" where
  "merge_chunk now chunk c =
     bindS (liftS (py_get chunk ''id'')) (\<lambda>v.
     let cid = py_str (py_or v (JStr [])) in
     if cid = [] then returnS c
     else bindS (liftS (rethrow (\<lambda>_. True) HistoryError (bindE (getitem chunk ''ct'') (\<lambda>v. b64d (py_str v))))) (\<lambda>ct.
       bindS (getS (has_local_blob cid)) (\<lambda>held.
       if held then returnS c
       else thenS (put_local_blob now cid ct) (returnS (c\<lparr>n_chunks := n_chunks c + 1\<rparr>)))))"

fun merge_chunks :: "int \<Rightarrow> json list \<Rightarrow> counts \<Rightarrow> (store, counts) meth" where
  "merge_chunks now [] c = returnS c"
| "merge_chunks now (chunk # chunks) c = bindS (merge_chunk now chunk c) (merge_chunks now chunks)"

definition merge_bundle :: "crypto \<Rightarrow> int \<Rightarrow> (nat \<Rightarrow> bytes) \<Rightarrow> string \<Rightarrow> dict \<Rightarrow> (store, counts) meth" where
  "merge_bundle C now rnd iid bundle =
     bindS (liftS (py_list_or (map_of bundle ''contacts''))) (\<lambda>contacts.
     bindS (merge_contacts now iid contacts new_counts) (\<lambda>c.
     bindS (\<lambda>s. (message_index C iid s, s)) (\<lambda>known.
     bindS (liftS (py_list_or (map_of bundle ''messages''))) (\<lambda>messages.
     bindS (merge_messages C iid rnd messages known c) (\<lambda>(_, c).
     bindS (liftS (py_list_or (map_of bundle ''chunks''))) (\<lambda>chunks.
     merge_chunks now chunks c))))))"

subsection \<open>Export file\<close>

definition export_key :: "vault_prims \<Rightarrow> string \<Rightarrow> bytes \<Rightarrow> int \<Rightarrow> bytes" where
  "export_key V passphrase salt iterations = derive_key_from_passphrase V passphrase salt iterations"

text \<open>\<open>len(bundle[k])\<close> for a key that holds a list.\<close>

definition list_len :: "dict \<Rightarrow> string \<Rightarrow> json" where
  "list_len d k = JInt (case map_of d k of Some (JArr xs) \<Rightarrow> int (length xs) | _ \<Rightarrow> 0)"

definition export_header :: "bytes \<Rightarrow> dict \<Rightarrow> dict" where
  "export_header salt bundle =
     [(''v'', JInt HISTORY_VERSION), (''created'', case map_of bundle ''created'' of None \<Rightarrow> JNull | Some v \<Rightarrow> v),
      (''kdf'', JObj [(''salt'', JStr (b64e salt)), (''iterations'', JInt PBKDF2_ITERATIONS)]),
      (''counts'', JObj [(''contacts'', list_len bundle ''contacts''), (''messages'', list_len bundle ''messages''),
        (''chunks'', list_len bundle ''chunks''), (''skipped'', list_len bundle ''skipped'')])]"

definition export_history ::
  "crypto \<Rightarrow> vault_prims \<Rightarrow> zlib \<Rightarrow> int \<Rightarrow> bytes \<Rightarrow> bytes \<Rightarrow> string \<Rightarrow> string option \<Rightarrow> string \<Rightarrow> bundle_args \<Rightarrow> store \<Rightarrow> bytes res" where
  "export_history C V z now salt nonce iid device passphrase args s =
     (if passphrase = [] then Inl HistoryError
      else bindE (build_bundle now iid device args s) (\<lambda>bundle.
        let key = export_key V passphrase salt PBKDF2_ITERATIONS;
            header_bytes = canonical_json (JObj (export_header salt bundle));
            plaintext = z_compress z (encode_bundle bundle) in
        bindE (aead_encrypt C nonce key plaintext HISTORY_MAGIC) (\<lambda>(n, ciphertext).
        bindE (to_bytes4 (int (length header_bytes))) (\<lambda>len.
        Inr (HISTORY_MAGIC @ [word_of_int HISTORY_VERSION] @ len @ header_bytes @ n @ ciphertext)))))"

definition is_history_file :: "bytes \<Rightarrow> bool" where
  "is_history_file data \<longleftrightarrow> take (length HISTORY_MAGIC) data = HISTORY_MAGIC"

definition header_length :: "bytes \<Rightarrow> nat" where
  "header_length data = nat (from_bytes (take 4 (drop 5 data)))"

definition read_export_header :: "bytes \<Rightarrow> json res" where
  "read_export_header data =
     (if \<not> is_history_file data then Inl HistoryError
      else bindE (rethrow (\<lambda>e. e = IndexError \<or> is_value_error e) HistoryError
        (bindE (if 4 < length data then Inr (uint (data ! 4)) else Inl IndexError) (\<lambda>version.
         bindE (loads_bytes (take (header_length data) (drop 9 data))) (\<lambda>header. Inr (version, header))))) (\<lambda>(version, header).
      if version \<noteq> HISTORY_VERSION then Inl HistoryError
      else case header of
        JObj d \<Rightarrow> if json_is_int (map_of d ''v'') HISTORY_VERSION then Inr header else Inl HistoryError
      | _ \<Rightarrow> Inl AttributeError))"

definition open_history :: "crypto \<Rightarrow> vault_prims \<Rightarrow> zlib \<Rightarrow> bytes \<Rightarrow> string \<Rightarrow> dict res" where
  "open_history C V z data passphrase =
     bindE (read_export_header data) (\<lambda>header.
     if passphrase = [] then Inl HistoryError
     else bindE (rethrow is_shape_error HistoryError
       (bindE (getitem header ''kdf'') (\<lambda>kdf.
        bindE (bindE (getitem kdf ''salt'') (\<lambda>v. b64d (py_str v))) (\<lambda>salt.
        bindE (bindE (getitem kdf ''iterations'') py_int) (\<lambda>iterations. Inr (salt, iterations)))))) (\<lambda>(salt, iterations).
     let body = drop (9 + header_length data) data in
     if length body \<le> 12 then Inl HistoryError
     else bindE (rethrow (\<lambda>e. e = AEADError) HistoryError
            (aead_decrypt C (export_key V passphrase salt iterations) (take 12 body) (drop 12 body) HISTORY_MAGIC)) (\<lambda>plaintext.
          rethrow (\<lambda>e. e = ZlibError) HistoryError (bindE (z_decompress z plaintext) decode_bundle))))"

text \<open>\<open>import_history\<close>: open the file, then merge the bundle.\<close>

definition import_history ::
  "crypto \<Rightarrow> vault_prims \<Rightarrow> zlib \<Rightarrow> int \<Rightarrow> (nat \<Rightarrow> bytes) \<Rightarrow> string \<Rightarrow> bytes \<Rightarrow> string \<Rightarrow> (store, counts) meth" where
  "import_history C V z now rnd iid data passphrase =
     bindS (liftS (open_history C V z data passphrase)) (merge_bundle C now rnd iid)"

subsection \<open>Reading back an export\<close>

lemma build_bundle_shape:
  assumes "build_bundle now iid device a s = Inr b"
  shows "\<exists>since til cs ms acc. b = bundle_dict now device since til cs ms acc"
  using assms unfolding build_bundle_def Let_def bindE_Inr_iff by blast

lemma jsort_list_field:
  assumes "distinct (map fst d)" "jsort (JObj d) = JObj d'" "is_list_field d k"
  shows "is_list_field d' k"
proof -
  obtain xs where xs: "map_of d k = Some (JArr xs)"
    using assms(3) by (auto simp: is_list_field_def split: option.splits json.splits)
  obtain e where "jsort (JObj d) = JObj e" "map_of e k = map_option jsort (map_of d k)"
    using jsort_object [OF assms(1)] by metis
  then show ?thesis using assms(2) xs by (simp add: is_list_field_def)
qed

lemma jsort_obj_ex: "\<exists>d. jsort (JObj kvs) = JObj d"
  unfolding jsort_obj by blast

lemma decode_encode_bundle:
  assumes b: "build_bundle now iid device a s = Inr b" and ok: "json_ok (JObj b)"
  shows "\<exists>d. decode_bundle (encode_bundle b) = Inr d \<and> JObj d = jsort (JObj b)"
proof -
  obtain d where d: "jsort (JObj b) = JObj d" using jsort_obj_ex by blast
  have dist: "distinct (map fst b)" using ok by (simp add: json_ok_obj)
  have "loads_bytes (canonical_json (JObj b)) = Inr (JObj d)" using loads_canonical_json [OF ok] d by simp
  then obtain t where t: "utf8_decode (canonical_json (JObj b)) = Inr t" "json_loads t = Inr (JObj d)"
    by (auto simp: loads_bytes_def res_simps)
  obtain since til cs ms acc where shape: "b = bundle_dict now device since til cs ms acc"
    using build_bundle_shape [OF b] by blast
  obtain e where e: "jsort (JObj b) = JObj e" "\<And>k. map_of e k = map_option jsort (map_of b k)"
    by (rule jsort_object [OF dist]) (rule that)
  have "map_of b ''v'' = Some (JInt HISTORY_VERSION)" unfolding shape bundle_dict_def by simp
  then have v: "map_of d ''v'' = Some (JInt HISTORY_VERSION)" using d e by simp
  have "is_list_field b ''contacts''" "is_list_field b ''messages''" "is_list_field b ''chunks''"
    unfolding shape is_list_field_def bundle_dict_def by simp_all
  then have "list_all (is_list_field d) [''contacts'', ''messages'', ''chunks'']"
    using jsort_list_field [OF dist d] by simp
  then show ?thesis using t v d by (simp add: decode_bundle_def encode_bundle_def json_is_int_def)
qed

lemma length_magic [simp]: "length HISTORY_MAGIC = 4"
  by (simp add: HISTORY_MAGIC_def)

text \<open>The layout of a file: magic, version, length of the header, header, then the sealed body.\<close>

definition file_layout :: "bytes \<Rightarrow> bytes \<Rightarrow> bytes \<Rightarrow> bytes" where
  "file_layout len hdr body = HISTORY_MAGIC @ [word_of_int HISTORY_VERSION] @ len @ hdr @ body"

lemma layout_parts:
  assumes "to_bytes4 (int (length hdr)) = Inr len"
  shows "header_length (file_layout len hdr body) = length hdr"
    "take (length hdr) (drop 9 (file_layout len hdr body)) = hdr"
    "drop (9 + length hdr) (file_layout len hdr body) = body"
    "is_history_file (file_layout len hdr body)" "file_layout len hdr body ! 4 = 1" "4 < length (file_layout len hdr body)"
proof -
  have len: "length len = 4" by (rule length_to_bytes4 [OF assms])
  then show "header_length (file_layout len hdr body) = length hdr"
    using from_to_bytes4 [OF assms] by (simp add: header_length_def file_layout_def)
  show "take (length hdr) (drop 9 (file_layout len hdr body)) = hdr" "is_history_file (file_layout len hdr body)"
    "file_layout len hdr body ! 4 = 1" "4 < length (file_layout len hdr body)"
    using len by (simp_all add: file_layout_def is_history_file_def nth_append HISTORY_VERSION_def)
  have "drop (length hdr) (drop 9 (file_layout len hdr body)) = body" using len by (simp add: file_layout_def)
  then show "drop (9 + length hdr) (file_layout len hdr body) = body" by (simp add: add.commute)
qed

lemma export_header_ok:
  assumes "build_bundle now iid device a s = Inr b"
  shows "json_ok (JObj (export_header salt b))"
proof -
  obtain since til cs ms acc where shape: "b = bundle_dict now device since til cs ms acc"
    using build_bundle_shape [OF assms] by blast
  have c: "map_of b ''created'' = Some (JInt now)" unfolding shape bundle_dict_def by simp
  show ?thesis
    unfolding export_header_def json_ok_obj c list_len_def by (simp add: json_ok_obj str_ok_ascii ascii_def)
qed

lemma read_exported_header:
  assumes "json_ok (JObj (export_header salt b))" "to_bytes4 (int (length (canonical_json (JObj (export_header salt b))))) = Inr len"
  obtains d k where "read_export_header (file_layout len (canonical_json (JObj (export_header salt b))) body) = Inr (JObj d)"
    "map_of d ''kdf'' = Some (JObj k)" "map_of k ''salt'' = Some (JStr (b64e salt))" "map_of k ''iterations'' = Some (JInt PBKDF2_ITERATIONS)"
proof -
  let ?h = "export_header salt b"
  let ?kdf = "[(''salt'', JStr (b64e salt)), (''iterations'', JInt PBKDF2_ITERATIONS)]"
  obtain d where d: "loads_bytes (canonical_json (JObj ?h)) = Inr (JObj d)" "\<And>k. map_of d k = map_option jsort (map_of ?h k)"
    by (rule loads_object [OF assms(1)]) (rule that)
  have "map_of ?h ''v'' = Some (JInt 1)" "map_of ?h ''kdf'' = Some (JObj ?kdf)"
    by (simp_all add: export_header_def HISTORY_VERSION_def)
  then have v: "map_of d ''v'' = Some (JInt 1)" and kdf: "map_of d ''kdf'' = Some (jsort (JObj ?kdf))" using d(2) by simp_all
  obtain k where k: "jsort (JObj ?kdf) = JObj k" "\<And>x. map_of k x = map_option jsort (map_of ?kdf x)"
    by (rule jsort_object [of ?kdf]) (simp, rule that)
  show thesis
  proof (rule that)
    show "read_export_header (file_layout len (canonical_json (JObj ?h)) body) = Inr (JObj d)"
      using layout_parts [OF assms(2)] d(1) v by (simp add: read_export_header_def HISTORY_VERSION_def json_is_int_def)
    show "map_of d ''kdf'' = Some (JObj k)" using kdf k(1) by (simp only:)
    show "map_of k ''salt'' = Some (JStr (b64e salt))" "map_of k ''iterations'' = Some (JInt PBKDF2_ITERATIONS)"
      using k(2) by simp_all
  qed
qed

lemma open_exported:
  assumes "aead_correct C" "aead_tagged C" "pbkdf2_length V" "zlib_ok z" "length nonce = 12"
    and b: "build_bundle now iid device a s = Inr b" and ok: "json_ok (JObj b)"
    and e: "export_history C V z now salt nonce iid device passphrase a s = Inr data"
  shows "\<exists>d. open_history C V z data passphrase = Inr d \<and> JObj d = jsort (JObj b)"
proof -
  let ?hb = "canonical_json (JObj (export_header salt b))"
  let ?key = "export_key V passphrase salt PBKDF2_ITERATIONS"
  let ?p = "z_compress z (encode_bundle b)"
  let ?ct = "chacha_seal C ?key nonce ?p HISTORY_MAGIC"
  have key: "length ?key = 32" using assms(3) by (simp add: export_key_def derive_key_from_passphrase_def pbkdf2_length_def)
  have pw: "passphrase \<noteq> []" using e by (auto simp: export_history_def)
  obtain len where len: "to_bytes4 (int (length ?hb)) = Inr len" "data = file_layout len ?hb (nonce @ ?ct)"
    using e pw b by (auto simp: export_history_def Let_def aead_encrypt_Inr [OF key] res_simps file_layout_def)
  obtain d k where d: "read_export_header data = Inr (JObj d)" "map_of d ''kdf'' = Some (JObj k)"
    "map_of k ''salt'' = Some (JStr (b64e salt))" "map_of k ''iterations'' = Some (JInt PBKDF2_ITERATIONS)"
    by (rule read_exported_header [OF export_header_ok [OF b] len(1), of "nonce @ ?ct", folded len(2)]) (rule that)
  have body: "drop (9 + header_length data) data = nonce @ ?ct"
    unfolding len(2) layout_parts(1) [OF len(1)] by (rule layout_parts(3) [OF len(1)])
  have "length ?p < length ?ct" using assms(2) by (simp add: aead_tagged_def)
  then have long: "\<not> length (nonce @ ?ct) \<le> 12" using assms(5) by auto
  have dec: "aead_decrypt C ?key nonce ?ct HISTORY_MAGIC = Inr ?p"
    by (rule aead_decrypt_encrypt [OF assms(1,5) aead_encrypt_Inr [OF key]])
  obtain r where r: "decode_bundle (encode_bundle b) = Inr r" "JObj r = jsort (JObj b)"
    using decode_encode_bundle [OF b ok] by blast
  have "open_history C V z data passphrase = Inr r"
    using d pw long dec assms(4,5) r(1) unfolding open_history_def body
    by (simp add: zlib_ok_def)
  then show ?thesis using r(2) by blast
qed

subsection \<open>What a merge never touches\<close>

text \<open>Contacts that are there stay as they are; messages that are there stay, with everything but their state, body, remote id
  and notes.\<close>

definition same_message :: "message \<Rightarrow> message \<Rightarrow> bool" where
  "same_message m m' \<longleftrightarrow> msg_id m' = msg_id m \<and> msg_identity m' = msg_identity m \<and> msg_contact m' = msg_contact m
     \<and> msg_direction m' = msg_direction m \<and> msg_type m' = msg_type m \<and> msg_ts m' = msg_ts m"

definition history_kept :: "store \<Rightarrow> store \<Rightarrow> bool" where
  "history_kept s s' \<longleftrightarrow> (\<forall>i c r. get_contact i c s = Some r \<longrightarrow> get_contact i c s' = Some r)
     \<and> (\<forall>i m. get_message i s = Some m \<longrightarrow> (\<exists>m'. get_message i s' = Some m' \<and> same_message m m'))"

lemma same_message_refl: "same_message m m"
  by (simp add: same_message_def)

lemma same_message_trans: "same_message a b \<Longrightarrow> same_message b c \<Longrightarrow> same_message a c"
  by (simp add: same_message_def)

interpretation kept: method_relation history_kept
proof
  show "history_kept s s" for s by (auto simp: history_kept_def intro: same_message_refl)
  show "history_kept a c" if "history_kept a b" "history_kept b c" for a b c
    using that unfolding history_kept_def by (meson same_message_trans)
qed

lemma history_kept_eq: "s_contacts s' = s_contacts s \<Longrightarrow> s_messages s' = s_messages s \<Longrightarrow> history_kept s s'"
  by (auto simp: history_kept_def get_contact_def get_message_def intro: same_message_refl)

lemma kept_put_local_blob: "history_kept s (snd (put_local_blob now cid ct s))"
  by (subst blob_ops_frame) (simp add: history_kept_eq)

lemma kept_upsert_contact:
  assumes "get_contact iid (ct_id c) s = None"
  shows "history_kept s (snd (upsert_contact now iid c s))"
proof -
  have "history_kept s (s\<lparr>s_contacts := upsert contact_key merge_contact_row r (s_contacts s)\<rparr>)"
    if "contact_key r = (iid, ct_id c)" for r
    using assms that by (auto simp: history_kept_def get_contact_def get_message_def contact_table.lookup_upsert
        intro: same_message_refl)
  then show ?thesis unfolding upsert_contact_def
    by (intro kept.rel_lift) (simp add: snd_modify contact_key_def)
qed

lemma kept_add_message: "history_kept s (snd (add_message m s))"
proof -
  have "history_kept s (s\<lparr>s_messages := upsert msg_id merge_message_row r (s_messages s)\<rparr>)" for r
    by (auto simp: history_kept_def get_contact_def get_message_def message_table.lookup_upsert
        same_message_def merge_message_row_def)
  then show ?thesis unfolding add_message_def by (intro kept.rel_lift) (simp add: snd_modify)
qed

lemma lookup_map:
  "(\<And>x. key (f x) = key x) \<Longrightarrow> lookup key k (map f rows) = map_option f (lookup key k rows)"
  by (induction rows) (auto simp: lookup_def)

definition with_state :: "string \<Rightarrow> json \<Rightarrow> message \<Rightarrow> message" where
  "with_state mid t m = (if msg_id m = mid then m\<lparr>msg_state := t\<rparr> else m)"

lemma update_state:
  "update_message mid [FState v] s =
     (case col_text v of Inl e \<Rightarrow> (Inl e, s)
      | Inr t \<Rightarrow> if list_ex (\<lambda>m. msg_id m = mid \<and> \<not> not_null m) (s_messages s) then (Inl IntegrityError, s)
                else (Inr (), s\<lparr>s_messages := map (with_state mid t) (s_messages s)\<rparr>))"
  by (cases "col_text v") (simp_all add: update_message_def meth_defs not_null_def with_state_def cong: if_cong)

lemma with_state_same [simp]:
  "msg_id (with_state mid t m) = msg_id m" "msg_identity (with_state mid t m) = msg_identity m"
  "msg_ts (with_state mid t m) = msg_ts m" "same_message m (with_state mid t m)"
  by (simp_all add: with_state_def same_message_def)

lemma kept_update_state: "history_kept s (snd (update_message mid [FState v] s))"
proof -
  have "history_kept s (s\<lparr>s_messages := map (with_state mid t) (s_messages s)\<rparr>)" for t
    by (auto simp: history_kept_def get_contact_def get_message_def lookup_map)
  then show ?thesis by (simp add: update_state kept.R_refl split: sum.split)
qed

lemma kept_merge_contact: "history_kept s (snd (merge_contact now iid item s))"
proof -
  have "read_contact_item now iid cid item = Inr c \<Longrightarrow> ct_id c = cid" for cid c
    by (auto simp: read_contact_item_def res_simps)
  then show ?thesis unfolding merge_contact_def Let_def
    by (intro kept.rel_intros) (simp_all add: kept_upsert_contact)
qed

lemma kept_merge_contacts: "history_kept s (snd (merge_contacts now iid items c s))"
proof (induction items arbitrary: s c)
  case (Cons item items)
  then show ?case by (simp only: merge_contacts.simps) (rule kept.rel_bind [OF kept_merge_contact])
qed (simp add: kept.rel_return)

lemma kept_merge_message: "history_kept s (snd (merge_message C iid rnd item known c s))"
proof -
  have "history_kept t (snd (update_known m v known c t))" for t m v
    unfolding update_known_def by (intro kept.rel_intros) (rule kept_update_state)
  moreover have "history_kept t (snd (add_item iid rnd item key known c t))" for t key
    unfolding add_item_def by (intro kept.rel_intros) (rule kept_add_message)
  ultimately show ?thesis unfolding merge_message_def
    by (intro kept.rel_intros) (auto split: option.split intro: kept.rel_lift)
qed

lemma kept_merge_messages: "history_kept s (snd (merge_messages C iid rnd items known c s))"
proof (induction items arbitrary: s known c rnd)
  case (Cons item items)
  show ?case
    by (simp only: merge_messages.simps) (rule kept.rel_bind [OF kept_merge_message], auto simp: Cons.IH split: prod.split)
qed (simp add: kept.rel_return)

lemma kept_merge_chunk: "history_kept s (snd (merge_chunk now chunk c s))"
  unfolding merge_chunk_def Let_def by (intro kept.rel_intros) (rule kept_put_local_blob)

lemma kept_merge_chunks: "history_kept s (snd (merge_chunks now chunks c s))"
proof (induction chunks arbitrary: s c)
  case (Cons chunk chunks)
  then show ?case by (simp only: merge_chunks.simps) (rule kept.rel_bind [OF kept_merge_chunk])
qed (simp add: kept.rel_return)

lemma kept_merge_bundle: "history_kept s (snd (merge_bundle C now rnd iid bundle s))"
proof -
  have idx: "history_kept t (snd (bindS (\<lambda>s. (message_index C iid s, s)) f t))" if "\<And>k. history_kept t (snd (f k t))" for t f
    using that by (cases "message_index C iid t") (simp_all add: bindS_def kept.R_refl)
  have fin: "history_kept t (snd (bindS (liftS r) (\<lambda>chunks. merge_chunks now chunks c) t))" for t r c
    by (rule kept.rel_lift) (rule kept_merge_chunks)
  have mid: "history_kept t (snd (bindS (merge_messages C iid rnd ms known c) (\<lambda>(_, c). bindS (liftS r) (\<lambda>chunks. merge_chunks now chunks c)) t))"
    for t ms known c r
    by (rule kept.rel_bind [OF kept_merge_messages]) (simp add: fin split: prod.split)
  show ?thesis unfolding merge_bundle_def
    by (intro kept.rel_lift kept.rel_bind [OF kept_merge_contacts] idx mid)
qed

subsection \<open>The index of known messages\<close>

definition row_key :: "crypto \<Rightarrow> message \<Rightarrow> mkey res" where
  "row_key C m = bindE (message_key C (message_dict m)) hash_mkey"

text \<open>The rows of an identity with a given key, in the order of \<open>list_all_messages\<close>; the index holds the last one.\<close>

definition rows_with :: "crypto \<Rightarrow> string \<Rightarrow> mkey \<Rightarrow> message list \<Rightarrow> message list" where
  "rows_with C iid k ms = sort_key msg_ts (sort_key msg_id (filter (\<lambda>m. row_key C m = Inr k) (filter (\<lambda>m. msg_identity m = iid) ms)))"

definition indexed :: "crypto \<Rightarrow> string \<Rightarrow> mkey \<Rightarrow> store \<Rightarrow> message option" where
  "indexed C iid k s = (let l = rows_with C iid k (s_messages s) in if l = [] then None else Some (last l))"

definition keyed :: "crypto \<Rightarrow> string \<Rightarrow> store \<Rightarrow> bool" where
  "keyed C iid s \<longleftrightarrow> list_all (\<lambda>m. msg_identity m = iid \<longrightarrow> (\<exists>k. row_key C m = Inr k)) (s_messages s)"

lemma index_fold:
  "foldE (\<lambda>k m. bindE (row_key C m) (\<lambda>key. Inr ((key, m) # k))) acc xs = Inr idx \<Longrightarrow>
   map_of idx k = (let l = filter (\<lambda>m. row_key C m = Inr k) xs in if l = [] then map_of acc k else Some (last l))"
  by (induction xs arbitrary: acc) (auto simp: res_simps Let_def)

lemma index_fold_total:
  "(\<exists>idx. foldE (\<lambda>k m. bindE (row_key C m) (\<lambda>key. Inr ((key, m) # k))) acc xs = Inr idx) \<longleftrightarrow> (\<forall>m \<in> set xs. \<exists>k. row_key C m = Inr k)"
proof (induction xs arbitrary: acc)
  case (Cons x xs)
  then show ?case by (cases "row_key C x") auto
qed simp

lemma message_index_fold:
  "message_index C iid s = foldE (\<lambda>k m. bindE (row_key C m) (\<lambda>key. Inr ((key, m) # k))) [] (list_all_messages iid s)"
  by (simp add: message_index_def row_key_def)

lemma index_lookup: "message_index C iid s = Inr idx \<Longrightarrow> map_of idx k = indexed C iid k s"
  unfolding message_index_fold
  by (drule index_fold [where k = k]) (simp add: indexed_def rows_with_def list_all_messages_def filter_sort Let_def)

lemma index_total: "(\<exists>idx. message_index C iid s = Inr idx) \<longleftrightarrow> keyed C iid s"
  unfolding message_index_fold index_fold_total by (auto simp: keyed_def list_all_messages_def list_all_iff)

lemma rows_with_in: "m \<in> set (rows_with C iid k ms) \<longleftrightarrow> m \<in> set ms \<and> msg_identity m = iid \<and> row_key C m = Inr k"
  by (auto simp: rows_with_def)

lemma indexed_in: "indexed C iid k s = Some m \<Longrightarrow> m \<in> set (s_messages s) \<and> msg_identity m = iid \<and> row_key C m = Inr k"
  using rows_with_in [of m C iid k "s_messages s"] by (auto simp: indexed_def Let_def split: if_splits)

lemma indexed_none: "indexed C iid k s = None \<Longrightarrow> rows_with C iid k (s_messages s) = []"
  by (auto simp: indexed_def Let_def split: if_splits)

lemma insort_key_map_same:
  "(\<And>x. g (f x) = g x) \<Longrightarrow> insort_key g (f x) (map f xs) = map f (insort_key g x xs)"
  by (induction xs) auto

lemma sort_key_map_same: "(\<And>x. g (f x) = g x) \<Longrightarrow> sort_key g (map f xs) = map f (sort_key g xs)"
  by (induction xs) (auto simp: insort_key_map_same)

lemma row_key_with_state [simp]: "row_key C (with_state mid t m) = row_key C m"
  by (simp add: row_key_def message_key_def message_dict_def with_state_def)

lemma rows_with_state: "rows_with C iid k (map (with_state mid t) ms) = map (with_state mid t) (rows_with C iid k ms)"
  by (simp add: rows_with_def filter_map o_def sort_key_map_same)

lemma indexed_with_state:
  assumes "distinct (map msg_id (s_messages s))" "indexed C iid k s = Some m"
  shows "indexed C iid k' (s\<lparr>s_messages := map (with_state (msg_id m) t) (s_messages s)\<rparr>)
    = (if k' = k then Some (m\<lparr>msg_state := t\<rparr>) else indexed C iid k' s)"
proof -
  let ?f = "with_state (msg_id m) t"
  have "indexed C iid k' (s\<lparr>s_messages := map ?f (s_messages s)\<rparr>) = map_option ?f (indexed C iid k' s)"
    by (simp add: indexed_def rows_with_state last_map Let_def)
  moreover have "msg_id m' \<noteq> msg_id m" if "indexed C iid k' s = Some m'" "k' \<noteq> k" for m'
    using that indexed_in [OF that(1)] indexed_in [OF assms(2)] assms(1) by (metis distinct_map inj_onD sum.inject(2))
  ultimately show ?thesis using assms(2) by (cases "indexed C iid k' s") (auto simp: with_state_def)
qed

lemma rows_with_append:
  "rows_with C iid k (ms @ [r]) = (if msg_identity r = iid \<and> row_key C r = Inr k
     then sort_key msg_ts (sort_key msg_id (filter (\<lambda>m. row_key C m = Inr k) (filter (\<lambda>m. msg_identity m = iid) ms) @ [r]))
     else rows_with C iid k ms)"
  by (simp add: rows_with_def)

lemma indexed_append:
  assumes "msg_identity r = iid" "row_key C r = Inr k" "indexed C iid k s = None"
  shows "indexed C iid k' (s\<lparr>s_messages := s_messages s @ [r]\<rparr>) = (if k' = k then Some r else indexed C iid k' s)"
proof -
  have "rows_with C iid k (s_messages s) = []" by (rule indexed_none [OF assms(3)])
  then have "filter (\<lambda>m. row_key C m = Inr k) (filter (\<lambda>m. msg_identity m = iid) (s_messages s)) = []"
    unfolding rows_with_def by (metis set_empty set_sort)
  then have "rows_with C iid k (s_messages s @ [r]) = [r]" using assms(1,2) by (simp add: rows_with_append)
  moreover have "k' \<noteq> k \<Longrightarrow> rows_with C iid k' (s_messages s @ [r]) = rows_with C iid k' (s_messages s)"
    using assms(2) by (simp add: rows_with_append)
  ultimately show ?thesis by (simp add: indexed_def Let_def)
qed

subsection \<open>Merging messages\<close>

definition text_or_null :: "json option \<Rightarrow> bool" where
  "text_or_null m \<longleftrightarrow> (case m of None \<Rightarrow> True | Some JNull \<Rightarrow> True | Some (JStr _) \<Rightarrow> True | _ \<Rightarrow> False)"

definition nonempty_text :: "json option \<Rightarrow> bool" where
  "nonempty_text m \<longleftrightarrow> (case m of Some (JStr t) \<Rightarrow> t \<noteq> [] | _ \<Rightarrow> False)"

text \<open>An item as \<open>message_item\<close> makes it.\<close>

definition item_ok :: "json \<Rightarrow> bool" where
  "item_ok v \<longleftrightarrow> (case v of
      JObj d \<Rightarrow> nonempty_text (map_of d ''contact_id'') \<and> nonempty_text (map_of d ''direction'') \<and> nonempty_text (map_of d ''type'')
        \<and> text_or_null (map_of d ''remote_id'') \<and> text_or_null (map_of d ''state'') \<and> map_of d ''id'' = None
        \<and> (case map_of d ''ts'' of Some (JInt t) \<Rightarrow> sql_int t = Inr t | _ \<Rightarrow> False)
    | _ \<Rightarrow> False)"

definition item_key :: "crypto \<Rightarrow> json \<Rightarrow> mkey res" where
  "item_key C item = bindE (message_key C item) hash_mkey"

lemma nonempty_textE: "nonempty_text m \<Longrightarrow> \<exists>t. m = Some (JStr t) \<and> t \<noteq> []"
  by (auto simp: nonempty_text_def split: option.splits json.splits)

lemma text_or_nullE: "text_or_null m \<Longrightarrow> (case m of None \<Rightarrow> JNull | Some v \<Rightarrow> v) \<in> insert JNull (range JStr)"
  by (auto simp: text_or_null_def split: option.splits json.splits)

lemma hash_text: "v \<in> insert JNull (range JStr) \<Longrightarrow> hash_key v = Inr v"
  by auto

lemma col_text_text: "v \<in> insert JNull (range JStr) \<Longrightarrow> col_text v = Inr v"
  by (auto simp: col_text_def sql_text_def)

lemma py_int_or_zero: "py_int (py_or (JInt t) (JInt 0)) = Inr t"
  by (simp add: py_or_def)

text \<open>A well-formed item is added as a row with the same key.\<close>

lemma read_item:
  assumes "item_ok item"
  obtains m k where "read_message_item iid rnd item = Inr m" "msg_id m = hexdigest rnd" "msg_identity m = iid" "message_columns m = Inr m"
    "item_key C item = Inr k" "row_key C m = Inr k" "py_get item ''state'' = Inr (msg_state m)"
    "msg_state m \<in> insert JNull (range JStr)" "\<exists>v. py_get item ''contact_id'' = Inr v \<and> truthy v"
proof -
  obtain d where d: "item = JObj d" using assms by (auto simp: item_ok_def split: json.splits)
  have ok: "nonempty_text (map_of d ''contact_id'')" "nonempty_text (map_of d ''direction'')" "nonempty_text (map_of d ''type'')"
    "text_or_null (map_of d ''remote_id'')" "text_or_null (map_of d ''state'')" "map_of d ''id'' = None"
    "\<exists>t. map_of d ''ts'' = Some (JInt t) \<and> sql_int t = Inr t"
    using assms d by (auto simp: item_ok_def split: option.splits json.splits)
  obtain c di ty t where f: "map_of d ''contact_id'' = Some (JStr c)" "c \<noteq> []" "map_of d ''direction'' = Some (JStr di)" "di \<noteq> []"
    "map_of d ''type'' = Some (JStr ty)" "ty \<noteq> []" "map_of d ''ts'' = Some (JInt t)" "sql_int t = Inr t"
    using ok by (blast dest: nonempty_textE)
  obtain rid st body where g: "py_get item ''remote_id'' = Inr rid" "py_get item ''state'' = Inr st" "py_get item ''body'' = Inr body"
    "rid \<in> insert JNull (range JStr)" "st \<in> insert JNull (range JStr)"
    using d text_or_nullE [OF ok(4)] text_or_nullE [OF ok(5)] by simp
  let ?m = "\<lparr>msg_id = hexdigest rnd, msg_identity = iid, msg_contact = JStr c, msg_direction = JStr di, msg_type = JStr ty,
    msg_body = body, msg_remote_id = rid, msg_ts = t, msg_state = st, msg_meta = JNull\<rparr>"
  have gets: "py_get item ''contact_id'' = Inr (JStr c)" "getitem item ''contact_id'' = Inr (JStr c)" "py_get item ''direction'' = Inr (JStr di)"
    "py_get item ''type'' = Inr (JStr ty)" "py_get item ''ts'' = Inr (JInt t)" "py_get item ''id'' = Inr JNull"
    using d f ok(6) by simp_all
  define k where "k = (if truthy rid then KRemote (JStr c) (JStr di) (py_str rid) else KLocal (JStr c) (JStr di) t ty (body_digest C body))"
  have r: "read_message_item iid rnd item = Inr ?m"
    using f(2,4,6) by (simp add: read_message_item_def gets g(1-3) py_int_or_zero) (simp add: py_or_def)
  have cols: "message_columns ?m = Inr ?m"
    using f(8) col_text_text [OF g(4)] col_text_text [OF g(5)] by (simp add: message_columns_def col_text_text not_null_def)
  have key: "message_key C item = Inr k" "hash_mkey k = Inr k"
    by (simp_all add: message_key_def gets g(1,3) py_int_or_zero k_def)
  have "message_key C (message_dict ?m) = Inr k"
    by (simp add: message_key_def message_dict_def py_int_or_zero k_def)
  then have rk: "row_key C ?m = Inr k" using key by (simp add: row_key_def)
  show thesis
    by (rule that [of ?m k]) (use r cols key rk g gets f(2) in \<open>simp_all add: item_key_def\<close>)
qed

lemma item_gets:
  assumes "item_ok item"
  obtains v c where "py_get item ''state'' = Inr v" "v \<in> insert JNull (range JStr)" "py_get item ''contact_id'' = Inr c" "truthy c"
  by (rule read_item [OF assms, of "[]" "[]" toy]) (blast intro: that)

text \<open>What is known of the key of a merged item: a row with a state at least as far as that of the item.\<close>

definition covered :: "crypto \<Rightarrow> string \<Rightarrow> json \<Rightarrow> store \<Rightarrow> bool" where
  "covered C iid item s \<longleftrightarrow> (\<exists>k m v n n'. item_key C item = Inr k \<and> indexed C iid k s = Some m \<and> py_get item ''state'' = Inr v
     \<and> state_rank v = Inr n \<and> state_rank (msg_state m) = Inr n' \<and> n \<le> n')"

lemma state_rank_text: "v \<in> insert JNull (range JStr) \<Longrightarrow> \<exists>n. state_rank v = Inr n"
  by (simp add: state_rank_def hash_text)

lemma keyed_append: "keyed C iid s \<Longrightarrow> row_key C r = Inr k \<Longrightarrow> keyed C iid (s\<lparr>s_messages := s_messages s @ [r]\<rparr>)"
  by (simp add: keyed_def)

lemma keyed_with_state: "keyed C iid s \<Longrightarrow> keyed C iid (s\<lparr>s_messages := map (with_state mid t) (s_messages s)\<rparr>)"
  by (auto simp: keyed_def list_all_iff)

lemma add_message_fresh:
  assumes "message_columns m = Inr m" "msg_id m \<notin> msg_id ` set (s_messages s)"
  shows "add_message m s = (Inr (), s\<lparr>s_messages := s_messages s @ [m]\<rparr>)"
proof -
  have "\<not> list_ex (\<lambda>x. msg_id x = msg_id m) (s_messages s)" using assms(2) message_table.key_present by blast
  then show ?thesis using assms(1) by (simp add: add_message_def meth_defs upsert_def)
qed

lemma add_item_step:
  assumes "item_ok item" "item_key C item = Inr k" "indexed C iid k s = None" "hexdigest rnd \<notin> msg_id ` set (s_messages s)"
    "add_item iid rnd item k known c s = (Inr (known', c'), s')" "keyed C iid s"
  shows "keyed C iid s' \<and> covered C iid item s' \<and> (\<forall>k'. k' \<noteq> k \<longrightarrow> indexed C iid k' s' = indexed C iid k' s \<and> map_of known' k' = map_of known k')
    \<and> msg_id ` set (s_messages s') \<subseteq> insert (hexdigest rnd) (msg_id ` set (s_messages s))"
proof -
  obtain m k2 where m: "read_message_item iid rnd item = Inr m" "msg_id m = hexdigest rnd" "msg_identity m = iid" "message_columns m = Inr m"
    "item_key C item = Inr k2" "row_key C m = Inr k2" "py_get item ''state'' = Inr (msg_state m)"
    "msg_state m \<in> insert JNull (range JStr)"
    by (rule read_item [OF assms(1)])
  have k2: "k2 = k" using m(5) assms(2) by simp
  have s': "s' = s\<lparr>s_messages := s_messages s @ [m]\<rparr>" "\<exists>row. known' = (k, row) # known"
    using assms(5) add_message_fresh [OF m(4)] assms(4) m(1,2) by (auto simp: add_item_def meth_defs)
  note ix = indexed_append [OF m(3) m(6) [unfolded k2] assms(3)]
  obtain n where "state_rank (msg_state m) = Inr n" using state_rank_text [OF m(8)] by blast
  then have "covered C iid item s'" using ix m(7) assms(2) unfolding covered_def s'(1) by auto
  moreover have "keyed C iid s'" unfolding s'(1) by (rule keyed_append [OF assms(6) m(6)])
  ultimately show ?thesis using ix s'(2) m(2) by (auto simp: s'(1))
qed

lemma update_known_step:
  assumes "item_ok item" "item_key C item = Inr k" "indexed C iid k s = Some m" "py_get item ''state'' = Inr v"
    "update_known m v known c s = (Inr (known', c'), s')" "keyed C iid s" "distinct (map msg_id (s_messages s))"
  shows "keyed C iid s' \<and> covered C iid item s' \<and> (\<forall>k'. k' \<noteq> k \<longrightarrow> indexed C iid k' s' = indexed C iid k' s \<and> map_of known' k' = map_of known k')
    \<and> msg_id ` set (s_messages s') = msg_id ` set (s_messages s)"
proof -
  have v: "v \<in> insert JNull (range JStr)" using item_gets [OF assms(1)] assms(4) by (metis sum.inject(2))
  obtain new old where rk: "state_rank v = Inr new" "state_rank (msg_state m) = Inr old"
    using assms(5) by (cases "state_rank v"; cases "state_rank (msg_state m)") (auto simp: update_known_def meth_defs)
  show ?thesis
  proof (cases "old < new")
    case False
    then have "s' = s" "known' = known" using assms(5) rk by (simp_all add: update_known_def meth_defs)
    then show ?thesis using False assms rk unfolding covered_def by fastforce
  next
    case True
    have upd: "s' = s\<lparr>s_messages := map (with_state (msg_id m) v) (s_messages s)\<rparr>" "known' = known"
      using assms(5) True rk
      by (auto simp: update_known_def thenS_def bindS_def liftS_def returnS_def update_state col_text_text [OF v] split: if_splits)
    note ix = indexed_with_state [OF assms(7,3)]
    have "covered C iid item s'" using ix rk assms(2,4) unfolding covered_def upd(1) by auto
    moreover have "keyed C iid s'" unfolding upd(1) by (rule keyed_with_state [OF assms(6)])
    moreover have "msg_id ` set (s_messages s') = msg_id ` set (s_messages s)" by (simp add: upd(1) image_image)
    ultimately show ?thesis using ix upd by simp
  qed
qed

lemma merge_message_step:
  assumes "item_ok item" "item_key C item = Inr k" "map_of known k = indexed C iid k s"
    "hexdigest rnd \<notin> msg_id ` set (s_messages s)" "keyed C iid s" "distinct (map msg_id (s_messages s))"
    "merge_message C iid rnd item known c s = (Inr (known', c'), s')"
  shows "keyed C iid s' \<and> covered C iid item s' \<and> (\<forall>k'. k' \<noteq> k \<longrightarrow> indexed C iid k' s' = indexed C iid k' s \<and> map_of known' k' = map_of known k')
    \<and> msg_id ` set (s_messages s') \<subseteq> insert (hexdigest rnd) (msg_id ` set (s_messages s))"
proof -
  obtain st v where g: "py_get item ''state'' = Inr st" "py_get item ''contact_id'' = Inr v" "truthy v"
    by (rule item_gets [OF assms(1)]) (rule that)
  have key: "bindE (message_key C item) hash_mkey = Inr k" using assms(2) by (simp add: item_key_def)
  show ?thesis
  proof (cases "map_of known k")
    case None
    then have a: "add_item iid rnd item k known c s = (Inr (known', c'), s')"
      using assms(7) g key by (simp add: merge_message_def bindS_def liftS_def)
    have "indexed C iid k s = None" using None assms(3) by simp
    then show ?thesis by (rule add_item_step [OF assms(1,2) _ assms(4) a assms(5)])
  next
    case (Some m)
    then have u: "update_known m st known c s = (Inr (known', c'), s')"
      using assms(7) g key by (simp add: merge_message_def bindS_def liftS_def)
    have "indexed C iid k s = Some m" using Some assms(3) by simp
    from update_known_step [OF assms(1,2) this g(1) u assms(5,6)] show ?thesis by blast
  qed
qed

lemma update_message_ids: "map msg_id (s_messages (snd (update_message mid [FState v] s))) = map msg_id (s_messages s)"
  by (simp add: update_state o_def split: sum.split)

interpretation inv_kept: method_relation "\<lambda>s s'. store_inv s \<longrightarrow> store_inv s'"
  by unfold_locales auto

lemma inv_merge_message: "store_inv s \<Longrightarrow> store_inv (snd (merge_message C iid rnd item known c s))"
proof -
  have a: "store_inv t \<longrightarrow> store_inv (snd (add_message m t))" for t m
    using store_step_inv [of t "AddMessage m"] by simp
  have u: "store_inv t \<longrightarrow> store_inv (snd (update_message mid fs t))" for t mid fs
    using store_step_inv [of t "UpdateMessage mid fs"] by simp
  have "store_inv t \<longrightarrow> store_inv (snd (update_known m v known c t))" for t m v
    unfolding update_known_def by (rule inv_kept.rel_lift, rule inv_kept.rel_lift, rule inv_kept.rel_if,
      rule inv_kept.rel_then [OF u], rule inv_kept.rel_return, rule inv_kept.rel_return)
  moreover have "store_inv t \<longrightarrow> store_inv (snd (add_item iid rnd item key known c t))" for t key
    unfolding add_item_def by (rule inv_kept.rel_lift, rule inv_kept.rel_then [OF a], rule inv_kept.rel_get, rule inv_kept.rel_return)
  ultimately have "store_inv s \<longrightarrow> store_inv (snd (merge_message C iid rnd item known c s))"
    unfolding merge_message_def
    by (intro inv_kept.rel_lift inv_kept.rel_if inv_kept.rel_return)
      (auto split: option.split simp: bindS_def liftS_def split: sum.split)
  then show "store_inv s \<Longrightarrow> ?thesis" by blast
qed

lemma covered_frame:
  assumes "covered C iid item s" "\<And>k. item_key C item = Inr k \<Longrightarrow> indexed C iid k s' = indexed C iid k s"
  shows "covered C iid item s'"
  using assms unfolding covered_def by metis

lemma merge_messages_covers:
  assumes "list_all item_ok items" "distinct (map (item_key C) items)" "store_inv s" "keyed C iid s"
    "\<And>item k. item \<in> set items \<Longrightarrow> item_key C item = Inr k \<Longrightarrow> map_of known k = indexed C iid k s"
    "\<And>n. n < length items \<Longrightarrow> hexdigest (rnd n) \<notin> msg_id ` set (s_messages s)"
    "inj_on (\<lambda>n. hexdigest (rnd n)) {..<length items}"
    "merge_messages C iid rnd items known c s = (Inr r, s')"
  shows "keyed C iid s' \<and> (\<forall>item \<in> set items. covered C iid item s')
    \<and> (\<forall>k. Inr k \<notin> item_key C ` set items \<longrightarrow> indexed C iid k s' = indexed C iid k s)"
  using assms
proof (induction items arbitrary: s known c rnd)
  case Nil
  then show ?case by (simp add: returnS_def)
next
  case (Cons item items)
  obtain known1 c1 s1 where m: "merge_message C iid (rnd 0) item known c s = (Inr (known1, c1), s1)"
    and rest: "merge_messages C iid (\<lambda>n. rnd (n + 1)) items known1 c1 s1 = (Inr r, s')"
    using Cons.prems(8) by (auto elim!: bindS_InrE)
  have ok: "item_ok item" "list_all item_ok items" using Cons.prems(1) by simp_all
  obtain k where k: "item_key C item = Inr k" by (rule read_item [OF ok(1), of "[]" "[]" C])
  have d: "distinct (map (item_key C) items)" "Inr k \<notin> item_key C ` set items" using Cons.prems(2) k by auto
  have st: "keyed C iid s1 \<and> covered C iid item s1 \<and> (\<forall>k'. k' \<noteq> k \<longrightarrow> indexed C iid k' s1 = indexed C iid k' s \<and> map_of known1 k' = map_of known k')
      \<and> msg_id ` set (s_messages s1) \<subseteq> insert (hexdigest (rnd 0)) (msg_id ` set (s_messages s))"
    by (rule merge_message_step [OF ok(1) k Cons.prems(5) [OF _ k] Cons.prems(6) [of 0] Cons.prems(4) _ m])
      (use Cons.prems(3) in \<open>simp_all add: store_inv_def\<close>)
  have inv: "store_inv s1" using inv_merge_message [OF Cons.prems(3), of C iid "rnd 0" item known c] m by simp
  have kn: "map_of known1 k' = indexed C iid k' s1" if "it \<in> set items" "item_key C it = Inr k'" for it k'
  proof -
    have "k' \<noteq> k" using that d(2) by (metis image_eqI)
    then show ?thesis using st Cons.prems(5) [of it k'] that by simp
  qed
  have fresh: "hexdigest (rnd (n + 1)) \<notin> msg_id ` set (s_messages s1)" if "n < length items" for n
  proof -
    have "hexdigest (rnd (n + 1)) \<noteq> hexdigest (rnd 0)" using inj_onD [OF Cons.prems(7), of "n + 1" 0] that by auto
    then show ?thesis using st Cons.prems(6) [of "n + 1"] that by auto
  qed
  have inj: "inj_on (\<lambda>n. hexdigest (rnd (n + 1))) {..<length items}"
    by (rule inj_onI) (use inj_onD [OF Cons.prems(7)] in \<open>metis Suc_eq_plus1 Suc_inject Suc_mono length_Cons lessThan_iff\<close>)
  have IH: "keyed C iid s' \<and> (\<forall>item \<in> set items. covered C iid item s')
      \<and> (\<forall>k. Inr k \<notin> item_key C ` set items \<longrightarrow> indexed C iid k s' = indexed C iid k s1)"
    by (rule Cons.IH [OF ok(2) d(1) inv _ kn fresh inj rest]) (use st in blast)
  have "covered C iid item s'" by (rule covered_frame [of C iid item s1]) (use st IH k d(2) in auto)
  then show ?case using IH st k by auto
qed

lemma merge_message_covered:
  assumes "item_ok item" "covered C iid item s" "\<And>k. map_of known k = indexed C iid k s"
  shows "merge_message C iid rnd item known c s = (Inr (known, c), s)"
proof -
  obtain v cid where g: "py_get item ''state'' = Inr v" "py_get item ''contact_id'' = Inr cid" "truthy cid"
    by (rule item_gets [OF assms(1)]) (rule that)
  then show ?thesis using assms(2,3)
    by (auto simp: covered_def merge_message_def item_key_def update_known_def bindS_def liftS_def returnS_def)
qed

lemma merge_messages_covered:
  assumes "list_all item_ok items" "\<forall>item \<in> set items. covered C iid item s" "\<And>k. map_of known k = indexed C iid k s"
  shows "merge_messages C iid rnd items known c s = (Inr (known, c), s)"
  using assms(1,2)
proof (induction items arbitrary: rnd)
  case (Cons item items)
  then have "merge_message C iid (rnd 0) item known c s = (Inr (known, c), s)"
    by (intro merge_message_covered) (simp_all add: assms(3))
  then show ?case using Cons by (simp add: bindS_def)
qed (simp add: returnS_def)

subsection \<open>Merging contacts\<close>

definition contact_done :: "string \<Rightarrow> json \<Rightarrow> store \<Rightarrow> bool" where
  "contact_done iid item s \<longleftrightarrow> (\<exists>v. py_get item ''id'' = Inr v
     \<and> (let cid = py_str (py_or v (JStr [])) in cid = [] \<or> get_contact iid cid s \<noteq> None))"

lemma upsert_contact_there:
  assumes "upsert_contact now iid c s = (Inr u, s')"
  shows "get_contact iid (ct_id c) s' \<noteq> None"
  using assms by (auto simp: upsert_contact_def get_contact_def contact_table.lookup_upsert contact_key_def modifyS_def liftS_def elim!: bindS_InrE)

lemma merge_contact_done: "merge_contact now iid item s = (Inr b, s') \<Longrightarrow> contact_done iid item s'"
proof -
  assume m: "merge_contact now iid item s = (Inr b, s')"
  then obtain v where v: "py_get item ''id'' = Inr v"
    by (cases "py_get item ''id''") (auto simp: merge_contact_def bindS_def liftS_def)
  let ?cid = "py_str (py_or v (JStr []))"
  have "get_contact iid ?cid s' \<noteq> None" if ne: "?cid \<noteq> []"
  proof (cases "get_contact iid ?cid s")
    case (Some c)
    then show ?thesis using m v ne by (auto simp: merge_contact_def bindS_def liftS_def getS_def returnS_def Let_def)
  next
    case None
    obtain c u where "read_contact_item now iid ?cid item = Inr c" "upsert_contact now iid c s = (Inr u, s')"
      using m v ne None
      by (auto simp: merge_contact_def liftS_def getS_def returnS_def Let_def thenS_def rethrowS_def res_simps
          elim!: bindS_InrE split: prod.splits)
    moreover from this(1) have "ct_id c = ?cid" by (auto simp: read_contact_item_def res_simps)
    ultimately show ?thesis using upsert_contact_there by metis
  qed
  then show ?thesis using v by (auto simp: contact_done_def Let_def)
qed

lemma contact_done_kept: "contact_done iid item s \<Longrightarrow> history_kept s s' \<Longrightarrow> contact_done iid item s'"
  unfolding contact_done_def Let_def history_kept_def by (metis not_Some_eq)

lemma merge_contacts_done:
  "merge_contacts now iid items c s = (Inr c', s') \<Longrightarrow> \<forall>item \<in> set items. contact_done iid item s'"
proof (induction items arbitrary: s c)
  case (Cons item items)
  obtain b s1 where m: "merge_contact now iid item s = (Inr b, s1)"
    "merge_contacts now iid items (if b then c\<lparr>n_contacts := n_contacts c + 1\<rparr> else c) s1 = (Inr c', s')"
    using Cons.prems by (auto elim!: bindS_InrE)
  have "history_kept s1 s'" using kept_merge_contacts [of s1 now iid items] m(2) by (metis snd_conv)
  then have "contact_done iid item s'" by (rule contact_done_kept [OF merge_contact_done [OF m(1)]])
  then show ?case using Cons.IH [OF m(2)] by simp
qed simp

lemma merge_contact_again: "contact_done iid item s \<Longrightarrow> merge_contact now iid item s = (Inr False, s)"
  by (auto simp: contact_done_def merge_contact_def Let_def meth_defs)

lemma merge_contacts_again:
  "\<forall>item \<in> set items. contact_done iid item s \<Longrightarrow> merge_contacts now iid items c s = (Inr c, s)"
  by (induction items) (simp_all add: merge_contact_again bindS_def returnS_def)

subsection \<open>Merging chunks\<close>

definition chunk_data :: "json \<Rightarrow> bytes res" where
  "chunk_data chunk = bindE (getitem chunk ''ct'') (\<lambda>v. b64d (py_str v))"

definition chunk_size :: "json \<Rightarrow> int" where
  "chunk_size chunk = (case chunk_data chunk of Inr ct \<Rightarrow> int (length ct) | Inl _ \<Rightarrow> 0)"

definition chunk_done :: "json \<Rightarrow> store \<Rightarrow> bool" where
  "chunk_done chunk s \<longleftrightarrow> (\<exists>v. py_get chunk ''id'' = Inr v
     \<and> (let cid = py_str (py_or v (JStr [])) in cid = [] \<or> (\<exists>ct. chunk_data chunk = Inr ct) \<and> has_local_blob cid s))"

lemma put_local_blob_room:
  assumes "\<not> has_local_blob cid s" "blob_bytes (s_blobs s) + int (length ct) \<le> LOCAL_BLOB_CAP_BYTES"
  shows "put_local_blob now cid ct s = (Inr (), s\<lparr>s_blobs := s_blobs s
    @ [\<lparr>lb_id = cid, lb_ciphertext = ct, lb_size = int (length ct), lb_created_at = now\<rparr>]\<rparr>)"
proof -
  have "\<not> list_ex (\<lambda>x. lb_id x = cid) (s_blobs s)"
    using assms(1) by (auto simp: has_local_blob_def lookup_def find_None_iff list_ex_iff)
  then show ?thesis using assms(2)
    by (simp add: put_local_blob_def prune_local_blobs_def upsert_def meth_defs prune_loop.simps blob_bytes_def)
qed

lemma has_local_blob_append: "has_local_blob cid (s\<lparr>s_blobs := s_blobs s @ [b]\<rparr>) \<longleftrightarrow> has_local_blob cid s \<or> lb_id b = cid"
  by (auto simp: has_local_blob_def lookup_def find_None_iff)

lemma chunk_size_nonneg: "0 \<le> chunk_size chunk"
  by (simp add: chunk_size_def split: sum.split)

lemma merge_chunk_done:
  assumes "merge_chunk now chunk c s = (Inr c', s')" "blob_bytes (s_blobs s) + chunk_size chunk \<le> LOCAL_BLOB_CAP_BYTES"
  shows "chunk_done chunk s' \<and> (\<forall>x. has_local_blob x s \<longrightarrow> has_local_blob x s')
    \<and> blob_bytes (s_blobs s') \<le> blob_bytes (s_blobs s) + chunk_size chunk"
proof -
  obtain v where v: "py_get chunk ''id'' = Inr v"
    using assms(1) by (cases "py_get chunk ''id''") (auto simp: merge_chunk_def bindS_def liftS_def)
  let ?cid = "py_str (py_or v (JStr []))"
  show ?thesis
  proof (cases "?cid = []")
    case True
    then show ?thesis using assms(1) v chunk_size_nonneg
      by (auto simp: merge_chunk_def bindS_def liftS_def returnS_def chunk_done_def)
  next
    case False
    obtain ct where ct: "chunk_data chunk = Inr ct"
      using assms(1) v False by (cases "chunk_data chunk") (auto simp: merge_chunk_def bindS_def liftS_def chunk_data_def)
    then have size: "chunk_size chunk = int (length ct)" by (simp add: chunk_size_def)
    have e: "merge_chunk now chunk c s = (if has_local_blob ?cid s then returnS c
        else thenS (put_local_blob now ?cid ct) (returnS (c\<lparr>n_chunks := n_chunks c + 1\<rparr>))) s"
      using v False ct by (simp add: merge_chunk_def bindS_def liftS_def getS_def Let_def chunk_data_def)
    show ?thesis
    proof (cases "has_local_blob ?cid s")
      case True
      then show ?thesis using e assms(1) v ct size by (auto simp: returnS_def chunk_done_def)
    next
      case new: False
      note p = put_local_blob_room [OF new assms(2) [unfolded size], of now]
      have "s' = snd (put_local_blob now ?cid ct s)" using e assms(1) new p by (simp add: thenS_def bindS_def returnS_def)
      then show ?thesis using v ct size
        by (auto simp: p chunk_done_def has_local_blob_append blob_bytes_def)
    qed
  qed
qed

lemma merge_chunks_done:
  "merge_chunks now chunks c s = (Inr c', s') \<Longrightarrow> blob_bytes (s_blobs s) + sum_list (map chunk_size chunks) \<le> LOCAL_BLOB_CAP_BYTES \<Longrightarrow>
   (\<forall>chunk \<in> set chunks. chunk_done chunk s') \<and> (\<forall>x. has_local_blob x s \<longrightarrow> has_local_blob x s')"
proof (induction chunks arbitrary: s c)
  case (Cons chunk chunks)
  obtain c1 s1 where m: "merge_chunk now chunk c s = (Inr c1, s1)" "merge_chunks now chunks c1 s1 = (Inr c', s')"
    using Cons.prems by (auto elim!: bindS_InrE)
  have "0 \<le> sum_list (map chunk_size chunks)" by (rule sum_list_nonneg) (auto simp: chunk_size_nonneg)
  then have d: "chunk_done chunk s1 \<and> (\<forall>x. has_local_blob x s \<longrightarrow> has_local_blob x s1)
      \<and> blob_bytes (s_blobs s1) \<le> blob_bytes (s_blobs s) + chunk_size chunk"
    using Cons.prems(2) by (intro merge_chunk_done [OF m(1)]) simp
  then have IH: "(\<forall>chunk \<in> set chunks. chunk_done chunk s') \<and> (\<forall>x. has_local_blob x s1 \<longrightarrow> has_local_blob x s')"
    using Cons.prems(2) by (intro Cons.IH [OF m(2)]) simp
  moreover have "chunk_done chunk s'" using d IH unfolding chunk_done_def Let_def by blast
  ultimately show ?case using d by simp
qed (simp add: returnS_def)

lemma merge_chunk_again: "chunk_done chunk s \<Longrightarrow> merge_chunk now chunk c s = (Inr c, s)"
  by (auto simp: chunk_done_def merge_chunk_def Let_def meth_defs chunk_data_def)

lemma merge_chunks_again: "\<forall>chunk \<in> set chunks. chunk_done chunk s \<Longrightarrow> merge_chunks now chunks c s = (Inr c, s)"
  by (induction chunks arbitrary: c) (simp_all add: merge_chunk_again bindS_def returnS_def)

subsection \<open>Merging twice\<close>

text \<open>Which tables each part of a merge leaves alone.\<close>

interpretation only_contacts: method_relation "\<lambda>s s'. s_messages s' = s_messages s \<and> s_blobs s' = s_blobs s \<and> (store_inv s \<longrightarrow> store_inv s')"
  by unfold_locales auto

interpretation only_messages: method_relation "\<lambda>s s'. s_contacts s' = s_contacts s \<and> s_blobs s' = s_blobs s"
  by unfold_locales auto

interpretation only_blobs: method_relation "\<lambda>s s'. s_contacts s' = s_contacts s \<and> s_messages s' = s_messages s"
  by unfold_locales auto

lemma merge_contacts_frame:
  "s_messages (snd (merge_contacts now iid items c s)) = s_messages s \<and> s_blobs (snd (merge_contacts now iid items c s)) = s_blobs s
    \<and> (store_inv s \<longrightarrow> store_inv (snd (merge_contacts now iid items c s)))"
proof (induction items arbitrary: c s)
  case (Cons item items)
  have u: "s_messages (snd (upsert_contact now iid r t)) = s_messages t \<and> s_blobs (snd (upsert_contact now iid r t)) = s_blobs t
      \<and> (store_inv t \<longrightarrow> store_inv (snd (upsert_contact now iid r t)))" for r t
    using store_step_inv [of t "UpsertContact now iid r"]
    by (simp add: upsert_contact_def store_step_simps split: sum.split)
  have m: "s_messages (snd (merge_contact now iid item t)) = s_messages t \<and> s_blobs (snd (merge_contact now iid item t)) = s_blobs t
      \<and> (store_inv t \<longrightarrow> store_inv (snd (merge_contact now iid item t)))" for t
    unfolding merge_contact_def Let_def by (intro only_contacts.rel_intros) (rule u)
  show ?case unfolding merge_contacts.simps by (rule only_contacts.rel_bind) (rule m, rule Cons.IH)
qed (simp add: returnS_def)

lemma merge_messages_frame:
  "s_contacts (snd (merge_messages C iid rnd items known c s)) = s_contacts s \<and> s_blobs (snd (merge_messages C iid rnd items known c s)) = s_blobs s"
proof (induction items arbitrary: known c s rnd)
  case (Cons item items)
  have a: "s_contacts (snd (add_item iid r item key kn c t)) = s_contacts t \<and> s_blobs (snd (add_item iid r item key kn c t)) = s_blobs t" for r key kn c t
    unfolding add_item_def
    by (intro only_messages.rel_intros) (simp add: add_message_def store_step_simps split: sum.split)
  have u: "s_contacts (snd (update_known m v kn c t)) = s_contacts t \<and> s_blobs (snd (update_known m v kn c t)) = s_blobs t" for m v kn c t
    unfolding update_known_def by (intro only_messages.rel_intros) (simp add: update_state split: sum.split)
  have m: "s_contacts (snd (merge_message C iid r item kn c t)) = s_contacts t \<and> s_blobs (snd (merge_message C iid r item kn c t)) = s_blobs t" for r kn c t
    unfolding merge_message_def
    by (intro only_messages.rel_lift only_messages.rel_if only_messages.rel_return)
      (auto split: option.split simp: a u bindS_def liftS_def split: sum.split)
  show ?case unfolding merge_messages.simps
    by (rule only_messages.rel_bind) (rule m, simp add: Cons.IH split: prod.split)
qed (simp add: returnS_def)

lemma merge_chunks_frame:
  "s_contacts (snd (merge_chunks now chunks c s)) = s_contacts s \<and> s_messages (snd (merge_chunks now chunks c s)) = s_messages s"
proof (induction chunks arbitrary: c s)
  case (Cons chunk chunks)
  have p: "s_contacts (snd (put_local_blob now cid ct t)) = s_contacts t \<and> s_messages (snd (put_local_blob now cid ct t)) = s_messages t" for cid ct t
    by (subst (1 2) blob_ops_frame) simp
  have m: "s_contacts (snd (merge_chunk now chunk c t)) = s_contacts t \<and> s_messages (snd (merge_chunk now chunk c t)) = s_messages t" for c t
    unfolding merge_chunk_def Let_def by (intro only_blobs.rel_intros) (rule p)
  show ?case unfolding merge_chunks.simps by (rule only_blobs.rel_bind) (rule m, rule Cons.IH)
qed (simp add: returnS_def)

text \<open>A bundle that the theorem is about: message items as \<open>message_item\<close> makes them with different keys, fresh random ids, and room
  for the chunks in the cache.\<close>

definition mergeable :: "crypto \<Rightarrow> (nat \<Rightarrow> bytes) \<Rightarrow> json list \<Rightarrow> json list \<Rightarrow> store \<Rightarrow> bool" where
  "mergeable C rnd ms ks s \<longleftrightarrow> list_all item_ok ms \<and> distinct (map (item_key C) ms)
     \<and> distinct (map msg_id (s_messages s) @ map (\<lambda>n. hexdigest (rnd n)) [0..<length ms])
     \<and> blob_bytes (s_blobs s) + sum_list (map chunk_size ks) \<le> LOCAL_BLOB_CAP_BYTES"

lemma py_list_or_arr: "py_list_or (Some (JArr xs)) = Inr xs"
  by (simp add: py_list_or_def truthy_opt_def)

lemma merge_bundle_parts:
  assumes "merge_bundle C now rnd iid b s = (Inr c, s')" "map_of b ''contacts'' = Some (JArr cs)"
    "map_of b ''messages'' = Some (JArr ms)" "map_of b ''chunks'' = Some (JArr ks)"
  obtains c1 s1 known known2 c2 s2 where "merge_contacts now iid cs new_counts s = (Inr c1, s1)" "message_index C iid s1 = Inr known"
    "merge_messages C iid rnd ms known c1 s1 = (Inr (known2, c2), s2)" "merge_chunks now ks c2 s2 = (Inr c, s')"
  using assms(1) that unfolding merge_bundle_def assms(2-4) py_list_or_arr
  by (auto simp: liftS_def elim!: bindS_InrE)

lemma merge_twice:
  assumes "store_inv s" "merge_bundle C now rnd iid b s = (Inr c, s')" "mergeable C rnd ms ks s"
    and fields: "map_of b ''contacts'' = Some (JArr cs)" "map_of b ''messages'' = Some (JArr ms)" "map_of b ''chunks'' = Some (JArr ks)"
  shows "merge_bundle C now' rnd' iid b s' = (Inr new_counts, s')"
proof -
  obtain c1 s1 known known2 c2 s2 where p: "merge_contacts now iid cs new_counts s = (Inr c1, s1)" "message_index C iid s1 = Inr known"
    "merge_messages C iid rnd ms known c1 s1 = (Inr (known2, c2), s2)" "merge_chunks now ks c2 s2 = (Inr c, s')"
    by (rule merge_bundle_parts [OF assms(2) fields])
  have f1: "s_messages s1 = s_messages s" "s_blobs s1 = s_blobs s" "store_inv s1"
    using merge_contacts_frame [of now iid cs new_counts s] p(1) assms(1) by auto
  have f2: "s_contacts s2 = s_contacts s1" "s_blobs s2 = s_blobs s" using merge_messages_frame [of C iid rnd ms known c1 s1] p(3) f1 by auto
  have f3: "s_contacts s' = s_contacts s1" "s_messages s' = s_messages s2" using merge_chunks_frame [of now ks c2 s2] p(4) f2 by auto
  have m: "list_all item_ok ms" "distinct (map (item_key C) ms)" "blob_bytes (s_blobs s) + sum_list (map chunk_size ks) \<le> LOCAL_BLOB_CAP_BYTES"
    and ids: "distinct (map msg_id (s_messages s) @ map (\<lambda>n. hexdigest (rnd n)) [0..<length ms])"
    using assms(3) by (simp_all add: mergeable_def)
  have fresh: "hexdigest (rnd n) \<notin> msg_id ` set (s_messages s1)" if "n < length ms" for n
  proof -
    have "hexdigest (rnd n) \<in> set (map (\<lambda>n. hexdigest (rnd n)) [0..<length ms])" using that by simp
    then show ?thesis using ids f1(1) unfolding distinct_append by (metis disjoint_iff list.set_map)
  qed
  have inj: "inj_on (\<lambda>n. hexdigest (rnd n)) {..<length ms}" using ids by (simp add: distinct_map atLeast0LessThan)
  have cov: "keyed C iid s2 \<and> (\<forall>item \<in> set ms. covered C iid item s2)
      \<and> (\<forall>k. Inr k \<notin> item_key C ` set ms \<longrightarrow> indexed C iid k s2 = indexed C iid k s1)"
    by (rule merge_messages_covers [OF m(1,2) f1(3) _ index_lookup [OF p(2)] fresh inj p(3)]) (use p(2) index_total in blast)
  have ix: "indexed C iid k s' = indexed C iid k s2" for k by (simp add: indexed_def f3(2))
  have kd: "keyed C iid s'" using cov by (simp add: keyed_def f3(2))
  obtain known3 where k3: "message_index C iid s' = Inr known3" using kd index_total by blast
  have "\<forall>item \<in> set ms. covered C iid item s'" using cov ix by (simp add: covered_def)
  then have mm: "merge_messages C iid rnd' ms known3 new_counts s' = (Inr (known3, new_counts), s')"
    by (rule merge_messages_covered [OF m(1) _ index_lookup [OF k3]])
  have "contact_done iid item s' = contact_done iid item s1" for item by (simp add: contact_done_def get_contact_def f3(1))
  then have mc: "merge_contacts now' iid cs new_counts s' = (Inr new_counts, s')"
    using merge_contacts_done [OF p(1)] by (intro merge_contacts_again) simp
  have mk: "merge_chunks now' ks new_counts s' = (Inr new_counts, s')"
    using merge_chunks_done [OF p(4)] m(3) f2(2) by (intro merge_chunks_again) simp
  show ?thesis
    using mc mm mk k3 unfolding merge_bundle_def fields py_list_or_arr by (simp add: bindS_def liftS_def)
qed

subsection \<open>Theorems\<close>

text \<open>C22: Merging a bundle is idempotent: when a bundle has been merged, merging it again, at any later time, counts nothing as new and changes
  nothing in the store.  The bundle's messages are as \<open>message_item\<close> makes them, with different keys, the random
  ids are fresh, and the attachment chunks fit the cache.\<close>

theorem merge_idempotent:
  assumes "store_inv s" "merge_bundle C now rnd iid b s = (Inr c, s')" "mergeable C rnd ms ks s"
    "map_of b ''contacts'' = Some (JArr cs)" "map_of b ''messages'' = Some (JArr ms)" "map_of b ''chunks'' = Some (JArr ks)"
  shows "merge_bundle C now' rnd' iid b s' = (Inr new_counts, s')"
  by (rule merge_twice [OF assms])

definition sample_item :: "string \<Rightarrow> string \<Rightarrow> json" where
  "sample_item rid state = JObj [(''contact_id'', JStr ''bob''), (''direction'', JStr ''sent''), (''type'', JStr ''text''),
     (''body'', JObj [(''text'', JStr ''hi'')]), (''remote_id'', JStr rid), (''ts'', JInt 7), (''state'', JStr state)]"

definition sample_contacts :: "json list" where
  "sample_contacts = [JObj [(''id'', JStr ''bob''), (''isign'', JStr ''AQI''), (''idh'', JStr ''AwQ''), (''created_at'', JInt 3)]]"

definition sample_chunks :: "json list" where
  "sample_chunks = [JObj [(''id'', JStr ''c1''), (''ct'', JStr ''AQID'')]]"

definition sample_bundle :: "json list \<Rightarrow> dict" where
  "sample_bundle ms = [(''v'', JInt 1), (''contacts'', JArr sample_contacts), (''messages'', JArr ms), (''chunks'', JArr sample_chunks)]"

definition sample_ids :: "nat \<Rightarrow> bytes" where
  "sample_ids n = [word_of_nat n]"

theorem merge_idempotent_witness:
  "merge_bundle toy 99 sample_ids ''me'' (sample_bundle [sample_item ''r1'' ''read'', sample_item ''r2'' ''sent''])
     (snd (merge_bundle toy 9 sample_ids ''me'' (sample_bundle [sample_item ''r1'' ''read'', sample_item ''r2'' ''sent'']) initialize))
   = (Inr new_counts,
      snd (merge_bundle toy 9 sample_ids ''me'' (sample_bundle [sample_item ''r1'' ''read'', sample_item ''r2'' ''sent'']) initialize))"
proof -
  let ?ms = "[sample_item ''r1'' ''read'', sample_item ''r2'' ''sent'']"
  have "fst (merge_bundle toy 9 sample_ids ''me'' (sample_bundle ?ms) initialize)
      = Inr \<lparr>n_contacts = 1, n_messages = 2, n_updates = 0, n_chunks = 1\<rparr>"
    by code_simp
  then have m: "merge_bundle toy 9 sample_ids ''me'' (sample_bundle ?ms) initialize
      = (Inr \<lparr>n_contacts = 1, n_messages = 2, n_updates = 0, n_chunks = 1\<rparr>,
         snd (merge_bundle toy 9 sample_ids ''me'' (sample_bundle ?ms) initialize))" by (metis prod.collapse)
  have ok: "mergeable toy sample_ids ?ms sample_chunks initialize" by code_simp
  show ?thesis
    by (rule merge_idempotent [OF initialize_inv m ok, of sample_contacts]) (simp_all add: sample_bundle_def)
qed


text \<open>C33: An export file opens with its passphrase: importing it merges the bundle that was exported (with the keys of its objects
  in sorted order).\<close>

theorem history_export_roundtrip:
  assumes "aead_correct C" "aead_tagged C" "pbkdf2_length V" "zlib_ok z" "length nonce = 12"
    "build_bundle now iid device a s = Inr b" "json_ok (JObj b)"
    "export_history C V z now salt nonce iid device passphrase a s = Inr data"
  shows "is_history_file data \<and> (\<exists>d. JObj d = jsort (JObj b)
    \<and> import_history C V z now' rnd iid' data passphrase = merge_bundle C now' rnd iid' d)"
proof -
  obtain d where d: "open_history C V z data passphrase = Inr d" "JObj d = jsort (JObj b)" using open_exported [OF assms] by blast
  then have "import_history C V z now' rnd iid' data passphrase = merge_bundle C now' rnd iid' d"
    by (simp add: import_history_def bindS_def liftS_def)
  moreover have "is_history_file data"
    using d(1) by (auto simp: open_history_def read_export_header_def res_simps split: if_splits)
  ultimately show ?thesis using d(2) by blast
qed

definition plain_zlib :: zlib where
  "plain_zlib = \<lparr>z_compress = (\<lambda>b. b), z_decompress = Inr\<rparr>"

definition whole_history :: bundle_args where
  "whole_history = \<lparr>ba_since = None, ba_until = None, ba_budget = DEFAULT_BUDGET_BYTES, ba_attachments = True\<rparr>"

lemma sum_list_sort_key: "sum_list (map f (sort_key g xs)) = (sum_list (map f xs) :: nat)"
proof (induction xs)
  case (Cons x xs)
  have "sum_list (map f (insort_key g x ys)) = f x + sum_list (map f ys)" for ys by (induction ys) auto
  then show ?case using Cons by simp
qed simp

lemma length_canonical_obj:
  "length (canonical_json (JObj kvs)) = 2 + sum_list (map (\<lambda>kv. length (quote (fst kv)) + 1 + length (dumps (snd kv))) kvs) + (length kvs - 1)"
proof -
  have "sum_list (map (\<lambda>kv. length (member_text kv)) (sort_key fst kvs)) = sum_list (map (\<lambda>kv. length (member_text kv)) kvs)"
    by (rule sum_list_sort_key)
  then show ?thesis by (simp del: dumps.simps(6) add: canonical_json_def dumps_obj length_join o_def member_text_def add.assoc)
qed

lemma length_dumps_canonical: "length (dumps (JObj kvs)) = length (canonical_json (JObj kvs))"
  by (simp add: canonical_json_def)

lemma length_quote: "length (quote s) \<le> 6 * length s + 2"
proof -
  have "length (esc_char c) \<le> 6" for c by (simp add: esc_char_def)
  then have "length (concat (map esc_char s)) \<le> 6 * length s" by (induction s) (auto intro: add_mono)
  then show ?thesis by (simp add: quote_def)
qed

definition empty_bundle :: dict where
  "empty_bundle = bundle_dict 20 None 0 20 [] [] \<lparr>ca_seen = [], ca_used = 0, ca_chunks = [], ca_skipped = []\<rparr>"

lemma empty_header_small: "length (canonical_json (JObj (export_header [1, 2] empty_bundle))) < 1000"
proof -
  have "export_header [1, 2] empty_bundle = [(''v'', JInt 1), (''created'', JInt 20),
      (''kdf'', JObj [(''salt'', JStr (b64e [1, 2])), (''iterations'', JInt 600000)]),
      (''counts'', JObj [(''contacts'', JInt 0), (''messages'', JInt 0), (''chunks'', JInt 0), (''skipped'', JInt 0)])]"
    by (simp add: export_header_def empty_bundle_def bundle_dict_def list_len_def HISTORY_VERSION_def PBKDF2_ITERATIONS_def)
  moreover have "length (show_int 0) = 1" "length (show_int 1) = 1" "length (show_int 20) = 2" "length (show_int 600000) = 6"
    by (simp_all add: show_int_def show_nat.simps)
  moreover have "length (b64e [1, 2]) = 3" by simp
  ultimately show ?thesis
    using length_quote [of "''v''"] length_quote [of "''created''"] length_quote [of "''kdf''"] length_quote [of "''salt''"]
      length_quote [of "b64e [1, 2]"] length_quote [of "''iterations''"] length_quote [of "''counts''"] length_quote [of "''contacts''"]
      length_quote [of "''messages''"] length_quote [of "''chunks''"] length_quote [of "''skipped''"]
    by (simp del: dumps.simps(6) b64e.simps add: length_canonical_obj length_dumps_canonical)
qed

theorem history_export_roundtrip_witness:
  "\<exists>data d. export_history toy toy_vault_prims plain_zlib 20 [1, 2] (replicate 12 0) ''me'' None ''pw'' whole_history initialize = Inr data
     \<and> JObj d = jsort (JObj empty_bundle) \<and> is_history_file data
     \<and> import_history toy toy_vault_prims plain_zlib 30 sample_ids ''you'' data ''pw'' = merge_bundle toy 30 sample_ids ''you'' d"
proof -
  let ?n = "replicate 12 0 :: bytes"
  let ?e = "export_history toy toy_vault_prims plain_zlib 20 [1, 2] ?n ''me'' None ''pw'' whole_history initialize"
  have b: "build_bundle 20 ''me'' None whole_history initialize = Inr empty_bundle"
    by (simp add: build_bundle_def whole_history_def empty_bundle_def initialize_def list_contacts_def list_all_messages_def collect_chunks_def)
  have ok: "json_ok (JObj empty_bundle)"
    unfolding empty_bundle_def bundle_dict_def json_ok_obj by (simp add: json_ok_def str_ok_ascii ascii_def)
  obtain len where len: "to_bytes4 (int (length (canonical_json (JObj (export_header [1, 2] empty_bundle))))) = Inr len"
  proof -
    have "int (length (canonical_json (JObj (export_header [1, 2] empty_bundle)))) < 4294967296" using empty_header_small by simp
    then show thesis using to_bytes4_ok [OF of_nat_0_le_iff] that by blast
  qed
  have key: "length (export_key toy_vault_prims ''pw'' [1, 2] PBKDF2_ITERATIONS) = 32"
    using toy_prims_ok(1) by (simp add: export_key_def derive_key_from_passphrase_def pbkdf2_length_def)
  obtain data where e: "?e = Inr data"
    using b len by (simp add: export_history_def Let_def aead_encrypt_Inr [OF key])
  have z: "zlib_ok plain_zlib" by (simp add: zlib_ok_def plain_zlib_def)
  have "is_history_file data \<and> (\<exists>d. JObj d = jsort (JObj empty_bundle)
      \<and> import_history toy toy_vault_prims plain_zlib 30 sample_ids ''you'' data ''pw'' = merge_bundle toy 30 sample_ids ''you'' d)"
    by (rule history_export_roundtrip [OF toy_ok(2) toy_tagged toy_prims_ok(1) z _ b ok e]) simp
  then show ?thesis using e by blast
qed

text \<open>The index is not refreshed after an update: two items with the same key in one bundle can move a message back.\<close>

lemma merge_state_back:
  "map msg_state (s_messages (snd (merge_bundle toy 9 sample_ids ''me'' (sample_bundle [sample_item ''r1'' ''read'', sample_item ''r1'' ''delivered''])
     (snd (merge_bundle toy 9 sample_ids ''me'' (sample_bundle [sample_item ''r1'' ''sent'']) initialize))))) = [JStr ''delivered'']"
  by code_simp

end
