(* ===== verification/Transport.thy ===== *)
theory Transport
  imports Encoding
begin

section \<open>HTTP transport\<close>

text \<open>
  \<^verbatim>\<open>wire/transport.py\<close>: one request with retries, and the proxy rule.  The session of the \<open>requests\<close> package is a
  parameter: it maps a request and the proxies to an outcome and a new state of the world; no outcome stands for a
  connection error or timeout, which is retried, an exception of another kind is passed on.  A response is its status,
  what \<open>json()\<close> gives or raises, and its content.  Of \<open>urllib.parse.urlparse\<close> the host name is modelled, on ASCII; checking the digits of a
  bracketed address is left out.  Waiting between attempts is not modelled.

  The theorems: a request that must not go out directly never does, and a request is sent at most as often as configured.
\<close>

datatype http_body = NoBody | JsonBody json | DataBody bytes

record http_request =
  rq_method :: string
  rq_url :: string
  rq_headers :: "(string \<times> string) list"
  rq_params :: "(string \<times> int) list"
  rq_body :: http_body

record response =
  rs_status :: int
  rs_json :: "json res"
  rs_content :: bytes

record transport =
  t_retries :: int
  t_proxy_url :: "string option"
  t_fail_closed :: bool

definition make_transport :: "int \<Rightarrow> string option \<Rightarrow> bool \<Rightarrow> transport" where
  "make_transport retries proxy fail_closed = \<lparr>t_retries = max 1 retries, t_proxy_url = proxy, t_fail_closed = fail_closed\<rparr>"

subsection \<open>Host names\<close>

definition ascii_alpha :: "char \<Rightarrow> bool" where
  "ascii_alpha c = (let n = (of_char c :: nat) in (65 \<le> n \<and> n \<le> 90) \<or> (97 \<le> n \<and> n \<le> 122))"

definition scheme_char :: "char \<Rightarrow> bool" where
  "scheme_char c \<longleftrightarrow> ascii_alpha c \<or> is_digit c \<or> c \<in> set ''+-.''"

text \<open>\<open>urlsplit\<close>: leading blanks and control characters go, tabs and line breaks go anywhere.\<close>

definition url_clean :: "string \<Rightarrow> string" where
  "url_clean url = filter (\<lambda>c. of_char c \<notin> {9 :: nat, 10, 13}) (dropWhile (\<lambda>c. of_char c \<le> (32 :: nat)) url)"

definition after_scheme :: "string \<Rightarrow> string" where
  "after_scheme url =
     (let s = takeWhile (\<lambda>c. c \<noteq> CHR '':'') url in
      if s \<noteq> [] \<and> s \<noteq> url \<and> ascii_alpha (hd s) \<and> list_all scheme_char s then drop (length s + 1) url else url)"

definition netloc :: "string \<Rightarrow> string" where
  "netloc url =
     (let r = after_scheme (url_clean url) in
      if take 2 r = ''//'' then takeWhile (\<lambda>c. c \<notin> set ''/?#'') (drop 2 r) else [])"

definition after_at :: "string \<Rightarrow> string" where
  "after_at s = rev (takeWhile (\<lambda>c. c \<noteq> CHR ''@'') (rev s))"

definition hostname :: "string \<Rightarrow> string option res" where
  "hostname url =
     (let n = netloc url; h = after_at n;
          host = (if CHR ''['' \<in> set h then takeWhile (\<lambda>c. c \<noteq> CHR '']'') (tl (dropWhile (\<lambda>c. c \<noteq> CHR ''['') h))
                  else takeWhile (\<lambda>c. c \<noteq> CHR '':'') h) in
      if (CHR ''['' \<in> set n) \<noteq> (CHR '']'' \<in> set n) then Inl ValueError
      else Inr (if host = [] then None
                else Some (map lower_char (takeWhile (\<lambda>c. c \<noteq> CHR ''%'') host) @ dropWhile (\<lambda>c. c \<noteq> CHR ''%'') host)))"

subsection \<open>Requests\<close>

definition LOOPBACK :: "string list" where
  "LOOPBACK = [''localhost'', ''127.0.0.1'', ''::1'', ''[::1]'']"

definition ends_with :: "string \<Rightarrow> string \<Rightarrow> bool" where
  "ends_with suf s \<longleftrightarrow> length suf \<le> length s \<and> drop (length s - length suf) s = suf"

definition is_local :: "string \<Rightarrow> bool res" where
  "is_local url = bindE (hostname url) (\<lambda>h.
     let host = map lower_char (case h of None \<Rightarrow> [] | Some x \<Rightarrow> x) in
     Inr (host \<in> set LOOPBACK \<or> ends_with ''.local'' host))"

definition has_proxy :: "transport \<Rightarrow> bool" where
  "has_proxy T \<longleftrightarrow> t_proxy_url T \<noteq> None \<and> t_proxy_url T \<noteq> Some []"

definition proxies_for :: "transport \<Rightarrow> string \<Rightarrow> (string \<times> string) list res" where
  "proxies_for T url = bindE (is_local url) (\<lambda>local.
     if local then Inr []
     else if \<not> has_proxy T then (if t_fail_closed T then Inl TransportError else Inr [])
     else Inr [(''http'', the (t_proxy_url T)), (''https'', the (t_proxy_url T))])"

type_synonym 'w http_session = "http_request \<Rightarrow> (string \<times> string) list \<Rightarrow> 'w \<Rightarrow> response res option \<times> 'w"

fun attempts :: "'w http_session \<Rightarrow> http_request \<Rightarrow> (string \<times> string) list \<Rightarrow> nat \<Rightarrow> ('w, response) meth" where
  "attempts send q p 0 w = (Inl TransportError, w)"
| "attempts send q p (Suc n) w = (case send q p w of (Some r, w') \<Rightarrow> (r, w') | (None, w') \<Rightarrow> attempts send q p n w')"

definition request :: "transport \<Rightarrow> 'w http_session \<Rightarrow> http_request \<Rightarrow> ('w, response) meth" where
  "request T send q = bindS (liftS (proxies_for T (rq_url q))) (\<lambda>p. attempts send q p (nat (t_retries T)))"

subsection \<open>Theorems\<close>

lemma attempts_cong: "(\<And>v. send q p v = send' q p v) \<Longrightarrow> attempts send q p n w = attempts send' q p n w"
  by (induction n arbitrary: w) (auto split: prod.split option.split)

text \<open>The first outcome counts; when there is none after the configured number of attempts, the request fails.\<close>

lemma attempts_spec:
  "\<exists>k \<le> n. let v = ((\<lambda>v. snd (send q p v)) ^^ k) w in
     (\<forall>j < k. fst (send q p (((\<lambda>v. snd (send q p v)) ^^ j) w)) = None)
     \<and> attempts send q p n w = (if k = n then (Inl TransportError, v) else (the (fst (send q p v)), snd (send q p v)))
     \<and> (k < n \<longrightarrow> fst (send q p v) \<noteq> None)"
proof (induction n arbitrary: w)
  case 0
  then show ?case by simp
next
  case (Suc n)
  let ?step = "\<lambda>v. snd (send q p v)"
  show ?case
  proof (cases "fst (send q p w)")
    case (Some r)
    then have "attempts send q p (Suc n) w = (r, ?step w)" by (cases "send q p w") simp
    then show ?thesis using Some by (intro exI [of _ 0]) simp
  next
    case None
    then have e: "attempts send q p (Suc n) w = attempts send q p n (?step w)" by (cases "send q p w") simp
    obtain k where k: "k \<le> n" "\<forall>j < k. fst (send q p ((?step ^^ j) (?step w))) = None"
      "attempts send q p n (?step w) = (if k = n then (Inl TransportError, (?step ^^ k) (?step w))
         else (the (fst (send q p ((?step ^^ k) (?step w)))), snd (send q p ((?step ^^ k) (?step w)))))"
      "k < n \<longrightarrow> fst (send q p ((?step ^^ k) (?step w))) \<noteq> None"
      using Suc [of "?step w"] by (auto simp: Let_def)
    have sh: "(?step ^^ Suc j) w = (?step ^^ j) (?step w)" for j by (simp only: funpow_Suc_right o_apply)
    have all: "fst (send q p ((?step ^^ j) w)) = None" if "j < Suc k" for j
      using that None k(2) sh by (cases j) auto
    show ?thesis
      by (intro exI [of _ "Suc k"]) (use k all in \<open>simp add: Let_def e sh del: funpow.simps(2) attempts.simps\<close>)
  qed
qed

lemma request_never_direct:
  assumes "t_fail_closed T" "is_local (rq_url q) = Inr False"
    and same: "\<And>p v. p \<noteq> [] \<Longrightarrow> send q p v = send' q p v"
  shows "request T send q w = request T send' q w \<and> (\<not> has_proxy T \<longrightarrow> request T send q w = (Inl TransportError, w))"
proof (cases "has_proxy T")
  case True
  let ?p = "[(''http'', the (t_proxy_url T)), (''https'', the (t_proxy_url T))]"
  have "proxies_for T (rq_url q) = Inr ?p" using assms(2) True by (simp add: proxies_for_def)
  then show ?thesis using True attempts_cong [of send q ?p send'] same by (simp add: request_def bindS_def liftS_def)
next
  case False
  then show ?thesis using assms(1,2) by (simp add: request_def proxies_for_def bindS_def liftS_def)
qed

text \<open>Fail-closed mode means what it says: a request for a host that is not local never leaves without a proxy.  Without
  a configured proxy it is refused before anything is sent; with one, the outcome does not depend on what the
  session would do with a request that carries no proxies.\<close>

theorem fail_closed_no_direct_connection:
  assumes "t_fail_closed T" "is_local (rq_url q) = Inr False" "\<And>p v. p \<noteq> [] \<Longrightarrow> send q p v = send' q p v"
  shows "request T send q w = request T send' q w \<and> (\<not> has_proxy T \<longrightarrow> request T send q w = (Inl TransportError, w))"
  using assms by (intro request_never_direct)

definition sample_get :: "string \<Rightarrow> http_request" where
  "sample_get url = \<lparr>rq_method = ''GET'', rq_url = url, rq_headers = [], rq_params = [], rq_body = NoBody\<rparr>"

text \<open>A session that notes the proxies of each request and never answers.\<close>

definition logging_session :: "(string \<times> string) list list http_session" where
  "logging_session q p w = (None, w @ [p])"

lemma sample_not_local: "is_local ''https://relay.example:8443/api/health'' = Inr False"
  by code_simp

theorem fail_closed_no_direct_connection_witness:
  "request (make_transport 3 None True) logging_session (sample_get ''https://relay.example:8443/api/health'') [] = (Inl TransportError, [])"
proof -
  have "\<not> has_proxy (make_transport 3 None True)" "t_fail_closed (make_transport 3 None True)"
    by (simp_all add: make_transport_def has_proxy_def)
  then show ?thesis
    using fail_closed_no_direct_connection
      [of "make_transport 3 None True" "sample_get ''https://relay.example:8443/api/health''" logging_session logging_session "[]"]
      sample_not_local by (simp add: sample_get_def)
qed

text \<open>Names under \<open>.local\<close> count as local and go out directly in every mode.\<close>

lemma mdns_is_local: "is_local ''http://printer.local/api'' = Inr True" "is_local ''http://[::1]:8000/'' = Inr True"
  "is_local ''http://me:pw@LOCALHOST'' = Inr True" "is_local ''http://localhost.evil.example/'' = Inr False"
  by code_simp+

end
