(* ===== verification/RelayDb.thy ===== *)
theory RelayDb
  imports Json
begin

section \<open>The relay's database\<close>

text \<open>
  \<^verbatim>\<open>server/db.py\<close>.  A table is the list of its rows in insertion order, each row a record with the
  columns of \<open>SCHEMA\<close>; \<open>db\<close> is the five tables.  Every method of \<open>Database\<close> runs inside
  \<open>_connect\<close>, which commits on return and rolls back on an exception: \<open>transact\<close>.  The column
  \<open>payload\<close> holds the text that \<open>json.dumps\<close> prints and \<open>json.loads\<close> reads back; the model keeps
  the document.  The row id of \<open>messages\<close> is never read and is left out.

  The theorems: an invariant (keys are unique, every row belongs to a mailbox, sequence numbers lie
  below the mailbox's counter, quotas are respected) that every method keeps; acknowledgements never
  reach a message written after the fetch they answer; paging delivers everything once and in order;
  a one-time prekey is handed out at most once; housekeeping removes exactly the idle mailboxes.
\<close>

record mailbox =
  mb_id :: string
  read_token_hash :: bytes
  write_token_hash :: bytes
  mb_created_at :: int
  last_seen :: int
  max_messages :: int
  max_bytes :: int
  next_seq :: int

record msg_row =
  m_mailbox :: string
  m_seq :: int
  m_ciphertext :: bytes
  m_created_at :: int
  m_size :: int

record bundle_row =
  b_id :: string
  b_payload :: dict
  b_created_at :: int

record opk_row =
  o_id :: int
  o_bundle :: string
  o_opk_id :: int
  o_opk :: string
  o_used :: bool

record blob_row =
  c_id :: string
  c_mailbox :: string
  c_ciphertext :: bytes
  c_size :: int
  c_created_at :: int

record db =
  mailboxes :: "mailbox list"
  messages :: "msg_row list"
  bundles :: "bundle_row list"
  opks :: "opk_row list"
  opk_autoinc :: int
  blobs :: "blob_row list"

definition empty_db :: db where
  "empty_db = \<lparr>mailboxes = [], messages = [], bundles = [], opks = [], opk_autoinc = 1, blobs = []\<rparr>"

subsection \<open>Mailboxes\<close>

definition find_mailbox :: "string \<Rightarrow> db \<Rightarrow> mailbox option" where
  "find_mailbox mid d = find (\<lambda>b. mb_id b = mid) (mailboxes d)"

definition create_mailbox ::
  "string \<Rightarrow> bytes \<Rightarrow> bytes \<Rightarrow> int \<Rightarrow> int \<Rightarrow> int \<Rightarrow> (db, unit) meth" where
  "create_mailbox mid rh wh now mm mby = transact (\<lambda>d.
     if find_mailbox mid d \<noteq> None then (Inl IntegrityError, d)
     else (Inr (), d\<lparr>mailboxes := mailboxes d @
       [\<lparr>mb_id = mid, read_token_hash = rh, write_token_hash = wh, mb_created_at = now, last_seen = now,
         max_messages = mm, max_bytes = mby, next_seq = 1\<rparr>]\<rparr>))"

definition get_mailbox :: "string \<Rightarrow> (db, mailbox option) meth" where
  "get_mailbox mid = transact (getS (find_mailbox mid))"

definition require_mailbox :: "string \<Rightarrow> (db, mailbox) meth" where
  "require_mailbox mid =
     bindS (get_mailbox mid) (\<lambda>m. case m of None \<Rightarrow> raiseS MailboxNotFound | Some b \<Rightarrow> returnS b)"

text \<open>\<open>DELETE ... WHERE mailbox_id = ?\<close> on the three tables, with the row counts of the first two.\<close>

definition drop_messages :: "string \<Rightarrow> (db, int) meth" where
  "drop_messages mid d = (Inr (int (length (filter (\<lambda>m. m_mailbox m = mid) (messages d)))),
     d\<lparr>messages := filter (\<lambda>m. m_mailbox m \<noteq> mid) (messages d)\<rparr>)"

definition drop_blobs :: "string \<Rightarrow> (db, int) meth" where
  "drop_blobs mid d = (Inr (int (length (filter (\<lambda>c. c_mailbox c = mid) (blobs d)))),
     d\<lparr>blobs := filter (\<lambda>c. c_mailbox c \<noteq> mid) (blobs d)\<rparr>)"

definition drop_mailbox :: "string \<Rightarrow> (db, unit) meth" where
  "drop_mailbox mid = modifyS (\<lambda>d. d\<lparr>mailboxes := filter (\<lambda>b. mb_id b \<noteq> mid) (mailboxes d)\<rparr>)"

definition delete_mailbox :: "string \<Rightarrow> (db, int \<times> int) meth" where
  "delete_mailbox mid = transact (
     bindS (drop_messages mid) (\<lambda>nm. bindS (drop_blobs mid) (\<lambda>nb.
     thenS (drop_mailbox mid) (returnS (nm, nb)))))"

definition update_mailbox :: "string \<Rightarrow> (mailbox \<Rightarrow> mailbox) \<Rightarrow> db \<Rightarrow> db" where
  "update_mailbox mid f d = d\<lparr>mailboxes := map (\<lambda>b. if mb_id b = mid then f b else b) (mailboxes d)\<rparr>"

definition touch_mailbox :: "string \<Rightarrow> int \<Rightarrow> (db, unit) meth" where
  "touch_mailbox mid now = transact (modifyS (update_mailbox mid (\<lambda>b. b\<lparr>last_seen := now\<rparr>)))"

subsection \<open>Messages\<close>

definition msgs_of :: "string \<Rightarrow> db \<Rightarrow> msg_row list" where
  "msgs_of mid d = filter (\<lambda>m. m_mailbox m = mid) (messages d)"

definition blobs_of :: "string \<Rightarrow> db \<Rightarrow> blob_row list" where
  "blobs_of mid d = filter (\<lambda>c. c_mailbox c = mid) (blobs d)"

definition usage :: "string \<Rightarrow> db \<Rightarrow> int \<times> int" where
  "usage mid d = (int (length (msgs_of mid d)),
     sum_list (map m_size (msgs_of mid d)) + sum_list (map c_size (blobs_of mid d)))"

definition put_message :: "string \<Rightarrow> bytes \<Rightarrow> int \<Rightarrow> (db, int) meth" where
  "put_message mid ciphertext now = transact (\<lambda>d.
     let size = int (length ciphertext) in
     case find_mailbox mid d of None \<Rightarrow> (Inl MailboxNotFound, d)
     | Some b \<Rightarrow>
       let (count, used) = usage mid d in
       if count \<ge> max_messages b \<or> used + size > max_bytes b then (Inl QuotaExceeded, d)
       else let seq = next_seq b;
                d1 = d\<lparr>messages := messages d @
                  [\<lparr>m_mailbox = mid, m_seq = seq, m_ciphertext = ciphertext, m_created_at = now, m_size = size\<rparr>]\<rparr>
            in (Inr seq, update_mailbox mid (\<lambda>b. b\<lparr>last_seen := now, next_seq := seq + 1\<rparr>) d1))"

text \<open>\<open>LIMIT ?\<close>: a negative limit means no limit.\<close>

definition sql_limit :: "int \<Rightarrow> 'a list \<Rightarrow> 'a list" where
  "sql_limit n xs = (if n < 0 then xs else take (nat n) xs)"

definition select_messages :: "string \<Rightarrow> int \<Rightarrow> int \<Rightarrow> db \<Rightarrow> msg_row list" where
  "select_messages mid after_seq lim d =
     sql_limit lim (sort_key m_seq (filter (\<lambda>m. m_mailbox m = mid \<and> m_seq m > after_seq) (messages d)))"

definition get_messages :: "string \<Rightarrow> int \<Rightarrow> int \<Rightarrow> (db, msg_row list) meth" where
  "get_messages mid after_seq lim = transact (
     bindS (liftS (sql_int after_seq)) (\<lambda>a. bindS (liftS (sql_int lim)) (\<lambda>l. getS (select_messages mid a l))))"

definition ack_messages :: "string \<Rightarrow> int \<Rightarrow> (db, int) meth" where
  "ack_messages mid upto_seq = transact (bindS (liftS (sql_int upto_seq)) (\<lambda>upto_seq d.
     (Inr (int (length (filter (\<lambda>m. m_mailbox m = mid \<and> m_seq m \<le> upto_seq) (messages d)))),
      d\<lparr>messages := filter (\<lambda>m. \<not> (m_mailbox m = mid \<and> m_seq m \<le> upto_seq)) (messages d)\<rparr>)))"

subsection \<open>Prekeys\<close>

text \<open>\<open>INSERT ... ON CONFLICT (bundle_id) DO UPDATE SET payload\<close>.\<close>

definition upsert_bundle :: "string \<Rightarrow> dict \<Rightarrow> int \<Rightarrow> db \<Rightarrow> db" where
  "upsert_bundle bid payload now d =
     (if \<exists>b \<in> set (bundles d). b_id b = bid
      then d\<lparr>bundles := map (\<lambda>b. if b_id b = bid then b\<lparr>b_payload := payload\<rparr> else b) (bundles d)\<rparr>
      else d\<lparr>bundles := bundles d @ [\<lparr>b_id = bid, b_payload = payload, b_created_at = now\<rparr>]\<rparr>)"

text \<open>\<open>INSERT OR IGNORE\<close>: a row that breaks \<open>UNIQUE (bundle_id, opk_id)\<close> or \<open>NOT NULL\<close> is skipped.\<close>

definition insert_opk :: "string \<Rightarrow> json \<Rightarrow> (db, unit) meth" where
  "insert_opk bid opk =
     bindS (liftS (bindE (bindE (getitem opk ''opk_id'') py_int) (\<lambda>i. bindE (getitem opk ''opk'') (\<lambda>v.
              bindE (sql_int i) (\<lambda>i. bindE (sql_text v) (\<lambda>t. Inr (i, t)))))))
     (\<lambda>(i, t). modifyS (\<lambda>d. case t of None \<Rightarrow> d
        | Some s \<Rightarrow>
          if \<exists>r \<in> set (opks d). o_bundle r = bid \<and> o_opk_id r = i then d
          else d\<lparr>opks := opks d @ [\<lparr>o_id = opk_autoinc d, o_bundle = bid, o_opk_id = i, o_opk = s, o_used = False\<rparr>],
                 opk_autoinc := opk_autoinc d + 1\<rparr>))"

primrec insert_opks :: "string \<Rightarrow> json list \<Rightarrow> (db, unit) meth" where
  "insert_opks bid [] = returnS ()"
| "insert_opks bid (x # xs) = thenS (insert_opk bid x) (insert_opks bid xs)"

definition publish_bundle :: "string \<Rightarrow> dict \<Rightarrow> json list \<Rightarrow> int \<Rightarrow> (db, unit) meth" where
  "publish_bundle bid payload xs now = transact (
     thenS (modifyS (upsert_bundle bid payload now)) (insert_opks bid xs))"

text \<open>\<open>ORDER BY id ASC LIMIT 1\<close> among the unused rows of the bundle.\<close>

definition next_opk :: "string \<Rightarrow> db \<Rightarrow> opk_row option" where
  "next_opk bid d = (case sort_key o_id (filter (\<lambda>r. o_bundle r = bid \<and> \<not> o_used r) (opks d)) of
      [] \<Rightarrow> None | r # _ \<Rightarrow> Some r)"

definition fetch_bundle :: "string \<Rightarrow> (db, dict) meth" where
  "fetch_bundle bid = transact (\<lambda>d.
     case find (\<lambda>b. b_id b = bid) (bundles d) of None \<Rightarrow> (Inl BundleNotFound, d)
     | Some row \<Rightarrow>
       (case next_opk bid d of
          None \<Rightarrow> (Inr (AList.update ''opks'' (JArr []) (b_payload row)), d)
        | Some opk \<Rightarrow>
          (Inr (AList.update ''opks''
             (JArr [JObj [(''opk_id'', JInt (o_opk_id opk)), (''opk'', JStr (o_opk opk))]]) (b_payload row)),
           d\<lparr>opks := map (\<lambda>r. if o_id r = o_id opk then r\<lparr>o_used := True\<rparr> else r) (opks d)\<rparr>)))"

subsection \<open>Blobs\<close>

definition find_blob :: "string \<Rightarrow> db \<Rightarrow> blob_row option" where
  "find_blob cid d = find (\<lambda>c. c_id c = cid) (blobs d)"

definition put_blob :: "string \<Rightarrow> string \<Rightarrow> bytes \<Rightarrow> int \<Rightarrow> (db, unit) meth" where
  "put_blob cid mid ciphertext now = transact (\<lambda>d.
     let size = int (length ciphertext) in
     case find_mailbox mid d of None \<Rightarrow> (Inl MailboxNotFound, d)
     | Some b \<Rightarrow>
       if snd (usage mid d) + size > max_bytes b then (Inl QuotaExceeded, d)
       else if find_blob cid d \<noteq> None then (Inl IntegrityError, d)
       else (Inr (), d\<lparr>blobs := blobs d @
         [\<lparr>c_id = cid, c_mailbox = mid, c_ciphertext = ciphertext, c_size = size, c_created_at = now\<rparr>]\<rparr>))"

definition get_blob :: "string \<Rightarrow> (db, blob_row) meth" where
  "get_blob cid = transact (bindS (getS (find_blob cid)) (\<lambda>r.
     case r of None \<Rightarrow> raiseS BlobNotFound | Some c \<Rightarrow> returnS c))"

definition delete_blob :: "string \<Rightarrow> (db, unit) meth" where
  "delete_blob cid = transact (modifyS (\<lambda>d. d\<lparr>blobs := filter (\<lambda>c. c_id c \<noteq> cid) (blobs d)\<rparr>))"

subsection \<open>Housekeeping\<close>

text \<open>The loop over the stale mailboxes, accumulating the row counts.\<close>

fun drop_stale :: "string list \<Rightarrow> int \<times> int \<Rightarrow> (db, int \<times> int) meth" where
  "drop_stale [] acc = returnS acc"
| "drop_stale (mid # mids) (nm, nb) =
     bindS (drop_messages mid) (\<lambda>m. bindS (drop_blobs mid) (\<lambda>b.
     thenS (drop_mailbox mid) (drop_stale mids (nm + m, nb + b))))"

definition drop_stray_blobs :: "int \<Rightarrow> (db, int) meth" where
  "drop_stray_blobs cutoff d =
     (let stray = (\<lambda>c. c_created_at c < cutoff \<and> c_mailbox c \<notin> set (map mb_id (mailboxes d))) in
      (Inr (int (length (filter stray (blobs d)))), d\<lparr>blobs := filter (\<lambda>c. \<not> stray c) (blobs d)\<rparr>))"

record hk_result =
  hk_mailboxes :: int
  hk_messages :: int
  hk_blobs :: int

definition stale_ids :: "int \<Rightarrow> db \<Rightarrow> string list" where
  "stale_ids cutoff d = map mb_id (filter (\<lambda>b. last_seen b < cutoff) (mailboxes d))"

definition housekeeping :: "int \<Rightarrow> int \<Rightarrow> int \<Rightarrow> (db, hk_result) meth" where
  "housekeeping now mailbox_ttl blob_ttl = transact (
     bindS (getS (stale_ids (now - mailbox_ttl))) (\<lambda>stale.
     bindS (drop_stale stale (0, 0)) (\<lambda>(nm, nb).
     bindS (drop_stray_blobs (now - blob_ttl)) (\<lambda>n.
     returnS \<lparr>hk_mailboxes = int (length stale), hk_messages = nm, hk_blobs = nb + n\<rparr>))))"

record db_stats =
  st_mailboxes :: int
  st_messages :: int
  st_blobs :: int
  st_bytes :: int
  st_prekey_bundles :: int

definition stats :: "(db, db_stats) meth" where
  "stats = transact (getS (\<lambda>d. \<lparr>st_mailboxes = int (length (mailboxes d)), st_messages = int (length (messages d)),
     st_blobs = int (length (blobs d)),
     st_bytes = sum_list (map m_size (messages d)) + sum_list (map c_size (blobs d)),
     st_prekey_bundles = int (length (bundles d))\<rparr>))"

subsection \<open>The invariant\<close>

definition keys_ok :: "db \<Rightarrow> bool" where
  "keys_ok d \<longleftrightarrow> distinct (map mb_id (mailboxes d)) \<and> distinct (map (\<lambda>m. (m_mailbox m, m_seq m)) (messages d))
     \<and> distinct (map c_id (blobs d)) \<and> distinct (map b_id (bundles d))
     \<and> distinct (map (\<lambda>r. (o_bundle r, o_opk_id r)) (opks d)) \<and> distinct (map o_id (opks d))
     \<and> (\<forall>r \<in> set (opks d). o_id r < opk_autoinc d)"

definition owned :: "db \<Rightarrow> bool" where
  "owned d \<longleftrightarrow>
     (\<forall>m \<in> set (messages d). \<exists>b \<in> set (mailboxes d). mb_id b = m_mailbox m \<and> 1 \<le> m_seq m \<and> m_seq m < next_seq b)
     \<and> (\<forall>c \<in> set (blobs d). c_mailbox c \<in> mb_id ` set (mailboxes d))
     \<and> (\<forall>r \<in> set (opks d). o_bundle r \<in> b_id ` set (bundles d))
     \<and> (\<forall>b \<in> set (mailboxes d). 1 \<le> next_seq b)"

definition sizes_ok :: "db \<Rightarrow> bool" where
  "sizes_ok d \<longleftrightarrow> (\<forall>m \<in> set (messages d). m_size m = int (length (m_ciphertext m)))
     \<and> (\<forall>c \<in> set (blobs d). c_size c = int (length (c_ciphertext c)))"

definition within_quota :: "db \<Rightarrow> bool" where
  "within_quota d \<longleftrightarrow> (\<forall>b \<in> set (mailboxes d).
     fst (usage (mb_id b) d) \<le> max 0 (max_messages b) \<and> snd (usage (mb_id b) d) \<le> max 0 (max_bytes b))"

definition db_inv :: "db \<Rightarrow> bool" where
  "db_inv d \<longleftrightarrow> keys_ok d \<and> owned d \<and> sizes_ok d \<and> within_quota d"

lemma find_Some: "find P xs = Some x \<Longrightarrow> x \<in> set xs \<and> P x"
  by (auto simp: find_Some_iff)

lemma in_set_map: "y \<in> set (map g xs) \<longleftrightarrow> (\<exists>x \<in> set xs. y = g x)"
  by auto

lemma find_mailbox_Some: "find_mailbox mid d = Some b \<Longrightarrow> b \<in> set (mailboxes d) \<and> mb_id b = mid"
  unfolding find_mailbox_def by (drule find_Some) simp

lemma find_mailbox_None: "find_mailbox mid d = None \<longleftrightarrow> mid \<notin> mb_id ` set (mailboxes d)"
  by (auto simp: find_mailbox_def find_None_iff)

lemma find_mailbox_unique:
  "keys_ok d \<Longrightarrow> find_mailbox mid d = Some b \<Longrightarrow> b' \<in> set (mailboxes d) \<Longrightarrow> mb_id b' = mid \<Longrightarrow> b' = b"
proof -
  assume "keys_ok d" "find_mailbox mid d = Some b" "b' \<in> set (mailboxes d)" "mb_id b' = mid"
  moreover have "inj_on mb_id (set (mailboxes d))" using \<open>keys_ok d\<close> by (simp add: keys_ok_def distinct_map)
  ultimately show ?thesis using find_mailbox_Some [of mid d b] by (auto dest: inj_onD)
qed

lemma find_blob_None: "find_blob cid d = None \<longleftrightarrow> cid \<notin> c_id ` set (blobs d)"
  by (auto simp: find_blob_def find_None_iff)

lemma owned_msg:
  assumes "db_inv d" "m \<in> set (messages d)"
  obtains b where "b \<in> set (mailboxes d)" "mb_id b = m_mailbox m" "1 \<le> m_seq m" "m_seq m < next_seq b"
  using assms unfolding db_inv_def owned_def by blast

lemma owned_ids:
  "db_inv d \<Longrightarrow> m \<in> set (messages d) \<Longrightarrow> m_mailbox m \<in> mb_id ` set (mailboxes d)"
  "db_inv d \<Longrightarrow> c \<in> set (blobs d) \<Longrightarrow> c_mailbox c \<in> mb_id ` set (mailboxes d)"
  unfolding db_inv_def owned_def by force+

lemma empty_db_inv: "db_inv empty_db"
  by (simp add: db_inv_def keys_ok_def owned_def sizes_ok_def within_quota_def empty_db_def)

text \<open>Removing rows of the message and blob tables keeps the invariant.\<close>

lemma distinct_map_filter_rows: "distinct (map f xs) \<Longrightarrow> distinct (map f (filter P xs))"
  by (rule distinct_map_filter)

lemma sum_list_filter_le:
  "(\<And>x. x \<in> set xs \<Longrightarrow> 0 \<le> f x) \<Longrightarrow> sum_list (map f (filter P xs)) \<le> sum_list (map f (xs :: 'a list) :: int list)"
proof (induction xs)
  case (Cons x xs)
  have "sum_list (map f (filter P xs)) \<le> sum_list (map f xs)" and "0 \<le> f x" using Cons by auto
  then show ?case by simp
qed simp

lemma usage_filter_le:
  assumes "sizes_ok d"
  shows "fst (usage mid (d\<lparr>messages := filter P (messages d), blobs := filter Q (blobs d)\<rparr>)) \<le> fst (usage mid d)"
    and "snd (usage mid (d\<lparr>messages := filter P (messages d), blobs := filter Q (blobs d)\<rparr>)) \<le> snd (usage mid d)"
proof -
  let ?M = "filter (\<lambda>m. m_mailbox m = mid) (messages d)" and ?B = "filter (\<lambda>c. c_mailbox c = mid) (blobs d)"
  have e: "usage mid (d\<lparr>messages := filter P (messages d), blobs := filter Q (blobs d)\<rparr>)
      = (int (length (filter P ?M)), sum_list (map m_size (filter P ?M)) + sum_list (map c_size (filter Q ?B)))"
    by (simp add: usage_def msgs_of_def blobs_of_def conj_commute)
  have "sum_list (map m_size (filter P ?M)) \<le> sum_list (map m_size ?M)"
    "sum_list (map c_size (filter Q ?B)) \<le> sum_list (map c_size ?B)"
    using assms by (intro sum_list_filter_le; simp add: sizes_ok_def)+
  then show "snd (usage mid (d\<lparr>messages := filter P (messages d), blobs := filter Q (blobs d)\<rparr>)) \<le> snd (usage mid d)"
    unfolding e unfolding usage_def msgs_of_def blobs_of_def snd_conv by (rule add_mono)
  show "fst (usage mid (d\<lparr>messages := filter P (messages d), blobs := filter Q (blobs d)\<rparr>)) \<le> fst (usage mid d)"
    unfolding e unfolding usage_def msgs_of_def fst_conv of_nat_le_iff by (rule length_filter_le)
qed

lemma delete_rows_inv:
  assumes "db_inv d"
  shows "db_inv (d\<lparr>messages := filter P (messages d), blobs := filter Q (blobs d)\<rparr>)"
proof -
  let ?d = "d\<lparr>messages := filter P (messages d), blobs := filter Q (blobs d)\<rparr>"
  have "keys_ok ?d" "owned ?d" "sizes_ok ?d"
    using assms by (auto simp: db_inv_def keys_ok_def owned_def sizes_ok_def distinct_map_filter)
  moreover have "within_quota ?d"
  proof -
    have s: "sizes_ok d" using assms by (simp add: db_inv_def)
    show ?thesis
      unfolding within_quota_def
    proof
      fix b
      assume "b \<in> set (mailboxes ?d)"
      then have "fst (usage (mb_id b) d) \<le> max 0 (max_messages b)" "snd (usage (mb_id b) d) \<le> max 0 (max_bytes b)"
        using assms by (simp_all add: db_inv_def within_quota_def)
      then show "fst (usage (mb_id b) ?d) \<le> max 0 (max_messages b) \<and> snd (usage (mb_id b) ?d) \<le> max 0 (max_bytes b)"
        using usage_filter_le [OF s, where mid = "mb_id b" and P = P and Q = Q] by linarith
    qed
  qed
  ultimately show ?thesis by (simp add: db_inv_def)
qed

text \<open>Dropping a mailbox together with its rows.\<close>

definition purge :: "string set \<Rightarrow> db \<Rightarrow> db" where
  "purge ids d = d\<lparr>messages := filter (\<lambda>m. m_mailbox m \<notin> ids) (messages d),
     blobs := filter (\<lambda>c. c_mailbox c \<notin> ids) (blobs d), mailboxes := filter (\<lambda>b. mb_id b \<notin> ids) (mailboxes d)\<rparr>"

lemma purge_inv:
  assumes "db_inv d"
  shows "db_inv (purge ids d)"
proof -
  let ?d = "d\<lparr>messages := filter (\<lambda>m. m_mailbox m \<notin> ids) (messages d), blobs := filter (\<lambda>c. c_mailbox c \<notin> ids) (blobs d)\<rparr>"
  have i: "db_inv ?d" by (rule delete_rows_inv [OF assms])
  have p: "purge ids d = ?d\<lparr>mailboxes := filter (\<lambda>b. mb_id b \<notin> ids) (mailboxes d)\<rparr>" by (simp add: purge_def)
  have "usage mid (purge ids d) = usage mid ?d" for mid by (simp add: p usage_def msgs_of_def blobs_of_def)
  moreover have "owned (purge ids d)"
    using i unfolding db_inv_def owned_def p by (fastforce simp: image_iff)
  ultimately show ?thesis
    using i unfolding db_inv_def by (auto simp: p keys_ok_def sizes_ok_def within_quota_def distinct_map_filter)
qed

lemma delete_mailbox_eq:
  "delete_mailbox mid d = (Inr (int (length (msgs_of mid d)), int (length (blobs_of mid d))), purge {mid} d)"
  by (simp add: delete_mailbox_def meth_defs drop_messages_def drop_blobs_def drop_mailbox_def purge_def
      msgs_of_def blobs_of_def)

lemma update_mailbox_inv:
  assumes "db_inv d" "\<And>b. mb_id (f b) = mb_id b" "\<And>b. max_messages (f b) = max_messages b"
    "\<And>b. max_bytes (f b) = max_bytes b" "\<And>b. next_seq b \<le> next_seq (f b)"
  shows "db_inv (update_mailbox mid f d)"
proof -
  let ?d = "update_mailbox mid f d"
  have ids: "map mb_id (mailboxes ?d) = map mb_id (mailboxes d)" using assms(2) by (simp add: update_mailbox_def)
  have u: "usage m ?d = usage m d" for m by (simp add: usage_def msgs_of_def blobs_of_def update_mailbox_def)
  have mem: "b' \<in> set (mailboxes ?d) \<longleftrightarrow> (\<exists>b \<in> set (mailboxes d). b' = (if mb_id b = mid then f b else b))" for b'
    by (simp add: update_mailbox_def in_set_map del: set_map)
  have k: "keys_ok ?d" using assms(1) unfolding db_inv_def keys_ok_def ids by (simp add: update_mailbox_def)
  have s: "sizes_ok ?d" using assms(1) by (simp add: db_inv_def sizes_ok_def update_mailbox_def)
  have "within_quota ?d"
    unfolding within_quota_def u using assms(1-4) unfolding db_inv_def within_quota_def by (auto simp: mem)
  moreover have "owned ?d"
  proof -
    have "\<exists>b \<in> set (mailboxes ?d). mb_id b = m_mailbox m \<and> 1 \<le> m_seq m \<and> m_seq m < next_seq b"
      if m: "m \<in> set (messages d)" for m
    proof -
      obtain b where b: "b \<in> set (mailboxes d)" "mb_id b = m_mailbox m" "1 \<le> m_seq m" "m_seq m < next_seq b"
        by (rule owned_msg [OF assms(1) m])
      have "(if mb_id b = mid then f b else b) \<in> set (mailboxes ?d)" unfolding mem using b(1) by blast
      then show ?thesis
        using b assms(2,5) [of b] by (intro bexI [of _ "if mb_id b = mid then f b else b"]) auto
    qed
    moreover have "1 \<le> next_seq b" if "b \<in> set (mailboxes ?d)" for b
      using that assms(1,5) by (auto simp: mem db_inv_def owned_def intro: order_trans)
    moreover have "mb_id ` set (mailboxes ?d) = mb_id ` set (mailboxes d)" using ids by (metis list.set_map)
    ultimately show ?thesis using assms(1) by (simp add: db_inv_def owned_def update_mailbox_def)
  qed
  ultimately show ?thesis using k s by (simp add: db_inv_def)
qed

lemma update_mailbox_messages:
  "update_mailbox mid f (d\<lparr>messages := ms\<rparr>) = (update_mailbox mid f d)\<lparr>messages := ms\<rparr>"
  by (simp add: update_mailbox_def)

lemma messages_update_mailbox [simp]: "messages (update_mailbox mid f d) = messages d"
  by (simp add: update_mailbox_def)

lemma touch_mailbox_eq: "touch_mailbox mid now d = (Inr (), update_mailbox mid (\<lambda>b. b\<lparr>last_seen := now\<rparr>) d)"
  by (simp add: touch_mailbox_def meth_defs)

lemma create_mailbox_inv:
  assumes "db_inv d"
  shows "db_inv (snd (create_mailbox mid rh wh now mm mby d))"
proof (cases "find_mailbox mid d")
  case (Some b)
  then show ?thesis using assms by (simp add: create_mailbox_def meth_defs)
next
  case None
  define b where "b = \<lparr>mb_id = mid, read_token_hash = rh, write_token_hash = wh, mb_created_at = now, last_seen = now,
         max_messages = mm, max_bytes = mby, next_seq = 1\<rparr>"
  let ?d = "d\<lparr>mailboxes := mailboxes d @ [b]\<rparr>"
  have e: "create_mailbox mid rh wh now mm mby d = (Inr (), ?d)" using None by (simp add: create_mailbox_def meth_defs b_def)
  have n: "mid \<notin> mb_id ` set (mailboxes d)" using None by (simp add: find_mailbox_None)
  have u: "usage m ?d = usage m d" for m by (simp add: usage_def msgs_of_def blobs_of_def)
  have none: "msgs_of mid d = []" "blobs_of mid d = []"
    using owned_ids [OF assms] n by (auto simp: msgs_of_def blobs_of_def filter_empty_conv)
  have "keys_ok ?d" "sizes_ok ?d" using assms n by (auto simp: db_inv_def keys_ok_def sizes_ok_def b_def)
  moreover have "owned ?d" using assms by (auto simp: db_inv_def owned_def b_def)
  moreover have "within_quota ?d"
    using assms none unfolding within_quota_def u db_inv_def by (auto simp: b_def usage_def)
  ultimately show ?thesis by (simp add: e db_inv_def)
qed

lemma msgs_of_append:
  "msgs_of m (d\<lparr>messages := messages d @ [r]\<rparr>) = msgs_of m d @ (if m_mailbox r = m then [r] else [])"
  by (simp add: msgs_of_def)

lemma blobs_of_append:
  "blobs_of m (d\<lparr>blobs := blobs d @ [r]\<rparr>) = blobs_of m d @ (if c_mailbox r = m then [r] else [])"
  by (simp add: blobs_of_def)

definition new_msg :: "string \<Rightarrow> int \<Rightarrow> bytes \<Rightarrow> int \<Rightarrow> msg_row" where
  "new_msg mid seq ct now =
     \<lparr>m_mailbox = mid, m_seq = seq, m_ciphertext = ct, m_created_at = now, m_size = int (length ct)\<rparr>"

lemma new_msg_sel [simp]: "m_mailbox (new_msg mid seq ct now) = mid" "m_seq (new_msg mid seq ct now) = seq"
  "m_ciphertext (new_msg mid seq ct now) = ct" "m_size (new_msg mid seq ct now) = int (length ct)"
  by (simp_all add: new_msg_def)

lemma put_message_cases:
  obtains (missing) "find_mailbox mid d = None" "put_message mid ct now d = (Inl MailboxNotFound, d)"
  | (quota) b where "find_mailbox mid d = Some b"
      "max_messages b \<le> fst (usage mid d) \<or> max_bytes b < snd (usage mid d) + int (length ct)"
      "put_message mid ct now d = (Inl QuotaExceeded, d)"
  | (ok) b where "find_mailbox mid d = Some b" "fst (usage mid d) < max_messages b"
      "snd (usage mid d) + int (length ct) \<le> max_bytes b"
      "put_message mid ct now d = (Inr (next_seq b),
         update_mailbox mid (\<lambda>b'. b'\<lparr>last_seen := now, next_seq := next_seq b + 1\<rparr>)
           (d\<lparr>messages := messages d @ [new_msg mid (next_seq b) ct now]\<rparr>))"
proof (cases "find_mailbox mid d")
  case None
  then show ?thesis by (intro missing) (simp_all add: put_message_def meth_defs Let_def)
next
  case (Some b)
  show ?thesis
  proof (cases "max_messages b \<le> fst (usage mid d) \<or> max_bytes b < snd (usage mid d) + int (length ct)")
    case True
    then show ?thesis by (intro quota [OF Some]) (auto simp: put_message_def meth_defs Some split_beta)
  next
    case False
    then show ?thesis by (intro ok [OF Some]) (auto simp: put_message_def meth_defs Some split_beta new_msg_def Let_def)
  qed
qed

lemma mailbox_unique:
  "db_inv d \<Longrightarrow> b \<in> set (mailboxes d) \<Longrightarrow> b' \<in> set (mailboxes d) \<Longrightarrow> mb_id b' = mb_id b \<Longrightarrow> b' = b"
  unfolding db_inv_def keys_ok_def distinct_map by (auto dest: inj_onD)

lemma append_message_inv:
  assumes i: "db_inv d" and b: "b \<in> set (mailboxes d)" "mb_id b = m_mailbox r" "1 \<le> m_seq r" "m_seq r < next_seq b"
    and k: "(m_mailbox r, m_seq r) \<notin> (\<lambda>m. (m_mailbox m, m_seq m)) ` set (messages d)"
    and s: "m_size r = int (length (m_ciphertext r))"
    and q: "fst (usage (mb_id b) d) < max_messages b" "snd (usage (mb_id b) d) + m_size r \<le> max_bytes b"
  shows "db_inv (d\<lparr>messages := messages d @ [r]\<rparr>)"
proof -
  let ?d = "d\<lparr>messages := messages d @ [r]\<rparr>"
  have "keys_ok ?d" "sizes_ok ?d" using i k s by (auto simp: db_inv_def keys_ok_def sizes_ok_def)
  moreover have "owned ?d" using i b unfolding db_inv_def owned_def by auto
  moreover have "within_quota ?d"
    unfolding within_quota_def
  proof
    fix x
    assume x: "x \<in> set (mailboxes ?d)"
    have u: "usage m ?d = (if m = m_mailbox r then (fst (usage m d) + 1, snd (usage m d) + m_size r) else usage m d)" for m
      by (auto simp: usage_def msgs_of_def blobs_of_def)
    have "fst (usage (mb_id x) d) \<le> max 0 (max_messages x) \<and> snd (usage (mb_id x) d) \<le> max 0 (max_bytes x)"
      using i x by (simp add: db_inv_def within_quota_def)
    moreover have "mb_id x = m_mailbox r \<Longrightarrow> x = b" using mailbox_unique [OF i b(1)] x b(2) by simp
    ultimately show "fst (usage (mb_id x) ?d) \<le> max 0 (max_messages x) \<and> snd (usage (mb_id x) ?d) \<le> max 0 (max_bytes x)"
      unfolding u using q b(2) by (cases "mb_id x = m_mailbox r") auto
  qed
  ultimately show ?thesis by (simp add: db_inv_def)
qed

lemma put_message_inv:
  assumes i: "db_inv d"
  shows "db_inv (snd (put_message mid ct now d))"
proof (cases rule: put_message_cases [of mid d ct now])
  case (ok b)
  let ?r = "new_msg mid (next_seq b) ct now"
  let ?f = "\<lambda>b'. b'\<lparr>last_seen := now, next_seq := max (next_seq b + 1) (next_seq b')\<rparr>"
  let ?d = "update_mailbox mid ?f d"
  have b: "b \<in> set (mailboxes d)" "mb_id b = mid" using find_mailbox_Some [OF ok(1)] by auto
  have "update_mailbox mid (\<lambda>b'. b'\<lparr>last_seen := now, next_seq := next_seq b + 1\<rparr>) d = ?d"
    using mailbox_unique [OF i b(1)] b(2) by (auto simp: update_mailbox_def)
  then have e: "snd (put_message mid ct now d) = ?d\<lparr>messages := messages ?d @ [?r]\<rparr>"
    unfolding ok(4) update_mailbox_messages by (simp add: messages_update_mailbox)
  have i': "db_inv ?d" by (rule update_mailbox_inv [OF i]) auto
  have "1 \<le> next_seq b" using i b(1) unfolding db_inv_def owned_def by blast
  moreover have "(mid, next_seq b) \<notin> (\<lambda>m. (m_mailbox m, m_seq m)) ` set (messages d)"
    using mailbox_unique [OF i b(1)] b(2) by (auto elim!: owned_msg [OF i])
  moreover have "?f b \<in> set (mailboxes ?d)"
    using b by (simp add: update_mailbox_def in_set_map del: set_map) (intro bexI [of _ b]; simp)
  moreover have "usage mid ?d = usage mid d" by (simp add: usage_def msgs_of_def blobs_of_def update_mailbox_def)
  moreover have "messages ?d = messages d" by (simp add: update_mailbox_def)
  ultimately show ?thesis
    unfolding e using ok(2,3) b by (intro append_message_inv [OF i', of "?f b"]) simp_all
qed (use i in auto)

lemma put_blob_inv:
  assumes i: "db_inv d"
  shows "db_inv (snd (put_blob cid mid ct now d))"
proof (cases "\<exists>b. find_mailbox mid d = Some b \<and> snd (usage mid d) + int (length ct) \<le> max_bytes b \<and> find_blob cid d = None")
  case False
  then have "snd (put_blob cid mid ct now d) = d"
    by (auto simp: put_blob_def meth_defs Let_def not_less split: option.splits if_splits)
  then show ?thesis using i by simp
next
  case True
  then obtain b where b: "find_mailbox mid d = Some b" "snd (usage mid d) + int (length ct) \<le> max_bytes b"
    "cid \<notin> c_id ` set (blobs d)" by (auto simp: find_blob_None)
  define r where "r = \<lparr>c_id = cid, c_mailbox = mid, c_ciphertext = ct, c_size = int (length ct), c_created_at = now\<rparr>"
  let ?d = "d\<lparr>blobs := blobs d @ [r]\<rparr>"
  have e: "put_blob cid mid ct now d = (Inr (), ?d)"
    using b by (simp add: put_blob_def meth_defs find_blob_None [symmetric] r_def)
  have m: "b \<in> set (mailboxes d)" "mb_id b = mid" using find_mailbox_Some [OF b(1)] by auto
  have "keys_ok ?d" "sizes_ok ?d" "owned ?d"
    using i b(3) m by (auto simp: db_inv_def keys_ok_def sizes_ok_def owned_def r_def)
  moreover have "within_quota ?d"
    unfolding within_quota_def
  proof
    fix x
    assume x: "x \<in> set (mailboxes ?d)"
    have u: "usage k ?d = (if k = mid then (fst (usage mid d), snd (usage mid d) + int (length ct)) else usage k d)" for k
      by (auto simp: usage_def msgs_of_def blobs_of_def r_def)
    have q: "fst (usage (mb_id x) d) \<le> max 0 (max_messages x) \<and> snd (usage (mb_id x) d) \<le> max 0 (max_bytes x)"
      using i x by (simp add: db_inv_def within_quota_def)
    have "mb_id x = mid \<Longrightarrow> x = b" using find_mailbox_unique [of d mid b x] i b(1) x by (simp add: db_inv_def)
    then show "fst (usage (mb_id x) ?d) \<le> max 0 (max_messages x) \<and> snd (usage (mb_id x) ?d) \<le> max 0 (max_bytes x)"
      unfolding u using q b(2) by (cases "mb_id x = mid") auto
  qed
  ultimately show ?thesis by (simp add: e db_inv_def)
qed

text \<open>The prekey tables are independent of the others.\<close>

definition prekeys_ok :: "bundle_row list \<Rightarrow> opk_row list \<Rightarrow> int \<Rightarrow> bool" where
  "prekeys_ok bs os k \<longleftrightarrow> distinct (map b_id bs) \<and> distinct (map (\<lambda>r. (o_bundle r, o_opk_id r)) os)
     \<and> distinct (map o_id os) \<and> (\<forall>r \<in> set os. o_id r < k) \<and> (\<forall>r \<in> set os. o_bundle r \<in> b_id ` set bs)"

lemma db_inv_prekeys: "db_inv d \<Longrightarrow> prekeys_ok (bundles d) (opks d) (opk_autoinc d)"
  by (simp add: db_inv_def keys_ok_def owned_def prekeys_ok_def)

lemma prekeys_db_inv:
  assumes "db_inv d" "prekeys_ok bs os k"
  shows "db_inv (d\<lparr>bundles := bs, opks := os, opk_autoinc := k\<rparr>)"
proof -
  let ?d = "d\<lparr>bundles := bs, opks := os, opk_autoinc := k\<rparr>"
  have "usage m ?d = usage m d" for m by (simp add: usage_def msgs_of_def blobs_of_def)
  then have "within_quota ?d" using assms(1) by (simp add: db_inv_def within_quota_def)
  moreover have "keys_ok ?d" "owned ?d" "sizes_ok ?d"
    using assms unfolding db_inv_def keys_ok_def owned_def sizes_ok_def prekeys_ok_def by simp_all
  ultimately show ?thesis by (simp add: db_inv_def)
qed

lemma upsert_bundle_shape:
  "\<exists>bs. upsert_bundle bid payload now d = d\<lparr>bundles := bs\<rparr> \<and> (prekeys_ok (bundles d) os k \<longrightarrow> prekeys_ok bs os k)
     \<and> bid \<in> b_id ` set bs"
proof (cases "\<exists>b \<in> set (bundles d). b_id b = bid")
  case True
  let ?g = "\<lambda>b. if b_id b = bid then b\<lparr>b_payload := payload\<rparr> else b"
  have ids: "map b_id (map ?g (bundles d)) = map b_id (bundles d)" by simp
  then have s: "b_id ` set (map ?g (bundles d)) = b_id ` set (bundles d)" by (metis list.set_map)
  have "prekeys_ok (map ?g (bundles d)) os k = prekeys_ok (bundles d) os k" unfolding prekeys_ok_def ids s ..
  moreover have "bid \<in> b_id ` set (map ?g (bundles d))" unfolding s using True by auto
  ultimately show ?thesis using True by (intro exI [of _ "map ?g (bundles d)"]) (simp add: upsert_bundle_def)
next
  case False
  then show ?thesis
    by (intro exI [of _ "bundles d @ [\<lparr>b_id = bid, b_payload = payload, b_created_at = now\<rparr>]"])
      (auto simp: upsert_bundle_def prekeys_ok_def image_iff)
qed

lemma insert_opk_shape:
  assumes "insert_opk bid opk d = (r, d')" "prekeys_ok (bundles d) (opks d) (opk_autoinc d)" "bid \<in> b_id ` set (bundles d)"
  shows "\<exists>os k. d' = d\<lparr>opks := os, opk_autoinc := k\<rparr> \<and> prekeys_ok (bundles d) os k
    \<and> (\<forall>x \<in> set (opks d). x \<in> set os) \<and> (\<forall>x \<in> set os. o_used x \<longrightarrow> x \<in> set (opks d))"
proof -
  have "d' = d \<or> (\<exists>i s. (\<forall>x \<in> set (opks d). \<not> (o_bundle x = bid \<and> o_opk_id x = i)) \<and>
     d' = d\<lparr>opks := opks d @ [\<lparr>o_id = opk_autoinc d, o_bundle = bid, o_opk_id = i, o_opk = s, o_used = False\<rparr>],
            opk_autoinc := opk_autoinc d + 1\<rparr>)"
    using assms(1) by (auto simp: insert_opk_def meth_defs split: sum.splits option.splits if_splits prod.splits)
  then show ?thesis
  proof (elim disjE exE conjE)
    assume "d' = d"
    then show ?thesis using assms(2) by (intro exI [of _ "opks d"] exI [of _ "opk_autoinc d"]) simp
  next
    fix i s
    assume "\<forall>x \<in> set (opks d). \<not> (o_bundle x = bid \<and> o_opk_id x = i)"
      and "d' = d\<lparr>opks := opks d @ [\<lparr>o_id = opk_autoinc d, o_bundle = bid, o_opk_id = i, o_opk = s, o_used = False\<rparr>],
            opk_autoinc := opk_autoinc d + 1\<rparr>"
    then show ?thesis
      using assms(2,3)
      by (intro exI [of _ "opks d @ [\<lparr>o_id = opk_autoinc d, o_bundle = bid, o_opk_id = i, o_opk = s, o_used = False\<rparr>]"]
          exI [of _ "opk_autoinc d + 1"]) (force simp: prekeys_ok_def)
  qed
qed

lemma insert_opks_shape:
  "insert_opks bid xs d = (r, d') \<Longrightarrow> prekeys_ok (bundles d) (opks d) (opk_autoinc d) \<Longrightarrow> bid \<in> b_id ` set (bundles d) \<Longrightarrow>
   \<exists>os k. d' = d\<lparr>opks := os, opk_autoinc := k\<rparr> \<and> prekeys_ok (bundles d) os k
    \<and> (\<forall>x \<in> set (opks d). x \<in> set os) \<and> (\<forall>x \<in> set os. o_used x \<longrightarrow> x \<in> set (opks d))"
proof (induction xs arbitrary: d)
  case Nil
  then show ?case by (intro exI [of _ "opks d"] exI [of _ "opk_autoinc d"]) (simp add: returnS_def)
next
  case (Cons x xs)
  obtain r1 d1 where d1: "insert_opk bid x d = (r1, d1)" by (cases "insert_opk bid x d")
  obtain os k where s: "d1 = d\<lparr>opks := os, opk_autoinc := k\<rparr>" "prekeys_ok (bundles d) os k"
    "\<forall>x \<in> set (opks d). x \<in> set os" "\<forall>x \<in> set os. o_used x \<longrightarrow> x \<in> set (opks d)"
    using insert_opk_shape [OF d1 Cons.prems(2,3)] by blast
  show ?case
  proof (cases r1)
    case (Inl e)
    then show ?thesis using Cons.prems(1) d1 s by (auto simp: thenS_def bindS_def)
  next
    case (Inr u)
    then have a: "insert_opks bid xs d1 = (r, d')" using Cons.prems(1) d1 by (simp add: thenS_def bindS_def)
    have p: "prekeys_ok (bundles d1) (opks d1) (opk_autoinc d1)" "bid \<in> b_id ` set (bundles d1)"
      using s(1,2) Cons.prems(3) by simp_all
    obtain os' k' where n: "d' = d1\<lparr>opks := os', opk_autoinc := k'\<rparr>" "prekeys_ok (bundles d1) os' k'"
      "\<forall>x \<in> set (opks d1). x \<in> set os'" "\<forall>x \<in> set os'. o_used x \<longrightarrow> x \<in> set (opks d1)"
      using Cons.IH [OF a p] by blast
    have "d' = d\<lparr>opks := os', opk_autoinc := k'\<rparr>" "prekeys_ok (bundles d) os' k'" using n(1,2) s(1) by simp_all
    moreover have "opks d1 = os" using s(1) by simp
    ultimately show ?thesis using s(3,4) n(3,4) by blast
  qed
qed

lemma publish_bundle_shape:
  assumes i: "db_inv d" and p: "publish_bundle bid payload xs now d = (r, d')"
  shows "\<exists>bs os k. d' = d\<lparr>bundles := bs, opks := os, opk_autoinc := k\<rparr> \<and> prekeys_ok bs os k
    \<and> (\<forall>x \<in> set (opks d). x \<in> set os) \<and> (\<forall>x \<in> set os. o_used x \<longrightarrow> x \<in> set (opks d))"
proof -
  obtain bs where bs: "upsert_bundle bid payload now d = d\<lparr>bundles := bs\<rparr>"
      "prekeys_ok bs (opks d) (opk_autoinc d)" "bid \<in> b_id ` set bs"
    using upsert_bundle_shape [of bid payload now d "opks d" "opk_autoinc d"] db_inv_prekeys [OF i] by blast
  obtain r1 d1 where d1: "insert_opks bid xs (d\<lparr>bundles := bs\<rparr>) = (r1, d1)" by (cases "insert_opks bid xs (d\<lparr>bundles := bs\<rparr>)")
  have "\<exists>os k. d1 = d\<lparr>bundles := bs, opks := os, opk_autoinc := k\<rparr> \<and> prekeys_ok bs os k
      \<and> (\<forall>x \<in> set (opks d). x \<in> set os) \<and> (\<forall>x \<in> set os. o_used x \<longrightarrow> x \<in> set (opks d))"
    using insert_opks_shape [OF d1] bs(2,3) by simp
  moreover have "d' = (case r1 of Inl _ \<Rightarrow> d | Inr _ \<Rightarrow> d1)"
    using p d1 bs(1) by (auto simp: publish_bundle_def meth_defs split: sum.splits)
  moreover have "\<exists>bs os k. d = d\<lparr>bundles := bs, opks := os, opk_autoinc := k\<rparr> \<and> prekeys_ok bs os k
    \<and> (\<forall>x \<in> set (opks d). x \<in> set os) \<and> (\<forall>x \<in> set os. o_used x \<longrightarrow> x \<in> set (opks d))"
    using db_inv_prekeys [OF i] by (intro exI [of _ "bundles d"] exI [of _ "opks d"] exI [of _ "opk_autoinc d"]) simp
  ultimately show ?thesis by (cases r1) (simp_all, blast)
qed

lemma publish_bundle_inv: "db_inv d \<Longrightarrow> db_inv (snd (publish_bundle bid payload xs now d))"
  using publish_bundle_shape [of d bid payload xs now] prekeys_db_inv [of d]
  by (cases "publish_bundle bid payload xs now d") fastforce

lemma next_opk_Some:
  assumes "next_opk bid d = Some x"
  shows "x \<in> set (opks d) \<and> o_bundle x = bid \<and> \<not> o_used x"
proof -
  obtain ys where "sort_key o_id (filter (\<lambda>r. o_bundle r = bid \<and> \<not> o_used r) (opks d)) = x # ys"
    using assms by (auto simp: next_opk_def split: list.splits)
  then have "x \<in> set (sort_key o_id (filter (\<lambda>r. o_bundle r = bid \<and> \<not> o_used r) (opks d)))" by simp
  then show ?thesis by simp
qed

lemma next_opk_None: "next_opk bid d = None \<longleftrightarrow> (\<forall>x \<in> set (opks d). o_bundle x = bid \<longrightarrow> o_used x)"
proof -
  have "next_opk bid d = None \<longleftrightarrow> sort_key o_id (filter (\<lambda>r. o_bundle r = bid \<and> \<not> o_used r) (opks d)) = []"
    by (simp add: next_opk_def split: list.split)
  also have "\<dots> \<longleftrightarrow> filter (\<lambda>r. o_bundle r = bid \<and> \<not> o_used r) (opks d) = []"
    by (simp only: length_0_conv [symmetric] length_sort)
  finally show ?thesis by (auto simp: filter_empty_conv)
qed

definition mark_used :: "int \<Rightarrow> opk_row list \<Rightarrow> opk_row list" where
  "mark_used k os = map (\<lambda>r. if o_id r = k then r\<lparr>o_used := True\<rparr> else r) os"

lemma mark_used_ok: "prekeys_ok bs os n \<Longrightarrow> prekeys_ok bs (mark_used k os) n"
proof -
  let ?g = "\<lambda>r. if o_id r = k then r\<lparr>o_used := True\<rparr> else r"
  have m: "map (\<lambda>r. (o_bundle r, o_opk_id r)) (mark_used k os) = map (\<lambda>r. (o_bundle r, o_opk_id r)) os"
    "map o_id (mark_used k os) = map o_id os"
    by (simp_all add: mark_used_def)
  have "\<exists>y \<in> set os. o_id x = o_id y \<and> o_bundle x = o_bundle y" if "x \<in> set (mark_used k os)" for x
    using that by (auto simp: mark_used_def)
  then show "prekeys_ok bs os n \<Longrightarrow> prekeys_ok bs (mark_used k os) n"
    unfolding prekeys_ok_def m by metis
qed

lemma fetch_bundle_cases:
  obtains (missing) "find (\<lambda>b. b_id b = bid) (bundles d) = None" "fetch_bundle bid d = (Inl BundleNotFound, d)"
  | (empty) row where "find (\<lambda>b. b_id b = bid) (bundles d) = Some row" "next_opk bid d = None"
      "fetch_bundle bid d = (Inr (AList.update ''opks'' (JArr []) (b_payload row)), d)"
  | (one) row x where "find (\<lambda>b. b_id b = bid) (bundles d) = Some row" "next_opk bid d = Some x"
      "fetch_bundle bid d = (Inr (AList.update ''opks''
          (JArr [JObj [(''opk_id'', JInt (o_opk_id x)), (''opk'', JStr (o_opk x))]]) (b_payload row)),
        d\<lparr>opks := mark_used (o_id x) (opks d)\<rparr>)"
proof (cases "find (\<lambda>b. b_id b = bid) (bundles d)")
  case None
  then show ?thesis by (intro missing) (simp_all add: fetch_bundle_def meth_defs)
next
  case (Some row)
  then show ?thesis
    using empty [OF Some] one [OF Some]
    by (cases "next_opk bid d") (simp_all add: fetch_bundle_def meth_defs mark_used_def)
qed

lemma fetch_bundle_inv: "db_inv d \<Longrightarrow> db_inv (snd (fetch_bundle bid d))"
proof (cases rule: fetch_bundle_cases [of bid d])
  case (one row x)
  assume i: "db_inv d"
  have "d\<lparr>opks := mark_used (o_id x) (opks d)\<rparr>
      = d\<lparr>bundles := bundles d, opks := mark_used (o_id x) (opks d), opk_autoinc := opk_autoinc d\<rparr>" by simp
  then show ?thesis
    using one(3) prekeys_db_inv [OF i mark_used_ok [OF db_inv_prekeys [OF i]]] by (metis snd_conv)
qed auto

lemma purge_empty [simp]: "purge {} d = d"
  by (simp add: purge_def)

lemma purge_purge: "purge A (purge B d) = purge (A \<union> B) d"
  by (simp add: purge_def conj_commute)

lemma drop_one:
  "drop_stale (mid # mids) (nm, nb) d
   = drop_stale mids (nm + int (length (msgs_of mid d)), nb + int (length (blobs_of mid d))) (purge {mid} d)"
  by (simp add: meth_defs drop_messages_def drop_blobs_def drop_mailbox_def purge_def msgs_of_def blobs_of_def)

lemma length_filter_insert:
  "x \<notin> A \<Longrightarrow> length (filter (\<lambda>y. f y = x) ys) + length (filter (\<lambda>y. f y \<in> A) ys) = length (filter (\<lambda>y. f y = x \<or> f y \<in> A) ys)"
  by (induction ys) auto

lemma drop_stale_eq:
  "distinct mids \<Longrightarrow> drop_stale mids (nm, nb) d
   = (Inr (nm + int (length (filter (\<lambda>m. m_mailbox m \<in> set mids) (messages d))),
           nb + int (length (filter (\<lambda>c. c_mailbox c \<in> set mids) (blobs d)))), purge (set mids) d)"
proof (induction mids arbitrary: nm nb d)
  case (Cons mid mids)
  have x: "mid \<notin> set mids" using Cons.prems by simp
  then have e: "filter (\<lambda>m. m_mailbox m \<in> set mids) (messages (purge {mid} d)) = filter (\<lambda>m. m_mailbox m \<in> set mids) (messages d)"
    "filter (\<lambda>c. c_mailbox c \<in> set mids) (blobs (purge {mid} d)) = filter (\<lambda>c. c_mailbox c \<in> set mids) (blobs d)"
    by (auto simp: purge_def intro!: filter_cong)
  show ?case
    using Cons.prems Cons.IH x
      length_filter_insert [of mid "set mids" m_mailbox "messages d"] length_filter_insert [of mid "set mids" c_mailbox "blobs d"]
    by (simp add: drop_one e purge_purge msgs_of_def blobs_of_def del: drop_stale.simps)
qed (simp add: returnS_def)

lemma housekeeping_eq:
  assumes i: "db_inv d"
  shows "housekeeping now mttl bttl d =
    (let stale = stale_ids (now - mttl) d in
     (Inr \<lparr>hk_mailboxes = int (length stale),
           hk_messages = int (length (filter (\<lambda>m. m_mailbox m \<in> set stale) (messages d))),
           hk_blobs = int (length (filter (\<lambda>c. c_mailbox c \<in> set stale) (blobs d)))\<rparr>, purge (set stale) d))"
proof -
  let ?stale = "stale_ids (now - mttl) d"
  have "distinct ?stale" using i by (simp add: stale_ids_def db_inv_def keys_ok_def distinct_map_filter)
  then have d: "drop_stale ?stale (0, 0) d = (Inr (int (length (filter (\<lambda>m. m_mailbox m \<in> set ?stale) (messages d))),
      int (length (filter (\<lambda>c. c_mailbox c \<in> set ?stale) (blobs d)))), purge (set ?stale) d)"
    by (simp add: drop_stale_eq)
  have o: "c_mailbox c \<in> mb_id ` set (mailboxes (purge A d))" if "c \<in> set (blobs (purge A d))" for c A
    using owned_ids(2) [OF purge_inv [OF i]] that by blast
  have "drop_stray_blobs cutoff (purge A d) = (Inr 0, purge A d)" for cutoff A
  proof -
    have "filter (\<lambda>c. c_created_at c < cutoff \<and> c_mailbox c \<notin> set (map mb_id (mailboxes (purge A d)))) (blobs (purge A d)) = []"
      using o by (auto simp: filter_empty_conv)
    moreover have "filter (\<lambda>c. \<not> (c_created_at c < cutoff \<and> c_mailbox c \<notin> set (map mb_id (mailboxes (purge A d))))) (blobs (purge A d))
        = blobs (purge A d)"
      using o by (auto simp: filter_id_conv)
    ultimately show ?thesis by (simp add: drop_stray_blobs_def del: set_map)
  qed
  then show ?thesis using d by (simp add: housekeeping_def meth_defs Let_def)
qed

subsection \<open>The database as a machine\<close>

datatype db_op =
    CreateMailbox string bytes bytes int int int
  | DeleteMailbox string
  | TouchMailbox string int
  | PutMessage string bytes int
  | AckMessages string int
  | PublishBundle string dict "json list" int
  | FetchBundle string
  | PutBlob string string bytes int
  | DeleteBlob string
  | Housekeeping int int int

fun db_step :: "db \<Rightarrow> db_op \<Rightarrow> db" where
  "db_step d (CreateMailbox mid rh wh now mm mby) = snd (create_mailbox mid rh wh now mm mby d)"
| "db_step d (DeleteMailbox mid) = snd (delete_mailbox mid d)"
| "db_step d (TouchMailbox mid now) = snd (touch_mailbox mid now d)"
| "db_step d (PutMessage mid ct now) = snd (put_message mid ct now d)"
| "db_step d (AckMessages mid upto_seq) = snd (ack_messages mid upto_seq d)"
| "db_step d (PublishBundle bid payload xs now) = snd (publish_bundle bid payload xs now d)"
| "db_step d (FetchBundle bid) = snd (fetch_bundle bid d)"
| "db_step d (PutBlob cid mid ct now) = snd (put_blob cid mid ct now d)"
| "db_step d (DeleteBlob cid) = snd (delete_blob cid d)"
| "db_step d (Housekeeping now mttl bttl) = snd (housekeeping now mttl bttl d)"

lemma ack_messages_state:
  "snd (ack_messages mid upto_seq d) = d \<or>
   snd (ack_messages mid upto_seq d) = d\<lparr>messages := filter (\<lambda>m. \<not> (m_mailbox m = mid \<and> m_seq m \<le> upto_seq)) (messages d)\<rparr>"
  by (simp add: ack_messages_def meth_defs sql_int_def)

lemma delete_messages_inv: "db_inv d \<Longrightarrow> db_inv (d\<lparr>messages := filter P (messages d)\<rparr>)"
  using delete_rows_inv [where P = P and Q = "\<lambda>_. True" and d = d] by simp

lemma delete_blobs_inv: "db_inv d \<Longrightarrow> db_inv (d\<lparr>blobs := filter P (blobs d)\<rparr>)"
  using delete_rows_inv [where Q = P and P = "\<lambda>_. True" and d = d] by simp

lemma delete_blob_eq: "delete_blob cid d = (Inr (), d\<lparr>blobs := filter (\<lambda>c. c_id c \<noteq> cid) (blobs d)\<rparr>)"
  by (simp add: delete_blob_def meth_defs)

lemma db_step_inv:
  assumes "db_inv d"
  shows "db_inv (db_step d opn)"
proof (cases opn)
  case (AckMessages mid upto_seq)
  then show ?thesis using ack_messages_state [of mid upto_seq d] delete_messages_inv [OF assms] assms by fastforce
qed (simp_all add: assms create_mailbox_inv delete_mailbox_eq purge_inv touch_mailbox_eq update_mailbox_inv put_message_inv
    publish_bundle_inv fetch_bundle_inv put_blob_inv delete_blob_eq delete_blobs_inv housekeeping_eq Let_def)

interpretation db_machine: machine db_step db_inv
  by unfold_locales (rule db_step_inv)

text \<open>C9: in every state the database can reach from an empty one, by any sequence of operations with
  any arguments, keys are unique, every message and blob belongs to an existing mailbox, every
  message's sequence number is below the mailbox's counter, recorded sizes are the sizes of the
  stored bytes, and no mailbox exceeds its quota of messages or of bytes (messages and blobs
  together).\<close>

theorem relay_db_invariant:
  "let d = foldl db_step empty_db ops in keys_ok d \<and> owned d \<and> sizes_ok d \<and> within_quota d"
  using db_machine.run_inv [OF empty_db_inv, of ops] by (simp add: db_inv_def Let_def)

text \<open>Housekeeping at time \<open>now\<close> removes exactly the mailboxes last written before
  \<open>now - mailbox_ttl\<close> together with all their messages and blobs, leaves every other row as it is,
  and reports the numbers of rows it removed.\<close>

theorem housekeeping_exact:
  assumes "db_inv d" "housekeeping now mttl bttl d = (Inr h, d')"
  shows "(\<forall>b. b \<in> set (mailboxes d') \<longleftrightarrow> b \<in> set (mailboxes d) \<and> now - mttl \<le> last_seen b)
    \<and> (\<forall>m. m \<in> set (messages d') \<longleftrightarrow> m \<in> set (messages d) \<and> (\<exists>b \<in> set (mailboxes d'). mb_id b = m_mailbox m))
    \<and> (\<forall>c. c \<in> set (blobs d') \<longleftrightarrow> c \<in> set (blobs d) \<and> (\<exists>b \<in> set (mailboxes d'). mb_id b = c_mailbox c))
    \<and> bundles d' = bundles d \<and> opks d' = opks d
    \<and> hk_mailboxes h = int (length (mailboxes d)) - int (length (mailboxes d'))
    \<and> hk_messages h = int (length (messages d)) - int (length (messages d'))
    \<and> hk_blobs h = int (length (blobs d)) - int (length (blobs d'))"
proof -
  let ?S = "set (stale_ids (now - mttl) d)"
  have d': "d' = purge ?S d" and h: "h = \<lparr>hk_mailboxes = int (length (stale_ids (now - mttl) d)),
           hk_messages = int (length (filter (\<lambda>m. m_mailbox m \<in> ?S) (messages d))),
           hk_blobs = int (length (filter (\<lambda>c. c_mailbox c \<in> ?S) (blobs d)))\<rparr>"
    using assms(2) by (simp_all add: housekeeping_eq [OF assms(1)] Let_def)
  have stale: "mb_id b \<in> ?S \<longleftrightarrow> last_seen b < now - mttl" if "b \<in> set (mailboxes d)" for b
  proof
    assume "mb_id b \<in> ?S"
    then obtain b' where "b' \<in> set (mailboxes d)" "last_seen b' < now - mttl" "mb_id b' = mb_id b"
      by (auto simp: stale_ids_def)
    then show "last_seen b < now - mttl" using mailbox_unique [OF assms(1) that] by blast
  qed (use that in \<open>auto simp: stale_ids_def\<close>)
  have mb: "b \<in> set (mailboxes d') \<longleftrightarrow> b \<in> set (mailboxes d) \<and> now - mttl \<le> last_seen b" for b
    unfolding d' using stale by (auto simp: purge_def not_less)
  have gone: "x \<notin> ?S \<longleftrightarrow> (\<exists>b \<in> set (mailboxes d'). mb_id b = x)" if x: "x \<in> mb_id ` set (mailboxes d)" for x
  proof -
    obtain b where b: "b \<in> set (mailboxes d)" "mb_id b = x" using x by auto
    then have "b' \<in> set (mailboxes d') \<and> mb_id b' = x \<longleftrightarrow> b' = b \<and> \<not> last_seen b < now - mttl" for b'
      using mb [of b'] mailbox_unique [OF assms(1) b(1), of b'] by auto
    then show ?thesis using stale [OF b(1)] b(2) by auto
  qed
  have split: "int (length (filter P xs)) = int (length xs) - int (length (filter (\<lambda>x. \<not> P x) xs))" for P and xs :: "'z list"
    using sum_length_filter_compl [of P xs] by linarith
  have "hk_mailboxes h = int (length (mailboxes d)) - int (length (mailboxes d'))"
  proof -
    have "filter (\<lambda>b. mb_id b \<notin> ?S) (mailboxes d) = filter (\<lambda>b. \<not> last_seen b < now - mttl) (mailboxes d)"
      using stale by (intro filter_cong) auto
    then show ?thesis using split [of "\<lambda>b. last_seen b < now - mttl" "mailboxes d"]
      by (simp add: h d' purge_def stale_ids_def)
  qed
  moreover have "hk_messages h = int (length (messages d)) - int (length (messages d'))"
    "hk_blobs h = int (length (blobs d)) - int (length (blobs d'))"
    using split [of "\<lambda>m. m_mailbox m \<in> ?S" "messages d"] split [of "\<lambda>c. c_mailbox c \<in> ?S" "blobs d"]
    by (simp_all add: h d' purge_def)
  moreover have "m \<in> set (messages d') \<longleftrightarrow> m \<in> set (messages d) \<and> (\<exists>b \<in> set (mailboxes d'). mb_id b = m_mailbox m)" for m
    using gone [of "m_mailbox m"] owned_ids(1) [OF assms(1), of m] by (auto simp: d' purge_def)
  moreover have "c \<in> set (blobs d') \<longleftrightarrow> c \<in> set (blobs d) \<and> (\<exists>b \<in> set (mailboxes d'). mb_id b = c_mailbox c)" for c
    using gone [of "c_mailbox c"] owned_ids(2) [OF assms(1), of c] by (auto simp: d' purge_def)
  moreover have "bundles d' = bundles d" "opks d' = opks d" by (simp_all add: d' purge_def)
  ultimately show ?thesis using mb by blast
qed

subsection \<open>Sequence numbers and acknowledgements\<close>

fun deletes_mailboxes :: "db_op \<Rightarrow> bool" where
  "deletes_mailboxes (DeleteMailbox _) = True"
| "deletes_mailboxes (Housekeeping _ _ _) = True"
| "deletes_mailboxes _ = False"

text \<open>The mailbox exists, its counter has reached \<open>k\<close>, and its messages below \<open>k\<close> are among \<open>M\<close>.\<close>

definition seq_floor :: "string \<Rightarrow> int \<Rightarrow> msg_row set \<Rightarrow> db \<Rightarrow> bool" where
  "seq_floor mid k M d \<longleftrightarrow> (\<exists>b \<in> set (mailboxes d). mb_id b = mid \<and> k \<le> next_seq b)
     \<and> (\<forall>m \<in> set (messages d). m_mailbox m = mid \<and> m_seq m < k \<longrightarrow> m \<in> M)"

lemma seq_floor_update:
  assumes "seq_floor mid k M d" "\<And>b. mb_id (f b) = mb_id b" "\<And>b. b \<in> set (mailboxes d) \<Longrightarrow> next_seq b \<le> next_seq (f b)"
  shows "seq_floor mid k M (update_mailbox x f d)"
proof -
  obtain b where b: "b \<in> set (mailboxes d)" "mb_id b = mid" "k \<le> next_seq b" using assms(1) by (auto simp: seq_floor_def)
  let ?b = "if mb_id b = x then f b else b"
  have "?b \<in> set (mailboxes (update_mailbox x f d))" "mb_id ?b = mid" "k \<le> next_seq ?b"
    using b assms(2) assms(3) [OF b(1)] by (auto simp: update_mailbox_def)
  then show ?thesis using assms(1) unfolding seq_floor_def by auto
qed

lemma put_message_floor:
  assumes i: "db_inv d" and f: "seq_floor mid k M d"
  shows "seq_floor mid k M (snd (put_message x ct now d))"
proof (cases rule: put_message_cases [of x d ct now])
  case (ok b)
  let ?g = "\<lambda>b'. b'\<lparr>last_seen := now, next_seq := max (next_seq b + 1) (next_seq b')\<rparr>"
  have b: "b \<in> set (mailboxes d)" "mb_id b = x" using find_mailbox_Some [OF ok(1)] by auto
  have e: "update_mailbox x (\<lambda>b'. b'\<lparr>last_seen := now, next_seq := next_seq b + 1\<rparr>) d = update_mailbox x ?g d"
    using mailbox_unique [OF i b(1)] b(2) by (auto simp: update_mailbox_def)
  have u: "seq_floor mid k M (update_mailbox x ?g d)" by (rule seq_floor_update [OF f]) auto
  have "x = mid \<Longrightarrow> k \<le> next_seq b" using f mailbox_unique [OF i b(1)] b(2) by (auto simp: seq_floor_def)
  then show ?thesis
    unfolding ok(4) update_mailbox_messages e using u by (auto simp: seq_floor_def)
qed (use f in auto)

lemma db_step_floor:
  assumes i: "db_inv d" and f: "seq_floor mid k M d" and n: "\<not> deletes_mailboxes opn"
  shows "seq_floor mid k M (db_step d opn)"
proof (cases opn)
  case (CreateMailbox x rh wh now mm mby)
  then show ?thesis using f by (auto simp: create_mailbox_def meth_defs seq_floor_def)
next
  case (TouchMailbox x now)
  then show ?thesis using f by (auto simp: touch_mailbox_eq intro!: seq_floor_update)
next
  case (PutMessage x ct now)
  then show ?thesis using put_message_floor [OF i f] by simp
next
  case (AckMessages x u)
  then show ?thesis using f ack_messages_state [of x u d] by (auto simp: seq_floor_def)
next
  case (PublishBundle bid payload xs now)
  obtain r d' where p: "publish_bundle bid payload xs now d = (r, d')" by (cases "publish_bundle bid payload xs now d")
  then obtain bs os j where "d' = d\<lparr>bundles := bs, opks := os, opk_autoinc := j\<rparr>" using publish_bundle_shape [OF i p] by blast
  then show ?thesis using PublishBundle p f by (simp add: seq_floor_def)
next
  case (FetchBundle bid)
  show ?thesis using f FetchBundle by (cases rule: fetch_bundle_cases [of bid d]) (simp_all add: seq_floor_def)
next
  case (PutBlob cid x ct now)
  then show ?thesis using f by (auto simp: put_blob_def meth_defs Let_def seq_floor_def split: option.split)
next
  case (DeleteBlob cid)
  then show ?thesis using f by (simp add: delete_blob_eq seq_floor_def)
qed (use n in auto)

lemma db_run_floor:
  "db_inv d \<Longrightarrow> seq_floor mid k M d \<Longrightarrow> (\<And>opn. opn \<in> set ops \<Longrightarrow> \<not> deletes_mailboxes opn) \<Longrightarrow>
   seq_floor mid k M (foldl db_step d ops)"
proof (induction ops arbitrary: d)
  case (Cons opn ops)
  have "\<not> deletes_mailboxes opn" using Cons.prems(3) by simp
  then show ?case
    using Cons.IH [OF db_step_inv [OF Cons.prems(1)] db_step_floor [OF Cons.prems(1,2)]] Cons.prems(3) by simp
qed simp

lemma select_messages_set:
  "m \<in> set (select_messages mid after_seq lim d) \<Longrightarrow> m \<in> set (messages d) \<and> m_mailbox m = mid \<and> after_seq < m_seq m"
  by (auto simp: select_messages_def sql_limit_def dest!: in_set_takeD split: if_splits)


subsection \<open>Paging\<close>

text \<open>A reader that fetches with the last sequence number it has seen until a page is empty.\<close>

definition waiting :: "string \<Rightarrow> int \<Rightarrow> db \<Rightarrow> msg_row list" where
  "waiting mid after_seq d = sort_key m_seq (filter (\<lambda>m. m_mailbox m = mid \<and> m_seq m > after_seq) (messages d))"

function drain :: "string \<Rightarrow> int \<Rightarrow> int \<Rightarrow> db \<Rightarrow> msg_row list" where
  "drain mid after_seq lim d =
     (let rows = select_messages mid after_seq lim d in
      if rows = [] then [] else rows @ drain mid (m_seq (last rows)) lim d)"
  by auto
termination
proof (relation "measure (\<lambda>(mid, a, lim, d). length (filter (\<lambda>m. m_mailbox m = mid \<and> m_seq m > a) (messages d)))")
  fix mid :: string and a lim :: int and d :: db and rows
  assume "rows = select_messages mid a lim d" and "rows \<noteq> []"
  then have l: "last rows \<in> set (messages d)" "m_mailbox (last rows) = mid" "a < m_seq (last rows)"
    using select_messages_set [of "last rows" mid a lim d] by auto
  have "length (filter (\<lambda>m. m_seq m > m_seq (last rows)) (filter (\<lambda>m. m_mailbox m = mid \<and> m_seq m > a) (messages d)))
      < length (filter (\<lambda>m. m_mailbox m = mid \<and> m_seq m > a) (messages d))"
    by (rule length_filter_less [of "last rows"]) (use l in auto)
  moreover have "filter (\<lambda>m. m_seq m > m_seq (last rows)) (filter (\<lambda>m. m_mailbox m = mid \<and> m_seq m > a) (messages d))
      = filter (\<lambda>m. m_mailbox m = mid \<and> m_seq m > m_seq (last rows)) (messages d)"
    using l(3) by (auto intro!: filter_cong)
  ultimately show "((mid, m_seq (last rows), lim, d), mid, a, lim, d) \<in>
      measure (\<lambda>(mid, a, lim, d). length (filter (\<lambda>m. m_mailbox m = mid \<and> m_seq m > a) (messages d)))"
    by simp
qed simp

declare drain.simps [simp del]

lemma drop_eq_filter_last:
  "sorted_wrt (<) (map f xs) \<Longrightarrow> k < length xs \<Longrightarrow> drop (Suc k) xs = filter (\<lambda>x. f (xs ! k) < (f x :: int)) xs"
proof (induction xs arbitrary: k)
  case (Cons x xs)
  show ?case
  proof (cases k)
    case 0
    then show ?thesis using Cons.prems(1) by (auto intro: filter_True [symmetric])
  next
    case (Suc j)
    then have j: "j < length xs" using Cons.prems(2) by simp
    then have "f x < f (xs ! j)" using Cons.prems(1) by (simp add: nth_mem)
    then have "\<not> f (xs ! j) < f x" by simp
    then show ?thesis using Suc Cons.IH [of j] Cons.prems(1) j by simp
  qed
qed simp

lemma waiting_strict:
  assumes "db_inv d"
  shows "sorted_wrt (<) (map m_seq (waiting mid after_seq d))"
proof -
  have "inj_on m_seq (set (filter (\<lambda>m. m_mailbox m = mid \<and> m_seq m > after_seq) (messages d)))"
    using assms by (auto simp: db_inv_def keys_ok_def distinct_map inj_on_def)
  moreover have "distinct (messages d)" using assms by (simp add: db_inv_def keys_ok_def distinct_map)
  ultimately have "distinct (map m_seq (waiting mid after_seq d))"
    by (simp add: waiting_def distinct_map)
  then show ?thesis by (simp add: strict_sorted_iff waiting_def)
qed

lemma waiting_later:
  "after_seq \<le> a \<Longrightarrow> waiting mid a d = filter (\<lambda>m. a < m_seq m) (waiting mid after_seq d)"
  by (auto simp: waiting_def filter_sort intro!: arg_cong [of _ _ "sort_key m_seq"] filter_cong)

text \<open>A reader that pages through a mailbox, each time asking for what follows the last sequence
  number it has seen, receives every message after its starting point exactly once, in increasing
  order of sequence numbers, whatever the page size.\<close>

theorem paging_complete:
  assumes "db_inv d" "lim \<noteq> 0"
  shows "drain mid after_seq lim d = waiting mid after_seq d
    \<and> sorted_wrt (<) (map m_seq (waiting mid after_seq d))
    \<and> set (waiting mid after_seq d) = {m \<in> set (messages d). m_mailbox m = mid \<and> after_seq < m_seq m}"
proof -
  have "drain mid after_seq lim d = waiting mid after_seq d"
    using assms
  proof (induction mid after_seq lim d rule: drain.induct)
    case (1 mid a lim d)
    let ?w = "waiting mid a d" and ?rows = "select_messages mid a lim d"
    have r: "?rows = sql_limit lim ?w" by (simp add: select_messages_def waiting_def)
    show ?case
    proof (cases "?w = []")
      case True
      then show ?thesis using r by (subst drain.simps) (simp add: sql_limit_def)
    next
      case False
      define k where "k = (if lim < 0 then length ?w else min (nat lim) (length ?w)) - 1"
      have k: "k < length ?w" "?rows = take (Suc k) ?w"
        using False "1.prems"(2) by (cases ?w; auto simp: k_def r sql_limit_def min_def)+
      then have l: "?rows \<noteq> []" "m_seq (last ?rows) = m_seq (?w ! k)" using False by (simp_all add: take_Suc_conv_app_nth)
      have "a \<le> m_seq (last ?rows)" using select_messages_set [OF last_in_set [OF l(1)]] by simp
      then have "waiting mid (m_seq (last ?rows)) d = drop (Suc k) ?w"
        using drop_eq_filter_last [OF waiting_strict [OF "1.prems"(1)] k(1)] waiting_later l(2) by simp
      then have "drain mid (m_seq (last ?rows)) lim d = drop (Suc k) ?w"
        using "1.IH" [OF refl l(1) "1.prems"] by simp
      then show ?thesis using l(1) k(2) by (subst drain.simps) (simp add: Let_def)
    qed
  qed
  then show ?thesis using waiting_strict [OF assms(1)] by (auto simp: waiting_def)
qed

subsection \<open>One-time prekeys\<close>

text \<open>The one-time prekey that a response to a fetch carries, and all that a run hands out.\<close>

definition handed_opk :: "string \<Rightarrow> dict res \<Rightarrow> (string \<times> int) list" where
  "handed_opk bid r = (case r of Inr payload \<Rightarrow>
       (case map_of payload ''opks'' of Some (JArr [JObj o1]) \<Rightarrow>
          (case map_of o1 ''opk_id'' of Some (JInt i) \<Rightarrow> [(bid, i)] | _ \<Rightarrow> [])
        | _ \<Rightarrow> [])
     | Inl _ \<Rightarrow> [])"

fun handed :: "db \<Rightarrow> db_op list \<Rightarrow> (string \<times> int) list" where
  "handed d [] = []"
| "handed d (opn # ops) =
     (case opn of FetchBundle bid \<Rightarrow> handed_opk bid (fst (fetch_bundle bid d)) | _ \<Rightarrow> [])
     @ handed (db_step d opn) ops"

definition used_keys :: "db \<Rightarrow> (string \<times> int) set" where
  "used_keys d = (\<lambda>r. (o_bundle r, o_opk_id r)) ` {r \<in> set (opks d). o_used r}"

lemma used_keys_step:
  assumes "db_inv d"
  shows "used_keys d \<subseteq> used_keys (db_step d opn)"
proof (cases opn)
  case (PublishBundle bid payload xs now)
  obtain r d' where p: "publish_bundle bid payload xs now d = (r, d')" by (cases "publish_bundle bid payload xs now d")
  then have "\<forall>x \<in> set (opks d). x \<in> set (opks d')" using publish_bundle_shape [OF assms p] by auto
  then show ?thesis using PublishBundle p by (auto simp: used_keys_def)
next
  case (FetchBundle bid)
  have "used_keys d \<subseteq> used_keys (d\<lparr>opks := mark_used k (opks d)\<rparr>)" for k
    by (force simp: used_keys_def mark_used_def image_iff)
  then show ?thesis using FetchBundle by (cases rule: fetch_bundle_cases [of bid d]) simp_all
next
  case (PutMessage x ct now)
  then show ?thesis
    by (cases rule: put_message_cases [of x d ct now]) (simp_all add: used_keys_def update_mailbox_def)
next
  case (PutBlob cid x ct now)
  then show ?thesis by (auto simp: put_blob_def meth_defs Let_def used_keys_def split: option.split)
next
  case (AckMessages x u)
  then show ?thesis using ack_messages_state [of x u d] by (auto simp: used_keys_def)
qed (simp_all add: create_mailbox_def meth_defs delete_mailbox_eq touch_mailbox_eq delete_blob_eq update_mailbox_def
    housekeeping_eq [OF assms] Let_def used_keys_def purge_def)

lemma fetch_hands_unused:
  assumes i: "db_inv d" and h: "handed_opk bid (fst (fetch_bundle bid d)) = hs"
  shows "distinct hs \<and> set hs \<inter> used_keys d = {} \<and> set hs \<subseteq> used_keys (snd (fetch_bundle bid d))"
proof (cases rule: fetch_bundle_cases [of bid d])
  case (one row x)
  have x: "x \<in> set (opks d)" "o_bundle x = bid" "\<not> o_used x" using next_opk_Some [OF one(2)] by auto
  have hs: "hs = [(bid, o_opk_id x)]" using h one(3) by (simp add: handed_opk_def update_conv')
  have "inj_on (\<lambda>r. (o_bundle r, o_opk_id r)) (set (opks d))"
    using i by (simp add: db_inv_def keys_ok_def distinct_map)
  then have "(bid, o_opk_id x) \<notin> used_keys d" using x by (auto simp: used_keys_def dest: inj_onD)
  moreover have "x\<lparr>o_used := True\<rparr> \<in> set (mark_used (o_id x) (opks d))"
    using x(1) by (auto simp: mark_used_def)
  then have "(bid, o_opk_id x) \<in> used_keys (snd (fetch_bundle bid d))"
    unfolding used_keys_def one(3) using x(2) by (intro image_eqI [of _ _ "x\<lparr>o_used := True\<rparr>"]) auto
  ultimately show ?thesis using hs by simp
qed (use h in \<open>auto simp: handed_opk_def update_conv'\<close>)

lemma handed_distinct:
  "db_inv d \<Longrightarrow> distinct (handed d ops) \<and> set (handed d ops) \<inter> used_keys d = {}"
proof (induction ops arbitrary: d)
  case (Cons opn ops)
  let ?hs = "case opn of FetchBundle bid \<Rightarrow> handed_opk bid (fst (fetch_bundle bid d)) | _ \<Rightarrow> []"
  have "distinct ?hs \<and> set ?hs \<inter> used_keys d = {} \<and> set ?hs \<subseteq> used_keys (db_step d opn)"
    using fetch_hands_unused [OF Cons.prems refl] by (cases opn) simp_all
  moreover have "used_keys d \<subseteq> used_keys (db_step d opn)" by (rule used_keys_step [OF Cons.prems])
  moreover have "distinct (handed (db_step d opn) ops)" "set (handed (db_step d opn) ops) \<inter> used_keys (db_step d opn) = {}"
    using Cons.IH [OF db_step_inv [OF Cons.prems]] by auto
  ultimately show ?case unfolding handed.simps distinct_append set_append by blast
qed simp

text \<open>C20: no one-time prekey is ever handed out twice.  In any run of the database from the empty
  state, whatever is published, republished and fetched in whatever order, the pairs of bundle id
  and one-time prekey id that the fetches return are pairwise distinct.\<close>

theorem opk_handed_once: "distinct (handed empty_db ops)"
  using handed_distinct [OF empty_db_inv] by blast

subsection \<open>Mailboxes do not interfere\<close>

text \<open>Writing to, acknowledging in or deleting one mailbox leaves the row, the messages and the
  blobs of every other mailbox as they are; a write that is refused, because the mailbox does not
  exist or is full, changes nothing at all; a write that succeeds appends exactly one message, with
  the mailbox's next sequence number.\<close>

theorem mailbox_isolation:
  assumes "db_inv d" "other \<noteq> mid"
  shows "(\<forall>d' \<in> {snd (put_message mid ct now d), snd (ack_messages mid n d), snd (delete_mailbox mid d)}.
      find_mailbox other d' = find_mailbox other d \<and> msgs_of other d' = msgs_of other d \<and> blobs_of other d' = blobs_of other d)
    \<and> (\<forall>e d'. put_message mid ct now d = (Inl e, d') \<longrightarrow> d' = d \<and>
         (e = MailboxNotFound \<longleftrightarrow> find_mailbox mid d = None))
    \<and> (\<forall>seq d'. put_message mid ct now d = (Inr seq, d') \<longrightarrow>
         messages d' = messages d @ [new_msg mid seq ct now] \<and>
         (\<exists>b. find_mailbox mid d = Some b \<and> seq = next_seq b) \<and> (\<forall>m \<in> set (msgs_of mid d). m_seq m < seq))"
proof -
  have f: "find_mailbox other (update_mailbox mid g d0) = find_mailbox other d0" if "\<And>b. mb_id (g b) = mb_id b" for g d0
  proof -
    have "find (\<lambda>b. mb_id b = other) (map (\<lambda>b. if mb_id b = mid then g b else b) bs) = find (\<lambda>b. mb_id b = other) bs" for bs
      using assms(2) that by (induction bs) auto
    then show ?thesis by (simp add: find_mailbox_def update_mailbox_def)
  qed
  have ff: "find (\<lambda>b. mb_id b = other) (filter (\<lambda>b. mb_id b \<noteq> mid) bs) = find (\<lambda>b. mb_id b = other) bs" for bs
    using assms(2) by (induction bs) auto
  have fm: "filter (\<lambda>m. m_mailbox m = other) (filter (\<lambda>m. m_mailbox m \<noteq> mid) ms) = filter (\<lambda>m. m_mailbox m = other) ms"
    "filter (\<lambda>m. m_mailbox m = other) (filter (\<lambda>m. \<not> (m_mailbox m = mid \<and> m_seq m \<le> n)) ms) = filter (\<lambda>m. m_mailbox m = other) ms" for ms
    using assms(2) by (induction ms) auto
  have fb: "filter (\<lambda>c. c_mailbox c = other) (filter (\<lambda>c. c_mailbox c \<noteq> mid) cs) = filter (\<lambda>c. c_mailbox c = other) cs" for cs
    using assms(2) by (induction cs) auto
  let ?same = "\<lambda>d'. find_mailbox other d' = find_mailbox other d \<and> msgs_of other d' = msgs_of other d \<and> blobs_of other d' = blobs_of other d"
  have "?same (snd (ack_messages mid n d))"
    using ack_messages_state [of mid n d] fm(2) by (auto simp: find_mailbox_def msgs_of_def blobs_of_def)
  moreover have "?same (snd (delete_mailbox mid d))"
    by (simp add: delete_mailbox_eq purge_def find_mailbox_def msgs_of_def blobs_of_def ff fm(1) fb del: filter_filter)
  moreover have "?same (snd (put_message mid ct now d))"
    using assms(2)
    by (cases rule: put_message_cases [of mid d ct now])
      (simp_all add: f, simp add: find_mailbox_def msgs_of_def blobs_of_def update_mailbox_def)
  moreover have "m_seq m < next_seq b" if m: "find_mailbox mid d = Some b" "m \<in> set (msgs_of mid d)" for b m
  proof -
    have "m \<in> set (messages d)" "m_mailbox m = mid" using m(2) by (auto simp: msgs_of_def)
    then show ?thesis
      using find_mailbox_Some [OF m(1)] mailbox_unique [OF assms(1)] by (metis owned_msg [OF assms(1)])
  qed
  ultimately show ?thesis
    by (cases rule: put_message_cases [of mid d ct now]) auto
qed

subsection \<open>Witnesses\<close>

definition sample_ops :: "db_op list" where
  "sample_ops = [CreateMailbox ''a'' [1] [2] 100 10 1000, PutMessage ''a'' [7] 101, PutMessage ''a'' [8, 9] 102]"

definition sample_db :: db where
  "sample_db = foldl db_step empty_db sample_ops"

lemma sample_db_inv: "db_inv sample_db"
  unfolding sample_db_def by (rule db_machine.run_inv [OF empty_db_inv])

theorem housekeeping_exact_witness:
  "mailboxes (snd (housekeeping 1000 10 10 sample_db)) = []
   \<and> housekeeping 1000 10 10 sample_db
       = (Inr \<lparr>hk_mailboxes = 1, hk_messages = 2, hk_blobs = 0\<rparr>, snd (housekeeping 1000 10 10 sample_db))"
proof -
  have e: "housekeeping 1000 10 10 sample_db
       = (Inr \<lparr>hk_mailboxes = 1, hk_messages = 2, hk_blobs = 0\<rparr>, snd (housekeeping 1000 10 10 sample_db))"
    by code_simp
  have "length (mailboxes sample_db) = 1" by code_simp
  then show ?thesis using housekeeping_exact [OF sample_db_inv e] e by simp
qed

definition sample_row :: msg_row where
  "sample_row = new_msg ''a'' 1 [7] 101"


theorem paging_complete_witness:
  "map m_seq (drain ''a'' 0 1 sample_db) = [1, 2]"
proof -
  have "map m_seq (waiting ''a'' 0 sample_db) = [1, 2]" by code_simp
  then show ?thesis using paging_complete [OF sample_db_inv, of 1 "''a''" 0] by simp
qed

theorem mailbox_isolation_witness:
  "put_message ''zz'' [1] 105 sample_db = (Inl MailboxNotFound, sample_db)
   \<and> msgs_of ''a'' (snd (put_message ''zz'' [1] 105 sample_db)) = msgs_of ''a'' sample_db"
proof -
  have "fst (put_message ''zz'' [1] 105 sample_db) = Inl MailboxNotFound" by code_simp
  then obtain d' where "put_message ''zz'' [1] 105 sample_db = (Inl MailboxNotFound, d')" by (metis prod.collapse)
  then show ?thesis using mailbox_isolation [OF sample_db_inv, of "''a''" "''zz''" "[1]" 105 0] by simp
qed

end
