(* ===== verification/RelayApi.thy ===== *)
theory RelayApi
  imports Crypto RateLimit RelayDb
begin

section \<open>The relay's HTTP interface\<close>

text \<open>
  \<^verbatim>\<open>server/config.py\<close>, \<^verbatim>\<open>server/security.py\<close>, \<^verbatim>\<open>server/deps.py\<close> and the routers
  \<^verbatim>\<open>server/routers/mailboxes.py\<close>, \<^verbatim>\<open>blobs.py\<close>, \<^verbatim>\<open>prekeys.py\<close>, \<^verbatim>\<open>relays.py\<close>, with the application state
  of \<^verbatim>\<open>server/app.py\<close>.  A handler is a method over the application state (the database and the
  limiters); \<open>HTTPException n\<close> is its error with status \<open>n\<close>, any other error is an internal server
  error.  The framework's parsing of paths and query parameters is not modelled: handlers receive the
  path's id and the integers of the query.  The clock (\<open>now\<close> for \<open>int(time.time())\<close>, \<open>tick\<close> for
  \<open>time.monotonic()\<close>) and the random bytes are arguments.  A handler runs as one step; the code awaits
  between its database calls, and each of those calls is one transaction.
\<close>

subsection \<open>Configuration\<close>

definition MAX_BLOB_BYTES :: int where "MAX_BLOB_BYTES = 256 * 1024"
definition MAX_CHUNK_BYTES :: int where "MAX_CHUNK_BYTES = 1024 * 1024"
definition MAX_MESSAGES_PER_MAILBOX :: int where "MAX_MESSAGES_PER_MAILBOX = 1000"
definition MAX_BYTES_PER_MAILBOX :: int where "MAX_BYTES_PER_MAILBOX = 64 * 1024 * 1024"
definition MAX_WAIT_SECONDS :: int where "MAX_WAIT_SECONDS = 60"
definition MAX_MESSAGES_PER_FETCH :: int where "MAX_MESSAGES_PER_FETCH = 200"

record settings =
  data_dir :: string
  host :: string
  port :: int
  max_blob_bytes :: int
  max_chunk_bytes :: int
  max_messages_per_mailbox :: int
  max_bytes_per_mailbox :: int
  max_wait_seconds :: int
  max_messages_per_fetch :: int
  mailbox_ttl_seconds :: int
  blob_ttl_seconds :: int
  housekeeping_interval :: int
  require_hashcash :: bool
  hashcash_bits :: int
  mailbox_creates_per_hour :: int
  writes_per_minute :: int
  bundles_per_hour :: int
  advertise_url :: string
  known_relays :: "string list"

definition default_settings :: settings where
  "default_settings = \<lparr>data_dir = ''relay_data'', host = ''127.0.0.1'', port = 8000,
     max_blob_bytes = MAX_BLOB_BYTES, max_chunk_bytes = MAX_CHUNK_BYTES,
     max_messages_per_mailbox = MAX_MESSAGES_PER_MAILBOX, max_bytes_per_mailbox = MAX_BYTES_PER_MAILBOX,
     max_wait_seconds = MAX_WAIT_SECONDS, max_messages_per_fetch = MAX_MESSAGES_PER_FETCH,
     mailbox_ttl_seconds = 90 * 24 * 3600, blob_ttl_seconds = 30 * 24 * 3600, housekeeping_interval = 3600,
     require_hashcash = False, hashcash_bits = 20,
     mailbox_creates_per_hour = 30, writes_per_minute = 240, bundles_per_hour = 20,
     advertise_url = [], known_relays = []\<rparr>"

type_synonym environ = "(string \<times> string) list"

definition env_get :: "environ \<Rightarrow> string \<Rightarrow> string \<Rightarrow> string" where
  "env_get env name def = (case map_of env name of None \<Rightarrow> def | Some v \<Rightarrow> v)"

definition env_int :: "environ \<Rightarrow> string \<Rightarrow> int \<Rightarrow> int" where
  "env_int env name def =
     (case map_of env name of None \<Rightarrow> def
      | Some raw \<Rightarrow> if raw = [] then def else case str_int raw of Inl _ \<Rightarrow> def | Inr i \<Rightarrow> i)"

fun split_on :: "char \<Rightarrow> string \<Rightarrow> string list" where
  "split_on c [] = [[]]"
| "split_on c (x # xs) =
     (if x = c then [] # split_on c xs
      else case split_on c xs of [] \<Rightarrow> [[x]] | y # ys \<Rightarrow> (x # y) # ys)"

definition env_list :: "environ \<Rightarrow> string \<Rightarrow> string list" where
  "env_list env name = filter (\<lambda>x. x \<noteq> []) (map strip (split_on (CHR '','') (env_get env name [])))"

definition rstrip_slash :: "string \<Rightarrow> string" where
  "rstrip_slash s = rev (dropWhile (\<lambda>c. c = CHR ''/'') (rev s))"

text \<open>\<open>Settings.from_env()\<close> without overrides.\<close>

definition from_env :: "environ \<Rightarrow> settings" where
  "from_env env = default_settings\<lparr>
     data_dir := env_get env ''NK_DATA_DIR'' ''relay_data'',
     host := env_get env ''NK_HOST'' ''127.0.0.1'',
     port := env_int env ''NK_PORT'' 8000,
     require_hashcash := (env_get env ''NK_REQUIRE_HASHCASH'' [] \<notin> {[], ''0''}),
     hashcash_bits := env_int env ''NK_HASHCASH_BITS'' 20,
     mailbox_ttl_seconds := env_int env ''NK_MAILBOX_TTL'' (90 * 24 * 3600),
     blob_ttl_seconds := env_int env ''NK_BLOB_TTL'' (30 * 24 * 3600),
     advertise_url := rstrip_slash (env_get env ''NK_ADVERTISE_URL'' []),
     known_relays := env_list env ''NK_KNOWN_RELAYS'',
     mailbox_creates_per_hour := env_int env ''NK_MAILBOXES_PER_HOUR'' 30,
     writes_per_minute := env_int env ''NK_WRITES_PER_MINUTE'' 240,
     bundles_per_hour := env_int env ''NK_BUNDLES_PER_HOUR'' 20\<rparr>"

subsection \<open>Tokens and proof of work\<close>

definition token_hash :: "crypto \<Rightarrow> bytes \<Rightarrow> bytes" where
  "token_hash C token = sha256 C token"

definition verify_token :: "crypto \<Rightarrow> bytes \<Rightarrow> bytes \<Rightarrow> bool" where
  "verify_token C token stored \<longleftrightarrow> token \<noteq> [] \<and> stored \<noteq> [] \<and> token_hash C token = stored"

definition bit_length :: "byte \<Rightarrow> nat" where
  "bit_length b = (if b = 0 then 0 else Suc (Max (set (filter (bit b) [0..<8]))))"

fun leading_zero_bits :: "bytes \<Rightarrow> int" where
  "leading_zero_bits [] = 0"
| "leading_zero_bits (b # bs) = (if b = 0 then 8 + leading_zero_bits bs else 8 - int (bit_length b))"

text \<open>\<open>value.partition(":")\<close>.\<close>

definition before_colon :: "string \<Rightarrow> string" where
  "before_colon s = takeWhile (\<lambda>c. c \<noteq> CHR '':'') s"

definition after_colon :: "string \<Rightarrow> string" where
  "after_colon s = tl (dropWhile (\<lambda>c. c \<noteq> CHR '':'') s)"

definition verify_hashcash :: "crypto \<Rightarrow> string option \<Rightarrow> int \<Rightarrow> int \<Rightarrow> int \<Rightarrow> bool" where
  "verify_hashcash C stamp bits now max_age =
     (if bits \<le> 0 then True
      else case stamp of None \<Rightarrow> False
      | Some v \<Rightarrow>
        if v = [] \<or> CHR '':'' \<notin> set v then False
        else case str_int (before_colon v) of Inl _ \<Rightarrow> False
        | Inr timestamp \<Rightarrow>
          if timestamp > now + 60 \<or> now - timestamp > max_age then False
          else leading_zero_bits (sha256 C (str_encode (show_int timestamp @ '':'' @ after_colon v))) \<ge> bits)"

subsection \<open>Requests and application state\<close>

record request =
  headers :: "(string \<times> string) list"
  client :: "string option"
  body :: bytes

record app =
  app_db :: db
  app_limiters :: limiters

definition create_app :: "settings \<Rightarrow> app" where
  "create_app S = \<lparr>app_db = empty_db,
     app_limiters = new_limiters (mailbox_creates_per_hour S) (writes_per_minute S) (bundles_per_hour S)\<rparr>"

definition client_key :: "request \<Rightarrow> string" where
  "client_key req = (case client req of None \<Rightarrow> ''unknown'' | Some h \<Rightarrow> h)"

definition header :: "request \<Rightarrow> string \<Rightarrow> string option" where
  "header req name = map_of (headers req) name"

definition on_db :: "(db, 'a) meth \<Rightarrow> (app, 'a) meth" where
  "on_db m a = (let (r, d) = m (app_db a) in (r, a\<lparr>app_db := d\<rparr>))"

text \<open>\<open>if not limiters.x.allow(key): raise HTTPException(429)\<close>.\<close>

definition limit_create :: "request \<Rightarrow> int \<Rightarrow> (app, unit) meth" where
  "limit_create req tick a =
     (let (ok, l) = allow (client_key req) tick (lim_create (app_limiters a)) in
      (guardE ok (HTTPException 429), a\<lparr>app_limiters := (app_limiters a)\<lparr>lim_create := l\<rparr>\<rparr>))"

definition limit_write :: "request \<Rightarrow> int \<Rightarrow> (app, unit) meth" where
  "limit_write req tick a =
     (let (ok, l) = allow (client_key req) tick (lim_write (app_limiters a)) in
      (guardE ok (HTTPException 429), a\<lparr>app_limiters := (app_limiters a)\<lparr>lim_write := l\<rparr>\<rparr>))"

definition limit_bundle :: "request \<Rightarrow> int \<Rightarrow> (app, unit) meth" where
  "limit_bundle req tick a =
     (let (ok, l) = allow (client_key req) tick (lim_bundle (app_limiters a)) in
      (guardE ok (HTTPException 429), a\<lparr>app_limiters := (app_limiters a)\<lparr>lim_bundle := l\<rparr>\<rparr>))"

definition token_from_header :: "request \<Rightarrow> string \<Rightarrow> bytes option" where
  "token_from_header req name =
     (case header req name of None \<Rightarrow> None
      | Some raw \<Rightarrow> if raw = [] then None else case b64d raw of Inl _ \<Rightarrow> None | Inr t \<Rightarrow> Some t)"

datatype capability = Read | Write

definition authenticate_mailbox :: "crypto \<Rightarrow> request \<Rightarrow> string \<Rightarrow> capability \<Rightarrow> (app, mailbox) meth" where
  "authenticate_mailbox C req mid cap =
     (case token_from_header req (case cap of Read \<Rightarrow> ''x-nk-read'' | Write \<Rightarrow> ''x-nk-write'') of
        None \<Rightarrow> raiseS (HTTPException 401)
      | Some token \<Rightarrow>
        bindS (on_db (get_mailbox mid)) (\<lambda>row.
          case row of None \<Rightarrow> raiseS (HTTPException 404)
          | Some b \<Rightarrow>
            if verify_token C token (case cap of Read \<Rightarrow> read_token_hash b | Write \<Rightarrow> write_token_hash b)
            then returnS b else raiseS (HTTPException 401)))"

definition mailbox_id_from_header :: "request \<Rightarrow> string res" where
  "mailbox_id_from_header req =
     (case header req ''x-nk-mailbox'' of None \<Rightarrow> Inl (HTTPException 400)
      | Some mid \<Rightarrow> if mid = [] then Inl (HTTPException 400) else Inr mid)"

subsection \<open>Mailbox endpoints\<close>

text \<open>\<open>^[A-Za-z0-9_-]{8,64}$\<close> with \<open>match\<close>: the dollar also matches before a final newline.\<close>

definition id_char :: "char \<Rightarrow> bool" where
  "id_char c = (let n = (of_char c :: nat) in
     (65 \<le> n \<and> n \<le> 90) \<or> (97 \<le> n \<and> n \<le> 122) \<or> (48 \<le> n \<and> n \<le> 57) \<or> n = 95 \<or> n = 45)"

definition mailbox_id_pattern :: "string \<Rightarrow> bool" where
  "mailbox_id_pattern s =
     (let core = (if s \<noteq> [] \<and> last s = CHR 0x0A then butlast s else s) in
      (\<forall>c \<in> set core. id_char c) \<and> 8 \<le> length core \<and> length core \<le> 64)"

definition TOKEN_SIZE :: nat where "TOKEN_SIZE = 32"

definition provided_capability :: "json \<Rightarrow> (string \<times> bytes \<times> bytes) res" where
  "provided_capability data =
     bindE (rethrow is_shape_error (HTTPException 400)
       (bindE (getitem data ''mailbox_id'') (\<lambda>m.
        bindE (bindE (getitem data ''read_token'') b64d_json) (\<lambda>r.
        bindE (bindE (getitem data ''write_token'') b64d_json) (\<lambda>w. Inr (py_str m, r, w)))))) (\<lambda>(m, r, w).
     bindE (guardE (mailbox_id_pattern m) (HTTPException 400)) (\<lambda>_.
     bindE (guardE (length r = TOKEN_SIZE \<and> length w = TOKEN_SIZE) (HTTPException 400)) (\<lambda>_.
     Inr (m, r, w))))"

definition capability_response :: "string \<Rightarrow> bytes \<Rightarrow> bytes \<Rightarrow> json" where
  "capability_response mid r w =
     JObj [(''mailbox_id'', JStr mid), (''read_token'', JStr (b64e r)), (''write_token'', JStr (b64e w))]"

definition insert_capability :: "crypto \<Rightarrow> settings \<Rightarrow> int \<Rightarrow> string \<Rightarrow> bytes \<Rightarrow> bytes \<Rightarrow> (app, json) meth" where
  "insert_capability C S now mid r w =
     thenS (on_db (create_mailbox mid (token_hash C r) (token_hash C w) now
              (max_messages_per_mailbox S) (max_bytes_per_mailbox S)))
       (returnS (capability_response mid r w))"

definition post_mailbox ::
  "crypto \<Rightarrow> settings \<Rightarrow> int \<Rightarrow> int \<Rightarrow> bytes \<times> bytes \<times> bytes \<Rightarrow> request \<Rightarrow> (app, json) meth" where
  "post_mailbox C S tick now fresh req =
     thenS (limit_create req tick)
     (thenS (liftS (guardE (\<not> require_hashcash S \<or> verify_hashcash C (header req ''x-nk-hashcash'') (hashcash_bits S) now 3600)
               (HTTPException 400)))
     (if body req \<noteq> [] then
        bindS (liftS (rethrow (\<lambda>e. e = JSONDecodeError) (HTTPException 400) (loads_bytes (body req)))) (\<lambda>data.
        bindS (liftS (provided_capability data)) (\<lambda>(mid, r, w).
        bindS (on_db (get_mailbox mid)) (\<lambda>existing.
          case existing of
            Some b \<Rightarrow>
              if verify_token C r (read_token_hash b) \<and> verify_token C w (write_token_hash b)
              then returnS (capability_response mid r w)
              else raiseS (HTTPException 409)
          | None \<Rightarrow> insert_capability C S now mid r w)))
      else (case fresh of (m, r, w) \<Rightarrow> insert_capability C S now (b64e m) r w)))"

text \<open>The long poll of \<open>get_mailbox\<close>: the successive readings of the database, each with the time after
  it.  The loop ends at the first reading that has rows or is not before the deadline; \<open>None\<close> if the
  observations given do not suffice.\<close>

fun poll :: "int \<Rightarrow> string \<Rightarrow> int \<Rightarrow> int \<Rightarrow> (db \<times> int) list \<Rightarrow> msg_row list res option" where
  "poll deadline mid after_seq lim [] = None"
| "poll deadline mid after_seq lim ((d, t) # obs) =
     (case fst (get_messages mid after_seq lim d) of
        Inl e \<Rightarrow> Some (Inl e)
      | Inr rows \<Rightarrow> if rows \<noteq> [] \<or> t \<ge> deadline then Some (Inr rows) else poll deadline mid after_seq lim obs)"

definition messages_response :: "int \<Rightarrow> msg_row list \<Rightarrow> json" where
  "messages_response after_seq rows =
     JObj [(''messages'', JArr (map (\<lambda>m. JObj [(''seq'', JInt (m_seq m)), (''blob'', JStr (b64e (m_ciphertext m)))]) rows)),
           (''next_seq'', JInt (if rows = [] then after_seq else m_seq (last rows)))]"

text \<open>\<open>start\<close> is the reading of the clock before the loop, \<open>obs\<close> the later readings; the first reading of
  the database is of the state the handler starts in.\<close>

definition get_mailbox_messages ::
  "crypto \<Rightarrow> settings \<Rightarrow> int \<Rightarrow> int \<Rightarrow> (db \<times> int) list \<Rightarrow> request \<Rightarrow> string \<Rightarrow> int \<Rightarrow> int \<Rightarrow> app \<Rightarrow> json res option" where
  "get_mailbox_messages C S start t0 obs req mid after_seq wait a =
     (case fst (authenticate_mailbox C req mid Read a) of
        Inl e \<Rightarrow> Some (Inl e)
      | Inr _ \<Rightarrow>
        let deadline = start + max 0 (min wait (max_wait_seconds S)) in
        map_option (\<lambda>r. bindE r (\<lambda>rows. Inr (messages_response after_seq rows)))
          (poll deadline mid after_seq (max_messages_per_fetch S) ((app_db a, t0) # obs)))"

definition http_db_error :: "pyerr \<Rightarrow> pyerr" where
  "http_db_error e = (if e = MailboxNotFound then HTTPException 404
     else if e = QuotaExceeded then HTTPException 429 else e)"

definition map_error :: "(pyerr \<Rightarrow> pyerr) \<Rightarrow> ('s, 'a) meth \<Rightarrow> ('s, 'a) meth" where
  "map_error f m s = (case m s of (Inl e, s') \<Rightarrow> (Inl (f e), s') | (Inr x, s') \<Rightarrow> (Inr x, s'))"

definition post_message :: "crypto \<Rightarrow> settings \<Rightarrow> int \<Rightarrow> int \<Rightarrow> request \<Rightarrow> string \<Rightarrow> (app, json) meth" where
  "post_message C S tick now req mid =
     thenS (authenticate_mailbox C req mid Write)
     (thenS (limit_write req tick)
     (if body req = [] then raiseS (HTTPException 400)
      else if int (length (body req)) > max_blob_bytes S then raiseS (HTTPException 413)
      else bindS (map_error http_db_error (on_db (put_message mid (body req) now)))
        (\<lambda>seq. returnS (JObj [(''seq'', JInt seq)]))))"

definition post_ack :: "crypto \<Rightarrow> request \<Rightarrow> string \<Rightarrow> (app, json) meth" where
  "post_ack C req mid =
     thenS (authenticate_mailbox C req mid Read)
     (bindS (liftS (rethrow (\<lambda>_. True) (HTTPException 400)
               (bindE (loads_bytes (body req)) (\<lambda>p. bindE (getitem p ''upto_seq'') py_int)))) (\<lambda>upto_seq.
      bindS (on_db (ack_messages mid upto_seq)) (\<lambda>n. returnS (JObj [(''deleted'', JInt n)]))))"

definition delete_mailbox_endpoint :: "crypto \<Rightarrow> request \<Rightarrow> string \<Rightarrow> (app, json) meth" where
  "delete_mailbox_endpoint C req mid =
     thenS (authenticate_mailbox C req mid Read)
     (bindS (on_db (delete_mailbox mid)) (\<lambda>(nm, nb).
       returnS (JObj [(''deleted_messages'', JInt nm), (''deleted_blobs'', JInt nb)])))"

subsection \<open>Blob endpoints\<close>

definition CHUNK_ID_SIZE :: nat where "CHUNK_ID_SIZE = 16"

definition chunk_id :: "string \<Rightarrow> request \<Rightarrow> string res" where
  "chunk_id fresh req =
     (case header req ''x-nk-chunk'' of None \<Rightarrow> Inr fresh
      | Some provided \<Rightarrow>
        if provided = [] then Inr fresh
        else bindE (rethrow (\<lambda>_. True) (HTTPException 400) (b64d provided)) (\<lambda>raw.
          if length raw \<noteq> CHUNK_ID_SIZE then Inl (HTTPException 400) else Inr provided))"

definition upload_blob :: "crypto \<Rightarrow> settings \<Rightarrow> int \<Rightarrow> int \<Rightarrow> string \<Rightarrow> request \<Rightarrow> (app, json) meth" where
  "upload_blob C S tick now fresh req =
     bindS (liftS (mailbox_id_from_header req)) (\<lambda>mid.
     thenS (authenticate_mailbox C req mid Write)
     (thenS (limit_write req tick)
     (if body req = [] then raiseS (HTTPException 400)
      else if int (length (body req)) > max_chunk_bytes S then raiseS (HTTPException 413)
      else bindS (liftS (chunk_id fresh req)) (\<lambda>cid.
        bindS (getS (\<lambda>a. find_blob cid (app_db a))) (\<lambda>existing.
        case existing of
          Some c \<Rightarrow> if c_mailbox c = mid then returnS (JObj [(''chunk_id'', JStr cid)]) else raiseS (HTTPException 409)
        | None \<Rightarrow>
          thenS (map_error http_db_error (on_db (put_blob cid mid (body req) now)))
            (returnS (JObj [(''chunk_id'', JStr cid)])))))))"

definition download_blob :: "crypto \<Rightarrow> request \<Rightarrow> string \<Rightarrow> (app, bytes) meth" where
  "download_blob C req cid =
     bindS (liftS (mailbox_id_from_header req)) (\<lambda>mid.
     thenS (authenticate_mailbox C req mid Read)
     (bindS (map_error (\<lambda>e. if e = BlobNotFound then HTTPException 404 else e) (on_db (get_blob cid))) (\<lambda>row.
      if c_mailbox row \<noteq> mid then raiseS (HTTPException 404) else returnS (c_ciphertext row))))"

subsection \<open>Prekey endpoints\<close>

definition MAX_BUNDLE_BYTES :: int where "MAX_BUNDLE_BYTES = 16 * 1024"
definition MAX_OPKS :: nat where "MAX_OPKS = 100"

definition parse_bundle :: "bytes \<Rightarrow> (dict \<times> string \<times> json list) res" where
  "parse_bundle b =
     rethrow (\<lambda>_. True) (HTTPException 400)
       (bindE (loads_bytes b) (\<lambda>p. bindE (getitem p ''bundle_id'') (\<lambda>v.
          case p of JObj d \<Rightarrow> bindE (py_list_or (map_of d ''opks'')) (\<lambda>xs. Inr (d, py_str v, xs))
          | _ \<Rightarrow> Inl TypeError)))"

definition post_prekeys :: "int \<Rightarrow> int \<Rightarrow> request \<Rightarrow> (app, json) meth" where
  "post_prekeys tick now req =
     thenS (limit_bundle req tick)
     (if body req = [] \<or> int (length (body req)) > MAX_BUNDLE_BYTES then raiseS (HTTPException 413)
      else bindS (liftS (parse_bundle (body req))) (\<lambda>(payload, bid, xs).
        if length xs > MAX_OPKS then raiseS (HTTPException 400)
        else thenS (on_db (publish_bundle bid (AList.delete ''opks'' payload @ [(''opks'', JArr [])]) xs now))
          (returnS (JObj [(''bundle_id'', JStr bid)]))))"

definition get_prekeys :: "string \<Rightarrow> (app, json) meth" where
  "get_prekeys bid =
     bindS (map_error (\<lambda>e. if e = BundleNotFound then HTTPException 404 else e) (on_db (fetch_bundle bid)))
       (\<lambda>p. returnS (JObj p))"

subsection \<open>Discovery\<close>

definition starts_with :: "string \<Rightarrow> string \<Rightarrow> bool" where
  "starts_with p s \<longleftrightarrow> take (length p) s = p"

definition is_http :: "string \<Rightarrow> bool" where
  "is_http s \<longleftrightarrow> starts_with ''http://'' s \<or> starts_with ''https://'' s"

fun normalize_relays :: "string list \<Rightarrow> string list \<Rightarrow> string list" where
  "normalize_relays seen [] = seen"
| "normalize_relays seen (url # urls) =
     (let cleaned = rstrip_slash (strip url) in
      if cleaned = [] then normalize_relays seen urls
      else let full = (if is_http cleaned then cleaned else ''https://'' @ cleaned) in
        normalize_relays (if full \<in> set seen then seen else seen @ [full]) urls)"

text \<open>The file \<open>relays.json\<close>: absent or unreadable, or its parsed content.\<close>

definition file_relays :: "json res option \<Rightarrow> string list" where
  "file_relays content =
     (case content of None \<Rightarrow> []
      | Some (Inl _) \<Rightarrow> []
      | Some (Inr data) \<Rightarrow>
        (let listing = (case data of JObj d \<Rightarrow> (case map_of d ''relays'' of None \<Rightarrow> JArr [] | Some v \<Rightarrow> v) | _ \<Rightarrow> data) in
         case listing of JArr xs \<Rightarrow> map py_str xs | _ \<Rightarrow> []))"

definition list_relays :: "settings \<Rightarrow> json res option \<Rightarrow> json" where
  "list_relays S content =
     (let own = (if advertise_url S \<noteq> [] then [advertise_url S] else []);
          relays = normalize_relays [] (own @ known_relays S @ file_relays content) in
      JObj [(''relays'', JArr (map JStr relays)),
            (''advertise'', if advertise_url S \<noteq> [] then JStr (advertise_url S) else JNull)])"

definition health :: "string \<Rightarrow> (app, json) meth" where
  "health version =
     bindS (on_db stats) (\<lambda>st. returnS (JObj [(''status'', JStr ''ok''), (''version'', JStr version),
       (''mailboxes'', JInt (st_mailboxes st)), (''messages'', JInt (st_messages st)), (''blobs'', JInt (st_blobs st)),
       (''bytes'', JInt (st_bytes st)), (''prekey_bundles'', JInt (st_prekey_bundles st))]))"

text \<open>One round of the housekeeping loop; an exception is swallowed.\<close>

definition housekeeping_tick :: "settings \<Rightarrow> int \<Rightarrow> app \<Rightarrow> app" where
  "housekeeping_tick S now a = snd (on_db (housekeeping now (mailbox_ttl_seconds S) (blob_ttl_seconds S)) a)"

subsection \<open>Authentication\<close>

definition token_header :: "capability \<Rightarrow> string" where
  "token_header cap = (case cap of Read \<Rightarrow> ''x-nk-read'' | Write \<Rightarrow> ''x-nk-write'')"

definition stored_hash :: "capability \<Rightarrow> mailbox \<Rightarrow> bytes" where
  "stored_hash cap b = (case cap of Read \<Rightarrow> read_token_hash b | Write \<Rightarrow> write_token_hash b)"

text \<open>The request presents a token whose hash is the one stored for the mailbox.\<close>

definition holds :: "crypto \<Rightarrow> request \<Rightarrow> string \<Rightarrow> capability \<Rightarrow> db \<Rightarrow> bool" where
  "holds C req mid cap d \<longleftrightarrow> (\<exists>token b. token_from_header req (token_header cap) = Some token
     \<and> find_mailbox mid d = Some b \<and> verify_token C token (stored_hash cap b))"

lemma authenticate_eq:
  "authenticate_mailbox C req mid cap a =
     (case token_from_header req (token_header cap) of None \<Rightarrow> (Inl (HTTPException 401), a)
      | Some token \<Rightarrow>
        (case find_mailbox mid (app_db a) of None \<Rightarrow> (Inl (HTTPException 404), a)
         | Some b \<Rightarrow> if verify_token C token (stored_hash cap b) then (Inr b, a) else (Inl (HTTPException 401), a)))"
  by (cases cap) (simp_all add: authenticate_mailbox_def token_header_def stored_hash_def get_mailbox_def on_db_def
      meth_defs split: option.split)

lemma authenticate_cases:
  obtains (yes) b where "authenticate_mailbox C req mid cap a = (Inr b, a)" "holds C req mid cap (app_db a)"
      "find_mailbox mid (app_db a) = Some b"
  | (no) n where "authenticate_mailbox C req mid cap a = (Inl (HTTPException n), a)" "\<not> holds C req mid cap (app_db a)"
proof (cases "holds C req mid cap (app_db a)")
  case True
  then show ?thesis using yes by (auto simp: authenticate_eq holds_def)
next
  case False
  then have "\<exists>n. authenticate_mailbox C req mid cap a = (Inl (HTTPException n), a)"
    by (auto simp: authenticate_eq holds_def split: option.split)
  then show ?thesis using no False by blast
qed

lemma limit_write_db [simp]: "app_db (snd (limit_write req t a)) = app_db a"
  by (simp add: limit_write_def split_beta Let_def)

lemma limit_create_db [simp]: "app_db (snd (limit_create req t a)) = app_db a"
  by (simp add: limit_create_def split_beta Let_def)

lemma limit_bundle_db [simp]: "app_db (snd (limit_bundle req t a)) = app_db a"
  by (simp add: limit_bundle_def split_beta Let_def)

lemma on_db_eq: "on_db m a = (fst (m (app_db a)), a\<lparr>app_db := snd (m (app_db a))\<rparr>)"
  by (simp add: on_db_def split_beta Let_def)

lemma map_error_state [simp]: "snd (map_error f m s) = snd (m s)"
  by (auto simp: map_error_def split: prod.split sum.split)

text \<open>What remains of a handler once its first steps have succeeded.\<close>

lemma thenS_state:
  "snd (thenS m k s) = (case fst (m s) of Inl e \<Rightarrow> snd (m s) | Inr _ \<Rightarrow> snd (k (snd (m s))))"
  by (auto simp: thenS_def bindS_def split: prod.split sum.split)

lemma bindS_state:
  "snd (bindS m k s) = (case fst (m s) of Inl e \<Rightarrow> snd (m s) | Inr x \<Rightarrow> snd (k x (snd (m s))))"
  by (auto simp: bindS_def split: prod.split sum.split)

lemma simple_states [simp]:
  "snd (raiseS e s) = s" "snd (returnS x s) = s" "snd (liftS r s) = s" "snd (getS f s) = s"
  "fst (raiseS e s) = Inl e" "fst (returnS x s) = Inr x" "fst (liftS r s) = r" "fst (getS f s) = Inr (f s)"
  by (simp_all add: meth_defs)

lemma on_db_state [simp]: "snd (on_db m a) = a\<lparr>app_db := snd (m (app_db a))\<rparr>" "fst (on_db m a) = fst (m (app_db a))"
  by (simp_all add: on_db_eq)

lemma get_mailbox_state [simp]: "snd (get_mailbox mid d) = d" "fst (get_mailbox mid d) = Inr (find_mailbox mid d)"
  by (simp_all add: get_mailbox_def meth_defs)

lemma get_blob_state [simp]: "snd (get_blob cid d) = d"
  by (simp add: get_blob_def meth_defs split: option.split)

lemma post_message_db:
  "app_db (snd (post_message C S t now req mid a)) = app_db a
   \<or> holds C req mid Write (app_db a) \<and> app_db (snd (post_message C S t now req mid a)) = snd (put_message mid (body req) now (app_db a))"
  by (cases rule: authenticate_cases [of C req mid Write a])
    (auto simp: post_message_def thenS_state bindS_state split: sum.split)

lemma post_ack_db:
  "app_db (snd (post_ack C req mid a)) = app_db a
   \<or> holds C req mid Read (app_db a) \<and> (\<exists>n. app_db (snd (post_ack C req mid a)) = snd (ack_messages mid n (app_db a)))"
  by (cases rule: authenticate_cases [of C req mid Read a])
    (auto simp: post_ack_def thenS_state bindS_state split: sum.split)

lemma delete_mailbox_db:
  "app_db (snd (delete_mailbox_endpoint C req mid a)) = app_db a
   \<or> holds C req mid Read (app_db a) \<and> app_db (snd (delete_mailbox_endpoint C req mid a)) = snd (delete_mailbox mid (app_db a))"
  by (cases rule: authenticate_cases [of C req mid Read a])
    (auto simp: delete_mailbox_endpoint_def thenS_state bindS_state delete_mailbox_eq split: sum.split)

lemma upload_blob_db:
  "app_db (snd (upload_blob C S t now fresh req a)) = app_db a
   \<or> (\<exists>mid cid. mailbox_id_from_header req = Inr mid \<and> holds C req mid Write (app_db a) \<and>
        app_db (snd (upload_blob C S t now fresh req a)) = snd (put_blob cid mid (body req) now (app_db a)))"
proof (cases "mailbox_id_from_header req")
  case (Inr mid)
  then show ?thesis
    by (cases rule: authenticate_cases [of C req mid Write a])
      (auto simp: upload_blob_def thenS_state bindS_state split: sum.split option.split)
qed (simp add: upload_blob_def bindS_state)

lemma download_blob_db: "app_db (snd (download_blob C req cid a)) = app_db a"
proof (cases "mailbox_id_from_header req")
  case (Inr mid)
  then show ?thesis
    by (cases rule: authenticate_cases [of C req mid Read a])
      (auto simp: download_blob_def thenS_state bindS_state split: sum.split)
qed (simp add: download_blob_def bindS_state)

lemma insert_capability_db:
  "app_db (snd (insert_capability C S now mid r w a))
   = snd (create_mailbox mid (token_hash C r) (token_hash C w) now (max_messages_per_mailbox S) (max_bytes_per_mailbox S) (app_db a))"
  by (simp add: insert_capability_def thenS_state split: sum.split)

lemma create_mailbox_existing: "find_mailbox mid d \<noteq> None \<Longrightarrow> snd (create_mailbox mid rh wh now mm mby d) = d"
  by (simp add: create_mailbox_def meth_defs)

lemma post_mailbox_db:
  "app_db (snd (post_mailbox C S t now fresh req a)) = app_db a
   \<or> (\<exists>mid r w. find_mailbox mid (app_db a) = None \<and> app_db (snd (post_mailbox C S t now fresh req a))
       = snd (create_mailbox mid (token_hash C r) (token_hash C w) now (max_messages_per_mailbox S) (max_bytes_per_mailbox S) (app_db a)))"
proof -
  let ?ok = "\<lambda>d'. d' = app_db a \<or> (\<exists>mid r w. find_mailbox mid (app_db a) = None
     \<and> d' = snd (create_mailbox mid (token_hash C r) (token_hash C w) now (max_messages_per_mailbox S) (max_bytes_per_mailbox S) (app_db a)))"
  have ins: "?ok (app_db (snd (insert_capability C S now mid r w a')))" if "app_db a' = app_db a" for mid r w a'
    using that create_mailbox_existing [of mid "app_db a"] by (cases "find_mailbox mid (app_db a)") (auto simp: insert_capability_db)
  obtain l where l: "snd (limit_create req t a) = a\<lparr>app_limiters := l\<rparr>"
    by (simp add: limit_create_def split_beta Let_def)
  let ?a = "a\<lparr>app_limiters := l\<rparr>"
  have "?ok (app_db (snd (insert_capability C S now mid r w ?a)))" for mid r w by (rule ins) simp
  then show ?thesis
    by (auto simp: post_mailbox_def thenS_state bindS_state l split: sum.split option.split prod.split)
qed

lemma post_prekeys_db:
  "app_db (snd (post_prekeys t now req a)) = app_db a
   \<or> (\<exists>bid payload xs. app_db (snd (post_prekeys t now req a)) = snd (publish_bundle bid payload xs now (app_db a)))"
  by (auto simp: post_prekeys_def thenS_state bindS_state split: sum.split prod.split)

lemma get_prekeys_db: "app_db (snd (get_prekeys bid a)) = snd (fetch_bundle bid (app_db a))"
  by (simp add: get_prekeys_def bindS_state split: sum.split)

subsection \<open>The relay as a machine\<close>

datatype api_call =
    PostMailbox int int "bytes \<times> bytes \<times> bytes" request
  | PostMessage int int request string
  | PostAck request string
  | DeleteMailboxCall request string
  | UploadBlob int int string request
  | DownloadBlob request string
  | PostPrekeys int int request
  | GetPrekeys string
  | HousekeepingTick int

fun api_step :: "crypto \<Rightarrow> settings \<Rightarrow> app \<Rightarrow> api_call \<Rightarrow> app" where
  "api_step C S a (PostMailbox t now fresh req) = snd (post_mailbox C S t now fresh req a)"
| "api_step C S a (PostMessage t now req mid) = snd (post_message C S t now req mid a)"
| "api_step C S a (PostAck req mid) = snd (post_ack C req mid a)"
| "api_step C S a (DeleteMailboxCall req mid) = snd (delete_mailbox_endpoint C req mid a)"
| "api_step C S a (UploadBlob t now fresh req) = snd (upload_blob C S t now fresh req a)"
| "api_step C S a (DownloadBlob req cid) = snd (download_blob C req cid a)"
| "api_step C S a (PostPrekeys t now req) = snd (post_prekeys t now req a)"
| "api_step C S a (GetPrekeys bid) = snd (get_prekeys bid a)"
| "api_step C S a (HousekeepingTick now) = housekeeping_tick S now a"

text \<open>Each call is at most one operation of the database; this simulation carries the invariant of the
  database over to the relay.\<close>

lemma api_step_simulates: "\<exists>ops. app_db (api_step C S a call) = foldl db_step (app_db a) ops"
proof -
  have one: "\<exists>ops. d' = foldl db_step d ops" if "d' = d \<or> (\<exists>opn. d' = db_step d opn)" for d d'
    using that by (metis foldl_Cons foldl_Nil)
  show ?thesis
  proof (cases call)
    case (PostMailbox t now fresh req)
    then show ?thesis using post_mailbox_db [of C S t now fresh req a, folded db_step.simps(1)] by (intro one) (auto simp del: db_step.simps)
  next
    case (PostMessage t now req mid)
    then show ?thesis using post_message_db [of C S t now req mid a, folded db_step.simps(4)] by (intro one) (auto simp del: db_step.simps)
  next
    case (PostAck req mid)
    then show ?thesis using post_ack_db [of C req mid a, folded db_step.simps(5)] by (intro one) (auto simp del: db_step.simps)
  next
    case (DeleteMailboxCall req mid)
    then show ?thesis using delete_mailbox_db [of C req mid a, folded db_step.simps(2)] by (intro one) (auto simp del: db_step.simps)
  next
    case (UploadBlob t now fresh req)
    then show ?thesis using upload_blob_db [of C S t now fresh req a, folded db_step.simps(8)] by (intro one) (auto simp del: db_step.simps)
  next
    case (DownloadBlob req cid)
    then show ?thesis by (intro one) (simp add: download_blob_db)
  next
    case (PostPrekeys t now req)
    then show ?thesis using post_prekeys_db [of t now req a, folded db_step.simps(6)] by (intro one) (auto simp del: db_step.simps)
  next
    case (GetPrekeys bid)
    then show ?thesis using get_prekeys_db [of bid a, folded db_step.simps(7)] by (intro one) (auto simp del: db_step.simps)
  next
    case (HousekeepingTick now)
    then show ?thesis using housekeeping_tick_def [of S now a] by (intro one) (auto simp: db_step.simps(10) [symmetric] simp del: db_step.simps)
  qed
qed

interpretation api_machine: machine "api_step C S" "\<lambda>a. db_inv (app_db a)" for C S
  by unfold_locales (metis api_step_simulates db_machine.run_inv)

lemma create_app_inv: "db_inv (app_db (create_app S))"
  by (simp add: create_app_def empty_db_inv)

text \<open>What a mailbox holds, and which call may change it.\<close>

definition view :: "string \<Rightarrow> db \<Rightarrow> mailbox option \<times> msg_row list \<times> blob_row list" where
  "view mid d = (find_mailbox mid d, msgs_of mid d, blobs_of mid d)"

fun authorised :: "crypto \<Rightarrow> settings \<Rightarrow> db \<Rightarrow> string \<Rightarrow> api_call \<Rightarrow> bool" where
  "authorised C S d mid (PostMailbox _ _ _ _) \<longleftrightarrow> find_mailbox mid d = None"
| "authorised C S d mid (PostMessage _ _ req m) \<longleftrightarrow> m = mid \<and> holds C req mid Write d"
| "authorised C S d mid (PostAck req m) \<longleftrightarrow> m = mid \<and> holds C req mid Read d"
| "authorised C S d mid (DeleteMailboxCall req m) \<longleftrightarrow> m = mid \<and> holds C req mid Read d"
| "authorised C S d mid (UploadBlob _ _ _ req) \<longleftrightarrow> mailbox_id_from_header req = Inr mid \<and> holds C req mid Write d"
| "authorised C S d mid (HousekeepingTick now) \<longleftrightarrow>
     (\<exists>b. find_mailbox mid d = Some b \<and> last_seen b < now - mailbox_ttl_seconds S)"
| "authorised C S d mid _ \<longleftrightarrow> False"

lemma find_update_other:
  "other \<noteq> mid \<Longrightarrow> (\<And>b. mb_id (g b) = mb_id b) \<Longrightarrow> find_mailbox other (update_mailbox mid g d) = find_mailbox other d"
proof -
  assume a: "other \<noteq> mid" "\<And>b. mb_id (g b) = mb_id b"
  have "find (\<lambda>b. mb_id b = other) (map (\<lambda>b. if mb_id b = mid then g b else b) bs) = find (\<lambda>b. mb_id b = other) bs" for bs
    using a by (induction bs) auto
  then show ?thesis by (simp add: find_mailbox_def update_mailbox_def)
qed

lemma find_update_same:
  "find_mailbox mid d = Some b \<Longrightarrow> (\<And>b. mb_id (g b) = mb_id b) \<Longrightarrow> find_mailbox mid (update_mailbox mid g d) = Some (g b)"
proof -
  assume a: "find_mailbox mid d = Some b" "\<And>b. mb_id (g b) = mb_id b"
  have "find (\<lambda>b. mb_id b = mid) bs = Some b \<Longrightarrow>
      find (\<lambda>b. mb_id b = mid) (map (\<lambda>b. if mb_id b = mid then g b else b) bs) = Some (g b)" for bs
    using a(2) by (induction bs) (auto split: if_splits)
  then show ?thesis using a(1) by (simp add: find_mailbox_def update_mailbox_def)
qed

lemma view_put_message: "other \<noteq> mid \<Longrightarrow> view other (snd (put_message mid ct now d)) = view other d"
  by (cases rule: put_message_cases [of mid d ct now])
    (simp_all add: view_def find_update_other, simp add: find_mailbox_def msgs_of_def blobs_of_def update_mailbox_def)

lemma view_ack: "other \<noteq> mid \<Longrightarrow> view other (snd (ack_messages mid n d)) = view other d"
proof -
  assume "other \<noteq> mid"
  then have "filter (\<lambda>m. m_mailbox m = other) (filter (\<lambda>m. \<not> (m_mailbox m = mid \<and> m_seq m \<le> n)) ms)
      = filter (\<lambda>m. m_mailbox m = other) ms" for ms
    by (induction ms) auto
  then show ?thesis using ack_messages_state [of mid n d] by (auto simp: view_def find_mailbox_def msgs_of_def blobs_of_def)
qed

lemma find_filter: "\<not> (\<exists>x. P x \<and> \<not> Q x) \<Longrightarrow> find P (filter Q xs) = find P xs"
  by (induction xs) auto

lemma view_purge: "mid \<notin> ids \<Longrightarrow> view mid (purge ids d) = view mid d"
proof -
  assume a: "mid \<notin> ids"
  have "filter (\<lambda>m. m_mailbox m = mid) (filter (\<lambda>m. m_mailbox m \<notin> ids) ms) = filter (\<lambda>m. m_mailbox m = mid) ms"
    "filter (\<lambda>c. c_mailbox c = mid) (filter (\<lambda>c. c_mailbox c \<notin> ids) cs) = filter (\<lambda>c. c_mailbox c = mid) cs"
    for ms :: "msg_row list" and cs :: "blob_row list"
    using a by (auto intro!: filter_cong)
  moreover have "find (\<lambda>b. mb_id b = mid) (filter (\<lambda>b. mb_id b \<notin> ids) bs) = find (\<lambda>b. mb_id b = mid) bs" for bs :: "mailbox list"
    using a by (intro find_filter) auto
  ultimately show ?thesis by (simp add: view_def purge_def find_mailbox_def msgs_of_def blobs_of_def del: filter_filter)
qed

lemma view_put_blob: "other \<noteq> mid \<Longrightarrow> view other (snd (put_blob cid mid ct now d)) = view other d"
  by (simp add: put_blob_def meth_defs Let_def view_def find_mailbox_def msgs_of_def blobs_of_def split: option.split)

lemma find_append_other: "\<not> P x \<Longrightarrow> find P (xs @ [x]) = find P xs"
  by (induction xs) auto

lemma view_create: "other \<noteq> mid \<Longrightarrow> view other (snd (create_mailbox mid rh wh now mm mby d)) = view other d"
  by (simp add: create_mailbox_def meth_defs view_def find_mailbox_def msgs_of_def blobs_of_def find_append_other)

lemma view_prekeys: "view mid (d\<lparr>bundles := bs, opks := os, opk_autoinc := k\<rparr>) = view mid d"
  "view mid (d\<lparr>opks := os\<rparr>) = view mid d"
  by (simp_all add: view_def find_mailbox_def msgs_of_def blobs_of_def)

text \<open>Prekeys and downloads leave every mailbox alone, and housekeeping touches idle ones only.\<close>

lemma view_after_lookups:
  assumes "db_inv (app_db a)" "call = PostPrekeys t now req \<or> call = GetPrekeys bid \<or> call = DownloadBlob req cid"
  shows "view mid (app_db (api_step C S a call)) = view mid (app_db a)"
proof -
  have "view mid (snd (publish_bundle b payload xs n (app_db a))) = view mid (app_db a)" for b payload xs n
    using publish_bundle_shape [OF assms(1), of b payload xs n] view_prekeys(1)
    by (cases "publish_bundle b payload xs n (app_db a)") (metis snd_conv)
  moreover have "view mid (snd (fetch_bundle bid (app_db a))) = view mid (app_db a)"
    by (cases rule: fetch_bundle_cases [of bid "app_db a"]) (simp_all add: view_prekeys)
  ultimately show ?thesis
    using assms(2) post_prekeys_db [of t now req a] by (auto simp: get_prekeys_db download_blob_db)
qed

lemma view_after_tick:
  assumes "db_inv (app_db a)" "view mid (app_db (api_step C S a (HousekeepingTick now))) \<noteq> view mid (app_db a)"
  shows "authorised C S (app_db a) mid (HousekeepingTick now)"
proof -
  let ?cut = "now - mailbox_ttl_seconds S"
  have "mid \<in> set (stale_ids ?cut (app_db a))"
    using assms(2) view_purge [of mid "set (stale_ids ?cut (app_db a))" "app_db a"]
    by (auto simp: housekeeping_tick_def housekeeping_eq [OF assms(1)] Let_def)
  then obtain b where b: "b \<in> set (mailboxes (app_db a))" "last_seen b < ?cut" "mb_id b = mid" by (auto simp: stale_ids_def)
  then obtain b' where b': "find_mailbox mid (app_db a) = Some b'"
    using find_mailbox_None [of mid "app_db a"] by (cases "find_mailbox mid (app_db a)") auto
  have "b' = b" using find_mailbox_Some [OF b'] mailbox_unique [OF assms(1) b(1)] b(3) by simp
  then show ?thesis using b(2) b' by simp
qed

text \<open>C8: nothing changes in a mailbox without its capability.  In any state the relay can reach, a
  request changes the row, the messages or the blobs of a mailbox only if it writes or uploads to
  that very mailbox with a token whose hash is the stored write hash, or acknowledges in it or
  deletes it with its read token; the only other changes are the creation of a mailbox that did not
  exist and the removal of an idle one by housekeeping.\<close>

theorem mailbox_change_authorised:
  assumes "a = foldl (api_step C S) (create_app S) calls"
    and "view mid (app_db (api_step C S a call)) \<noteq> view mid (app_db a)"
  shows "authorised C S (app_db a) mid call"
proof -
  have i: "db_inv (app_db a)" unfolding assms(1) by (rule api_machine.run_inv [OF create_app_inv])
  let ?d = "app_db a"
  show ?thesis
  proof (cases call)
    case (PostMailbox t now fresh req)
    then show ?thesis using assms(2) post_mailbox_db [of C S t now fresh req a]
      by (cases "find_mailbox mid ?d") (auto, metis option.distinct(1) view_create)
  next
    case (PostMessage t now req m)
    then show ?thesis using assms(2) post_message_db [of C S t now req m a] by (cases "m = mid") (auto simp: view_put_message)
  next
    case (PostAck req m)
    then show ?thesis using assms(2) post_ack_db [of C req m a] by (cases "m = mid") (auto simp: view_ack)
  next
    case (DeleteMailboxCall req m)
    then show ?thesis using assms(2) delete_mailbox_db [of C req m a] view_purge [of mid "{m}" ?d]
      by (cases "m = mid") (auto simp: delete_mailbox_eq)
  next
    case (UploadBlob t now fresh req)
    then show ?thesis using assms(2) upload_blob_db [of C S t now fresh req a] by (auto, metis view_put_blob, metis view_put_blob)
  next
    case (DownloadBlob req cid)
    then show ?thesis using assms(2) view_after_lookups [OF i] by blast
  next
    case (PostPrekeys t now req)
    then show ?thesis using assms(2) view_after_lookups [OF i] by blast
  next
    case (GetPrekeys bid)
    then show ?thesis using assms(2) view_after_lookups [OF i] by blast
  next
    case (HousekeepingTick now)
    then show ?thesis using assms(2) view_after_tick [OF i] by blast
  qed
qed

subsection \<open>Store and forward\<close>

lemma holdsI:
  "token_from_header req (token_header cap) = Some token \<Longrightarrow> find_mailbox mid (app_db a) = Some b \<Longrightarrow>
   verify_token C token (stored_hash cap b) \<Longrightarrow> authenticate_mailbox C req mid cap a = (Inr b, a)"
  by (simp add: authenticate_eq)

text \<open>A request that carries a token in the header where the relay looks for it.\<close>

definition carries :: "request \<Rightarrow> capability \<Rightarrow> bytes \<Rightarrow> bool" where
  "carries req cap token \<longleftrightarrow> header req (token_header cap) = Some (b64e token)"

lemma b64e_nonempty: "bs \<noteq> [] \<Longrightarrow> b64e bs \<noteq> []"
  by (metis b64d_b64e b64e.simps(1) sum.inject(2))

lemma carries_token: "carries req cap token \<Longrightarrow> token \<noteq> [] \<Longrightarrow> token_from_header req (token_header cap) = Some token"
  by (simp add: carries_def token_from_header_def b64e_nonempty)

lemma waiting_append:
  assumes "db_inv d" "find_mailbox mid d = Some b"
    and "msgs_of mid d' = msgs_of mid d @ [new_msg mid (next_seq b) ct now]"
  shows "waiting mid (next_seq b - 1) d' = [new_msg mid (next_seq b) ct now]"
proof -
  have less: "m_seq m < next_seq b" if m: "m \<in> set (msgs_of mid d)" for m
  proof -
    have "m \<in> set (messages d)" "m_mailbox m = mid" using m by (auto simp: msgs_of_def)
    then show ?thesis using find_mailbox_Some [OF assms(2)] mailbox_unique [OF assms(1)] by (metis owned_msg [OF assms(1)])
  qed
  have "filter (\<lambda>m. m_mailbox m = mid \<and> m_seq m > next_seq b - 1) (messages d')
      = filter (\<lambda>m. m_seq m > next_seq b - 1) (msgs_of mid d')"
    by (simp add: msgs_of_def conj_commute)
  also have "\<dots> = [new_msg mid (next_seq b) ct now]"
    by (auto simp: assms(3) filter_empty_conv dest!: less)
  finally show ?thesis by (simp add: waiting_def)
qed

text \<open>Store and forward.  A write with the mailbox's write token, a non-empty body within the size
  limit, admitted by the limiter and within the quota, is answered with the mailbox's next sequence
  number, and a reader with the read token that has seen everything before it then gets exactly this
  message, with the bytes that were written, and its number as the new cursor, without waiting.\<close>

lemma post_then_get:
  assumes i: "db_inv (app_db a)" and b: "find_mailbox mid (app_db a) = Some b"
    and tok: "write_token_hash b = token_hash C w" "read_token_hash b = token_hash C r" "w \<noteq> []" "r \<noteq> []"
      "hash_lengths C" "carries wreq Write w" "carries rreq Read r"
    and lim: "fst (allow (client_key wreq) t (lim_write (app_limiters a)))"
    and body: "body wreq \<noteq> []" "int (length (body wreq)) \<le> max_blob_bytes S"
    and quota: "fst (usage mid (app_db a)) < max_messages b" "snd (usage mid (app_db a)) + int (length (body wreq)) \<le> max_bytes b"
    and range: "next_seq b < 2 ^ 63" "0 < max_messages_per_fetch S" "max_messages_per_fetch S < 2 ^ 63"
  shows "\<exists>a'. post_message C S t now wreq mid a = (Inr (JObj [(''seq'', JInt (next_seq b))]), a')
    \<and> get_mailbox_messages C S start t0 obs rreq mid (next_seq b - 1) wait a' =
        Some (Inr (JObj [(''messages'', JArr [JObj [(''seq'', JInt (next_seq b)), (''blob'', JStr (b64e (body wreq)))]]),
                         (''next_seq'', JInt (next_seq b))]))"
proof -
  have ne: "token_hash C x \<noteq> []" for x using tok(5) unfolding hash_lengths_def token_hash_def
    by (metis length_0_conv zero_neq_numeral)
  have auth: "authenticate_mailbox C wreq mid Write a = (Inr b, a)"
    using tok b ne by (intro holdsI [OF carries_token]) (auto simp: verify_token_def stored_hash_def)
  obtain l where l: "limit_write wreq t a = (Inr (), a\<lparr>app_limiters := l\<rparr>)"
    using lim by (simp add: limit_write_def split_beta Let_def)
  obtain d' where p: "put_message mid (body wreq) now (app_db a) = (Inr (next_seq b), d')"
      "d' = update_mailbox mid (\<lambda>b'. b'\<lparr>last_seen := now, next_seq := next_seq b + 1\<rparr>)
           ((app_db a)\<lparr>messages := messages (app_db a) @ [new_msg mid (next_seq b) (body wreq) now]\<rparr>)"
    using b quota by (cases rule: put_message_cases [of mid "app_db a" "body wreq" now]) auto
  let ?a = "a\<lparr>app_limiters := l, app_db := d'\<rparr>"
  have post: "post_message C S t now wreq mid a = (Inr (JObj [(''seq'', JInt (next_seq b))]), ?a)"
    using body p(1) by (simp add: post_message_def thenS_def bindS_def auth l map_error_def on_db_eq returnS_def)
  have m: "msgs_of mid d' = msgs_of mid (app_db a) @ [new_msg mid (next_seq b) (body wreq) now]"
    by (simp add: p(2) msgs_of_def)
  obtain b' where b': "find_mailbox mid d' = Some b'" "read_token_hash b' = read_token_hash b"
    using find_update_same [of mid "app_db a" b "\<lambda>b'. b'\<lparr>last_seen := now, next_seq := next_seq b + 1\<rparr>"] b
    by (simp add: p(2) find_mailbox_def update_mailbox_def)
  then have rauth: "fst (authenticate_mailbox C rreq mid Read ?a) = Inr b'"
    using tok ne holdsI [OF carries_token [OF tok(7,4)], of mid ?a b' C] by (auto simp: verify_token_def stored_hash_def)
  have "0 < next_seq b" using i find_mailbox_Some [OF b] by (fastforce simp: db_inv_def owned_def)
  then have "fst (get_messages mid (next_seq b - 1) (max_messages_per_fetch S) d') = Inr [new_msg mid (next_seq b) (body wreq) now]"
    using range waiting_append [OF i b m]
    by (simp add: get_messages_def meth_defs sql_int_def select_messages_def waiting_def sql_limit_def)
  then show ?thesis
    using post rauth by (simp add: get_mailbox_messages_def messages_response_def)
qed

subsection \<open>Creating a mailbox\<close>

definition creation_body :: "string \<Rightarrow> bytes \<Rightarrow> bytes \<Rightarrow> bytes" where
  "creation_body mid r w = canonical_json (capability_response mid r w)"

lemma parse_creation_body:
  assumes "mailbox_id_pattern mid" "str_ok mid" "length r = TOKEN_SIZE" "length w = TOKEN_SIZE"
  shows "bindE (loads_bytes (creation_body mid r w)) provided_capability = Inr (mid, r, w)"
proof -
  have "json_ok (capability_response mid r w)"
    using assms(2) by (simp add: capability_response_def json_ok_obj) (simp add: str_ok_ascii ascii_def)
  then have l: "loads_bytes (creation_body mid r w) = Inr (jsort (capability_response mid r w))"
    by (simp add: creation_body_def loads_canonical_json)
  have "jsort (capability_response mid r w) = capability_response mid r w"
    unfolding capability_response_def by code_simp
  then show ?thesis
    using assms by (simp add: l provided_capability_def) (simp add: capability_response_def b64d_json_def)
qed

lemma creation_body_nonempty: "creation_body mid r w \<noteq> []"
  by (simp add: creation_body_def canonical_json_def str_encode_def)

text \<open>A capability that a client registers is accepted once and for all.  With the limiter's
  admission and without proof of work, registering a new well-formed capability creates the mailbox
  and answers with it; registering an existing mailbox with its own tokens gives the same answer and
  changes nothing in the database; with any other token it is refused with status 409 and changes
  nothing either.\<close>

theorem register_capability:
  assumes "mailbox_id_pattern mid" "str_ok mid" "length r = 32" "length w = 32" "hash_lengths C"
    and "body req = creation_body mid r w" "\<not> require_hashcash S"
    and "fst (allow (client_key req) t (lim_create (app_limiters a)))"
    and "post_mailbox C S t now fresh req a = (res, a')"
  shows "(find_mailbox mid (app_db a) = None \<longrightarrow> res = Inr (capability_response mid r w)
        \<and> (\<exists>b. find_mailbox mid (app_db a') = Some b \<and> read_token_hash b = token_hash C r
             \<and> write_token_hash b = token_hash C w \<and> next_seq b = 1))
    \<and> (\<forall>b. find_mailbox mid (app_db a) = Some b \<longrightarrow> app_db a' = app_db a
        \<and> res = (if read_token_hash b = token_hash C r \<and> write_token_hash b = token_hash C w
                 then Inr (capability_response mid r w) else Inl (HTTPException 409)))"
proof -
  obtain data where data: "loads_bytes (body req) = Inr data" "provided_capability data = Inr (mid, r, w)"
    using parse_creation_body [OF assms(1,2), of r w] assms(3,4,6) by (auto simp: TOKEN_SIZE_def res_simps)
  obtain l where l: "limit_create req t a = (Inr (), a\<lparr>app_limiters := l\<rparr>)"
    using assms(8) by (simp add: limit_create_def split_beta Let_def)
  have ne: "token_hash C x \<noteq> []" for x using assms(5) unfolding hash_lengths_def token_hash_def
    by (metis length_0_conv zero_neq_numeral)
  have rw: "r \<noteq> []" "w \<noteq> []" using assms(3,4) by auto
  have e: "(res, a') = (case find_mailbox mid (app_db a) of
       Some b \<Rightarrow> if verify_token C r (read_token_hash b) \<and> verify_token C w (write_token_hash b)
              then (Inr (capability_response mid r w), a\<lparr>app_limiters := l\<rparr>) else (Inl (HTTPException 409), a\<lparr>app_limiters := l\<rparr>)
     | None \<Rightarrow> insert_capability C S now mid r w (a\<lparr>app_limiters := l\<rparr>))"
    using assms(7,9) data creation_body_nonempty [of mid r w] assms(6)
    by (cases "find_mailbox mid (app_db a)")
      (auto simp: post_mailbox_def thenS_def bindS_def l liftS_def on_db_eq returnS_def raiseS_def split: if_splits)
  show ?thesis
  proof (cases "find_mailbox mid (app_db a)")
    case None
    then have n: "find (\<lambda>b. mb_id b = mid) (mailboxes (app_db a)) = None" by (simp add: find_mailbox_def)
    have "find P (xs @ [x]) = Some x" if "find P xs = None" "P x" for P and xs :: "mailbox list" and x
      using that by (induction xs) (auto split: if_splits)
    then show ?thesis
      using e None n
      by (simp add: insert_capability_def thenS_def bindS_def on_db_eq create_mailbox_def transact_def returnS_def find_mailbox_def)
  next
    case (Some b)
    then show ?thesis
      using e ne [of r] ne [of w] ne [of r, symmetric] ne [of w, symmetric] rw by (auto simp: verify_token_def split: if_splits)
  qed
qed

subsection \<open>Blobs\<close>

text \<open>An uploaded chunk can be downloaded only through the mailbox it was uploaded to.  A request with
  the read token of that mailbox gets the stored bytes; a request for the same chunk that names another
  mailbox, even with that mailbox's read token, gets status 404; a request without a valid read token
  gets an HTTP error and never the bytes.\<close>

theorem download_only_via_mailbox:
  assumes "find_blob cid (app_db a) = Some c" "mailbox_id_from_header req = Inr mid"
  shows "(holds C req mid Read (app_db a) \<and> c_mailbox c = mid \<longrightarrow> fst (download_blob C req cid a) = Inr (c_ciphertext c))
    \<and> (holds C req mid Read (app_db a) \<and> c_mailbox c \<noteq> mid \<longrightarrow> fst (download_blob C req cid a) = Inl (HTTPException 404))
    \<and> (\<not> holds C req mid Read (app_db a) \<longrightarrow> (\<exists>n. fst (download_blob C req cid a) = Inl (HTTPException n)))"
  using assms
  by (cases rule: authenticate_cases [of C req mid Read a])
    (auto simp: download_blob_def thenS_def bindS_def liftS_def map_error_def on_db_eq get_blob_def getS_def transact_def
      returnS_def raiseS_def)

text \<open>A repeated upload of a stored chunk is idempotent, and never overwrites it.\<close>

lemma put_blob_find:
  "put_blob cid mid ct now d = (Inr (), d') \<Longrightarrow>
   \<exists>c. find_blob cid d' = Some c \<and> c_mailbox c = mid \<and> c_ciphertext c = ct \<and> find_blob cid d = None"
proof -
  assume a: "put_blob cid mid ct now d = (Inr (), d')"
  have n: "find (\<lambda>c. c_id c = cid) (blobs d) = None"
    and d': "d' = d\<lparr>blobs := blobs d @ [\<lparr>c_id = cid, c_mailbox = mid, c_ciphertext = ct, c_size = int (length ct), c_created_at = now\<rparr>]\<rparr>"
    using a by (auto simp: put_blob_def meth_defs Let_def find_blob_def split: option.splits if_splits)
  have "find P (xs @ [x]) = Some x" if "find P xs = None" "P x" for P and xs :: "blob_row list" and x
    using that by (induction xs) (auto split: if_splits)
  then show ?thesis using n by (simp add: d' find_blob_def)
qed

subsection \<open>Proof of work\<close>

lemma bit_length_bound:
  "b \<noteq> 0 \<Longrightarrow> 2 ^ (bit_length b - 1) \<le> uint b \<and> uint b < 2 ^ bit_length b \<and> 1 \<le> bit_length b \<and> bit_length b \<le> 8"
  for b :: byte
proof -
  assume b: "b \<noteq> 0"
  let ?K = "set (filter (bit b) [0..<8])"
  have "\<exists>n < 8. bit b n" using b bit_eq_iff [of b 0] bit_imp_le_length [of b] by fastforce
  then have ne: "?K \<noteq> {}" by auto
  define m where "m = Max ?K"
  have m: "bit b m" "m < 8" using Max_in [OF _ ne] by (auto simp: m_def)
  have top: "n \<le> m" if "bit b n" for n
    using that bit_imp_le_length [OF that] by (auto simp: m_def intro!: Max_ge)
  have e: "bit_length b = Suc m" using b by (simp add: bit_length_def m_def)
  have "uint b = take_bit (Suc m) (uint b)"
    using top by (auto intro!: bit_eqI simp: bit_simps bit_uint_iff less_Suc_eq_le)
  then have hi: "uint b < 2 ^ Suc m" by (metis take_bit_int_less_exp)
  have "bit (uint b) m" using m by (simp add: bit_uint_iff)
  then have "odd (uint b div 2 ^ m)" by (simp add: bit_iff_odd)
  then have "uint b div 2 ^ m \<noteq> 0" by auto
  then have "2 ^ m \<le> uint b" by (cases "uint b < 2 ^ m") (simp_all add: not_less)
  then show ?thesis using e hi m(2) by simp
qed

lemma foldl_bytes: "foldl (\<lambda>a b. a * 256 + uint b) acc bs = acc * 256 ^ length bs + from_bytes bs" for bs :: bytes
proof (induction bs arbitrary: acc)
  case (Cons b bs)
  show ?case
    using Cons.IH [of "acc * 256 + uint b"] Cons.IH [of "uint b"] by (simp add: from_bytes_def algebra_simps)
qed (simp add: from_bytes_def)

lemma from_bytes_Cons: "from_bytes (b # bs) = uint b * 256 ^ length bs + from_bytes bs"
  using foldl_bytes [of "uint b" bs] by (simp add: from_bytes_def)

lemma from_bytes_range: "0 \<le> from_bytes bs \<and> from_bytes bs < 256 ^ length bs"
proof (induction bs)
  case (Cons b bs)
  have "uint b = int (unat b)" by simp
  then have "uint b \<le> 255" using unat_byte_less [of b] by linarith
  then have "uint b * 256 ^ length bs \<le> 255 * 256 ^ length bs" by (intro mult_right_mono) auto
  then have "from_bytes (b # bs) < 256 * 256 ^ length bs" unfolding from_bytes_Cons using Cons by linarith
  moreover have "0 \<le> from_bytes (b # bs)" unfolding from_bytes_Cons using Cons by simp
  ultimately show ?case by simp
qed (simp add: from_bytes_def)

lemma pow256: "(256::int) ^ n = 2 ^ (8 * n)"
  by (simp add: power_mult)

lemma leading_zero_bits_spec:
  "k \<le> 8 * length bs \<Longrightarrow> int k \<le> leading_zero_bits bs \<longleftrightarrow> from_bytes bs < 2 ^ (8 * length bs - k)"
proof (induction bs arbitrary: k)
  case (Cons b bs)
  let ?n = "8 * length bs"
  have r: "0 \<le> from_bytes bs" "from_bytes bs < 2 ^ ?n" using from_bytes_range [of bs] by (simp_all add: pow256)
  have f: "from_bytes (b # bs) = uint b * 2 ^ ?n + from_bytes bs" by (simp add: from_bytes_Cons pow256)
  show ?case
  proof (cases "k \<le> 8")
    case True
    then have e: "2 ^ (8 * length (b # bs) - k) = (2::int) ^ (8 - k) * 2 ^ ?n" by (simp add: power_add [symmetric])
    have "from_bytes (b # bs) < 2 ^ (8 - k) * 2 ^ ?n \<longleftrightarrow> uint b < 2 ^ (8 - k)"
    proof
      assume "from_bytes (b # bs) < 2 ^ (8 - k) * 2 ^ ?n"
      then have "uint b * 2 ^ ?n < 2 ^ (8 - k) * 2 ^ ?n" using f r(1) by linarith
      then show "uint b < 2 ^ (8 - k)" by simp
    next
      assume "uint b < 2 ^ (8 - k)"
      then have "(uint b + 1) * 2 ^ ?n \<le> 2 ^ (8 - k) * 2 ^ ?n" by (intro mult_right_mono) auto
      then show "from_bytes (b # bs) < 2 ^ (8 - k) * 2 ^ ?n" using f r(2) by (simp add: algebra_simps)
    qed
    moreover have "int k \<le> leading_zero_bits (b # bs) \<longleftrightarrow> uint b < 2 ^ (8 - k)"
    proof (cases "b = 0")
      case b: True
      have "0 \<le> leading_zero_bits bs"
        using Cons.IH [of 0] r(2) by simp
      then show ?thesis using b True by simp
    next
      case b: False
      note B = bit_length_bound [OF b]
      have "int k \<le> 8 - int (bit_length b) \<longleftrightarrow> bit_length b \<le> 8 - k" using B True by linarith
      also have "\<dots> \<longleftrightarrow> uint b < 2 ^ (8 - k)"
      proof
        assume "bit_length b \<le> 8 - k"
        then have "(2::int) ^ bit_length b \<le> 2 ^ (8 - k)" by (intro power_increasing) auto
        then show "uint b < 2 ^ (8 - k)" using B by linarith
      next
        assume u: "uint b < 2 ^ (8 - k)"
        show "bit_length b \<le> 8 - k"
        proof (rule ccontr)
          assume "\<not> bit_length b \<le> 8 - k"
          then have "(2::int) ^ (8 - k) \<le> 2 ^ (bit_length b - 1)" by (intro power_increasing) auto
          then show False using u B by linarith
        qed
      qed
      finally show ?thesis using b by simp
    qed
    ultimately show ?thesis unfolding e by blast
  next
    case False
    then have e: "8 * length (b # bs) - k = ?n - (k - 8)" "k - 8 \<le> ?n" "int (k - 8) = int k - 8" using Cons.prems by auto
    show ?thesis
    proof (cases "b = 0")
      case True
      have "leading_zero_bits (b # bs) = 8 + leading_zero_bits bs" "from_bytes (b # bs) = from_bytes bs"
        using True f by simp_all
      then show ?thesis unfolding e(1) using Cons.IH [OF e(2)] e(3) by linarith
    next
      case b: False
      have "2 ^ (?n - (k - 8)) \<le> (2::int) ^ ?n" by (intro power_increasing) auto
      moreover have "1 \<le> uint b" using b by (metis int_one_le_iff_zero_less uint_nonnegative less_le unsigned_eq_0_iff)
      then have "2 ^ ?n \<le> uint b * 2 ^ ?n" by simp
      ultimately have "\<not> from_bytes (b # bs) < 2 ^ (?n - (k - 8))" using f r(1) by linarith
      moreover have "\<not> int k \<le> leading_zero_bits (b # bs)" using b False bit_length_bound [OF b] by simp
      ultimately show ?thesis unfolding e(1) by blast
    qed
  qed
qed (simp add: from_bytes_def)

text \<open>C40: what a proof of work proves.  When \<open>bits\<close> of work are required (between 1 and 256), a stamp is
  accepted exactly if it is a decimal timestamp, a colon and a nonce, the timestamp is at most a minute
  ahead of the clock and at most the maximal age behind it, and the SHA-256 of timestamp and nonce,
  read as a number, is below \<open>2 ^ (256 - bits)\<close>.\<close>

theorem hashcash_work:
  assumes "hash_lengths C" "0 < bits" "bits \<le> 256"
  shows "verify_hashcash C (Some v) bits now max_age \<longleftrightarrow>
    CHR '':'' \<in> set v \<and> (\<exists>t. str_int (before_colon v) = Inr t \<and> now - max_age \<le> t \<and> t \<le> now + 60
      \<and> from_bytes (sha256 C (str_encode (show_int t @ '':'' @ after_colon v))) < 2 ^ nat (256 - bits))"
proof -
  have len: "length (sha256 C m) = 32" for m using assms(1) by (simp add: hash_lengths_def)
  have w: "bits \<le> leading_zero_bits (sha256 C m) \<longleftrightarrow> from_bytes (sha256 C m) < 2 ^ nat (256 - bits)" for m
    using leading_zero_bits_spec [of "nat bits" "sha256 C m"] assms(2,3) by (simp add: len nat_diff_distrib)
  show ?thesis
    using assms(2) by (auto simp: verify_hashcash_def w split: sum.splits)
qed

subsection \<open>Advertised relays\<close>

text \<open>The form in which an address is advertised.\<close>

definition relay_form :: "string \<Rightarrow> string" where
  "relay_form url = (let cleaned = rstrip_slash (strip url) in
     if is_http cleaned then cleaned else ''https://'' @ cleaned)"

lemma relay_form_http: "is_http (relay_form url)"
  by (simp add: relay_form_def Let_def is_http_def starts_with_def)

lemma normalize_relays_Cons:
  "normalize_relays seen (url # urls) =
     (if rstrip_slash (strip url) = [] then normalize_relays seen urls
      else normalize_relays (if relay_form url \<in> set seen then seen else seen @ [relay_form url]) urls)"
  by (simp add: relay_form_def Let_def)

text \<open>The relays that a relay advertises are exactly the addresses it is configured with and those of
  its file, each once, the blank ones left out, without trailing slashes and with a web scheme in
  front.\<close>

theorem advertised_relays:
  assumes "urls = (if advertise_url S \<noteq> [] then [advertise_url S] else []) @ known_relays S @ file_relays content"
  shows "\<exists>relays. getitem (list_relays S content) ''relays'' = Inr (JArr (map JStr relays)) \<and> distinct relays
    \<and> set relays = relay_form ` {u \<in> set urls. rstrip_slash (strip u) \<noteq> []} \<and> (\<forall>u \<in> set relays. is_http u)"
proof -
  have "distinct seen \<Longrightarrow> distinct (normalize_relays seen us)
      \<and> set (normalize_relays seen us) = set seen \<union> relay_form ` {u \<in> set us. rstrip_slash (strip u) \<noteq> []}" for seen us
  proof (induction us arbitrary: seen)
    case (Cons u us)
    let ?seen = "if relay_form u \<in> set seen then seen else seen @ [relay_form u]"
    have "distinct ?seen" using Cons.prems by simp
    then show ?case
      using Cons.IH [OF Cons.prems] Cons.IH [of ?seen] by (auto simp: normalize_relays_Cons simp del: normalize_relays.simps(2))
  qed simp
  from this [of "[]" urls] have n: "distinct (normalize_relays [] urls)"
    "set (normalize_relays [] urls) = relay_form ` {u \<in> set urls. rstrip_slash (strip u) \<noteq> []}" by auto
  have "getitem (list_relays S content) ''relays'' = Inr (JArr (map JStr (normalize_relays [] urls)))"
    by (simp add: list_relays_def Let_def assms)
  moreover have "\<forall>u \<in> set (normalize_relays [] urls). is_http u" unfolding n(2) using relay_form_http by auto
  ultimately show ?thesis using n by blast
qed

subsection \<open>Witnesses\<close>

definition sample_request :: request where
  "sample_request = \<lparr>headers = [(''x-nk-write'', b64e (replicate 32 6)), (''x-nk-read'', b64e (replicate 32 5)),
     (''x-nk-mailbox'', ''abcdefgh'')], client = None, body = [1, 2, 3]\<rparr>"

theorem mailbox_change_authorised_witness:
  "authorised toy default_settings (app_db (create_app default_settings)) ''AQID''
     (PostMailbox 0 100 ([1, 2, 3], replicate 32 5, replicate 32 6) (sample_request\<lparr>body := []\<rparr>))"
proof (rule mailbox_change_authorised [where calls = "[]"])
  have m: "b64_char 0 = CHR ''A''" "b64_char 16 = CHR ''Q''" "b64_char 8 = CHR ''I''" "b64_char 3 = CHR ''D''"
    by (simp_all add: b64_char_def b64_alphabet_def)
  show "view ''AQID'' (app_db (api_step toy default_settings (create_app default_settings)
      (PostMailbox 0 100 ([1, 2, 3], replicate 32 5, replicate 32 6) (sample_request\<lparr>body := []\<rparr>))))
    \<noteq> view ''AQID'' (app_db (create_app default_settings))"
    by (simp add: sample_request_def post_mailbox_def thenS_def bindS_def limit_create_def allow_def create_app_def
        new_limiters_def new_limiter_def default_settings_def client_key_def liftS_def insert_capability_def on_db_eq
        create_mailbox_def transact_def returnS_def empty_db_def find_mailbox_def view_def m)
qed simp

definition sample_app :: app where
  "sample_app = (create_app default_settings)\<lparr>app_db := db_step empty_db
     (CreateMailbox ''abcdefgh'' (token_hash toy (replicate 32 5)) (token_hash toy (replicate 32 6)) 100 10 1000)\<rparr>"

definition sample_mailbox :: mailbox where
  "sample_mailbox = \<lparr>mb_id = ''abcdefgh'', read_token_hash = token_hash toy (replicate 32 5),
     write_token_hash = token_hash toy (replicate 32 6), mb_created_at = 100, last_seen = 100,
     max_messages = 10, max_bytes = 1000, next_seq = 1\<rparr>"

lemma sample_app_mailboxes: "app_db sample_app = empty_db\<lparr>mailboxes := [sample_mailbox]\<rparr>"
  by (simp add: sample_app_def create_mailbox_def transact_def find_mailbox_def empty_db_def sample_mailbox_def)

lemma sample_find: "find_mailbox ''abcdefgh'' (app_db sample_app) = Some sample_mailbox"
  by (simp add: sample_app_mailboxes find_mailbox_def sample_mailbox_def)

lemma sample_app_inv: "db_inv (app_db sample_app)"
  unfolding sample_app_def by (simp add: create_mailbox_inv empty_db_inv)

lemma sample_carries: "carries sample_request Write (replicate 32 6)" "carries sample_request Read (replicate 32 5)"
  by (simp_all add: carries_def sample_request_def token_header_def header_def)

lemma sample_allow: "fst (allow (client_key sample_request) 0 (lim_write (app_limiters sample_app)))"
  by (simp add: allow_def sample_app_def create_app_def new_limiters_def new_limiter_def default_settings_def)

theorem register_capability_witness:
  "fst (post_mailbox toy default_settings 0 101 ([], [], [])
     (sample_request\<lparr>body := creation_body ''abcdefgh'' (replicate 32 5) (replicate 32 6)\<rparr>) sample_app)
   = Inr (capability_response ''abcdefgh'' (replicate 32 5) (replicate 32 6))"
proof -
  let ?req = "sample_request\<lparr>body := creation_body ''abcdefgh'' (replicate 32 5) (replicate 32 6)\<rparr>"
  have p: "mailbox_id_pattern ''abcdefgh''" "str_ok ''abcdefgh''"
    by (simp_all add: mailbox_id_pattern_def id_char_def str_ok_ascii ascii_def)
  have al: "fst (allow (client_key ?req) 0 (lim_create (app_limiters sample_app)))"
    by (simp add: allow_def sample_app_def create_app_def new_limiters_def new_limiter_def default_settings_def)
  obtain res a' where e: "post_mailbox toy default_settings 0 101 ([], [], []) ?req sample_app = (res, a')"
    by (cases "post_mailbox toy default_settings 0 101 ([], [], []) ?req sample_app")
  show ?thesis
    using register_capability [OF p _ _ toy_ok(1) _ _ al e, of "replicate 32 5" "replicate 32 6"] sample_find e
    by (simp add: default_settings_def sample_mailbox_def)
qed

definition sample_blob_app :: app where
  "sample_blob_app = sample_app\<lparr>app_db := (app_db sample_app)\<lparr>blobs :=
     [\<lparr>c_id = ''cc'', c_mailbox = ''abcdefgh'', c_ciphertext = [9], c_size = 1, c_created_at = 100\<rparr>]\<rparr>\<rparr>"

theorem download_only_via_mailbox_witness:
  "fst (download_blob toy sample_request ''cc'' sample_blob_app) = Inr [9]"
proof -
  have f: "find_blob ''cc'' (app_db sample_blob_app) = Some \<lparr>c_id = ''cc'', c_mailbox = ''abcdefgh'', c_ciphertext = [9], c_size = 1, c_created_at = 100\<rparr>"
    by (simp add: sample_blob_app_def find_blob_def)
  have m: "mailbox_id_from_header sample_request = Inr ''abcdefgh''"
    by (simp add: mailbox_id_from_header_def header_def sample_request_def)
  have "length (token_hash toy (replicate 32 5)) = 32" using toy_ok(1) by (simp add: hash_lengths_def token_hash_def)
  then have "holds toy sample_request ''abcdefgh'' Read (app_db sample_blob_app)"
    using carries_token [OF sample_carries(2)]
    by (auto simp: holds_def sample_blob_app_def sample_app_mailboxes find_mailbox_def sample_mailbox_def verify_token_def stored_hash_def)
  then show ?thesis using download_only_via_mailbox [OF f m, of toy] by simp
qed

theorem hashcash_work_witness:
  "\<not> verify_hashcash toy (Some ''17'') 8 100 3600"
  using hashcash_work [OF toy_ok(1), of 8 "''17''" 100 3600] by simp

theorem advertised_relays_witness:
  "\<exists>relays. getitem (list_relays (default_settings\<lparr>known_relays := [''a.example/'', '' '']\<rparr>) None) ''relays'' = Inr (JArr (map JStr relays))
    \<and> distinct relays \<and> set relays = {''https://a.example''}"
proof -
  have f: "rstrip_slash (strip ''a.example/'') \<noteq> []" "rstrip_slash (strip '' '') = []"
    "relay_form ''a.example/'' = ''https://a.example''"
    by code_simp+
  then have "{u \<in> set [''a.example/'', '' '']. rstrip_slash (strip u) \<noteq> []} = {''a.example/''}" by auto
  moreover have "[''a.example/'', '' ''] = (if advertise_url (default_settings\<lparr>known_relays := [''a.example/'', '' '']\<rparr>) \<noteq> []
      then [advertise_url (default_settings\<lparr>known_relays := [''a.example/'', '' '']\<rparr>)] else [])
      @ known_relays (default_settings\<lparr>known_relays := [''a.example/'', '' '']\<rparr>) @ file_relays None"
    by (simp add: default_settings_def file_relays_def)
  note advertised_relays [OF this]
  ultimately show ?thesis by (simp only: f image_insert image_empty) blast
qed

end
