(* ===== verification/Backends.thy ===== *)
theory Backends
  imports Transport Cards RelayApi
begin

section \<open>Relay backends\<close>

text \<open>
  \<^verbatim>\<open>wire/backends/http_relay.py\<close> and \<^verbatim>\<open>wire/backends/multi_relay.py\<close>: the API of one relay as HTTP requests, and the pool of
  relays with fan-out and failover.  The transport's \<open>request\<close> method is an argument; the state is the world behind it.  The
  requests that the pool submits to its threads run in some order, which is an argument (\<open>sched\<close>); their
  results are collected in the order of the relays, as the code does.  Error texts are not modelled.

  The theorems: which outcome of the single relays makes which outcome of the pool, and that one relay that works is enough for
  a message to be accepted and to be fetched again, with the endpoints of \<^verbatim>\<open>server/\<close> on the other side.
\<close>

type_synonym 'w requester = "http_request \<Rightarrow> ('w, response) meth"

subsection \<open>One relay\<close>

definition api_url :: "string \<Rightarrow> string \<Rightarrow> string" where
  "api_url base path = base @ ''/api'' @ path"

definition http :: "string \<Rightarrow> string \<Rightarrow> (string \<times> string) list \<Rightarrow> (string \<times> int) list \<Rightarrow> http_body \<Rightarrow> http_request" where
  "http m url hs ps b = \<lparr>rq_method = m, rq_url = url, rq_headers = hs, rq_params = ps, rq_body = b\<rparr>"

definition raise_for_status :: "response \<Rightarrow> unit res" where
  "raise_for_status r =
     (let status = rs_status r in
      if status < 400 then Inr ()
      else if status = 404 then Inl RelayNotFound
      else if status \<in> {401, 403} then Inl RelayUnauthorized
      else if status = 429 then Inl RelayQuotaExceeded
      else Inl (RelayHTTPError status))"

definition checked :: "'w requester \<Rightarrow> http_request \<Rightarrow> ('w, response) meth" where
  "checked rq q = bindS (rq q) (\<lambda>r. thenS (liftS (raise_for_status r)) (returnS r))"

definition relay_create_mailbox :: "'w requester \<Rightarrow> string \<Rightarrow> mailbox_capability \<Rightarrow> ('w, unit) meth" where
  "relay_create_mailbox rq base cap =
     thenS (checked rq (http ''POST'' (api_url base ''/mailbox'') [] [] (JsonBody (JObj (capability_to_json cap))))) (returnS ())"

definition relay_put :: "'w requester \<Rightarrow> string \<Rightarrow> mailbox_capability \<Rightarrow> bytes \<Rightarrow> ('w, int) meth" where
  "relay_put rq base cap envelope =
     bindS (checked rq (http ''POST'' (api_url base (''/mailbox/'' @ mailbox_id cap @ ''/messages''))
              [(''X-NK-Write'', write_token cap)] [] (DataBody envelope))) (\<lambda>r.
     liftS (bindE (rs_json r) (\<lambda>v. bindE (getitem v ''seq'') py_int)))"

text \<open>\<open>payload.get("messages", [])\<close> and the comprehension over it.\<close>

definition parse_messages :: "json \<Rightarrow> (int \<times> bytes) list res" where
  "parse_messages v =
     (case v of JObj d \<Rightarrow>
        each (\<lambda>m. bindE (bindE (getitem m ''seq'') py_int) (\<lambda>n. bindE (bindE (getitem m ''blob'') b64d_json) (\<lambda>b. Inr (n, b))))
          (case map_of d ''messages'' of None \<Rightarrow> JArr [] | Some ms \<Rightarrow> ms)
      | _ \<Rightarrow> Inl AttributeError)"

definition relay_fetch :: "'w requester \<Rightarrow> string \<Rightarrow> mailbox_capability \<Rightarrow> int \<Rightarrow> int \<Rightarrow> ('w, (int \<times> bytes) list) meth" where
  "relay_fetch rq base cap after_seq wait =
     (case read_token cap of None \<Rightarrow> raiseS RelayUnauthorized
      | Some rt \<Rightarrow>
          bindS (checked rq (http ''GET'' (api_url base (''/mailbox/'' @ mailbox_id cap)) [(''X-NK-Read'', rt)]
                   [(''after_seq'', after_seq), (''wait'', wait)] NoBody)) (\<lambda>r.
          liftS (bindE (rs_json r) parse_messages)))"

definition get_default :: "json \<Rightarrow> string \<Rightarrow> json \<Rightarrow> json res" where
  "get_default v k dflt = (case v of JObj d \<Rightarrow> Inr (case map_of d k of None \<Rightarrow> dflt | Some x \<Rightarrow> x) | _ \<Rightarrow> Inl AttributeError)"

definition relay_ack :: "'w requester \<Rightarrow> string \<Rightarrow> mailbox_capability \<Rightarrow> int \<Rightarrow> ('w, int) meth" where
  "relay_ack rq base cap upto_seq =
     (case read_token cap of None \<Rightarrow> raiseS RelayUnauthorized
      | Some rt \<Rightarrow>
          bindS (checked rq (http ''POST'' (api_url base (''/mailbox/'' @ mailbox_id cap @ ''/ack'')) [(''X-NK-Read'', rt)] []
                   (JsonBody (JObj [(''upto_seq'', JInt upto_seq)])))) (\<lambda>r.
          liftS (bindE (rs_json r) (\<lambda>v. bindE (get_default v ''deleted'' (JInt 0)) py_int))))"

definition relay_delete_mailbox :: "'w requester \<Rightarrow> string \<Rightarrow> mailbox_capability \<Rightarrow> ('w, unit) meth" where
  "relay_delete_mailbox rq base cap =
     (case read_token cap of None \<Rightarrow> raiseS RelayUnauthorized
      | Some rt \<Rightarrow>
          thenS (checked rq (http ''DELETE'' (api_url base (''/mailbox/'' @ mailbox_id cap)) [(''X-NK-Read'', rt)] [] NoBody)) (returnS ()))"

definition relay_publish_bundle :: "'w requester \<Rightarrow> string \<Rightarrow> bytes \<Rightarrow> ('w, string) meth" where
  "relay_publish_bundle rq base bundle =
     bindS (checked rq (http ''POST'' (api_url base ''/prekeys'') [(''Content-Type'', ''application/json'')] [] (DataBody bundle))) (\<lambda>r.
     liftS (bindE (rs_json r) (\<lambda>v. bindE (getitem v ''bundle_id'') (\<lambda>b. Inr (py_str b)))))"

definition relay_fetch_bundle :: "'w requester \<Rightarrow> string \<Rightarrow> string \<Rightarrow> ('w, json) meth" where
  "relay_fetch_bundle rq base bundle_id =
     bindS (checked rq (http ''GET'' (api_url base (''/prekeys/'' @ bundle_id)) [] [] NoBody)) (\<lambda>r. liftS (rs_json r))"

definition relay_put_blob :: "'w requester \<Rightarrow> string \<Rightarrow> mailbox_capability \<Rightarrow> string \<Rightarrow> bytes \<Rightarrow> ('w, string) meth" where
  "relay_put_blob rq base cap cid chunk =
     bindS (checked rq (http ''POST'' (api_url base ''/blob'')
              [(''X-NK-Write'', write_token cap), (''X-NK-Mailbox'', mailbox_id cap), (''X-NK-Chunk'', cid)] [] (DataBody chunk))) (\<lambda>r.
     liftS (bindE (rs_json r) (\<lambda>v. bindE (getitem v ''chunk_id'') (\<lambda>b. Inr (py_str b)))))"

definition relay_get_blob :: "'w requester \<Rightarrow> string \<Rightarrow> mailbox_capability \<Rightarrow> string \<Rightarrow> ('w, bytes) meth" where
  "relay_get_blob rq base cap cid =
     (case read_token cap of None \<Rightarrow> raiseS RelayUnauthorized
      | Some rt \<Rightarrow>
          bindS (checked rq (http ''GET'' (api_url base (''/blob/'' @ cid)) [(''X-NK-Read'', rt), (''X-NK-Mailbox'', mailbox_id cap)] [] NoBody))
            (\<lambda>r. returnS (rs_content r)))"

definition relay_health :: "'w requester \<Rightarrow> string \<Rightarrow> ('w, json) meth" where
  "relay_health rq base = bindS (checked rq (http ''GET'' (api_url base ''/health'') [] [] NoBody)) (\<lambda>r. liftS (rs_json r))"

subsection \<open>A pool of relays\<close>

text \<open>\<open>normalize_relay_urls\<close> computes what the relay's own \<open>_normalize\<close> computes.\<close>

definition normalize_relay_urls :: "string list \<Rightarrow> string list" where
  "normalize_relay_urls urls = normalize_relays [] urls"

text \<open>The constructor: the base URLs in order.\<close>

definition make_pool :: "string list \<Rightarrow> string list res" where
  "make_pool urls = (let rs = map rstrip_slash (normalize_relay_urls urls) in if rs = [] then Inl ValueError else Inr rs)"

text \<open>Running one method per relay in the order of \<open>sched\<close>; the results by relay.\<close>

fun run_pool :: "(string \<Rightarrow> ('w, 'a) meth) \<Rightarrow> string list \<Rightarrow> 'w \<Rightarrow> (string \<times> 'a res) list \<times> 'w" where
  "run_pool f [] w = ([], w)"
| "run_pool f (u # us) w = (let (r, w1) = f u w; (rs, w2) = run_pool f us w1 in ((u, r) # rs, w2))"

definition results :: "string list \<Rightarrow> (string \<times> 'a res) list \<Rightarrow> 'a res list" where
  "results pool rs = map (\<lambda>u. the (map_of rs u)) pool"

definition succeeded :: "'a res list \<Rightarrow> bool" where
  "succeeded rs = list_ex (\<lambda>r. case r of Inr _ \<Rightarrow> True | Inl _ \<Rightarrow> False) rs"

definition pool_register :: "'w requester \<Rightarrow> string list \<Rightarrow> string list \<Rightarrow> mailbox_capability \<Rightarrow> ('w, mailbox_capability) meth" where
  "pool_register rq pool sched cap w =
     (let (rs, w') = run_pool (\<lambda>u. relay_create_mailbox rq u cap) sched w in
      (if succeeded (results pool rs) then Inr cap else Inl AllRelaysFailed, w'))"

definition pool_create_mailbox :: "'w requester \<Rightarrow> string list \<Rightarrow> string list \<Rightarrow> bytes \<times> bytes \<times> bytes \<Rightarrow> ('w, mailbox_capability) meth" where
  "pool_create_mailbox rq pool sched rnd = (case rnd of (i, wt, rt) \<Rightarrow> pool_register rq pool sched (generate_capability i wt rt))"

text \<open>A relay that lost the mailbox does not count as a failure.\<close>

definition pool_put :: "'w requester \<Rightarrow> string list \<Rightarrow> string list \<Rightarrow> mailbox_capability \<Rightarrow> bytes \<Rightarrow> ('w, unit) meth" where
  "pool_put rq pool sched cap envelope w =
     (let (rs, w') = run_pool (\<lambda>u. relay_put rq u cap envelope) sched w; out = results pool rs in
      (if succeeded out then Inr ()
       else if list_ex (\<lambda>r. case r of Inl e \<Rightarrow> e \<noteq> RelayNotFound | Inr _ \<Rightarrow> False) out then Inl AllRelaysFailed
       else Inl RelayNotFound, w'))"

record fetched_message =
  fm_relay :: string
  fm_seq :: int
  fm_blob :: bytes

definition rows_of :: "string \<times> (int \<times> bytes) list res \<Rightarrow> fetched_message list" where
  "rows_of ur = (case ur of (u, Inl _) \<Rightarrow> []
     | (u, Inr rows) \<Rightarrow> map (\<lambda>(n, b). \<lparr>fm_relay = u, fm_seq = n, fm_blob = b\<rparr>) rows)"

definition pool_fetch :: "'w requester \<Rightarrow> string list \<Rightarrow> string list \<Rightarrow> mailbox_capability \<Rightarrow> (string \<times> int) list \<Rightarrow> int \<Rightarrow> ('w, fetched_message list) meth" where
  "pool_fetch rq pool sched cap cursors wait w =
     (let (rs, w') = run_pool (\<lambda>u. relay_fetch rq u cap (case map_of cursors u of None \<Rightarrow> 0 | Some n \<Rightarrow> n) wait) sched w in
      (Inr (concat (map rows_of (zip pool (results pool rs)))), w'))"

text \<open>Only relays with a cursor are asked; every error is ignored.\<close>

definition pool_ack :: "'w requester \<Rightarrow> string list \<Rightarrow> mailbox_capability \<Rightarrow> (string \<times> int) list \<Rightarrow> ('w, unit) meth" where
  "pool_ack rq sched cap cursors w =
     (Inr (), snd (run_pool (\<lambda>u. relay_ack rq u cap (the (map_of cursors u))) (filter (\<lambda>u. map_of cursors u \<noteq> None) sched) w))"

definition pool_delete_mailbox :: "'w requester \<Rightarrow> string list \<Rightarrow> mailbox_capability \<Rightarrow> ('w, unit) meth" where
  "pool_delete_mailbox rq pool cap w = (Inr (), snd (run_pool (\<lambda>u. relay_delete_mailbox rq u cap) pool w))"

definition pool_publish_bundle :: "'w requester \<Rightarrow> string list \<Rightarrow> string \<Rightarrow> bytes \<Rightarrow> ('w, string) meth" where
  "pool_publish_bundle rq pool bundle_id bundle w =
     (let (rs, w') = run_pool (\<lambda>u. relay_publish_bundle rq u bundle) pool w in
      (if succeeded (map snd rs) then Inr bundle_id else Inl AllRelaysFailed, w'))"

text \<open>The first relay that answers.\<close>

fun first_of :: "(string \<Rightarrow> ('w, 'a) meth) \<Rightarrow> string list \<Rightarrow> ('w, 'a) meth" where
  "first_of f [] w = (Inl RelayNotFound, w)"
| "first_of f (u # us) w = (case f u w of (Inr x, w') \<Rightarrow> (Inr x, w') | (Inl _, w') \<Rightarrow> first_of f us w')"

definition pool_fetch_bundle :: "'w requester \<Rightarrow> string list \<Rightarrow> string \<Rightarrow> ('w, json) meth" where
  "pool_fetch_bundle rq pool bundle_id = first_of (\<lambda>u. relay_fetch_bundle rq u bundle_id) pool"

definition pool_put_blob :: "'w requester \<Rightarrow> string list \<Rightarrow> bytes \<Rightarrow> mailbox_capability \<Rightarrow> bytes \<Rightarrow> ('w, string) meth" where
  "pool_put_blob rq pool rnd cap chunk w =
     (let cid = b64e rnd; (rs, w') = run_pool (\<lambda>u. relay_put_blob rq u cap cid chunk) pool w in
      (if succeeded (map snd rs) then Inr cid else Inl AllRelaysFailed, w'))"

definition pool_get_blob :: "'w requester \<Rightarrow> string list \<Rightarrow> mailbox_capability \<Rightarrow> string \<Rightarrow> ('w, bytes) meth" where
  "pool_get_blob rq pool cap cid = first_of (\<lambda>u. relay_get_blob rq u cap cid) pool"

text \<open>\<open>{"url": ..., **relay.health()}\<close>, or the note that the relay cannot be reached (without the error's text).\<close>

definition health_entry :: "string \<times> json res \<Rightarrow> json" where
  "health_entry ur = (case ur of
     (u, Inr (JObj d)) \<Rightarrow> JObj (fold (\<lambda>(k, v). AList.update k v) d [(''url'', JStr u)])
   | (u, _) \<Rightarrow> JObj [(''url'', JStr u), (''status'', JStr ''unreachable'')])"

definition pool_health :: "'w requester \<Rightarrow> string list \<Rightarrow> ('w, json list) meth" where
  "pool_health rq pool w = (let (rs, w') = run_pool (relay_health rq) pool w in (Inr (map health_entry rs), w'))"

subsection \<open>Scheduling does not matter\<close>

text \<open>An operation per relay that touches only the state of its relay and depends on nothing else.\<close>

definition site_local :: "(string \<Rightarrow> ('w, 'a) meth) \<Rightarrow> (string \<Rightarrow> 'w \<Rightarrow> 's) \<Rightarrow> string set \<Rightarrow> bool" where
  "site_local f site us \<longleftrightarrow> (\<forall>u \<in> us. \<forall>w. (\<forall>v \<in> us. v \<noteq> u \<longrightarrow> site v (snd (f u w)) = site v w)
     \<and> (\<forall>w'. site u w' = site u w \<longrightarrow> fst (f u w') = fst (f u w) \<and> site u (snd (f u w')) = site u (snd (f u w))))"

lemma site_localI:
  assumes "\<And>u v w. u \<in> us \<Longrightarrow> v \<in> us \<Longrightarrow> v \<noteq> u \<Longrightarrow> site v (snd (f u w)) = site v w"
    "\<And>u w w'. u \<in> us \<Longrightarrow> site u w' = site u w \<Longrightarrow> fst (f u w') = fst (f u w) \<and> site u (snd (f u w')) = site u (snd (f u w))"
  shows "site_local f site us"
  unfolding site_local_def using assms by blast

lemma site_local_frame: "site_local f site us \<Longrightarrow> u \<in> us \<Longrightarrow> v \<in> us \<Longrightarrow> v \<noteq> u \<Longrightarrow> site v (snd (f u w)) = site v w"
  unfolding site_local_def by blast

lemma site_local_same:
  "site_local f site us \<Longrightarrow> u \<in> us \<Longrightarrow> site u w' = site u w \<Longrightarrow> fst (f u w') = fst (f u w) \<and> site u (snd (f u w')) = site u (snd (f u w))"
  unfolding site_local_def by blast

lemma site_local_mono: "site_local f site us \<Longrightarrow> vs \<subseteq> us \<Longrightarrow> site_local f site vs"
  by (rule site_localI) (blast intro: site_local_frame, metis site_local_same subsetD)

lemma run_pool_keys: "map fst (fst (run_pool f sched w)) = sched"
  by (induction sched arbitrary: w) (auto simp: split_beta Let_def)

lemma run_pool_frame:
  "site_local f site us \<Longrightarrow> set sched \<subseteq> us \<Longrightarrow> v \<in> us \<Longrightarrow> v \<notin> set sched \<Longrightarrow> site v (snd (run_pool f sched w)) = site v w"
proof (induction sched arbitrary: w)
  case (Cons u sched)
  then have "site v (snd (f u w)) = site v w" by (intro site_local_frame [of f site us u v]) auto
  then show ?case using Cons by (simp add: split_beta Let_def)
qed simp

lemma run_pool_at:
  assumes "site_local f site us" "distinct sched" "set sched \<subseteq> us" "u \<in> set sched"
  shows "map_of (fst (run_pool f sched w)) u = Some (fst (f u w)) \<and> site u (snd (run_pool f sched w)) = site u (snd (f u w))"
  using assms(2-4)
proof (induction sched arbitrary: w)
  case (Cons v sched)
  show ?case
  proof (cases "u = v")
    case True
    then have "u \<in> us" "u \<notin> set sched" "set sched \<subseteq> us" using Cons.prems by auto
    then show ?thesis using True run_pool_frame [OF assms(1)] by (simp add: split_beta Let_def)
  next
    case False
    then have u: "u \<in> set sched" "u \<in> us" "v \<in> us" using Cons.prems by auto
    then have "site u (snd (f v w)) = site u w" using site_local_frame [OF assms(1)] False by metis
    then have "fst (f u (snd (f v w))) = fst (f u w)" "site u (snd (f u (snd (f v w)))) = site u (snd (f u w))"
      using site_local_same [OF assms(1) u(2)] by blast+
    then show ?thesis using False Cons.IH [of "snd (f v w)"] Cons.prems u by (simp add: split_beta Let_def)
  qed
qed simp

text \<open>A schedule runs every relay of the pool once.\<close>

definition schedule :: "string list \<Rightarrow> string list \<Rightarrow> bool" where
  "schedule sched pool \<longleftrightarrow> distinct sched \<and> set sched = set pool"

lemma pool_results:
  assumes "site_local f site (set pool)" "schedule sched pool"
  shows "results pool (fst (run_pool f sched w)) = map (\<lambda>u. fst (f u w)) pool"
proof -
  have "the (map_of (fst (run_pool f sched w)) u) = fst (f u w)" if "u \<in> set pool" for u
    using run_pool_at [OF assms(1), of sched u w] assms(2) that by (simp add: schedule_def)
  then show ?thesis by (simp add: results_def)
qed

text \<open>Relays keep separate state: a request to one of them changes only its own, and its answer depends only on it.\<close>

definition separate :: "'w requester \<Rightarrow> (string \<Rightarrow> 'w \<Rightarrow> 's) \<Rightarrow> string set \<Rightarrow> bool" where
  "separate rq site us \<longleftrightarrow> (\<forall>q path. site_local (\<lambda>u. rq (q\<lparr>rq_url := api_url u path\<rparr>)) site us)"

lemma separate_mono: "separate rq site us \<Longrightarrow> vs \<subseteq> us \<Longrightarrow> separate rq site vs"
  unfolding separate_def using site_local_mono by blast

definition relay_call :: "'w requester \<Rightarrow> (string \<Rightarrow> http_request) \<Rightarrow> (response \<Rightarrow> 'a res) \<Rightarrow> string \<Rightarrow> ('w, 'a) meth" where
  "relay_call rq q k u = bindS (checked rq (q u)) (\<lambda>r. liftS (k r))"

lemma relay_call_parts:
  "fst (relay_call rq q k u w) = bindE (fst (rq (q u) w)) (\<lambda>r. bindE (raise_for_status r) (\<lambda>_. k r))"
  "snd (relay_call rq q k u w) = snd (rq (q u) w)"
  by (auto simp: relay_call_def checked_def bindS_def thenS_def liftS_def returnS_def split: prod.split sum.split)

lemma relay_call_local:
  assumes "separate rq site us" "\<And>u. q u = q0\<lparr>rq_url := api_url u path\<rparr>"
  shows "site_local (relay_call rq q k) site us"
proof -
  have l: "site_local (\<lambda>u. rq (q u)) site us" unfolding assms(2) using assms(1) by (simp add: separate_def)
  show ?thesis
  proof (rule site_localI)
    show "site v (snd (relay_call rq q k u w)) = site v w" if "u \<in> us" "v \<in> us" "v \<noteq> u" for u v w
      unfolding relay_call_parts by (rule site_local_frame [OF l that])
    show "fst (relay_call rq q k u w') = fst (relay_call rq q k u w) \<and> site u (snd (relay_call rq q k u w')) = site u (snd (relay_call rq q k u w))"
      if "u \<in> us" "site u w' = site u w" for u w w'
      unfolding relay_call_parts using site_local_same [OF l that] by simp
  qed
qed

lemma relay_put_call:
  "relay_put rq u cap env = relay_call rq (\<lambda>u. http ''POST'' (api_url u (''/mailbox/'' @ mailbox_id cap @ ''/messages''))
     [(''X-NK-Write'', write_token cap)] [] (DataBody env)) (\<lambda>r. bindE (rs_json r) (\<lambda>v. bindE (getitem v ''seq'') py_int)) u"
  by (simp add: relay_put_def relay_call_def)

lemma relay_fetch_call:
  "read_token cap = Some rt \<Longrightarrow> relay_fetch rq u cap n wait = relay_call rq (\<lambda>u. http ''GET'' (api_url u (''/mailbox/'' @ mailbox_id cap))
     [(''X-NK-Read'', rt)] [(''after_seq'', n), (''wait'', wait)] NoBody) (\<lambda>r. bindE (rs_json r) parse_messages) u"
  by (simp add: relay_fetch_def relay_call_def)

lemma http_url: "http m url hs ps b = (http m [] hs ps b)\<lparr>rq_url := url\<rparr>"
  by (simp add: http_def)

lemma relay_put_local: "separate rq site us \<Longrightarrow> site_local (\<lambda>u. relay_put rq u cap env) site us"
  unfolding relay_put_call by (rule relay_call_local) (assumption, rule http_url)

lemma relay_fetch_local:
  assumes "separate rq site us" "read_token cap = Some rt"
  shows "site_local (\<lambda>u. relay_fetch rq u cap (c u) wait) site us"
proof -
  have l: "site_local (\<lambda>u. relay_fetch rq u cap n wait) site us" for n
    unfolding relay_fetch_call [OF assms(2)] by (rule relay_call_local [OF assms(1)]) (rule http_url)
  show ?thesis by (rule site_localI) (rule site_local_frame [OF l], assumption+, rule site_local_same [OF l])
qed

text \<open>The outcome of a write to the pool is decided by the outcomes of the single relays alone, not by the order in which the pool's
  threads run: it succeeds if any relay accepted, it reports a missing mailbox only if every relay said so, and it fails otherwise.\<close>

lemma fst_pool_put:
  assumes "separate rq site (set pool)" "schedule sched pool"
  shows "fst (pool_put rq pool sched cap env w) =
     (let out = map (\<lambda>u. fst (relay_put rq u cap env w)) pool in
      if succeeded out then Inr ()
      else if list_ex (\<lambda>r. case r of Inl e \<Rightarrow> e \<noteq> RelayNotFound | Inr _ \<Rightarrow> False) out then Inl AllRelaysFailed else Inl RelayNotFound)"
  using pool_results [OF relay_put_local [OF assms(1)] assms(2), of cap env w] by (simp add: pool_put_def split_beta Let_def)

lemma snd_pool_put: "snd (pool_put rq pool sched cap env w) = snd (run_pool (\<lambda>u. relay_put rq u cap env) sched w)"
  by (simp add: pool_put_def split_beta Let_def)

lemma fst_pool_fetch:
  assumes "separate rq site (set pool)" "schedule sched pool" "read_token cap = Some rt"
  shows "fst (pool_fetch rq pool sched cap cursors wait w) =
     Inr (concat (map (\<lambda>u. rows_of (u, fst (relay_fetch rq u cap (case map_of cursors u of None \<Rightarrow> 0 | Some n \<Rightarrow> n) wait w))) pool))"
proof -
  have "map rows_of (zip pool (map g pool)) = map (\<lambda>u. rows_of (u, g u)) pool" for g by (induction pool) auto
  then show ?thesis
    using pool_results [OF relay_fetch_local [OF assms(1,3)] assms(2)] by (simp add: pool_fetch_def split_beta Let_def)
qed

subsection \<open>A relay behind a URL\<close>

text \<open>
  What the web framework and HTTP do between the two sides is stated as a hypothesis: a request to an endpoint reaches
  the handler with its headers (names in lower case) and body, and the answer has the handler's JSON and
  status 200, or the status of the \<open>HTTPException\<close>, or 500 for any other exception.
\<close>

definition incoming :: "string option \<Rightarrow> (string \<times> string) list \<Rightarrow> bytes \<Rightarrow> request" where
  "incoming cl hs b = \<lparr>headers = map (\<lambda>(k, v). (map lower_char k, v)) hs, client = cl, body = b\<rparr>"

definition answers :: "response \<Rightarrow> json res \<Rightarrow> bool" where
  "answers r out \<longleftrightarrow> (case out of Inr j \<Rightarrow> rs_status r = 200 \<and> rs_json r = Inr j
     | Inl (HTTPException n) \<Rightarrow> rs_status r = n | Inl _ \<Rightarrow> rs_status r = 500)"

record visit =
  v_client :: "string option"
  v_tick :: int
  v_now :: int
  v_start :: int
  v_first :: int
  v_later :: "(db \<times> int) list"

definition serves :: "crypto \<Rightarrow> settings \<Rightarrow> visit \<Rightarrow> 'w requester \<Rightarrow> (string \<Rightarrow> 'w \<Rightarrow> app) \<Rightarrow> string \<Rightarrow> bool" where
  "serves C S v rq site u \<longleftrightarrow>
     (\<forall>mid hs b w. \<exists>r. fst (rq (http ''POST'' (api_url u (''/mailbox/'' @ mid @ ''/messages'')) hs [] (DataBody b)) w) = Inr r
        \<and> answers r (fst (post_message C S (v_tick v) (v_now v) (incoming (v_client v) hs b) mid (site u w)))
        \<and> site u (snd (rq (http ''POST'' (api_url u (''/mailbox/'' @ mid @ ''/messages'')) hs [] (DataBody b)) w))
            = snd (post_message C S (v_tick v) (v_now v) (incoming (v_client v) hs b) mid (site u w)))
     \<and> (\<forall>mid hs n wt w out. get_mailbox_messages C S (v_start v) (v_first v) (v_later v) (incoming (v_client v) hs []) mid n wt (site u w) = Some out \<longrightarrow>
        (\<exists>r. fst (rq (http ''GET'' (api_url u (''/mailbox/'' @ mid)) hs [(''after_seq'', n), (''wait'', wt)] NoBody) w) = Inr r \<and> answers r out))"

lemma lower_names: "map lower_char ''X-NK-Write'' = ''x-nk-write''" "map lower_char ''X-NK-Read'' = ''x-nk-read''"
  by code_simp+

lemma incoming_carries:
  "carries (incoming cl [(''X-NK-Write'', b64e t)] b) Write t" "carries (incoming cl [(''X-NK-Read'', b64e t)] b) Read t"
  by (simp_all del: list.map(2) add: carries_def incoming_def header_def token_header_def list.map(2) [of "case_prod f" for f] lower_names)

lemma answers_ok: "answers r (Inr j) \<Longrightarrow> raise_for_status r = Inr () \<and> rs_json r = Inr j"
  by (simp add: answers_def raise_for_status_def)

lemma parse_one:
  "parse_messages (JObj [(''messages'', JArr [JObj [(''seq'', JInt n), (''blob'', JStr (b64e b))]]), (''next_seq'', JInt k)]) = Inr [(n, b)]"
  by (simp add: parse_messages_def each_def b64d_json_def)

text \<open>The conditions under which a relay accepts a message: the mailbox exists with the tokens of the capability, the limiter admits the
  write, and the message is within the limits.\<close>

definition ready :: "crypto \<Rightarrow> settings \<Rightarrow> visit \<Rightarrow> string \<Rightarrow> bytes \<Rightarrow> bytes \<Rightarrow> bytes \<Rightarrow> mailbox \<Rightarrow> app \<Rightarrow> bool" where
  "ready C S v mid wt rt env b a \<longleftrightarrow> db_inv (app_db a) \<and> find_mailbox mid (app_db a) = Some b
     \<and> write_token_hash b = token_hash C wt \<and> read_token_hash b = token_hash C rt \<and> wt \<noteq> [] \<and> rt \<noteq> []
     \<and> fst (allow (client_key (incoming (v_client v) [] [])) (v_tick v) (lim_write (app_limiters a)))
     \<and> env \<noteq> [] \<and> int (length env) \<le> max_blob_bytes S
     \<and> fst (usage mid (app_db a)) < max_messages b \<and> snd (usage mid (app_db a)) + int (length env) \<le> max_bytes b
     \<and> next_seq b < 2 ^ 63 \<and> 0 < max_messages_per_fetch S \<and> max_messages_per_fetch S < 2 ^ 63"

lemma client_key_incoming: "client_key (incoming cl hs b) = client_key (incoming cl [] [])"
  by (simp add: client_key_def incoming_def)

lemma live_relay:
  assumes "serves C S v rq site u" "hash_lengths C" "ready C S v mid wt rt env b (site u w)"
  shows "fst (relay_put rq u \<lparr>mailbox_id = mid, write_token = b64e wt, read_token = x\<rparr> env w) = Inr (next_seq b)"
    "site u w' = site u (snd (relay_put rq u \<lparr>mailbox_id = mid, write_token = b64e wt, read_token = x\<rparr> env w)) \<Longrightarrow>
     fst (relay_fetch rq u \<lparr>mailbox_id = mid, write_token = y, read_token = Some (b64e rt)\<rparr> (next_seq b - 1) wait w') = Inr [(next_seq b, env)]"
proof -
  let ?w = "incoming (v_client v) [(''X-NK-Write'', b64e wt)] env" and ?r = "incoming (v_client v) [(''X-NK-Read'', b64e rt)] []"
  let ?put = "http ''POST'' (api_url u (''/mailbox/'' @ mid @ ''/messages'')) [(''X-NK-Write'', b64e wt)] [] (DataBody env)"
  have body: "body ?w = env" by (simp add: incoming_def)
  obtain a' where a: "post_message C S (v_tick v) (v_now v) ?w mid (site u w) = (Inr (JObj [(''seq'', JInt (next_seq b))]), a')"
    "get_mailbox_messages C S (v_start v) (v_first v) (v_later v) ?r mid (next_seq b - 1) wait a' =
        Some (Inr (JObj [(''messages'', JArr [JObj [(''seq'', JInt (next_seq b)), (''blob'', JStr (b64e env))]]), (''next_seq'', JInt (next_seq b))]))"
    using post_then_get [of "site u w" mid b C wt rt ?w ?r "v_tick v" S "v_now v" "v_start v" "v_first v" "v_later v" wait] assms(2,3) incoming_carries
      client_key_incoming [of "v_client v" "[(''X-NK-Write'', b64e wt)]" env]
    unfolding ready_def body by auto
  obtain r where r: "fst (rq ?put w) = Inr r" "answers r (Inr (JObj [(''seq'', JInt (next_seq b))]))" "site u (snd (rq ?put w)) = a'"
    using assms(1) a(1) unfolding serves_def by (metis fst_conv snd_conv)
  show "fst (relay_put rq u \<lparr>mailbox_id = mid, write_token = b64e wt, read_token = x\<rparr> env w) = Inr (next_seq b)"
    using r(1) answers_ok [OF r(2)] by (simp add: relay_put_call relay_call_parts)
  assume "site u w' = site u (snd (relay_put rq u \<lparr>mailbox_id = mid, write_token = b64e wt, read_token = x\<rparr> env w))"
  then have "site u w' = a'" using r(3) by (simp add: relay_put_call relay_call_parts)
  then obtain g where g: "fst (rq (http ''GET'' (api_url u (''/mailbox/'' @ mid)) [(''X-NK-Read'', b64e rt)] [(''after_seq'', next_seq b - 1), (''wait'', wait)] NoBody) w') = Inr g"
    "answers g (Inr (JObj [(''messages'', JArr [JObj [(''seq'', JInt (next_seq b)), (''blob'', JStr (b64e env))]]), (''next_seq'', JInt (next_seq b))]))"
    using assms(1) a(2) unfolding serves_def by metis
  show "fst (relay_fetch rq u \<lparr>mailbox_id = mid, write_token = y, read_token = Some (b64e rt)\<rparr> (next_seq b - 1) wait w') = Inr [(next_seq b, env)]"
    using g(1) answers_ok [OF g(2)] parse_one [of "next_seq b" env "next_seq b"]
    by (simp add: relay_fetch_call [of _ "b64e rt"] relay_call_parts)
qed

lemma one_relay:
  assumes sep: "separate rq site (set pool)" and sch: "schedule sched1 pool" "schedule sched2 pool" and u: "u \<in> set pool"
    and srv: "serves C S v rq site u" "hash_lengths C" "ready C S v mid wt rt env b (site u w)"
    and cur: "map_of cursors u = Some (next_seq b - 1)"
    and put: "pool_put rq pool sched1 \<lparr>mailbox_id = mid, write_token = b64e wt, read_token = x\<rparr> env w = (res, w')"
  shows "res = Inr () \<and> (\<exists>rows. fst (pool_fetch rq pool sched2 \<lparr>mailbox_id = mid, write_token = y, read_token = Some (b64e rt)\<rparr> cursors wait w') = Inr rows
    \<and> \<lparr>fm_relay = u, fm_seq = next_seq b, fm_blob = env\<rparr> \<in> set rows)"
proof -
  let ?c = "\<lparr>mailbox_id = mid, write_token = b64e wt, read_token = x\<rparr>" and ?d = "\<lparr>mailbox_id = mid, write_token = y, read_token = Some (b64e rt)\<rparr>"
  note live = live_relay [OF srv]
  have "succeeded (map (\<lambda>u. fst (relay_put rq u ?c env w)) pool)"
    using u live(1) [of x] by (auto simp: succeeded_def list_ex_iff intro!: bexI [of _ u])
  then have ok: "res = Inr ()" using fst_pool_put [OF sep sch(1), of ?c env w] put by simp
  have "site u w' = site u (snd (relay_put rq u ?c env w))"
    using run_pool_at [OF relay_put_local [OF sep], of sched1 u ?c env w] snd_pool_put [of rq pool sched1 ?c env w] put sch(1) u
    by (simp add: schedule_def)
  then have f: "fst (relay_fetch rq u ?d (next_seq b - 1) wait w') = Inr [(next_seq b, env)]" by (rule live(2))
  have "\<lparr>fm_relay = u, fm_seq = next_seq b, fm_blob = env\<rparr>
      \<in> set (rows_of (u, fst (relay_fetch rq u ?d (case map_of cursors u of None \<Rightarrow> 0 | Some n \<Rightarrow> n) wait w')))"
    by (simp add: cur f rows_of_def)
  then have "\<lparr>fm_relay = u, fm_seq = next_seq b, fm_blob = env\<rparr> \<in> set (concat (map (\<lambda>u. rows_of (u, fst (relay_fetch rq u ?d (case map_of cursors u of None \<Rightarrow> 0 | Some n \<Rightarrow> n) wait w'))) pool))"
    using u by auto
  then show ?thesis using ok fst_pool_fetch [OF sep sch(2), of ?d "b64e rt" cursors wait w'] by simp
qed

subsection \<open>Theorems\<close>

text \<open>C7: The relay set, not the relay, is the unit of availability: when one relay of the pool works and accepts the message
  (it has the mailbox with the capability's tokens, its limiter admits the write and the quota allows it), then the pool accepts the
  envelope, and a later fetch whose cursor for this relay is just before it returns the envelope unchanged, whatever the other
  relays answer or fail to answer and in whatever order the requests of the pool run.\<close>

theorem one_live_relay_is_enough:
  assumes "separate rq site (set pool)" "schedule sched1 pool" "schedule sched2 pool" "u \<in> set pool"
    "serves C S v rq site u" "hash_lengths C" "ready C S v mid wt rt env b (site u w)"
    "map_of cursors u = Some (next_seq b - 1)"
    "pool_put rq pool sched1 \<lparr>mailbox_id = mid, write_token = b64e wt, read_token = x\<rparr> env w = (res, w')"
  shows "res = Inr () \<and> (\<exists>rows. fst (pool_fetch rq pool sched2 \<lparr>mailbox_id = mid, write_token = y, read_token = Some (b64e rt)\<rparr> cursors wait w') = Inr rows
    \<and> \<lparr>fm_relay = u, fm_seq = next_seq b, fm_blob = env\<rparr> \<in> set rows)"
  by (rule one_relay [OF assms])

text \<open>A network for concrete inputs: one relay with the endpoints of the mailbox, everything else unreachable.\<close>

definition only_relay :: string where "only_relay = ''https://a''"

definition sample_visit :: visit where
  "sample_visit = \<lparr>v_client = None, v_tick = 0, v_now = 101, v_start = 0, v_first = 0, v_later = []\<rparr>"

definition response_of :: "json res \<Rightarrow> response" where
  "response_of out = \<lparr>rs_status = (case out of Inr _ \<Rightarrow> 200 | Inl (HTTPException n) \<Rightarrow> n | Inl _ \<Rightarrow> 500), rs_json = out, rs_content = []\<rparr>"

definition sample_net :: "(string \<Rightarrow> app) requester" where
  "sample_net q w =
     (let pre = api_url only_relay ''/mailbox/'' ; rest = drop (length pre) (rq_url q) in
      if take (length pre) (rq_url q) \<noteq> pre then (Inl TransportError, w)
      else case rq_body q of
        DataBody b \<Rightarrow>
          (let (out, a) = post_message toy default_settings 0 101 (incoming None (rq_headers q) b) (take (length rest - 9) rest) (w only_relay)
           in (Inr (response_of out), w(only_relay := a)))
      | NoBody \<Rightarrow>
          (case rq_params q of (_, n) # (_, wt) # _ \<Rightarrow>
             (case get_mailbox_messages toy default_settings 0 0 [] (incoming None (rq_headers q) []) rest n wt (w only_relay) of
                Some out \<Rightarrow> (Inr (response_of out), w) | None \<Rightarrow> (Inl TransportError, w))
           | _ \<Rightarrow> (Inl TransportError, w))
      | _ \<Rightarrow> (Inl TransportError, w))"

lemma response_of_answers: "answers (response_of out) out"
  by (simp add: answers_def response_of_def split: sum.split pyerr.split)

lemma sample_net_other: "sample_net (q\<lparr>rq_url := api_url ''https://b'' path\<rparr>) w = (Inl TransportError, w)"
  by (simp add: sample_net_def only_relay_def api_url_def)

lemma sample_net_frame: "v \<noteq> only_relay \<Longrightarrow> snd (sample_net q w) v = w v"
  by (auto simp: sample_net_def Let_def split: http_body.split list.split option.split prod.split)

lemma sample_net_local:
  "w' only_relay = w only_relay \<Longrightarrow> fst (sample_net q w') = fst (sample_net q w) \<and> snd (sample_net q w') only_relay = snd (sample_net q w) only_relay"
  by (auto simp: sample_net_def Let_def split: http_body.split list.split option.split prod.split)

lemma sample_separate: "separate sample_net (\<lambda>u w. w u) {only_relay, ''https://b''}"
proof -
  have ne: "only_relay \<noteq> ''https://b''" by (simp add: only_relay_def)
  have frame: "snd (sample_net (q\<lparr>rq_url := api_url u path\<rparr>) w) v = w v"
    if "u \<in> {only_relay, ''https://b''}" "v \<noteq> u" for q path u v w
  proof (cases "u = only_relay")
    case True
    then show ?thesis using that(2) by (intro sample_net_frame) simp
  next
    case False
    then have "u = ''https://b''" using that(1) by simp
    then show ?thesis by (simp only: sample_net_other snd_conv)
  qed
  have same: "fst (sample_net (q\<lparr>rq_url := api_url u path\<rparr>) w') = fst (sample_net (q\<lparr>rq_url := api_url u path\<rparr>) w)
      \<and> snd (sample_net (q\<lparr>rq_url := api_url u path\<rparr>) w') u = snd (sample_net (q\<lparr>rq_url := api_url u path\<rparr>) w) u"
    if "u \<in> {only_relay, ''https://b''}" "w' u = w u" for q path u w w'
  proof (cases "u = only_relay")
    case True
    show ?thesis unfolding True by (rule sample_net_local) (use that(2) True in simp)
  next
    case False
    then have "u = ''https://b''" using that(1) by simp
    then show ?thesis using that(2) by (simp only: sample_net_other fst_conv snd_conv)
  qed
  show ?thesis unfolding separate_def
    by (intro allI site_localI) (rule frame, assumption+, rule same)
qed

lemma sample_serves: "serves toy default_settings sample_visit sample_net (\<lambda>u w. w u) only_relay"
  unfolding serves_def sample_visit_def
  by (auto simp: sample_net_def http_def api_url_def split_beta Let_def intro: response_of_answers)

lemma sample_ready: "ready toy default_settings sample_visit ''abcdefgh'' (replicate 32 6) (replicate 32 5) [1, 2, 3] sample_mailbox sample_app"
  using sample_app_inv sample_find sample_allow unfolding ready_def
  by (simp add: sample_mailbox_def default_settings_def MAX_BLOB_BYTES_def MAX_MESSAGES_PER_FETCH_def sample_visit_def
      usage_def msgs_of_def blobs_of_def sample_app_mailboxes empty_db_def incoming_def client_key_def sample_request_def)

lemma sample_schedule: "schedule [''https://b'', only_relay] [only_relay, ''https://b'']"
  by (auto simp: schedule_def only_relay_def)

theorem one_live_relay_is_enough_witness:
  "\<exists>w'. pool_put sample_net [only_relay, ''https://b''] [''https://b'', only_relay]
       \<lparr>mailbox_id = ''abcdefgh'', write_token = b64e (replicate 32 6), read_token = None\<rparr> [1, 2, 3] (\<lambda>_. sample_app) = (Inr (), w')
     \<and> (\<exists>rows. fst (pool_fetch sample_net [only_relay, ''https://b''] [''https://b'', only_relay]
          \<lparr>mailbox_id = ''abcdefgh'', write_token = [], read_token = Some (b64e (replicate 32 5))\<rparr> [(only_relay, 0)] 0 w') = Inr rows
        \<and> \<lparr>fm_relay = only_relay, fm_seq = 1, fm_blob = [1, 2, 3]\<rparr> \<in> set rows)"
proof -
  let ?pool = "[only_relay, ''https://b'']" and ?sched = "[''https://b'', only_relay]"
  let ?c = "\<lparr>mailbox_id = ''abcdefgh'', write_token = b64e (replicate 32 6), read_token = None\<rparr>"
  obtain res w' where p: "pool_put sample_net ?pool ?sched ?c [1, 2, 3] (\<lambda>_. sample_app) = (res, w')" by force
  have sep: "separate sample_net (\<lambda>u w. w u) (set ?pool)" using sample_separate by simp
  have seq: "next_seq sample_mailbox = 1" by (simp add: sample_mailbox_def)
  have "res = Inr () \<and> (\<exists>rows. fst (pool_fetch sample_net ?pool ?sched
          \<lparr>mailbox_id = ''abcdefgh'', write_token = [], read_token = Some (b64e (replicate 32 5))\<rparr> [(only_relay, 0)] 0 w') = Inr rows
        \<and> \<lparr>fm_relay = only_relay, fm_seq = next_seq sample_mailbox, fm_blob = [1, 2, 3]\<rparr> \<in> set rows)"
    by (rule one_live_relay_is_enough [OF sep sample_schedule sample_schedule _ sample_serves toy_ok(1) _ _ p])
      (simp_all add: sample_ready seq)
  then show ?thesis using p seq by auto
qed

end
