(* ===== verification/ClientState.thy ===== *)
theory ClientState
  imports Protocol Cards DeviceChannel History Backends
begin

section \<open>The client's state\<close>

text \<open>
  The attributes of the class \<open>Client\<close> (\<^verbatim>\<open>core/client.py\<close>) and the operations that both the client and the device
  synchronisation (\<^verbatim>\<open>core/sync.py\<close>) use.  The state holds the local store and the world behind the transport, so that a
  method is a function of all that it can read and write.

  What the process takes from outside (random bytes, the clock, the order in which the threads of a pool run) is read from an
  environment \<open>E\<close>; every reading has its own index, counted by \<open>c_reads\<close>.  The clock gives milliseconds; \<open>time.time()\<close>
  is used in seconds only through \<open>int\<close> and in comparisons.

  The local state table holds what the client wrote there: a stored name or bundle identifier that is not a string counts as absent.  A backend is
  the list of its relays; closing one, and the transport's sessions, are not modelled.
\<close>

record 'w env =
  e_crypto :: crypto
  e_zlib :: zlib
  e_request :: "'w requester"
  e_random :: "nat \<Rightarrow> nat \<Rightarrow> bytes"
  e_choice :: "nat \<Rightarrow> nat \<Rightarrow> nat"
  e_clock :: "nat \<Rightarrow> int"
  e_order :: "nat \<Rightarrow> string list \<Rightarrow> string list"
  e_allow_private :: bool

record sibling_key =
  sb_record :: device_keys
  sb_ts :: int

record 'w client =
  c_identity :: identity
  c_store :: store
  c_relays :: "string list"
  c_backend :: "string list"
  c_peer_backends :: "(string list \<times> string list) list"
  c_name :: string
  c_opk_count :: int
  c_own_inbox :: "mailbox_capability option"
  c_bundle_id :: "string option"
  c_card :: "contact_card option"
  c_device_id :: "string option"
  c_sibling_keys :: "(string \<times> sibling_key) list"
  c_device_list_cache :: "device_list option"
  c_device_list_cache_ts :: int
  c_sync_message_index :: "known option"
  c_world :: 'w
  c_reads :: nat

type_synonym ('w, 'a) cmeth = "('w client, 'a) meth"

subsection \<open>Effects\<close>

text \<open>\<open>uuid.uuid4().hex\<close> on sixteen random bytes: version and variant bits are fixed.\<close>

definition uuid_hex :: "bytes \<Rightarrow> string" where
  "uuid_hex b = hexdigest (b[6 := 64 + b ! 6 mod 16, 8 := 128 + b ! 8 mod 64])"

definition readE :: "(nat \<Rightarrow> 'a) \<Rightarrow> ('w, 'a) cmeth" where
  "readE f c = (Inr (f (c_reads c)), c\<lparr>c_reads := c_reads c + 1\<rparr>)"

definition urandom :: "'w env \<Rightarrow> nat \<Rightarrow> ('w, bytes) cmeth" where
  "urandom E n = readE (\<lambda>i. e_random E i n)"

definition now_ms :: "'w env \<Rightarrow> ('w, int) cmeth" where
  "now_ms E = readE (e_clock E)"

definition seconds :: "int \<Rightarrow> int" where
  "seconds ms = ms div 1000"

definition new_id :: "'w env \<Rightarrow> ('w, string) cmeth" where
  "new_id E = bindS (urandom E 16) (\<lambda>b. returnS (uuid_hex b))"

definition on_store :: "(store, 'a) meth \<Rightarrow> ('w, 'a) cmeth" where
  "on_store m c = (let (r, s) = m (c_store c) in (r, c\<lparr>c_store := s\<rparr>))"

definition ask_store :: "(store \<Rightarrow> 'a) \<Rightarrow> ('w, 'a) cmeth" where
  "ask_store f = getS (\<lambda>c. f (c_store c))"

definition on_net :: "('w, 'a) meth \<Rightarrow> ('w, 'a) cmeth" where
  "on_net m c = (let (r, w) = m (c_world c) in (r, c\<lparr>c_world := w\<rparr>))"

definition assertS :: "'a option \<Rightarrow> ('s, 'a) meth" where
  "assertS x = liftS (of_option AssertionError x)"

definition account :: "'w env \<Rightarrow> 'w client \<Rightarrow> string" where
  "account E c = identity_id (e_crypto E) (c_identity c)"

definition my_ed :: "'w env \<Rightarrow> 'w client \<Rightarrow> bytes" where
  "my_ed E c = ed_public_bytes (e_crypto E) (c_identity c)"

definition my_x :: "'w env \<Rightarrow> 'w client \<Rightarrow> bytes" where
  "my_x E c = x_public_bytes (e_crypto E) (c_identity c)"

text \<open>\<open>self.store.get_state(self.identity_id, k)\<close> and \<open>set_state\<close>.\<close>

definition state_get :: "'w env \<Rightarrow> string \<Rightarrow> ('w, json) cmeth" where
  "state_get E k = getS (\<lambda>c. get_state (account E c) k JNull (c_store c))"

definition state_set :: "'w env \<Rightarrow> string \<Rightarrow> json \<Rightarrow> ('w, unit) cmeth" where
  "state_set E k v = bindS (getS (account E)) (\<lambda>iid. on_store (set_state iid k v))"

subsection \<open>Backends\<close>

text \<open>The operations of a pool, with the order in which its threads run taken from the environment.\<close>

definition ordered :: "'w env \<Rightarrow> string list \<Rightarrow> (string list \<Rightarrow> ('w, 'a) meth) \<Rightarrow> ('w, 'a) cmeth" where
  "ordered E pool f = bindS (readE (\<lambda>i. e_order E i pool)) (\<lambda>sched. on_net (f sched))"

definition backend_put :: "'w env \<Rightarrow> string list \<Rightarrow> mailbox_capability \<Rightarrow> bytes \<Rightarrow> ('w, unit) cmeth" where
  "backend_put E pool cap blob = ordered E pool (\<lambda>sched. pool_put (e_request E) pool sched cap blob)"

definition backend_register :: "'w env \<Rightarrow> string list \<Rightarrow> mailbox_capability \<Rightarrow> ('w, mailbox_capability) cmeth" where
  "backend_register E pool cap = ordered E pool (\<lambda>sched. pool_register (e_request E) pool sched cap)"

definition backend_create_mailbox :: "'w env \<Rightarrow> string list \<Rightarrow> ('w, mailbox_capability) cmeth" where
  "backend_create_mailbox E pool =
     bindS (urandom E MAILBOX_ID_SIZE) (\<lambda>i. bindS (urandom E CAPABILITY_TOKEN_SIZE) (\<lambda>w. bindS (urandom E CAPABILITY_TOKEN_SIZE) (\<lambda>r.
     ordered E pool (\<lambda>sched. pool_create_mailbox (e_request E) pool sched (i, w, r)))))"

definition backend_fetch :: "'w env \<Rightarrow> string list \<Rightarrow> mailbox_capability \<Rightarrow> (string \<times> int) list \<Rightarrow> int \<Rightarrow> ('w, fetched_message list) cmeth" where
  "backend_fetch E pool cap cursors wait = ordered E pool (\<lambda>sched. pool_fetch (e_request E) pool sched cap cursors wait)"

definition backend_ack :: "'w env \<Rightarrow> string list \<Rightarrow> mailbox_capability \<Rightarrow> (string \<times> int) list \<Rightarrow> ('w, unit) cmeth" where
  "backend_ack E pool cap cursors = ordered E pool (\<lambda>sched. pool_ack (e_request E) sched cap cursors)"

definition backend_publish_bundle :: "'w env \<Rightarrow> string list \<Rightarrow> string \<Rightarrow> bytes \<Rightarrow> ('w, string) cmeth" where
  "backend_publish_bundle E pool bid bundle = on_net (pool_publish_bundle (e_request E) pool bid bundle)"

definition backend_fetch_bundle :: "'w env \<Rightarrow> string list \<Rightarrow> string \<Rightarrow> ('w, json) cmeth" where
  "backend_fetch_bundle E pool bid = on_net (pool_fetch_bundle (e_request E) pool bid)"

definition backend_put_blob :: "'w env \<Rightarrow> string list \<Rightarrow> mailbox_capability \<Rightarrow> bytes \<Rightarrow> ('w, string) cmeth" where
  "backend_put_blob E pool cap chunk =
     bindS (urandom E 16) (\<lambda>rnd. on_net (pool_put_blob (e_request E) pool rnd cap chunk))"

definition backend_get_blob :: "'w env \<Rightarrow> string list \<Rightarrow> mailbox_capability \<Rightarrow> string \<Rightarrow> ('w, bytes) cmeth" where
  "backend_get_blob E pool cap cid = on_net (pool_get_blob (e_request E) pool cap cid)"

text \<open>\<open>_backend_for\<close>: the relays of a peer, from their card; our own when there are none.\<close>

definition backend_for :: "string list \<Rightarrow> ('w, string list) cmeth" where
  "backend_for urls0 =
     (let urls = normalize_relay_urls urls0 in
      if urls = [] then getS c_backend
      else bindS (getS c_relays) (\<lambda>own.
        if urls = own then getS c_backend
        else bindS (getS (\<lambda>c. map_of (c_peer_backends c) urls)) (\<lambda>known.
          case known of Some pool \<Rightarrow> returnS pool
          | None \<Rightarrow> bindS (liftS (make_pool urls)) (\<lambda>pool.
              thenS (modifyS (\<lambda>c. c\<lparr>c_peer_backends := AList.update urls pool (c_peer_backends c)\<rparr>)) (returnS pool)))))"

text \<open>The elements of a stored relay list; \<open>url.strip()\<close> fails on anything but a string.\<close>

definition relay_texts :: "json \<Rightarrow> string list res" where
  "relay_texts v = bindE (py_list_or (Some v)) (mapE (\<lambda>r. case r of JStr s \<Rightarrow> Inr s | _ \<Rightarrow> Inl AttributeError))"

definition device_capability :: "device_entry \<Rightarrow> mailbox_capability res" where
  "device_capability d = from_card_view (JObj (entry_inbox d))"

subsection \<open>The account's own device list\<close>

definition device_entry :: "'w client \<Rightarrow> device_entry res" where
  "device_entry c =
     bindE (of_option AssertionError (c_own_inbox c)) (\<lambda>ib.
     bindE (of_option AssertionError (c_bundle_id c)) (\<lambda>bid.
     Inr \<lparr>entry_device_id = (case c_device_id c of None \<Rightarrow> LEGACY_DEVICE | Some d \<Rightarrow> if d = [] then LEGACY_DEVICE else d),
          entry_inbox = card_view ib, entry_relays = c_relays c, entry_bundle_id = bid, entry_name = c_name c\<rparr>))"

definition device_list_address :: "'w env \<Rightarrow> 'w client \<Rightarrow> string" where
  "device_list_address E c = device_list_id (e_crypto E) (my_ed E c) (my_x E c)"

text \<open>\<open>open_device_list\<close> in a \<open>try\<close> that turns \<open>DeviceListError\<close> into no list, then the check of the account.\<close>

definition accept_device_list :: "crypto \<Rightarrow> json \<Rightarrow> string \<Rightarrow> bytes \<Rightarrow> bytes \<Rightarrow> device_list option res" where
  "accept_device_list C doc acc is ih =
     (case open_device_list C (RawValue doc) is ih of
        Inl e \<Rightarrow> if e = DeviceListError then Inr None else Inl e
      | Inr l \<Rightarrow> Inr (if dl_belongs_to l acc is ih then Some l else None))"

definition fetch_own_device_list :: "'w env \<Rightarrow> ('w, device_list option) cmeth" where
  "fetch_own_device_list E =
     bindS (getS c_backend) (\<lambda>pool.
     bindS (getS (device_list_address E)) (\<lambda>addr.
     bindS (catchS (\<lambda>_. True) (bindS (backend_fetch_bundle E pool addr) (\<lambda>p. returnS (Some p))) (returnS None)) (\<lambda>found.
     case found of None \<Rightarrow> returnS None
     | Some doc \<Rightarrow> bindS (getS id) (\<lambda>c. liftS (accept_device_list (e_crypto E) doc (account E c) (my_ed E c) (my_x E c))))))"

definition cache_device_list :: "'w env \<Rightarrow> device_list \<Rightarrow> ('w, unit) cmeth" where
  "cache_device_list E l =
     thenS (modifyS (\<lambda>c. c\<lparr>c_device_list_cache := Some l\<rparr>))
     (bindS (now_ms E) (\<lambda>t. modifyS (\<lambda>c. c\<lparr>c_device_list_cache_ts := t\<rparr>)))"

text \<open>\<open>max_age\<close> is in milliseconds.\<close>

definition own_device_list :: "'w env \<Rightarrow> int \<Rightarrow> ('w, device_list option) cmeth" where
  "own_device_list E max_age =
     bindS (getS c_device_list_cache) (\<lambda>cached.
     bindS (case cached of None \<Rightarrow> returnS False
            | Some _ \<Rightarrow> bindS (now_ms E) (\<lambda>t. getS (\<lambda>c. t - c_device_list_cache_ts c < max_age))) (\<lambda>recent.
     if recent then returnS cached
     else bindS (fetch_own_device_list E) (\<lambda>listing.
       case listing of Some l \<Rightarrow> thenS (cache_device_list E l) (returnS (Some l))
       | None \<Rightarrow> getS c_device_list_cache)))"

subsection \<open>What the client's methods keep\<close>

lemma on_net_bind: "on_net (bindS m f) = bindS (on_net m) (\<lambda>x. on_net (f x))"
  by (rule ext) (auto simp: on_net_def bindS_def Let_def split: prod.split sum.split)

lemma on_net_then: "on_net (thenS m k) = thenS (on_net m) (on_net k)"
  by (simp add: thenS_def on_net_bind)

lemma on_net_pure: "on_net (returnS x) = returnS x" "on_net (liftS r) = liftS r" "on_net (raiseS e) = raiseS e"
  by (rule ext, simp add: on_net_def returnS_def liftS_def raiseS_def)+

lemma on_net_first:
  "on_net (first_of f []) = raiseS RelayNotFound"
  "on_net (first_of f (u # us)) = catchS (\<lambda>_. True) (on_net (f u)) (on_net (first_of f us))"
  by (rule ext, auto simp: on_net_def raiseS_def catchS_def Let_def split: prod.split sum.split)+

lemmas on_net_simps = on_net_bind on_net_then on_net_pure

text \<open>A relation on states that looking things up keeps: counting a reading, \<open>GET\<close> requests and the caches.\<close>

locale looking_relation = method_relation R for R :: "'w client \<Rightarrow> 'w client \<Rightarrow> bool" +
  fixes E :: "'w env"
  assumes R_reads: "R c (c\<lparr>c_reads := n\<rparr>)"
    and R_get: "rq_method q = ''GET'' \<Longrightarrow> R c (c\<lparr>c_world := snd (e_request E q (c_world c))\<rparr>)"
    and R_peers: "R c (c\<lparr>c_peer_backends := p\<rparr>)"
    and R_keys: "R c (c\<lparr>c_sibling_keys := ks\<rparr>)"
    and R_list: "R c (c\<lparr>c_device_list_cache := l\<rparr>)"
    and R_list_ts: "R c (c\<lparr>c_device_list_cache_ts := t\<rparr>)"
    and R_index: "R c (c\<lparr>c_sync_message_index := ix\<rparr>)"
begin

lemma keeps_readE: "keeps R (readE f)"
  by (rule keepsI) (simp add: readE_def R_reads)

lemma keeps_reads: "keeps R (urandom E n)" "keeps R (now_ms E)" "keeps R (new_id E)"
  unfolding urandom_def now_ms_def new_id_def by (intro keeps_intros keeps_readE)+

lemma keeps_get_request: "rq_method q = ''GET'' \<Longrightarrow> keeps R (on_net (e_request E q))"
  by (rule keepsI) (simp add: on_net_def split_beta Let_def R_get)

lemma keeps_checked_get: "keeps R (on_net (checked (e_request E) (http ''GET'' u hs ps b)))"
  unfolding checked_def on_net_simps by (intro keeps_intros keeps_get_request) (simp add: http_def)

lemma keeps_first_of: "(\<And>u. keeps R (on_net (f u))) \<Longrightarrow> keeps R (on_net (first_of f us))"
  by (induction us) (simp_all add: on_net_first keeps_pure keeps_catch)

lemma keeps_fetch_bundle: "keeps R (backend_fetch_bundle E pool bid)"
  unfolding backend_fetch_bundle_def pool_fetch_bundle_def relay_fetch_bundle_def
  by (intro keeps_first_of) (simp only: on_net_simps, intro keeps_intros keeps_checked_get)

lemma R_run_pool: "(\<And>u. keeps R (on_net (f u))) \<Longrightarrow> R c (c\<lparr>c_world := snd (run_pool f sched (c_world c))\<rparr>)"
proof (induction sched arbitrary: c)
  case (Cons u us)
  let ?c = "c\<lparr>c_world := snd (f u (c_world c))\<rparr>"
  have "R c (snd (on_net (f u) c))" using Cons.prems by (simp add: keeps_def)
  then have "R c ?c" by (simp add: on_net_def split_beta Let_def)
  moreover have "R ?c (?c\<lparr>c_world := snd (run_pool f us (c_world ?c))\<rparr>)" by (rule Cons.IH) (rule Cons.prems)
  ultimately have "R c (?c\<lparr>c_world := snd (run_pool f us (c_world ?c))\<rparr>)" by (rule R_trans)
  then show ?case by (simp add: split_beta Let_def)
qed (simp add: R_refl)

lemma keeps_pool:
  assumes "\<And>u. keeps R (on_net (f u))" "\<And>w. snd (m w) = snd (run_pool f sched w)"
  shows "keeps R (on_net m)"
  by (rule keepsI) (simp add: on_net_def split_beta Let_def assms(2) R_run_pool [OF assms(1)])

lemma keeps_ordered: "(\<And>sched. keeps R (on_net (f sched))) \<Longrightarrow> keeps R (ordered E pool f)"
  unfolding ordered_def by (intro keeps_intros keeps_readE)

lemma keeps_put_if: "(\<And>u. keeps R (on_net (relay_put (e_request E) u cap b))) \<Longrightarrow> keeps R (backend_put E pool cap b)"
  unfolding backend_put_def
  by (rule keeps_ordered, rule keeps_pool [where f = "\<lambda>u. relay_put (e_request E) u cap b"]) (simp_all add: pool_put_def split_beta Let_def)

lemma keeps_state_get: "keeps R (state_get E k)"
  unfolding state_get_def by (rule keeps_pure)

lemma keeps_backend_for: "keeps R (backend_for urls)"
  unfolding backend_for_def Let_def by (intro keeps_intros keeps_modify R_peers)

lemma keeps_own_list: "keeps R (fetch_own_device_list E)" "keeps R (cache_device_list E l)" "keeps R (own_device_list E age)"
proof -
  show f: "keeps R (fetch_own_device_list E)" unfolding fetch_own_device_list_def by (intro keeps_intros keeps_fetch_bundle)
  show c: "keeps R (cache_device_list E l)" for l
    unfolding cache_device_list_def by (intro keeps_intros keeps_modify keeps_reads R_list R_list_ts)
  show "keeps R (own_device_list E age)"
    unfolding own_device_list_def by (intro keeps_intros keeps_reads f c)
qed

lemmas looking_intros = keeps_intros keeps_readE keeps_reads keeps_fetch_bundle keeps_state_get keeps_backend_for keeps_own_list

end

text \<open>\<dots> and that writing the table of local state keeps.\<close>

locale reading_relation = looking_relation +
  assumes R_state: "R c (c\<lparr>c_store := snd (set_state iid k v (c_store c))\<rparr>)"
begin

lemma keeps_state_set: "keeps R (state_set E k v)"
proof -
  have "keeps R (on_store (set_state iid k v))" for iid
    by (rule keepsI) (simp add: on_store_def split_beta Let_def R_state)
  then show ?thesis unfolding state_set_def by (intro keeps_intros)
qed

lemmas reading_intros = looking_intros keeps_state_set

end

text \<open>A relation that every request keeps, too.\<close>

locale requesting_relation = looking_relation +
  assumes R_request: "R c (c\<lparr>c_world := snd (e_request E q (c_world c))\<rparr>)"
begin

lemma keeps_request: "keeps R (on_net (e_request E q))"
  by (rule keepsI) (simp add: on_net_def split_beta Let_def R_request)

lemma keeps_checked: "keeps R (on_net (checked (e_request E) q))"
  unfolding checked_def on_net_simps by (intro keeps_intros keeps_request)

lemma keeps_relay_calls:
  "keeps R (on_net (relay_create_mailbox (e_request E) u cap))"
  "keeps R (on_net (relay_put (e_request E) u cap b))"
  "keeps R (on_net (relay_fetch (e_request E) u cap n wait))"
  "keeps R (on_net (relay_ack (e_request E) u cap n))"
  "keeps R (on_net (relay_publish_bundle (e_request E) u b))"
  "keeps R (on_net (relay_put_blob (e_request E) u cap cid b))"
  "keeps R (on_net (relay_get_blob (e_request E) u cap cid))"
  unfolding relay_create_mailbox_def relay_put_def relay_fetch_def relay_ack_def relay_publish_bundle_def relay_put_blob_def relay_get_blob_def
  by (cases "read_token cap"; simp add: on_net_simps keeps_pure keeps_bind keeps_then keeps_checked)+

lemma keeps_backend:
  "keeps R (backend_put E pool cap b)"
  "keeps R (backend_register E pool cap)"
  "keeps R (backend_create_mailbox E pool)"
  "keeps R (backend_fetch E pool cap cursors wait)"
  "keeps R (backend_ack E pool cap cursors)"
  "keeps R (backend_publish_bundle E pool bid b)"
  "keeps R (backend_put_blob E pool cap b)"
  "keeps R (backend_get_blob E pool cap cid)"
proof -
  show "keeps R (backend_put E pool cap b)" by (rule keeps_put_if) (rule keeps_relay_calls)
  have reg: "keeps R (ordered E pool (\<lambda>sched. pool_register (e_request E) pool sched cap))" for cap
    by (rule keeps_ordered, rule keeps_pool [where f = "\<lambda>u. relay_create_mailbox (e_request E) u cap"], rule keeps_relay_calls) (simp add: pool_register_def split_beta Let_def)
  then show "keeps R (backend_register E pool cap)" unfolding backend_register_def .
  show "keeps R (backend_create_mailbox E pool)"
    unfolding backend_create_mailbox_def pool_create_mailbox_def prod.case by (intro looking_intros reg)
  show "keeps R (backend_fetch E pool cap cursors wait)"
    unfolding backend_fetch_def
    by (rule keeps_ordered, rule keeps_pool [where f = "\<lambda>u. relay_fetch (e_request E) u cap (case map_of cursors u of None \<Rightarrow> 0 | Some n \<Rightarrow> n) wait"], rule keeps_relay_calls)
      (simp add: pool_fetch_def split_beta Let_def)
  show "keeps R (backend_ack E pool cap cursors)"
    unfolding backend_ack_def
    by (rule keeps_ordered, rule keeps_pool [where f = "\<lambda>u. relay_ack (e_request E) u cap (the (map_of cursors u))"], rule keeps_relay_calls) (simp add: pool_ack_def)
  show "keeps R (backend_publish_bundle E pool bid b)"
    unfolding backend_publish_bundle_def
    by (rule keeps_pool [where f = "\<lambda>u. relay_publish_bundle (e_request E) u b"], rule keeps_relay_calls) (simp add: pool_publish_bundle_def split_beta Let_def)
  have "keeps R (on_net (pool_put_blob (e_request E) pool rnd cap b))" for rnd
    by (rule keeps_pool [where f = "\<lambda>u. relay_put_blob (e_request E) u cap (b64e rnd) b"], rule keeps_relay_calls) (simp add: pool_put_blob_def split_beta Let_def)
  then show "keeps R (backend_put_blob E pool cap b)" unfolding backend_put_blob_def by (intro looking_intros)
  show "keeps R (backend_get_blob E pool cap cid)"
    unfolding backend_get_blob_def pool_get_blob_def by (rule keeps_first_of) (rule keeps_relay_calls)
qed

lemmas requesting_intros = looking_intros keeps_backend

end

text \<open>Both: writing the local state, and any request.\<close>

locale writing_relation = reading_relation + requesting_relation
begin

lemmas writing_intros = reading_intros keeps_backend

end

text \<open>The requests that lead from one state of the world to another.\<close>

inductive via :: "'w requester \<Rightarrow> (http_request \<Rightarrow> bool) \<Rightarrow> 'w \<Rightarrow> 'w \<Rightarrow> bool" for rq P where
  via_refl: "via rq P w w"
| via_step: "via rq P w v \<Longrightarrow> P q \<Longrightarrow> via rq P w (snd (rq q v))"

lemma via_trans: "via rq P v w \<Longrightarrow> via rq P u v \<Longrightarrow> via rq P u w"
  by (induction rule: via.induct) (auto intro: via.intros)

lemma via_mono: "via rq P u w \<Longrightarrow> (\<And>q. P q \<Longrightarrow> P' q) \<Longrightarrow> via rq P' u w"
  by (induction rule: via.induct) (auto intro: via.intros)

definition is_get :: "http_request \<Rightarrow> bool" where
  "is_get q \<longleftrightarrow> rq_method q = ''GET''"

text \<open>Only \<open>GET\<close> requests, and messages posted to the mailbox of one of the devices.\<close>

definition only_to :: "device_entry set \<Rightarrow> http_request \<Rightarrow> bool" where
  "only_to D q \<longleftrightarrow> is_get q \<or> (\<exists>d \<in> D. \<exists>cap u. device_capability d = Inr cap \<and> rq_method q = ''POST''
     \<and> rq_url q = api_url u (''/mailbox/'' @ mailbox_id cap @ ''/messages''))"

interpretation gets: reading_relation "\<lambda>c c'. via (e_request E) is_get (c_world c) (c_world c')" E for E
  by unfold_locales (auto intro: via_refl via_trans via_step [OF via_refl] simp: is_get_def)

interpretation posts: reading_relation "\<lambda>c c'. via (e_request E) (only_to D) (c_world c) (c_world c')" E for E D
  by unfold_locales (auto intro: via_refl via_trans via_step [OF via_refl] simp: is_get_def only_to_def)

lemma posts_put:
  assumes "d \<in> D" "device_capability d = Inr cap"
  shows "keeps (\<lambda>c c'. via (e_request E) (only_to D) (c_world c) (c_world c')) (backend_put E pool cap b)"
proof (rule posts.keeps_put_if)
  fix u
  have "only_to D (http ''POST'' (api_url u (''/mailbox/'' @ mailbox_id cap @ ''/messages'')) hs ps bd)" for hs ps bd
    unfolding only_to_def http_def using assms by auto
  then have "keeps (\<lambda>c c'. via (e_request E) (only_to D) (c_world c) (c_world c'))
      (on_net (e_request E (http ''POST'' (api_url u (''/mailbox/'' @ mailbox_id cap @ ''/messages'')) hs ps bd)))" for hs ps bd
    by (intro keepsI) (simp add: on_net_def split_beta Let_def via_step [OF via_refl])
  then show "keeps (\<lambda>c c'. via (e_request E) (only_to D) (c_world c) (c_world c')) (on_net (relay_put (e_request E) u cap b))"
    unfolding relay_put_def checked_def on_net_simps by (intro posts.keeps_intros)
qed

end
