(* ===== verification/Sync.thy ===== *)
theory Sync
  imports ClientState
begin

section \<open>Device synchronisation\<close>

text \<open>
  \<^verbatim>\<open>core/sync.py\<close>: approvals, live mirroring and history back-fill between the devices of one account, as methods on the client's state.
  The short descriptions that \<open>handle_record\<close> returns are the constructors of \<open>sync_event\<close>.  Progress
  callbacks are not modelled.  A document of the local state that does not have the shape in which it was written raises
  \<open>AttributeError\<close>.
\<close>

definition DEVICE_KEYS_STATE :: string where "DEVICE_KEYS_STATE = ''device_keys''"
definition APPROVALS_STATE :: string where "APPROVALS_STATE = ''sync_approvals''"
definition REQUESTED_STATE :: string where "REQUESTED_STATE = ''sync_requested''"
definition INCOMING_STATE :: string where "INCOMING_STATE = ''sync_incoming''"
definition REQUESTS_STATE :: string where "REQUESTS_STATE = ''sync_requests''"
definition SEEN_STATE :: string where "SEEN_STATE = ''sync_seen''"
definition MAX_SEEN_TRANSFERS :: nat where "MAX_SEEN_TRANSFERS = 200"

text \<open>\<open>client.store.get_state(...) or {}\<close>.\<close>

definition state_dict :: "'w env \<Rightarrow> string \<Rightarrow> ('w, dict) cmeth" where
  "state_dict E k = bindS (state_get E k) (\<lambda>v.
     if \<not> truthy v then returnS [] else case v of JObj d \<Rightarrow> returnS d | _ \<Rightarrow> raiseS AttributeError)"

text \<open>\<open>d.get(k)\<close> and \<open>d.get(k) or {}\<close> on a dict.\<close>

definition dget :: "dict \<Rightarrow> string \<Rightarrow> json" where
  "dget d k = (case map_of d k of None \<Rightarrow> JNull | Some v \<Rightarrow> v)"

definition dget_dict :: "dict \<Rightarrow> string \<Rightarrow> dict res" where
  "dget_dict d k = (let v = dget d k in if \<not> truthy v then Inr [] else case v of JObj x \<Rightarrow> Inr x | _ \<Rightarrow> Inl AttributeError)"

text \<open>\<open>int(v or n)\<close> and \<open>str(v or "")\<close>.\<close>

definition int_or :: "json \<Rightarrow> int \<Rightarrow> int res" where
  "int_or v n = py_int (py_or v (JInt n))"

definition str_or :: "json \<Rightarrow> string" where
  "str_or v = (if truthy v then py_str v else [])"

subsection \<open>Device keys\<close>

record device_secret =
  ds_sdev :: bytes
  ds_sagree :: bytes

definition read_device_keys :: "json \<Rightarrow> device_secret option res" where
  "read_device_keys stored =
     (if \<not> truthy stored then Inr None
      else bindE (py_get stored ''sdev'') (\<lambda>a. bindE (py_get stored ''sagree'') (\<lambda>b.
        if truthy a \<and> truthy b
        then bindE (b64d_json a) (\<lambda>x. bindE (b64d_json b) (\<lambda>y. Inr (Some \<lparr>ds_sdev = x, ds_sagree = y\<rparr>)))
        else Inr None)))"

definition ensure_device_keys :: "'w env \<Rightarrow> ('w, device_secret) cmeth" where
  "ensure_device_keys E =
     bindS (state_get E DEVICE_KEYS_STATE) (\<lambda>stored.
     bindS (liftS (read_device_keys stored)) (\<lambda>known.
     case known of Some k \<Rightarrow> returnS k
     | None \<Rightarrow>
        bindS (urandom E 32) (\<lambda>sdev. bindS (urandom E 32) (\<lambda>sagree.
        thenS (state_set E DEVICE_KEYS_STATE (JObj [(''sdev'', JStr (b64e sdev)), (''sagree'', JStr (b64e sagree))]))
          (returnS \<lparr>ds_sdev = sdev, ds_sagree = sagree\<rparr>)))))"

definition device_keys_record :: "'w env \<Rightarrow> ('w, device_keys) cmeth" where
  "device_keys_record E =
     bindS (ensure_device_keys E) (\<lambda>keys.
     bindS (getS id) (\<lambda>c.
     case c_device_id c of None \<Rightarrow> raiseS SyncError
     | Some dev \<Rightarrow>
        if dev = [] then raiseS SyncError
        else liftS (bindE (signing_public (e_crypto E) (ds_sdev keys)) (\<lambda>sp.
          bindE (agreement_public (e_crypto E) (ds_sagree keys)) (\<lambda>ap.
          Inr (dk_create (e_crypto E) (c_identity c) dev sp ap))))))"

definition publish_device_keys :: "'w env \<Rightarrow> ('w, unit) cmeth" where
  "publish_device_keys E =
     bindS (device_keys_record E) (\<lambda>k.
     bindS (urandom E 12) (\<lambda>nonce.
     bindS (liftS (seal_payload (e_crypto E) nonce (dk_isign k) (dk_idh k) (dk_address (e_crypto E) k) (dk_to_bytes (e_crypto E) k))) (\<lambda>sealed.
     bindS (getS c_backend) (\<lambda>pool.
     catchS (\<lambda>_. True) (thenS (backend_publish_bundle E pool (dk_address (e_crypto E) k) sealed) (returnS ())) (returnS ())))))"

text \<open>The \<open>try\<close> block of \<open>fetch_device_keys\<close>: whatever goes wrong, the cached record is used.\<close>

definition download_device_keys :: "'w env \<Rightarrow> device_entry \<Rightarrow> ('w, device_keys) cmeth" where
  "download_device_keys E d =
     bindS (getS id) (\<lambda>c.
     bindS (backend_for (entry_relays d)) (\<lambda>pool.
     bindS (backend_fetch_bundle E pool (device_keys_id (e_crypto E) (my_ed E c) (my_x E c) (entry_device_id d))) (\<lambda>doc.
     liftS (bindE (open_signed_payload (e_crypto E) (RawValue doc) (my_ed E c) (my_x E c)) (\<lambda>opened.
       dk_from_value (e_crypto E) (JObj opened))))))"

definition fetch_device_keys :: "'w env \<Rightarrow> device_entry \<Rightarrow> ('w, device_keys option) cmeth" where
  "fetch_device_keys E d =
     bindS (getS (\<lambda>c. map_of (c_sibling_keys c) (entry_device_id d))) (\<lambda>entry.
     bindS (now_ms E) (\<lambda>now.
     if (case entry of None \<Rightarrow> False | Some e \<Rightarrow> now - sb_ts e < 24 * 3600 * 1000) then returnS (map_option sb_record entry)
     else bindS (catchS (\<lambda>_. True) (bindS (download_device_keys E d) (\<lambda>k. returnS (Inr k))) (returnS (Inl (map_option sb_record entry)))) (\<lambda>got.
       case got of Inl old \<Rightarrow> returnS old
       | Inr k \<Rightarrow> bindS (getS id) (\<lambda>c.
           if dk_device_id k \<noteq> entry_device_id d then returnS None
           else if \<not> dk_belongs_to k (account E c) (my_ed E c) (my_x E c) then returnS None
           else thenS (modifyS (\<lambda>c. c\<lparr>c_sibling_keys := AList.update (entry_device_id d) \<lparr>sb_record = k, sb_ts = now\<rparr> (c_sibling_keys c)\<rparr>))
             (returnS (Some k))))))"

definition sibling_devices :: "'w env \<Rightarrow> bool \<Rightarrow> bool \<Rightarrow> ('w, device_entry list) cmeth" where
  "sibling_devices E include_self fresh =
     bindS (own_device_list E (if fresh then 0 else 300000)) (\<lambda>listing.
     getS (\<lambda>c. filter (\<lambda>d. include_self \<or> Some (entry_device_id d) \<noteq> c_device_id c)
       (case listing of None \<Rightarrow> [] | Some l \<Rightarrow> dl_devices l)))"

definition device_by_id :: "'w env \<Rightarrow> string \<Rightarrow> bool \<Rightarrow> ('w, device_entry option) cmeth" where
  "device_by_id E dev fresh =
     bindS (sibling_devices E True fresh) (\<lambda>ds. returnS (find (\<lambda>d. entry_device_id d = dev) ds))"

definition locate_device :: "'w env \<Rightarrow> string \<Rightarrow> ('w, device_entry option) cmeth" where
  "locate_device E dev =
     bindS (device_by_id E dev False) (\<lambda>d. case d of Some x \<Rightarrow> returnS (Some x) | None \<Rightarrow> device_by_id E dev True)"

subsection \<open>Approvals and requests\<close>

definition approvals :: "'w env \<Rightarrow> ('w, dict) cmeth" where
  "approvals E = state_dict E APPROVALS_STATE"

definition approved_devices :: "'w env \<Rightarrow> ('w, string list) cmeth" where
  "approved_devices E = bindS (approvals E) (\<lambda>d. returnS (sort (map fst d)))"

definition mark_approved :: "'w env \<Rightarrow> string \<Rightarrow> string \<Rightarrow> json \<Rightarrow> json \<Rightarrow> ('w, unit) cmeth" where
  "mark_approved E dev transfer since til =
     bindS (approvals E) (\<lambda>value.
     bindS (liftS (int_or since 0)) (\<lambda>s.
     bindS (now_ms E) (\<lambda>t1.
     bindS (liftS (int_or til t1)) (\<lambda>u.
     bindS (now_ms E) (\<lambda>t2.
     state_set E APPROVALS_STATE (JObj (AList.update dev
       (JObj [(''transfer'', JStr transfer), (''since'', JInt s), (''until'', JInt u), (''ts'', JInt t2)]) value)))))))"

definition revoke_approval :: "'w env \<Rightarrow> string \<Rightarrow> ('w, unit) cmeth" where
  "revoke_approval E dev =
     bindS (approvals E) (\<lambda>value. state_set E APPROVALS_STATE (JObj (AList.delete dev value)))"

text \<open>\<open>seen[-MAX_SEEN_TRANSFERS:]\<close> after the new identifier is appended.\<close>

definition mark_seen :: "'w env \<Rightarrow> string \<Rightarrow> ('w, bool) cmeth" where
  "mark_seen E transfer =
     bindS (state_get E SEEN_STATE) (\<lambda>v.
     bindS (if \<not> truthy v then returnS [] else case v of JArr xs \<Rightarrow> returnS xs | _ \<Rightarrow> raiseS AttributeError) (\<lambda>seen.
     if JStr transfer \<in> set seen then returnS False
     else let seen' = seen @ [JStr transfer] in
       thenS (state_set E SEEN_STATE (JArr (drop (length seen' - MAX_SEEN_TRANSFERS) seen'))) (returnS True)))"

definition incoming_request :: "'w env \<Rightarrow> string \<Rightarrow> string \<Rightarrow> json \<Rightarrow> ('w, unit) cmeth" where
  "incoming_request E dev transfer since =
     bindS (state_dict E REQUESTS_STATE) (\<lambda>pending.
     bindS (liftS (int_or since 0)) (\<lambda>s.
     bindS (now_ms E) (\<lambda>t.
     state_set E REQUESTS_STATE (JObj (AList.update dev
       (JObj [(''transfer'', JStr transfer), (''since'', JInt s), (''ts'', JInt t)]) pending)))))"

record pending_request =
  pr_device_id :: string
  pr_name :: string
  pr_since :: json
  pr_ts :: int
  pr_transfer :: json

definition read_request :: "device_entry list \<Rightarrow> string \<times> json \<Rightarrow> pending_request res" where
  "read_request known kv =
     bindE (py_get (snd kv) ''since'') (\<lambda>since.
     bindE (bindE (py_get (snd kv) ''ts'') (\<lambda>v. int_or v 0)) (\<lambda>ts.
     bindE (py_get (snd kv) ''transfer'') (\<lambda>tr.
     Inr \<lparr>pr_device_id = fst kv,
          pr_name = (case find (\<lambda>d. entry_device_id d = fst kv) (rev known) of None \<Rightarrow> [] | Some d \<Rightarrow> entry_name d),
          pr_since = py_or since (JInt 0), pr_ts = ts, pr_transfer = tr\<rparr>)))"

text \<open>Newest first; sorting in reverse keeps the order of equal keys.\<close>

definition pending_requests :: "'w env \<Rightarrow> ('w, pending_request list) cmeth" where
  "pending_requests E =
     bindS (state_dict E REQUESTS_STATE) (\<lambda>pending.
     bindS (sibling_devices E True False) (\<lambda>known.
     bindS (approvals E) (\<lambda>approved.
     liftS (bindE (mapE (read_request known) (filter (\<lambda>kv. map_of approved (fst kv) = None) pending)) (\<lambda>out.
       Inr (sort_key (\<lambda>r. - pr_ts r) out))))))"

definition requested_from :: "'w env \<Rightarrow> ('w, dict) cmeth" where
  "requested_from E = state_dict E REQUESTED_STATE"

subsection \<open>Writing records\<close>

definition new_transfer_id :: "'w env \<Rightarrow> ('w, string) cmeth" where
  "new_transfer_id E = bindS (urandom E 16) (\<lambda>b. returnS (b64e b))"

definition sealed_record :: "'w env \<Rightarrow> byte \<Rightarrow> bytes \<Rightarrow> bytes \<Rightarrow> string \<Rightarrow> bytes \<Rightarrow> string \<Rightarrow> int \<Rightarrow> dict \<Rightarrow> ('w, bytes) cmeth" where
  "sealed_record E kind plaintext sagree sender sdev transfer seq extra =
     bindS (urandom E 32) (\<lambda>eph. bindS (now_ms E) (\<lambda>now. bindS (urandom E 12) (\<lambda>nonce.
     liftS (seal_record (e_crypto E) eph nonce now kind plaintext sagree sender sdev transfer seq extra))))"

definition write_record :: "'w env \<Rightarrow> device_entry \<Rightarrow> byte \<Rightarrow> bytes \<Rightarrow> string \<Rightarrow> int \<Rightarrow> dict \<Rightarrow> ('w, bytes) cmeth" where
  "write_record E d kind plaintext transfer seq extra =
     bindS (ensure_device_keys E) (\<lambda>keys.
     bindS (fetch_device_keys E d) (\<lambda>rec.
     case rec of None \<Rightarrow> raiseS SyncError
     | Some k \<Rightarrow>
        bindS (getS (\<lambda>c. case c_device_id c of None \<Rightarrow> [] | Some x \<Rightarrow> x)) (\<lambda>sender.
        bindS (sealed_record E kind plaintext (dk_sagree k) sender (ds_sdev keys) transfer seq extra) (\<lambda>blob.
        bindS (backend_for (entry_relays d)) (\<lambda>pool.
        bindS (liftS (device_capability d)) (\<lambda>cap.
        thenS (backend_put E pool cap blob) (returnS blob)))))))"

text \<open>One record per device; a device for which it fails is skipped.\<close>

definition try_write :: "'w env \<Rightarrow> byte \<Rightarrow> bytes \<Rightarrow> string \<Rightarrow> device_entry \<Rightarrow> ('w, bool) cmeth" where
  "try_write E kind raw transfer d =
     catchS (\<lambda>_. True) (thenS (write_record E d kind raw transfer 0 []) (returnS True)) (returnS False)"

definition request_history :: "'w env \<Rightarrow> int option \<Rightarrow> int option \<Rightarrow> ('w, string list) cmeth" where
  "request_history E since budget =
     bindS (new_transfer_id E) (\<lambda>transfer.
     bindS (getS (\<lambda>c. case c_device_id c of None \<Rightarrow> [] | Some x \<Rightarrow> x)) (\<lambda>me.
     let s = (case since of None \<Rightarrow> 0 | Some n \<Rightarrow> n);
         raw = canonical_json (JObj [(''since'', JInt s),
           (''budget'', JInt (case budget of None \<Rightarrow> DEFAULT_BUDGET_BYTES | Some n \<Rightarrow> n)), (''device'', JStr me)]) in
     bindS (sibling_devices E False False) (\<lambda>ds.
     bindS (foldS (\<lambda>d asked. bindS (try_write E REQUEST raw transfer d) (\<lambda>ok.
        returnS (if ok then asked @ [entry_device_id d] else asked))) ds []) (\<lambda>asked.
     if asked = [] then returnS []
     else bindS (now_ms E) (\<lambda>t.
       thenS (state_set E REQUESTED_STATE (JObj [(''transfer'', JStr transfer), (''since'', JInt s),
           (''asked'', JArr (map JStr asked)), (''ts'', JInt t)])) (returnS asked))))))"

definition deny_device :: "'w env \<Rightarrow> string \<Rightarrow> ('w, unit) cmeth" where
  "deny_device E dev =
     bindS (state_dict E REQUESTS_STATE) (\<lambda>pending. state_set E REQUESTS_STATE (JObj (AList.delete dev pending)))"

definition bundle_list :: "dict \<Rightarrow> string \<Rightarrow> json list" where
  "bundle_list d k = (case map_of d k of Some (JArr xs) \<Rightarrow> xs | _ \<Rightarrow> [])"

definition build_items :: "'w env \<Rightarrow> int \<Rightarrow> int \<Rightarrow> int \<Rightarrow> ('w, (string \<times> json) list \<times> json list) cmeth" where
  "build_items E since til budget =
     bindS (now_ms E) (\<lambda>t.
     bindS (getS (\<lambda>c. build_bundle t (account E c) (c_device_id c)
       \<lparr>ba_since = Some since, ba_until = Some til, ba_budget = budget, ba_attachments = True\<rparr> (c_store c))) (\<lambda>b.
     liftS (bindE b (\<lambda>bundle. Inr
       (map (Pair ''contact'') (bundle_list bundle ''contacts'') @ map (Pair ''message'') (bundle_list bundle ''messages'')
        @ map (Pair ''chunk'') (bundle_list bundle ''chunks''), bundle_list bundle ''skipped'')))))"

text \<open>\<open>{"kind": kind, **payload}\<close>.\<close>

definition item_bytes :: "string \<times> json \<Rightarrow> bytes res" where
  "item_bytes kp = (case snd kp of JObj d \<Rightarrow> Inr (canonical_json (JObj (dict_update [(''kind'', JStr (fst kp))] d))) | _ \<Rightarrow> Inl TypeError)"

fun send_items :: "'w env \<Rightarrow> device_entry \<Rightarrow> string \<Rightarrow> int \<Rightarrow> (string \<times> json) list \<Rightarrow> bytes \<Rightarrow> ('w, bytes) cmeth" where
  "send_items E d transfer index [] chain = returnS chain"
| "send_items E d transfer index (kp # items) chain =
     bindS (liftS (item_bytes kp)) (\<lambda>raw.
     thenS (write_record E d ITEM raw transfer index [])
     (bindS (liftS (chain_add (e_crypto E) raw index chain)) (send_items E d transfer (index + 1) items)))"

definition send_history :: "'w env \<Rightarrow> device_entry \<Rightarrow> int \<Rightarrow> int \<Rightarrow> int \<Rightarrow> string \<Rightarrow> ('w, int \<times> int) cmeth" where
  "send_history E d since til budget transfer =
     bindS (build_items E since til budget) (\<lambda>(items, skipped).
     let n = int (length items); k = int (length skipped) in
     thenS (write_record E d OFFER (canonical_json (JObj [(''count'', JInt n), (''skipped'', JInt k), (''since'', JInt since),
         (''until'', JInt til), (''budget'', JInt budget)])) transfer 0 [(''count'', JInt n)])
     (bindS (liftS (chain_start (e_crypto E) transfer [])) (\<lambda>chain0.
      bindS (send_items E d transfer 1 items chain0) (\<lambda>chain.
      thenS (write_record E d COMPLETE (canonical_json (JObj [(''count'', JInt n), (''chain'', JStr (hexdigest chain))])) transfer 0
          [(''count'', JInt n), (''chain'', JStr (hexdigest chain))])
      (returnS (n, k))))))"

definition approve_located :: "'w env \<Rightarrow> device_entry \<Rightarrow> string \<Rightarrow> int option \<Rightarrow> int option \<Rightarrow> ('w, int \<times> string \<times> int \<times> int) cmeth" where
  "approve_located E d dev since budget =
     bindS (state_dict E REQUESTS_STATE) (\<lambda>pending.
     bindS (liftS (dget_dict pending dev)) (\<lambda>request.
     bindS (liftS (case since of Some n \<Rightarrow> Inr n | None \<Rightarrow> int_or (dget request ''since'') 0)) (\<lambda>s.
     let b = (case budget of None \<Rightarrow> DEFAULT_BUDGET_BYTES | Some n \<Rightarrow> n) in
     bindS (new_transfer_id E) (\<lambda>transfer.
     bindS (now_ms E) (\<lambda>til.
     thenS (write_record E d APPROVAL (canonical_json (JObj [(''device'', JStr dev), (''since'', JInt s), (''until'', JInt til),
         (''budget'', JInt b)])) transfer 0 [(''since'', JInt s), (''until'', JInt til)])
     (thenS (mark_approved E dev transfer (JInt s) (JInt til))
     (bindS (send_history E d s til b transfer) (\<lambda>(n, k).
      thenS (state_set E REQUESTS_STATE (JObj (AList.delete dev pending)))
      (returnS (s, transfer, n, k))))))))))"

definition approve_device :: "'w env \<Rightarrow> string \<Rightarrow> int option \<Rightarrow> int option \<Rightarrow> ('w, int \<times> string \<times> int \<times> int) cmeth" where
  "approve_device E dev since budget =
     bindS (locate_device E dev) (\<lambda>found. case found of None \<Rightarrow> raiseS SyncError | Some d \<Rightarrow> approve_located E d dev since budget)"

subsection \<open>Mirroring\<close>

definition mirror_targets :: "'w env \<Rightarrow> ('w, device_entry list) cmeth" where
  "mirror_targets E =
     bindS (sibling_devices E False False) (\<lambda>ds.
     if ds = [] then returnS []
     else bindS (approvals E) (\<lambda>a. returnS (filter (\<lambda>d. map_of a (entry_device_id d) \<noteq> None) ds)))"

text \<open>A record of its own, with its own transfer identifier, for every target.\<close>

definition mirror_to :: "'w env \<Rightarrow> bytes \<Rightarrow> device_entry list \<Rightarrow> ('w, int) cmeth" where
  "mirror_to E raw targets =
     foldS (\<lambda>d sent. bindS (new_transfer_id E) (\<lambda>transfer. bindS (try_write E MIRROR raw transfer d) (\<lambda>ok.
        returnS (if ok then sent + 1 else sent)))) targets 0"

definition mirror_message :: "'w env \<Rightarrow> string \<Rightarrow> message \<Rightarrow> ('w, int) cmeth" where
  "mirror_message E cid m =
     bindS (mirror_targets E) (\<lambda>targets.
     if targets = [] then returnS 0
     else bindS (getS (\<lambda>c. get_contact (account E c) cid (c_store c))) (\<lambda>found.
       case found of None \<Rightarrow> returnS 0
       | Some ct \<Rightarrow>
          bindS (liftS (contact_item ct)) (\<lambda>ci.
          let item = (case message_item (m\<lparr>msg_contact := JStr cid\<rparr>) of JObj d \<Rightarrow> JObj (AList.update ''id'' (JStr (msg_id m)) d) | v \<Rightarrow> v) in
          mirror_to E (canonical_json (JObj [(''kind'', JStr ''mirror''), (''contact'', ci), (''message'', item)])) targets)))"

definition state_change :: "string \<Rightarrow> message \<Rightarrow> json" where
  "state_change cid m =
     JObj [(''kind'', JStr ''state''), (''state'', JObj [(''id'', JStr (msg_id m)), (''remote_id'', msg_remote_id m),
       (''contact_id'', if cid \<noteq> [] then JStr cid else msg_contact m), (''state'', msg_state m)])]"

definition mirror_state :: "'w env \<Rightarrow> string \<Rightarrow> message \<Rightarrow> ('w, int) cmeth" where
  "mirror_state E cid m =
     bindS (mirror_targets E) (\<lambda>targets.
     if targets = [] then returnS 0 else mirror_to E (canonical_json (state_change cid m)) targets)"

subsection \<open>Receiving\<close>

datatype sync_event = RequestFrom string | ApprovedBy string | Offered json string | ItemFrom json string
  | Incomplete string int int | Completed string int | Mirrored | MirrorIgnored | UnknownMessage | StateSet string | StateNewer
  | UnknownMirror

definition loads_payload :: "bytes \<Rightarrow> dict res" where
  "loads_payload plaintext =
     bindE (rethrow is_value_error SyncError (loads_bytes plaintext)) (\<lambda>v. case v of JObj d \<Rightarrow> Inr d | _ \<Rightarrow> Inl SyncError)"

definition handle_offer :: "'w env \<Rightarrow> string \<Rightarrow> string \<Rightarrow> dict \<Rightarrow> ('w, sync_event) cmeth" where
  "handle_offer E dev transfer offer =
     bindS (state_dict E INCOMING_STATE) (\<lambda>state.
     bindS (liftS (dget_dict state dev)) (\<lambda>previous.
     thenS (if dget previous ''transfer'' \<noteq> JStr transfer then modifyS (\<lambda>c. c\<lparr>c_sync_message_index := None\<rparr>) else returnS ())
     (bindS (liftS (int_or (dget offer ''count'') 0)) (\<lambda>n.
      bindS (liftS (int_or (dget offer ''skipped'') 0)) (\<lambda>k.
      thenS (state_set E INCOMING_STATE (JObj (AList.update dev
        (JObj [(''transfer'', JStr transfer), (''received'', JInt 0), (''expected'', JInt n), (''skipped'', JInt k), (''chain'', JStr []),
          (''done'', JBool False)]) state)))
      (returnS (Offered (dget offer ''count'') dev)))))))"

definition without_kind :: "dict \<Rightarrow> json" where
  "without_kind item = JObj (filter (\<lambda>kv. fst kv \<noteq> ''kind'') item)"

definition merge_item :: "'w env \<Rightarrow> dict \<Rightarrow> ('w, unit) cmeth" where
  "merge_item E item =
     bindS (getS (account E)) (\<lambda>iid.
     let kind = dget item ''kind''; rest = without_kind item in
     if kind = JStr ''contact'' then
       bindS (now_ms E) (\<lambda>t. thenS (on_store (merge_contacts (seconds t) iid [rest] new_counts)) (returnS ()))
     else if kind = JStr ''message'' then
       bindS (getS c_sync_message_index) (\<lambda>cached.
       bindS (case cached of Some k \<Rightarrow> returnS k
              | None \<Rightarrow> bindS (getS (\<lambda>c. message_index (e_crypto E) iid (c_store c))) (\<lambda>r. bindS (liftS r) (\<lambda>k.
                  thenS (modifyS (\<lambda>c. c\<lparr>c_sync_message_index := Some k\<rparr>)) (returnS k)))) (\<lambda>index.
       bindS (urandom E 16) (\<lambda>rnd.
       bindS (on_store (merge_messages (e_crypto E) iid (\<lambda>_. rnd) [rest] index new_counts)) (\<lambda>(index', _).
       modifyS (\<lambda>c. c\<lparr>c_sync_message_index := Some index'\<rparr>)))))
     else if kind = JStr ''chunk'' then
       bindS (now_ms E) (\<lambda>t. thenS (on_store (merge_chunks (seconds t) [rest] new_counts)) (returnS ()))
     else raiseS SyncError)"

definition fresh_entry :: "string \<Rightarrow> dict" where
  "fresh_entry transfer = [(''transfer'', JStr transfer), (''seq'', JInt 0), (''count'', JInt 0), (''chain'', JStr []), (''done'', JBool False)]"

definition apply_item :: "'w env \<Rightarrow> string \<Rightarrow> string \<Rightarrow> bytes \<Rightarrow> int \<Rightarrow> ('w, sync_event) cmeth" where
  "apply_item E dev transfer plaintext seq =
     bindS (liftS (loads_payload plaintext)) (\<lambda>item.
     bindS (state_dict E INCOMING_STATE) (\<lambda>state.
     bindS (liftS (dget_dict state dev)) (\<lambda>found.
     let entry = (if found = [] then fresh_entry transfer else found) in
     thenS (merge_item E item)
     (bindS (liftS (bindE (chain_start (e_crypto E) transfer (str_or (dget entry ''chain''))) (chain_add (e_crypto E) plaintext seq))) (\<lambda>chain.
      bindS (liftS (int_or (dget entry ''received'') 0)) (\<lambda>received.
      bindS (liftS (int_or (dget entry ''expected'') 0)) (\<lambda>expected.
      thenS (state_set E INCOMING_STATE (JObj (AList.update dev (JObj (dict_update entry
        [(''transfer'', JStr transfer), (''received'', JInt (received + 1)), (''expected'', JInt expected),
         (''chain'', JStr (hexdigest chain)), (''done'', JBool False)])) state)))
      (returnS (ItemFrom (dget item ''kind'') dev))))))))) "

definition handle_complete :: "'w env \<Rightarrow> string \<Rightarrow> dict \<Rightarrow> ('w, sync_event) cmeth" where
  "handle_complete E dev complete =
     bindS (state_dict E INCOMING_STATE) (\<lambda>state.
     bindS (liftS (dget_dict state dev)) (\<lambda>entry.
     bindS (liftS (int_or (dget complete ''count'') 0)) (\<lambda>expected.
     bindS (liftS (int_or (dget entry ''received'') 0)) (\<lambda>received.
     let ok = (expected \<le> received \<and> str_or (dget entry ''chain'') = str_or (dget complete ''chain'')) in
     thenS (state_set E INCOMING_STATE (JObj (AList.update dev (JObj (dict_update entry
       [(''done'', JBool True), (''expected'', JInt expected), (''complete'', JBool ok)])) state)))
     (returnS (if ok then Completed dev received else Incomplete dev received expected))))))"

definition apply_state_change :: "'w env \<Rightarrow> json \<Rightarrow> ('w, sync_event) cmeth" where
  "apply_state_change E change =
     bindS (getS (account E)) (\<lambda>iid.
     bindS (liftS (py_get change ''remote_id'')) (\<lambda>rid.
     bindS (if truthy rid then ask_store (find_by_remote_id iid (py_str rid) None) else returnS None) (\<lambda>t1.
     bindS (liftS (py_get change ''id'')) (\<lambda>mid.
     bindS (if t1 = None \<and> truthy mid then ask_store (get_message (py_str mid)) else returnS t1) (\<lambda>t2.
     case t2 of None \<Rightarrow> returnS UnknownMessage
     | Some target \<Rightarrow>
        bindS (liftS (bindE (py_get change ''state'') (\<lambda>v. Inr (str_or v)))) (\<lambda>state.
        bindS (liftS (state_rank (JStr state))) (\<lambda>new.
        bindS (liftS (state_rank (msg_state target))) (\<lambda>old.
        if old < new then thenS (on_store (update_message (msg_id target) [FState (JStr state)])) (returnS (StateSet state))
        else returnS StateNewer))))))))"

definition apply_mirror :: "'w env \<Rightarrow> dict \<Rightarrow> ('w, sync_event) cmeth" where
  "apply_mirror E item =
     (let kind = dget item ''kind'' in
      if kind = JStr ''mirror'' then
        bindS (getS (account E)) (\<lambda>iid.
        thenS (if truthy (dget item ''contact'')
               then bindS (now_ms E) (\<lambda>t. thenS (on_store (merge_contacts (seconds t) iid [dget item ''contact''] new_counts)) (returnS ()))
               else returnS ())
        (bindS (getS (\<lambda>c. message_index (e_crypto E) iid (c_store c))) (\<lambda>r.
         bindS (liftS r) (\<lambda>index.
         bindS (urandom E 16) (\<lambda>rnd.
         bindS (on_store (merge_messages (e_crypto E) iid (\<lambda>_. rnd) [dget item ''message''] index new_counts)) (\<lambda>(_, counts).
         returnS (if n_messages counts \<noteq> 0 then Mirrored else MirrorIgnored)))))))
      else if kind = JStr ''state'' then apply_state_change E (py_or (dget item ''state'') (JObj []))
      else returnS UnknownMirror)"

text \<open>The dispatch after the record is opened.\<close>

definition dispatch_record :: "'w env \<Rightarrow> string \<Rightarrow> byte \<Rightarrow> dict \<Rightarrow> bytes \<Rightarrow> ('w, sync_event option) cmeth" where
  "dispatch_record E dev kind hdr plaintext =
     (let transfer = str_or (dget hdr ''transfer'') in
      if kind = REQUEST then
        bindS (liftS (loads_payload plaintext)) (\<lambda>request.
        thenS (incoming_request E dev transfer (dget request ''since'')) (returnS (Some (RequestFrom dev))))
      else if kind = APPROVAL then
        bindS (mark_seen E transfer) (\<lambda>new.
        thenS (if new then mark_approved E dev transfer (dget hdr ''since'') (dget hdr ''until'') else returnS ())
        (returnS (Some (ApprovedBy dev))))
      else if kind = OFFER then
        bindS (liftS (loads_payload plaintext)) (\<lambda>offer. bindS (handle_offer E dev transfer offer) (\<lambda>e. returnS (Some e)))
      else if kind = ITEM then
        bindS (liftS (int_or (dget hdr ''seq'') 0)) (\<lambda>seq. bindS (apply_item E dev transfer plaintext seq) (\<lambda>e. returnS (Some e)))
      else if kind = COMPLETE then
        bindS (liftS (loads_payload plaintext)) (\<lambda>complete. bindS (handle_complete E dev complete) (\<lambda>e. returnS (Some e)))
      else if kind = MIRROR then
        bindS (liftS (loads_payload plaintext)) (\<lambda>item. bindS (apply_mirror E item) (\<lambda>e. returnS (Some e)))
      else returnS None)"

text \<open>What comes before the dispatch: the sender is looked up among the account's devices, and the record is opened with its keys.\<close>

definition open_incoming :: "'w env \<Rightarrow> bytes \<Rightarrow> ('w, string \<times> byte \<times> dict \<times> bytes) cmeth" where
  "open_incoming E blob =
     bindS (liftS (parse_record blob)) (\<lambda>(_, hdr0, _).
     let dev = str_or (dget hdr0 ''from'') in
     bindS (locate_device E dev) (\<lambda>found.
     case found of None \<Rightarrow> raiseS SyncError
     | Some d \<Rightarrow>
        bindS (fetch_device_keys E d) (\<lambda>rec.
        case rec of None \<Rightarrow> raiseS SyncError
        | Some k \<Rightarrow>
           bindS (ensure_device_keys E) (\<lambda>keys.
           bindS (liftS (open_record (e_crypto E) blob (ds_sagree keys) (dk_sdev k) dev)) (\<lambda>(kind, hdr, plaintext).
           returnS (dev, kind, hdr, plaintext))))))"

definition handle_record :: "'w env \<Rightarrow> bytes \<Rightarrow> ('w, sync_event option) cmeth" where
  "handle_record E blob = bindS (open_incoming E blob) (\<lambda>(dev, kind, hdr, plaintext). dispatch_record E dev kind hdr plaintext)"

record sibling_status =
  ss_device_id :: string
  ss_name :: string
  ss_approved :: bool
  ss_received :: int
  ss_expected :: int
  ss_done :: bool
  ss_asked :: bool
  ss_has_keys :: bool

definition sibling_row :: "'w env \<Rightarrow> dict \<Rightarrow> dict \<Rightarrow> dict \<Rightarrow> device_entry \<Rightarrow> ('w, sibling_status) cmeth" where
  "sibling_row E inc outgoing approved d =
     bindS (liftS (dget_dict inc (entry_device_id d))) (\<lambda>entry.
     bindS (liftS (int_or (dget entry ''received'') 0)) (\<lambda>received.
     bindS (liftS (int_or (dget entry ''expected'') 0)) (\<lambda>expected.
     bindS (liftS (py_list_or (map_of outgoing ''asked''))) (\<lambda>asked.
     bindS (fetch_device_keys E d) (\<lambda>keys.
     returnS \<lparr>ss_device_id = entry_device_id d, ss_name = entry_name d, ss_approved = (map_of approved (entry_device_id d) \<noteq> None),
       ss_received = received, ss_expected = expected, ss_done = truthy (dget entry ''done''),
       ss_asked = (JStr (entry_device_id d) \<in> set asked), ss_has_keys = (keys \<noteq> None)\<rparr>)))))"

definition iter_status :: "'w env \<Rightarrow> ('w, sibling_status list) cmeth" where
  "iter_status E =
     bindS (state_dict E INCOMING_STATE) (\<lambda>incoming.
     bindS (requested_from E) (\<lambda>outgoing.
     bindS (approvals E) (\<lambda>approved.
     bindS (sibling_devices E False True) (\<lambda>ds.
     mapS (sibling_row E incoming outgoing approved) ds))))"

subsection \<open>What synchronisation keeps\<close>

lemma keeps_case_json: "(\<And>d. v = JObj d \<Longrightarrow> keeps R (f d)) \<Longrightarrow> keeps R k \<Longrightarrow> keeps R (case v of JObj d \<Rightarrow> f d | _ \<Rightarrow> k)"
  "(\<And>xs. v = JArr xs \<Longrightarrow> keeps R (g xs)) \<Longrightarrow> keeps R k \<Longrightarrow> keeps R (case v of JArr xs \<Rightarrow> g xs | _ \<Rightarrow> k)"
  by (cases v; simp)+

lemma keeps_case_sum: "(\<And>e. x = Inl e \<Longrightarrow> keeps R (f e)) \<Longrightarrow> (\<And>y. x = Inr y \<Longrightarrow> keeps R (g y)) \<Longrightarrow> keeps R (case x of Inl e \<Rightarrow> f e | Inr y \<Rightarrow> g y)"
  by (cases x) auto

context looking_relation
begin

lemma keeps_state_dict: "keeps R (state_dict E k)"
  unfolding state_dict_def by (intro looking_intros keeps_case_json)

lemma keeps_fetch_device_keys: "keeps R (fetch_device_keys E d)"
  unfolding fetch_device_keys_def download_device_keys_def by (intro looking_intros keeps_case_sum keeps_modify R_keys)

lemma keeps_devices: "keeps R (sibling_devices E i f)" "keeps R (device_by_id E dev f)" "keeps R (locate_device E dev)"
proof -
  show s: "keeps R (sibling_devices E i f)" for i f unfolding sibling_devices_def by (intro looking_intros)
  show d: "keeps R (device_by_id E dev f)" for f unfolding device_by_id_def by (intro looking_intros s)
  show "keeps R (locate_device E dev)" unfolding locate_device_def by (intro looking_intros d)
qed

lemma keeps_lookups:
  "keeps R (approvals E)" "keeps R (approved_devices E)" "keeps R (pending_requests E)" "keeps R (requested_from E)" "keeps R (iter_status E)"
  "keeps R (mirror_targets E)"
proof -
  show a: "keeps R (approvals E)" unfolding approvals_def by (rule keeps_state_dict)
  show "keeps R (approved_devices E)" unfolding approved_devices_def by (intro looking_intros a)
  show "keeps R (pending_requests E)" unfolding pending_requests_def by (intro looking_intros keeps_state_dict keeps_devices a)
  show r: "keeps R (requested_from E)" unfolding requested_from_def by (rule keeps_state_dict)
  show "keeps R (iter_status E)"
    unfolding iter_status_def sibling_row_def by (intro looking_intros keeps_state_dict a r keeps_devices keeps_fetch_device_keys)
  show "keeps R (mirror_targets E)" unfolding mirror_targets_def by (intro looking_intros keeps_devices a)
qed

lemma keeps_transfer: "keeps R (new_transfer_id E)" "keeps R (build_items E since til budget)" "keeps R (sealed_record E kind pt sa sender sdev tr seq extra)"
  unfolding new_transfer_id_def build_items_def sealed_record_def by (intro looking_intros)+

lemma keeps_ask: "keeps R (ask_store f)"
  unfolding ask_store_def by (rule keeps_pure)

lemmas sync_looking_intros = looking_intros keeps_state_dict keeps_fetch_device_keys keeps_devices keeps_lookups keeps_transfer keeps_ask

text \<open>Operations that write the table of local state, for a relation that the writing of their own key keeps.\<close>

lemma keeps_device_keys_if: "(\<And>v. keeps R (state_set E DEVICE_KEYS_STATE v)) \<Longrightarrow> keeps R (ensure_device_keys E)"
  unfolding ensure_device_keys_def by (intro looking_intros)

lemma keeps_mark_seen_if: "(\<And>v. keeps R (state_set E SEEN_STATE v)) \<Longrightarrow> keeps R (mark_seen E tr)"
  unfolding mark_seen_def by (intro looking_intros keeps_case_json)

lemma keeps_requests_if: "(\<And>v. keeps R (state_set E REQUESTS_STATE v)) \<Longrightarrow> keeps R (incoming_request E dev tr since)"
  unfolding incoming_request_def by (intro looking_intros keeps_state_dict)

lemma keeps_incoming_if:
  assumes "\<And>v. keeps R (state_set E INCOMING_STATE v)"
  shows "keeps R (handle_offer E dev tr offer)" "keeps R (handle_complete E dev complete)"
  unfolding handle_offer_def handle_complete_def by (intro looking_intros keeps_state_dict keeps_modify R_index assms)+

end

context requesting_relation
begin

lemma keeps_publish_device_keys_if:
  assumes "\<And>v. keeps R (state_set E DEVICE_KEYS_STATE v)"
  shows "keeps R (publish_device_keys E)"
proof -
  have "keeps R (device_keys_record E)" unfolding device_keys_record_def by (intro requesting_intros keeps_device_keys_if assms)
  then show ?thesis unfolding publish_device_keys_def by (intro requesting_intros)
qed

end

context reading_relation
begin

lemma keeps_device_keys: "keeps R (ensure_device_keys E)" "keeps R (device_keys_record E)"
proof -
  show *: "keeps R (ensure_device_keys E)" by (rule keeps_device_keys_if) (rule keeps_state_set)
  show "keeps R (device_keys_record E)" unfolding device_keys_record_def by (intro reading_intros *)
qed

lemma keeps_approvals:
  "keeps R (mark_approved E dev tr since til)" "keeps R (revoke_approval E dev)"
  "keeps R (mark_seen E tr)" "keeps R (incoming_request E dev tr since)" "keeps R (deny_device E dev)"
proof -
  show "keeps R (mark_approved E dev tr since til)" unfolding mark_approved_def by (intro reading_intros keeps_lookups)
  show "keeps R (revoke_approval E dev)" unfolding revoke_approval_def by (intro reading_intros keeps_lookups)
  show "keeps R (mark_seen E tr)" by (rule keeps_mark_seen_if) (rule keeps_state_set)
  show "keeps R (incoming_request E dev tr since)" by (rule keeps_requests_if) (rule keeps_state_set)
  show "keeps R (deny_device E dev)" unfolding deny_device_def by (intro reading_intros keeps_state_dict)
qed

lemma keeps_incoming: "keeps R (handle_offer E dev tr offer)" "keeps R (handle_complete E dev complete)"
  by (rule keeps_incoming_if, rule keeps_state_set)+

lemmas sync_reading_intros = sync_looking_intros keeps_state_set keeps_device_keys keeps_approvals keeps_incoming

end

text \<open>\<dots> and that merging history keeps.\<close>

locale merging_relation = reading_relation +
  assumes R_merge_contacts: "R c (c\<lparr>c_store := snd (merge_contacts now iid items cs (c_store c))\<rparr>)"
    and R_merge_messages: "R c (c\<lparr>c_store := snd (merge_messages C iid rnd items known cs (c_store c))\<rparr>)"
    and R_merge_chunks: "R c (c\<lparr>c_store := snd (merge_chunks now items cs (c_store c))\<rparr>)"
    and R_update: "R c (c\<lparr>c_store := snd (update_message mid fs (c_store c))\<rparr>)"
begin

lemma keeps_merges:
  "keeps R (on_store (merge_contacts now iid items cs))" "keeps R (on_store (merge_messages C iid rnd items known cs))"
  "keeps R (on_store (merge_chunks now items cs))" "keeps R (on_store (update_message mid fs))"
  by (rule keepsI, simp add: on_store_def split_beta Let_def R_merge_contacts R_merge_messages R_merge_chunks R_update)+

lemma keeps_merge_item: "keeps R (merge_item E item)"
  unfolding merge_item_def Let_def by (intro sync_reading_intros keeps_merges keeps_modify R_index)

lemma keeps_apply_item: "keeps R (apply_item E dev tr pt seq)"
  unfolding apply_item_def Let_def by (intro sync_reading_intros keeps_merge_item)

lemma keeps_apply_mirror: "keeps R (apply_mirror E item)"
  unfolding apply_mirror_def apply_state_change_def Let_def by (intro sync_reading_intros keeps_merges)

lemma keeps_handle_record: "keeps R (handle_record E blob)"
  unfolding handle_record_def open_incoming_def dispatch_record_def Let_def by (intro sync_reading_intros keeps_apply_item keeps_apply_mirror)

end

context writing_relation
begin

lemma keeps_publish_device_keys: "keeps R (publish_device_keys E)"
  by (rule keeps_publish_device_keys_if) (rule keeps_state_set)

lemma keeps_write_record: "keeps R (write_record E d kind pt tr seq extra)"
  unfolding write_record_def by (intro sync_reading_intros keeps_backend)

lemma keeps_request_history: "keeps R (request_history E since budget)"
  unfolding request_history_def try_write_def Let_def by (intro sync_reading_intros keeps_write_record)

lemma keeps_send_items: "keeps R (send_items E d tr i items chain)"
  by (induction items arbitrary: i chain) (auto intro!: sync_reading_intros keeps_write_record)

lemma keeps_approve_device: "keeps R (approve_device E dev since budget)"
  unfolding approve_device_def approve_located_def send_history_def Let_def by (intro sync_reading_intros keeps_write_record keeps_send_items)

lemma keeps_mirror: "keeps R (mirror_message E cid m)" "keeps R (mirror_state E cid m)"
  unfolding mirror_message_def mirror_state_def mirror_to_def try_write_def Let_def
  by (intro sync_reading_intros keeps_write_record)+

end

subsection \<open>Receiving a record sends nothing\<close>

interpretation gets_merging: merging_relation "\<lambda>c c'. via (e_request E) is_get (c_world c) (c_world c')" E for E
  by unfold_locales (simp_all add: via_refl)

text \<open>Whatever record arrives from another device, handling it makes \<open>GET\<close> requests only.  A request for history is noted and never
  answered by itself; nothing leaves the device without a call of \<open>approve_device\<close>.\<close>

theorem records_send_nothing: "via (e_request E) is_get (c_world c) (c_world (snd (handle_record E blob c)))"
  using gets_merging.keeps_handle_record [of E blob] by (simp add: keeps_def)

subsection \<open>Approvals\<close>

definition approval_doc :: "'w env \<Rightarrow> 'w client \<Rightarrow> json" where
  "approval_doc E c = get_state (account E c) APPROVALS_STATE JNull (c_store c)"

definition approved :: "'w env \<Rightarrow> 'w client \<Rightarrow> string set" where
  "approved E c = (case approval_doc E c of JObj d \<Rightarrow> fst ` set d | _ \<Rightarrow> {})"

definition same_approvals :: "'w env \<Rightarrow> 'w client \<Rightarrow> 'w client \<Rightarrow> bool" where
  "same_approvals E c c' \<longleftrightarrow> c_identity c' = c_identity c \<and> approval_doc E c' = approval_doc E c"

lemma get_set_state:
  "get_state iid k d (snd (set_state iid' k' v s)) = (if iid = iid' \<and> k = k' then v else get_state iid k d s)"
  by (simp add: get_state_def set_state_def modifyS_def state_table.lookup_upsert state_key_def split: option.split)

lemma same_approvals_store:
  "s_state s = s_state (c_store c) \<Longrightarrow> same_approvals E c (c\<lparr>c_store := s\<rparr>)"
  by (simp add: same_approvals_def approval_doc_def account_def get_state_def)

interpretation approvals_kept: looking_relation "same_approvals E" E for E
  by unfold_locales (auto simp: same_approvals_def approval_doc_def account_def)

lemma same_approvals_set: "k \<noteq> APPROVALS_STATE \<Longrightarrow> keeps (same_approvals E) (state_set E k v)"
  unfolding state_set_def
  by (intro approvals_kept.keeps_intros keepsI)
    (auto simp: same_approvals_def approval_doc_def account_def on_store_def split_beta Let_def get_set_state)

interpretation state_kept: method_relation "\<lambda>s s'. s_state s' = s_state s"
  by unfold_locales auto

lemma merges_keep_state:
  "keeps (\<lambda>s s'. s_state s' = s_state s) (merge_contacts now iid items cs)"
  "keeps (\<lambda>s s'. s_state s' = s_state s) (merge_messages C iid rnd items known cs)"
  "keeps (\<lambda>s s'. s_state s' = s_state s) (merge_chunks now items cs)"
  "keeps (\<lambda>s s'. s_state s' = s_state s) (update_message mid fs)"
proof -
  have u: "keeps (\<lambda>s s'. s_state s' = s_state s) (update_message mid fs)" for mid fs
    unfolding update_message_def by (intro state_kept.keeps_intros keepsI) simp
  then show "keeps (\<lambda>s s'. s_state s' = s_state s) (update_message mid fs)" .
  have c: "keeps (\<lambda>s s'. s_state s' = s_state s) (merge_contact now iid item)" for item
    unfolding merge_contact_def upsert_contact_def Let_def by (intro state_kept.keeps_intros keeps_modify) simp
  show "keeps (\<lambda>s s'. s_state s' = s_state s) (merge_contacts now iid items cs)"
    by (induction items arbitrary: cs) (auto intro!: state_kept.keeps_intros c)
  have m: "keeps (\<lambda>s s'. s_state s' = s_state s) (merge_message C iid r item known cs)" for r item known cs
    unfolding merge_message_def update_known_def add_item_def add_message_def by (intro state_kept.keeps_intros keeps_modify u) simp
  show "keeps (\<lambda>s s'. s_state s' = s_state s) (merge_messages C iid rnd items known cs)"
    by (induction items arbitrary: rnd known cs) (auto intro!: state_kept.keeps_intros m)
  have k: "keeps (\<lambda>s s'. s_state s' = s_state s) (merge_chunk now item cs)" for item cs
    unfolding merge_chunk_def put_local_blob_def Let_def
    by (intro state_kept.keeps_intros keeps_modify keepsI) (simp_all add: prune_local_blobs_def split_beta Let_def)
  show "keeps (\<lambda>s s'. s_state s' = s_state s) (merge_chunks now items cs)"
    by (induction items arbitrary: cs) (auto intro!: state_kept.keeps_intros k)
qed

lemma keeps_on_store:
  fixes E :: "'w env"
  assumes "keeps (\<lambda>s s'. s_state s' = s_state s) m"
  shows "keeps (same_approvals E) (on_store m)"
proof (rule keepsI)
  fix c :: "'w client"
  have "s_state (snd (m (c_store c))) = s_state (c_store c)" using assms by (simp add: keeps_def)
  then show "same_approvals E c (snd (on_store m c))" by (simp add: on_store_def split_beta Let_def same_approvals_store)
qed

lemma approvals_kept_elsewhere:
  "keeps (same_approvals E) (ensure_device_keys E)" "keeps (same_approvals E) (mark_seen E tr)"
  "keeps (same_approvals E) (incoming_request E dev tr since)" "keeps (same_approvals E) (handle_offer E dev tr offer)"
  "keeps (same_approvals E) (handle_complete E dev complete)" "keeps (same_approvals E) (apply_item E dev tr pt seq)"
  "keeps (same_approvals E) (apply_mirror E item)"
proof -
  have k: "DEVICE_KEYS_STATE \<noteq> APPROVALS_STATE" "SEEN_STATE \<noteq> APPROVALS_STATE" "REQUESTS_STATE \<noteq> APPROVALS_STATE" "INCOMING_STATE \<noteq> APPROVALS_STATE"
    by (simp_all add: DEVICE_KEYS_STATE_def SEEN_STATE_def REQUESTS_STATE_def INCOMING_STATE_def APPROVALS_STATE_def)
  show "keeps (same_approvals E) (ensure_device_keys E)" by (rule approvals_kept.keeps_device_keys_if) (rule same_approvals_set [OF k(1)])
  show "keeps (same_approvals E) (mark_seen E tr)" by (rule approvals_kept.keeps_mark_seen_if) (rule same_approvals_set [OF k(2)])
  show "keeps (same_approvals E) (incoming_request E dev tr since)" by (rule approvals_kept.keeps_requests_if) (rule same_approvals_set [OF k(3)])
  show "keeps (same_approvals E) (handle_offer E dev tr offer)" "keeps (same_approvals E) (handle_complete E dev complete)"
    by (rule approvals_kept.keeps_incoming_if, rule same_approvals_set [OF k(4)])+
  have ix: "keeps (same_approvals E) (modifyS (\<lambda>c. c\<lparr>c_sync_message_index := i\<rparr>))" for i
    by (rule keeps_modify) (rule approvals_kept.R_index)
  have "keeps (same_approvals E) (merge_item E item)" for item
    unfolding merge_item_def Let_def by (intro approvals_kept.sync_looking_intros keeps_on_store merges_keep_state ix)
  then show "keeps (same_approvals E) (apply_item E dev tr pt seq)"
    unfolding apply_item_def Let_def by (intro approvals_kept.sync_looking_intros same_approvals_set [OF k(4)])
  show "keeps (same_approvals E) (apply_mirror E item)"
    unfolding apply_mirror_def apply_state_change_def Let_def by (intro approvals_kept.sync_looking_intros keeps_on_store merges_keep_state)
qed

lemma approved_same: "same_approvals E c c' \<Longrightarrow> approved E c' = approved E c"
  by (simp add: same_approvals_def approved_def)

lemma approvals_read: "approvals E c = (Inr d, c') \<Longrightarrow> c' = c \<and> fst ` set d = approved E c"
  by (auto simp: approvals_def state_dict_def state_get_def approved_def approval_doc_def meth_defs split: json.splits if_splits)

lemma approved_set:
  "approved E (snd (state_set E APPROVALS_STATE (JObj d) c)) = fst ` set d"
  by (simp add: state_set_def approved_def approval_doc_def account_def on_store_def meth_defs split_beta Let_def get_set_state)

lemma approved_reads: "approved E (c\<lparr>c_reads := n\<rparr>) = approved E c"
  by (simp add: approved_def approval_doc_def account_def)

lemma mark_approved_adds: "approved E (snd (mark_approved E dev tr since til c)) \<subseteq> insert dev (approved E c)"
proof (cases "approvals E c")
  case (Pair r c')
  show ?thesis
  proof (cases r)
    case (Inl e)
    then have "same_approvals E c c'" using approvals_kept.keeps_lookups(1) Pair keepsD by metis
    then show ?thesis using Inl Pair approved_same by (simp add: mark_approved_def bindS_def) blast
  next
    case (Inr d)
    then have c: "c' = c" "fst ` set d = approved E c" using approvals_read Pair by metis+
    have k: "fst ` set (AList.update dev v d) = insert dev (approved E c)" for v
      using c(2) by (simp add: dom_map_of_conv_image_fst [symmetric] update_conv' dom_def) (auto simp: dom_map_of_conv_image_fst [symmetric] update_conv')
    show ?thesis using Pair Inr c
      by (auto simp: mark_approved_def meth_defs now_ms_def readE_def approved_reads k approved_set [unfolded meth_defs] split: sum.splits)
  qed
qed

lemma open_incoming_result:
  assumes "open_incoming E blob c = (Inr (dev, kind, hdr, pt), c')"
  shows "\<exists>d c1 k c2 keys. locate_device E dev c = (Inr (Some d), c1) \<and> fetch_device_keys E d c1 = (Inr (Some k), c2)
    \<and> ensure_device_keys E c2 = (Inr keys, c') \<and> open_record (e_crypto E) blob (ds_sagree keys) (dk_sdev k) dev = Inr (kind, hdr, pt)"
  using assms unfolding open_incoming_def Let_def
  by (auto simp: liftS_def raiseS_def returnS_def elim!: bindS_InrE split: prod.splits option.splits)

lemma approvals_kept_opening: "keeps (same_approvals E) (open_incoming E blob)"
  unfolding open_incoming_def Let_def by (intro approvals_kept.sync_looking_intros approvals_kept_elsewhere)

lemma dispatch_approvals:
  "kind \<noteq> APPROVAL \<Longrightarrow> keeps (same_approvals E) (dispatch_record E dev kind hdr pt)"
  unfolding dispatch_record_def Let_def by (intro approvals_kept.sync_looking_intros approvals_kept_elsewhere) simp

lemma dispatch_approval_adds: "approved E (snd (dispatch_record E dev APPROVAL hdr pt c)) \<subseteq> insert dev (approved E c)"
proof -
  let ?tr = "str_or (dget hdr ''transfer'')"
  have ms: "approved E c1 = approved E c" if "mark_seen E ?tr c = (r, c1)" for r c1
    using keepsD [OF approvals_kept_elsewhere(2) that] by (rule approved_same)
  have "APPROVAL \<noteq> REQUEST" by (simp add: APPROVAL_def REQUEST_def)
  then show ?thesis
    using ms mark_approved_adds [of E dev ?tr "dget hdr ''since''" "dget hdr ''until''" "snd (mark_seen E ?tr c)"]
    by (cases "mark_seen E ?tr c"; cases "mark_approved E dev ?tr (dget hdr ''since'') (dget hdr ''until'') (snd (mark_seen E ?tr c))")
      (auto simp: dispatch_record_def Let_def bindS_def thenS_def returnS_def split: sum.splits prod.splits)
qed

lemma approvals_grow:
  assumes "x \<in> approved E (snd (handle_record E blob c))" "x \<notin> approved E c"
  shows "\<exists>hdr pt c'. open_incoming E blob c = (Inr (x, APPROVAL, hdr, pt), c')"
proof -
  have "\<not> same_approvals E c (snd (handle_record E blob c))" using assms approved_same by metis
  then obtain r c' where o: "open_incoming E blob c = (Inr r, c')" "same_approvals E c c'"
    and b: "\<not> same_approvals E c' (snd ((case r of (dev, kind, hdr, pt) \<Rightarrow> dispatch_record E dev kind hdr pt) c'))"
    unfolding handle_record_def by (rule approvals_kept.break_bind) (rule approvals_kept_opening)
  obtain dev kind hdr pt where r: "r = (dev, kind, hdr, pt)" by (rule prod_cases4)
  have kind: "kind = APPROVAL" using b dispatch_approvals r unfolding keeps_def by (metis prod.case)
  have "snd (handle_record E blob c) = snd (dispatch_record E dev APPROVAL hdr pt c')"
    using o r kind by (simp add: handle_record_def bindS_def)
  then have "x = dev" using assms dispatch_approval_adds [of E dev hdr pt c'] approved_same [OF o(2)] by auto
  then show ?thesis using o r kind by blast
qed

text \<open>C17: a device that appears among the approved devices while a record is handled is the sender of that record: a device of the account's own signed
  list, whose published keys signed the record, and the record is an approval.\<close>

theorem approval_by_record:
  "approved E (snd (handle_record E blob c)) \<subseteq> approved E c
     \<union> {x. \<exists>d c1 k c2 keys c3 hdr pt. locate_device E x c = (Inr (Some d), c1) \<and> fetch_device_keys E d c1 = (Inr (Some k), c2)
         \<and> ensure_device_keys E c2 = (Inr keys, c3) \<and> open_record (e_crypto E) blob (ds_sagree keys) (dk_sdev k) x = Inr (APPROVAL, hdr, pt)}"
proof
  fix x
  assume x: "x \<in> approved E (snd (handle_record E blob c))"
  show "x \<in> approved E c \<union> {x. \<exists>d c1 k c2 keys c3 hdr pt. locate_device E x c = (Inr (Some d), c1) \<and> fetch_device_keys E d c1 = (Inr (Some k), c2)
         \<and> ensure_device_keys E c2 = (Inr keys, c3) \<and> open_record (e_crypto E) blob (ds_sagree keys) (dk_sdev k) x = Inr (APPROVAL, hdr, pt)}"
  proof (cases "x \<in> approved E c")
    case False
    then obtain hdr pt c' where "open_incoming E blob c = (Inr (x, APPROVAL, hdr, pt), c')" using approvals_grow [OF x] by blast
    from open_incoming_result [OF this] show ?thesis by blast
  qed simp
qed

subsection \<open>Mirrors go to approved devices\<close>

lemma sibling_devices_result:
  assumes "sibling_devices E False fresh c = (Inr ds, c')"
  shows "\<forall>d \<in> set ds. Some (entry_device_id d) \<noteq> c_device_id c'"
  using assms unfolding sibling_devices_def by (auto simp: getS_def elim!: bindS_InrE)

lemma mirror_targets_result:
  assumes "mirror_targets E c = (Inr ds, c')" "d \<in> set ds"
  shows "entry_device_id d \<in> approved E c \<and> Some (entry_device_id d) \<noteq> c_device_id c'"
proof -
  from assms(1) obtain all c1 where s: "sibling_devices E False False c = (Inr all, c1)"
    and r: "(if all = [] then returnS [] else bindS (approvals E) (\<lambda>a. returnS (filter (\<lambda>d. map_of a (entry_device_id d) \<noteq> None) all))) c1 = (Inr ds, c')"
    unfolding mirror_targets_def by (rule bindS_InrE)
  have "all \<noteq> []" using r assms(2) by (auto simp: returnS_def)
  with r obtain a c2 where a: "approvals E c1 = (Inr a, c2)" and ds: "ds = filter (\<lambda>d. map_of a (entry_device_id d) \<noteq> None) all" "c' = c2"
    by (auto simp: returnS_def elim!: bindS_InrE)
  have "c2 = c1" "fst ` set a = approved E c1" using approvals_read [OF a] by auto
  moreover have "approved E c1 = approved E c" using keepsD [OF approvals_kept.keeps_devices(1) s] by (rule approved_same)
  ultimately show ?thesis using ds assms(2) sibling_devices_result [OF s] by (auto simp: map_of_eq_None_iff)
qed

text \<open>A record for one device is posted to the mailbox of that device.\<close>

lemma posts_write_record:
  assumes "d \<in> D"
  shows "keeps (\<lambda>c c'. via (e_request E) (only_to D) (c_world c) (c_world c')) (write_record E d kind pt tr seq extra)"
proof -
  let ?R = "\<lambda>c c'. via (e_request E) (only_to D) (c_world c) (c_world c')"
  have "keeps ?R (bindS (liftS (device_capability d)) (\<lambda>cap. thenS (backend_put E pool cap blob) (returnS blob)))" for pool blob
  proof (cases "device_capability d")
    case (Inl e)
    then show ?thesis by (intro keepsI) (simp add: meth_defs via_refl)
  next
    case (Inr cap)
    have "keeps ?R (thenS (backend_put E pool cap blob) (returnS blob))"
      by (intro posts.keeps_intros posts_put [OF assms Inr])
    moreover have "bindS (liftS (device_capability d)) (\<lambda>cap. thenS (backend_put E pool cap blob) (returnS blob)) = thenS (backend_put E pool cap blob) (returnS blob)"
      by (rule ext) (simp add: Inr bindS_def liftS_def)
    ultimately show ?thesis by simp
  qed
  note put = this
  show ?thesis
    unfolding write_record_def
    by (rule posts.keeps_bind, rule posts.keeps_device_keys, rule posts.keeps_bind, rule posts.keeps_fetch_device_keys, rule keeps_case_option,
        rule posts.keeps_pure, rule posts.keeps_bind, rule posts.keeps_pure, rule posts.keeps_bind, rule posts.keeps_transfer,
        rule posts.keeps_bind, rule posts.keeps_backend_for, rule put)
qed

lemma posts_mirror_to:
  assumes "set ds \<subseteq> D"
  shows "keeps (\<lambda>c c'. via (e_request E) (only_to D) (c_world c) (c_world c')) (mirror_to E raw ds)"
  unfolding mirror_to_def try_write_def
  by (intro posts.sync_reading_intros posts_write_record) (use assms in blast)

definition approved_entries :: "'w env \<Rightarrow> 'w client \<Rightarrow> device_entry set" where
  "approved_entries E c = {d. entry_device_id d \<in> approved E c}"

lemma posts_after_targets:
  assumes "\<And>ds. set ds \<subseteq> approved_entries E c \<Longrightarrow> keeps (\<lambda>a b. via (e_request E) (only_to (approved_entries E c)) (c_world a) (c_world b)) (f ds)"
  shows "via (e_request E) (only_to (approved_entries E c)) (c_world c) (c_world (snd (bindS (mirror_targets E) f c)))"
proof (cases "mirror_targets E c")
  case (Pair r c1)
  have g: "via (e_request E) (only_to (approved_entries E c)) (c_world c) (c_world c1)"
    using keepsD [OF posts.keeps_lookups(6) Pair] .
  show ?thesis
  proof (cases r)
    case (Inl e)
    then show ?thesis using Pair g by (simp add: bindS_def)
  next
    case (Inr ds)
    then have "set ds \<subseteq> approved_entries E c" using mirror_targets_result [of E c ds c1] Pair by (auto simp: approved_entries_def)
    then have "keeps (\<lambda>a b. via (e_request E) (only_to (approved_entries E c)) (c_world a) (c_world b)) (f ds)" by (rule assms)
    then have "via (e_request E) (only_to (approved_entries E c)) (c_world c1) (c_world (snd (f ds c1)))" by (simp add: keeps_def)
    from via_trans [OF this g] show ?thesis using Pair Inr by (simp add: bindS_def)
  qed
qed


text \<open>Approving a device posts records to the mailbox of that device only.\<close>

lemma located: "locate_device E dev c = (Inr (Some d), c') \<Longrightarrow> entry_device_id d = dev"
  unfolding locate_device_def device_by_id_def
  by (auto simp: returnS_def dest!: find_SomeD elim!: bindS_InrE split: option.splits)

lemma posts_send_items:
  "d \<in> D \<Longrightarrow> keeps (\<lambda>c c'. via (e_request E) (only_to D) (c_world c) (c_world c')) (send_items E d tr i items chain)"
  by (induction items arbitrary: i chain) (auto intro!: posts.sync_reading_intros posts_write_record)

lemma posts_send_history:
  "d \<in> D \<Longrightarrow> keeps (\<lambda>c c'. via (e_request E) (only_to D) (c_world c) (c_world c')) (send_history E d since til budget tr)"
  unfolding send_history_def Let_def by (intro posts.sync_reading_intros posts_write_record posts_send_items)


subsection \<open>A transfer that arrives is recognised as complete\<close>

fun chain_all :: "crypto \<Rightarrow> bytes \<Rightarrow> int \<Rightarrow> bytes list \<Rightarrow> bytes res" where
  "chain_all C digest i [] = Inr digest"
| "chain_all C digest i (raw # raws) = bindE (chain_add C raw i digest) (\<lambda>d. chain_all C d (i + 1) raws)"

text \<open>The items of a transfer, in order, as \<open>handle_record\<close> passes them on.\<close>

fun receive_items :: "'w env \<Rightarrow> string \<Rightarrow> string \<Rightarrow> int \<Rightarrow> bytes list \<Rightarrow> ('w, unit) cmeth" where
  "receive_items E dev tr i [] = returnS ()"
| "receive_items E dev tr i (raw # raws) = thenS (apply_item E dev tr raw i) (receive_items E dev tr (i + 1) raws)"

definition incoming_doc :: "'w env \<Rightarrow> 'w client \<Rightarrow> json" where
  "incoming_doc E c = get_state (account E c) INCOMING_STATE JNull (c_store c)"

text \<open>What the table of incoming transfers says about a device.\<close>

definition progress :: "'w env \<Rightarrow> 'w client \<Rightarrow> string \<Rightarrow> int \<Rightarrow> string \<Rightarrow> bool" where
  "progress E c dev received chain \<longleftrightarrow> (\<exists>st entry. incoming_doc E c = JObj st \<and> map_of st dev = Some (JObj entry) \<and> entry \<noteq> []
     \<and> int_or (dget entry ''received'') 0 = Inr received \<and> str_or (dget entry ''chain'') = chain)"

definition same_incoming :: "'w env \<Rightarrow> 'w client \<Rightarrow> 'w client \<Rightarrow> bool" where
  "same_incoming E c c' \<longleftrightarrow> c_identity c' = c_identity c \<and> incoming_doc E c' = incoming_doc E c"

interpretation incoming_kept: looking_relation "same_incoming E" E for E
  by unfold_locales (auto simp: same_incoming_def incoming_doc_def account_def)

lemma same_incoming_store:
  fixes E :: "'w env"
  assumes "keeps (\<lambda>s s'. s_state s' = s_state s) m"
  shows "keeps (same_incoming E) (on_store m)"
proof (rule keepsI)
  fix c :: "'w client"
  have "s_state (snd (m (c_store c))) = s_state (c_store c)" using assms by (simp add: keeps_def)
  then show "same_incoming E c (snd (on_store m c))"
    by (simp add: on_store_def split_beta Let_def same_incoming_def incoming_doc_def account_def get_state_def)
qed

lemma merge_item_incoming: "keeps (same_incoming E) (merge_item E item)"
proof -
  have ix: "keeps (same_incoming E) (modifyS (\<lambda>c. c\<lparr>c_sync_message_index := i\<rparr>))" for i
    by (rule keeps_modify) (rule incoming_kept.R_index)
  show ?thesis unfolding merge_item_def Let_def by (intro incoming_kept.sync_looking_intros same_incoming_store merges_keep_state ix)
qed

lemma set_incoming: "incoming_doc E (snd (state_set E INCOMING_STATE v c)) = v" "fst (state_set E INCOMING_STATE v c) = Inr ()"
  by (simp_all add: state_set_def incoming_doc_def account_def on_store_def meth_defs split_beta Let_def get_set_state)
    (simp add: set_state_def modifyS_def)

lemma state_dict_incoming:
  "state_dict E INCOMING_STATE c = (Inr st, c') \<Longrightarrow> c' = c \<and> (incoming_doc E c = JObj st \<or> st = [] \<and> \<not> truthy (incoming_doc E c))"
  by (auto simp: state_dict_def state_get_def incoming_doc_def meth_defs split: json.splits if_splits)

lemma write_incoming: "state_set E INCOMING_STATE v c = (r, c') \<Longrightarrow> incoming_doc E c' = v"
  using set_incoming(1) [of E v c] by simp

lemma dget_update [simp]: "dget (AList.update k v d) k' = (if k = k' then v else dget d k')"
  by (simp add: dget_def update_conv')

lemma update_not_Nil [simp]: "AList.update k v d \<noteq> []"
  by (cases d) auto

lemma int_or_JInt [simp]: "int_or (JInt n) 0 = Inr n"
  by (simp add: int_or_def py_or_def)

lemma str_or_JStr [simp]: "str_or (JStr s) = s"
  by (simp add: str_or_def)

lemma offer_progress:
  assumes "handle_offer E dev tr offer c = (Inr e, c')"
  shows "progress E c' dev 0 []"
proof -
  from assms obtain st n k c2 u where "state_set E INCOMING_STATE (JObj (AList.update dev
      (JObj [(''transfer'', JStr tr), (''received'', JInt 0), (''expected'', JInt n), (''skipped'', JInt k), (''chain'', JStr []), (''done'', JBool False)]) st))
      c2 = (Inr u, c')"
    unfolding handle_offer_def thenS_def by (elim bindS_InrE) (auto simp: returnS_def)
  from write_incoming [OF this] show ?thesis by (auto simp: progress_def update_conv' dget_def)
qed

lemma progress_entry:
  assumes "progress E c dev n ch" "state_dict E INCOMING_STATE c = (Inr st, c1)" "dget_dict st dev = Inr entry"
  shows "c1 = c \<and> entry \<noteq> [] \<and> int_or (dget entry ''received'') 0 = Inr n \<and> str_or (dget entry ''chain'') = ch"
  using assms state_dict_incoming [OF assms(2)] by (auto simp: progress_def dget_dict_def dget_def)

lemma item_progress:
  assumes p: "progress E c dev n ch" and a: "apply_item E dev tr raw i c = (Inr e, c')"
    and ch: "chain_start (e_crypto E) tr ch = Inr d0" "chain_add (e_crypto E) raw i d0 = Inr d1"
  shows "progress E c' dev (n + 1) (hexdigest d1)"
proof -
  define en where "en entry = (if entry = [] then fresh_entry tr else entry)" for entry
  from a obtain st c1 entry chain received expected c2 u where s: "state_dict E INCOMING_STATE c = (Inr st, c1)" "dget_dict st dev = Inr entry"
    and r: "bindE (chain_start (e_crypto E) tr (str_or (dget (en entry) ''chain''))) (chain_add (e_crypto E) raw i) = Inr chain"
      "int_or (dget (en entry) ''received'') 0 = Inr received"
    and w: "state_set E INCOMING_STATE (JObj (AList.update dev (JObj (dict_update (en entry)
        [(''transfer'', JStr tr), (''received'', JInt (received + 1)), (''expected'', JInt expected),
         (''chain'', JStr (hexdigest chain)), (''done'', JBool False)])) st)) c2 = (Inr u, c')"
    unfolding apply_item_def Let_def thenS_def en_def [symmetric] by (elim bindS_InrE) (auto simp: liftS_def returnS_def)
  have "entry \<noteq> []" "int_or (dget entry ''received'') 0 = Inr n" "str_or (dget entry ''chain'') = ch"
    using progress_entry [OF p s] by auto
  then have "chain = d1" "received = n" using r ch by (auto simp: en_def)
  then show ?thesis using write_incoming [OF w] by (auto simp: progress_def update_conv' dict_update_def)
qed

lemma items_progress:
  assumes "hash_lengths (e_crypto E)"
  shows "progress E c dev n ch \<Longrightarrow> receive_items E dev tr i raws c = (Inr u, c') \<Longrightarrow> chain_start (e_crypto E) tr ch = Inr d0
    \<Longrightarrow> chain_all (e_crypto E) d0 i raws = Inr d1 \<Longrightarrow> progress E c' dev (n + int (length raws)) (if raws = [] then ch else hexdigest d1)"
proof (induction raws arbitrary: c n ch i d0)
  case (Cons raw raws)
  from Cons.prems(4) obtain d where d: "chain_add (e_crypto E) raw i d0 = Inr d" "chain_all (e_crypto E) d (i + 1) raws = Inr d1" by (auto simp: res_simps)
  from Cons.prems(2) obtain e c1 where a: "apply_item E dev tr raw i c = (Inr e, c1)" and r: "receive_items E dev tr (i + 1) raws c1 = (Inr u, c')"
    by (auto simp: thenS_def elim!: bindS_InrE)
  have "length d = 32" using d(1) assms by (auto simp: chain_add_def res_simps hash_lengths_def)
  then have "d \<noteq> []" by auto
  then have "chain_start (e_crypto E) tr (hexdigest d) = Inr d" by (rule chain_resumes)
  note IH = Cons.IH [OF item_progress [OF Cons.prems(1) a Cons.prems(3) d(1)] r this d(2)]
  have n: "n + 1 + int (length raws) = n + int (length (raw # raws))" by simp
  show ?case using IH [unfolded n] d(2) by (metis chain_all.simps(1) list.distinct(1) sum.inject(2))
qed (simp add: returnS_def)

lemma complete_result:
  assumes "progress E c dev n ch" "dget cpl ''count'' = JInt m" "dget cpl ''chain'' = JStr h"
  shows "fst (handle_complete E dev cpl c) = Inr (if m \<le> n \<and> ch = h then Completed dev n else Incomplete dev n m)"
proof -
  obtain st entry where e: "incoming_doc E c = JObj st" "map_of st dev = Some (JObj entry)" "entry \<noteq> []"
    "int_or (dget entry ''received'') 0 = Inr n" "str_or (dget entry ''chain'') = ch" using assms(1) by (auto simp: progress_def)
  then have "st \<noteq> []" by auto
  then have "state_dict E INCOMING_STATE c = (Inr st, c)"
    using e(1) by (simp add: state_dict_def state_get_def incoming_doc_def meth_defs)
  moreover have "dget_dict st dev = Inr entry" using e by (simp add: dget_dict_def dget_def)
  moreover have "state_set E INCOMING_STATE v c = (Inr (), snd (state_set E INCOMING_STATE v c))" for v
    using set_incoming(2) [of E v c] by (metis prod.collapse)
  ultimately show ?thesis using e assms
    by (simp add: handle_complete_def Let_def bindS_def thenS_def liftS_def returnS_def) (auto simp: split_beta set_incoming(2))
qed

lemma transfer_outcome:
  assumes "hash_lengths (e_crypto E)" "handle_offer E dev tr offer c = (Inr e, c1)" "receive_items E dev tr 1 raws c1 = (Inr u, c2)"
    "chain_all (e_crypto E) (sha256 (e_crypto E) (str_encode tr)) 1 raws = Inr digest"
    "dget cpl ''count'' = JInt m" "dget cpl ''chain'' = JStr h"
  shows "fst (handle_complete E dev cpl c2) = Inr (if m \<le> int (length raws) \<and> (if raws = [] then [] else hexdigest digest) = h
     then Completed dev (int (length raws)) else Incomplete dev (int (length raws)) m)"
proof -
  have "chain_start (e_crypto E) tr [] = Inr (sha256 (e_crypto E) (str_encode tr))" by (simp add: chain_start_def)
  from items_progress [OF assms(1) offer_progress [OF assms(2)] assms(3) this assms(4)]
  have "progress E c2 dev (int (length raws)) (if raws = [] then [] else hexdigest digest)" by simp
  from complete_result [OF this assms(5,6)] show ?thesis .
qed

text \<open>C19: after an offer and the items of a transfer have been handled in order, the closing record is judged by the number of items and by the chain of
  digests over them: the transfer counts as complete exactly when enough items came and the chain is the one that the sender announces.  The chain of a
  transfer without items is empty at the receiver.\<close>

theorem history_transfer_outcome:
  assumes "hash_lengths (e_crypto E)" "handle_offer E dev tr offer c = (Inr e, c1)" "receive_items E dev tr 1 raws c1 = (Inr u, c2)"
    and "chain_all (e_crypto E) (sha256 (e_crypto E) (str_encode tr)) 1 raws = Inr digest"
    and "dget cpl ''count'' = JInt m" "dget cpl ''chain'' = JStr h"
  shows "fst (handle_complete E dev cpl c2) = Inr (if m \<le> int (length raws) \<and> (if raws = [] then [] else hexdigest digest) = h
     then Completed dev (int (length raws)) else Incomplete dev (int (length raws)) m)"
  by (rule transfer_outcome [OF assms])

text \<open>An account with the toy primitives, no network and an empty store.\<close>

definition sample_env :: "unit env" where
  "sample_env = \<lparr>e_crypto = toy, e_zlib = toy_zlib, e_request = (\<lambda>q w. (Inl TransportError, w)), e_random = (\<lambda>i n. replicate n (of_nat (i + 1))),
     e_choice = (\<lambda>_ _. 0), e_clock = int, e_order = (\<lambda>_ pool. pool), e_allow_private = False\<rparr>"

definition sample_client :: "unit client" where
  "sample_client = \<lparr>c_identity = sample_identity, c_store = initialize, c_relays = [''https://r.example''], c_backend = [''https://r.example''],
     c_peer_backends = [], c_name = ''me'', c_opk_count = 1, c_own_inbox = None, c_bundle_id = None, c_card = None, c_device_id = Some ''d0'',
     c_sibling_keys = [], c_device_list_cache = None, c_device_list_cache_ts = 0, c_sync_message_index = None, c_world = (), c_reads = 0\<rparr>"

definition sample_raw :: bytes where
  "sample_raw = canonical_json (JObj [(''kind'', JStr ''contact'')])"

lemma sample_loads: "loads_payload sample_raw = Inr [(''kind'', JStr ''contact'')]"
proof -
  have "json_ok (JObj [(''kind'', JStr ''contact'')])" by (simp add: json_ok_obj json_ok_atoms str_ok_ascii ascii_def)
  then have "loads_bytes sample_raw = Inr (jsort (JObj [(''kind'', JStr ''contact'')]))" unfolding sample_raw_def by (rule loads_canonical_json)
  then show ?thesis by (simp add: loads_payload_def)
qed

lemma sample_receive:
  "fst (handle_offer sample_env ''d1'' ''t'' [] sample_client) = Inr (Offered JNull ''d1'')"
  "fst (receive_items sample_env ''d1'' ''t'' 1 [sample_raw] (snd (handle_offer sample_env ''d1'' ''t'' [] sample_client))) = Inr ()"
proof -
  show "fst (handle_offer sample_env ''d1'' ''t'' [] sample_client) = Inr (Offered JNull ''d1'')"
    by (simp add: handle_offer_def state_dict_def state_get_def meth_defs sample_client_def initialize_def get_state_def lookup_def dget_dict_def dget_def
        int_or_def py_or_def state_set_def on_store_def set_state_def)
  show "fst (receive_items sample_env ''d1'' ''t'' 1 [sample_raw] (snd (handle_offer sample_env ''d1'' ''t'' [] sample_client))) = Inr ()"
    by (simp add: handle_offer_def state_dict_def state_get_def meth_defs sample_client_def initialize_def get_state_def lookup_def dget_dict_def dget_def
        int_or_def py_or_def state_set_def on_store_def set_state_def Let_def dict_update_def apply_item_def sample_loads merge_item_def
        upsert_def state_key_def account_def now_ms_def readE_def without_kind_def merge_contact_def str_or_def chain_start_def chain_add_def to_bytes4_def)
qed

lemma sample_chain: "\<exists>d. chain_all toy (sha256 toy (str_encode ''t'')) 1 [sample_raw] = Inr d"
  by (simp add: chain_add_def to_bytes4_def)

theorem history_transfer_outcome_witness:
  "\<exists>c2 digest. fst (handle_complete sample_env ''d1'' [(''count'', JInt 1), (''chain'', JStr (hexdigest digest))] c2) = Inr (Completed ''d1'' 1)"
proof -
  let ?o = "handle_offer sample_env ''d1'' ''t'' [] sample_client"
  let ?r = "receive_items sample_env ''d1'' ''t'' 1 [sample_raw] (snd ?o)"
  have o: "?o = (Inr (Offered JNull ''d1''), snd ?o)" using sample_receive(1) by (metis prod.collapse)
  have r: "?r = (Inr (), snd ?r)" using sample_receive(2) by (metis prod.collapse)
  have C: "e_crypto sample_env = toy" by (simp add: sample_env_def)
  obtain d where d: "chain_all toy (sha256 toy (str_encode ''t'')) 1 [sample_raw] = Inr d" using sample_chain by blast
  have "fst (handle_complete sample_env ''d1'' [(''count'', JInt 1), (''chain'', JStr (hexdigest d))] (snd ?r)) = Inr (Completed ''d1'' 1)"
    using history_transfer_outcome [of sample_env, unfolded C, OF toy_ok(1) o r d, of "[(''count'', JInt 1), (''chain'', JStr (hexdigest d))]" 1 "hexdigest d"]
    by (simp add: dget_def)
  then show ?thesis by blast
qed

text \<open>A transfer without items is always reported as incomplete: the sender announces the chain of its seed.\<close>

lemma empty_transfer_incomplete:
  assumes "hash_lengths (e_crypto E)" "handle_offer E dev tr offer c = (Inr e, c1)"
    and "dget cpl ''count'' = JInt 0" "dget cpl ''chain'' = JStr (hexdigest (sha256 (e_crypto E) (str_encode tr)))"
  shows "fst (handle_complete E dev cpl c1) = Inr (Incomplete dev 0 0)"
proof -
  have "length (sha256 (e_crypto E) (str_encode tr)) = 32" using assms(1) by (simp add: hash_lengths_def)
  then have "hexdigest (sha256 (e_crypto E) (str_encode tr)) \<noteq> []" by (cases "sha256 (e_crypto E) (str_encode tr)") (auto simp: hexdigest_def)
  then show ?thesis using transfer_outcome [OF assms(1,2), of "[]" "()" c1] assms(3,4) by (simp add: returnS_def)
qed

end
