(* ===== verification/Attachments.thy ===== *)
theory Attachments
  imports Crypto Json
begin

section \<open>Attachments\<close>

text \<open>
  \<^verbatim>\<open>core/attachments.py\<close>: a file is cut into chunks that are encrypted one by one under a fresh key; the manifest
  travels inside the message.  Key and nonces are arguments.  The theorem: from the manifest, also after it
  went through JSON, and the chunks in order, the recipient gets the file; a result always has the hash that
  the manifest announces.
\<close>

definition CHUNK_SIZE :: nat where "CHUNK_SIZE = 262144"
definition KEY_SIZE :: nat where "KEY_SIZE = 32"
definition MAX_FILE_SIZE :: nat where "MAX_FILE_SIZE = 26214400"

record encrypted_chunk =
  chunk_nonce :: bytes
  chunk_ciphertext :: bytes

record attachment =
  att_key :: bytes
  att_chunks :: "encrypted_chunk list"
  att_size :: nat
  att_sha256 :: string

text \<open>The number of values of \<open>range(0, max(len(data), 1), CHUNK_SIZE)\<close> and the slice at each.\<close>

definition chunk_count :: "bytes \<Rightarrow> nat" where
  "chunk_count data = (max (length data) 1 + CHUNK_SIZE - 1) div CHUNK_SIZE"

definition piece :: "bytes \<Rightarrow> nat \<Rightarrow> bytes" where
  "piece data k = take CHUNK_SIZE (drop (k * CHUNK_SIZE) data)"

definition encrypt_attachment :: "crypto \<Rightarrow> bytes \<Rightarrow> (nat \<Rightarrow> bytes) \<Rightarrow> bytes \<Rightarrow> attachment res" where
  "encrypt_attachment C key nonces data =
     (if length data > MAX_FILE_SIZE then Inl AttachmentError
      else bindE (mapE (\<lambda>k. bindE (aead_encrypt C (nonces k) key (piece data k) []) (\<lambda>(n, c).
                    Inr \<lparr>chunk_nonce = n, chunk_ciphertext = c\<rparr>)) [0..<chunk_count data]) (\<lambda>cs.
        Inr \<lparr>att_key = key, att_chunks = cs, att_size = length data, att_sha256 = hexdigest (sha256 C data)\<rparr>))"

definition decrypt_attachment :: "crypto \<Rightarrow> bytes \<Rightarrow> bytes list \<Rightarrow> bytes list \<Rightarrow> string \<Rightarrow> bytes res" where
  "decrypt_attachment C key nonces ciphertexts expected_sha256 =
     (if length nonces \<noteq> length ciphertexts then Inl AttachmentError
      else bindE (mapE (\<lambda>(n, c). aead_decrypt C key n c []) (zip nonces ciphertexts)) (\<lambda>pieces.
        let data = concat pieces in
        if hexdigest (sha256 C data) \<noteq> expected_sha256 then Inl AttachmentError else Inr data))"

definition manifest_dict :: "attachment \<Rightarrow> string list \<Rightarrow> dict res" where
  "manifest_dict a chunk_ids =
     (if length chunk_ids \<noteq> length (att_chunks a) then Inl AttachmentError
      else Inr [(''key'', JStr (b64e (att_key a))), (''size'', JInt (int (att_size a))), (''sha256'', JStr (att_sha256 a)),
                (''chunks'', JArr (map (\<lambda>(i, c). JObj [(''id'', JStr i), (''nonce'', JStr (b64e (chunk_nonce c)))])
                                      (zip chunk_ids (att_chunks a))))])"

definition decode_manifest :: "json \<Rightarrow> (bytes \<times> string list \<times> bytes list \<times> string) res" where
  "decode_manifest manifest =
     bindE (rethrow is_shape_error AttachmentError
       (bindE (bindE (getitem manifest ''key'') b64d_json) (\<lambda>key.
        bindE (bindE (getitem manifest ''size'') py_int) (\<lambda>size.
        bindE (getitem manifest ''sha256'') (\<lambda>sha.
        bindE (bindE (getitem manifest ''chunks'') (each (\<lambda>c. bindE (getitem c ''id'') (\<lambda>i. Inr (py_str i))))) (\<lambda>ids.
        bindE (bindE (getitem manifest ''chunks'') (each (\<lambda>c. bindE (getitem c ''nonce'') b64d_json))) (\<lambda>nonces.
        Inr (key, size, py_str sha, ids, nonces)))))))) (\<lambda>(key, size, sha, ids, nonces).
     if length key \<noteq> KEY_SIZE then Inl AttachmentError
     else if size > int MAX_FILE_SIZE then Inl AttachmentError
     else Inr (key, ids, nonces, sha))"

subsection \<open>Cutting and joining\<close>

lemma concat_slices:
  assumes "0 < n" "length data \<le> m * n"
  shows "concat (map (\<lambda>k. take n (drop (k * n) data)) [0..<m]) = data"
  using assms(2)
proof (induction m arbitrary: data)
  case (Suc m)
  have "map (\<lambda>k. take n (drop (k * n) data)) [0..<Suc m]
      = take n data # map (\<lambda>k. take n (drop (k * n) (drop n data))) [0..<m]"
    by (simp add: upt_conv_Cons map_Suc_upt [symmetric] o_def add.commute del: upt_Suc)
  then show ?case using Suc.IH [of "drop n data"] Suc.prems by simp
qed simp

lemma chunk_count_covers: "length data \<le> chunk_count data * CHUNK_SIZE"
  unfolding chunk_count_def CHUNK_SIZE_def by linarith

lemma concat_pieces: "concat (map (piece data) [0..<chunk_count data]) = data"
  using concat_slices [OF _ chunk_count_covers, of data] by (simp add: piece_def [abs_def] CHUNK_SIZE_def)

lemma chunk_count_bounds: "length data \<le> MAX_FILE_SIZE \<Longrightarrow> 1 \<le> chunk_count data \<and> chunk_count data \<le> 100"
  unfolding chunk_count_def CHUNK_SIZE_def MAX_FILE_SIZE_def by linarith

lemma encrypt_attachment_eq:
  assumes "length key = 32" "length data \<le> MAX_FILE_SIZE"
  shows "encrypt_attachment C key nonces data = Inr \<lparr>att_key = key,
     att_chunks = map (\<lambda>k. \<lparr>chunk_nonce = nonces k, chunk_ciphertext = chacha_seal C key (nonces k) (piece data k) []\<rparr>) [0..<chunk_count data],
     att_size = length data, att_sha256 = hexdigest (sha256 C data)\<rparr>"
proof -
  have "mapE (\<lambda>k. bindE (aead_encrypt C (nonces k) key (piece data k) []) (\<lambda>(n, c). Inr \<lparr>chunk_nonce = n, chunk_ciphertext = c\<rparr>)) [0..<chunk_count data]
      = Inr (map (\<lambda>k. \<lparr>chunk_nonce = nonces k, chunk_ciphertext = chacha_seal C key (nonces k) (piece data k) []\<rparr>) [0..<chunk_count data])"
    by (rule mapE_Inr_all) (simp add: aead_encrypt_Inr assms(1))
  then show ?thesis using assms(2) by (simp add: encrypt_attachment_def)
qed

lemma decrypt_chunks:
  assumes "aead_correct C" "length key = 32" "\<And>k. length (nonces k) = 12"
  shows "mapE (\<lambda>(n, c). aead_decrypt C key n c [])
      (zip (map nonces ks) (map (\<lambda>k. chacha_seal C key (nonces k) (piece data k) []) ks)) = Inr (map (piece data) ks)"
  using assms by (induction ks) (auto simp: aead_decrypt_def aead_correct_def)

lemma each_chunks:
  assumes "length ids = length cs"
  shows "each (\<lambda>c. bindE (getitem c ''id'') (\<lambda>i. Inr (py_str i))) (jsort (JArr (map (\<lambda>(i, c). JObj [(''id'', JStr i), (''nonce'', JStr (b64e (chunk_nonce c)))]) (zip ids cs)))) = Inr ids"
    "each (\<lambda>c. bindE (getitem c ''nonce'') b64d_json) (jsort (JArr (map (\<lambda>(i, c). JObj [(''id'', JStr i), (''nonce'', JStr (b64e (chunk_nonce c)))]) (zip ids cs)))) = Inr (map chunk_nonce cs)"
  using assms by (induction ids cs rule: list_induct2) (auto simp: each_def jsort_obj b64d_json_def)

text \<open>C36: an attachment arrives.  A file of at most 25 MiB encrypts, into at most 100 chunks; with one identifier per
  chunk the manifest, also after it has been through JSON, decodes to the key, the identifiers, the nonces and the
  hash, and with them the chunks decrypt to the file.  Whatever chunks and nonces are presented, data that
  decryption returns has the hash it was told to expect.\<close>

theorem attachment_roundtrip:
  assumes "aead_correct C" "length key = 32" "\<And>k. length (nonces k) = 12" "length data \<le> MAX_FILE_SIZE"
    and "length ids = chunk_count data"
  shows "\<exists>a m. encrypt_attachment C key nonces data = Inr a \<and> length (att_chunks a) \<le> 100
    \<and> manifest_dict a ids = Inr m
    \<and> decode_manifest (jsort (JObj m)) = Inr (key, ids, map chunk_nonce (att_chunks a), hexdigest (sha256 C data))
    \<and> decrypt_attachment C key (map chunk_nonce (att_chunks a)) (map chunk_ciphertext (att_chunks a)) (hexdigest (sha256 C data)) = Inr data
    \<and> (\<forall>ns cts h d. decrypt_attachment C key ns cts h = Inr d \<longrightarrow> hexdigest (sha256 C d) = h)"
proof -
  let ?cs = "map (\<lambda>k. \<lparr>chunk_nonce = nonces k, chunk_ciphertext = chacha_seal C key (nonces k) (piece data k) []\<rparr>) [0..<chunk_count data]"
  define a where "a = \<lparr>att_key = key, att_chunks = ?cs, att_size = length data, att_sha256 = hexdigest (sha256 C data)\<rparr>"
  have e: "encrypt_attachment C key nonces data = Inr a" unfolding a_def by (rule encrypt_attachment_eq [OF assms(2,4)])
  have n: "map chunk_nonce ?cs = map nonces [0..<chunk_count data]"
      "map chunk_ciphertext ?cs = map (\<lambda>k. chacha_seal C key (nonces k) (piece data k) []) [0..<chunk_count data]"
    by simp_all
  have l: "length ids = length ?cs" using assms(5) by simp
  obtain m where m: "manifest_dict a ids = Inr m"
      "m = [(''key'', JStr (b64e key)), (''size'', JInt (int (length data))), (''sha256'', JStr (hexdigest (sha256 C data))),
        (''chunks'', JArr (map (\<lambda>(i, c). JObj [(''id'', JStr i), (''nonce'', JStr (b64e (chunk_nonce c)))]) (zip ids ?cs)))]"
    using assms(5) by (simp add: manifest_dict_def a_def)
  have dm: "distinct (map fst m)" by (simp add: m(2))
  obtain d where d: "jsort (JObj m) = JObj d" "\<And>k. map_of d k = map_option jsort (map_of m k)"
    by (rule jsort_object [OF dm]) (rule that)
  have 1: "decode_manifest (JObj d) = Inr (key, ids, map chunk_nonce ?cs, hexdigest (sha256 C data))"
    using assms(2,4) each_chunks [OF l]
    by (simp add: decode_manifest_def d(2) m(2) b64d_json_def KEY_SIZE_def del: jsort.simps(1) map_map)
  have 2: "decrypt_attachment C key (map chunk_nonce ?cs) (map chunk_ciphertext ?cs) (hexdigest (sha256 C data)) = Inr data"
    unfolding n by (simp add: decrypt_attachment_def decrypt_chunks [OF assms(1-3)] concat_pieces)
  have 3: "hexdigest (sha256 C x) = h" if "decrypt_attachment C key ns cts h = Inr x" for ns cts h x
    using that by (auto simp: decrypt_attachment_def res_simps Let_def split: if_splits)
  have ac: "att_chunks a = ?cs" by (simp add: a_def)
  then have 4: "length (att_chunks a) \<le> 100" using chunk_count_bounds [OF assms(4)] by simp
  show ?thesis
    using e m(1) 1 2 4 by (intro exI [of _ a] exI [of _ m] conjI allI impI) (simp_all only: ac d(1), rule 3)
qed

theorem attachment_roundtrip_witness:
  "\<exists>a. encrypt_attachment toy (replicate 32 1) (\<lambda>k. replicate 12 (word_of_nat k)) [1, 2, 3] = Inr a
    \<and> decrypt_attachment toy (replicate 32 1) (map chunk_nonce (att_chunks a)) (map chunk_ciphertext (att_chunks a))
        (hexdigest (sha256 toy [1, 2, 3])) = Inr [1, 2, 3]"
  using attachment_roundtrip [OF toy_ok(2), of "replicate 32 1" "\<lambda>k. replicate 12 (word_of_nat k)" "[1, 2, 3]" "[''c'']"]
  by (auto simp: MAX_FILE_SIZE_def chunk_count_def CHUNK_SIZE_def)

end
