(* ===== verification/Discovery.thy ===== *)
theory Discovery
  imports Backends "HOL-Library.Sublist"
begin

section \<open>Relay discovery\<close>

text \<open>
  \<^verbatim>\<open>wire/discovery.py\<close>: the relays that a relay advertises, the filter for addresses inside a network, and the union with the
  relays in use.  The transport's \<open>request\<close> is an argument, as is the variable \<open>NK_ALLOW_PRIVATE_RELAYS\<close> of the process
  environment.  Of the standard library, \<open>urllib.parse\<close> (scheme and port) and \<open>ipaddress\<close> (parsing and the
  address blocks of Python 3.12) are modelled.

  The theorems: discovery keeps the relays in use, in order, in front; it adds only relays that are public and answered
  their health check, with a host that is new; and it stops at the limits.
\<close>

subsection \<open>Parts of a URL\<close>

definition url_scheme :: "string \<Rightarrow> string" where
  "url_scheme url =
     (let u = url_clean url; s = takeWhile (\<lambda>c. c \<noteq> CHR '':'') u in
      if s \<noteq> [] \<and> s \<noteq> u \<and> ascii_alpha (hd s) \<and> list_all scheme_char s then map lower_char s else [])"

definition after_char :: "char \<Rightarrow> string \<Rightarrow> string" where
  "after_char x s = tl (dropWhile (\<lambda>c. c \<noteq> x) s)"

definition url_port :: "string \<Rightarrow> int option res" where
  "url_port url =
     (let h = after_at (netloc url);
          p = (if CHR ''['' \<in> set h then after_char (CHR '':'') (after_char (CHR '']'') (after_char (CHR ''['') h)) else after_char (CHR '':'') h) in
      if p = [] then Inr None
      else if \<not> list_all is_digit p then Inl ValueError
      else let n = foldl (\<lambda>a c. 10 * a + (of_char c - 48)) (0 :: int) p in
        if n \<le> 65535 then Inr (Some n) else Inl ValueError)"

subsection \<open>IP addresses\<close>

fun split_on :: "char \<Rightarrow> string \<Rightarrow> string list" where
  "split_on x [] = [[]]"
| "split_on x (c # cs) = (if c = x then [] # split_on x cs else (case split_on x cs of [] \<Rightarrow> [[c]] | p # ps \<Rightarrow> (c # p) # ps))"

definition parse_octet :: "string \<Rightarrow> int option" where
  "parse_octet p =
     (if p = [] \<or> \<not> list_all is_digit p \<or> length p > 3 \<or> (p \<noteq> ''0'' \<and> hd p = CHR ''0'') then None
      else let n = foldl (\<lambda>a c. 10 * a + (of_char c - 48)) (0 :: int) p in if n > 255 then None else Some n)"

definition parse_ipv4 :: "string \<Rightarrow> int option" where
  "parse_ipv4 s = (case map parse_octet (split_on (CHR ''.'') s) of
     [Some a, Some b, Some c, Some d] \<Rightarrow> Some (((a * 256 + b) * 256 + c) * 256 + d) | _ \<Rightarrow> None)"

definition parse_hextet :: "string \<Rightarrow> int option" where
  "parse_hextet p =
     (if p = [] \<or> length p > 4 then None
      else foldl (\<lambda>a c. case (a, hex_val c) of (Some n, Some v) \<Rightarrow> Some (16 * n + int v) | _ \<Rightarrow> None) (Some 0) p)"

fun hextets :: "string list \<Rightarrow> int list option" where
  "hextets [] = Some []"
| "hextets (p # ps) = (case (parse_hextet p, hextets ps) of (Some n, Some ns) \<Rightarrow> Some (n # ns) | _ \<Rightarrow> None)"

text \<open>The groups of an address: those before and after a double colon, or all eight.  The text is split at its colons; a
  double colon shows as one empty group inside, or as two at the front or the end.\<close>

definition ipv6_groups :: "int list list \<Rightarrow> int list option" where
  "ipv6_groups hl = (case hl of
     [ns] \<Rightarrow> if length ns = 8 then Some ns else None
   | [hi, lo] \<Rightarrow> if length hi + length lo < 8 then Some (hi @ replicate (8 - (length hi + length lo)) 0 @ lo) else None
   | _ \<Rightarrow> None)"

definition split_groups :: "string list \<Rightarrow> string list list option" where
  "split_groups parts =
     (let inner = filter (\<lambda>i. parts ! i = []) [1..<length parts - 1] in
      case inner of
        [] \<Rightarrow> Some [parts]
      | [i] \<Rightarrow>
          (let hi = take i parts; lo = drop (i + 1) parts in
           if hd hi = [] \<and> i \<noteq> 1 then None
           else if last lo = [] \<and> length lo \<noteq> 1 then None
           else Some [if hd hi = [] then [] else hi, if last lo = [] then [] else lo])
      | _ \<Rightarrow> None)"

text \<open>A dotted quad at the end counts as two groups.\<close>

definition expand_quad :: "string list \<Rightarrow> (string list \<times> int list) option" where
  "expand_quad parts =
     (if CHR ''.'' \<in> set (last parts)
      then (case parse_ipv4 (last parts) of None \<Rightarrow> None | Some n \<Rightarrow> Some (butlast parts, [n div 65536, n mod 65536]))
      else Some (parts, []))"

definition hex_text :: "int \<Rightarrow> string" where
  "hex_text n = map (\<lambda>k. hex_char (nat (n div 16 ^ k mod 16))) [3, 2, 1, 0]"

definition parse_ipv6 :: "string \<Rightarrow> int option" where
  "parse_ipv6 s =
     (let a = takeWhile (\<lambda>c. c \<noteq> CHR ''%'') s; scope = tl (dropWhile (\<lambda>c. c \<noteq> CHR ''%'') s) in
      if a \<noteq> s \<and> (scope = [] \<or> CHR ''%'' \<in> set scope) then None
      else if length (split_on (CHR '':'') a) < 3 then None
      else case expand_quad (split_on (CHR '':'') a) of None \<Rightarrow> None
      | Some (parts, quad) \<Rightarrow>
        let parts' = parts @ map hex_text quad in
        if length parts' > 9 then None
        else case split_groups parts' of None \<Rightarrow> None
        | Some gs \<Rightarrow> (case map hextets gs of
            [Some ns] \<Rightarrow> map_option (foldl (\<lambda>a n. 65536 * a + n) 0) (ipv6_groups [ns])
          | [Some hi, Some lo] \<Rightarrow> map_option (foldl (\<lambda>a n. 65536 * a + n) 0) (ipv6_groups [hi, lo])
          | _ \<Rightarrow> None))"

text \<open>A block of addresses of \<open>w\<close> bits: a network and the length of its prefix.\<close>

definition in_block :: "nat \<Rightarrow> int \<times> nat \<Rightarrow> int \<Rightarrow> bool" where
  "in_block w b n \<longleftrightarrow> n div 2 ^ (w - snd b) = fst b div 2 ^ (w - snd b)"

definition v4 :: "int \<Rightarrow> int \<Rightarrow> int \<Rightarrow> int \<Rightarrow> int" where
  "v4 a b c d = ((a * 256 + b) * 256 + c) * 256 + d"

text \<open>Private, loopback, link-local, reserved, multicast and unspecified addresses.\<close>

definition v4_private :: "int \<Rightarrow> bool" where
  "v4_private n \<longleftrightarrow> list_ex (\<lambda>b. in_block 32 b n)
     [(v4 0 0 0 0, 8), (v4 10 0 0 0, 8), (v4 127 0 0 0, 8), (v4 169 254 0 0, 16), (v4 172 16 0 0, 12), (v4 192 0 0 0, 24),
      (v4 192 0 0 170, 31), (v4 192 0 2 0, 24), (v4 192 168 0 0, 16), (v4 198 18 0 0, 15), (v4 198 51 100 0, 24),
      (v4 203 0 113 0, 24), (v4 240 0 0 0, 4), (v4 255 255 255 255, 32)]
   \<and> n \<notin> {v4 192 0 0 9, v4 192 0 0 10}"

definition v4_internal :: "int \<Rightarrow> bool" where
  "v4_internal n \<longleftrightarrow> v4_private n \<or> list_ex (\<lambda>b. in_block 32 b n)
     [(v4 127 0 0 0, 8), (v4 169 254 0 0, 16), (v4 240 0 0 0, 4), (v4 224 0 0 0, 4), (v4 0 0 0 0, 32)]"

definition v6 :: "int \<Rightarrow> int \<Rightarrow> int \<Rightarrow> int \<Rightarrow> int" where
  "v6 a b c d = ((a * 65536 + b) * 65536 + c) * 65536 ^ 5 + d"

definition v6_private :: "int \<Rightarrow> bool" where
  "v6_private n \<longleftrightarrow>
     (if n div 2 ^ 32 = 0xFFFF then v4_private (n mod 2 ^ 32)
      else list_ex (\<lambda>b. in_block 128 b n)
        [(1, 128), (0, 128), (0xFFFF * 2 ^ 32, 96), (v6 0x64 0xFF9B 1 0, 48), (v6 0x100 0 0 0, 64), (v6 0x2001 0 0 0, 23),
         (v6 0x2001 0xDB8 0 0, 32), (v6 0x2002 0 0 0, 16), (v6 0xFC00 0 0 0, 7), (v6 0xFE80 0 0 0, 10)]
      \<and> \<not> list_ex (\<lambda>b. in_block 128 b n)
        [(v6 0x2001 1 0 1, 128), (v6 0x2001 1 0 2, 128), (v6 0x2001 3 0 0, 32), (v6 0x2001 4 0x112 0, 48), (v6 0x2001 0x20 0 0, 28),
         (v6 0x2001 0x30 0 0, 28)])"

definition v6_internal :: "int \<Rightarrow> bool" where
  "v6_internal n \<longleftrightarrow> v6_private n \<or> list_ex (\<lambda>b. in_block 128 b n)
     [(1, 128), (v6 0xFE80 0 0 0, 10), (v6 0xFF00 0 0 0, 8), (0, 128),
      (0, 8), (v6 0x100 0 0 0, 8), (v6 0x200 0 0 0, 7), (v6 0x400 0 0 0, 6), (v6 0x800 0 0 0, 5), (v6 0x1000 0 0 0, 4), (v6 0x4000 0 0 0, 3),
      (v6 0x6000 0 0 0, 3), (v6 0x8000 0 0 0, 3), (v6 0xA000 0 0 0, 3), (v6 0xC000 0 0 0, 3), (v6 0xE000 0 0 0, 4), (v6 0xF000 0 0 0, 5),
      (v6 0xF800 0 0 0, 6), (v6 0xFE00 0 0 0, 9)]"

definition strip_brackets :: "string \<Rightarrow> string" where
  "strip_brackets s = rev (dropWhile (\<lambda>c. c \<in> set ''[]'') (rev (dropWhile (\<lambda>c. c \<in> set ''[]'') s)))"

definition host_is_internal :: "string \<Rightarrow> bool" where
  "host_is_internal host0 =
     (let host = map lower_char (strip_brackets host0) in
      if host = [] \<or> host = ''localhost'' \<or> ends_with ''.local'' host then True
      else case parse_ipv4 host of Some n \<Rightarrow> v4_internal n
      | None \<Rightarrow> (case parse_ipv6 host of Some n \<Rightarrow> v6_internal n | None \<Rightarrow> False))"

subsection \<open>Discovery\<close>

definition RELAYS_PATH :: string where "RELAYS_PATH = ''/api/relays''"
definition HEALTH_PATH :: string where "HEALTH_PATH = ''/api/health''"
definition MAX_RELAYS :: int where "MAX_RELAYS = 8"
definition MAX_CANDIDATES :: int where "MAX_CANDIDATES = 50"

definition is_discoverable :: "bool \<Rightarrow> string \<Rightarrow> bool res" where
  "is_discoverable allow_private url =
     bindE (hostname url) (\<lambda>h.
     if url_scheme url \<notin> {''http'', ''https''} then Inr False
     else case h of None \<Rightarrow> Inr False
     | Some hn \<Rightarrow>
        (case url_port url of Inl _ \<Rightarrow> Inr False
         | Inr p \<Rightarrow>
            if (case p of None \<Rightarrow> False | Some n \<Rightarrow> \<not> (1 \<le> n \<and> n \<le> 65535)) then Inr False
            else Inr (\<not> (host_is_internal hn \<and> \<not> allow_private))))"

definition host_key :: "string \<Rightarrow> (string \<times> string \<times> int) res" where
  "host_key url =
     bindE (hostname url) (\<lambda>h.
     bindE (url_port url) (\<lambda>p.
     Inr (url_scheme url, map lower_char (case h of None \<Rightarrow> [] | Some x \<Rightarrow> x),
       (case p of None \<Rightarrow> 0 | Some n \<Rightarrow> n) + (if p = None \<or> p = Some 0 then (if url_scheme url = ''https'' then 443 else 80) else 0))))"

definition relay_get :: "'w requester \<Rightarrow> string \<Rightarrow> ('w, response) meth" where
  "relay_get rq url = rq (http ''GET'' url [] [] NoBody)"

definition fetch_known_relays :: "'w requester \<Rightarrow> int \<Rightarrow> string \<Rightarrow> ('w, string list) meth" where
  "fetch_known_relays rq lim url =
     bindS (catchS (\<lambda>_. True) (bindS (relay_get rq (url @ RELAYS_PATH)) (\<lambda>r. returnS (Some r))) (returnS None)) (\<lambda>got.
     case got of None \<Rightarrow> returnS []
     | Some r \<Rightarrow>
       if rs_status r \<noteq> 200 then returnS []
       else (case rs_json r of
           Inl e \<Rightarrow> if is_value_error e then returnS [] else raiseS e
         | Inr (JObj d) \<Rightarrow> (case map_of d ''relays'' of
               Some (JArr xs) \<Rightarrow> returnS (concat (map (\<lambda>x. case x of JStr s \<Rightarrow> [s] | _ \<Rightarrow> []) (take (nat lim) xs)))
             | _ \<Rightarrow> returnS [])
         | Inr _ \<Rightarrow> raiseS AttributeError))"

definition probe_relay :: "'w requester \<Rightarrow> string \<Rightarrow> ('w, bool) meth" where
  "probe_relay rq url =
     bindS (catchS (\<lambda>_. True) (bindS (relay_get rq (url @ HEALTH_PATH)) (\<lambda>r. returnS (Some r))) (returnS None)) (\<lambda>got.
     case got of None \<Rightarrow> returnS False
     | Some r \<Rightarrow>
       if rs_status r \<noteq> 200 then returnS False
       else (case rs_json r of
           Inl e \<Rightarrow> if is_value_error e then returnS False else raiseS e
         | Inr (JObj d) \<Rightarrow> returnS (map_of d ''status'' = Some (JStr ''ok''))
         | Inr _ \<Rightarrow> raiseS AttributeError))"

type_synonym hkey = "string \<times> string \<times> int"

text \<open>The inner loop; it stops as soon as there are enough candidates.\<close>

fun scan_advertised :: "bool \<Rightarrow> int \<Rightarrow> string list \<Rightarrow> hkey list \<times> string list \<Rightarrow> (hkey list \<times> string list) res" where
  "scan_advertised priv lim [] acc = Inr acc"
| "scan_advertised priv lim (a # as) (seen, cands) =
     (case normalize_relay_urls [a] of [] \<Rightarrow> scan_advertised priv lim as (seen, cands)
      | candidate # _ \<Rightarrow>
        bindE (is_discoverable priv candidate) (\<lambda>ok.
        if \<not> ok then scan_advertised priv lim as (seen, cands)
        else bindE (host_key candidate) (\<lambda>key.
          if key \<in> set seen then scan_advertised priv lim as (seen, cands)
          else let acc = (key # seen, cands @ [candidate]) in
            if lim \<le> int (length (snd acc)) then Inr acc else scan_advertised priv lim as acc)))"

fun gather :: "'w requester \<Rightarrow> bool \<Rightarrow> int \<Rightarrow> string list \<Rightarrow> hkey list \<times> string list \<Rightarrow> ('w, hkey list \<times> string list) meth" where
  "gather rq priv lim [] acc = returnS acc"
| "gather rq priv lim (relay # rs) acc =
     bindS (fetch_known_relays rq lim relay) (\<lambda>ads.
     bindS (liftS (scan_advertised priv lim ads acc)) (\<lambda>acc'.
     if lim \<le> int (length (snd acc')) then returnS acc' else gather rq priv lim rs acc'))"

fun admit :: "'w requester \<Rightarrow> bool \<Rightarrow> int \<Rightarrow> string list \<Rightarrow> string list \<Rightarrow> ('w, string list) meth" where
  "admit rq probe lim [] result = returnS result"
| "admit rq probe lim (candidate # cs) result =
     (if lim \<le> int (length result) then returnS result
      else bindS (if probe then probe_relay rq candidate else returnS True) (\<lambda>alive.
        admit rq probe lim cs (if alive then result @ [candidate] else result)))"

definition discover_relays :: "'w requester \<Rightarrow> bool \<Rightarrow> int \<Rightarrow> bool \<Rightarrow> int \<Rightarrow> string list \<Rightarrow> ('w, string list) meth" where
  "discover_relays rq priv max_relays probe max_candidates current =
     (let known = normalize_relay_urls current in
      bindS (liftS (mapE host_key known)) (\<lambda>seen.
      bindS (gather rq priv max_candidates known (seen, [])) (\<lambda>(_, cands).
      bindS (admit rq probe max_relays cands known) (\<lambda>result.
      returnS (normalize_relay_urls result)))))"

subsection \<open>Theorems\<close>

text \<open>Candidates: discoverable, with host keys that are pairwise different and new.\<close>

definition good_candidates :: "bool \<Rightarrow> hkey list \<Rightarrow> hkey list \<Rightarrow> string list \<Rightarrow> bool" where
  "good_candidates priv seen0 seen cands \<longleftrightarrow> list_all (\<lambda>u. is_discoverable priv u = Inr True) cands
     \<and> map host_key cands = map Inr (rev (take (length cands) seen)) \<and> drop (length cands) seen = seen0
     \<and> distinct (take (length cands) seen) \<and> set (take (length cands) seen) \<inter> set seen0 = {}"

lemma good_candidates_Nil: "good_candidates priv seen seen []"
  by (simp add: good_candidates_def)

lemma good_candidates_snoc:
  assumes "good_candidates priv seen0 seen cands" "is_discoverable priv u = Inr True" "host_key u = Inr k" "k \<notin> set seen"
  shows "good_candidates priv seen0 (k # seen) (cands @ [u])"
proof -
  have "set (take (length cands) seen) \<subseteq> set seen" by (rule set_take_subset)
  moreover have "set seen0 \<subseteq> set seen" using assms(1) set_drop_subset [of "length cands" seen] by (simp add: good_candidates_def)
  ultimately have "k \<notin> set (take (length cands) seen)" "k \<notin> set seen0" using assms(4) by auto
  then show ?thesis using assms by (auto simp: good_candidates_def)
qed

lemma scan_good:
  "scan_advertised priv lim ads (seen, cands) = Inr (seen', cands') \<Longrightarrow> good_candidates priv seen0 seen cands \<Longrightarrow> good_candidates priv seen0 seen' cands'"
proof (induction ads arbitrary: seen cands)
  case (Cons a ads)
  then show ?case
    by (auto simp: res_simps good_candidates_snoc Let_def split: list.splits if_splits)
qed simp

lemma gather_good:
  "gather rq priv lim rs (seen, cands) w = (Inr (seen', cands'), w') \<Longrightarrow> good_candidates priv seen0 seen cands \<Longrightarrow> good_candidates priv seen0 seen' cands'"
proof (induction rs arbitrary: seen cands w)
  case (Cons r rs)
  from Cons.prems(1) obtain ads w1 sn cs where "scan_advertised priv lim ads (seen, cands) = Inr (sn, cs)"
    and *: "(if lim \<le> int (length cs) then returnS (sn, cs) else gather rq priv lim rs (sn, cs)) w1 = (Inr (seen', cands'), w')"
    by (auto simp: liftS_def elim!: bindS_InrE)
  then have "good_candidates priv seen0 sn cs" using scan_good Cons.prems(2) by blast
  then show ?case using * Cons.IH by (auto simp: returnS_def split: if_splits)
qed (simp add: returnS_def)

lemma admit_result:
  "admit rq probe lim cands result w = (Inr out, w') \<Longrightarrow>
   \<exists>added. out = result @ added \<and> subseq added cands \<and> int (length out) \<le> max lim (int (length result))
     \<and> (probe \<longrightarrow> list_all (\<lambda>u. \<exists>v. fst (probe_relay rq u v) = Inr True) added)"
proof (induction cands arbitrary: result w)
  case (Cons u us)
  show ?case
  proof (cases "lim \<le> int (length result)")
    case True
    then show ?thesis using Cons.prems by (intro exI [of _ "[]"]) (simp add: returnS_def)
  next
    case False
    then obtain alive w1 where a: "(if probe then probe_relay rq u else returnS True) w = (Inr alive, w1)"
      and r: "admit rq probe lim us (if alive then result @ [u] else result) w1 = (Inr out, w')"
      using Cons.prems by (auto elim!: bindS_InrE)
    obtain added where added: "out = (if alive then result @ [u] else result) @ added" "subseq added us"
      "int (length out) \<le> max lim (int (length (if alive then result @ [u] else result)))"
      "probe \<longrightarrow> list_all (\<lambda>u. \<exists>v. fst (probe_relay rq u v) = Inr True) added"
      using Cons.IH [OF r] by blast
    have "probe \<Longrightarrow> alive \<Longrightarrow> \<exists>v. fst (probe_relay rq u v) = Inr True" using a by (metis fst_conv)
    then show ?thesis using added False
      by (intro exI [of _ "(if alive then [u] else []) @ added"]) auto
  qed
qed (auto simp: returnS_def)

lemma length_normalize: "length (normalize_relays seen urls) \<le> length seen + length urls"
proof (induction urls arbitrary: seen)
  case (Cons u urls)
  show ?case using Cons [of seen] Cons [of "seen @ [relay_form u]"] by (simp add: normalize_relays_Cons del: normalize_relays.simps)
qed simp

lemma subseq_keys: "subseq xs ys \<Longrightarrow> set xs \<subseteq> set ys \<and> (distinct (map f ys) \<longrightarrow> distinct (map f xs))"
  by (induction xs ys rule: list_emb.induct) auto

lemma discovered:
  assumes "discover_relays rq priv m probe k current w = (Inr out, w')"
  shows "\<exists>added. out = normalize_relay_urls (normalize_relay_urls current @ added)
    \<and> int (length out) \<le> max m (int (length (normalize_relay_urls current)))
    \<and> distinct (map host_key added)
    \<and> list_all (\<lambda>u. is_discoverable priv u = Inr True \<and> host_key u \<notin> host_key ` set (normalize_relay_urls current)
        \<and> (probe \<longrightarrow> (\<exists>v. fst (probe_relay rq u v) = Inr True))) added"
proof -
  let ?known = "normalize_relay_urls current"
  obtain seen w1 where m: "mapE host_key ?known = Inr seen"
    and r: "bindS (gather rq priv k ?known (seen, [])) (\<lambda>(_, cands). bindS (admit rq probe m cands ?known) (\<lambda>result. returnS (normalize_relay_urls result))) w1 = (Inr out, w')"
    using assms unfolding discover_relays_def Let_def by (rule bindS_InrE) (simp add: liftS_def)
  obtain sc w2 where g': "gather rq priv k ?known (seen, []) w1 = (Inr sc, w2)"
    and r': "(case sc of (_, cands) \<Rightarrow> bindS (admit rq probe m cands ?known) (\<lambda>result. returnS (normalize_relay_urls result))) w2 = (Inr out, w')"
    using r by (rule bindS_InrE)
  obtain sn cands where sc: "sc = (sn, cands)" by (rule prod.exhaust)
  have g: "gather rq priv k ?known (seen, []) w1 = (Inr (sn, cands), w2)" using g' sc by simp
  obtain result where a: "admit rq probe m cands ?known w2 = (Inr result, w')" and o: "out = normalize_relay_urls result"
    using r' unfolding sc prod.case by (rule bindS_InrE) (simp add: returnS_def)
  have gc: "good_candidates priv seen sn cands" by (rule gather_good [OF g good_candidates_Nil])
  obtain added where added: "result = ?known @ added" "subseq added cands" "int (length result) \<le> max m (int (length ?known))"
    "probe \<longrightarrow> list_all (\<lambda>u. \<exists>v. fst (probe_relay rq u v) = Inr True) added"
    using admit_result [OF a] by blast
  have known: "host_key ` set ?known = Inr ` set seen"
    using mapE_Inr_map [OF m] by (metis list.set_map)
  have "distinct (map host_key cands)" using gc by (simp add: good_candidates_def distinct_map inj_on_def)
  then have d: "distinct (map host_key added)" using subseq_keys [OF added(2)] by blast
  have new: "is_discoverable priv u = Inr True \<and> host_key u \<notin> Inr ` set seen" if "u \<in> set added" for u
  proof -
    have u: "u \<in> set cands" using that subseq_keys [OF added(2)] by blast
    have e: "map host_key cands = map Inr (rev (take (length cands) sn))" using gc by (simp add: good_candidates_def)
    have "host_key u \<in> set (map host_key cands)" using u by simp
    then have "host_key u \<in> Inr ` set (take (length cands) sn)" unfolding e by simp
    then show ?thesis using gc u by (auto simp: good_candidates_def list_all_iff)
  qed
  have "int (length out) \<le> int (length result)" using length_normalize [of "[]" result] o by (simp add: normalize_relay_urls_def)
  then show ?thesis using added o d new known by (intro exI [of _ added]) (auto simp: list_all_iff)
qed


text \<open>A relay that advertises itself, a private address and another relay, and is in good health.\<close>

definition sample_relays :: "unit requester" where
  "sample_relays q w = (Inr \<lparr>rs_status = 200, rs_json = Inr (JObj [(''status'', JStr ''ok''),
     (''relays'', JArr [JStr ''https://a.example'', JStr ''http://192.168.1.1'', JStr ''b.example/''])]), rs_content = []\<rparr>, w)"

lemma sample_discovery:
  "discover_relays sample_relays False MAX_RELAYS True MAX_CANDIDATES [''a.example''] () = (Inr [''https://a.example'', ''https://b.example''], ())"
  by code_simp


text \<open>The filter sees addresses as texts.  An address in a notation that only the resolver understands passes as a name, and so does one
  that is followed by a blank and a slash, although the final normalisation turns it into the plain address.\<close>

lemma filter_by_text:
  "is_discoverable False ''http://127.0.0.1'' = Inr False"
  "is_discoverable False ''http://2130706433'' = Inr True"
  "is_discoverable False ''http://127.1'' = Inr True"
  "normalize_relay_urls [''http://127.0.0.1 /''] = [''http://127.0.0.1 '']"
  "is_discoverable False ''http://127.0.0.1 '' = Inr True"
  "normalize_relay_urls [''http://127.0.0.1 ''] = [''http://127.0.0.1'']"
  by code_simp+

text \<open>An answer that is JSON but no object is not handled: the exception leaves the whole discovery.\<close>

lemma fetch_known_relays_raises:
  assumes "relay_get rq (u @ RELAYS_PATH) w = (Inr \<lparr>rs_status = 200, rs_json = Inr (JArr xs), rs_content = b\<rparr>, w')"
  shows "fetch_known_relays rq lim u w = (Inl AttributeError, w')"
  using assms by (simp add: fetch_known_relays_def meth_defs)

end
