(* ===== verification/Client.thy ===== *)
theory Client
  imports Sync Attachments Discovery
begin

section \<open>The client\<close>

text \<open>
  \<^verbatim>\<open>core/client.py\<close>: provisioning, contacts, sessions per device, sending, receiving, receipts and attachments, composed from the
  components below it as the code composes them.  A session that a method changes in place is returned by the method; the
  caller puts it back where the code shares the object.
\<close>

definition DEFAULT_OPK_COUNT :: int where "DEFAULT_OPK_COUNT = 20"

subsection \<open>Construction and provisioning\<close>

definition text_or :: "json \<Rightarrow> string \<Rightarrow> string" where
  "text_or v dflt = (case v of JStr s \<Rightarrow> if s = [] then dflt else s | _ \<Rightarrow> dflt)"

definition make_client :: "'w env \<Rightarrow> identity \<Rightarrow> store \<Rightarrow> string list \<Rightarrow> string option \<Rightarrow> int \<Rightarrow> 'w \<Rightarrow> nat \<Rightarrow> 'w client res" where
  "make_client E i s urls name opk_count w n =
     (let rs = normalize_relay_urls urls; iid = identity_id (e_crypto E) i in
      if rs = [] then Inl ValueError
      else bindE (make_pool rs) (\<lambda>pool. Inr \<lparr>c_identity = i, c_store = s, c_relays = rs, c_backend = pool, c_peer_backends = [],
        c_name = text_or (case name of None \<Rightarrow> JNull | Some x \<Rightarrow> JStr x) (text_or (label i) (take 8 iid)),
        c_opk_count = opk_count, c_own_inbox = None, c_bundle_id = None, c_card = None, c_device_id = None, c_sibling_keys = [],
        c_device_list_cache = None, c_device_list_cache_ts = 0, c_sync_message_index = None, c_world = w, c_reads = n\<rparr>))"

definition keypair :: "'w env \<Rightarrow> ('w, bytes \<times> bytes) cmeth" where
  "keypair E = bindS (urandom E 32) (\<lambda>p. returnS (p, x25519_public (e_crypto E) p))"

definition opk_entry :: "int \<times> bytes \<times> bytes \<Rightarrow> string \<times> json" where
  "opk_entry = (\<lambda>(i, p, q). (show_int i, JObj [(''priv'', JStr (b64e p)), (''pub'', JStr (b64e q))]))"

definition prekeys_doc :: "bytes \<times> bytes \<Rightarrow> (string \<times> json) list \<Rightarrow> int \<Rightarrow> json" where
  "prekeys_doc sp keys nxt =
     JObj [(''spk_id'', JInt 1), (''spk_private'', JStr (b64e (fst sp))), (''spk_public'', JStr (b64e (snd sp))),
       (''opks'', JObj keys), (''next_opk_id'', JInt nxt)]"

definition generate_prekeys :: "'w env \<Rightarrow> int \<Rightarrow> ('w, json) cmeth" where
  "generate_prekeys E n =
     bindS (keypair E) (\<lambda>sp.
     bindS (mapS (\<lambda>i. bindS (keypair E) (\<lambda>(p, q). returnS (opk_entry (i, p, q)))) [1..n]) (\<lambda>keys.
     returnS (prekeys_doc sp keys (n + 1))))"

text \<open>\<open>d.items()\<close> of a stored dict.\<close>

definition json_items :: "json \<Rightarrow> dict res" where
  "json_items v = (case v of JObj d \<Rightarrow> Inr d | _ \<Rightarrow> Inl AttributeError)"

definition published_opks :: "json \<Rightarrow> (int \<times> bytes) list res" where
  "published_opks prekeys =
     bindE (bindE (getitem prekeys ''opks'') json_items) (mapE (\<lambda>(k, v).
       bindE (py_int (JStr k)) (\<lambda>i. bindE (bindE (getitem v ''pub'') b64d_json) (\<lambda>p. Inr (i, p)))))"

definition publish_bundle_of :: "'w env \<Rightarrow> json \<Rightarrow> ('w, unit) cmeth" where
  "publish_bundle_of E prekeys =
     bindS (getS id) (\<lambda>c.
     bindS (assertS (c_bundle_id c)) (\<lambda>bid.
     bindS (liftS (bindE (b64d bid) (\<lambda>raw.
       bindE (bindE (getitem prekeys ''spk_id'') py_int) (\<lambda>sid.
       bindE (bindE (getitem prekeys ''spk_public'') b64d_json) (\<lambda>sp.
       bindE (published_opks prekeys) (\<lambda>opks.
       make_bundle (e_crypto E) (c_identity c) raw sid sp opks)))))) (\<lambda>b.
     thenS (backend_publish_bundle E (c_backend c) bid (bundle_to_bytes b)) (returnS ()))))"

definition ignoring :: "('s, unit) meth \<Rightarrow> ('s, unit) meth" where
  "ignoring m = catchS (\<lambda>_. True) m (returnS ())"

text \<open>Registering the mailbox and the bundle on the current relays; each in a \<open>try\<close> of its own.\<close>

definition announce :: "'w env \<Rightarrow> mailbox_capability \<Rightarrow> ('w, unit) cmeth" where
  "announce E ib =
     thenS (ignoring (bindS (getS c_backend) (\<lambda>pool. thenS (backend_register E pool ib) (returnS ()))))
     (ignoring (bindS (getS (\<lambda>c. load_prekeys (account E c) (c_store c))) (\<lambda>found.
        case found of None \<Rightarrow> returnS ()
        | Some prekeys \<Rightarrow> if truthy prekeys then publish_bundle_of E prekeys else returnS ())))"

definition same_entry :: "device_entry \<Rightarrow> device_entry \<Rightarrow> bool" where
  "same_entry d e \<longleftrightarrow> entry_device_id d = entry_device_id e \<and> jsort (JObj (entry_inbox d)) = jsort (JObj (entry_inbox e))
     \<and> entry_bundle_id d = entry_bundle_id e \<and> entry_relays d = entry_relays e"

definition ensure_device_id :: "'w env \<Rightarrow> ('w, unit) cmeth" where
  "ensure_device_id E =
     bindS (getS c_device_id) (\<lambda>dev.
     if dev \<noteq> None then returnS ()
     else bindS (state_get E ''device_id'') (\<lambda>v.
       bindS (case v of JStr s \<Rightarrow> if s \<noteq> [] then returnS s else bindS (urandom E DEVICE_ID_SIZE) (\<lambda>b. returnS (new_device_id b))
              | _ \<Rightarrow> bindS (urandom E DEVICE_ID_SIZE) (\<lambda>b. returnS (new_device_id b))) (\<lambda>d.
       thenS (modifyS (\<lambda>c. c\<lparr>c_device_id := Some d\<rparr>)) (state_set E ''device_id'' (JStr d)))))"

definition ensure_device_registered :: "'w env \<Rightarrow> ('w, unit) cmeth" where
  "ensure_device_registered E =
     thenS (ensure_device_id E)
     (bindS (getS device_entry) (\<lambda>r. bindS (liftS r) (\<lambda>entry.
      bindS (fetch_own_device_list E) (\<lambda>existing.
      let devices = (case existing of None \<Rightarrow> [] | Some l \<Rightarrow> dl_devices l) in
      if list_ex (\<lambda>d. same_entry d entry) devices then returnS ()
      else
        bindS (now_ms E) (\<lambda>t.
        bindS (getS (\<lambda>c. dl_create (e_crypto E) (c_identity c)
            (filter (\<lambda>d. entry_device_id d \<noteq> entry_device_id entry) devices @ [entry]) t)) (\<lambda>listing.
        thenS (ignoring (bindS (urandom E 12) (\<lambda>nonce.
          bindS (liftS (seal_device_list (e_crypto E) nonce listing)) (\<lambda>sealed.
          bindS (getS c_backend) (\<lambda>pool.
          thenS (backend_publish_bundle E pool (dl_address (e_crypto E) listing) sealed) (returnS ()))))))
        (thenS (cache_device_list E listing) (publish_device_keys E))))))))"

definition load_provisioned :: "'w env \<Rightarrow> dict \<Rightarrow> ('w, unit) cmeth" where
  "load_provisioned E stored =
     bindS (liftS (capability_from_json stored True)) (\<lambda>ib.
     thenS (modifyS (\<lambda>c. c\<lparr>c_own_inbox := Some ib\<rparr>))
     (bindS (state_get E ''bundle_id'') (\<lambda>bid.
      thenS (modifyS (\<lambda>c. c\<lparr>c_bundle_id := (case bid of JStr s \<Rightarrow> Some s | _ \<Rightarrow> None)\<rparr>))
      (bindS (state_get E ''name'') (\<lambda>nm.
       thenS (modifyS (\<lambda>c. c\<lparr>c_name := text_or nm (c_name c)\<rparr>))
       (announce E ib))))))"

definition create_provisioned :: "'w env \<Rightarrow> ('w, unit) cmeth" where
  "create_provisioned E =
     bindS (getS c_backend) (\<lambda>pool.
     bindS (backend_create_mailbox E pool) (\<lambda>ib.
     thenS (modifyS (\<lambda>c. c\<lparr>c_own_inbox := Some ib\<rparr>))
     (bindS (urandom E 16) (\<lambda>rnd.
      thenS (modifyS (\<lambda>c. c\<lparr>c_bundle_id := Some (b64e rnd)\<rparr>))
      (bindS (getS c_opk_count) (\<lambda>n.
       bindS (generate_prekeys E n) (\<lambda>prekeys.
       bindS (getS (account E)) (\<lambda>iid.
       thenS (on_store (save_prekeys iid prekeys))
       (thenS (publish_bundle_of E prekeys)
       (thenS (state_set E ''inbox'' (JObj (capability_to_json ib)))
       (thenS (state_set E ''bundle_id'' (JStr (b64e rnd)))
       (bindS (getS c_name) (\<lambda>nm. state_set E ''name'' (JStr nm))))))))))))))"

definition build_card :: "'w env \<Rightarrow> 'w client \<Rightarrow> contact_card res" where
  "build_card E c =
     bindE (of_option AssertionError (c_bundle_id c)) (\<lambda>bid.
     bindE (of_option AssertionError (c_own_inbox c)) (\<lambda>ib.
     Inr (create (e_crypto E) (c_identity c) bid ib (map JStr (c_relays c)) (JStr (c_name c)))))"

definition provision :: "'w env \<Rightarrow> ('w, contact_card) cmeth" where
  "provision E =
     bindS (state_get E ''inbox'') (\<lambda>v.
     thenS (if truthy v then (case v of JObj d \<Rightarrow> load_provisioned E d | _ \<Rightarrow> raiseS AttributeError) else create_provisioned E)
     (bindS (getS (build_card E)) (\<lambda>r. bindS (liftS r) (\<lambda>crd.
      thenS (modifyS (\<lambda>c. c\<lparr>c_card := Some crd\<rparr>))
      (thenS (ensure_device_registered E) (returnS crd))))))"

definition ensure_provisioned :: "'w env \<Rightarrow> ('w, unit) cmeth" where
  "ensure_provisioned E = bindS (getS c_card) (\<lambda>crd. case crd of Some _ \<Rightarrow> returnS () | None \<Rightarrow> thenS (provision E) (returnS ()))"

definition own_card :: "'w env \<Rightarrow> ('w, contact_card) cmeth" where
  "own_card E = thenS (ensure_provisioned E) (bindS (getS c_card) assertS)"

definition card_string :: "'w env \<Rightarrow> ('w, string) cmeth" where
  "card_string E = bindS (own_card E) (\<lambda>crd. returnS (to_string (e_zlib E) crd))"

definition client_devices :: "'w env \<Rightarrow> ('w, device_entry list) cmeth" where
  "client_devices E =
     bindS (fetch_own_device_list E) (\<lambda>l.
     case l of Some x \<Rightarrow> returnS (dl_devices x) | None \<Rightarrow> bindS (getS device_entry) (\<lambda>r. bindS (liftS r) (\<lambda>e. returnS [e])))"

subsection \<open>The set of relays\<close>

definition client_discover_relays :: "'w env \<Rightarrow> int \<Rightarrow> bool \<Rightarrow> int \<Rightarrow> ('w, string list) cmeth" where
  "client_discover_relays E max_relays probe max_candidates =
     bindS (getS c_relays) (\<lambda>rs. on_net (discover_relays (e_request E) (e_allow_private E) max_relays probe max_candidates rs))"

definition rebuild_card :: "'w env \<Rightarrow> ('w, unit) cmeth" where
  "rebuild_card E =
     bindS (getS id) (\<lambda>c.
     if c_card c \<noteq> None \<and> c_own_inbox c \<noteq> None \<and> c_bundle_id c \<notin> {None, Some []}
     then bindS (liftS (build_card E c)) (\<lambda>crd. modifyS (\<lambda>c. c\<lparr>c_card := Some crd\<rparr>))
     else returnS ())"

definition apply_relays :: "'w env \<Rightarrow> string list \<Rightarrow> ('w, unit) cmeth" where
  "apply_relays E rs =
     (let urls = normalize_relay_urls rs in
      bindS (getS c_relays) (\<lambda>own.
      if urls = [] \<or> urls = own then returnS ()
      else thenS (modifyS (\<lambda>c. c\<lparr>c_relays := urls\<rparr>))
       (bindS (liftS (make_pool urls)) (\<lambda>pool.
        thenS (modifyS (\<lambda>c. c\<lparr>c_backend := pool\<rparr>))
        (bindS (getS c_own_inbox) (\<lambda>ib.
         thenS (case ib of None \<Rightarrow> returnS () | Some cap \<Rightarrow> announce E cap)
         (rebuild_card E)))))))"

definition refresh_relays :: "'w env \<Rightarrow> int \<Rightarrow> bool \<Rightarrow> int \<Rightarrow> ('w, string list) cmeth" where
  "refresh_relays E max_relays probe max_candidates =
     bindS (client_discover_relays E max_relays probe max_candidates) (\<lambda>found.
     bindS (getS c_relays) (\<lambda>own.
     thenS (if found \<noteq> own then apply_relays E found else returnS ()) (getS c_relays)))"

subsection \<open>Contacts\<close>

definition card_contact :: "string \<Rightarrow> contact_card \<Rightarrow> json \<Rightarrow> json option \<Rightarrow> contact option \<Rightarrow> int \<Rightarrow> contact" where
  "card_contact iid crd nickname sess existing now =
     \<lparr>ct_identity = iid, ct_id = card_identity_id crd,
      ct_nickname = py_or nickname (py_or (case existing of None \<Rightarrow> JNull | Some x \<Rightarrow> ct_nickname x)
        (py_or (card_name crd) (JStr (take 8 (card_identity_id crd))))),
      ct_isign = card_isign crd, ct_idh = card_idh crd, ct_bundle_id = JStr (card_bundle_id crd),
      ct_inbox = JObj (card_view (inbox crd)), ct_relays = JArr (relays crd),
      ct_session = (case sess of Some v \<Rightarrow> v | None \<Rightarrow> (case existing of None \<Rightarrow> JNull | Some x \<Rightarrow> ct_session x)),
      ct_verified = (case existing of None \<Rightarrow> False | Some x \<Rightarrow> ct_verified x),
      ct_created_at = (case existing of None \<Rightarrow> now | Some x \<Rightarrow> ct_created_at x)\<rparr>"

definition store_card :: "'w env \<Rightarrow> contact_card \<Rightarrow> json \<Rightarrow> ('w, contact) cmeth" where
  "store_card E crd nickname =
     bindS (getS (account E)) (\<lambda>iid.
     bindS (ask_store (get_contact iid (card_identity_id crd))) (\<lambda>existing.
     bindS (now_ms E) (\<lambda>t.
     let ct = card_contact iid crd nickname None existing (seconds t) in
     thenS (on_store (upsert_contact (seconds t) iid ct))
     (bindS (ask_store (get_contact iid (card_identity_id crd))) (\<lambda>row.
      returnS (case row of Some x \<Rightarrow> x | None \<Rightarrow> ct))))))"

definition add_contact :: "'w env \<Rightarrow> string \<Rightarrow> json \<Rightarrow> ('w, contact) cmeth" where
  "add_contact E card_text nickname =
     bindS (liftS (rethrow (\<lambda>e. e = CardError) ClientError (from_string (e_crypto E) (e_zlib E) card_text))) (\<lambda>crd.
     bindS (getS (account E)) (\<lambda>iid.
     if card_identity_id crd = iid then raiseS ClientError else store_card E crd nickname))"

definition client_contacts :: "'w env \<Rightarrow> ('w, contact list) cmeth" where
  "client_contacts E = getS (\<lambda>c. list_contacts (account E c) (c_store c))"

definition remove_contact :: "'w env \<Rightarrow> string \<Rightarrow> ('w, unit) cmeth" where
  "remove_contact E cid = bindS (getS (account E)) (\<lambda>iid. on_store (delete_contact iid cid))"

definition require_contact :: "'w env \<Rightarrow> string \<Rightarrow> ('w, contact) cmeth" where
  "require_contact E cid =
     bindS (getS (\<lambda>c. get_contact (account E c) cid (c_store c))) (\<lambda>r. liftS (of_option UnknownContact r))"

subsection \<open>Sessions\<close>

record peer_sessions =
  cs_devices :: "device_entry list"
  cs_outbound :: "(string \<times> session) list"
  cs_inbound :: "(string \<times> session) list"

fun readable_entries :: "json list \<Rightarrow> device_entry list res" where
  "readable_entries [] = Inr []"
| "readable_entries (v # vs) =
     (case entry_from_dict v of
        Inl e \<Rightarrow> if e = DeviceListError then readable_entries vs else Inl e
      | Inr d \<Rightarrow> bindE (readable_entries vs) (\<lambda>ds. Inr (d # ds)))"

definition read_sessions :: "json \<Rightarrow> (string \<times> session) list res" where
  "read_sessions v = bindE (json_items (py_or v (JObj []))) (mapE (\<lambda>(k, x). bindE (session_from_dict x) (\<lambda>s. Inr (k, s))))"

definition load_sessions :: "contact \<Rightarrow> peer_sessions res" where
  "load_sessions ct =
     (let raw = ct_session ct in
      if \<not> truthy raw then Inr \<lparr>cs_devices = [], cs_outbound = [], cs_inbound = []\<rparr>
      else case raw of JObj d \<Rightarrow>
          if json_is_int (map_of d ''v'') 2 then
            bindE (bindE (py_list_or (map_of d ''devices'')) readable_entries) (\<lambda>ds.
            bindE (read_sessions (dget d ''outbound'')) (\<lambda>outs.
            bindE (read_sessions (dget d ''inbound'')) (\<lambda>ins.
            Inr \<lparr>cs_devices = ds, cs_outbound = outs, cs_inbound = ins\<rparr>)))
          else bindE (session_from_dict raw) (\<lambda>s. Inr \<lparr>cs_devices = [], cs_outbound = [(LEGACY_DEVICE, s)], cs_inbound = []\<rparr>)
        | _ \<Rightarrow> Inl AttributeError)"

definition sessions_dict :: "(string \<times> session) list \<Rightarrow> json" where
  "sessions_dict ss = JObj (map (\<lambda>(k, s). (k, JObj (session_to_dict s))) ss)"

definition session_doc :: "peer_sessions \<Rightarrow> json" where
  "session_doc st = JObj [(''v'', JInt 2), (''devices'', JArr (map (\<lambda>d. JObj (entry_to_dict d)) (cs_devices st))),
     (''outbound'', sessions_dict (cs_outbound st)), (''inbound'', sessions_dict (cs_inbound st))]"

definition save_sessions :: "'w env \<Rightarrow> string \<Rightarrow> peer_sessions \<Rightarrow> ('w, unit) cmeth" where
  "save_sessions E cid st = bindS (getS (account E)) (\<lambda>iid. on_store (set_contact_session iid cid (session_doc st)))"

text \<open>The single inbox of a contact card.  A stored contact whose inbox is not a dict, whose bundle is not a string or
  whose relays are not strings fails here rather than where the entry is used.\<close>

definition legacy_device :: "contact \<Rightarrow> device_entry res" where
  "legacy_device ct =
     bindE (json_items (ct_inbox ct)) (\<lambda>ib.
     bindE (relay_texts (ct_relays ct)) (\<lambda>rs.
     bindE (case ct_bundle_id ct of JStr s \<Rightarrow> Inr s | _ \<Rightarrow> Inl TypeError) (\<lambda>bid.
     Inr \<lparr>entry_device_id = LEGACY_DEVICE, entry_inbox = ib, entry_relays = rs, entry_bundle_id = bid,
          entry_name = str_or (ct_nickname ct)\<rparr>)))"

definition cached_devices :: "contact \<Rightarrow> device_entry list res" where
  "cached_devices ct =
     bindE (load_sessions ct) (\<lambda>st. if cs_devices st \<noteq> [] then Inr (cs_devices st) else bindE (legacy_device ct) (\<lambda>d. Inr [d]))"

datatype bucket = Outbound | Inbound

definition in_bucket :: "bytes \<Rightarrow> bucket \<Rightarrow> (string \<times> session) list \<Rightarrow> (bucket \<times> string \<times> session) option" where
  "in_bucket sid b ss = map_option (Pair b) (find (\<lambda>(_, s). session_sid s = sid) ss)"

fun find_session_in :: "bytes \<Rightarrow> contact list \<Rightarrow> (contact \<times> peer_sessions \<times> bucket \<times> string \<times> session) option res" where
  "find_session_in sid [] = Inr None"
| "find_session_in sid (ct # cts) =
     bindE (load_sessions ct) (\<lambda>st.
     case in_bucket sid Outbound (cs_outbound st) of Some hit \<Rightarrow> Inr (Some (ct, st, hit))
     | None \<Rightarrow> (case in_bucket sid Inbound (cs_inbound st) of Some hit \<Rightarrow> Inr (Some (ct, st, hit))
       | None \<Rightarrow> find_session_in sid cts))"

definition find_session :: "'w env \<Rightarrow> bytes \<Rightarrow> ('w, (contact \<times> peer_sessions \<times> bucket \<times> string \<times> session) option) cmeth" where
  "find_session E sid = bindS (client_contacts E) (\<lambda>cts. liftS (find_session_in sid cts))"

definition fetch_peer_device_list :: "'w env \<Rightarrow> contact \<Rightarrow> ('w, device_list option) cmeth" where
  "fetch_peer_device_list E ct =
     bindS (catchS (\<lambda>_. True)
       (bindS (liftS (relay_texts (ct_relays ct))) (\<lambda>rs.
        bindS (backend_for rs) (\<lambda>pool.
        bindS (backend_fetch_bundle E pool (device_list_id (e_crypto E) (ct_isign ct) (ct_idh ct))) (\<lambda>doc. returnS (Some doc)))))
       (returnS None)) (\<lambda>found.
     case found of None \<Rightarrow> returnS None
     | Some doc \<Rightarrow> liftS (accept_device_list (e_crypto E) doc (ct_id ct) (ct_isign ct) (ct_idh ct)))"

definition peer_devices :: "'w env \<Rightarrow> contact \<Rightarrow> ('w, device_entry list) cmeth" where
  "peer_devices E ct =
     bindS (fetch_peer_device_list E ct) (\<lambda>l. case l of Some x \<Rightarrow> returnS (dl_devices x) | None \<Rightarrow> liftS (cached_devices ct))"

definition fetch_device_bundle :: "'w env \<Rightarrow> contact \<Rightarrow> device_entry \<Rightarrow> ('w, prekey_bundle) cmeth" where
  "fetch_device_bundle E ct d =
     bindS (rethrowS (\<lambda>_. True) ClientError (bindS (backend_for (entry_relays d)) (\<lambda>pool. backend_fetch_bundle E pool (entry_bundle_id d)))) (\<lambda>doc.
     liftS (rethrow (\<lambda>_. True) ClientError (from_public doc (ct_isign ct) (ct_idh ct))))"

definition start_session :: "'w env \<Rightarrow> contact \<Rightarrow> device_entry \<Rightarrow> ('w, session) cmeth" where
  "start_session E ct d =
     bindS (fetch_device_bundle E ct d) (\<lambda>b.
     bindS (urandom E 32) (\<lambda>eph.
     bindS (liftS (initiate (e_crypto E) eph b (ct_isign ct) (ct_idh ct))) (\<lambda>n.
     bindS (urandom E 16) (\<lambda>sid.
     bindS (urandom E 32) (\<lambda>rk.
     bindS (liftS (initiator (e_crypto E) rk (sk n) (spk b))) (\<lambda>st.
     returnS \<lparr>session_sid = sid, session_state = st, session_sk = Some (sk n), session_init = Some (JObj (init_dict n)),
       established = False\<rparr>))))))"

definition ensure_outbound :: "'w env \<Rightarrow> contact \<Rightarrow> peer_sessions \<Rightarrow> ('w, peer_sessions) cmeth" where
  "ensure_outbound E ct st =
     bindS (peer_devices E ct) (\<lambda>found.
     bindS (if found = [] then bindS (liftS (legacy_device ct)) (\<lambda>d. returnS [d]) else returnS found) (\<lambda>devices.
     bindS (foldS (\<lambda>d outs.
        if map_of outs (entry_device_id d) \<noteq> None then returnS outs
        else bindS (start_session E ct d) (\<lambda>s. returnS (outs @ [(entry_device_id d, s)]))) devices (cs_outbound st)) (\<lambda>outs.
     returnS (st\<lparr>cs_devices := devices, cs_outbound := outs\<rparr>))))"

subsection \<open>Sending\<close>

definition pending_fields :: "'w env \<Rightarrow> session \<Rightarrow> dict \<Rightarrow> ('w, dict) cmeth" where
  "pending_fields E s e =
     (case (session_sk s, session_init s) of
        (Some k, Some i) \<Rightarrow>
          bindS (getS (\<lambda>c. build_auth (e_crypto E) (c_identity c) (session_sid s) i k)) (\<lambda>auth.
          bindS (own_card E) (\<lambda>crd.
          returnS (AList.update ''card'' (JObj (signed_dict crd)) (AList.update ''auth'' (JObj auth) e))))
      | _ \<Rightarrow> raiseS ClientError)"

definition seal_envelope :: "'w env \<Rightarrow> session \<Rightarrow> dict \<Rightarrow> string \<Rightarrow> ('w, bytes \<times> session) cmeth" where
  "seal_envelope E s envelope kind =
     bindS (if is_pending s then pending_fields E s envelope else returnS envelope) (\<lambda>e.
     bindS (readE (e_choice E)) (\<lambda>rnd.
     bindS (urandom E 12) (\<lambda>nonce.
     let (r, st) = seal (e_crypto E) rnd nonce e (session_sid s) (if is_pending s then session_init s else None)
                     (Some (envelope_max_size kind)) (session_state s) in
     bindS (liftS r) (\<lambda>blob. returnS (blob, s\<lparr>session_state := st\<rparr>)))))"

definition send_envelope :: "'w env \<Rightarrow> device_entry \<Rightarrow> session \<Rightarrow> dict \<Rightarrow> string \<Rightarrow> ('w, bytes \<times> session) cmeth" where
  "send_envelope E d s envelope kind =
     bindS (seal_envelope E s envelope kind) (\<lambda>(blob, s').
     bindS (backend_for (entry_relays d)) (\<lambda>pool.
     bindS (liftS (device_capability d)) (\<lambda>cap.
     thenS (backend_put E pool cap blob) (returnS (blob, s')))))"

fun fan_out :: "'w env \<Rightarrow> device_entry list \<Rightarrow> (device_entry \<Rightarrow> ('w, dict) cmeth) \<Rightarrow> string \<Rightarrow> (string \<times> session) list
    \<Rightarrow> ('w, (device_entry \<times> bytes) list \<times> (string \<times> session) list) cmeth" where
  "fan_out E [] envelope_for kind ss = returnS ([], ss)"
| "fan_out E (d # ds) envelope_for kind ss =
     bindS (liftS (of_option KeyError (map_of ss (entry_device_id d)))) (\<lambda>s.
     bindS (envelope_for d) (\<lambda>e.
     bindS (send_envelope E d s e kind) (\<lambda>(blob, s').
     bindS (fan_out E ds envelope_for kind (AList.update (entry_device_id d) s' ss)) (\<lambda>(rest, ss').
     returnS ((d, blob) # rest, ss')))))"

definition queue_outbox :: "'w env \<Rightarrow> contact \<Rightarrow> device_entry \<Rightarrow> string \<Rightarrow> bytes \<Rightarrow> ('w, unit) cmeth" where
  "queue_outbox E ct d mid blob =
     bindS (getS (account E)) (\<lambda>iid.
     bindS (liftS (bindE (getitem (JObj (entry_inbox d)) ''id'') (\<lambda>v. bindE (sql_text v) (of_option IntegrityError)))) (\<lambda>mb.
     bindS (now_ms E) (\<lambda>t.
     on_store (outbox_add (seconds t) \<lparr>ob_id = mid @ '':'' @ entry_device_id d, ob_identity = iid, ob_contact = ct_id ct,
       ob_mailbox = mb, ob_relay = JStr (join '','' (entry_relays d)), ob_payload = JStr (b64e blob), ob_seq = Some 1,
       ob_created_at = seconds t\<rparr>))))"

definition mirror_sent :: "'w env \<Rightarrow> string \<Rightarrow> string \<Rightarrow> ('w, unit) cmeth" where
  "mirror_sent E cid mid =
     bindS (ask_store (get_message mid)) (\<lambda>row.
     case row of None \<Rightarrow> returnS () | Some m \<Rightarrow> ignoring (thenS (mirror_message E cid m) (returnS ())))"

definition sent_message :: "string \<Rightarrow> string \<Rightarrow> string \<Rightarrow> string \<Rightarrow> json \<Rightarrow> int \<Rightarrow> message" where
  "sent_message mid iid cid kind content t =
     \<lparr>msg_id = mid, msg_identity = iid, msg_contact = JStr cid, msg_direction = JStr ''sent'', msg_type = JStr kind, msg_body = content,
      msg_remote_id = JNull, msg_ts = t, msg_state = JStr ''sent'', msg_meta = JNull\<rparr>"

text \<open>What follows the fan-out in \<open>send_text\<close> and \<open>send_file\<close>: the sessions are saved, then the message is recorded, queued and mirrored.\<close>

definition record_sent :: "'w env \<Rightarrow> contact \<Rightarrow> string \<Rightarrow> peer_sessions \<Rightarrow> string \<Rightarrow> string \<Rightarrow> json \<Rightarrow> (device_entry \<times> bytes) list \<Rightarrow> ('w, string) cmeth" where
  "record_sent E ct cid st mid kind content copies =
     thenS (save_sessions E cid st)
     (bindS (getS (account E)) (\<lambda>iid.
      bindS (now_ms E) (\<lambda>t.
      thenS (on_store (add_message (sent_message mid iid cid kind content t)))
      (thenS (mapS (\<lambda>(d, blob). queue_outbox E ct d mid blob) copies)
      (thenS (mirror_sent E cid mid) (returnS mid))))))"

definition send_text :: "'w env \<Rightarrow> string \<Rightarrow> string \<Rightarrow> ('w, string) cmeth" where
  "send_text E cid txt =
     thenS (ensure_provisioned E)
     (bindS (require_contact E cid) (\<lambda>ct.
      bindS (liftS (load_sessions ct)) (\<lambda>st0.
      bindS (ensure_outbound E ct st0) (\<lambda>st.
      bindS (new_id E) (\<lambda>mid.
      bindS (now_ms E) (\<lambda>t.
      let content = JObj [(''text'', JStr txt)]; envelope = make_envelope ''text'' content mid t None None in
      bindS (fan_out E (cs_devices st) (\<lambda>_. returnS envelope) ''text'' (cs_outbound st)) (\<lambda>(copies, outs).
      record_sent E ct cid (st\<lparr>cs_outbound := outs\<rparr>) mid ''text'' content copies)))))))"

text \<open>\<open>n\<close> draws at once, for the nonces of the chunks.\<close>

definition urandoms :: "'w env \<Rightarrow> nat \<Rightarrow> nat \<Rightarrow> ('w, nat \<Rightarrow> bytes) cmeth" where
  "urandoms E len n c = (Inr (\<lambda>k. e_random E (c_reads c + k) len), c\<lparr>c_reads := c_reads c + n\<rparr>)"

definition upload_chunks :: "'w env \<Rightarrow> attachment \<Rightarrow> string \<Rightarrow> string \<Rightarrow> string \<Rightarrow> device_entry \<Rightarrow> ('w, string \<times> json) cmeth" where
  "upload_chunks E att name mime caption d =
     bindS (backend_for (entry_relays d)) (\<lambda>pool.
     bindS (liftS (device_capability d)) (\<lambda>cap.
     bindS (mapS (\<lambda>ch. backend_put_blob E pool cap (chunk_ciphertext ch)) (att_chunks att)) (\<lambda>ids.
     bindS (liftS (manifest_dict att ids)) (\<lambda>man.
     returnS (entry_device_id d, JObj [(''caption'', JStr caption),
       (''attachment'', JObj (man @ [(''name'', JStr name), (''mime'', JStr mime)]))])))))"

definition manifest_chunk_ids :: "json \<Rightarrow> string list res" where
  "manifest_chunk_ids content =
     bindE (getitem content ''attachment'') (\<lambda>a. bindE (getitem a ''chunks'') (each (\<lambda>c. bindE (getitem c ''id'') (\<lambda>i. Inr (py_str i)))))"

definition body_for :: "(string \<times> json) list \<Rightarrow> device_entry \<Rightarrow> json res" where
  "body_for bodies d = of_option KeyError (map_of (rev bodies) (entry_device_id d))"

text \<open>The file's content, base name and type are arguments.\<close>

definition send_file :: "'w env \<Rightarrow> string \<Rightarrow> bytes \<Rightarrow> string \<Rightarrow> string \<Rightarrow> string \<Rightarrow> ('w, string) cmeth" where
  "send_file E cid data name mime caption =
     thenS (ensure_provisioned E)
     (bindS (require_contact E cid) (\<lambda>ct.
      bindS (liftS (load_sessions ct)) (\<lambda>st0.
      bindS (ensure_outbound E ct st0) (\<lambda>st.
      bindS (urandom E KEY_SIZE) (\<lambda>key.
      bindS (urandoms E 12 (chunk_count data)) (\<lambda>nonces.
      bindS (liftS (encrypt_attachment (e_crypto E) key nonces data)) (\<lambda>att.
      bindS (mapS (upload_chunks E att name mime caption) (cs_devices st)) (\<lambda>bodies.
      bindS (liftS (bindE (of_option IndexError (case cs_devices st of [] \<Rightarrow> None | d # _ \<Rightarrow> Some d)) (body_for bodies))) (\<lambda>content.
      bindS (liftS (manifest_chunk_ids content)) (\<lambda>ids.
      thenS (mapS (\<lambda>(i, ch). bindS (now_ms E) (\<lambda>t. on_store (put_local_blob (seconds t) i (chunk_ciphertext ch)))) (zip ids (att_chunks att)))
      (bindS (new_id E) (\<lambda>mid.
       bindS (fan_out E (cs_devices st) (\<lambda>d. bindS (liftS (body_for bodies d)) (\<lambda>b. bindS (now_ms E) (\<lambda>t.
          returnS (make_envelope ''file'' b mid t None None)))) ''file'' (cs_outbound st)) (\<lambda>(copies, outs).
       record_sent E ct cid (st\<lparr>cs_outbound := outs\<rparr>) mid ''file'' content copies)))))))))))))"

definition resend :: "'w env \<Rightarrow> outbox_row \<Rightarrow> ('w, bool) cmeth" where
  "resend E row =
     (if (case ob_seq row of None \<Rightarrow> False | Some n \<Rightarrow> n \<noteq> 0) then returnS False
      else bindS (getS (\<lambda>c. get_contact (account E c) (ob_contact row) (c_store c))) (\<lambda>found.
        case found of None \<Rightarrow> returnS False
        | Some ct \<Rightarrow>
           bindS (liftS (cached_devices ct)) (\<lambda>ds.
           case find (\<lambda>d. dget (entry_inbox d) ''id'' = JStr (ob_mailbox row)) ds of None \<Rightarrow> returnS False
           | Some d \<Rightarrow>
              catchS (\<lambda>_. True)
                (bindS (backend_for (entry_relays d)) (\<lambda>pool.
                 bindS (liftS (device_capability d)) (\<lambda>cap.
                 bindS (liftS (b64d_json (ob_payload row))) (\<lambda>blob.
                 thenS (backend_put E pool cap blob) (thenS (on_store (outbox_mark_sent (ob_id row))) (returnS True))))))
                (returnS False))))"

definition flush_outbox :: "'w env \<Rightarrow> ('w, int) cmeth" where
  "flush_outbox E =
     bindS (getS (\<lambda>c. outbox_list (account E c) None (c_store c))) (\<lambda>rows.
     foldS (\<lambda>row n. bindS (resend E row) (\<lambda>ok. returnS (if ok then n + 1 else n))) rows 0)"

definition send_receipt :: "'w env \<Rightarrow> contact \<Rightarrow> json \<Rightarrow> string \<Rightarrow> ('w, unit) cmeth" where
  "send_receipt E ct0 of_id kind =
     bindS (new_id E) (\<lambda>mid.
     bindS (now_ms E) (\<lambda>t.
     let envelope = make_envelope ''receipt'' (JObj [(''of'', of_id), (''kind'', JStr kind)]) mid t None None in
     ignoring
       (bindS (getS (\<lambda>c. get_contact (account E c) (ct_id ct0) (c_store c))) (\<lambda>row.
        let ct = (case row of Some x \<Rightarrow> x | None \<Rightarrow> ct0) in
        bindS (liftS (load_sessions ct)) (\<lambda>st0.
        bindS (ensure_outbound E ct st0) (\<lambda>st.
        bindS (fan_out E (cs_devices st) (\<lambda>_. returnS envelope) ''receipt'' (cs_outbound st)) (\<lambda>(_, outs).
        save_sessions E (ct_id ct) (st\<lparr>cs_outbound := outs\<rparr>))))))))"

subsection \<open>Receiving\<close>

definition begin_inbound :: "'w env \<Rightarrow> dict \<Rightarrow> ('w, (session \<times> json) option) cmeth" where
  "begin_inbound E w =
     bindS (liftS (getitem (JObj w) ''init'')) (\<lambda>init.
     bindS (getS (\<lambda>c. (load_prekeys (account E c) (c_store c), x_private (c_identity c)))) (\<lambda>(found, xp).
     case found of None \<Rightarrow> returnS None
     | Some prekeys \<Rightarrow>
       if \<not> truthy prekeys then returnS None
       else bindS (liftS (bindE (getitem init ''spk_id'') py_int)) (\<lambda>a.
         bindS (liftS (bindE (getitem prekeys ''spk_id'') py_int)) (\<lambda>b.
         if a \<noteq> b then returnS None
         else bindS (liftS (py_get init ''opk_id'')) (\<lambda>oid.
           bindS (liftS (if oid = JNull then Inr (Some None)
                  else bindE (bindE (getitem prekeys ''opks'') json_items) (\<lambda>opks.
                    case map_of opks (py_str oid) of None \<Rightarrow> Inr None
                    | Some entry \<Rightarrow> if entry = JNull then Inr None
                        else bindE (bindE (getitem entry ''priv'') b64d_json) (\<lambda>p. Inr (Some (Some p)))))) (\<lambda>opk.
           case opk of None \<Rightarrow> returnS None
           | Some opk_private \<Rightarrow>
              (case bindE (bindE (getitem prekeys ''spk_private'') b64d_json) (\<lambda>sp.
                    bindE (bindE (getitem init ''ek'') b64d_json) (\<lambda>ek. respond (e_crypto E) xp sp opk_private ek)) of
                 Inl _ \<Rightarrow> returnS None
               | Inr key \<Rightarrow>
                   liftS (bindE (bindE (getitem (JObj w) ''sid'') b64d_json) (\<lambda>sid.
                     bindE (bindE (getitem prekeys ''spk_private'') b64d_json) (\<lambda>sp.
                     bindE (bindE (getitem prekeys ''spk_public'') b64d_json) (\<lambda>sq.
                     Inr (Some (\<lparr>session_sid = sid, session_state = responder key sp sq, session_sk = Some key,
                       session_init = Some init, established = False\<rparr>, oid)))))))))))))"

definition consume_opk :: "'w env \<Rightarrow> json \<Rightarrow> ('w, unit) cmeth" where
  "consume_opk E oid =
     (if oid = JNull then returnS ()
      else bindS (getS (\<lambda>c. (account E c, load_prekeys (account E c) (c_store c)))) (\<lambda>(iid, found).
        case found of None \<Rightarrow> returnS ()
        | Some prekeys \<Rightarrow>
          if \<not> truthy prekeys then returnS ()
          else bindS (liftS (bindE (getitem prekeys ''opks'') json_items)) (\<lambda>opks.
            if (case map_of opks (py_str oid) of None \<Rightarrow> True | Some v \<Rightarrow> v = JNull) then returnS ()
            else bindS (liftS (json_items prekeys)) (\<lambda>d.
              on_store (save_prekeys iid (JObj (AList.update ''opks'' (JObj (AList.delete (py_str oid) opks)) d)))))))"

definition finish_inbound :: "'w env \<Rightarrow> session \<Rightarrow> dict \<Rightarrow> json \<Rightarrow> ('w, contact option) cmeth" where
  "finish_inbound E s envelope oid =
     (case (dget envelope ''auth'', dget envelope ''card'') of
        (JObj a, JObj cd) \<Rightarrow>
          (case (session_sk s, session_init s) of
             (Some k, Some i) \<Rightarrow>
               bindS (liftS (verify_auth (e_crypto E) (JObj a) (session_sid s) i k)) (\<lambda>ok.
               if \<not> ok then returnS None
               else (case card_from_dict (e_crypto E) (JObj cd) of
                  Inl e \<Rightarrow> if e = CardError then returnS None else raiseS e
                | Inr crd \<Rightarrow>
                    if JStr (card_identity_id crd) \<noteq> dget a ''id'' then returnS None
                    else bindS (liftS (bindE (getitem (JObj a) ''isign'') b64d_json)) (\<lambda>is.
                      if card_isign crd \<noteq> is then returnS None
                      else bindS (store_card E crd JNull) (\<lambda>ct. thenS (consume_opk E oid) (returnS (Some ct))))))
           | _ \<Rightarrow> returnS None)
      | _ \<Rightarrow> returnS None)"

definition received_message :: "string \<Rightarrow> string \<Rightarrow> string \<Rightarrow> json \<Rightarrow> json \<Rightarrow> json \<Rightarrow> int \<Rightarrow> message" where
  "received_message mid iid cid kind content rid t =
     \<lparr>msg_id = mid, msg_identity = iid, msg_contact = JStr cid, msg_direction = JStr ''received'', msg_type = kind, msg_body = content,
      msg_remote_id = rid, msg_ts = t, msg_state = JStr ''received'', msg_meta = JNull\<rparr>"

definition receive_message :: "'w env \<Rightarrow> contact \<Rightarrow> dict \<Rightarrow> json \<Rightarrow> json \<Rightarrow> ('w, message option) cmeth" where
  "receive_message E ct envelope kind content =
     (let rid = dget envelope ''id'' in
      if \<not> truthy rid then returnS None
      else bindS (getS (account E)) (\<lambda>iid.
        bindS (liftS (bindE (sql_text rid) (of_option SqliteError))) (\<lambda>rtext.
        bindS (ask_store (find_by_remote_id iid rtext (Some ''received''))) (\<lambda>dup.
        if dup \<noteq> None then returnS None
        else bindS (new_id E) (\<lambda>mid.
          bindS (now_ms E) (\<lambda>t.
          bindS (liftS (int_or (dget envelope ''ts'') t)) (\<lambda>ts.
          thenS (on_store (add_message (received_message mid iid (ct_id ct) kind content rid ts)))
          (thenS (send_receipt E ct rid ''delivered'')
          (ask_store (get_message mid)))))))))) "

definition receive_receipt :: "'w env \<Rightarrow> contact \<Rightarrow> json \<Rightarrow> ('w, unit) cmeth" where
  "receive_receipt E ct content =
     bindS (liftS (py_get content ''of'')) (\<lambda>target.
     if \<not> truthy target then returnS ()
     else bindS (liftS (py_get content ''kind'')) (\<lambda>k.
       bindS (liftS (bindE (sql_text target) (of_option SqliteError))) (\<lambda>mid.
       thenS (on_store (update_message mid [FState (py_or k (JStr ''read''))]))
       (thenS (on_store (outbox_remove_for_message mid))
       (bindS (ask_store (get_message mid)) (\<lambda>row.
        case row of None \<Rightarrow> returnS () | Some m \<Rightarrow> ignoring (thenS (mirror_state E (ct_id ct) m) (returnS ()))))))))"

definition process_envelope :: "'w env \<Rightarrow> contact \<Rightarrow> dict \<Rightarrow> ('w, message option) cmeth" where
  "process_envelope E ct envelope =
     (let kind = dget envelope ''type''; content = py_or (dget envelope ''body'') (JObj []) in
      if kind = JStr ''text'' \<or> kind = JStr ''file'' then receive_message E ct envelope kind content
      else if kind = JStr ''receipt'' then thenS (receive_receipt E ct content) (returnS None)
      else returnS None)"

definition put_session :: "bucket \<Rightarrow> string \<Rightarrow> session \<Rightarrow> peer_sessions \<Rightarrow> peer_sessions" where
  "put_session b key s st = (case b of Outbound \<Rightarrow> st\<lparr>cs_outbound := AList.update key s (cs_outbound st)\<rparr>
     | Inbound \<Rightarrow> st\<lparr>cs_inbound := AList.update key s (cs_inbound st)\<rparr>)"

definition confirm :: "session \<Rightarrow> session" where
  "confirm s = s\<lparr>established := True, session_sk := None\<rparr>"

text \<open>A message of a session that is known.\<close>

definition handle_known :: "'w env \<Rightarrow> bytes \<Rightarrow> contact \<Rightarrow> peer_sessions \<Rightarrow> bucket \<Rightarrow> string \<Rightarrow> session \<Rightarrow> ('w, message option) cmeth" where
  "handle_known E blob ct st b key s =
     bindS (urandom E 32) (\<lambda>priv.
     case unseal (e_crypto E) priv blob (session_state s) of
       (Inl e, _) \<Rightarrow> if e = WireError then returnS None else raiseS e
     | (Inr (envelope, _, _), r) \<Rightarrow>
         let s1 = s\<lparr>session_state := r\<rparr>; s2 = (if established s1 then s1 else confirm s1) in
         thenS (save_sessions E (ct_id ct) (put_session b key s2 st))
         (process_envelope E ct envelope))"

text \<open>The first message of a session: the handshake header is in the clear part.\<close>

definition handle_fresh :: "'w env \<Rightarrow> bytes \<Rightarrow> dict \<Rightarrow> ('w, message option) cmeth" where
  "handle_fresh E blob w =
     bindS (begin_inbound E w) (\<lambda>started.
     case started of None \<Rightarrow> returnS None
     | Some (s, oid) \<Rightarrow>
       bindS (urandom E 32) (\<lambda>priv.
       case unseal (e_crypto E) priv blob (session_state s) of
         (Inl e, _) \<Rightarrow> if e = WireError then returnS None else raiseS e
       | (Inr (envelope, _, _), r) \<Rightarrow>
           bindS (finish_inbound E (s\<lparr>session_state := r\<rparr>) envelope oid) (\<lambda>accepted.
           case accepted of None \<Rightarrow> returnS None
           | Some ct \<Rightarrow>
               bindS (liftS (load_sessions ct)) (\<lambda>st.
               bindS (getS (\<lambda>c. case c_device_id c of None \<Rightarrow> LEGACY_DEVICE | Some d \<Rightarrow> if d = [] then LEGACY_DEVICE else d)) (\<lambda>key.
               thenS (save_sessions E (ct_id ct) (put_session Inbound key (confirm (s\<lparr>session_state := r\<rparr>)) st))
               (process_envelope E ct envelope))))))"

definition handle_blob :: "'w env \<Rightarrow> bytes \<Rightarrow> ('w, message option) cmeth" where
  "handle_blob E blob =
     bindS (liftS (parse_wire blob)) (\<lambda>w.
     bindS (liftS (bindE (getitem (JObj w) ''sid'') b64d_json)) (\<lambda>sid.
     bindS (find_session E sid) (\<lambda>hit.
     case hit of Some (ct, st, b, key, s) \<Rightarrow> handle_known E blob ct st b key s
     | None \<Rightarrow> if map_of w ''init'' = None then returnS None else handle_fresh E blob w)))"

definition handle_item :: "'w env \<Rightarrow> fetched_message \<Rightarrow> ('w, message option) cmeth" where
  "handle_item E item =
     catchS (\<lambda>_. True)
       (if is_device_record (fm_blob item) then thenS (handle_record E (fm_blob item)) (returnS None) else handle_blob E (fm_blob item))
       (returnS None)"

definition bump :: "fetched_message \<Rightarrow> (string \<times> int) list \<Rightarrow> (string \<times> int) list" where
  "bump item seqs = AList.update (fm_relay item)
     (max (case map_of seqs (fm_relay item) of None \<Rightarrow> 0 | Some n \<Rightarrow> n) (fm_seq item)) seqs"

definition collect_new :: "'w env \<Rightarrow> fetched_message list \<Rightarrow> ('w, message list) cmeth" where
  "collect_new E fetched = foldS (\<lambda>item new. bindS (handle_item E item) (\<lambda>m. returnS (case m of None \<Rightarrow> new | Some x \<Rightarrow> new @ [x]))) fetched []"

definition sync :: "'w env \<Rightarrow> int \<Rightarrow> ('w, message list) cmeth" where
  "sync E wait =
     thenS (ensure_provisioned E)
     (bindS (getS id) (\<lambda>c. bindS (assertS (c_own_inbox c)) (\<lambda>cap.
      bindS (backend_fetch E (c_backend c) cap [] wait) (\<lambda>fetched.
      bindS (collect_new E fetched) (\<lambda>new.
      let seqs = fold bump fetched [] in
      thenS (if seqs = [] then returnS () else bindS (getS c_backend) (\<lambda>pool. backend_ack E pool cap seqs)) (returnS new))))))"

definition mark_read :: "'w env \<Rightarrow> string \<Rightarrow> string \<Rightarrow> ('w, unit) cmeth" where
  "mark_read E cid mid =
     bindS (require_contact E cid) (\<lambda>ct.
     bindS (ask_store (get_message mid)) (\<lambda>found.
     case found of None \<Rightarrow> raiseS ClientError
     | Some m \<Rightarrow>
        thenS (send_receipt E ct (py_or (msg_remote_id m) (JStr mid)) ''read'')
        (ignoring (thenS (mirror_state E cid (m\<lparr>msg_state := JStr ''read''\<rparr>)) (returnS ())))))"

subsection \<open>Device synchronisation and reading\<close>

definition client_request_history :: "'w env \<Rightarrow> int option \<Rightarrow> ('w, string list) cmeth" where
  "client_request_history E since = thenS (ensure_provisioned E) (request_history E since None)"

definition history_requests :: "'w env \<Rightarrow> ('w, pending_request list) cmeth" where
  "history_requests E = thenS (ensure_provisioned E) (pending_requests E)"

definition approve_history :: "'w env \<Rightarrow> string \<Rightarrow> int option \<Rightarrow> ('w, int \<times> string \<times> int \<times> int) cmeth" where
  "approve_history E dev since = thenS (ensure_provisioned E) (approve_device E dev since None)"

definition deny_history :: "'w env \<Rightarrow> string \<Rightarrow> ('w, unit) cmeth" where
  "deny_history E dev = thenS (ensure_provisioned E) (deny_device E dev)"

definition revoke_history_approval :: "'w env \<Rightarrow> string \<Rightarrow> ('w, unit) cmeth" where
  "revoke_history_approval E dev = thenS (ensure_provisioned E) (revoke_approval E dev)"

definition client_approved_devices :: "'w env \<Rightarrow> ('w, string list) cmeth" where
  "client_approved_devices E = thenS (ensure_provisioned E) (approved_devices E)"

definition sync_status :: "'w env \<Rightarrow> ('w, sibling_status list) cmeth" where
  "sync_status E = thenS (ensure_provisioned E) (iter_status E)"

definition client_messages :: "'w env \<Rightarrow> string \<Rightarrow> ('w, message list) cmeth" where
  "client_messages E cid = getS (\<lambda>c. list_messages (account E c) cid (c_store c))"

definition cached_chunk :: "'w env \<Rightarrow> mailbox_capability \<Rightarrow> string \<Rightarrow> ('w, bytes) cmeth" where
  "cached_chunk E ib cid =
     bindS (ask_store (get_local_blob cid)) (\<lambda>found.
     case found of Some ct \<Rightarrow> returnS ct
     | None \<Rightarrow>
        bindS (getS c_backend) (\<lambda>pool.
        bindS (backend_get_blob E pool ib cid) (\<lambda>ct.
        bindS (now_ms E) (\<lambda>t. thenS (on_store (put_local_blob (seconds t) cid ct)) (returnS ct)))))"

definition download_attachment :: "'w env \<Rightarrow> message \<Rightarrow> ('w, bytes) cmeth" where
  "download_attachment E m =
     thenS (ensure_provisioned E)
     (bindS (liftS (py_get (py_or (msg_body m) (JObj [])) ''attachment'')) (\<lambda>man.
      if \<not> truthy man then raiseS AttachmentError
      else bindS (liftS (decode_manifest man)) (\<lambda>(key, ids, nonces, sha).
        bindS (bindS (getS c_own_inbox) assertS) (\<lambda>ib.
        bindS (mapS (cached_chunk E ib) ids) (\<lambda>cts.
        liftS (decrypt_attachment (e_crypto E) key nonces cts sha))))))"

definition close :: "('w, unit) cmeth" where
  "close = modifyS (\<lambda>c. c\<lparr>c_peer_backends := []\<rparr>)"

end
