(* ===== verification/ClientRun.thy ===== *)
theory ClientRun
  imports Client
begin

section \<open>Runs of the client\<close>

text \<open>
  What the operations of \<open>Client\<close> keep.  The locales \<open>provisioning_relation\<close>, \<open>sending_relation\<close>, \<open>talking_relation\<close> and
  \<open>acting_relation\<close> extend those of \<open>ClientState\<close> and \<open>Sync\<close> by the writes that provisioning, sending and the whole client make; what is proved
  inside them holds for every relation that survives those writes.  The second part is the client as a machine over its public
  operations, with the invariant of its store.
\<close>

subsection \<open>Provisioning\<close>

lemma bind_getS: "bindS (getS g) f s = f (g s) s"
  by (simp add: meth_defs)

context method_relation
begin

lemma keeps_ignoring: "keeps R m \<Longrightarrow> keeps R (ignoring m)"
  unfolding ignoring_def by (intro keeps_catch keeps_pure)

lemma keeps_lift: "(\<And>x. r = Inr x \<Longrightarrow> keeps R (f x)) \<Longrightarrow> keeps R (bindS (liftS r) f)"
  unfolding keeps_def by (blast intro: rel_lift)

lemma keeps_assert: "keeps R (assertS x)"
  unfolding assertS_def by (rule keeps_pure)

end

lemma keeps_case_text: "(\<And>s. v = JStr s \<Longrightarrow> keeps R (f s)) \<Longrightarrow> keeps R k \<Longrightarrow> keeps R (case v of JStr s \<Rightarrow> f s | _ \<Rightarrow> k)"
  by (cases v) auto

context requesting_relation
begin

lemma keeps_publish: "keeps R (publish_bundle_of E prekeys)" "keeps R (announce E ib)"
proof -
  show p: "keeps R (publish_bundle_of E prekeys)" for prekeys
    unfolding publish_bundle_of_def by (intro requesting_intros keeps_assert)
  show "keeps R (announce E ib)"
    unfolding announce_def by (intro requesting_intros keeps_ignoring p)
qed

lemma keeps_registered_if:
  assumes "keeps R (ensure_device_id E)" "\<And>v. keeps R (state_set E DEVICE_KEYS_STATE v)"
  shows "keeps R (ensure_device_registered E)"
  unfolding ensure_device_registered_def by (intro requesting_intros assms keeps_ignoring keeps_publish_device_keys_if)

end

locale provisioning_relation = writing_relation +
  assumes R_inbox: "R c (c\<lparr>c_own_inbox := ib\<rparr>)" and R_bundle: "R c (c\<lparr>c_bundle_id := bid\<rparr>)" and R_name: "R c (c\<lparr>c_name := nm\<rparr>)"
    and R_card: "R c (c\<lparr>c_card := Some crd\<rparr>)" and R_device: "R c (c\<lparr>c_device_id := dev\<rparr>)"
    and R_prekeys: "R c (c\<lparr>c_store := snd (save_prekeys iid d (c_store c))\<rparr>)"
begin

lemma keeps_save_prekeys: "keeps R (on_store (save_prekeys iid d))"
  by (rule keepsI) (simp add: on_store_def split_beta Let_def R_prekeys)

lemma keeps_registration: "keeps R (ensure_device_id E)" "keeps R (ensure_device_registered E)"
proof -
  show d: "keeps R (ensure_device_id E)"
    unfolding ensure_device_id_def by (intro writing_intros keeps_case_text keeps_modify R_device)
  show "keeps R (ensure_device_registered E)"
    by (rule keeps_registered_if [OF d]) (rule keeps_state_set)
qed

lemma keeps_provision: "keeps R (provision E)"
proof -
  have g: "keeps R (generate_prekeys E n)" for n
    unfolding generate_prekeys_def keypair_def by (intro writing_intros)
  have "keeps R (create_provisioned E)"
    unfolding create_provisioned_def by (intro writing_intros keeps_modify R_inbox R_bundle g keeps_save_prekeys keeps_publish)
  moreover have "keeps R (load_provisioned E d)" for d
    unfolding load_provisioned_def by (intro writing_intros keeps_modify R_inbox R_bundle R_name keeps_publish)
  ultimately show ?thesis
    unfolding provision_def by (intro writing_intros keeps_case_json keeps_modify R_card keeps_registration)
qed

lemma keeps_ensure_provisioned: "keeps R (ensure_provisioned E)"
  unfolding ensure_provisioned_def by (intro writing_intros keeps_provision)

end

subsection \<open>Sending\<close>

locale sending_relation = writing_relation +
  assumes R_session: "R c (c\<lparr>c_store := snd (set_contact_session iid cid doc (c_store c))\<rparr>)"
    and R_ready: "keeps R (ensure_provisioned E)"
begin

lemma keeps_own_card: "keeps R (own_card E)"
  unfolding own_card_def by (intro keeps_intros R_ready keeps_assert)

lemma keeps_save_sessions: "keeps R (save_sessions E cid st)"
proof -
  have "keeps R (on_store (set_contact_session iid cid doc))" for iid doc
    by (rule keepsI) (simp add: on_store_def split_beta Let_def R_session)
  then show ?thesis unfolding save_sessions_def by (intro keeps_intros)
qed

lemma keeps_peer_devices: "keeps R (peer_devices E ct)"
  unfolding peer_devices_def fetch_peer_device_list_def by (intro writing_intros)

lemma keeps_start_session: "keeps R (start_session E ct d)"
  unfolding start_session_def fetch_device_bundle_def by (intro writing_intros)

lemma keeps_ensure_outbound: "keeps R (ensure_outbound E ct st)"
  unfolding ensure_outbound_def by (intro writing_intros keeps_peer_devices keeps_start_session)

lemma keeps_send_envelope: "keeps R (send_envelope E d s envelope kind)"
proof -
  have "keeps R (pending_fields E s e)" for e
    unfolding pending_fields_def by (cases "session_sk s"; cases "session_init s") (auto intro!: writing_intros keeps_own_card)
  then have "keeps R (seal_envelope E s envelope kind)"
    unfolding seal_envelope_def by (intro writing_intros)
  then show ?thesis
    unfolding send_envelope_def by (intro writing_intros)
qed

lemma keeps_fan_out: "(\<And>d. keeps R (env d)) \<Longrightarrow> keeps R (fan_out E ds env kind ss)"
  by (induction ds arbitrary: ss) (auto intro!: writing_intros keeps_send_envelope)

lemma keeps_send_receipt: "keeps R (send_receipt E ct i kind)"
  unfolding send_receipt_def by (intro writing_intros keeps_ignoring keeps_ensure_outbound keeps_fan_out keeps_save_sessions)

lemma keeps_mirror_sent: "keeps R (mirror_sent E cid mid)"
  unfolding mirror_sent_def by (intro writing_intros keeps_ask keeps_ignoring keeps_mirror)

end

locale talking_relation = provisioning_relation +
  assumes R_set_session: "R c (c\<lparr>c_store := snd (set_contact_session iid cid doc (c_store c))\<rparr>)"

sublocale talking_relation \<subseteq> sending_relation
  by unfold_locales (rule R_set_session, rule keeps_ensure_provisioned)


subsection \<open>Receiving\<close>

locale receiving_relation = sending_relation +
  assumes R_receive: "R c (c\<lparr>c_store := snd (add_message m (c_store c))\<rparr>)"
    and R_receipt: "R c (c\<lparr>c_store := snd (update_message mid fs (c_store c))\<rparr>)"
    and R_delivered: "R c (c\<lparr>c_store := snd (outbox_remove_for_message mid (c_store c))\<rparr>)"
begin

lemma keeps_receipt_writes: "keeps R (on_store (add_message m))" "keeps R (on_store (update_message mid fs))" "keeps R (on_store (outbox_remove_for_message mid))"
  by (rule keepsI, simp add: on_store_def split_beta Let_def R_receive R_receipt R_delivered)+

lemma keeps_process_envelope: "keeps R (process_envelope E ct envelope)"
  unfolding process_envelope_def receive_message_def receive_receipt_def
  by (intro writing_intros keeps_ask keeps_ignoring keeps_send_receipt keeps_mirror keeps_receipt_writes)

end

subsection \<open>Discovery makes \<open>GET\<close> requests only\<close>

lemma on_net_catch: "on_net (catchS p m h) = catchS p (on_net m) (on_net h)"
  by (rule ext) (auto simp: on_net_def catchS_def Let_def split: prod.split sum.split)

context looking_relation
begin

lemma keeps_net_bind: "keeps R (on_net m) \<Longrightarrow> (\<And>x. keeps R (on_net (f x))) \<Longrightarrow> keeps R (on_net (bindS m f))"
  unfolding on_net_bind by (rule keeps_bind)

lemma keeps_net_catch: "keeps R (on_net m) \<Longrightarrow> keeps R (on_net h) \<Longrightarrow> keeps R (on_net (catchS p m h))"
  unfolding on_net_catch by (rule keeps_catch)

lemma keeps_net_pure: "keeps R (on_net (returnS x))" "keeps R (on_net (raiseS e))" "keeps R (on_net (liftS r))"
  unfolding on_net_pure by (rule keeps_pure)+

lemma keeps_net_get: "keeps R (on_net (relay_get (e_request E) url))"
  unfolding relay_get_def by (rule keeps_get_request) (simp add: http_def)

lemmas net_intros = keeps_net_bind keeps_net_catch keeps_net_pure keeps_net_get

lemma keeps_relay_queries: "keeps R (on_net (fetch_known_relays (e_request E) lim url))" "keeps R (on_net (probe_relay (e_request E) url))"
proof -
  show "keeps R (on_net (fetch_known_relays (e_request E) lim url))"
    unfolding fetch_known_relays_def
    by (intro keeps_net_bind keeps_net_catch keeps_net_pure keeps_net_get) (simp add: keeps_net_pure split: option.split sum.split json.split)
  show "keeps R (on_net (probe_relay (e_request E) url))"
    unfolding probe_relay_def
    by (intro keeps_net_bind keeps_net_catch keeps_net_pure keeps_net_get) (simp add: keeps_net_pure split: option.split sum.split json.split)
qed

lemma keeps_gather: "keeps R (on_net (gather (e_request E) priv lim rs acc))"
  by (induction rs arbitrary: acc) (auto intro!: net_intros keeps_relay_queries)

lemma keeps_admit: "keeps R (on_net (admit (e_request E) probe lim cs result))"
  by (induction cs arbitrary: result) (auto intro!: net_intros keeps_relay_queries)

lemma keeps_discover: "keeps R (client_discover_relays E m probe k)"
  unfolding client_discover_relays_def discover_relays_def Let_def
  by (intro keeps_intros net_intros) (auto intro!: net_intros keeps_gather keeps_admit)

end

subsection \<open>The whole client\<close>

locale acting_relation = talking_relation + merging_relation +
  assumes R_upsert: "R c (c\<lparr>c_store := snd (upsert_contact now iid ct (c_store c))\<rparr>)"
    and R_delete: "R c (c\<lparr>c_store := snd (delete_contact iid cid (c_store c))\<rparr>)"
    and R_add: "R c (c\<lparr>c_store := snd (add_message m (c_store c))\<rparr>)"
    and R_queue: "ob_seq r = Some 1 \<Longrightarrow> R c (c\<lparr>c_store := snd (outbox_add now r (c_store c))\<rparr>)"
    and R_clear: "R c (c\<lparr>c_store := snd (outbox_remove_for_message mid (c_store c))\<rparr>)"
    and R_mark: "R c (c\<lparr>c_store := snd (outbox_mark_sent eid (c_store c))\<rparr>)"
    and R_blob: "R c (c\<lparr>c_store := snd (put_local_blob now bid data (c_store c))\<rparr>)"
    and R_relays: "R c (c\<lparr>c_relays := rs\<rparr>)"
    and R_backend: "pool \<noteq> [] \<Longrightarrow> R c (c\<lparr>c_backend := pool\<rparr>)"

sublocale acting_relation \<subseteq> receiving_relation
  by unfold_locales (rule R_add, rule R_update, rule R_clear)

context acting_relation
begin

lemma keeps_store_writes:
  "keeps R (on_store (upsert_contact now iid ct))" "keeps R (on_store (delete_contact iid cid))" "keeps R (on_store (add_message m))"
  "ob_seq r = Some 1 \<Longrightarrow> keeps R (on_store (outbox_add now r))" "keeps R (on_store (outbox_remove_for_message mid))"
  "keeps R (on_store (outbox_mark_sent eid))" "keeps R (on_store (put_local_blob now bid b))"
  by (rule keepsI, simp add: on_store_def split_beta Let_def R_upsert R_delete R_add R_queue R_clear R_mark R_blob)+

lemmas acting_intros = writing_intros keeps_ask keeps_assert keeps_ignoring R_ready keeps_own_card keeps_save_sessions keeps_ensure_outbound keeps_fan_out
  keeps_send_receipt keeps_mirror_sent keeps_mirror keeps_store_writes keeps_merges keeps_save_prekeys

lemma keeps_contacts: "keeps R (client_contacts E)" "keeps R (require_contact E cid)" "keeps R (store_card E crd nick)"
  unfolding client_contacts_def require_contact_def store_card_def by (intro acting_intros)+

lemma keeps_add_contact: "keeps R (add_contact E txt nick)" "keeps R (remove_contact E cid)"
  unfolding add_contact_def remove_contact_def by (intro acting_intros keeps_contacts)+

lemma keeps_record_sent: "keeps R (record_sent E ct cid st mid kind content copies)"
proof -
  have "keeps R (queue_outbox E ct d mid blob)" for d blob
    unfolding queue_outbox_def by (intro acting_intros) simp
  then show ?thesis unfolding record_sent_def by (intro acting_intros)
qed

lemma keeps_send_text: "keeps R (send_text E cid txt)"
  unfolding send_text_def by (intro acting_intros keeps_contacts keeps_record_sent)

lemma keeps_send_file: "keeps R (send_file E cid data name mime caption)"
proof -
  have "keeps R (urandoms E len n)" for len n
    by (rule keepsI) (simp add: urandoms_def R_reads)
  moreover have "keeps R (upload_chunks E att name mime caption d)" for att d
    unfolding upload_chunks_def by (intro acting_intros)
  ultimately show ?thesis unfolding send_file_def by (intro acting_intros keeps_contacts keeps_record_sent)
qed

lemma keeps_flush_outbox: "keeps R (flush_outbox E)"
  unfolding flush_outbox_def resend_def by (intro acting_intros)

lemma keeps_handle_fresh: "keeps R (handle_fresh E blob w)"
proof -
  have "keeps R (begin_inbound E w)" unfolding begin_inbound_def by (intro acting_intros keeps_case_sum)
  moreover have "keeps R (consume_opk E oid)" for oid unfolding consume_opk_def by (intro acting_intros)
  then have "keeps R (finish_inbound E s envelope oid)" for s envelope oid
    unfolding finish_inbound_def prod.case
    by (cases "session_sk s"; cases "session_init s") (auto intro!: acting_intros keeps_case_json keeps_case_sum keeps_contacts)
  ultimately show ?thesis
    unfolding handle_fresh_def by (intro acting_intros keeps_case_sum keeps_process_envelope)
qed

lemma keeps_handle_blob: "keeps R (handle_blob E blob)"
proof -
  have "keeps R (handle_known E blob ct st b key s)" for ct st b key s
    unfolding handle_known_def by (intro acting_intros keeps_case_sum keeps_process_envelope)
  then show ?thesis
    unfolding handle_blob_def find_session_def by (intro acting_intros keeps_contacts keeps_handle_fresh)
qed

lemma keeps_sync: "keeps R (sync E wait)"
  unfolding sync_def collect_new_def handle_item_def by (intro acting_intros keeps_handle_record keeps_handle_blob)

lemma keeps_refresh_relays: "keeps R (refresh_relays E m probe k)"
proof -
  have p: "make_pool urls = Inr pool \<Longrightarrow> pool \<noteq> []" for urls pool
    by (auto simp: make_pool_def Let_def split: if_splits)
  have b: "keeps R (bindS (liftS (make_pool urls)) (\<lambda>pool. thenS (modifyS (\<lambda>c. c\<lparr>c_backend := pool\<rparr>)) (f pool)))"
    if "\<And>pool. keeps R (f pool)" for urls and f :: "string list \<Rightarrow> ('a, unit) cmeth"
    by (intro keeps_lift keeps_then keeps_modify R_backend that) (rule p)
  have "keeps R (rebuild_card E)"
    unfolding rebuild_card_def by (intro acting_intros keeps_modify R_card)
  then have "keeps R (apply_relays E rs)" for rs
    unfolding apply_relays_def Let_def by (intro acting_intros keeps_modify R_relays b keeps_publish)
  then show ?thesis unfolding refresh_relays_def by (intro acting_intros keeps_discover)
qed

lemma keeps_mark_read: "keeps R (mark_read E cid mid)"
  unfolding mark_read_def by (intro acting_intros keeps_contacts)

lemma keeps_history_calls:
  "keeps R (client_request_history E since)" "keeps R (history_requests E)" "keeps R (approve_history E dev since)"
  "keeps R (deny_history E dev)" "keeps R (revoke_history_approval E dev)" "keeps R (sync_status E)"
  unfolding client_request_history_def history_requests_def approve_history_def deny_history_def revoke_history_approval_def sync_status_def
  by (intro acting_intros keeps_request_history keeps_approve_device sync_reading_intros)+

lemma keeps_download: "keeps R (download_attachment E m)"
  unfolding download_attachment_def cached_chunk_def by (intro acting_intros)

lemma keeps_close: "keeps R close"
  unfolding close_def by (rule keeps_modify) (rule R_peers)

end

subsection \<open>The store of a running client\<close>

text \<open>The invariant of the store, together with what the client's own use of it adds: a row of the outbox is only ever written for a copy
  that a relay has accepted.\<close>

definition all_sent :: "store \<Rightarrow> bool" where
  "all_sent s \<longleftrightarrow> list_all (\<lambda>r. ob_seq r = Some 1) (s_outbox s)"

definition used_store :: "store \<Rightarrow> bool" where
  "used_store s \<longleftrightarrow> store_inv s \<and> all_sent s"

definition own_op :: "store_op \<Rightarrow> bool" where
  "own_op op = (case op of OutboxAdd now r \<Rightarrow> ob_seq r = Some 1 | _ \<Rightarrow> True)"

lemma used_store_step:
  assumes "own_op op" "used_store s"
  shows "used_store (store_step s op)"
proof -
  have "sql_int 1 = Inr 1" by (simp add: sql_int_def)
  then have "all_sent (store_step s op)"
    using assms
    by (cases op) (auto simp: own_op_def used_store_def all_sent_def register_identity_def upsert_contact_def delete_contact_def set_contact_session_def
        add_message_def update_message_def save_prekeys_def outbox_add_def outbox_remove_def outbox_remove_for_message_def outbox_mark_sent_def
        put_local_blob_def prune_local_blobs_def set_cursor_def set_state_def list_all_iff meth_defs split: sum.split prod.split)
  then show ?thesis using assms store_step_inv by (simp add: used_store_def)
qed

text \<open>A relation between stores that every such step keeps is kept by the merges of the history, which are sequences of them.\<close>

locale store_relation = method_relation S for S :: "store \<Rightarrow> store \<Rightarrow> bool" +
  assumes S_step: "own_op op \<Longrightarrow> S s (store_step s op)"
begin

lemma keeps_steps: "keeps S (upsert_contact now iid ct)" "keeps S (add_message m)" "keeps S (update_message mid fs)" "keeps S (put_local_blob now bid b)"
proof -
  show "keeps S (upsert_contact now iid ct)" using S_step [of "UpsertContact now iid ct"] by (simp add: keeps_def own_op_def)
  show "keeps S (add_message m)" using S_step [of "AddMessage m"] by (simp add: keeps_def own_op_def)
  show "keeps S (update_message mid fs)" using S_step [of "UpdateMessage mid fs"] by (simp add: keeps_def own_op_def)
  show "keeps S (put_local_blob now bid b)" using S_step [of "PutLocalBlob now bid b"] by (simp add: keeps_def own_op_def)
qed

lemma keeps_merging:
  "keeps S (merge_contacts now iid items cs)" "keeps S (merge_messages C iid rnd items known cs)" "keeps S (merge_chunks now items cs)"
proof -
  have "keeps S (merge_contact now iid item)" for item
    unfolding merge_contact_def by (intro keeps_intros keeps_steps)
  then show "keeps S (merge_contacts now iid items cs)"
    by (induction items arbitrary: cs) (auto intro!: keeps_intros)
  have "keeps S (merge_message C iid r item known cs)" for r item known cs
    unfolding merge_message_def update_known_def add_item_def by (intro keeps_intros keeps_steps)
  then show "keeps S (merge_messages C iid rnd items known cs)"
    by (induction items arbitrary: rnd known cs) (auto intro!: keeps_intros)
  have "keeps S (merge_chunk now item cs)" for item cs
    unfolding merge_chunk_def by (intro keeps_intros keeps_steps)
  then show "keeps S (merge_chunks now items cs)"
    by (induction items arbitrary: cs) (auto intro!: keeps_intros)
qed

end

interpretation used: store_relation "\<lambda>s s'. used_store s \<longrightarrow> used_store s'"
  by unfold_locales (auto intro: used_store_step)

definition client_inv :: "'w client \<Rightarrow> bool" where
  "client_inv c \<longleftrightarrow> used_store (c_store c) \<and> c_backend c \<noteq> []"

lemma client_inv_step: "own_op op \<Longrightarrow> client_inv c \<Longrightarrow> client_inv (c\<lparr>c_store := store_step (c_store c) op\<rparr>)"
  by (simp add: client_inv_def used_store_step)

lemma client_inv_merge:
  "client_inv c \<Longrightarrow> client_inv (c\<lparr>c_store := snd (merge_contacts now iid items cs (c_store c))\<rparr>)"
  "client_inv c \<Longrightarrow> client_inv (c\<lparr>c_store := snd (merge_messages C iid rnd items known cs (c_store c))\<rparr>)"
  "client_inv c \<Longrightarrow> client_inv (c\<lparr>c_store := snd (merge_chunks now items cs (c_store c))\<rparr>)"
  using used.keeps_merging(1) [of now iid items cs] used.keeps_merging(2) [of C iid rnd items known cs] used.keeps_merging(3) [of now items cs]
  by (simp_all add: client_inv_def keeps_def)

interpretation client_kept: acting_relation "\<lambda>c c'. client_inv c \<longrightarrow> client_inv c'" E for E :: "'w env"
proof unfold_locales
  fix c :: "'w client" and iid k v d cid doc mid fs now ct m r eid bid data
  note step = client_inv_step [of _ c]
  show "client_inv c \<longrightarrow> client_inv (c\<lparr>c_store := snd (set_state iid k v (c_store c))\<rparr>)"
    using step [of "SetState iid k v"] by (simp add: own_op_def)
  show "client_inv c \<longrightarrow> client_inv (c\<lparr>c_store := snd (save_prekeys iid v (c_store c))\<rparr>)"
    using step [of "SavePrekeys iid v"] by (simp add: own_op_def)
  show "client_inv c \<longrightarrow> client_inv (c\<lparr>c_store := snd (set_contact_session iid cid v (c_store c))\<rparr>)"
    using step [of "SetContactSession iid cid v"] by (simp add: own_op_def)
  show "client_inv c \<longrightarrow> client_inv (c\<lparr>c_store := snd (update_message mid fs (c_store c))\<rparr>)"
    using step [of "UpdateMessage mid fs"] by (simp add: own_op_def)
  show "client_inv c \<longrightarrow> client_inv (c\<lparr>c_store := snd (upsert_contact now iid ct (c_store c))\<rparr>)"
    using step [of "UpsertContact now iid ct"] by (simp add: own_op_def)
  show "client_inv c \<longrightarrow> client_inv (c\<lparr>c_store := snd (delete_contact iid cid (c_store c))\<rparr>)"
    using step [of "DeleteContact iid cid"] by (simp add: own_op_def)
  show "client_inv c \<longrightarrow> client_inv (c\<lparr>c_store := snd (add_message m (c_store c))\<rparr>)"
    using step [of "AddMessage m"] by (simp add: own_op_def)
  show "ob_seq r = Some 1 \<Longrightarrow> client_inv c \<longrightarrow> client_inv (c\<lparr>c_store := snd (outbox_add now r (c_store c))\<rparr>)"
    using step [of "OutboxAdd now r"] by (simp add: own_op_def)
  show "client_inv c \<longrightarrow> client_inv (c\<lparr>c_store := snd (outbox_remove_for_message mid (c_store c))\<rparr>)"
    using step [of "OutboxRemoveForMessage mid"] by (simp add: own_op_def)
  show "client_inv c \<longrightarrow> client_inv (c\<lparr>c_store := snd (outbox_mark_sent eid (c_store c))\<rparr>)"
    using step [of "OutboxMarkSent eid"] by (simp add: own_op_def)
  show "client_inv c \<longrightarrow> client_inv (c\<lparr>c_store := snd (put_local_blob now bid data (c_store c))\<rparr>)"
    using step [of "PutLocalBlob now bid data"] by (simp add: own_op_def)
qed (simp_all add: client_inv_merge, simp_all add: client_inv_def)

text \<open>The public operations of the client, and a new process on the same store.\<close>

datatype client_op =
    Restart "string list" "string option" int | Provision | CardString | ListDevices | OwnDevices int
  | RefreshRelays int bool int | AddContact string json | RemoveContact string
  | SendText string string | SendFile string bytes string string string | FlushOutbox
  | Sync int | MarkRead string string
  | RequestHistory "int option" | HistoryRequests | ApproveHistory string "int option" | DenyHistory string | RevokeApproval string | SyncStatus
  | Download message | Close

definition restart :: "'w env \<Rightarrow> string list \<Rightarrow> string option \<Rightarrow> int \<Rightarrow> 'w client \<Rightarrow> 'w client" where
  "restart E urls name n c = (case make_client E (c_identity c) (c_store c) urls name n (c_world c) (c_reads c) of Inl _ \<Rightarrow> c | Inr c' \<Rightarrow> c')"

fun client_step :: "'w env \<Rightarrow> 'w client \<Rightarrow> client_op \<Rightarrow> 'w client" where
  "client_step E c (Restart urls name n) = restart E urls name n c"
| "client_step E c Provision = snd (provision E c)"
| "client_step E c CardString = snd (card_string E c)"
| "client_step E c ListDevices = snd (client_devices E c)"
| "client_step E c (OwnDevices age) = snd (own_device_list E age c)"
| "client_step E c (RefreshRelays m probe k) = snd (refresh_relays E m probe k c)"
| "client_step E c (AddContact txt nick) = snd (add_contact E txt nick c)"
| "client_step E c (RemoveContact cid) = snd (remove_contact E cid c)"
| "client_step E c (SendText cid txt) = snd (send_text E cid txt c)"
| "client_step E c (SendFile cid data name mime caption) = snd (send_file E cid data name mime caption c)"
| "client_step E c FlushOutbox = snd (flush_outbox E c)"
| "client_step E c (Sync wait) = snd (sync E wait c)"
| "client_step E c (MarkRead cid mid) = snd (mark_read E cid mid c)"
| "client_step E c (RequestHistory since) = snd (client_request_history E since c)"
| "client_step E c HistoryRequests = snd (history_requests E c)"
| "client_step E c (ApproveHistory dev since) = snd (approve_history E dev since c)"
| "client_step E c (DenyHistory dev) = snd (deny_history E dev c)"
| "client_step E c (RevokeApproval dev) = snd (revoke_history_approval E dev c)"
| "client_step E c SyncStatus = snd (sync_status E c)"
| "client_step E c (Download m) = snd (download_attachment E m c)"
| "client_step E c Close = snd (close c)"

lemma made_client: "make_client E i s urls name n w k = Inr c \<Longrightarrow> c_store c = s \<and> c_backend c \<noteq> []"
  by (auto simp: make_client_def make_pool_def Let_def res_simps split: if_splits)

lemma client_kept_rest: "keeps (\<lambda>c c'. client_inv c \<longrightarrow> client_inv c') (card_string E)" "keeps (\<lambda>c c'. client_inv c \<longrightarrow> client_inv c') (client_devices E)"
  unfolding card_string_def client_devices_def by (intro client_kept.acting_intros)+

lemmas client_operations_kept = client_kept_rest client_kept.keeps_provision client_kept.keeps_own_list(3) client_kept.keeps_refresh_relays
  client_kept.keeps_add_contact client_kept.keeps_send_text client_kept.keeps_send_file client_kept.keeps_flush_outbox client_kept.keeps_sync
  client_kept.keeps_mark_read client_kept.keeps_history_calls client_kept.keeps_download client_kept.keeps_close

lemma client_inv_after: "keeps (\<lambda>c c'. client_inv c \<longrightarrow> client_inv c') m \<Longrightarrow> client_inv c \<Longrightarrow> client_inv (snd (m c))"
  by (simp add: keeps_def)

interpretation client_machine: machine "client_step E" client_inv for E :: "'w env"
proof unfold_locales
  fix s :: "'w client" and opn assume i: "client_inv s"
  have "client_inv (restart E urls name n s)" for urls name n
    using i made_client [of E "c_identity s" "c_store s" urls name n "c_world s" "c_reads s"]
    by (auto simp: restart_def client_inv_def split: sum.split)
  then show "client_inv (client_step E s opn)"
    by (cases opn) (simp_all only: client_step.simps client_operations_kept [THEN client_inv_after, OF i])
qed

lemma started: "make_client E i initialize urls name n w k = Inr c \<Longrightarrow> client_inv (foldl (client_step E) c ops)"
  by (rule client_machine.run_inv) (auto dest!: made_client simp: client_inv_def used_store_def all_sent_def initialize_inv, simp add: initialize_def)

text \<open>Whatever a client that starts on an empty database does (any sequence of its public operations, restarts on the same store included,
  with any answers of relays and peers, also when operations raise), its store keeps the invariant of the database: one row per
  key, no message without a mandatory column, attachment cache within its cap.  Every row of the outbox is marked as accepted by a
  relay, and the client always has a relay to talk to.\<close>

theorem client_invariant:
  "case make_client E i initialize urls name n w k of Inl e \<Rightarrow> e = ValueError
   | Inr c \<Rightarrow> (let c' = foldl (client_step E) c ops in store_inv (c_store c') \<and> all_sent (c_store c') \<and> c_backend c' \<noteq> [])"
proof -
  have "make_client E i initialize urls name n w k = Inl e \<Longrightarrow> e = ValueError" for e
    by (auto simp: make_client_def make_pool_def Let_def res_simps split: if_splits)
  then show ?thesis using started [of E i urls name n w k] by (auto simp: client_inv_def used_store_def Let_def split: sum.split)
qed

text \<open>As a consequence \<open>flush_outbox\<close> never sends anything: in every state that the client can reach it returns zero and changes nothing.\<close>

lemma resend_sent: "ob_seq r = Some 1 \<Longrightarrow> resend E r = returnS False"
  by (simp add: resend_def)

lemma flush_sent: "list_all (\<lambda>r. ob_seq r = Some 1) rows \<Longrightarrow>
  foldS (\<lambda>row n. bindS (resend E row) (\<lambda>ok. returnS (if ok then n + 1 else n))) rows n c = (Inr n, c)"
  by (induction rows) (simp_all add: resend_sent meth_defs)

lemma flush_idle:
  assumes "make_client E i initialize urls name n w k = Inr c"
  shows "flush_outbox E (foldl (client_step E) c ops) = (Inr 0, foldl (client_step E) c ops)"
proof -
  let ?c = "foldl (client_step E) c ops"
  have "list_all (\<lambda>r. ob_seq r = Some 1) (outbox_list (account E ?c) None (c_store ?c))"
    using started [OF assms] by (auto simp: client_inv_def used_store_def all_sent_def outbox_list_def list_all_iff)
  then show ?thesis by (simp add: flush_outbox_def bind_getS flush_sent)
qed

subsection \<open>Receiving always returns\<close>

lemma backend_fetch_returns: "\<exists>fetched. fst (backend_fetch E pool cap cursors wait c) = Inr fetched"
  by (simp add: backend_fetch_def ordered_def on_net_def pool_fetch_def readE_def bindS_def split_beta Let_def)

lemma backend_ack_returns: "fst (backend_ack E pool cap cursors c) = Inr ()"
  by (simp add: backend_ack_def ordered_def on_net_def pool_ack_def readE_def bindS_def split_beta Let_def)

lemma handle_item_returns: "\<exists>m. fst (handle_item E item c) = Inr m"
  by (auto simp: handle_item_def catchS_def returnS_def split: prod.split sum.split)

lemma foldS_returns: "(\<And>x b c. \<exists>y. fst (f x b c) = Inr y) \<Longrightarrow> \<exists>y. fst (foldS f xs b c) = Inr y"
proof (induction xs arbitrary: b c)
  case (Cons x xs)
  obtain y where "fst (f x b c) = Inr y" using Cons.prems by blast
  then show ?case using Cons by (cases "f x b c") (simp add: bindS_def)
qed (simp add: returnS_def)

lemma collect_new_returns: "\<exists>new. fst (collect_new E fetched c) = Inr new"
  unfolding collect_new_def
proof (rule foldS_returns)
  fix x b c
  obtain m where "fst (handle_item E x c) = Inr m" using handle_item_returns by blast
  then show "\<exists>y. fst (bindS (handle_item E x) (\<lambda>m. returnS (case m of None \<Rightarrow> b | Some z \<Rightarrow> b @ [z])) c) = Inr y"
    by (cases "handle_item E x c") (simp add: bindS_def returnS_def)
qed

text \<open>The highest sequence number seen from each relay.\<close>

definition seqs_of :: "string \<Rightarrow> fetched_message list \<Rightarrow> int set" where
  "seqs_of u fetched = fm_seq ` {m \<in> set fetched. fm_relay m = u}"

lemma bump_at: "map_of (bump m seqs) u = (if fm_relay m = u then Some (max (case map_of seqs u of None \<Rightarrow> 0 | Some n \<Rightarrow> n) (fm_seq m)) else map_of seqs u)"
  by (auto simp: bump_def update_conv')

lemma fold_bump:
  "map_of (fold bump fetched seqs) u = (if seqs_of u fetched = {} then map_of seqs u
     else Some (Max (insert (case map_of seqs u of None \<Rightarrow> 0 | Some n \<Rightarrow> n) (seqs_of u fetched))))"
proof (induction fetched arbitrary: seqs)
  case Nil
  then show ?case by (simp add: seqs_of_def)
next
  case (Cons m ms)
  have f: "finite (seqs_of u ms)" by (simp add: seqs_of_def)
  have s: "seqs_of u (m # ms) = (if fm_relay m = u then insert (fm_seq m) (seqs_of u ms) else seqs_of u ms)"
    by (auto simp: seqs_of_def)
  show ?case
  proof (cases "seqs_of u ms = {}")
    case True
    then show ?thesis by (simp add: Cons.IH s bump_at)
  next
    case False
    then show ?thesis using f by (simp add: Cons.IH s bump_at ac_simps)
  qed
qed


definition sample_provisioned :: "unit client" where
  "sample_provisioned = sample_client\<lparr>c_card := Some sample_card, c_own_inbox := Some sample_inbox\<rparr>"


end
