(* ===== verification/Receiving.thy ===== *)
theory Receiving
  imports ClientRun
begin

section \<open>What a received message says about its sender\<close>

text \<open>
  A message that the client reports was opened by a session of the contact it is filed under, or it introduced that
  contact: then its handshake header leads to a session key over our own prekeys, and the envelope inside carries a proof by
  the holder of the contact's signing key for exactly this session.  A one-time prekey introduces at most once.
\<close>

subsection \<open>The row of a received message\<close>

interpretation messages_kept: talking_relation "\<lambda>c c'. s_messages (c_store c') = s_messages (c_store c)" E for E
  by unfold_locales (simp_all add: set_state_def save_prekeys_def set_contact_session_def meth_defs)

lemma messages_kept_contacts:
  "keeps (\<lambda>c c'. s_messages (c_store c') = s_messages (c_store c)) (on_store (upsert_contact now iid ct))"
  by (rule keepsI) (auto simp: on_store_def split_beta Let_def upsert_contact_def meth_defs split: sum.split)

lemma messages_kept_store_card: "keeps (\<lambda>c c'. s_messages (c_store c') = s_messages (c_store c)) (store_card E crd nick)"
  unfolding store_card_def by (intro messages_kept.writing_intros messages_kept.keeps_ask messages_kept_contacts)

lemma messages_kept_consume: "keeps (\<lambda>c c'. s_messages (c_store c') = s_messages (c_store c)) (consume_opk E oid)"
  unfolding consume_opk_def by (intro messages_kept.writing_intros messages_kept.keeps_save_prekeys)

text \<open>What the row takes from the envelope.\<close>

definition carries :: "message \<Rightarrow> contact \<Rightarrow> dict \<Rightarrow> bool" where
  "carries m ct e \<longleftrightarrow> msg_contact m = JStr (ct_id ct) \<and> msg_direction m = JStr ''received'' \<and> msg_state m = JStr ''received''
     \<and> msg_type m = dget e ''type'' \<and> msg_body m = py_or (dget e ''body'') (JObj []) \<and> col_text (dget e ''id'') = Inr (msg_remote_id m)"

text \<open>The identifiers that \<open>uuid4\<close> will give are not in use.\<close>

definition fresh_ids :: "'w env \<Rightarrow> store \<Rightarrow> bool" where
  "fresh_ids E s \<longleftrightarrow> (\<forall>n. get_message (uuid_hex (e_random E n 16)) s = None)"

lemma added_message:
  assumes "add_message m s = (Inr u, s')" "get_message (msg_id m) s = None"
  obtains r where "message_columns m = Inr r" "get_message (msg_id m) s' = Some r"
proof -
  obtain r where r: "message_columns m = Inr r" and s': "s' = s\<lparr>s_messages := upsert msg_id merge_message_row r (s_messages s)\<rparr>"
    using assms(1) by (auto simp: add_message_def meth_defs split: sum.splits)
  have "msg_id r = msg_id m" using message_columns_Inr [OF r] by simp
  then have "get_message (msg_id m) s' = Some r"
    using assms(2) by (simp add: s' get_message_def message_table.lookup_upsert)
  then show ?thesis by (rule that [OF r])
qed

lemma on_store_Inr: "on_store m c = (Inr x, c') \<Longrightarrow> \<exists>s. m (c_store c) = (Inr x, s) \<and> c' = c\<lparr>c_store := s\<rparr>"
  by (auto simp: on_store_def split: prod.splits)

lemma received_row:
  assumes "message_columns (received_message mid iid (ct_id ct) kind content rid ts) = Inr r" "kind = JStr k"
  shows "msg_contact r = JStr (ct_id ct) \<and> msg_direction r = JStr ''received'' \<and> msg_state r = JStr ''received''
    \<and> msg_type r = kind \<and> msg_body r = content \<and> col_text rid = Inr (msg_remote_id r) \<and> msg_id r = mid"
  using assms by (auto simp: message_columns_def received_message_def col_text_def sql_text_def res_simps Let_def split: if_splits)

lemma receive_message_row:
  assumes "receive_message E ct e kind content c = (Inr (Some m), c')" "kind = dget e ''type''" "kind = JStr k"
    and "content = py_or (dget e ''body'') (JObj [])" "fresh_ids E (c_store c)"
  shows "carries m ct e \<and> get_message (msg_id m) (c_store c') = Some m"
proof -
  have t: "truthy (dget e ''id'')" using assms(1) by (auto simp: receive_message_def Let_def meth_defs split: if_splits)
  obtain ts c2 where a: "on_store (add_message (received_message (uuid_hex (e_random E (c_reads c) 16)) (account E c) (ct_id ct) kind content (dget e ''id'') ts))
        (c\<lparr>c_reads := c_reads c + 2\<rparr>) = (Inr (), c2)"
      and s: "send_receipt E ct (dget e ''id'') ''delivered'' c2 = (Inr (), c')" "get_message (uuid_hex (e_random E (c_reads c) 16)) (c_store c') = Some m"
    using assms(1) t unfolding receive_message_def Let_def
    by (auto simp: thenS_def getS_def ask_store_def liftS_def new_id_def urandom_def readE_def now_ms_def returnS_def
        elim!: bindS_InrE split: if_splits)
  define mid where "mid = uuid_hex (e_random E (c_reads c) 16)"
  have mid: "get_message mid (c_store c) = None" using assms(5) by (simp add: mid_def fresh_ids_def)
  obtain st where st: "add_message (received_message mid (account E c) (ct_id ct) kind content (dget e ''id'') ts) (c_store c) = (Inr (), st)" "c_store c2 = st"
    using on_store_Inr [OF a] by (auto simp: mid_def)
  have i: "msg_id (received_message mid (account E c) (ct_id ct) kind content (dget e ''id'') ts) = mid" by (simp add: received_message_def)
  obtain r where r: "message_columns (received_message mid (account E c) (ct_id ct) kind content (dget e ''id'') ts) = Inr r" "get_message mid (c_store c2) = Some r"
    by (rule added_message [OF st(1)]) (simp_all add: i mid st(2))
  have "s_messages (c_store c') = s_messages (c_store c2)" using messages_kept.keeps_send_receipt s(1) by (rule keepsD)
  then have "m = r" using r(2) s(2) by (simp add: get_message_def mid_def)
  moreover have "msg_id r = mid" using message_columns_Inr [OF r(1)] i by simp
  ultimately show ?thesis using received_row [OF r(1) assms(3)] assms(2,4) s(2) by (simp add: carries_def mid_def)
qed

lemma process_envelope_row:
  assumes "process_envelope E ct e c = (Inr (Some m), c')" "fresh_ids E (c_store c)"
  shows "carries m ct e \<and> get_message (msg_id m) (c_store c') = Some m"
proof -
  obtain k where k: "dget e ''type'' = JStr k" "receive_message E ct e (dget e ''type'') (py_or (dget e ''body'') (JObj [])) c = (Inr (Some m), c')"
    using assms(1) by (auto simp: process_envelope_def Let_def thenS_def returnS_def elim!: bindS_InrE split: if_splits)
  show ?thesis by (rule receive_message_row [OF k(2) refl k(1) refl assms(2)])
qed

subsection \<open>Where the session comes from\<close>

text \<open>The blob was opened by a session of a stored contact, found by the identifier in the blob.\<close>

definition known_sender :: "'w env \<Rightarrow> 'w client \<Rightarrow> bytes \<Rightarrow> bytes \<Rightarrow> contact \<Rightarrow> dict \<Rightarrow> bool" where
  "known_sender E c sid blob ct e \<longleftrightarrow> (\<exists>st b key s priv v r. ct \<in> set (list_contacts (account E c) (c_store c))
     \<and> load_sessions ct = Inr st \<and> (key, s) \<in> set (case b of Outbound \<Rightarrow> cs_outbound st | Inbound \<Rightarrow> cs_inbound st) \<and> session_sid s = sid
     \<and> unseal (e_crypto E) priv blob (session_state s) = (Inr (e, v), r))"

text \<open>The blob opened a session that its handshake header starts on our own prekeys, and its envelope holds a card and a proof.  The
  proof is a signature on this session by the key in the card, and the contact is the identity of that card.\<close>

definition new_sender :: "'w env \<Rightarrow> 'w client \<Rightarrow> dict \<Rightarrow> bytes \<Rightarrow> bytes \<Rightarrow> contact \<Rightarrow> dict \<Rightarrow> bool" where
  "new_sender E c w sid blob ct e \<longleftrightarrow> (\<exists>init key opk ek prekeys sp sq priv v r a crd sg. getitem (JObj w) ''init'' = Inr init
     \<and> load_prekeys (account E c) (c_store c) = Some prekeys \<and> bindE (getitem prekeys ''spk_private'') b64d_json = Inr sp
     \<and> respond (e_crypto E) (x_private (c_identity c)) sp opk ek = Inr key
     \<and> unseal (e_crypto E) priv blob (responder key sp sq) = (Inr (e, v), r)
     \<and> dget e ''auth'' = JObj a \<and> map_of a ''id'' = Some (JStr (ct_id ct)) \<and> bindE (getitem (JObj a) ''isign'') b64d_json = Inr (card_isign crd)
     \<and> card_from_dict (e_crypto E) (dget e ''card'') = Inr crd \<and> card_identity_id crd = ct_id ct
     \<and> ct_id ct = compute_identity_id (e_crypto E) (card_isign crd) (card_idh crd)
     \<and> verify (e_crypto E) (card_isign crd) sg (auth_message (e_crypto E) sid init key))"

lemma in_bucket_Some: "in_bucket sid b ss = Some (b', key, s) \<Longrightarrow> b' = b \<and> (key, s) \<in> set ss \<and> session_sid s = sid"
  by (auto simp: in_bucket_def dest: find_SomeD)

lemma found_session:
  assumes "find_session_in sid cts = Inr (Some (ct, st, b, key, s))"
  shows "ct \<in> set cts \<and> load_sessions ct = Inr st \<and> session_sid s = sid
    \<and> (key, s) \<in> set (case b of Outbound \<Rightarrow> cs_outbound st | Inbound \<Rightarrow> cs_inbound st)"
  using assms
proof (induction cts)
  case (Cons x xs)
  obtain st' where l: "load_sessions x = Inr st'" using Cons.prems by (auto simp: res_simps)
  note p = Cons.prems [unfolded find_session_in.simps l bindE.simps]
  show ?case
  proof (cases "in_bucket sid Outbound (cs_outbound st')")
    case (Some hit)
    then have "x = ct" "st' = st" "hit = (b, key, s)" using p by simp_all
    then show ?thesis using l in_bucket_Some [of sid Outbound "cs_outbound st'" b key s] Some by simp
  next
    case out: None
    show ?thesis
    proof (cases "in_bucket sid Inbound (cs_inbound st')")
      case (Some hit)
      then have "x = ct" "st' = st" "hit = (b, key, s)" using p out by simp_all
      then show ?thesis using l in_bucket_Some [of sid Inbound "cs_inbound st'" b key s] Some by simp
    next
      case None
      then show ?thesis using p out Cons.IH by simp
    qed
  qed
qed simp

lemma begun_inbound:
  assumes "begin_inbound E w c = (Inr (Some (s, oid)), c')"
  shows "\<exists>init key opk ek prekeys sp sq. getitem (JObj w) ''init'' = Inr init \<and> load_prekeys (account E c) (c_store c) = Some prekeys
    \<and> bindE (getitem prekeys ''spk_private'') b64d_json = Inr sp \<and> respond (e_crypto E) (x_private (c_identity c)) sp opk ek = Inr key
    \<and> bindE (getitem (JObj w) ''sid'') b64d_json = Inr (session_sid s) \<and> session_state s = responder key sp sq
    \<and> session_sk s = Some key \<and> session_init s = Some init \<and> py_get init ''opk_id'' = Inr oid \<and> c' = c"
  using assms unfolding begin_inbound_def
  by (auto simp: getS_def liftS_def returnS_def res_simps elim!: bindS_InrE split: option.splits if_splits sum.splits; blast)

text \<open>Checking the proof and storing the card.\<close>

lemma stored_card:
  assumes "store_card E crd nick c = (Inr ct, c')"
  shows "ct_id ct = card_identity_id crd"
proof -
  have "ct_id (card_contact iid crd nick None ex t) = card_identity_id crd" for iid ex t by (simp add: card_contact_def)
  moreover have "ct_id x = cid" if "get_contact iid cid s = Some x" for iid cid s x
    using that by (auto simp: get_contact_def lookup_def contact_key_def dest: find_SomeD)
  ultimately show ?thesis using assms
    by (auto simp: store_card_def thenS_def ask_store_def getS_def returnS_def Let_def elim!: bindS_InrE split: option.splits)
qed

lemma finished_inbound:
  assumes "finish_inbound E s e oid c = (Inr (Some ct), c')"
  obtains a crd key init c1 where "dget e ''auth'' = JObj a" "session_sk s = Some key" "session_init s = Some init"
    "verify_auth (e_crypto E) (JObj a) (session_sid s) init key = Inr True" "card_from_dict (e_crypto E) (dget e ''card'') = Inr crd"
    "dget a ''id'' = JStr (card_identity_id crd)" "bindE (getitem (JObj a) ''isign'') b64d_json = Inr (card_isign crd)"
    "store_card E crd JNull c = (Inr ct, c1)" "consume_opk E oid c1 = (Inr (), c')"
proof -
  obtain a cd where a: "dget e ''auth'' = JObj a" "dget e ''card'' = JObj cd"
    using assms by (auto simp: finish_inbound_def returnS_def split: json.splits)
  obtain key init where k: "session_sk s = Some key" "session_init s = Some init"
    using assms a by (auto simp: finish_inbound_def returnS_def split: option.splits)
  show ?thesis
    using assms a k that [OF a(1) k]
    by (auto simp: finish_inbound_def returnS_def liftS_def thenS_def raiseS_def elim!: bindS_InrE split: if_splits sum.splits)
qed

lemma fresh_ids_same: "s_messages s' = s_messages s \<Longrightarrow> fresh_ids E s \<Longrightarrow> fresh_ids E s'"
  by (simp add: fresh_ids_def get_message_def)

lemma handled_known:
  assumes "handle_known E blob ct st b key s c = (Inr (Some m), c')" "fresh_ids E (c_store c)"
  shows "\<exists>e priv v r. unseal (e_crypto E) priv blob (session_state s) = (Inr (e, v), r) \<and> carries m ct e \<and> get_message (msg_id m) (c_store c') = Some m"
proof -
  let ?priv = "e_random E (c_reads c) 32"
  obtain e v r where u: "unseal (e_crypto E) ?priv blob (session_state s) = (Inr (e, v), r)"
    using assms(1) by (cases "unseal (e_crypto E) ?priv blob (session_state s)"; cases "fst (unseal (e_crypto E) ?priv blob (session_state s))")
      (auto simp: handle_known_def urandom_def readE_def returnS_def raiseS_def bindS_def split: if_splits)
  obtain st' c1 where s: "save_sessions E (ct_id ct) st' (c\<lparr>c_reads := c_reads c + 1\<rparr>) = (Inr (), c1)" and p: "process_envelope E ct e c1 = (Inr (Some m), c')"
    using assms(1) u by (cases v) (auto simp: handle_known_def urandom_def readE_def thenS_def Let_def elim!: bindS_InrE)
  have "s_messages (c_store c1) = s_messages (c_store c)"
    using keepsD [OF messages_kept.keeps_save_sessions s] by simp
  then show ?thesis using process_envelope_row [OF p] fresh_ids_same assms(2) u by blast
qed

lemma handled_fresh:
  assumes "handle_fresh E blob w c = (Inr (Some m), c')"
  obtains s oid e v r ct c1 c2 where "begin_inbound E w c = (Inr (Some (s, oid)), c)"
    "unseal (e_crypto E) (e_random E (c_reads c) 32) blob (session_state s) = (Inr (e, v), r)"
    "finish_inbound E (s\<lparr>session_state := r\<rparr>) e oid (c\<lparr>c_reads := c_reads c + 1\<rparr>) = (Inr (Some ct), c1)"
    "process_envelope E ct e c2 = (Inr (Some m), c')" "s_messages (c_store c2) = s_messages (c_store c)" "\<exists>st. save_sessions E (ct_id ct) st c1 = (Inr (), c2)"
proof -
  obtain s oid where b: "begin_inbound E w c = (Inr (Some (s, oid)), c)"
    using assms begun_inbound by (fastforce simp: handle_fresh_def returnS_def elim!: bindS_InrE split: option.splits)
  obtain e v r where u: "unseal (e_crypto E) (e_random E (c_reads c) 32) blob (session_state s) = (Inr (e, v), r)"
    using assms b by (cases "unseal (e_crypto E) (e_random E (c_reads c) 32) blob (session_state s)"; cases "fst (unseal (e_crypto E) (e_random E (c_reads c) 32) blob (session_state s))")
      (auto simp: handle_fresh_def urandom_def readE_def returnS_def raiseS_def bindS_def split: if_splits)
  obtain ct c1 st c2 where f: "finish_inbound E (s\<lparr>session_state := r\<rparr>) e oid (c\<lparr>c_reads := c_reads c + 1\<rparr>) = (Inr (Some ct), c1)"
      and sv: "save_sessions E (ct_id ct) st c1 = (Inr (), c2)" and p: "process_envelope E ct e c2 = (Inr (Some m), c')"
    using assms b u by (cases v) (auto simp: handle_fresh_def urandom_def readE_def thenS_def liftS_def getS_def returnS_def elim!: bindS_InrE split: option.splits)
  have "s_messages (c_store c1) = s_messages (c_store c)"
  proof (rule finished_inbound [OF f])
    fix crd c3
    assume "store_card E crd JNull (c\<lparr>c_reads := c_reads c + 1\<rparr>) = (Inr ct, c3)" "consume_opk E oid c3 = (Inr (), c1)"
    then show ?thesis using keepsD [OF messages_kept_store_card] keepsD [OF messages_kept_consume] by fastforce
  qed
  then have "s_messages (c_store c2) = s_messages (c_store c)"
    using keepsD [OF messages_kept.keeps_save_sessions sv] by simp
  then show ?thesis using that [OF b u f p] sv by blast
qed

lemma introduced:
  assumes "handle_fresh E blob w c = (Inr (Some m), c')" "fresh_ids E (c_store c)" "bindE (getitem (JObj w) ''sid'') b64d_json = Inr sid"
  shows "\<exists>ct e. new_sender E c w sid blob ct e \<and> carries m ct e \<and> get_message (msg_id m) (c_store c') = Some m"
proof (rule handled_fresh [OF assms(1)])
  fix s oid e v r ct c1 c2
  assume b: "begin_inbound E w c = (Inr (Some (s, oid)), c)"
    and u: "unseal (e_crypto E) (e_random E (c_reads c) 32) blob (session_state s) = (Inr (e, v), r)"
    and f: "finish_inbound E (s\<lparr>session_state := r\<rparr>) e oid (c\<lparr>c_reads := c_reads c + 1\<rparr>) = (Inr (Some ct), c1)"
    and p: "process_envelope E ct e c2 = (Inr (Some m), c')" "s_messages (c_store c2) = s_messages (c_store c)"
  obtain init key opk ek prekeys sp sq where i: "getitem (JObj w) ''init'' = Inr init" "load_prekeys (account E c) (c_store c) = Some prekeys"
    "bindE (getitem prekeys ''spk_private'') b64d_json = Inr sp" "respond (e_crypto E) (x_private (c_identity c)) sp opk ek = Inr key"
    "session_sid s = sid" "session_state s = responder key sp sq" "session_sk s = Some key" "session_init s = Some init"
    using begun_inbound [OF b] assms(3) by auto
  have "new_sender E c w sid blob ct e"
  proof (rule finished_inbound [OF f])
    fix a crd key' init' c3
    assume a: "dget e ''auth'' = JObj a" "session_sk (s\<lparr>session_state := r\<rparr>) = Some key'" "session_init (s\<lparr>session_state := r\<rparr>) = Some init'"
      "verify_auth (e_crypto E) (JObj a) (session_sid (s\<lparr>session_state := r\<rparr>)) init' key' = Inr True" "card_from_dict (e_crypto E) (dget e ''card'') = Inr crd"
      "dget a ''id'' = JStr (card_identity_id crd)" "bindE (getitem (JObj a) ''isign'') b64d_json = Inr (card_isign crd)"
      "store_card E crd JNull (c\<lparr>c_reads := c_reads c + 1\<rparr>) = (Inr ct, c3)"
    have k: "key' = key" "init' = init" using a(2,3) i by simp_all
    obtain sg where sg: "map_of a ''id'' \<noteq> None" "verify (e_crypto E) (card_isign crd) sg (auth_message (e_crypto E) sid init key)"
      using a(4,7) i(5) unfolding k verify_auth_True by auto
    have "map_of a ''id'' = Some (JStr (card_identity_id crd))" using a(6) sg(1) by (auto simp: dget_def split: option.splits)
    moreover have "ct_id ct = card_identity_id crd" by (rule stored_card [OF a(8)])
    ultimately show ?thesis
      using i(1-4) u [unfolded i(6)] a(1,5,7) sg(2) card_from_dict_Inr [OF a(5)] unfolding new_sender_def by metis
  qed
  then show ?thesis using process_envelope_row [OF p(1) fresh_ids_same [OF p(2) assms(2)]] by blast
qed

text \<open>C2: a message that the client reports as new is filed under the contact who sent it.  Its type, body and identifier are those of
  the envelope inside the blob, and the blob was opened either by a session stored for that contact under the blob's session
  identifier, or by the session that its header starts on our prekeys; in that case the envelope carries a card whose identity is
  the contact's, and a signature by that card's key over this session's identifier, header and secret.\<close>

theorem message_attributed:
  assumes "handle_blob E blob c = (Inr (Some m), c')" "fresh_ids E (c_store c)"
  shows "\<exists>w sid ct e. parse_wire blob = Inr w \<and> bindE (getitem (JObj w) ''sid'') b64d_json = Inr sid
    \<and> (known_sender E c sid blob ct e \<or> new_sender E c w sid blob ct e)
    \<and> carries m ct e \<and> get_message (msg_id m) (c_store c') = Some m"
proof -
  obtain w sid hit where w: "parse_wire blob = Inr w" "bindE (getitem (JObj w) ''sid'') b64d_json = Inr sid"
      and h: "find_session_in sid (list_contacts (account E c) (c_store c)) = Inr hit"
      and r: "(case hit of Some (ct, st, b, key, s) \<Rightarrow> handle_known E blob ct st b key s
        | None \<Rightarrow> if map_of w ''init'' = None then returnS None else handle_fresh E blob w) c = (Inr (Some m), c')"
    using assms(1) by (auto simp: handle_blob_def find_session_def client_contacts_def liftS_def getS_def elim!: bindS_InrE)
  show ?thesis
  proof (cases hit)
    case None
    then have "handle_fresh E blob w c = (Inr (Some m), c')" using r by (auto simp: returnS_def split: if_splits)
    from introduced [OF this assms(2) w(2)] show ?thesis using w by blast
  next
    case (Some x)
    then obtain ct st b key s where x: "hit = Some (ct, st, b, key, s)" by (cases x) auto
    note f = found_session [OF h [unfolded x]]
    obtain e priv v r where e: "unseal (e_crypto E) priv blob (session_state s) = (Inr (e, v), r)" "carries m ct e \<and> get_message (msg_id m) (c_store c') = Some m"
      using handled_known [of E blob ct st b key s c m c'] assms(2) r x by auto
    have "known_sender E c sid blob ct e" unfolding known_sender_def using f e(1) by blast
    then show ?thesis using w e(2) by blast
  qed
qed

subsection \<open>One-time prekeys\<close>

text \<open>While the client is provisioned, sending and receiving leave its prekeys alone.\<close>

definition prekeys_of :: "'w env \<Rightarrow> 'w client \<Rightarrow> json option" where
  "prekeys_of E c = load_prekeys (account E c) (c_store c)"

definition same_prekeys :: "'w env \<Rightarrow> 'w client \<Rightarrow> 'w client \<Rightarrow> bool" where
  "same_prekeys E c c' \<longleftrightarrow> (c_card c \<noteq> None \<longrightarrow> c_card c' \<noteq> None \<and> prekeys_of E c' = prekeys_of E c)"

lemma same_prekeys_frame: "s_prekeys s = s_prekeys (c_store c) \<Longrightarrow> same_prekeys E c (c\<lparr>c_store := s\<rparr>)"
  by (simp add: same_prekeys_def prekeys_of_def load_prekeys_def account_def)

interpretation prekeys_kept: receiving_relation "same_prekeys E" E for E
proof unfold_locales
  show "keeps (same_prekeys E) (ensure_provisioned E)"
    by (rule keepsI) (auto simp: same_prekeys_def ensure_provisioned_def meth_defs split: option.split)
qed (simp_all add: same_prekeys_def prekeys_of_def load_prekeys_def account_def set_state_def set_contact_session_def add_message_def update_message_def
    outbox_remove_for_message_def meth_defs split: sum.split)

lemma same_prekeys_store_card: "keeps (same_prekeys E) (store_card E crd nick)"
proof -
  have "keeps (same_prekeys E) (on_store (upsert_contact now iid ct))" for now iid ct
    by (rule keepsI) (simp add: on_store_def split_beta Let_def same_prekeys_frame upsert_contact_def meth_defs split: sum.split)
  then show ?thesis unfolding store_card_def by (intro prekeys_kept.writing_intros prekeys_kept.keeps_ask)
qed

text \<open>The private half of a one-time prekey is there.\<close>

definition has_opk :: "json option \<Rightarrow> string \<Rightarrow> bool" where
  "has_opk doc k \<longleftrightarrow> (\<exists>d opks v. doc = Some (JObj d) \<and> map_of d ''opks'' = Some (JObj opks) \<and> map_of opks k = Some v \<and> v \<noteq> JNull)"

lemma json_items_Inr: "json_items v = Inr d \<longleftrightarrow> v = JObj d"
  by (cases v) (auto simp: json_items_def)

lemma consumed_opk:
  assumes "consume_opk E oid c = (Inr (), c')" "oid \<noteq> JNull"
  shows "\<not> has_opk (prekeys_of E c') (py_str oid)" "c_card c' = c_card c"
  using assms
  by (auto simp: consume_opk_def has_opk_def prekeys_of_def getS_def liftS_def returnS_def json_items_Inr on_store_def save_prekeys_def modifyS_def
      load_prekeys_def prekey_table.lookup_upsert account_def res_simps update_conv' delete_conv'
      elim!: bindS_InrE split: option.splits if_splits)

lemma begin_needs_opk:
  assumes "begin_inbound E w c = (Inr (Some (s, oid)), c')" "oid \<noteq> JNull"
  shows "has_opk (prekeys_of E c) (py_str oid)"
  using assms unfolding begin_inbound_def has_opk_def prekeys_of_def
  by (auto simp: getS_def liftS_def returnS_def json_items_Inr res_simps elim!: bindS_InrE split: option.splits if_splits sum.splits; blast)

lemma spent_after:
  assumes "c_card c \<noteq> None" "handle_fresh E blob w c = (Inr (Some m), c')"
    and "getitem (JObj w) ''init'' = Inr init" "py_get init ''opk_id'' = Inr oid" "oid \<noteq> JNull"
  shows "\<not> has_opk (prekeys_of E c') (py_str oid)"
proof (rule handled_fresh [OF assms(2)])
  fix s oid' e v r ct c1 c2
  assume b: "begin_inbound E w c = (Inr (Some (s, oid')), c)"
    and f: "finish_inbound E (s\<lparr>session_state := r\<rparr>) e oid' (c\<lparr>c_reads := c_reads c + 1\<rparr>) = (Inr (Some ct), c1)"
    and p: "process_envelope E ct e c2 = (Inr (Some m), c')" and sv: "\<exists>st. save_sessions E (ct_id ct) st c1 = (Inr (), c2)"
  have o: "oid' = oid" using begun_inbound [OF b] assms(3,4) by auto
  have "\<not> has_opk (prekeys_of E c1) (py_str oid) \<and> c_card c1 \<noteq> None"
  proof (rule finished_inbound [OF f])
    fix crd c3
    assume st: "store_card E crd JNull (c\<lparr>c_reads := c_reads c + 1\<rparr>) = (Inr ct, c3)" and co: "consume_opk E oid' c3 = (Inr (), c1)"
    have "c_card c3 \<noteq> None" using keepsD [OF same_prekeys_store_card st] assms(1) by (simp add: same_prekeys_def)
    then show ?thesis using consumed_opk [OF co [unfolded o] assms(5)] by simp
  qed
  moreover obtain st where "save_sessions E (ct_id ct) st c1 = (Inr (), c2)" using sv by blast
  then have "same_prekeys E c1 c2" by (rule keepsD [OF prekeys_kept.keeps_save_sessions])
  moreover have "same_prekeys E c2 c'" by (rule keepsD [OF prekeys_kept.keeps_process_envelope p])
  ultimately show ?thesis by (simp add: same_prekeys_def)
qed

lemma spent_refused:
  assumes "\<not> has_opk (prekeys_of E c) (py_str oid)" "oid \<noteq> JNull" "getitem (JObj w) ''init'' = Inr init" "py_get init ''opk_id'' = Inr oid"
  shows "\<exists>r. handle_fresh E blob w c = (r, c) \<and> (r = Inr None \<or> (\<exists>err. r = Inl err))"
proof -
  have "\<not> (\<exists>s oid' c'. begin_inbound E w c = (Inr (Some (s, oid')), c'))"
    using begin_needs_opk [of E w c] begun_inbound [of E w c] assms by (metis sum.inject(2))
  moreover have "snd (begin_inbound E w c) = c"
    unfolding begin_inbound_def by (auto simp: meth_defs split: sum.split option.split)
  ultimately show ?thesis
    by (cases "begin_inbound E w c"; cases "fst (begin_inbound E w c)"; cases "projr (fst (begin_inbound E w c))") (auto simp: handle_fresh_def bindS_def returnS_def)
qed

text \<open>C10: a one-time prekey introduces at most one session.  Once a provisioned client has accepted an introduction that names one, no blob
  whose header names the same prekey is accepted as an introduction: it is dropped or refused with an error, and the client's
  state stays as it is.\<close>

theorem opk_introduces_once:
  assumes "c_card c \<noteq> None" "handle_fresh E blob w c = (Inr (Some m), c')"
    and "getitem (JObj w) ''init'' = Inr init" "py_get init ''opk_id'' = Inr oid" "oid \<noteq> JNull"
    and "getitem (JObj w') ''init'' = Inr init'" "py_get init' ''opk_id'' = Inr oid"
  shows "\<exists>r. handle_fresh E blob' w' c' = (r, c') \<and> (r = Inr None \<or> (\<exists>err. r = Inl err))"
  by (rule spent_refused [OF spent_after [OF assms(1-5)] assms(5-7)])

end
