(* ===== verification/Introductions.thy ===== *)
theory Introductions
  imports Receiving
begin

section \<open>First contact\<close>

text \<open>
  Two clients that share nothing but the relays.  The first has the second as a contact, fetches its bundle, starts a session and seals a
  message; the second, which has never heard of the first, opens the blob, checks the introduction, stores the first as a contact and
  the message under it.
\<close>

subsection \<open>What an environment provides\<close>

definition primitives_ok :: "crypto \<Rightarrow> bool" where
  "primitives_ok C \<longleftrightarrow> hash_lengths C \<and> aead_correct C \<and> dh_correct C \<and> sign_correct C"

definition env_ok :: "crypto \<Rightarrow> 'w env \<Rightarrow> bool" where
  "env_ok C E \<longleftrightarrow> e_crypto E = C \<and> (\<forall>i n. length (e_random E i n) = n) \<and> (\<forall>n. 0 \<le> e_clock E n \<and> e_clock E n < 2 ^ 63)"

text \<open>A provisioned client's card, as \<open>provision\<close> makes it.\<close>

definition carded :: "crypto \<Rightarrow> 'w client \<Rightarrow> contact_card \<Rightarrow> bool" where
  "carded C c crd \<longleftrightarrow> (\<exists>ib bid rs nm. c_card c = Some crd \<and> crd = create C (c_identity c) bid ib (map JStr rs) (JStr nm)
     \<and> capability_wf ib \<and> str_ok bid \<and> rs \<noteq> [] \<and> list_all str_ok rs \<and> str_ok nm \<and> nm \<noteq> [])"

lemma carded_reads_back:
  assumes "primitives_ok C" "identity_wf (c_identity c)" "carded C c crd"
  shows "card_from_dict C (jsort (JObj (signed_dict crd))) = Inr crd \<and> json_ok (JObj (signed_dict crd))
    \<and> card_identity_id crd = identity_id C (c_identity c) \<and> card_isign crd = ed_public_bytes C (c_identity c)
    \<and> card_name crd \<noteq> JNull \<and> (\<exists>nm. card_name crd = JStr nm \<and> nm \<noteq> [])"
proof -
  obtain ib bid rs nm where crd: "crd = create C (c_identity c) bid ib (map JStr rs) (JStr nm)"
      and w: "capability_wf ib" "str_ok bid" "rs \<noteq> []" "list_all str_ok rs" "str_ok nm" "nm \<noteq> []"
    using assms(3) by (auto simp: carded_def)
  have s: "sign_correct C" using assms(1) by (simp add: primitives_ok_def)
  have p: "plain_strings (map JStr rs)" "plain_name (JStr nm)" "map JStr rs \<noteq> []"
    using w by (auto simp: plain_strings_def plain_name_def list_all_iff)
  note r = card_dict_reads_back [OF s assms(2) w(1,2) p(1,3,2)]
  show ?thesis using r w(6) unfolding crd by (simp add: create_def Let_def)
qed

subsection \<open>The sender's half\<close>

text \<open>What \<open>_send_envelope\<close> adds while the session is pending.\<close>

definition with_proof :: "crypto \<Rightarrow> identity \<Rightarrow> contact_card \<Rightarrow> session \<Rightarrow> dict \<Rightarrow> dict" where
  "with_proof C i crd s e = AList.update ''card'' (JObj (signed_dict crd))
     (AList.update ''auth'' (JObj (build_auth C i (session_sid s) (the (session_init s)) (the (session_sk s)))) e)"

definition text_envelope :: "string \<Rightarrow> string \<Rightarrow> int \<Rightarrow> dict" where
  "text_envelope txt mid t = make_envelope ''text'' (JObj [(''text'', JStr txt)]) mid t None None"

lemma sealing_pending:
  assumes "c_card c = Some crd" "is_pending s" "session_sk s = Some k" "session_init s = Some i"
  shows "seal_envelope E s e kind c = (let n = c_reads c;
      (r, st) = seal (e_crypto E) (e_choice E n) (e_random E (n + 1) 12) (with_proof (e_crypto E) (c_identity c) crd s e)
        (session_sid s) (Some i) (Some (envelope_max_size kind)) (session_state s) in
      (case r of Inl err \<Rightarrow> Inl err | Inr blob \<Rightarrow> Inr (blob, s\<lparr>session_state := st\<rparr>), c\<lparr>c_reads := n + 2\<rparr>))"
proof -
  have "own_card E c = (Inr crd, c)" using assms(1) by (simp add: own_card_def ensure_provisioned_def meth_defs assertS_def)
  then show ?thesis using assms
    by (simp add: seal_envelope_def pending_fields_def with_proof_def readE_def urandom_def Let_def split_beta bindS_def getS_def returnS_def liftS_def split: sum.split)
qed

interpretation self_kept: looking_relation "\<lambda>c c'. c_card c' = c_card c \<and> c_identity c' = c_identity c" E for E
  by unfold_locales auto

lemma fetched_bundle_same: "fetch_device_bundle E ct d c = (r, c') \<Longrightarrow> c_card c' = c_card c \<and> c_identity c' = c_identity c"
proof -
  have "keeps (\<lambda>c c'. c_card c' = c_card c \<and> c_identity c' = c_identity c) (fetch_device_bundle E ct d)"
    unfolding fetch_device_bundle_def by (intro self_kept.looking_intros)
  then show "fetch_device_bundle E ct d c = (r, c') \<Longrightarrow> ?thesis" by (rule keepsD)
qed

lemma starting_session:
  assumes "fetch_device_bundle E ct d c = (Inr b, c0)" "initiate (e_crypto E) (e_random E (c_reads c0) 32) b (ct_isign ct) (ct_idh ct) = Inr n"
    and "initiator (e_crypto E) (e_random E (c_reads c0 + 2) 32) (sk n) (spk b) = Inr st"
  shows "start_session E ct d c = (Inr \<lparr>session_sid = e_random E (c_reads c0 + 1) 16, session_state = st, session_sk = Some (sk n),
      session_init = Some (JObj (init_dict n)), established = False\<rparr>, c0\<lparr>c_reads := c_reads c0 + 3\<rparr>)"
  using assms by (simp add: start_session_def bindS_def urandom_def readE_def liftS_def returnS_def numeral_3_eq_3)

lemma with_proof_fields:
  assumes "JObj d = jsort (JObj (AList.delete ''pad'' (with_proof C i crd s (text_envelope txt mid t))))"
  shows "dget d ''auth'' = jsort (JObj (build_auth C i (session_sid s) (the (session_init s)) (the (session_sk s))))"
    "dget d ''card'' = jsort (JObj (signed_dict crd))" "dget d ''type'' = JStr ''text''" "dget d ''id'' = JStr mid" "dget d ''ts'' = JInt t"
    "dget d ''body'' = JObj [(''text'', JStr txt)]"
proof -
  have e: "AList.delete ''pad'' (with_proof C i crd s (text_envelope txt mid t)) = text_envelope txt mid t @
      [(''auth'', JObj (build_auth C i (session_sid s) (the (session_init s)) (the (session_sk s)))), (''card'', JObj (signed_dict crd))]"
    by (simp add: with_proof_def text_envelope_def make_envelope_def)
  have m: "map_of d k = map_option jsort (map_of (text_envelope txt mid t @
      [(''auth'', JObj (build_auth C i (session_sid s) (the (session_init s)) (the (session_sk s)))), (''card'', JObj (signed_dict crd))]) k)" for k
    using assms [unfolded e] by (simp add: jsort_obj map_of_jsort text_envelope_def make_envelope_def del: jsort.simps)
  have b: "jsort (JObj [(''text'', JStr txt)]) = JObj [(''text'', JStr txt)]" by (simp add: jsort_obj)
  show "dget d ''auth'' = jsort (JObj (build_auth C i (session_sid s) (the (session_init s)) (the (session_sk s))))"
    "dget d ''card'' = jsort (JObj (signed_dict crd))" "dget d ''type'' = JStr ''text''" "dget d ''id'' = JStr mid" "dget d ''ts'' = JInt t"
    "dget d ''body'' = JObj [(''text'', JStr txt)]"
    by (simp_all add: dget_def m text_envelope_def make_envelope_def b del: jsort.simps(2))
qed

subsection \<open>The recipient's half\<close>

lemma auth_arrives:
  assumes "primitives_ok C" "identity_wf i"
  obtains a where "jsort (JObj (build_auth C i sid init key)) = JObj a" "verify_auth C (JObj a) sid (jsort init) key = Inr True"
    "dget a ''id'' = JStr (identity_id C i)" "bindE (getitem (JObj a) ''isign'') b64d_json = Inr (ed_public_bytes C i)"
proof -
  have d: "distinct (map fst (build_auth C i sid init key))" by (simp add: build_auth_def)
  obtain a where a: "jsort (JObj (build_auth C i sid init key)) = JObj a" "\<And>k. map_of a k = map_option jsort (map_of (build_auth C i sid init key) k)"
    by (rule jsort_object [OF d]) (rule that)
  have m: "auth_message C sid (jsort init) key = auth_message C sid init key" by (simp add: auth_message_def canonical_json_jsort)
  have s: "sign_correct C" using assms(1) by (simp add: primitives_ok_def)
  have "verify_auth C (JObj a) sid (jsort init) key = Inr True"
    unfolding verify_auth_True m using verify_sign [OF s assms(2)]
    by (simp add: a(2) build_auth_def json_is_int_def b64d_json_def identity_id_def)
  moreover have "dget a ''id'' = JStr (identity_id C i)" by (simp add: dget_def a(2) build_auth_def)
  moreover have "bindE (getitem (JObj a) ''isign'') b64d_json = Inr (ed_public_bytes C i)"
    by (simp add: a(2) build_auth_def b64d_json_def)
  ultimately show ?thesis by (rule that [OF a(1)])
qed

text \<open>The one-time prekey in the bundle is one whose private half is still held, or there is none.\<close>

definition opk_held :: "crypto \<Rightarrow> (string \<times> json) list \<Rightarrow> (int \<times> bytes) list \<Rightarrow> int option \<Rightarrow> bytes option \<Rightarrow> bool" where
  "opk_held C keys offered oid opk \<longleftrightarrow> offered = [] \<and> oid = None \<and> opk = None
     \<or> (\<exists>i p. offered = [(i, x25519_public C p)] \<and> oid = Some i \<and> opk = Some p \<and> length p = 32
          \<and> map_of keys (show_int i) = Some (snd (opk_entry (i, p, x25519_public C p))))"

lemma opk_held_offers: "opk_held C keys offered oid opk \<Longrightarrow> offers C offered oid opk"
  by (auto simp: opk_held_def offers_def)

lemma py_str_JInt: "py_str (JInt i) = show_int i"
  by (simp add: py_str_def)

lemma beginning_inbound:
  assumes "prekeys_of E c = Some (prekeys_doc (sp, sq) keys nxt)" "opk_held (e_crypto E) keys offered oid opk"
    and "getitem (JObj w) ''init'' = Inr hdr" "bindE (getitem (JObj w) ''sid'') b64d_json = Inr sid"
    and "getitem hdr ''ek'' = Inr (JStr (b64e ek))" "getitem hdr ''spk_id'' = Inr (JInt 1)"
    and "getitem hdr ''opk_id'' = Inr (case oid of None \<Rightarrow> JNull | Some j \<Rightarrow> JInt j)"
    and "respond (e_crypto E) (x_private (c_identity c)) sp opk ek = Inr k"
  shows "begin_inbound E w c = (Inr (Some (\<lparr>session_sid = sid, session_state = responder k sp sq, session_sk = Some k,
      session_init = Some hdr, established = False\<rparr>, case oid of None \<Rightarrow> JNull | Some j \<Rightarrow> JInt j)), c)"
proof -
  obtain h where h: "hdr = JObj h" using assms(5) by (cases hdr) auto
  have m: "map_of w ''init'' = Some hdr" "map_of h ''ek'' = Some (JStr (b64e ek))" "map_of h ''spk_id'' = Some (JInt 1)"
    "map_of h ''opk_id'' = Some (case oid of None \<Rightarrow> JNull | Some j \<Rightarrow> JInt j)"
    using assms(3,5,6,7) by (simp_all add: h res_simps)
  obtain v where v: "map_of w ''sid'' = Some v" "b64d_json v = Inr sid" using assms(4) by (auto simp: res_simps)
  show ?thesis
    using assms(1,2,8) m v unfolding opk_held_def
    by (elim disjE exE conjE) (simp_all add: h begin_inbound_def prekeys_of_def prekeys_doc_def opk_entry_def bindS_def liftS_def getS_def returnS_def
        json_items_def b64d_json_def py_str_JInt)
qed

text \<open>No operation changes the identity of a client.\<close>

interpretation identity_kept: acting_relation "\<lambda>c c'. c_identity c' = c_identity c" E for E
  by unfold_locales simp_all

lemma identity_consume: "keeps (\<lambda>c c'. c_identity c' = c_identity c) (consume_opk E oid)"
  unfolding consume_opk_def by (intro identity_kept.acting_intros)

lemma seconds_bound: "0 \<le> (t::int) \<Longrightarrow> t < 2 ^ 63 \<Longrightarrow> sql_int (seconds t) = Inr (seconds t)"
  unfolding sql_int_def seconds_def by simp arith

lemma storing_new_card:
  assumes "env_ok C E" "get_contact (account E c) (card_identity_id crd) (c_store c) = None" "card_name crd = JStr nm" "nm \<noteq> []"
  obtains ct c' where "store_card E crd JNull c = (Inr ct, c')" "ct_id ct = card_identity_id crd" "ct_session ct = JNull"
    "prekeys_of E c' = prekeys_of E c"
proof -
  let ?t = "seconds (e_clock E (c_reads c))"
  let ?ct = "card_contact (account E c) crd JNull None None ?t"
  let ?row = "?ct\<lparr>ct_identity := account E c, ct_nickname := JStr nm, ct_bundle_id := JStr (card_bundle_id crd),
      ct_relays := (if truthy (ct_relays ?ct) then ct_relays ?ct else JArr []), ct_created_at := ?t\<rparr>"
  let ?s = "c_store c\<lparr>s_contacts := upsert contact_key merge_contact_row ?row (s_contacts (c_store c))\<rparr>"
  have t: "sql_int ?t = Inr ?t" using assms(1) by (intro seconds_bound) (simp_all add: env_ok_def)
  have f: "ct_nickname ?ct = JStr nm" "ct_bundle_id ?ct = JStr (card_bundle_id crd)" "ct_created_at ?ct = ?t" "ct_id ?ct = card_identity_id crd" "ct_session ?ct = JNull"
    using assms(3,4) by (simp_all add: card_contact_def py_or_def)
  have i: "(if ct_created_at ?ct = 0 then ?t else ct_created_at ?ct) = ?t" by (simp add: f(3))
  have u: "upsert_contact ?t (account E c) ?ct (c_store c) = (Inr (), ?s)"
    using t by (simp only: upsert_contact_def i) (simp add: f(1,2) col_text_def sql_text_def meth_defs)
  have k: "contact_key ?row = (account E c, card_identity_id crd)" by (simp add: contact_key_def f(4))
  have g: "get_contact (account E c) (card_identity_id crd) ?s = Some ?row"
    using assms(2) by (simp add: get_contact_def contact_table.lookup_upsert k)
  let ?c' = "c\<lparr>c_reads := c_reads c + 1, c_store := ?s\<rparr>"
  have ac: "account E (c\<lparr>c_reads := n\<rparr>) = account E c" for n by (simp add: account_def)
  have "store_card E crd JNull c = (Inr r, c\<lparr>c_reads := c_reads c + 1, c_store := st\<rparr>)"
    if "upsert_contact ?t (account E c) ?ct (c_store c) = (Inr (), st)" "get_contact (account E c) (card_identity_id crd) st = Some r" for st r
    using assms(2) that by (simp add: store_card_def now_ms_def readE_def ask_store_def on_store_def thenS_def bindS_def getS_def returnS_def Let_def ac)
  from this [OF u g] have "store_card E crd JNull c = (Inr ?row, ?c')" .
  moreover have "prekeys_of E ?c' = prekeys_of E c" by (simp add: prekeys_of_def account_def load_prekeys_def)
  ultimately show ?thesis using that f by simp
qed

lemma consuming:
  assumes "prekeys_of E c = Some (prekeys_doc sp keys nxt)"
  shows "\<exists>c'. consume_opk E oid c = (Inr (), c')"
  using assms by (auto simp: consume_opk_def prekeys_of_def prekeys_doc_def json_items_def bindS_def getS_def liftS_def returnS_def on_store_def save_prekeys_def
      modifyS_def split: option.split)

lemma ignoring_returns: "fst (ignoring m c) = Inr ()"
  by (cases "m c"; cases "fst (m c)") (auto simp: ignoring_def catchS_def returnS_def)

lemma send_receipt_returns: "\<exists>c'. send_receipt E ct i kind c = (Inr (), c')"
proof -
  have "fst (send_receipt E ct i kind c) = Inr ()"
    by (simp add: send_receipt_def new_id_def urandom_def now_ms_def readE_def bindS_def [of "readE _"] returnS_def Let_def ignoring_returns bindS_def)
  then show ?thesis by (metis prod.collapse)
qed

lemma receiving_text:
  assumes "env_ok C E" "dget d ''type'' = JStr ''text''" "dget d ''id'' = JStr mid" "mid \<noteq> []" "dget d ''ts'' = JInt t" "0 \<le> t" "t < 2 ^ 63"
    and "find_by_remote_id (account E c) mid (Some ''received'') (c_store c) = None" "fresh_ids E (c_store c)"
  shows "\<exists>m c'. process_envelope E ct d c = (Inr (Some m), c')"
proof -
  let ?now = "e_clock E (c_reads c + 1)" and ?mid = "uuid_hex (e_random E (c_reads c) 16)"
  define ts where "ts = (if t = 0 then ?now else t)"
  have n: "0 \<le> ?now" "?now < 2 ^ 63" using assms(1) by (simp_all add: env_ok_def)
  have ts: "int_or (JInt t) ?now = Inr ts" by (simp add: int_or_def py_or_def ts_def)
  have b: "sql_int ts = Inr ts" using assms(6,7) n by (simp add: ts_def sql_int_def)
  let ?row = "received_message ?mid (account E c) (ct_id ct) (JStr ''text'') (py_or (dget d ''body'') (JObj [])) (JStr mid) ts"
  have r: "message_columns ?row = Inr ?row"
    using b by (simp add: message_columns_def received_message_def col_text_def sql_text_def not_null_def)
  let ?c = "c\<lparr>c_reads := c_reads c + 2, c_store := c_store c\<lparr>s_messages := upsert msg_id merge_message_row ?row (s_messages (c_store c))\<rparr>\<rparr>"
  obtain c' where c': "send_receipt E ct (JStr mid) ''delivered'' ?c = (Inr (), c')"
    using send_receipt_returns by blast
  have "s_messages (c_store c') = s_messages (c_store ?c)" by (rule keepsD [OF messages_kept.keeps_send_receipt c'])
  moreover have "get_message ?mid (c_store c) = None" using assms(9) by (simp add: fresh_ids_def)
  ultimately have g: "get_message ?mid (c_store c') = Some ?row"
    by (simp add: get_message_def message_table.lookup_upsert received_message_def)
  have "receive_message E ct d (JStr ''text'') (py_or (dget d ''body'') (JObj [])) c = (Inr (Some ?row), c')"
    using assms(3,4,5,8) ts r c' g
    by (simp add: receive_message_def sql_text_def bindS_def thenS_def getS_def liftS_def ask_store_def new_id_def urandom_def now_ms_def readE_def returnS_def
        on_store_def add_message_def modifyS_def Let_def numeral_2_eq_2)
  then show ?thesis using assms(2) by (simp add: process_envelope_def)
qed

text \<open>A blob that introduces a stranger, as the recipient sees it.\<close>

lemma introduction_accepted:
  assumes "primitives_ok C" "env_ok C E" "identity_wf i" "prekeys_of E c = Some (prekeys_doc (sp, sq) keys nxt)"
    and begun: "begin_inbound E w c = (Inr (Some (s, oid)), c)" "session_sk s = Some k" "session_init s = Some (jsort init)"
    and opened: "unseal C (e_random E (c_reads c) 32) blob (session_state s) = (Inr (d, v), r)"
    and shown: "dget d ''auth'' = jsort (JObj (build_auth C i (session_sid s) init k))" "dget d ''card'' = jsort (JObj (signed_dict crd))"
      "card_from_dict C (jsort (JObj (signed_dict crd))) = Inr crd" "card_identity_id crd = identity_id C i" "card_isign crd = ed_public_bytes C i"
      "card_name crd = JStr nm" "nm \<noteq> []"
    and new: "get_contact (account E c) (identity_id C i) (c_store c) = None"
      "find_by_remote_id (account E c) mid (Some ''received'') (c_store c) = None" "fresh_ids E (c_store c)"
    and sent: "dget d ''type'' = JStr ''text''" "dget d ''id'' = JStr mid" "mid \<noteq> []" "dget d ''ts'' = JInt t" "0 \<le> t" "t < 2 ^ 63"
  shows "\<exists>m ct c'. handle_fresh E blob w c = (Inr (Some m), c') \<and> carries m ct d \<and> ct_id ct = identity_id C i \<and> get_message (msg_id m) (c_store c') = Some m"
proof -
  have C: "e_crypto E = C" using assms(2) by (simp add: env_ok_def)
  let ?c = "c\<lparr>c_reads := c_reads c + 1\<rparr>"
  have ac: "account E (c\<lparr>c_reads := n\<rparr>) = account E c" for n by (simp add: account_def)
  obtain a where a: "jsort (JObj (build_auth C i (session_sid s) init k)) = JObj a" "verify_auth C (JObj a) (session_sid s) (jsort init) k = Inr True"
    "dget a ''id'' = JStr (identity_id C i)" "bindE (getitem (JObj a) ''isign'') b64d_json = Inr (ed_public_bytes C i)"
    by (rule auth_arrives [OF assms(1,3)])
  obtain cd where cd: "dget d ''card'' = JObj cd" using shown(2) by (simp add: jsort_obj)
  obtain ct c1 where st: "store_card E crd JNull ?c = (Inr ct, c1)" "ct_id ct = card_identity_id crd" "ct_session ct = JNull" "prekeys_of E c1 = prekeys_of E ?c"
    by (rule storing_new_card [OF assms(2), of ?c crd nm]) (use new(1) shown(4,6,7) in \<open>simp_all add: ac\<close>)
  have "prekeys_of E c1 = Some (prekeys_doc (sp, sq) keys nxt)" using st(4) assms(4) by (simp add: prekeys_of_def ac)
  then obtain c2 where co: "consume_opk E oid c1 = (Inr (), c2)" using consuming by blast
  have fin: "finish_inbound E (s\<lparr>session_state := r\<rparr>) d oid ?c = (Inr (Some ct), c2)"
    using shown(1,2,3,4,5) a cd begun(2,3) st(1) co
    by (simp add: finish_inbound_def C bindS_def liftS_def thenS_def returnS_def)
  have l: "load_sessions ct = Inr \<lparr>cs_devices = [], cs_outbound = [], cs_inbound = []\<rparr>" using st(3) by (simp add: load_sessions_def)
  let ?st = "\<lambda>key. put_session Inbound key (confirm (s\<lparr>session_state := r\<rparr>)) \<lparr>cs_devices = [], cs_outbound = [], cs_inbound = []\<rparr>"
  define key where "key = (case c_device_id c2 of None \<Rightarrow> LEGACY_DEVICE | Some d \<Rightarrow> if d = [] then LEGACY_DEVICE else d)"
  obtain c3 where sv: "save_sessions E (ct_id ct) (?st key) c2 = (Inr (), c3)"
    by (simp add: save_sessions_def bindS_def getS_def on_store_def set_contact_session_def modifyS_def)
  have i: "c_identity c3 = c_identity c"
    using keepsD [OF identity_kept.keeps_contacts(3) st(1)] keepsD [OF identity_kept.keeps_save_sessions sv]
      keepsD [OF identity_consume co] by simp
  have m: "s_messages (c_store c3) = s_messages (c_store c)"
    using keepsD [OF messages_kept_store_card st(1)] keepsD [OF messages_kept_consume co] keepsD [OF messages_kept.keeps_save_sessions sv] by simp
  have f: "fresh_ids E (c_store c3)" by (rule fresh_ids_same [OF m new(3)])
  have "find_by_remote_id (account E c3) mid (Some ''received'') (c_store c3) = None"
    using new(2) i m by (simp add: find_by_remote_id_def account_def)
  then obtain msg c' where p: "process_envelope E ct d c3 = (Inr (Some msg), c')"
    using receiving_text [OF assms(2) sent _ f] by blast
  have "handle_fresh E blob w c = (Inr (Some msg), c')"
    using begun(1) opened fin l sv p unfolding handle_fresh_def key_def
    by (cases v) (simp add: bindS_def urandom_def readE_def C liftS_def getS_def thenS_def)
  then show ?thesis using process_envelope_row [OF p f] st(2) shown(4) by auto
qed

subsection \<open>Both halves together\<close>

text \<open>The sender's side of the situation: it holds the recipient's keys, and the bundle that the relays serve for the device is one the
  recipient made from its signed prekey.\<close>

definition bundle_served :: "crypto \<Rightarrow> 'v env \<Rightarrow> 'v client \<Rightarrow> contact \<Rightarrow> device_entry \<Rightarrow> identity \<Rightarrow> bytes \<Rightarrow> (int \<times> bytes) list \<Rightarrow> 'v client \<Rightarrow> bool" where
  "bundle_served C E a ct d i sp offered a0 \<longleftrightarrow> ct_isign ct = ed_public_bytes C i \<and> ct_idh ct = x_public_bytes C i
     \<and> (\<exists>bid bd. fetch_device_bundle E ct d a = (Inr bd, a0) \<and> make_bundle C i bid 1 (x25519_public C sp) offered = Inr bd)"

text \<open>The recipient's side: it knows neither the session, nor the sender, nor the message.\<close>

definition stranger :: "'w env \<Rightarrow> 'w client \<Rightarrow> bytes \<Rightarrow> string \<Rightarrow> string \<Rightarrow> bool" where
  "stranger E b sid cid mid \<longleftrightarrow> find_session_in sid (list_contacts (account E b) (c_store b)) = Inr None
     \<and> get_contact (account E b) cid (c_store b) = None \<and> find_by_remote_id (account E b) mid (Some ''received'') (c_store b) = None
     \<and> fresh_ids E (c_store b)"

lemma json_ok_with_proof:
  assumes "json_ok (JObj (signed_dict crd))" "str_ok txt" "str_ok mid"
  shows "json_ok (JObj (with_proof C i crd s (text_envelope txt mid t)))"
  using assms by (simp add: with_proof_def text_envelope_def make_envelope_def json_ok_obj build_auth_def str_ok_ascii ascii_def)

text \<open>The sender's half: what it starts and seals, and that the recipient's half of the handshake opens it.\<close>

lemma introduction_sealed:
  assumes C: "primitives_ok C" "env_ok C EA" and ids: "identity_wf (c_identity a)" "identity_wf ib"
    and has_card: "carded C a crd" and sp: "length sp = 32" "length priv = 32"
    and served: "bundle_served C EA a ct d ib sp offered a0" "offers C offered oid opk"
    and dist: "distinct [x25519_public C sp, x25519_public C (e_random EA (c_reads a0 + 2) 32), x25519_public C priv]"
    and msg: "str_ok txt" "str_ok mid"
    and fits: "\<And>s. base_len (with_proof C (c_identity a) crd s (text_envelope txt mid t)) \<le> DEFAULT_MAX"
  defines "sid \<equiv> e_random EA (c_reads a0 + 1) 16" and "eph \<equiv> e_random EA (c_reads a0) 32"
  obtains s a1 blob s' a2 w init k r' dd where "start_session EA ct d a = (Inr s, a1)"
    "seal_envelope EA s (text_envelope txt mid t) ''text'' a1 = (Inr (blob, s'), a2)"
    "session_sid s = sid" "session_sk s = Some k" "session_init s = Some init"
    "parse_wire blob = Inr w" "map_of w ''init'' = Some (jsort init)" "bindE (getitem (JObj w) ''sid'') b64d_json = Inr sid"
    "getitem (jsort init) ''ek'' = Inr (JStr (b64e (x25519_public C eph)))" "getitem (jsort init) ''spk_id'' = Inr (JInt 1)"
    "getitem (jsort init) ''opk_id'' = Inr (case oid of None \<Rightarrow> JNull | Some j \<Rightarrow> JInt j)"
    "respond C (x_private ib) sp opk (x25519_public C eph) = Inr k"
    "unseal C priv blob (responder k sp (x25519_public C sp)) = (Inr (dd, sid, Some (jsort init)), r')"
    "JObj dd = jsort (JObj (AList.delete ''pad'' (with_proof C (c_identity a) crd s (text_envelope txt mid t))))"
proof -
  have cr: "e_crypto EA = C" and rl: "\<And>i n. length (e_random EA i n) = n" using C(2) by (simp_all add: env_ok_def)
  have hl: "hash_lengths C" "aead_correct C" "dh_correct C" "sign_correct C" using C(1) by (simp_all add: primitives_ok_def)
  let ?rk = "e_random EA (c_reads a0 + 2) 32"
  obtain bid bd where bd: "fetch_device_bundle EA ct d a = (Inr bd, a0)" "make_bundle C ib bid 1 (x25519_public C sp) offered = Inr bd"
      "ct_isign ct = ed_public_bytes C ib" "ct_idh ct = x_public_bytes C ib"
    using served(1) by (auto simp: bundle_served_def)
  have a0: "c_card a0 = Some crd" "c_identity a0 = c_identity a" using fetched_bundle_same [OF bd(1)] has_card by (auto simp: carded_def)
  obtain n where n: "initiate C eph bd (ed_public_bytes C ib) (x_public_bytes C ib) = Inr n"
    using handshake_agree [OF hl(3,4) ids(2) sp(1) rl bd(2) served(2)] by (auto simp: eph_def)
  define s0 where "s0 = (\<lambda>st. \<lparr>session_sid = sid, session_state = st, session_sk = Some (sk n), session_init = Some (JObj (init_dict n)), established = False\<rparr>)"
  define env where "env = with_proof C (c_identity a) crd (s0 undefined) (text_envelope txt mid t)"
  have env: "with_proof C (c_identity a) crd (s0 st) (text_envelope txt mid t) = env" for st by (simp add: with_proof_def s0_def env_def)
  have ok: "json_ok (JObj env)" unfolding env_def by (rule json_ok_with_proof) (use carded_reads_back [OF C(1) ids(1) has_card] msg in simp_all)
  have fit: "base_len env \<le> (case Some DEFAULT_MAX of None \<Rightarrow> DEFAULT_MAX | Some m \<Rightarrow> m)" using fits by (simp add: env_def)
  obtain n' st blob st' w hdr k r' dd where n': "initiate C eph bd (ed_public_bytes C ib) (x_public_bytes C ib) = Inr n'"
      and i: "initiator C ?rk (sk n') (spk bd) = Inr st"
      and s: "seal C (e_choice EA (c_reads a0 + 3)) (e_random EA (c_reads a0 + 3 + 1) 12) env sid (Some (JObj (init_dict n'))) (Some DEFAULT_MAX) st = (Inr blob, st')"
      and w: "parse_wire blob = Inr w" "wire_init w = Some hdr" "hdr = jsort (JObj (init_dict n'))" "bindE (getitem (JObj w) ''sid'') b64d_json = Inr sid"
      and h: "getitem hdr ''ek'' = Inr (JStr (b64e (x25519_public C eph)))" "getitem hdr ''spk_id'' = Inr (JInt 1)"
        "getitem hdr ''opk_id'' = Inr (case oid of None \<Rightarrow> JNull | Some j \<Rightarrow> JInt j)"
      and k: "respond C (x_private ib) sp opk (x25519_public C eph) = Inr k" "k = sk n'"
      and u: "unseal C priv blob (responder k sp (x25519_public C sp)) = (Inr (dd, sid, Some hdr), r')"
      and dd: "JObj dd = jsort (JObj (AList.delete ''pad'' env))"
    using first_sealed [OF hl ids(2) sp(1) rl [of "c_reads a0" 32, folded eph_def] rl sp(2) rl [of "c_reads a0 + 3 + 1"] bd(2) served(2) dist ok fit,
        of "e_choice EA (c_reads a0 + 3)" sid] by (elim exE conjE) (rule that)
  have [simp]: "n' = n" using n n' by simp
  let ?a1 = "a0\<lparr>c_reads := c_reads a0 + 3\<rparr>"
  have start: "start_session EA ct d a = (Inr (s0 st), ?a1)"
    using starting_session [OF bd(1), of n st] n i [simplified] bd(3,4) by (simp add: cr s0_def sid_def eph_def)
  have seal: "seal_envelope EA (s0 st) (text_envelope txt mid t) ''text'' ?a1 = (Inr (blob, (s0 st)\<lparr>session_state := st'\<rparr>), ?a1\<lparr>c_reads := c_reads a0 + 5\<rparr>)"
    using sealing_pending [of ?a1 crd "s0 st" "sk n" "JObj (init_dict n)" EA "text_envelope txt mid t" "''text''"] a0 s env [of st]
    by (simp add: cr s0_def is_pending_def envelope_max_size_def)
  have "map_of w ''init'' = Some hdr" using w(2) by (auto simp: wire_init_def split: option.splits json.splits)
  then show ?thesis
    by (intro that [OF start seal, of k "JObj (init_dict n)" w dd r']) (use w h k u dd env [of st] in \<open>simp_all add: s0_def del: jsort.simps(2)\<close>)
qed

lemma contact_made:
  fixes EA :: "'v env" and EB :: "'w env"
  assumes C: "primitives_ok C" "env_ok C EA" "env_ok C EB" and ids: "identity_wf (c_identity a)" "identity_wf (c_identity b)"
    and has_card: "carded C a crd" and held: "prekeys_of EB b = Some (prekeys_doc (sp, x25519_public C sp) keys nxt)" "length sp = 32"
    and served: "bundle_served C EA a ct d (c_identity b) sp offered a0" "opk_held C keys offered oid opk"
    and new: "stranger EB b (e_random EA (c_reads a0 + 1) 16) (account EA a) mid"
    and dist: "distinct [x25519_public C sp, x25519_public C (e_random EA (c_reads a0 + 2) 32), x25519_public C (e_random EB (c_reads b) 32)]"
    and msg: "str_ok txt" "str_ok mid" "mid \<noteq> []" "0 \<le> t" "t < 2 ^ 63"
    and fits: "\<And>s. base_len (with_proof C (c_identity a) crd s (text_envelope txt mid t)) \<le> DEFAULT_MAX"
  shows "\<exists>s a1 blob s' a2 m b'. start_session EA ct d a = (Inr s, a1)
    \<and> seal_envelope EA s (text_envelope txt mid t) ''text'' a1 = (Inr (blob, s'), a2)
    \<and> handle_blob EB blob b = (Inr (Some m), b')
    \<and> msg_contact m = JStr (account EA a) \<and> msg_type m = JStr ''text'' \<and> msg_body m = JObj [(''text'', JStr txt)] \<and> msg_remote_id m = JStr mid
    \<and> get_message (msg_id m) (c_store b') = Some m
    \<and> (\<exists>w hdr. getitem (JObj w) ''init'' = Inr hdr \<and> py_get hdr ''opk_id'' = Inr (case oid of None \<Rightarrow> JNull | Some j \<Rightarrow> JInt j)
        \<and> handle_fresh EB blob w b = (Inr (Some m), b'))"
proof -
  have cr: "e_crypto EA = C" "e_crypto EB = C" and rl: "length (e_random EB (c_reads b) 32) = 32"
    using C(2,3) by (simp_all add: env_ok_def)
  note cb = carded_reads_back [OF C(1) ids(1) has_card]
  obtain nm where nm: "card_name crd = JStr nm" "nm \<noteq> []" using cb by blast
  let ?sid = "e_random EA (c_reads a0 + 1) 16" and ?eph = "e_random EA (c_reads a0) 32"
  obtain s a1 blob s' a2 w init k r' dd where start: "start_session EA ct d a = (Inr s, a1)"
      "seal_envelope EA s (text_envelope txt mid t) ''text'' a1 = (Inr (blob, s'), a2)"
    and s: "session_sid s = ?sid" "session_sk s = Some k" "session_init s = Some init"
    and w: "parse_wire blob = Inr w" "map_of w ''init'' = Some (jsort init)" "bindE (getitem (JObj w) ''sid'') b64d_json = Inr ?sid"
    and h: "getitem (jsort init) ''ek'' = Inr (JStr (b64e (x25519_public C ?eph)))" "getitem (jsort init) ''spk_id'' = Inr (JInt 1)"
      "getitem (jsort init) ''opk_id'' = Inr (case oid of None \<Rightarrow> JNull | Some j \<Rightarrow> JInt j)"
      "respond C (x_private (c_identity b)) sp opk (x25519_public C ?eph) = Inr k"
    and u: "unseal C (e_random EB (c_reads b) 32) blob (responder k sp (x25519_public C sp)) = (Inr (dd, ?sid, Some (jsort init)), r')"
    and dd: "JObj dd = jsort (JObj (AList.delete ''pad'' (with_proof C (c_identity a) crd s (text_envelope txt mid t))))"
    by (rule introduction_sealed [OF C(1,2) ids has_card held(2) rl served(1) opk_held_offers [OF served(2)] dist msg(1,2) fits])
  let ?s = "\<lparr>session_sid = ?sid, session_state = responder k sp (x25519_public C sp), session_sk = Some k, session_init = Some (jsort init), established = False\<rparr>"
  have bg: "begin_inbound EB w b = (Inr (Some (?s, case oid of None \<Rightarrow> JNull | Some j \<Rightarrow> JInt j)), b)"
    by (rule beginning_inbound [OF held(1) served(2) [folded cr(2)] _ w(3) h(1-3)]) (simp_all add: cr h(4) w(2))
  note f = with_proof_fields [OF dd] and nw = new [unfolded stranger_def]
  obtain m ct' b' where m: "handle_fresh EB blob w b = (Inr (Some m), b')" "carries m ct' dd" "ct_id ct' = identity_id C (c_identity a)" "get_message (msg_id m) (c_store b') = Some m"
    using introduction_accepted [OF C(1,3) ids(1) held(1) bg, of k init blob dd "(?sid, Some (jsort init))" r' crd nm mid t] f u cb nm nw msg s
    by (auto simp: account_def cr)
  have "handle_blob EB blob b = (Inr (Some m), b')"
    using w nw m(1) by (simp add: handle_blob_def find_session_def client_contacts_def bindS_def liftS_def getS_def returnS_def)
  moreover have "msg_contact m = JStr (account EA a)" "msg_type m = JStr ''text''" "msg_body m = JObj [(''text'', JStr txt)]" "msg_remote_id m = JStr mid"
    using m(2,3) f by (simp_all add: carries_def py_or_def col_text_def sql_text_def account_def cr)
  moreover have "getitem (JObj w) ''init'' = Inr (jsort init)" "py_get (jsort init) ''opk_id'' = Inr (case oid of None \<Rightarrow> JNull | Some j \<Rightarrow> JInt j)"
    using w(2) h(3) by (cases "jsort init"; simp add: res_simps)+
  ultimately show ?thesis using start m(1,4) by blast
qed

lemma length_b64e: "length (b64e x) = (4 * length x + 2) div 3"
  by (induction x rule: b64e.induct) auto

lemma esc_b64: "c \<in> b64_char ` {..<64} \<Longrightarrow> esc_char c = [c]"
proof -
  have "list_all (\<lambda>c. esc_char c = [c]) b64_alphabet" "length b64_alphabet = 64" by code_simp+
  then show "c \<in> b64_char ` {..<64} \<Longrightarrow> ?thesis" by (auto simp: b64_char_def list_all_iff)
qed

lemma length_quote_b64e: "length (quote (b64e x)) = (4 * length x + 2) div 3 + 2"
proof -
  have "map esc_char (b64e x) = map (\<lambda>c. [c]) (b64e x)" using set_b64e [of x] esc_b64 by (intro map_cong) auto
  then have "concat (map esc_char (b64e x)) = b64e x" by (simp only: concat_map_singleton) simp
  then show ?thesis by (simp add: quote_def length_b64e)
qed

text \<open>The size of an introduction does not depend on the session it introduces.\<close>

lemma length_dumps_auth:
  assumes "primitives_ok C" "identity_wf i"
  shows "length (dumps (JObj (build_auth C i sid init key))) = length (dumps (JObj (build_auth C i sid' init' key')))"
proof -
  have l: "length (sk_commitment C k) = 32" "length (sign C i m) = 64" for k m
    using assms by (simp_all add: primitives_ok_def hash_lengths_def sk_commitment_def sign_def sign_correct_def identity_wf_def)
  show ?thesis by (simp add: build_auth_def length_quote_b64e l)
qed

lemma length_introduction:
  "length (dumps v) = length (dumps v') \<Longrightarrow>
    length (dumps (JObj [(''v'', a), (''type'', b), (''id'', c), (''ts'', d), (''body'', e), (''auth'', v), (''card'', f), (''pad'', g)]))
    = length (dumps (JObj [(''v'', a), (''type'', b), (''id'', c), (''ts'', d), (''body'', e), (''auth'', v'), (''card'', f), (''pad'', g)]))"
  by simp

lemma base_len_with_proof:
  assumes "primitives_ok C" "identity_wf i"
  shows "base_len (with_proof C i crd s (text_envelope txt mid t)) = base_len (with_proof C i crd s' (text_envelope txt mid t))"
  using length_introduction [OF length_dumps_auth [OF assms, of "session_sid s" "the (session_init s)" "the (session_sk s)" "session_sid s'" "the (session_init s')" "the (session_sk s')"]]
  by (simp add: base_len_def with_proof_def text_envelope_def make_envelope_def canonical_json_def del: dumps.simps(6))

text \<open>C1: two clients that share nothing but the relays.  The first knows the second's keys, gets a bundle that the second made (with a
  one-time prekey that it still holds, or with none), starts a session and seals a text.  The second has never heard of the first,
  of the session or of the message.  Then both of the first's steps succeed, and the second's handling of the blob returns the
  message: the same text and identifier, filed under the first's identity, and stored.\<close>

theorem first_contact:
  fixes EA :: "'v env" and EB :: "'w env"
  assumes "primitives_ok C" "env_ok C EA" "env_ok C EB" "identity_wf (c_identity a)" "identity_wf (c_identity b)"
    and "carded C a crd" "prekeys_of EB b = Some (prekeys_doc (sp, x25519_public C sp) keys nxt)" "length sp = 32"
    and "bundle_served C EA a ct d (c_identity b) sp offered a0" "opk_held C keys offered oid opk"
    and "stranger EB b (e_random EA (c_reads a0 + 1) 16) (account EA a) mid"
    and "distinct [x25519_public C sp, x25519_public C (e_random EA (c_reads a0 + 2) 32), x25519_public C (e_random EB (c_reads b) 32)]"
    and "str_ok txt" "str_ok mid" "mid \<noteq> []" "0 \<le> t" "t < 2 ^ 63"
    and "base_len (with_proof C (c_identity a) crd s0 (text_envelope txt mid t)) \<le> DEFAULT_MAX"
  shows "\<exists>s a1 blob s' a2 m b'. start_session EA ct d a = (Inr s, a1)
    \<and> seal_envelope EA s (text_envelope txt mid t) ''text'' a1 = (Inr (blob, s'), a2)
    \<and> handle_blob EB blob b = (Inr (Some m), b')
    \<and> msg_contact m = JStr (account EA a) \<and> msg_type m = JStr ''text'' \<and> msg_body m = JObj [(''text'', JStr txt)] \<and> msg_remote_id m = JStr mid
    \<and> get_message (msg_id m) (c_store b') = Some m"
proof -
  have "base_len (with_proof C (c_identity a) crd s (text_envelope txt mid t)) \<le> DEFAULT_MAX" for s
    using assms(18) base_len_with_proof [OF assms(1,4), of crd s _ _ _ s0] by simp
  from contact_made [OF assms(1-17) this] show ?thesis by (elim exE conjE) (intro exI conjI)
qed

subsection \<open>Concrete inputs\<close>

definition alice_identity :: identity where
  "alice_identity = \<lparr>ed_private = replicate 32 3, x_private = replicate 32 4, label = JNull\<rparr>"

definition alice_env :: "unit env" where
  "alice_env = sample_env\<lparr>e_request := (\<lambda>q w. (Inr \<lparr>rs_status = 200, rs_json = Inr (JObj (to_public_dict Handshake.sample_bundle)), rs_content = []\<rparr>, w)),
     e_random := (\<lambda>i n. replicate n (if i = 2 then 22 else 20)), e_clock := (\<lambda>_. 5)\<rparr>"

definition bob_env :: "unit env" where
  "bob_env = sample_env\<lparr>e_random := (\<lambda>i n. replicate n 40), e_clock := (\<lambda>_. 6)\<rparr>"

definition alice_card :: contact_card where
  "alice_card = create toy alice_identity ''b1'' sample_inbox [JStr ''https://r.example''] (JStr ''Al'')"

definition alice :: "unit client" where
  "alice = sample_client\<lparr>c_identity := alice_identity, c_card := Some alice_card\<rparr>"

definition bob_keys :: "(string \<times> json) list" where
  "bob_keys = [opk_entry (7, key_of 6, key_of 6)]"

definition bob :: "unit client" where
  "bob = sample_client\<lparr>c_card := Some sample_card,
     c_store := initialize\<lparr>s_prekeys := [(identity_id toy sample_identity, prekeys_doc (key_of 5, key_of 5) bob_keys 8)]\<rparr>\<rparr>"

definition bob_contact :: contact where
  "bob_contact = card_contact (identity_id toy alice_identity) sample_card JNull None None 0"

definition bob_device :: device_entry where
  "bob_device = \<lparr>entry_device_id = LEGACY_DEVICE, entry_inbox = card_view sample_inbox, entry_relays = [], entry_bundle_id = ''b1'', entry_name = []\<rparr>"

lemma primitives_toy: "primitives_ok toy"
  by (simp add: primitives_ok_def toy_ok)

lemma sample_envs: "env_ok toy alice_env" "env_ok toy bob_env"
  by (simp_all add: env_ok_def alice_env_def bob_env_def sample_env_def)

lemma alice_wf: "identity_wf (c_identity alice)" "carded toy alice alice_card" "c_identity bob = sample_identity"
proof -
  show "identity_wf (c_identity alice)" by (simp add: alice_def alice_identity_def identity_wf_def)
  have "alice_card = create toy (c_identity alice) ''b1'' sample_inbox (map JStr [''https://r.example'']) (JStr ''Al'')" by (simp add: alice_card_def alice_def)
  moreover have "c_card alice = Some alice_card" by (simp add: alice_def)
  moreover have "str_ok ''b1''" "list_all str_ok [''https://r.example'']" "str_ok ''Al''" by (simp_all add: str_ok_ascii ascii_def)
  ultimately show "carded toy alice alice_card" using sample_card_read(2) unfolding carded_def by blast
  show "c_identity bob = sample_identity" by (simp add: bob_def sample_client_def)
qed

lemma bob_prekeys: "prekeys_of bob_env bob = Some (prekeys_doc (key_of 5, x25519_public toy (key_of 5)) bob_keys 8)"
  by (simp add: prekeys_of_def load_prekeys_def account_def bob_env_def sample_env_def bob_def sample_client_def lookup_def initialize_def)

lemma bob_holds: "opk_held toy bob_keys [(7, x25519_public toy (key_of 6))] (Some 7) (Some (key_of 6))"
  by (simp add: opk_held_def bob_keys_def opk_entry_def)

lemma bob_served: "bundle_served toy alice_env alice bob_contact bob_device sample_identity (key_of 5) [(7, x25519_public toy (key_of 6))] alice"
proof -
  have "from_public (JObj (to_public_dict Handshake.sample_bundle)) (ed_public_bytes toy sample_identity) (x_public_bytes toy sample_identity) = Inr Handshake.sample_bundle"
    by (simp add: from_public_def bundle_from_dict_def to_public_dict_def Handshake.sample_bundle_def json_is_int_def get_or_def b64d_json_def read_opks_def opk_dicts_def b64d_b64e [of "[]", simplified])
  moreover have "ct_isign bob_contact = ed_public_bytes toy sample_identity" "ct_idh bob_contact = x_public_bytes toy sample_identity"
    by (simp_all add: bob_contact_def card_contact_def sample_card_def create_def Let_def)
  ultimately show ?thesis using sample_make_bundle
    by (auto simp: bundle_served_def fetch_device_bundle_def bob_device_def backend_for_def normalize_relay_urls_def alice_def sample_client_def backend_fetch_bundle_def
        pool_fetch_bundle_def relay_fetch_bundle_def checked_def raise_for_status_def on_net_def alice_env_def sample_env_def meth_defs rethrowS_def catchS_def)
qed

lemma bob_stranger: "stranger bob_env bob sid cid mid"
  by (simp add: stranger_def bob_def sample_client_def initialize_def list_contacts_def get_contact_def lookup_def find_by_remote_id_def fresh_ids_def get_message_def)

lemma length_quote_plain: "list_all (\<lambda>c. esc_char c = [c]) s \<Longrightarrow> length (quote s) = length s + 2"
  by (induction s) (auto simp: quote_def)

lemma length_quote_id: "length (quote (identity_id toy i)) = 28"
proof -
  have "list_all (\<lambda>c. esc_char c = [c]) B32_ALPHABET" by code_simp
  then have "list_all (\<lambda>c. esc_char c = [c]) (identity_id toy i)"
    using set_identity_id [of toy "ed_public_bytes toy i" "x_public_bytes toy i"] by (auto simp: identity_id_def list_all_iff)
  then show ?thesis using length_identity_id [OF toy_ok(1)] by (simp add: length_quote_plain identity_id_def)
qed

lemma alice_fits: "base_len (with_proof toy (c_identity alice) alice_card sample_session (text_envelope ''hi'' ''m1'' 5)) \<le> DEFAULT_MAX"
proof -
  have l: "length (sign toy i m) = 64" "length (sk_commitment toy k) = 32" "length (ed_public_bytes toy i) = 32" "length (x_public_bytes toy i) = 32" for i m k
    by (simp_all add: sign_def sk_commitment_def ed_public_bytes_def x_public_bytes_def toy_def)
  have n: "length (show_int 1) = 1" "length (show_int 5) = 1" by code_simp+
  show ?thesis
    by (simp add: base_len_def with_proof_def text_envelope_def make_envelope_def canonical_json_def build_auth_def signed_dict_def with_sig_def payload_def
        alice_card_def create_def Let_def card_view_def sample_inbox_def generate_capability_def length_quote_b64e length_quote_id l n length_quote_plain
        esc_char_def DEFAULT_MAX_def INIT_VERSION_def CARD_VERSION_def ENVELOPE_VERSION_def)
qed

lemma sample_distinct:
  "distinct [x25519_public toy (key_of 5), x25519_public toy (e_random alice_env (c_reads alice + 2) 32), x25519_public toy (e_random bob_env (c_reads bob) 32)]"
  by (simp add: toy_def alice_env_def bob_env_def alice_def sample_client_def key_of_def replicate_eq_replicate)

theorem first_contact_witness:
  "\<exists>s a1 blob s' a2 m b'. start_session alice_env bob_contact bob_device alice = (Inr s, a1)
    \<and> seal_envelope alice_env s (text_envelope ''hi'' ''m1'' 5) ''text'' a1 = (Inr (blob, s'), a2)
    \<and> handle_blob bob_env blob bob = (Inr (Some m), b') \<and> msg_contact m = JStr (account alice_env alice) \<and> msg_body m = JObj [(''text'', JStr ''hi'')]"
proof -
  have t: "str_ok ''hi''" "str_ok ''m1''" "''m1'' \<noteq> []" "(0::int) \<le> 5" "(5::int) < 2 ^ 63" by (simp_all add: str_ok_ascii ascii_def)
  from first_contact [OF primitives_toy sample_envs alice_wf(1) _ alice_wf(2) bob_prekeys length_key_of _ bob_holds bob_stranger sample_distinct t alice_fits,
      unfolded alice_wf(3), OF sample_identity_wf bob_served]
  show ?thesis by (elim exE conjE) (intro exI conjI)
qed

lemma sample_introduction:
  obtains blob m b' w hdr where "handle_blob bob_env blob bob = (Inr (Some m), b')" "handle_fresh bob_env blob w bob = (Inr (Some m), b')"
    "getitem (JObj w) ''init'' = Inr hdr" "py_get hdr ''opk_id'' = Inr (JInt 7)"
proof -
  have t: "str_ok ''hi''" "str_ok ''m1''" "''m1'' \<noteq> []" "(0::int) \<le> 5" "(5::int) < 2 ^ 63" by (simp_all add: str_ok_ascii ascii_def)
  have f: "base_len (with_proof toy (c_identity alice) alice_card s (text_envelope ''hi'' ''m1'' 5)) \<le> DEFAULT_MAX" for s
    using alice_fits base_len_with_proof [OF primitives_toy alice_wf(1), of alice_card s _ _ _ sample_session] by simp
  from contact_made [OF primitives_toy sample_envs alice_wf(1) _ alice_wf(2) bob_prekeys length_key_of _ bob_holds bob_stranger sample_distinct t f,
      unfolded alice_wf(3), OF sample_identity_wf bob_served]
  show ?thesis using that by (elim exE conjE) simp
qed

theorem message_attributed_witness:
  "\<exists>blob m ct e w sid. (known_sender bob_env bob sid blob ct e \<or> new_sender bob_env bob w sid blob ct e) \<and> carries m ct e"
proof -
  obtain blob m b' where h: "handle_blob bob_env blob bob = (Inr (Some m), b')" by (rule sample_introduction)
  have "fresh_ids bob_env (c_store bob)" using bob_stranger by (simp add: stranger_def)
  from message_attributed [OF h this] show ?thesis by blast
qed

theorem opk_introduces_once_witness:
  "\<exists>blob w m b' r. handle_fresh bob_env blob w bob = (Inr (Some m), b') \<and> handle_fresh bob_env blob w b' = (r, b') \<and> (r = Inr None \<or> (\<exists>err. r = Inl err))"
proof -
  obtain blob m b' w hdr where h: "handle_fresh bob_env blob w bob = (Inr (Some m), b')" "getitem (JObj w) ''init'' = Inr hdr" "py_get hdr ''opk_id'' = Inr (JInt 7)"
    by (rule sample_introduction)
  have c: "c_card bob \<noteq> None" "JInt 7 \<noteq> JNull" by (simp_all add: bob_def)
  show ?thesis using h(1) opk_introduces_once [OF c(1) h(1-3) c(2) h(2,3), of blob] by blast
qed

end
