(* ===== verification/Provisioning.thy ===== *)
theory Provisioning
  imports Introductions
begin

section \<open>Provisioning survives a restart\<close>

text \<open>
  What a client needs to be reached (mailbox, bundle identifier, prekeys, device identifier) is written to the store when it is provisioned; a new process on that
  store comes up with the same ones, whatever the relays answer and whatever relays it is configured with.
\<close>

subsection \<open>What is remembered\<close>

definition stored :: "'w env \<Rightarrow> 'w client \<Rightarrow> string \<Rightarrow> json" where
  "stored E c k = get_state (account E c) k JNull (c_store c)"

text \<open>The part of the state that announcing leaves alone.\<close>

definition same_setup :: "'w env \<Rightarrow> 'w client \<Rightarrow> 'w client \<Rightarrow> bool" where
  "same_setup E c c' \<longleftrightarrow> (\<forall>k. k \<noteq> DEVICE_KEYS_STATE \<longrightarrow> stored E c' k = stored E c k) \<and> c_own_inbox c' = c_own_inbox c \<and> c_bundle_id c' = c_bundle_id c
     \<and> c_card c' = c_card c \<and> c_device_id c' = c_device_id c \<and> c_identity c' = c_identity c \<and> prekeys_of E c' = prekeys_of E c"

interpretation setup_kept: requesting_relation "same_setup E" E for E
proof unfold_locales
  show "same_setup E a b \<Longrightarrow> same_setup E b c \<Longrightarrow> same_setup E a c" for a b c by (auto simp: same_setup_def)
qed (simp_all add: same_setup_def stored_def account_def prekeys_of_def)

lemma state_get_run: "state_get E k c = (Inr (stored E c k), c)"
  by (simp add: state_get_def getS_def stored_def)

lemma state_set_run:
  obtains c' where "state_set E k v c = (Inr (), c')" "\<And>k'. stored E c' k' = (if k' = k then v else stored E c k')" "c_own_inbox c' = c_own_inbox c"
    "c_bundle_id c' = c_bundle_id c" "c_card c' = c_card c" "c_device_id c' = c_device_id c" "c_identity c' = c_identity c" "prekeys_of E c' = prekeys_of E c"
proof -
  obtain st where st: "set_state (account E c) k v (c_store c) = (Inr (), st)" by (simp add: set_state_def meth_defs)
  have g: "get_state (account E c) k' JNull st = (if k' = k then v else get_state (account E c) k' JNull (c_store c))" for k'
    using get_set_state [of "account E c" k' JNull "account E c" k v "c_store c"] by (simp add: st)
  have p: "s_prekeys st = s_prekeys (c_store c)" using st by (auto simp: set_state_def meth_defs)
  have ac: "account E (c\<lparr>c_store := st\<rparr>) = account E c" by (simp add: account_def)
  show ?thesis
    by (rule that [of "c\<lparr>c_store := st\<rparr>"]) (simp_all add: state_set_def bindS_def getS_def on_store_def st g p ac stored_def prekeys_of_def load_prekeys_def)
qed

lemma setup_kept_device_keys: "keeps (same_setup E) (state_set E DEVICE_KEYS_STATE v)"
proof (rule keepsI)
  fix c
  show "same_setup E c (snd (state_set E DEVICE_KEYS_STATE v c))" by (rule state_set_run [of E DEVICE_KEYS_STATE v c]) (simp add: same_setup_def)
qed

lemma then_run: "m c = (Inr x, c') \<Longrightarrow> thenS m k c = k c'"
  by (simp add: thenS_def bindS_def)

lemma bind_liftS: "bindS (liftS (Inr x)) f c = f x c"
  by (simp add: bindS_def liftS_def)

lemma keeps_run: "keeps R m \<Longrightarrow> R c (snd (m c))"
  by (simp add: keeps_def)

subsection \<open>The device identifier\<close>

lemma device_id_chosen:
  assumes "env_ok C E" "c_device_id c = None"
  obtains dev c' where "ensure_device_id E c = (Inr (), c')" "c_device_id c' = Some dev" "dev \<noteq> []" "\<And>s. stored E c ''device_id'' = JStr s \<Longrightarrow> s \<noteq> [] \<Longrightarrow> dev = s"
    "\<And>k. stored E c' k = (if k = ''device_id'' then JStr dev else stored E c k)" "c_own_inbox c' = c_own_inbox c" "c_bundle_id c' = c_bundle_id c"
    "c_card c' = c_card c" "prekeys_of E c' = prekeys_of E c" "c_identity c' = c_identity c"
proof -
  have r: "new_device_id (e_random E i DEVICE_ID_SIZE) \<noteq> []" for i
  proof -
    have "length (e_random E i DEVICE_ID_SIZE) = 16" using assms(1) by (simp add: env_ok_def DEVICE_ID_SIZE_def)
    then show ?thesis by (auto simp: new_device_id_def)
  qed
  have *: "\<exists>dev n. dev \<noteq> [] \<and> (\<forall>s. stored E c ''device_id'' = JStr s \<longrightarrow> s \<noteq> [] \<longrightarrow> dev = s)
      \<and> ensure_device_id E c = state_set E ''device_id'' (JStr dev) (c\<lparr>c_reads := n, c_device_id := Some dev\<rparr>)"
  proof (cases "\<exists>s. stored E c ''device_id'' = JStr s \<and> s \<noteq> []")
    case True
    then show ?thesis using assms(2)
      by (auto simp: ensure_device_id_def bindS_def getS_def state_get_run returnS_def thenS_def modifyS_def intro!: exI [of _ "c_reads c"])
  next
    case False
    let ?dev = "new_device_id (e_random E (c_reads c) DEVICE_ID_SIZE)"
    have "ensure_device_id E c = state_set E ''device_id'' (JStr ?dev) (c\<lparr>c_reads := c_reads c + 1, c_device_id := Some ?dev\<rparr>)"
      using assms(2) False by (cases "stored E c ''device_id''")
        (auto simp: ensure_device_id_def bindS_def getS_def state_get_run returnS_def thenS_def modifyS_def urandom_def readE_def)
    then show ?thesis using r False by blast
  qed
  then obtain dev n where d: "dev \<noteq> []" "\<forall>s. stored E c ''device_id'' = JStr s \<longrightarrow> s \<noteq> [] \<longrightarrow> dev = s"
    "ensure_device_id E c = state_set E ''device_id'' (JStr dev) (c\<lparr>c_reads := n, c_device_id := Some dev\<rparr>)" by blast
  have s: "stored E (c\<lparr>c_reads := n, c_device_id := Some dev\<rparr>) k = stored E c k" "prekeys_of E (c\<lparr>c_reads := n, c_device_id := Some dev\<rparr>) = prekeys_of E c" for k
    by (simp_all add: stored_def account_def prekeys_of_def)
  show ?thesis
  proof (rule state_set_run [of E "''device_id''" "JStr dev" "c\<lparr>c_reads := n, c_device_id := Some dev\<rparr>"])
    fix c'
    assume "state_set E ''device_id'' (JStr dev) (c\<lparr>c_reads := n, c_device_id := Some dev\<rparr>) = (Inr (), c')"
      "\<And>k. stored E c' k = (if k = ''device_id'' then JStr dev else stored E (c\<lparr>c_reads := n, c_device_id := Some dev\<rparr>) k)"
      "c_own_inbox c' = c_own_inbox (c\<lparr>c_reads := n, c_device_id := Some dev\<rparr>)" "c_bundle_id c' = c_bundle_id (c\<lparr>c_reads := n, c_device_id := Some dev\<rparr>)"
      "c_card c' = c_card (c\<lparr>c_reads := n, c_device_id := Some dev\<rparr>)" "c_device_id c' = c_device_id (c\<lparr>c_reads := n, c_device_id := Some dev\<rparr>)"
      "c_identity c' = c_identity (c\<lparr>c_reads := n, c_device_id := Some dev\<rparr>)" "prekeys_of E c' = prekeys_of E (c\<lparr>c_reads := n, c_device_id := Some dev\<rparr>)"
    then show ?thesis using d s by (intro that [of c' dev]) simp_all
  qed
qed

lemma registered:
  assumes "env_ok C E" "c_device_id c = None"
  defines "c' \<equiv> snd (ensure_device_registered E c)"
  shows "\<exists>dev. c_device_id c' = Some dev \<and> dev \<noteq> [] \<and> stored E c' ''device_id'' = JStr dev
    \<and> (\<forall>s. stored E c ''device_id'' = JStr s \<longrightarrow> s \<noteq> [] \<longrightarrow> dev = s)
    \<and> (\<forall>k. k \<notin> {''device_id'', DEVICE_KEYS_STATE} \<longrightarrow> stored E c' k = stored E c k)
    \<and> c_own_inbox c' = c_own_inbox c \<and> c_bundle_id c' = c_bundle_id c \<and> c_card c' = c_card c \<and> prekeys_of E c' = prekeys_of E c"
proof (rule device_id_chosen [OF assms(1,2)])
  fix dev cA
  assume a: "ensure_device_id E c = (Inr (), cA)" "c_device_id cA = Some dev" "dev \<noteq> []" "\<And>s. stored E c ''device_id'' = JStr s \<Longrightarrow> s \<noteq> [] \<Longrightarrow> dev = s"
    "\<And>k. stored E cA k = (if k = ''device_id'' then JStr dev else stored E c k)" "c_own_inbox cA = c_own_inbox c" "c_bundle_id cA = c_bundle_id c"
    "c_card cA = c_card c" "prekeys_of E cA = prekeys_of E c"
  have "same_setup E cA c'"
    unfolding c'_def ensure_device_registered_def then_run [of "ensure_device_id E" c "()" cA, OF a(1)]
    by (rule keeps_run) (intro setup_kept.requesting_intros setup_kept.keeps_ignoring setup_kept.keeps_publish_device_keys_if setup_kept_device_keys)
  moreover have "''device_id'' \<noteq> DEVICE_KEYS_STATE" by (simp add: DEVICE_KEYS_STATE_def)
  ultimately show ?thesis using a by (simp add: same_setup_def)
qed

subsection \<open>Loading what was stored\<close>

text \<open>The mailbox, the bundle and the device that a store remembers.\<close>

definition remembers :: "'w env \<Rightarrow> 'w client \<Rightarrow> mailbox_capability \<Rightarrow> string \<Rightarrow> string \<Rightarrow> bool" where
  "remembers E c ib bid dev \<longleftrightarrow> (\<exists>d. stored E c ''inbox'' = JObj d \<and> d \<noteq> [] \<and> capability_from_json d True = Inr ib)
     \<and> stored E c ''bundle_id'' = JStr bid \<and> stored E c ''device_id'' = JStr dev \<and> dev \<noteq> []"

lemma announced: "\<exists>c'. announce E ib c = (Inr (), c') \<and> same_setup E c c'"
proof -
  have "fst (announce E ib c) = Inr ()"
    unfolding announce_def thenS_def bindS_def [of "ignoring _"]
    by (auto simp: split_beta ignoring_returns split: sum.split)
  moreover have "same_setup E c (snd (announce E ib c))" by (rule keeps_run) (rule setup_kept.keeps_publish)
  ultimately show ?thesis by (metis prod.collapse)
qed

lemma load_run:
  assumes "capability_from_json d True = Inr ib" "stored E c ''bundle_id'' = JStr bid"
  obtains c1 where "load_provisioned E d c = (Inr (), c1)" "c_own_inbox c1 = Some ib" "c_bundle_id c1 = Some bid" "c_device_id c1 = c_device_id c" "c_identity c1 = c_identity c"
    "\<And>k. k \<noteq> DEVICE_KEYS_STATE \<Longrightarrow> stored E c1 k = stored E c k" "prekeys_of E c1 = prekeys_of E c"
proof -
  let ?n = "stored E c ''name''"
  let ?c = "c\<lparr>c_own_inbox := Some ib, c_bundle_id := Some bid, c_name := text_or ?n (c_name c)\<rparr>"
  have st: "stored E (c\<lparr>c_own_inbox := a, c_bundle_id := b, c_name := x\<rparr>) k = stored E c k" "stored E (c\<lparr>c_own_inbox := a\<rparr>) k = stored E c k"
    "stored E (c\<lparr>c_own_inbox := a, c_bundle_id := b\<rparr>) k = stored E c k" "prekeys_of E (c\<lparr>c_own_inbox := a, c_bundle_id := b, c_name := x\<rparr>) = prekeys_of E c" for a b x k
    by (simp_all add: stored_def account_def prekeys_of_def)
  obtain c1 where c1: "announce E ib ?c = (Inr (), c1)" "same_setup E ?c c1" using announced by blast
  have "load_provisioned E d c = (Inr (), c1)"
    using assms c1(1) by (simp add: load_provisioned_def bindS_def thenS_def liftS_def modifyS_def state_get_run st)
  then show ?thesis by (rule that) (use c1(2) in \<open>simp_all add: same_setup_def st\<close>)
qed

lemma loading:
  assumes "stored E c ''inbox'' = JObj d" "d \<noteq> []" "capability_from_json d True = Inr ib" "stored E c ''bundle_id'' = JStr bid"
  obtains c1 crd where "provision E c = thenS (modifyS (\<lambda>c. c\<lparr>c_card := Some crd\<rparr>)) (thenS (ensure_device_registered E) (returnS crd)) c1"
    "inbox crd = ib\<lparr>read_token := None\<rparr>" "card_bundle_id crd = bid" "c_own_inbox c1 = Some ib" "c_bundle_id c1 = Some bid" "c_device_id c1 = c_device_id c"
    "\<And>k. k \<noteq> DEVICE_KEYS_STATE \<Longrightarrow> stored E c1 k = stored E c k" "prekeys_of E c1 = prekeys_of E c"
proof (rule load_run [OF assms(3,4)])
  fix c1
  assume l: "load_provisioned E d c = (Inr (), c1)" and f: "c_own_inbox c1 = Some ib" "c_bundle_id c1 = Some bid" "c_device_id c1 = c_device_id c"
      "\<And>k. k \<noteq> DEVICE_KEYS_STATE \<Longrightarrow> stored E c1 k = stored E c k" "prekeys_of E c1 = prekeys_of E c"
  define crd where "crd = create (e_crypto E) (c_identity c1) bid ib (map JStr (c_relays c1)) (JStr (c_name c1))"
  have b: "build_card E c1 = Inr crd" "inbox crd = ib\<lparr>read_token := None\<rparr>" "card_bundle_id crd = bid"
    using f(1,2) by (simp_all add: build_card_def crd_def create_def Let_def)
  have "provision E c = thenS (modifyS (\<lambda>c. c\<lparr>c_card := Some crd\<rparr>)) (thenS (ensure_device_registered E) (returnS crd)) c1"
    using assms(1,2) l b(1) by (simp add: provision_def bindS_def [of "state_get E _"] state_get_run thenS_def [of "load_provisioned E d"] bindS_def [of "load_provisioned E d"] bind_getS bind_liftS)
  then show ?thesis by (rule that) (use b f in simp_all)
qed

lemma not_loaded:
  assumes "load_provisioned E d c = (Inr (), c1)" "\<And>s. stored E c ''bundle_id'' \<noteq> JStr s"
  shows "c_bundle_id c1 = None"
proof -
  have st: "stored E (c\<lparr>c_own_inbox := a\<rparr>) k = stored E c k" "stored E (c\<lparr>c_own_inbox := a, c_bundle_id := b\<rparr>) k = stored E c k" for a b k
    by (simp_all add: stored_def account_def)
  have n: "(case stored E c ''bundle_id'' of JStr s \<Rightarrow> Some s | _ \<Rightarrow> None) = None" using assms(2) by (cases "stored E c ''bundle_id''") auto
  obtain ib nm where a: "announce E ib (c\<lparr>c_own_inbox := Some ib, c_bundle_id := None, c_name := nm\<rparr>) = (Inr (), c1)"
    using assms(1) n by (auto simp: load_provisioned_def thenS_def liftS_def modifyS_def state_get_run st elim!: bindS_InrE)
  then show ?thesis using announced [of E ib "c\<lparr>c_own_inbox := Some ib, c_bundle_id := None, c_name := nm\<rparr>"] by (auto simp: same_setup_def)
qed

lemma reloaded:
  assumes "env_ok C E" "c_device_id c = None" "remembers E c ib bid dev"
  defines "c' \<equiv> snd (provision E c)"
  shows "c_own_inbox c' = Some ib \<and> c_bundle_id c' = Some bid \<and> c_device_id c' = Some dev \<and> prekeys_of E c' = prekeys_of E c
    \<and> (\<exists>crd. c_card c' = Some crd \<and> inbox crd = ib\<lparr>read_token := None\<rparr> \<and> card_bundle_id crd = bid)"
proof -
  obtain d where d: "stored E c ''inbox'' = JObj d" "d \<noteq> []" "capability_from_json d True = Inr ib" "stored E c ''bundle_id'' = JStr bid"
      "stored E c ''device_id'' = JStr dev" "dev \<noteq> []"
    using assms(3) by (auto simp: remembers_def)
  show ?thesis
  proof (rule loading [OF d(1-4)])
    fix c1 crd
    assume p: "provision E c = thenS (modifyS (\<lambda>c. c\<lparr>c_card := Some crd\<rparr>)) (thenS (ensure_device_registered E) (returnS crd)) c1"
      "inbox crd = ib\<lparr>read_token := None\<rparr>" "card_bundle_id crd = bid" "c_own_inbox c1 = Some ib" "c_bundle_id c1 = Some bid" "c_device_id c1 = c_device_id c"
      "\<And>k. k \<noteq> DEVICE_KEYS_STATE \<Longrightarrow> stored E c1 k = stored E c k" "prekeys_of E c1 = prekeys_of E c"
    let ?c = "c1\<lparr>c_card := Some crd\<rparr>"
    have c': "c' = snd (ensure_device_registered E ?c)"
      by (cases "ensure_device_registered E ?c"; cases "fst (ensure_device_registered E ?c)") (simp_all add: c'_def p(1) thenS_def modifyS_def bindS_def returnS_def)
    have s: "stored E ?c k = stored E c1 k" "prekeys_of E ?c = prekeys_of E c1" for k by (simp_all add: stored_def account_def prekeys_of_def)
    have "''device_id'' \<noteq> DEVICE_KEYS_STATE" by (simp add: DEVICE_KEYS_STATE_def)
    then show ?thesis
      using registered [OF assms(1), of ?c, folded c'] p assms(2) d(5,6) by (auto simp: s)
  qed
qed

subsection \<open>Creating\<close>

lemma created_capability:
  assumes "env_ok C E" "backend_create_mailbox E pool c = (Inr ib, c')"
  shows "capability_from_json (capability_to_json ib) True = Inr ib \<and> same_setup E c c'"
proof -
  have "ib = generate_capability (e_random E (c_reads c) MAILBOX_ID_SIZE) (e_random E (c_reads c + 1) CAPABILITY_TOKEN_SIZE) (e_random E (c_reads c + 2) CAPABILITY_TOKEN_SIZE)"
    using assms(2) by (auto simp: backend_create_mailbox_def urandom_def readE_def ordered_def on_net_def pool_create_mailbox_def pool_register_def split_beta Let_def
        elim!: bindS_InrE split: if_splits prod.splits)
  moreover have "length (e_random E i n) = n" for i n using assms(1) by (simp add: env_ok_def)
  ultimately have "capability_wf ib" using generated_capability_wf by metis
  then show ?thesis using capability_roundtrip keepsD [OF setup_kept.keeps_backend(3) assms(2)] by blast
qed

lemma creating:
  assumes "env_ok C E" "create_provisioned E c = (Inr (), c1)"
  shows "\<exists>ib bid. c_own_inbox c1 = Some ib \<and> c_bundle_id c1 = Some bid \<and> stored E c1 ''inbox'' = JObj (capability_to_json ib) \<and> stored E c1 ''bundle_id'' = JStr bid
    \<and> capability_from_json (capability_to_json ib) True = Inr ib \<and> c_device_id c1 = c_device_id c"
proof -
  obtain pool ib c2 rnd c3 n prekeys c4 c5 c6 c7 c8 where
      b: "backend_create_mailbox E pool c = (Inr ib, c2)" and r: "urandom E 16 (c2\<lparr>c_own_inbox := Some ib\<rparr>) = (Inr rnd, c3)"
      and g: "generate_prekeys E n (c3\<lparr>c_bundle_id := Some (b64e rnd)\<rparr>) = (Inr prekeys, c4)" and sv: "on_store (save_prekeys (account E c4) prekeys) c4 = (Inr (), c5)"
      and p: "publish_bundle_of E prekeys c5 = (Inr (), c6)" and s: "state_set E ''inbox'' (JObj (capability_to_json ib)) c6 = (Inr (), c7)"
        "state_set E ''bundle_id'' (JStr (b64e rnd)) c7 = (Inr (), c8)" "state_set E ''name'' (JStr (c_name c8)) c8 = (Inr (), c1)"
    using assms(2) unfolding create_provisioned_def thenS_def by (auto simp: getS_def modifyS_def elim!: bindS_InrE)
  have k: "same_setup E c c2" "capability_from_json (capability_to_json ib) True = Inr ib" using created_capability [OF assms(1) b] by simp_all
  have "keeps (same_setup E) (generate_prekeys E n)" unfolding generate_prekeys_def keypair_def by (intro setup_kept.requesting_intros)
  then have k4: "same_setup E (c3\<lparr>c_bundle_id := Some (b64e rnd)\<rparr>) c4" using g by (rule keepsD)
  have k3: "same_setup E (c2\<lparr>c_own_inbox := Some ib\<rparr>) c3" by (rule keepsD [OF setup_kept.keeps_reads(1) r])
  have k6: "same_setup E c5 c6" by (rule keepsD [OF setup_kept.keeps_publish(1) p])
  have k5: "c_own_inbox c5 = c_own_inbox c4" "c_bundle_id c5 = c_bundle_id c4" "c_device_id c5 = c_device_id c4"
    using sv by (auto simp: on_store_def save_prekeys_def modifyS_def)
  have f6: "c_own_inbox c6 = Some ib" "c_bundle_id c6 = Some (b64e rnd)" "c_device_id c6 = c_device_id c"
    using k(1) k3 k4 k5 k6 by (simp_all add: same_setup_def)
  have "c_own_inbox c1 = Some ib \<and> c_bundle_id c1 = Some (b64e rnd) \<and> stored E c1 ''inbox'' = JObj (capability_to_json ib) \<and> stored E c1 ''bundle_id'' = JStr (b64e rnd) \<and> c_device_id c1 = c_device_id c"
    by (rule state_set_run [of E "''inbox''" "JObj (capability_to_json ib)" c6], rule state_set_run [of E "''bundle_id''" "JStr (b64e rnd)" c7],
        rule state_set_run [of E "''name''" "JStr (c_name c8)" c8]) (use s f6 in simp)
  then show ?thesis using k(2) by blast
qed

interpretation card_kept: writing_relation "\<lambda>c c'. c_card c' = c_card c" E for E
  by unfold_locales auto

lemma card_kept_registration: "keeps (\<lambda>c c'. c_card c' = c_card c) (ensure_device_registered E)"
proof -
  have "keeps (\<lambda>c c'. c_card c' = c_card c) (ensure_device_id E)"
    unfolding ensure_device_id_def by (intro card_kept.writing_intros keeps_case_text keeps_modify) simp_all
  then show ?thesis by (rule card_kept.keeps_registered_if) (rule card_kept.keeps_state_set)
qed

text \<open>What the first half of \<open>provision\<close> leaves, on either path.\<close>

lemma card_set_late: "keeps (\<lambda>c c'. c_card c' = c_card c) (create_provisioned E)" "keeps (\<lambda>c c'. c_card c' = c_card c) (load_provisioned E d)"
proof -
  have g: "keeps (\<lambda>c c'. c_card c' = c_card c) (generate_prekeys E n)" for n unfolding generate_prekeys_def keypair_def by (intro card_kept.writing_intros)
  have s: "keeps (\<lambda>c c'. c_card c' = c_card c) (on_store m)" for m by (rule keepsI) (simp add: on_store_def split_beta Let_def)
  show "keeps (\<lambda>c c'. c_card c' = c_card c) (create_provisioned E)"
    unfolding create_provisioned_def by (intro card_kept.writing_intros keeps_modify card_kept.keeps_publish g s) simp_all
  show "keeps (\<lambda>c c'. c_card c' = c_card c) (load_provisioned E d)"
    unfolding load_provisioned_def by (intro card_kept.writing_intros keeps_modify card_kept.keeps_publish) simp_all
qed

text \<open>A client without a card that has one afterwards went through the first half.\<close>

lemma first_half:
  assumes "c_card c = None" "c_card (snd (provision E c)) = Some crd"
  obtains c0 where "(if truthy (stored E c ''inbox'') then (case stored E c ''inbox'' of JObj d \<Rightarrow> load_provisioned E d | _ \<Rightarrow> raiseS AttributeError) else create_provisioned E) c = (Inr (), c0)"
    "build_card E c0 = Inr crd" "snd (provision E c) = snd (ensure_device_registered E (c0\<lparr>c_card := Some crd\<rparr>))"
proof -
  let ?m = "if truthy (stored E c ''inbox'') then (case stored E c ''inbox'' of JObj d \<Rightarrow> load_provisioned E d | _ \<Rightarrow> raiseS AttributeError) else create_provisioned E"
  have k: "c_card (snd (?m c)) = None"
    using assms(1) card_set_late(1) [THEN keeps_run, of E c] card_set_late(2) [THEN keeps_run, of E _ c] by (cases "stored E c ''inbox''") (simp_all add: raiseS_def)
  have p: "provision E c = thenS ?m (bindS (getS (build_card E)) (\<lambda>r. bindS (liftS r) (\<lambda>crd. thenS (modifyS (\<lambda>c. c\<lparr>c_card := Some crd\<rparr>)) (thenS (ensure_device_registered E) (returnS crd))))) c"
    by (simp add: provision_def bindS_def [of "state_get E _"] state_get_run)
  obtain c0 where m: "?m c = (Inr (), c0)"
    using assms(2) k unfolding p by (cases "?m c"; cases "fst (?m c)") (simp_all add: thenS_def bindS_def)
  have c0: "c_card c0 = None" using k m by simp
  obtain crd' where b: "build_card E c0 = Inr crd'"
    using assms(2) c0 unfolding p then_run [of ?m c "()" c0, OF m] by (cases "build_card E c0") (simp_all add: bind_getS, simp add: bindS_def liftS_def)
  have q: "provision E c = thenS (ensure_device_registered E) (returnS crd') (c0\<lparr>c_card := Some crd'\<rparr>)"
    unfolding p then_run [of ?m c "()" c0, OF m] by (simp add: bind_getS b bind_liftS) (rule then_run, simp add: modifyS_def)
  then have r: "snd (provision E c) = snd (ensure_device_registered E (c0\<lparr>c_card := Some crd'\<rparr>))"
    by (cases "ensure_device_registered E (c0\<lparr>c_card := Some crd'\<rparr>)"; cases "fst (ensure_device_registered E (c0\<lparr>c_card := Some crd'\<rparr>))") (simp_all add: thenS_def bindS_def returnS_def)
  have "c_card (snd (ensure_device_registered E (c0\<lparr>c_card := Some crd'\<rparr>))) = Some crd'" using keeps_run [OF card_kept_registration, of E "c0\<lparr>c_card := Some crd'\<rparr>"] by simp
  then have "crd' = crd" using assms(2) r by simp
  then show ?thesis using that m b r by simp
qed

lemma set_up:
  assumes "env_ok C E" "c_card c = None" "c_card (snd (provision E c)) = Some crd"
  obtains c0 ib bid d where "c_own_inbox c0 = Some ib" "c_bundle_id c0 = Some bid" "c_device_id c0 = c_device_id c"
    "stored E c0 ''inbox'' = JObj d" "d \<noteq> []" "capability_from_json d True = Inr ib" "stored E c0 ''bundle_id'' = JStr bid"
    "build_card E c0 = Inr crd" "snd (provision E c) = snd (ensure_device_registered E (c0\<lparr>c_card := Some crd\<rparr>))"
proof (rule first_half [OF assms(2,3)])
  fix c0
  assume m: "(if truthy (stored E c ''inbox'') then (case stored E c ''inbox'' of JObj d \<Rightarrow> load_provisioned E d | _ \<Rightarrow> raiseS AttributeError) else create_provisioned E) c = (Inr (), c0)"
    and b: "build_card E c0 = Inr crd" and r: "snd (provision E c) = snd (ensure_device_registered E (c0\<lparr>c_card := Some crd\<rparr>))"
  show ?thesis
  proof (cases "truthy (stored E c ''inbox'')")
    case True
    obtain d where l: "stored E c ''inbox'' = JObj d" "load_provisioned E d c = (Inr (), c0)" "d \<noteq> []"
      using m True by (cases "stored E c ''inbox''") (auto simp: raiseS_def)
    obtain ib where ib: "capability_from_json d True = Inr ib" using l(2) by (auto simp: load_provisioned_def liftS_def elim!: bindS_InrE)
    have "c_bundle_id c0 \<noteq> None" using b by (cases "c_bundle_id c0") (simp_all add: build_card_def of_option_def)
    then obtain bid where bid: "stored E c ''bundle_id'' = JStr bid" using not_loaded [OF l(2)] by (cases "\<exists>s. stored E c ''bundle_id'' = JStr s") auto
    show ?thesis
    proof (rule load_run [OF ib bid])
      fix c2
      assume "load_provisioned E d c = (Inr (), c2)" "c_own_inbox c2 = Some ib" "c_bundle_id c2 = Some bid" "c_device_id c2 = c_device_id c" "\<And>k. k \<noteq> DEVICE_KEYS_STATE \<Longrightarrow> stored E c2 k = stored E c k"
      moreover have "''inbox'' \<noteq> DEVICE_KEYS_STATE" "''bundle_id'' \<noteq> DEVICE_KEYS_STATE" by (simp_all add: DEVICE_KEYS_STATE_def)
      ultimately show ?thesis using that [of c0 ib bid d] l ib bid b r by simp
    qed
  next
    case False
    then have l: "create_provisioned E c = (Inr (), c0)" using m by simp
    have "capability_to_json ib \<noteq> []" for ib by (simp add: capability_to_json_def)
    then show ?thesis using creating [OF assms(1) l] that b r by metis
  qed
qed

lemma provisioned_once:
  assumes "env_ok C E" "c_device_id c = None" "c_card c = None" "c_card (snd (provision E c)) = Some crd"
  defines "c1 \<equiv> snd (provision E c)"
  obtains ib bid dev where "remembers E c1 ib bid dev" "c_own_inbox c1 = Some ib" "c_bundle_id c1 = Some bid" "c_device_id c1 = Some dev"
    "inbox crd = ib\<lparr>read_token := None\<rparr>" "card_bundle_id crd = bid"
proof (rule set_up [OF assms(1,3,4)])
  fix c0 ib bid d
  assume x: "c_own_inbox c0 = Some ib" "c_bundle_id c0 = Some bid" "c_device_id c0 = c_device_id c"
    "stored E c0 ''inbox'' = JObj d" "d \<noteq> []" "capability_from_json d True = Inr ib" "stored E c0 ''bundle_id'' = JStr bid"
    "build_card E c0 = Inr crd" "snd (provision E c) = snd (ensure_device_registered E (c0\<lparr>c_card := Some crd\<rparr>))"
  have c: "inbox crd = ib\<lparr>read_token := None\<rparr>" "card_bundle_id crd = bid" using x(1,2,8) by (auto simp: build_card_def create_def Let_def)
  have s: "stored E (c0\<lparr>c_card := Some crd\<rparr>) k = stored E c0 k" for k by (simp add: stored_def account_def)
  have k: "''inbox'' \<noteq> DEVICE_KEYS_STATE" "''bundle_id'' \<noteq> DEVICE_KEYS_STATE" by (simp_all add: DEVICE_KEYS_STATE_def)
  obtain dev where "c_device_id c1 = Some dev" "dev \<noteq> []" "stored E c1 ''device_id'' = JStr dev" "stored E c1 ''inbox'' = JObj d" "stored E c1 ''bundle_id'' = JStr bid"
      "c_own_inbox c1 = Some ib" "c_bundle_id c1 = Some bid"
    using registered [OF assms(1), of "c0\<lparr>c_card := Some crd\<rparr>", folded x(9), folded c1_def] x assms(2) k by (auto simp: s)
  then show ?thesis using that [of ib bid dev] x(5,6) c by (auto simp: remembers_def)
qed

text \<open>C12: a client that was provisioned once stays reachable.  A new process on the same store, configured with any relays and whatever they answer, has the
  same mailbox, the same bundle identifier, the same device identifier and the same prekeys, and advertises that mailbox and that
  bundle in its card, also when registering the device raises an error.\<close>

theorem provisioning_survives_restart:
  assumes "env_ok C E" "c_device_id c = None" "c_card c = None" "snd (provision E c) = c1" "c_card c1 = Some crd"
    and "make_client E (c_identity c1) (c_store c1) urls name n w k = Inr c2"
  shows "let c3 = snd (provision E c2) in c_own_inbox c3 = c_own_inbox c1 \<and> c_bundle_id c3 = c_bundle_id c1 \<and> c_device_id c3 = c_device_id c1
    \<and> prekeys_of E c3 = prekeys_of E c1
    \<and> (\<exists>crd3. c_card c3 = Some crd3 \<and> inbox crd3 = inbox crd \<and> card_bundle_id crd3 = card_bundle_id crd)"
proof (rule provisioned_once [OF assms(1-3) assms(5) [folded assms(4)], unfolded assms(4)])
  fix ib bid dev
  assume x: "remembers E c1 ib bid dev" "c_own_inbox c1 = Some ib" "c_bundle_id c1 = Some bid" "c_device_id c1 = Some dev"
    "inbox crd = ib\<lparr>read_token := None\<rparr>" "card_bundle_id crd = bid"
  have c2: "c_store c2 = c_store c1" "c_identity c2 = c_identity c1" "c_device_id c2 = None"
    using assms(6) by (auto simp: make_client_def Let_def res_simps split: if_splits)
  then have s: "stored E c2 k = stored E c1 k" "prekeys_of E c2 = prekeys_of E c1" for k by (simp_all add: stored_def account_def prekeys_of_def)
  then have "remembers E c2 ib bid dev" using x(1) by (simp add: remembers_def)
  from reloaded [OF assms(1) c2(3) this] show ?thesis using x s by (simp add: Let_def)
qed

definition sample_stored :: "unit client" where
  "sample_stored = sample_client\<lparr>c_device_id := None, c_store := initialize\<lparr>s_state := [
     \<lparr>kv_identity = identity_id toy sample_identity, kv_key = ''inbox'', kv_value = JObj (capability_to_json sample_inbox)\<rparr>,
     \<lparr>kv_identity = identity_id toy sample_identity, kv_key = ''bundle_id'', kv_value = JStr ''b1''\<rparr>,
     \<lparr>kv_identity = identity_id toy sample_identity, kv_key = ''device_id'', kv_value = JStr ''d1''\<rparr>]\<rparr>\<rparr>"

lemma sample_remembers: "remembers bob_env sample_stored sample_inbox ''b1'' ''d1''"
proof -
  have "capability_from_json (capability_to_json sample_inbox) True = Inr sample_inbox" using capability_roundtrip [OF sample_card_read(2)] by simp
  moreover have "capability_to_json sample_inbox \<noteq> []" by (simp add: capability_to_json_def)
  ultimately show ?thesis
    by (simp add: remembers_def stored_def get_state_def lookup_def state_key_def sample_stored_def account_def bob_env_def sample_env_def sample_client_def)
qed

lemma sample_relay: "normalize_relay_urls [''https://r.example''] = [''https://r.example'']"
  by code_simp

theorem provisioning_survives_restart_witness:
  "\<exists>c1 c2. make_client bob_env sample_identity (c_store c1) [''https://r.example''] None 5 () 0 = Inr c2 \<and> c1 = snd (provision bob_env sample_stored)
     \<and> c_own_inbox (snd (provision bob_env c2)) = c_own_inbox c1 \<and> c_own_inbox c1 = Some sample_inbox"
proof -
  let ?c1 = "snd (provision bob_env sample_stored)"
  have n: "c_device_id sample_stored = None" "c_card sample_stored = None" "c_identity sample_stored = sample_identity"
    by (simp_all add: sample_stored_def sample_client_def)
  obtain crd where crd: "c_card ?c1 = Some crd" "c_own_inbox ?c1 = Some sample_inbox" using reloaded [OF sample_envs(2) n(1) sample_remembers] by blast
  have i: "c_identity ?c1 = sample_identity" using keeps_run [OF identity_kept.keeps_provision, of bob_env sample_stored] n(3) by simp
  obtain c2 where c2: "make_client bob_env sample_identity (c_store ?c1) [''https://r.example''] None 5 () 0 = Inr c2"
    using sample_relay by (simp add: make_client_def make_pool_def Let_def res_simps)
  then show ?thesis
    using provisioning_survives_restart [OF sample_envs(2) n(1,2) refl crd(1), of "[''https://r.example'']" None 5 "()" 0 c2] crd(2) by (auto simp: i Let_def)
qed

end
