(* ===== verification/JsonText.thy ===== *)
theory JsonText
  imports Json
begin

section \<open>The texts of \<open>json.dumps\<close>\<close>

text \<open>
  The files of the program and the columns of its databases are written by \<open>json.dumps\<close> and \<open>json.dump\<close> with their
  defaults: every character outside the printable ASCII range is written as an escape, characters above U+FFFF as two.
  Two layouts occur: \<open>indent=2, sort_keys=True\<close> (the vault of an identity, the settings of the desktop) and the plain one (the key
  file).  The theorem of this theory: \<open>json.loads\<close> reads every such text back.
\<close>

subsection \<open>Strings\<close>

text \<open>The number of a code point, from its UTF-8 encoding.\<close>

definition cp_value :: "string \<Rightarrow> nat" where
  "cp_value p = (case map of_char p of
     [a] \<Rightarrow> a
   | [a, b] \<Rightarrow> a mod 32 * 64 + b mod 64
   | [a, b, c] \<Rightarrow> a mod 16 * 4096 + b mod 64 * 64 + c mod 64
   | [a, b, c, d] \<Rightarrow> a mod 8 * 262144 + b mod 64 * 4096 + c mod 64 * 64 + d mod 64
   | _ \<Rightarrow> 0)"

definition hex4_text :: "nat \<Rightarrow> string" where
  "hex4_text n = [hex_char (n div 4096 mod 16), hex_char (n div 256 mod 16), hex_char (n div 16 mod 16), hex_char (n mod 16)]"

definition unicode_escape :: "nat \<Rightarrow> string" where
  "unicode_escape n = (if n < 0x10000 then CHR 0x5C # CHR ''u'' # hex4_text n
     else CHR 0x5C # CHR ''u'' # hex4_text (0xD800 + (n - 0x10000) div 1024) @ CHR 0x5C # CHR ''u'' # hex4_text (0xDC00 + (n - 0x10000) mod 1024))"

definition ascii_escape :: "string \<Rightarrow> string" where
  "ascii_escape p =
     (if p \<in> {[CHR 0x22], [CHR 0x5C], [CHR 0x08], [CHR 0x0C], [CHR 0x0A], [CHR 0x0D], [CHR 0x09]} then esc_char (hd p)
      else let n = cp_value p in if 32 \<le> n \<and> n \<le> 126 then p else unicode_escape n)"

definition ascii_quote :: "string \<Rightarrow> string" where
  "ascii_quote s = CHR 0x22 # concat (map ascii_escape (code_points s)) @ [CHR 0x22]"

subsection \<open>Documents\<close>

datatype layout = Plain | Indented

definition gap :: "layout \<Rightarrow> nat \<Rightarrow> string" where
  "gap l d = (case l of Plain \<Rightarrow> [] | Indented \<Rightarrow> CHR 0x0A # replicate (2 * d) (CHR '' ''))"

definition blank :: "layout \<Rightarrow> nat \<Rightarrow> string" where
  "blank l d = (case l of Plain \<Rightarrow> '' '' | Indented \<Rightarrow> gap l d)"

fun lay_out :: "layout \<Rightarrow> nat \<Rightarrow> json \<Rightarrow> string" where
  "lay_out l d JNull = ''null''"
| "lay_out l d (JBool b) = (if b then ''true'' else ''false'')"
| "lay_out l d (JInt i) = show_int i"
| "lay_out l d (JStr s) = ascii_quote s"
| "lay_out l d (JArr xs) =
     (if xs = [] then ''[]''
      else CHR ''['' # gap l (d + 1) @ join (CHR '','' # blank l (d + 1)) (map (lay_out l (d + 1)) xs) @ gap l d @ '']'')"
| "lay_out l d (JObj kvs) =
     (if kvs = [] then [CHR 0x7B, CHR 0x7D]
      else CHR 0x7B # gap l (d + 1) @ join (CHR '','' # blank l (d + 1)) (map (\<lambda>kv. ascii_quote (fst kv) @ '': '' @ lay_out l (d + 1) (snd kv)) kvs)
        @ gap l d @ [CHR 0x7D])"

definition json_text :: "layout \<Rightarrow> json \<Rightarrow> string" where
  "json_text l v = lay_out l 0 (case l of Plain \<Rightarrow> v | Indented \<Rightarrow> jsort v)"

subsection \<open>Code points\<close>

lemma of_char_eqI: "(of_char c :: nat) = of_char d \<Longrightarrow> c = d"
  by (metis char_of_char)

text \<open>A text is empty or starts with one code point, in one of four shapes.\<close>

lemma str_ok_first:
  assumes "str_ok s"
  obtains (none) "s = []"
  | (ascii) a t where "s = a # t" "of_char a < (128 :: nat)" "str_ok t"
  | (two) a b t where "s = a # b # t" "194 \<le> (of_char a :: nat)" "of_char a \<le> (223 :: nat)" "cont_char b" "str_ok t"
  | (three) a b c t where "s = a # b # c # t" "224 \<le> (of_char a :: nat)" "of_char a \<le> (239 :: nat)" "cont_char b" "cont_char c"
      "of_char a = (224 :: nat) \<longrightarrow> 160 \<le> (of_char b :: nat)" "of_char a = (237 :: nat) \<longrightarrow> of_char b \<le> (159 :: nat)" "str_ok t"
  | (four) a b c d t where "s = a # b # c # d # t" "240 \<le> (of_char a :: nat)" "of_char a \<le> (244 :: nat)" "cont_char b" "cont_char c" "cont_char d"
      "of_char a = (240 :: nat) \<longrightarrow> 144 \<le> (of_char b :: nat)" "of_char a = (244 :: nat) \<longrightarrow> of_char b \<le> (143 :: nat)" "str_ok t"
proof -
  have le: "(of_char x :: byte) \<le> n \<longleftrightarrow> (of_char x :: nat) \<le> unat n" "n \<le> (of_char x :: byte) \<longleftrightarrow> unat n \<le> (of_char x :: nat)"
    "(of_char x :: byte) = n \<longleftrightarrow> (of_char x :: nat) = unat n" for x n
    by (simp_all add: word_le_nat_alt unat_of_char8 word_unat_eq_iff)
  have c: "is_cont (of_char x) = cont_char x" for x by (auto simp: is_cont_def cont_char_def le)
  note simps = str_ok_def str_encode_def le c
  show ?thesis
  proof (cases s)
    case s: (Cons a bs)
    show ?thesis
    proof (cases "of_char a < (128 :: nat)")
      case True
      then show ?thesis using ascii [of a bs] assms s by (simp add: simps)
    next
      case a: False
      then obtain b cs where b: "bs = b # cs" using assms s by (cases bs) (auto simp: simps)
      show ?thesis
      proof (cases "194 \<le> (of_char a :: nat) \<and> of_char a \<le> (223 :: nat)")
        case True
        then show ?thesis using two [of a b cs] assms s a b by (simp add: simps)
      next
        case a2: False
        then obtain e ds where e: "cs = e # ds" using assms s a b by (cases cs) (auto simp: simps split: if_splits)
        show ?thesis
        proof (cases "224 \<le> (of_char a :: nat) \<and> of_char a \<le> (239 :: nat)")
          case True
          then show ?thesis using three [of a b e ds] assms s a b a2 e by (simp add: simps)
        next
          case a3: False
          then obtain f es where "ds = f # es" using assms s a b a2 e by (cases ds) (auto simp: simps split: if_splits)
          then show ?thesis using four [of a b e f es] assms s a b a2 e a3 by (simp add: simps)
        qed
      qed
    qed
  qed (rule none)
qed

lemma str_ok_starts: "str_ok t \<Longrightarrow> takeWhile cont_char t = []"
  by (erule str_ok_first) (auto simp: cont_char_def)

lemma str_ok_rest: "str_ok t \<Longrightarrow> dropWhile cont_char t = t"
  by (erule str_ok_first) (auto simp: cont_char_def)

text \<open>So a text is a sequence of code points, each with a number from which the encoding comes back.\<close>

definition is_cp :: "string \<Rightarrow> bool" where
  "is_cp p \<longleftrightarrow> utf8_chars (cp_value p) = p \<and> cp_value p < 0x110000 \<and> \<not> (0xD800 \<le> cp_value p \<and> cp_value p < 0xE000)
     \<and> (cp_value p < 128 \<longrightarrow> p = [char_of (cp_value p)])"

lemma low_bits: "x < 32 \<Longrightarrow> (x + 192) mod 32 = (x :: nat)" "x < 16 \<Longrightarrow> (x + 224) mod 16 = (x :: nat)" "x < 8 \<Longrightarrow> (x + 240) mod 8 = (x :: nat)"
  "x < 64 \<Longrightarrow> (x + 128) mod 64 = (x :: nat)"
  using mod_mult_self1 [of x 6 32] mod_mult_self1 [of x 14 16] mod_mult_self1 [of x 30 8] mod_mult_self1 [of x 2 64] by simp_all

lemma bit_groups:
  fixes x y z w :: nat
  assumes "y < 64" "z < 64" "w < 64"
  shows "(x * 64 + y) div 64 = x" "(x * 64 + y) mod 64 = y"
    "(x * 4096 + y * 64 + z) div 4096 = x" "(x * 4096 + y * 64 + z) div 64 mod 64 = y" "(x * 4096 + y * 64 + z) mod 64 = z"
    "(x * 262144 + y * 4096 + z * 64 + w) div 262144 = x" "(x * 262144 + y * 4096 + z * 64 + w) div 4096 mod 64 = y"
    "(x * 262144 + y * 4096 + z * 64 + w) div 64 mod 64 = z" "(x * 262144 + y * 4096 + z * 64 + w) mod 64 = w"
proof -
  have one: "(u * 64 + v) div 64 = u" "(u * 64 + v) mod 64 = v" if "v < 64" for u v :: nat using that by simp_all
  have n: "x * 4096 + y * 64 + z = (x * 64 + y) * 64 + z" "x * 262144 + y * 4096 + z * 64 + w = ((x * 64 + y) * 64 + z) * 64 + w" by simp_all
  have d: "m div 4096 = m div 64 div 64" "m div 262144 = m div 64 div 64 div 64" for m :: nat by (simp_all add: div_mult2_eq [symmetric])
  show "(x * 64 + y) div 64 = x" "(x * 64 + y) mod 64 = y"
    "(x * 4096 + y * 64 + z) div 4096 = x" "(x * 4096 + y * 64 + z) div 64 mod 64 = y" "(x * 4096 + y * 64 + z) mod 64 = z"
    "(x * 262144 + y * 4096 + z * 64 + w) div 262144 = x" "(x * 262144 + y * 4096 + z * 64 + w) div 4096 mod 64 = y"
    "(x * 262144 + y * 4096 + z * 64 + w) div 64 mod 64 = z" "(x * 262144 + y * 4096 + z * 64 + w) mod 64 = w"
    unfolding n d by (simp_all only: one [OF assms(1)] one [OF assms(2)] one [OF assms(3)])
qed

lemma code_points_first:
  assumes "str_ok s" "s \<noteq> []"
  obtains p t where "s = p @ t" "code_points s = p # code_points t" "is_cp p" "p \<noteq> []" "str_ok t"
  using assms(1)
proof (cases rule: str_ok_first)
  case none
  then show ?thesis using assms(2) by simp
next
  case (ascii a t)
  have "code_points s = [a] # code_points t" using ascii by (simp add: str_ok_starts str_ok_rest)
  moreover have "is_cp [a]" using ascii by (simp add: is_cp_def cp_value_def utf8_chars_def)
  ultimately show ?thesis using that [of "[a]" t] ascii by simp
next
  case (two a b t)
  define x y where "x = (of_char a - 192 :: nat)" and "y = (of_char b - 128 :: nat)"
  have v: "of_char a = x + 192" "of_char b = y + 128" "2 \<le> x" "x < 32" "y < 64" using two by (auto simp: x_def y_def cont_char_def)
  have n: "cp_value [a, b] = x * 64 + y" using v by (simp add: cp_value_def low_bits)
  have "utf8_chars (x * 64 + y) = [a, b]"
    using v by (auto simp: utf8_chars_def bit_groups intro!: of_char_eqI)
  moreover have "code_points s = [a, b] # code_points t" using two by (simp add: str_ok_starts str_ok_rest)
  moreover have "is_cp [a, b]" using calculation(1) v n by (simp add: is_cp_def)
  ultimately show ?thesis using that [of "[a, b]" t] two by simp
next
  case (three a b c t)
  define x y z where "x = (of_char a - 224 :: nat)" and "y = (of_char b - 128 :: nat)" and "z = (of_char c - 128 :: nat)"
  have v: "of_char a = x + 224" "of_char b = y + 128" "of_char c = z + 128" "x < 16" "y < 64" "z < 64" "x = 0 \<longrightarrow> 32 \<le> y" "x = 13 \<longrightarrow> y < 32"
    using three by (auto simp: x_def y_def z_def cont_char_def)
  have n: "cp_value [a, b, c] = x * 4096 + y * 64 + z" using v by (simp add: cp_value_def low_bits)
  have d: "(x * 4096 + y * 64 + z) div 4096 = x" "(x * 4096 + y * 64 + z) div 64 mod 64 = y" "(x * 4096 + y * 64 + z) mod 64 = z"
    using v by (auto simp: bit_groups)
  have r: "2048 \<le> x * 4096 + y * 64 + z" "x * 4096 + y * 64 + z < 65536" using v by (cases "x = 0"; simp)+
  have s: "\<not> (0xD800 \<le> x * 4096 + y * 64 + z \<and> x * 4096 + y * 64 + z < 0xE000)" using v by (cases "x = 13"; cases "x < 13"; simp)
  have "utf8_chars (x * 4096 + y * 64 + z) = [a, b, c]"
    unfolding utf8_chars_def d using v r by (auto intro!: of_char_eqI)
  moreover have "code_points s = [a, b, c] # code_points t" using three by (simp add: str_ok_starts str_ok_rest)
  moreover have "is_cp [a, b, c]" using calculation(1) n r s by (simp add: is_cp_def)
  ultimately show ?thesis using that [of "[a, b, c]" t] three by simp
next
  case (four a b c e t)
  define x y z w where "x = (of_char a - 240 :: nat)" and "y = (of_char b - 128 :: nat)" and "z = (of_char c - 128 :: nat)" and "w = (of_char e - 128 :: nat)"
  have v: "of_char a = x + 240" "of_char b = y + 128" "of_char c = z + 128" "of_char e = w + 128" "x \<le> 4" "y < 64" "z < 64" "w < 64"
      "x = 0 \<longrightarrow> 16 \<le> y" "x = 4 \<longrightarrow> y < 16"
    using four by (auto simp: x_def y_def z_def w_def cont_char_def)
  let ?n = "x * 262144 + y * 4096 + z * 64 + w"
  have n: "cp_value [a, b, c, e] = ?n" using v by (simp add: cp_value_def low_bits)
  have d: "?n div 262144 = x" "?n div 4096 mod 64 = y" "?n div 64 mod 64 = z" "?n mod 64 = w"
    using v by (auto simp: bit_groups)
  have r: "65536 \<le> ?n" "?n < 0x110000" using v by (cases "x = 0"; cases "x = 4"; simp)+
  have "utf8_chars ?n = [a, b, c, e]"
    unfolding utf8_chars_def d using v r by (auto intro!: of_char_eqI)
  moreover have "code_points s = [a, b, c, e] # code_points t" using four by (simp add: str_ok_starts str_ok_rest)
  moreover have "is_cp [a, b, c, e]" using calculation(1) n r by (simp add: is_cp_def)
  ultimately show ?thesis using that [of "[a, b, c, e]" t] four by simp
qed

lemma hex4_hex4_text: "n < 0x10000 \<Longrightarrow> hex4 (hex4_text n @ r) = Some (n, r)"
proof -
  assume n: "n < 0x10000"
  have q: "n div 4096 mod 16 = n div 4096" using n by (intro mod_less) (simp add: less_mult_imp_div_less)
  moreover have "n div 256 = n div 4096 * 16 + n div 256 mod 16" "n div 16 = n div 256 * 16 + n div 16 mod 16"
    using div_mult_mod_eq [of "n div 256" 16] div_mult_mod_eq [of "n div 16" 16] by (simp_all add: div_mult2_eq [symmetric])
  moreover have "n = n div 16 * 16 + n mod 16" by simp
  ultimately have "((n div 4096 mod 16 * 16 + n div 256 mod 16) * 16 + n div 16 mod 16) * 16 + n mod 16 = n" by metis
  then show ?thesis by (simp only: hex4_text_def append_Cons append_Nil hex4.simps hex_val_hex_char mod_less_divisor zero_less_numeral prod.case option.case)
qed

lemma unescape_unicode: "is_cp p \<Longrightarrow> unescape (tl (unicode_escape (cp_value p)) @ r) = Some (p, r)"
proof -
  assume c: "is_cp p"
  let ?n = "cp_value p"
  show ?thesis
  proof (cases "?n < 0x10000")
    case True
    then show ?thesis using c hex4_hex4_text [of ?n r] by (auto simp: unicode_escape_def unescape_def is_cp_def)
  next
    case False
    let ?m = "?n - 0x10000"
    have m: "?m div 1024 < 1024" "?m mod 1024 < 1024" "?m div 1024 * 1024 + ?m mod 1024 = ?m" "0x10000 + ?m = ?n"
      using c False by (auto simp: is_cp_def less_mult_imp_div_less)
    have h: "hex4 (hex4_text (0xD800 + ?m div 1024) @ x) = Some (0xD800 + ?m div 1024, x)" "hex4 (hex4_text (0xDC00 + ?m mod 1024) @ x) = Some (0xDC00 + ?m mod 1024, x)" for x
      using m(1,2) by (auto intro!: hex4_hex4_text)
    have "0x10000 + (0xD800 + ?m div 1024 - 0xD800) * 1024 + (0xDC00 + ?m mod 1024 - 0xDC00) = ?n" using m(3,4) by simp
    then show ?thesis
      using c False m(1,2) by (simp add: unicode_escape_def unescape_def h is_cp_def del: hex4.simps)
  qed
qed

lemma ascii_escape_cases:
  assumes "is_cp p"
  obtains (plain) c where "p = [c]" "ascii_escape p = [c]" "c \<noteq> CHR 0x22" "c \<noteq> CHR 0x5C" "\<not> of_char c < (32::nat)"
  | (escaped) e where "ascii_escape p = CHR 0x5C # e" "\<And>r. unescape (e @ r) = Some (p, r)"
proof (cases "p \<in> {[CHR 0x22], [CHR 0x5C], [CHR 0x08], [CHR 0x0C], [CHR 0x0A], [CHR 0x0D], [CHR 0x09]}")
  case True
  then show ?thesis by (intro escaped [of "tl (esc_char (hd p))"]) (auto simp: ascii_escape_def esc_char_def unescape_def)
next
  case False
  show ?thesis
  proof (cases "32 \<le> cp_value p \<and> cp_value p \<le> 126")
    case True
    then have p: "p = [char_of (cp_value p)]" using assms by (simp add: is_cp_def)
    have "of_char (char_of (cp_value p)) = cp_value p" using True by simp
    moreover have "char_of (cp_value p) \<noteq> CHR 0x22" "char_of (cp_value p) \<noteq> CHR 0x5C" using False p by auto
    moreover have "ascii_escape p = [char_of (cp_value p)]" unfolding ascii_escape_def Let_def by (subst if_not_P [OF False], subst if_P [OF True], rule p)
    ultimately show ?thesis using plain [OF p] True by simp
  next
    case n: False
    have "unicode_escape (cp_value p) = CHR 0x5C # tl (unicode_escape (cp_value p))" by (simp add: unicode_escape_def)
    then show ?thesis using escaped [of "tl (unicode_escape (cp_value p))"] unescape_unicode [OF assms] False n by (auto simp: ascii_escape_def Let_def)
  qed
qed

lemma code_points_induct [consumes 1, case_names empty point]:
  assumes "str_ok s" "P []" "\<And>p t. is_cp p \<Longrightarrow> str_ok t \<Longrightarrow> code_points (p @ t) = p # code_points t \<Longrightarrow> P t \<Longrightarrow> P (p @ t)"
  shows "P s"
  using assms(1)
proof (induction s rule: length_induct)
  case (1 s)
  show ?case
  proof (cases "s = []")
    case False
    from code_points_first [OF 1(2) False] show ?thesis by (metis 1(1) assms(3) length_append length_greater_0_conv less_add_same_cancel2)
  qed (simp add: assms(2))
qed

lemma pstr_ascii_quote:
  "str_ok s \<Longrightarrow> length s < n \<Longrightarrow> pstr n (concat (map ascii_escape (code_points s)) @ CHR 0x22 # r) = Some (s, r)"
proof (induction s arbitrary: n rule: code_points_induct)
  case empty
  then show ?case by (cases n) auto
next
  case (point p t)
  have "p \<noteq> []" using point(1) by (auto simp: is_cp_def utf8_chars_def split: if_splits)
  then obtain m where n: "n = Suc m" "length t < m" using point.prems by (cases n; cases p) auto
  note ih = point.IH [OF n(2)]
  show ?case
    unfolding point(3) list.map concat.simps append_assoc n(1)
    using point(1) by (cases rule: ascii_escape_cases) (use ih in auto)
qed

lemma length_escape: "is_cp p \<Longrightarrow> length p \<le> length (ascii_escape p)"
proof -
  assume c: "is_cp p"
  have "length (utf8_chars (cp_value p)) \<le> 4" by (simp add: utf8_chars_def)
  then have l: "length p \<le> 4" using c by (simp add: is_cp_def)
  have u: "6 \<le> length (unicode_escape (cp_value p))" by (simp add: unicode_escape_def hex4_text_def)
  have e: "1 \<le> length (esc_char x)" for x by (cases x rule: esc_char_cases) auto
  show ?thesis
  proof (cases "p \<in> {[CHR 0x22], [CHR 0x5C], [CHR 0x08], [CHR 0x0C], [CHR 0x0A], [CHR 0x0D], [CHR 0x09]}")
    case True
    then have "length p = 1" by auto
    then show ?thesis unfolding ascii_escape_def if_P [OF True] using e by simp
  next
    case False
    then show ?thesis unfolding ascii_escape_def if_not_P [OF False] Let_def using l u by simp
  qed
qed

lemma length_escapes: "str_ok s \<Longrightarrow> length s \<le> length (concat (map ascii_escape (code_points s)))"
  by (induction s rule: code_points_induct) (auto dest: length_escape)

lemma pstring_ascii_quote: "str_ok s \<Longrightarrow> pstring (concat (map ascii_escape (code_points s)) @ CHR 0x22 # r) = Some (s, r)"
  unfolding pstring_def using length_escapes [of s] by (intro pstr_ascii_quote) auto

subsection \<open>Documents\<close>

lemma skip_ws_blanks: "list_all is_ws w \<Longrightarrow> skip_ws (w @ r) = skip_ws r"
  by (induction w) auto

lemma follow_blank: "list_all is_ws w \<Longrightarrow> follow r \<Longrightarrow> follow (w @ r)"
  by (cases w) (auto simp: follow_def is_digit_def)

lemma blanks: "list_all is_ws (gap l d)" "list_all is_ws (blank l d)"
  by (cases l; simp add: gap_def blank_def list_all_length nth_Cons split: nat.split)+

text \<open>Lists of printed items with white space around the separators.\<close>

lemma pelems_laid_out:
  assumes "vs \<noteq> []" "length vs \<le> k" "list_all is_ws w" "list_all is_ws w'"
    and "\<And>v r. v \<in> set vs \<Longrightarrow> follow r \<Longrightarrow> p (f v @ r) = Some (v, r)"
    and "\<And>v r. v \<in> set vs \<Longrightarrow> skip_ws (f v @ r) = f v @ r"
  shows "pelems p k (join (CHR '','' # w) (map f vs) @ w' @ CHR '']'' # r) = Some (vs, r)"
  using assms(1,2,5,6)
proof (induction vs arbitrary: k rule: list_nonempty_induct)
  case (single v)
  then show ?case using follow_blank [OF assms(4), of "CHR '']'' # r"] skip_ws_blanks [OF assms(4), of "CHR '']'' # r"] by (cases k) auto
next
  case (cons v vs)
  then obtain m u us where k: "k = Suc m" "length vs \<le> m" "vs = u # us" by (cases k; cases vs) auto
  have "pelems p m (join (CHR '','' # w) (map f vs) @ w' @ CHR '']'' # r) = Some (vs, r)" using cons k by auto
  moreover have "skip_ws (w @ join (CHR '','' # w) (map f vs) @ x) = join (CHR '','' # w) (map f vs) @ x" for x
    using cons.prems(3) [of u] by (cases us) (auto simp: k skip_ws_blanks [OF assms(3)])
  ultimately show ?case using cons.prems by (simp add: k)
qed

lemma pmembers_laid_out:
  assumes "kvs \<noteq> []" "length kvs \<le> k" "list_all is_ws w" "list_all is_ws w'"
    and "\<And>kv r. kv \<in> set kvs \<Longrightarrow> follow r \<Longrightarrow> p (f (snd kv) @ r) = Some (snd kv, r)"
    and "\<And>kv r. kv \<in> set kvs \<Longrightarrow> skip_ws (f (snd kv) @ r) = f (snd kv) @ r"
    and "\<And>kv. kv \<in> set kvs \<Longrightarrow> str_ok (fst kv)"
  shows "pmembers p k (join (CHR '','' # w) (map (\<lambda>kv. ascii_quote (fst kv) @ '': '' @ f (snd kv)) kvs) @ w' @ CHR 0x7D # r) = Some (kvs, r)"
  using assms(1,2,5-7)
proof (induction kvs arbitrary: k rule: list_nonempty_induct)
  case (single kv)
  then show ?case using follow_blank [OF assms(4), of "CHR 0x7D # r"] skip_ws_blanks [OF assms(4), of "CHR 0x7D # r"]
    by (cases k) (auto simp: ascii_quote_def pstring_ascii_quote)
next
  case (cons kv kvs)
  let ?f = "\<lambda>kv. ascii_quote (fst kv) @ '': '' @ f (snd kv)"
  obtain m u us where k: "k = Suc m" "length kvs \<le> m" "kvs = u # us" using cons by (cases k; cases kvs) auto
  have "pmembers p m (join (CHR '','' # w) (map ?f kvs) @ w' @ CHR 0x7D # r) = Some (kvs, r)" using cons k by auto
  moreover have "skip_ws (w @ join (CHR '','' # w) (map ?f kvs) @ x) = join (CHR '','' # w) (map ?f kvs) @ x" for x
    by (cases us) (auto simp: k skip_ws_blanks [OF assms(3)] ascii_quote_def)
  ultimately show ?case using cons.prems by (simp add: k) (simp add: ascii_quote_def pstring_ascii_quote)
qed

lemma lay_out_head: "\<exists>c cs. lay_out l d v = c # cs \<and> \<not> is_ws c \<and> c \<noteq> CHR '']'' \<and> c \<noteq> CHR 0x7D"
proof (cases v)
  case (JInt i)
  then show ?thesis using show_nat_head [of "nat i"] by (auto simp: show_int_def is_digit_def)
qed (auto simp: ascii_quote_def)

lemma skip_ws_lay_out [simp]: "skip_ws (lay_out l d v @ r) = lay_out l d v @ r"
  using lay_out_head [of l d v] by auto

lemma lay_out_nonempty [simp]: "lay_out l d v \<noteq> []"
  using lay_out_head [of l d v] by auto

lemma pval_lay_out:
  "jwf v \<Longrightarrow> jstr_ok v \<Longrightarrow> length (lay_out l d v) \<le> n \<Longrightarrow> follow r \<Longrightarrow> pval n (lay_out l d v @ r) = Some (v, r)"
proof (induction l d v arbitrary: n r rule: lay_out.induct)
  case (1 l d)
  then obtain m where n: "n = Suc m" by (cases n) auto
  show ?case by (simp add: n)
next
  case (2 l d b)
  then obtain m where n: "n = Suc m" by (cases n) (auto split: if_splits)
  show ?case by (simp add: n)
next
  case (3 l d i)
  then have "pval n (dumps (JInt i) @ r) = Some (jsort (JInt i), r)" by (intro pval_dumps) auto
  then show ?case by simp
next
  case (4 l d s)
  then obtain m where n: "n = Suc m" by (cases n) (auto simp: ascii_quote_def)
  show ?case using 4 by (simp add: n ascii_quote_def pstring_ascii_quote)
next
  case (5 l d xs)
  then obtain m where n: "n = Suc m" by (cases n) (auto split: if_splits)
  show ?case
  proof (cases "xs = []")
    case False
    let ?t = "join (CHR '','' # blank l (d + 1)) (map (lay_out l (d + 1)) xs)"
    have e: "pval m (lay_out l (d + 1) v @ r) = Some (v, r)" if "v \<in> set xs" "follow r" for v r
    proof (rule "5.IH" [OF False that(1)])
      show "jwf v" "jstr_ok v" using "5.prems" that by auto
      show "length (lay_out l (d + 1) v) \<le> m"
        using "5.prems"(3) join_length [of "lay_out l (d + 1) v" "map (lay_out l (d + 1)) xs" "CHR '','' # blank l (d + 1)"] that n False by simp
    qed (rule that)
    have "length (map (lay_out l (d + 1)) xs) \<le> length ?t" by (rule length_join_ge) auto
    then have len: "length xs \<le> length ?t" by simp
    obtain u us where xs: "xs = u # us" using False by (cases xs) auto
    obtain c cs where c: "?t = c # cs" "\<not> is_ws c" "c \<noteq> CHR '']''" using lay_out_head [of l "d + 1" u] by (cases us) (auto simp: xs)
    have "pelems (pval m) k (?t @ gap l d @ CHR '']'' # r) = Some (xs, r)" if "length ?t \<le> k" for k
      using False len that by (intro pelems_laid_out e blanks) auto
    then show ?thesis using False c by (simp add: n skip_ws_blanks [OF blanks(1)] del: pelems.simps)
  qed (simp add: n)
next
  case (6 l d kvs)
  then obtain m where n: "n = Suc m" by (cases n) (auto split: if_splits)
  show ?case
  proof (cases "kvs = []")
    case False
    let ?f = "\<lambda>kv. ascii_quote (fst kv) @ '': '' @ lay_out l (d + 1) (snd kv)"
    let ?t = "join (CHR '','' # blank l (d + 1)) (map ?f kvs)"
    have e: "pval m (lay_out l (d + 1) (snd kv) @ r) = Some (snd kv, r)" if "kv \<in> set kvs" "follow r" for kv r
    proof (rule "6.IH" [OF False that(1)])
      show "jwf (snd kv)" "jstr_ok (snd kv)" using "6.prems" that by auto
      have "length (?f kv) \<le> length ?t" using that(1) by (intro join_length) simp
      then show "length (lay_out l (d + 1) (snd kv)) \<le> m" using "6.prems"(3) n False by simp
    qed (rule that)
    have "length (map ?f kvs) \<le> length ?t" by (rule length_join_ge) (auto simp: ascii_quote_def)
    then have len: "length kvs \<le> length ?t" by simp
    obtain u us where kvs: "kvs = u # us" using False by (cases kvs) auto
    obtain cs where c: "?t = CHR 0x22 # cs" by (cases us) (auto simp: kvs ascii_quote_def)
    have "pmembers (pval m) k (?t @ gap l d @ CHR 0x7D # r) = Some (kvs, r)" if "length ?t \<le> k" for k
      using False len that "6.prems"(2) by (intro pmembers_laid_out e blanks) auto
    moreover have "dict_of_pairs kvs = kvs" using "6.prems"(1) by (intro dict_of_pairs_distinct) simp
    ultimately show ?thesis using False c by (simp add: n skip_ws_blanks [OF blanks(1)] del: pmembers.simps)
  qed (simp add: n)
qed

text \<open>Reading a text of \<open>json.dumps\<close> gives the document back, with its keys sorted where they were sorted for printing.\<close>

theorem loads_json_text:
  assumes "jwf v" "jstr_ok v"
  shows "json_loads (json_text l v) = Inr (case l of Plain \<Rightarrow> v | Indented \<Rightarrow> jsort v)"
proof -
  let ?v = "case l of Plain \<Rightarrow> v | Indented \<Rightarrow> jsort v"
  have "jwf ?v" "jstr_ok ?v" using assms by (cases l; simp add: jsort_wf jstr_ok_jsort)+
  then have "pval (Suc (length (lay_out l 0 ?v))) (lay_out l 0 ?v @ []) = Some (?v, [])" by (intro pval_lay_out) auto
  then show ?thesis using skip_ws_lay_out [of l 0 ?v "[]"] by (simp add: json_loads_def json_text_def)
qed

subsection \<open>Files\<close>

definition file_text :: "layout \<Rightarrow> json \<Rightarrow> bytes" where
  "file_text l v = str_encode (json_text l v)"

lemma ascii_append [simp]: "ascii (s @ t) \<longleftrightarrow> ascii s \<and> ascii t" "ascii []" "ascii (c # s) \<longleftrightarrow> of_char c \<le> (127::nat) \<and> ascii s"
  by (auto simp: ascii_def)

lemma ascii_join: "ascii sep \<Longrightarrow> (\<And>x. x \<in> set xs \<Longrightarrow> ascii x) \<Longrightarrow> ascii (join sep xs)"
  by (induction sep xs rule: join.induct) auto

lemma ascii_blanks: "ascii (gap l d)" "ascii (blank l d)"
  by (cases l; simp add: gap_def blank_def; simp add: ascii_def)+

lemma ascii_ascii_escape: "is_cp p \<Longrightarrow> ascii (ascii_escape p)"
proof -
  assume c: "is_cp p"
  have h: "ascii (hex4_text n)" for n by (simp add: hex4_text_def hex_char_ascii)
  have e: "p \<in> {[CHR 0x22], [CHR 0x5C], [CHR 0x08], [CHR 0x0C], [CHR 0x0A], [CHR 0x0D], [CHR 0x09]} \<Longrightarrow> ascii (esc_char (hd p))"
    by (auto intro!: ascii_esc_char)
  have u: "ascii (unicode_escape n)" for n by (simp add: unicode_escape_def h)
  have p: "ascii p" if n: "cp_value p \<le> 126"
  proof -
    have "p = [char_of (cp_value p)]" using c n by (simp add: is_cp_def)
    moreover have "ascii [char_of (cp_value p)]" using n by simp
    ultimately show ?thesis by metis
  qed
  show ?thesis unfolding ascii_escape_def Let_def using e u p by (auto split: if_splits)
qed

lemma ascii_ascii_quote: "str_ok s \<Longrightarrow> ascii (ascii_quote s)"
proof -
  assume "str_ok s"
  then have "ascii (concat (map ascii_escape (code_points s)))"
    by (induction rule: code_points_induct) (auto simp: ascii_ascii_escape simp del: code_points.simps(2))
  then show ?thesis by (simp add: ascii_quote_def)
qed

lemma ascii_lay_out: "jstr_ok v \<Longrightarrow> ascii (lay_out l d v)"
proof (induction l d v rule: lay_out.induct)
  case (3 l d i)
  then show ?case using ascii_show_nat by (auto simp: show_int_def)
next
  case (5 l d xs)
  then show ?case by (auto simp: ascii_blanks intro!: ascii_join)
next
  case (6 l d kvs)
  have "str_ok a" if "(a, b) \<in> set kvs" for a b using 6 that by fastforce
  then show ?case using 6 by (auto simp: ascii_blanks intro!: ascii_join ascii_ascii_quote)
qed (simp_all add: ascii_ascii_quote)

lemma loads_file_text:
  assumes "json_ok v"
  shows "loads_bytes (file_text l v) = Inr (case l of Plain \<Rightarrow> v | Indented \<Rightarrow> jsort v)"
proof -
  have "ascii (json_text l v)" using assms by (auto simp: json_text_def json_ok_def jstr_ok_jsort intro!: ascii_lay_out split: layout.split)
  then have "str_ok (json_text l v)" by (rule str_ok_ascii)
  then show ?thesis using assms loads_json_text [of v l] by (simp add: loads_bytes_def file_text_def utf8_decode_encode json_ok_def)
qed

interpretation json_files: codec "file_text Plain" loads_bytes json_ok
  by unfold_locales (simp add: loads_file_text)

end
