(* ===== verification/Settings.thy ===== *)
theory Settings
  imports JsonText StoreKey RelayApi Transport History
begin

section \<open>Settings and files of the desktop\<close>

text \<open>
  \<^verbatim>\<open>gui/settings.py\<close>, the parts of \<^verbatim>\<open>gui/session.py\<close> that do not need a client, and saving and loading an identity
  (\<^verbatim>\<open>crypto/identity.py\<close>).  A file is absent, cannot be read, or has a content; files are written with the text of \<open>json.dumps\<close>.
  The process environment is an argument.  \<open>GuiSettings\<close> is a dataclass whose constructor checks no types, so a field that was loaded from a
  file can hold any JSON value: the fields are documents.

  The theorems: what is saved is loaded, settings and identity alike, and an identity that was saved with a passphrase opens with no
  other one.
\<close>

datatype file_state = Absent | Unreadable | Content bytes

definition read_file :: "file_state \<Rightarrow> bytes res" where
  "read_file f = (case f of Content b \<Rightarrow> Inr b | _ \<Rightarrow> Inl OSError)"

subsection \<open>Paths\<close>

definition path_join :: "string \<Rightarrow> string \<Rightarrow> string" where
  "path_join a b = (if take 1 b = ''/'' then b else if a = [] \<or> last a = CHR ''/'' then a @ b else a @ ''/'' @ b)"

definition data_dir :: "environ \<Rightarrow> string \<Rightarrow> string" where
  "data_dir env home = (let d = env_get env ''NK_DATA_DIR'' [] in if d \<noteq> [] then d else path_join home ''.noknowledge'')"

definition identity_path :: "string \<Rightarrow> string \<Rightarrow> string" where
  "identity_path dir name = path_join dir (name @ ''.nk'')"

definition store_path :: "string \<Rightarrow> string" where
  "store_path dir = path_join dir ''local.db''"

definition settings_path :: "string \<Rightarrow> string" where
  "settings_path dir = path_join dir ''settings.json''"

subsection \<open>Settings\<close>

definition DEFAULT_RELAYS :: "string list" where "DEFAULT_RELAYS = [''https://noknowledge.remotewire.net'']"
definition DEFAULT_RELAYS_ENV :: string where "DEFAULT_RELAYS_ENV = ''NK_DEFAULT_RELAYS''"
definition DEFAULT_DISCOVERY_INTERVAL :: int where "DEFAULT_DISCOVERY_INTERVAL = 900"

definition default_relays :: "environ \<Rightarrow> string list" where
  "default_relays env = (let rs = env_list env DEFAULT_RELAYS_ENV in if rs \<noteq> [] then rs else DEFAULT_RELAYS)"

record gui_settings =
  gs_relays :: json
  gs_proxy_url :: json
  gs_proxy_enabled :: json
  gs_fail_closed :: json
  gs_theme :: json
  gs_last_name :: json
  gs_poll_seconds :: json
  gs_auto_discover :: json
  gs_discovery_interval :: json

definition default_gui :: "environ \<Rightarrow> gui_settings" where
  "default_gui env = \<lparr>gs_relays = JArr (map JStr (default_relays env)), gs_proxy_url = JStr [], gs_proxy_enabled = JBool False,
     gs_fail_closed = JBool False, gs_theme = JStr ''dark'', gs_last_name = JStr [], gs_poll_seconds = JInt 2, gs_auto_discover = JBool True,
     gs_discovery_interval = JInt DEFAULT_DISCOVERY_INTERVAL\<rparr>"

text \<open>\<open>asdict\<close>.\<close>

definition settings_dict :: "gui_settings \<Rightarrow> dict" where
  "settings_dict s = [(''relays'', gs_relays s), (''proxy_url'', gs_proxy_url s), (''proxy_enabled'', gs_proxy_enabled s),
     (''fail_closed'', gs_fail_closed s), (''theme'', gs_theme s), (''last_name'', gs_last_name s), (''poll_seconds'', gs_poll_seconds s),
     (''auto_discover'', gs_auto_discover s), (''discovery_interval'', gs_discovery_interval s)]"

definition save_settings :: "gui_settings \<Rightarrow> file_state" where
  "save_settings s = Content (file_text Indented (JObj (settings_dict s)))"

text \<open>\<open>cls(**...)\<close> with the known keys of a document; the others keep their defaults.\<close>

definition settings_from :: "environ \<Rightarrow> dict \<Rightarrow> gui_settings" where
  "settings_from env d =
     (let s = default_gui env in
      \<lparr>gs_relays = get_or d ''relays'' (gs_relays s), gs_proxy_url = get_or d ''proxy_url'' (gs_proxy_url s),
       gs_proxy_enabled = get_or d ''proxy_enabled'' (gs_proxy_enabled s), gs_fail_closed = get_or d ''fail_closed'' (gs_fail_closed s),
       gs_theme = get_or d ''theme'' (gs_theme s), gs_last_name = get_or d ''last_name'' (gs_last_name s),
       gs_poll_seconds = get_or d ''poll_seconds'' (gs_poll_seconds s), gs_auto_discover = get_or d ''auto_discover'' (gs_auto_discover s),
       gs_discovery_interval = get_or d ''discovery_interval'' (gs_discovery_interval s)\<rparr>)"

text \<open>Only \<open>OSError\<close> and \<open>JSONDecodeError\<close> fall back to the defaults; a file that is not UTF-8, or that holds no object, raises.\<close>

definition load_settings :: "environ \<Rightarrow> file_state \<Rightarrow> gui_settings res" where
  "load_settings env f =
     (case f of Absent \<Rightarrow> Inr (default_gui env)
      | _ \<Rightarrow> (case bindE (read_file f) loads_bytes of
          Inl e \<Rightarrow> if e = OSError \<or> e = JSONDecodeError then Inr (default_gui env) else Inl e
        | Inr (JObj d) \<Rightarrow> Inr (settings_from env d)
        | Inr _ \<Rightarrow> Inl AttributeError))"

subsection \<open>The settings dialog\<close>

text \<open>\<open>str.splitlines\<close>, on code points.\<close>

definition line_break :: "string \<Rightarrow> bool" where
  "line_break p \<longleftrightarrow> cp_value p \<in> {0x0A, 0x0B, 0x0C, 0x0D, 0x1C, 0x1D, 0x1E, 0x85, 0x2028, 0x2029}"

fun lines_of :: "string \<Rightarrow> string list \<Rightarrow> string list" where
  "lines_of cur [] = (if cur = [] then [] else [cur])"
| "lines_of cur (p # ps) =
     (if line_break p then cur # lines_of [] (if p = [CHR 0x0D] \<and> take 1 ps = [[CHR 0x0A]] then tl ps else ps)
      else lines_of (cur @ p) ps)"

definition splitlines :: "string \<Rightarrow> string list" where
  "splitlines s = lines_of [] (code_points s)"

text \<open>What the widgets of the dialog hold; the spin box only gives one to sixty.\<close>

record dialog =
  dlg_relays :: string
  dlg_proxy_enabled :: bool
  dlg_proxy_url :: string
  dlg_fail_closed :: bool
  dlg_auto_discover :: bool
  dlg_poll :: int

definition apply_to :: "dialog \<Rightarrow> gui_settings \<Rightarrow> gui_settings" where
  "apply_to w s =
     (let rs = filter (\<lambda>r. r \<noteq> []) (map strip (splitlines (dlg_relays w))) in
      s\<lparr>gs_relays := JArr (map JStr (if rs \<noteq> [] then rs else [''http://127.0.0.1:8000''])), gs_proxy_enabled := JBool (dlg_proxy_enabled w),
        gs_proxy_url := JStr (strip (dlg_proxy_url w)), gs_fail_closed := JBool (dlg_fail_closed w), gs_auto_discover := JBool (dlg_auto_discover w),
        gs_poll_seconds := JInt (dlg_poll w)\<rparr>)"

subsection \<open>The transport\<close>

text \<open>A proxy that is not a string would only fail when it is used; here it fails at once.\<close>

definition build_transport :: "gui_settings \<Rightarrow> transport res" where
  "build_transport s =
     (if truthy (gs_proxy_enabled s) \<and> truthy (gs_proxy_url s)
      then (case gs_proxy_url s of JStr p \<Rightarrow> Inr (make_transport 3 (Some p) True) | _ \<Rightarrow> Inl TypeError)
      else if truthy (gs_fail_closed s) then Inr (make_transport 3 None True)
      else Inr (make_transport 3 None False))"

subsection \<open>The identity file\<close>

definition save_identity :: "crypto \<Rightarrow> vault_prims \<Rightarrow> bytes \<Rightarrow> bytes \<Rightarrow> identity \<Rightarrow> string option \<Rightarrow> file_state" where
  "save_identity C V salt nonce i passphrase = Content (file_text Indented (JObj (to_vault C V salt nonce i passphrase)))"

definition load_identity :: "crypto \<Rightarrow> vault_prims \<Rightarrow> file_state \<Rightarrow> string option \<Rightarrow> identity res" where
  "load_identity C V f passphrase = bindE (read_file f) (\<lambda>b. from_vault C V b passphrase)"

definition identity_is_encrypted :: "file_state \<Rightarrow> bool res" where
  "identity_is_encrypted f =
     (case bindE (read_file f) loads_bytes of
        Inl e \<Rightarrow> if e = OSError \<or> is_value_error e then Inr True else Inl e
      | Inr v \<Rightarrow> bindE (py_get v ''encrypted'') (\<lambda>x. Inr (truthy x)))"

subsection \<open>Saving and loading\<close>

definition jbool :: "json \<Rightarrow> bool" where "jbool v \<longleftrightarrow> (\<exists>b. v = JBool b)"
definition jint :: "json \<Rightarrow> bool" where "jint v \<longleftrightarrow> (\<exists>n. v = JInt n)"
definition jtext :: "json \<Rightarrow> bool" where "jtext v \<longleftrightarrow> (\<exists>s. v = JStr s \<and> str_ok s)"
definition jtexts :: "json \<Rightarrow> bool" where "jtexts v \<longleftrightarrow> (\<exists>xs. v = JArr (map JStr xs) \<and> list_all str_ok xs)"

text \<open>Settings whose fields have the types that the dataclass declares.\<close>

definition settings_typed :: "gui_settings \<Rightarrow> bool" where
  "settings_typed s \<longleftrightarrow> jtexts (gs_relays s) \<and> jtext (gs_proxy_url s) \<and> jbool (gs_proxy_enabled s) \<and> jbool (gs_fail_closed s) \<and> jtext (gs_theme s)
     \<and> jtext (gs_last_name s) \<and> jint (gs_poll_seconds s) \<and> jbool (gs_auto_discover s) \<and> jint (gs_discovery_interval s)"

lemma typed_ok: "jbool v \<Longrightarrow> json_ok v \<and> jsort v = v" "jint v \<Longrightarrow> json_ok v \<and> jsort v = v" "jtext v \<Longrightarrow> json_ok v \<and> jsort v = v"
  "jtexts v \<Longrightarrow> json_ok v \<and> jsort v = v"
  by (auto simp: jbool_def jint_def jtext_def jtexts_def json_ok_def list_all_iff)

lemma map_of_jsort_dict: "distinct (map fst d) \<Longrightarrow> jsort (JObj d) = JObj d' \<Longrightarrow> map_of d' k = map_option jsort (map_of d k)"
  using jsort_object [of d] by (metis json.inject(5))

lemma settings_reload: "settings_typed s \<Longrightarrow> load_settings env (save_settings s) = Inr s"
proof -
  assume t: "settings_typed s"
  note ok = typed_ok [THEN conjunct1] and id = typed_ok [THEN conjunct2]
  have "json_ok (JObj (settings_dict s))" using t ok by (auto simp: settings_typed_def settings_dict_def json_ok_obj str_ok_ascii ascii_def)
  then have l: "loads_bytes (file_text Indented (JObj (settings_dict s))) = Inr (jsort (JObj (settings_dict s)))" by (simp add: loads_file_text)
  obtain d where d: "jsort (JObj (settings_dict s)) = JObj d" by (simp add: jsort_obj)
  have "distinct (map fst (settings_dict s))" by (simp add: settings_dict_def)
  note m = map_of_jsort_dict [OF this d]
  have "get_or d k v = (case map_of (settings_dict s) k of None \<Rightarrow> v | Some x \<Rightarrow> jsort x)" for k v
    by (simp add: get_or_def m split: option.split)
  then have s: "settings_from env d = s" using t id by (simp add: settings_from_def settings_dict_def Let_def settings_typed_def)
  show ?thesis using s by (simp add: load_settings_def save_settings_def read_file_def l [unfolded d])
qed

lemma strip_Nil [simp]: "strip [] = []"
  by (simp add: strip_def lstrip_def)

lemma identity_reload:
  assumes "gcm_correct V" "identity_wf i" "label i = JNull \<or> jtext (label i)" and f: "f = save_identity C V salt nonce i p"
  shows "load_identity C V f p = Inr i" "has_passphrase p \<Longrightarrow> load_identity C V f None = Inl IdentityError"
    "\<not> has_passphrase p \<Longrightarrow> load_identity C V f None = Inr i"
    "p = None \<Longrightarrow> q \<noteq> [] \<Longrightarrow> load_identity C V f (Some q) = Inl IdentityError" "identity_is_encrypted f = Inr (has_passphrase p)"
proof -
  let ?d = "to_vault C V salt nonce i p"
  have lab: "simple_label (label i)" "json_ok (label i)" using assms(3) typed_ok(3) [of "label i"] by (auto simp: simple_label_def jtext_def)
  have "json_ok (JObj ?d)" using lab(2)
    by (auto simp: to_vault_def Let_def json_ok_obj str_ok_ascii ascii_def simp del: b64e.simps)
  then have l: "loads_bytes (file_text Indented (JObj ?d)) = Inr (jsort (JObj ?d))" by (simp add: loads_file_text)
  have g: "load_identity C V f q = from_vault C V (file_text Indented (JObj ?d)) q" for q
    by (simp add: f save_identity_def load_identity_def read_file_def)
  note o = to_vault_opens [OF assms(1,2) lab(1) l]
  show "load_identity C V f p = Inr i" using o by (simp add: g)
  show "has_passphrase p \<Longrightarrow> load_identity C V f None = Inl IdentityError" using o by (simp add: g has_passphrase_def)
  show "p = None \<Longrightarrow> q \<noteq> [] \<Longrightarrow> load_identity C V f (Some q) = Inl IdentityError" using o by (simp add: g)
  have e: "\<not> has_passphrase p \<Longrightarrow> ?d = to_vault C V salt nonce i None" by (auto simp: has_passphrase_def to_vault_def)
  show "\<not> has_passphrase p \<Longrightarrow> load_identity C V f None = Inr i"
    using to_vault_opens [OF assms(1,2) lab(1), of "file_text Indented (JObj ?d)" C salt nonce None] l e by (simp add: g)
  obtain d where d: "jsort (JObj ?d) = JObj d" by (simp add: jsort_obj)
  have "map_of d ''encrypted'' = Some (JBool (has_passphrase p))"
    by (subst vault_lookup [OF lab(1) d]) (auto simp: to_vault_def Let_def has_passphrase_def split: option.split)
  then show "identity_is_encrypted f = Inr (has_passphrase p)"
    by (simp add: identity_is_encrypted_def f save_identity_def read_file_def l [unfolded d])
qed

text \<open>What the desktop saves, it loads.  An identity whose label is a text comes back from its file, with the passphrase it was saved with; without
  one, an encrypted file is refused and a plain one opens; a plain file refuses a passphrase; and the unlock screen is told rightly
  whether the file is encrypted.  Settings with the declared types come back as they were.\<close>

theorem files_roundtrip:
  assumes "gcm_correct V" "identity_wf i" "label i = JNull \<or> jtext (label i)" "settings_typed s"
  shows "load_identity C V (save_identity C V salt nonce i p) p = Inr i
    \<and> load_identity C V (save_identity C V salt nonce i p) None = (if has_passphrase p then Inl IdentityError else Inr i)
    \<and> (p = None \<longrightarrow> q \<noteq> [] \<longrightarrow> load_identity C V (save_identity C V salt nonce i p) (Some q) = Inl IdentityError)
    \<and> identity_is_encrypted (save_identity C V salt nonce i p) = Inr (has_passphrase p)
    \<and> load_settings env (save_settings s) = Inr s"
  using identity_reload [OF assms(1-3) refl] settings_reload [OF assms(4)] by simp

lemma jtexts_map: "list_all str_ok xs \<Longrightarrow> jtexts (JArr (map JStr xs))"
  by (auto simp: jtexts_def)

lemma default_typed: "settings_typed (default_gui [])"
proof -
  have "jtexts (gs_relays (default_gui []))"
    unfolding default_gui_def by (simp add: default_relays_def env_list_def env_get_def DEFAULT_RELAYS_def del: list.map) (rule jtexts_map, simp add: str_ok_ascii ascii_def)
  then show ?thesis
    by (auto simp: settings_typed_def default_gui_def jtext_def jbool_def jint_def str_ok_ascii ascii_def)
qed

theorem files_roundtrip_witness:
  "load_identity toy toy_vault (save_identity toy toy_vault [3] [4] sample_identity (Some ''pw'')) (Some ''pw'') = Inr sample_identity
   \<and> load_identity toy toy_vault (save_identity toy toy_vault [3] [4] sample_identity (Some ''pw'')) None = Inl IdentityError
   \<and> load_settings [] (save_settings (default_gui [])) = Inr (default_gui [])"
  using files_roundtrip [OF toy_gcm sample_identity_wf _ default_typed, of toy "[3]" "[4]" "Some ''pw''" "[]" "[]"]
  by (simp add: sample_identity_def jtext_def str_ok_ascii ascii_def has_passphrase_def)

text \<open>Files that are not as they were written: loading settings that are not UTF-8 or no object raises, and so does asking whether an identity file that
  holds no object is encrypted, although anything unreadable is to count as encrypted.\<close>

lemma damaged_files:
  "load_settings env (Content [0xFF]) = Inl UnicodeError"
  "loads_bytes b = Inr (JArr vs) \<Longrightarrow> load_settings env (Content b) = Inl AttributeError"
  "loads_bytes b = Inr (JArr vs) \<Longrightarrow> identity_is_encrypted (Content b) = Inl AttributeError"
  by (simp_all add: load_settings_def identity_is_encrypted_def read_file_def loads_bytes_def utf8_decode_def is_cont_def)

end
