(* ===== verification/Worker.thy ===== *)
theory Worker
  imports ClientRun Settings
begin

section \<open>The worker thread of the desktop\<close>

text \<open>
  \<^verbatim>\<open>gui/worker.py\<close>, with the commands that the desktop (\<^verbatim>\<open>gui/app.py\<close>) hands to it.  The worker owns the client: it runs the queued
  commands, polls the mailbox, sends what is queued and looks for relays.  The interface only puts commands into the queue and sets
  flags, and is told of results by signals, which are a log of events here.

  The thread is a machine that makes one \<open>turn\<close> at a time: one command, one poll, one wait.  Between any two turns the interface may
  submit a command, stop the worker, or call the client itself.  The clock of the discovery is in milliseconds and comes with the
  turn.  Interleavings inside a call of the client are not modelled: its store takes a lock, its own attributes are not shared
  otherwise.

  The theorems: every command that is submitted runs once, in order, whatever exceptions the client raises, and within a bounded number
  of turns; nothing that happens breaks the invariant of the client's store; and when the settings ask for it, no request leaves
  without the proxy.
\<close>

subsection \<open>Commands\<close>

text \<open>What the worker acts on: the client and the files of the machine.\<close>

record 'w desk =
  dk_client :: "'w client"
  dk_files :: "string \<Rightarrow> file_state"

text \<open>\<open>mimetypes.guess_type\<close>, and which paths can be written, are given.\<close>

record 'w platform =
  su_env :: "'w env"
  su_vault :: vault_prims
  su_mime :: "string \<Rightarrow> string option"
  su_writable :: "string \<Rightarrow> bool"

datatype command =
    DoProvision | DoSendText string string | DoSendFile string string | DoMarkRead string string
  | DoRequestHistory "int option" | DoApproveHistory string "int option"
  | DoExport string string "int option" | DoImport string string | DoDownload message

datatype outcome =
    Nothing | GotCard contact_card | GotId string | GotDevices "string list" | GotApproved "int \<times> string \<times> int \<times> int"
  | GotExport string int json | GotCounts counts | GotData bytes

definition on_client :: "('w, 'a) cmeth \<Rightarrow> ('w desk, 'a) meth" where
  "on_client m d = (let (r, c) = m (dk_client d) in (r, d\<lparr>dk_client := c\<rparr>))"

definition base_name :: "string \<Rightarrow> string" where
  "base_name path = rev (takeWhile (\<lambda>c. c \<noteq> CHR ''/'') (rev path))"

text \<open>The part of \<open>send_file\<close> before the file is opened.\<close>

definition ready_to_send :: "'w env \<Rightarrow> string \<Rightarrow> ('w, unit) cmeth" where
  "ready_to_send E cid =
     thenS (ensure_provisioned E)
     (bindS (require_contact E cid) (\<lambda>ct.
      bindS (liftS (load_sessions ct)) (\<lambda>st.
      bindS (ensure_outbound E ct st) (\<lambda>_. returnS ()))))"

definition send_file_at :: "'w platform \<Rightarrow> file_state \<Rightarrow> string \<Rightarrow> string \<Rightarrow> ('w, string) cmeth" where
  "send_file_at W f cid path =
     (case read_file f of
        Inl e \<Rightarrow> thenS (ready_to_send (su_env W) cid) (raiseS e)
      | Inr data \<Rightarrow> send_file (su_env W) cid data (base_name path)
          (case su_mime W path of Some ty \<Rightarrow> ty | None \<Rightarrow> ''application/octet-stream'') [])"

definition write_file :: "'w platform \<Rightarrow> string \<Rightarrow> bytes \<Rightarrow> ('w desk, unit) meth" where
  "write_file W path data d =
     (if su_writable W path then (Inr (), d\<lparr>dk_files := (dk_files d)(path := Content data)\<rparr>) else (Inl OSError, d))"

definition history_export :: "'w platform \<Rightarrow> string \<Rightarrow> int option \<Rightarrow> ('w, bytes) cmeth" where
  "history_export W passphrase since =
     (let E = su_env W in
      bindS (now_ms E) (\<lambda>t.
      bindS (urandom E 16) (\<lambda>salt.
      bindS (urandom E 12) (\<lambda>nonce.
      bindS (getS (\<lambda>c. export_history (e_crypto E) (su_vault W) (e_zlib E) t salt nonce (account E c) (c_device_id c) passphrase
        \<lparr>ba_since = since, ba_until = None, ba_budget = DEFAULT_BUDGET_BYTES, ba_attachments = True\<rparr> (c_store c))) liftS))))"

definition export_history_to :: "'w platform \<Rightarrow> string \<Rightarrow> string \<Rightarrow> int option \<Rightarrow> ('w desk, outcome) meth" where
  "export_history_to W path passphrase since =
     bindS (on_client (history_export W passphrase since)) (\<lambda>data.
     thenS (write_file W path data)
     (liftS (bindE (read_export_header data) (\<lambda>header.
      bindE (getitem header ''counts'') (\<lambda>counts.
      Inr (GotExport path (int (length data)) counts))))))"

text \<open>A message of the bundle takes a random identifier when it brings none.\<close>

definition history_import :: "'w platform \<Rightarrow> bytes \<Rightarrow> string \<Rightarrow> ('w, counts) cmeth" where
  "history_import W data passphrase =
     (let E = su_env W in
      bindS (liftS (open_history (e_crypto E) (su_vault W) (e_zlib E) data passphrase)) (\<lambda>bundle.
      bindS (now_ms E) (\<lambda>t.
      bindS (urandoms E 16 (case map_of bundle ''messages'' of Some (JArr xs) \<Rightarrow> length xs | _ \<Rightarrow> 0)) (\<lambda>rnd.
      bindS (getS (account E)) (\<lambda>iid.
      on_store (merge_bundle (e_crypto E) (seconds t) rnd iid bundle))))))"

definition import_history_from :: "'w platform \<Rightarrow> string \<Rightarrow> string \<Rightarrow> ('w desk, outcome) meth" where
  "import_history_from W path passphrase =
     bindS (getS (\<lambda>d. read_file (dk_files d path))) (\<lambda>r.
     bindS (liftS r) (\<lambda>data.
     bindS (on_client (history_import W data passphrase)) (\<lambda>c. returnS (GotCounts c))))"

definition mapR :: "('a \<Rightarrow> 'b) \<Rightarrow> ('s, 'a) meth \<Rightarrow> ('s, 'b) meth" where
  "mapR f m = bindS m (\<lambda>x. returnS (f x))"

fun run_command :: "'w platform \<Rightarrow> command \<Rightarrow> ('w desk, outcome) meth" where
  "run_command W DoProvision = on_client (mapR GotCard (provision (su_env W)))"
| "run_command W (DoSendText cid txt) = on_client (mapR GotId (send_text (su_env W) cid txt))"
| "run_command W (DoSendFile cid path) = bindS (getS (\<lambda>d. dk_files d path)) (\<lambda>f. on_client (mapR GotId (send_file_at W f cid path)))"
| "run_command W (DoMarkRead cid mid) = on_client (mapR (\<lambda>_. Nothing) (mark_read (su_env W) cid mid))"
| "run_command W (DoRequestHistory since) = on_client (mapR GotDevices (client_request_history (su_env W) since))"
| "run_command W (DoApproveHistory dev since) = on_client (mapR GotApproved (approve_history (su_env W) dev since))"
| "run_command W (DoExport path passphrase since) = export_history_to W path passphrase since"
| "run_command W (DoImport path passphrase) = import_history_from W path passphrase"
| "run_command W (DoDownload m) = on_client (mapR GotData (download_attachment (su_env W) m))"

subsection \<open>The worker\<close>

text \<open>A callback only emits a signal, so it never raises.\<close>

datatype notice = HistoryDone string | AttachmentReady string

record task =
  tk_name :: string
  tk_command :: command
  tk_notice :: "notice option"

datatype event =
    Received "message list" | StatusChanged string | Failed pyerr | DiscoveryFailed pyerr | TaskFinished string outcome
  | RelaysChanged "string list" | Notified notice outcome

text \<open>Where the thread is: before its first statement, at the test of its loop, in the first or second drain, about to poll, waiting,
  between waiting and clearing the flag, and done.\<close>

datatype place = Starting | LoopTop | FirstDrain | Polling | SecondDrain | Waiting | Clearing | Done

record 'w worker =
  wk_desk :: "'w desk"
  wk_poll :: int
  wk_auto :: bool
  wk_interval :: int
  wk_stop :: bool
  wk_wake :: bool
  wk_next :: int
  wk_tasks :: "task list"
  wk_place :: place
  wk_events :: "event list"

definition make_worker :: "'w desk \<Rightarrow> int \<Rightarrow> bool \<Rightarrow> int \<Rightarrow> 'w worker" where
  "make_worker d seconds_between auto interval =
     \<lparr>wk_desk = d, wk_poll = max 1 seconds_between, wk_auto = auto, wk_interval = max 60 interval, wk_stop = False, wk_wake = False, wk_next = 0,
      wk_tasks = [], wk_place = Starting, wk_events = []\<rparr>"

definition submit :: "task \<Rightarrow> 'w worker \<Rightarrow> 'w worker" where
  "submit t w = w\<lparr>wk_tasks := wk_tasks w @ [t], wk_wake := True\<rparr>"

definition stop :: "'w worker \<Rightarrow> 'w worker" where
  "stop w = w\<lparr>wk_stop := True, wk_wake := True\<rparr>"

definition emit :: "event \<Rightarrow> ('w worker, unit) meth" where
  "emit e = modifyS (\<lambda>w. w\<lparr>wk_events := wk_events w @ [e]\<rparr>)"

definition on_desk :: "('w desk, 'a) meth \<Rightarrow> ('w worker, 'a) meth" where
  "on_desk m w = (let (r, d) = m (wk_desk w) in (r, w\<lparr>wk_desk := d\<rparr>))"

definition attempt :: "('s, 'a) meth \<Rightarrow> ('s, pyerr + 'a) meth" where
  "attempt m s = (let (r, t) = m s in (Inr r, t))"

text \<open>The two readings of the clock: for the test, and for the next time.\<close>

definition discover :: "'w platform \<Rightarrow> int \<Rightarrow> ('w worker, unit) meth" where
  "discover W now =
     thenS (modifyS (\<lambda>w. w\<lparr>wk_next := now + 1000 * wk_interval w\<rparr>))
     (bindS (getS (\<lambda>w. c_relays (dk_client (wk_desk w)))) (\<lambda>before.
      bindS (attempt (on_desk (on_client (refresh_relays (su_env W) MAX_RELAYS True MAX_CANDIDATES)))) (\<lambda>r.
      case r of Inl e \<Rightarrow> emit (DiscoveryFailed e)
      | Inr after \<Rightarrow> if after \<noteq> before then emit (RelaysChanged after) else returnS ())))"

definition poll_once :: "'w platform \<Rightarrow> int \<times> int \<Rightarrow> ('w worker, unit) meth" where
  "poll_once W t =
     bindS (on_desk (on_client (sync (su_env W) 1))) (\<lambda>new.
     thenS (if new \<noteq> [] then emit (Received new) else returnS ())
     (thenS (on_desk (on_client (flush_outbox (su_env W))))
     (bindS (getS (\<lambda>w. wk_auto w \<and> wk_next w \<le> fst t)) (\<lambda>due.
     thenS (if due then discover W (snd t) else returnS ())
     (emit (StatusChanged ''online''))))))"

definition poll_safely :: "'w platform \<Rightarrow> int \<times> int \<Rightarrow> ('w worker, unit) meth" where
  "poll_safely W t =
     bindS (attempt (poll_once W t)) (\<lambda>r.
     case r of Inl e \<Rightarrow> thenS (emit (Failed e)) (emit (StatusChanged ''offline'')) | Inr _ \<Rightarrow> returnS ())"

definition run_task :: "'w platform \<Rightarrow> task \<Rightarrow> ('w worker, unit) meth" where
  "run_task W t =
     bindS (attempt (on_desk (run_command W (tk_command t)))) (\<lambda>r.
     let result = (case r of Inl e \<Rightarrow> Nothing | Inr x \<Rightarrow> x) in
     thenS (case r of Inl e \<Rightarrow> emit (Failed e) | Inr _ \<Rightarrow> returnS ())
     (thenS (case tk_notice t of Some n \<Rightarrow> emit (Notified n result) | None \<Rightarrow> returnS ())
     (emit (TaskFinished (tk_name t) result))))"

text \<open>One round of the loop of \<open>_drain\<close>: take a task and run it, or go on when there is none.\<close>

definition drain_step :: "'w platform \<Rightarrow> place \<Rightarrow> 'w worker \<Rightarrow> 'w worker" where
  "drain_step W onward w =
     (case wk_tasks w of [] \<Rightarrow> w\<lparr>wk_place := onward\<rparr> | t # ts \<Rightarrow> snd (run_task W t (w\<lparr>wk_tasks := ts\<rparr>)))"

definition turn :: "'w platform \<Rightarrow> int \<times> int \<Rightarrow> 'w worker \<Rightarrow> 'w worker" where
  "turn W t w =
     (case wk_place w of
        Starting \<Rightarrow> (snd (emit (StatusChanged ''connecting'') w))\<lparr>wk_place := LoopTop\<rparr>
      | LoopTop \<Rightarrow> w\<lparr>wk_place := (if wk_stop w then Done else FirstDrain)\<rparr>
      | FirstDrain \<Rightarrow> drain_step W (if wk_stop w then Done else Polling) w
      | Polling \<Rightarrow> (snd (poll_safely W t w))\<lparr>wk_place := SecondDrain\<rparr>
      | SecondDrain \<Rightarrow> drain_step W Waiting w
      | Waiting \<Rightarrow> w\<lparr>wk_place := Clearing\<rparr>
      | Clearing \<Rightarrow> w\<lparr>wk_wake := False, wk_place := LoopTop\<rparr>
      | Done \<Rightarrow> w)"

text \<open>What can happen next: a turn of the thread, or something that the interface does.\<close>

datatype action = Turn "int \<times> int" | Submit task | Stop | Interface client_op

definition call_client :: "'w platform \<Rightarrow> client_op \<Rightarrow> 'w worker \<Rightarrow> 'w worker" where
  "call_client W opn w = w\<lparr>wk_desk := (wk_desk w)\<lparr>dk_client := client_step (su_env W) (dk_client (wk_desk w)) opn\<rparr>\<rparr>"

fun act :: "'w platform \<Rightarrow> 'w worker \<Rightarrow> action \<Rightarrow> 'w worker" where
  "act W w (Turn t) = turn W t w"
| "act W w (Submit t) = submit t w"
| "act W w Stop = stop w"
| "act W w (Interface opn) = call_client W opn w"

subsection \<open>Commands run once, in order\<close>

definition finished_name :: "event \<Rightarrow> string list" where
  "finished_name e = (case e of TaskFinished name _ \<Rightarrow> [name] | _ \<Rightarrow> [])"

definition finished :: "'w worker \<Rightarrow> string list" where
  "finished w = concat (map finished_name (wk_events w))"

definition submitted :: "action list \<Rightarrow> string list" where
  "submitted acts = concat (map (\<lambda>a. case a of Submit t \<Rightarrow> [tk_name t] | _ \<Rightarrow> []) acts)"

text \<open>What polling leaves alone.\<close>

definition quiet :: "'w worker \<Rightarrow> 'w worker \<Rightarrow> bool" where
  "quiet w w' \<longleftrightarrow> wk_tasks w' = wk_tasks w \<and> wk_stop w' = wk_stop w \<and> wk_wake w' = wk_wake w \<and> wk_place w' = wk_place w \<and> finished w' = finished w"

interpretation quiet: method_relation quiet
  by unfold_locales (auto simp: quiet_def)

lemma keeps_attempt: "keeps R m \<Longrightarrow> keeps R (attempt m)"
  by (auto simp: keeps_def attempt_def split_beta Let_def)

lemma quiet_steps: "finished_name e = [] \<Longrightarrow> keeps quiet (emit e)" "keeps quiet (on_desk m)"
  "keeps quiet (modifyS (\<lambda>w. w\<lparr>wk_next := f w\<rparr>))"
  by (simp_all add: keeps_def quiet_def emit_def modifyS_def on_desk_def finished_def split_beta Let_def)

lemma quiet_poll: "keeps quiet (poll_safely W t)"
proof -
  have d: "keeps quiet (discover W now)" for now
    unfolding discover_def
    by (intro quiet.keeps_intros quiet_steps keeps_attempt) (auto intro!: quiet.keeps_intros quiet_steps simp: finished_name_def split: sum.split)
  have "keeps quiet (poll_once W t)"
    unfolding poll_once_def by (intro quiet.keeps_intros quiet_steps d) (simp_all add: finished_name_def)
  then show ?thesis
    unfolding poll_safely_def
    by (intro quiet.keeps_intros keeps_attempt) (auto intro!: quiet.keeps_intros quiet_steps simp: finished_name_def split: sum.split)
qed

lemma run_task_events:
  obtains d es r where "snd (run_task W t w) = w\<lparr>wk_desk := d, wk_events := wk_events w @ es @ [TaskFinished (tk_name t) r]\<rparr>"
    "concat (map finished_name es) = []"
proof -
  obtain r d where m: "run_command W (tk_command t) (wk_desk w) = (r, d)" by force
  let ?res = "case r of Inl e \<Rightarrow> Nothing | Inr x \<Rightarrow> x"
  let ?es = "(case r of Inl e \<Rightarrow> [Failed e] | Inr _ \<Rightarrow> []) @ (case tk_notice t of Some n \<Rightarrow> [Notified n ?res] | None \<Rightarrow> [])"
  have "snd (run_task W t w) = w\<lparr>wk_desk := d, wk_events := wk_events w @ ?es @ [TaskFinished (tk_name t) ?res]\<rparr>"
    by (cases r; cases "tk_notice t") (simp_all add: run_task_def attempt_def on_desk_def m emit_def meth_defs Let_def)
  moreover have "concat (map finished_name ?es) = []"
    by (cases r; cases "tk_notice t") (simp_all add: finished_name_def)
  ultimately show ?thesis by (rule that)
qed

lemma drain_step_cons:
  assumes "wk_tasks w = t # ts"
  shows "wk_tasks (drain_step W onward w) = ts" "wk_place (drain_step W onward w) = wk_place w" "wk_stop (drain_step W onward w) = wk_stop w"
    "wk_wake (drain_step W onward w) = wk_wake w" "finished (drain_step W onward w) = finished w @ [tk_name t]"
proof -
  obtain d es r where "snd (run_task W t (w\<lparr>wk_tasks := ts\<rparr>)) = w\<lparr>wk_tasks := ts, wk_desk := d, wk_events := wk_events w @ es @ [TaskFinished (tk_name t) r]\<rparr>"
    "concat (map finished_name es) = []"
    by (rule run_task_events [of W t "w\<lparr>wk_tasks := ts\<rparr>"]) (rule that, simp_all)
  then show "wk_tasks (drain_step W onward w) = ts" "wk_place (drain_step W onward w) = wk_place w" "wk_stop (drain_step W onward w) = wk_stop w"
    "wk_wake (drain_step W onward w) = wk_wake w" "finished (drain_step W onward w) = finished w @ [tk_name t]"
    by (simp_all add: drain_step_def assms finished_def finished_name_def)
qed

lemma drain_step_nil: "wk_tasks w = [] \<Longrightarrow> drain_step W onward w = w\<lparr>wk_place := onward\<rparr>"
  by (simp add: drain_step_def)

lemma polled: "wk_tasks (snd (poll_safely W t w)) = wk_tasks w" "wk_stop (snd (poll_safely W t w)) = wk_stop w"
  "wk_wake (snd (poll_safely W t w)) = wk_wake w" "finished (snd (poll_safely W t w)) = finished w"
  using quiet_poll [of W t] by (simp_all add: keeps_def quiet_def)

lemma finished_update [simp]: "finished (w\<lparr>wk_place := p\<rparr>) = finished w" "finished (w\<lparr>wk_wake := b\<rparr>) = finished w" "finished (w\<lparr>wk_stop := b\<rparr>) = finished w"
  "finished (w\<lparr>wk_tasks := ts\<rparr>) = finished w" "finished (w\<lparr>wk_desk := d\<rparr>) = finished w"
  by (simp_all add: finished_def)

lemma drain_step_account: "finished (drain_step W onward w) @ map tk_name (wk_tasks (drain_step W onward w)) = finished w @ map tk_name (wk_tasks w)"
  by (cases "wk_tasks w") (simp_all add: drain_step_nil drain_step_cons)

lemma turn_account: "finished (turn W t w) @ map tk_name (wk_tasks (turn W t w)) = finished w @ map tk_name (wk_tasks w)"
  by (cases "wk_place w") (simp_all add: turn_def drain_step_account polled emit_def modifyS_def, simp add: finished_def finished_name_def)

lemma act_account: "finished (act W w a) @ map tk_name (wk_tasks (act W w a)) = finished w @ map tk_name (wk_tasks w) @ submitted [a]"
  by (cases a) (use turn_account in \<open>auto simp: submit_def stop_def call_client_def submitted_def\<close>)

lemma run_account: "finished (foldl (act W) w acts) @ map tk_name (wk_tasks (foldl (act W) w acts)) = finished w @ map tk_name (wk_tasks w) @ submitted acts"
  by (induction acts arbitrary: w) (use act_account in \<open>auto simp: submitted_def\<close>)

subsection \<open>Every command gets its turn\<close>

text \<open>While nobody stops the worker it is not done, and each turn brings the queue nearer to being empty.\<close>

definition rank :: "'w worker \<Rightarrow> nat" where
  "rank w = (if wk_tasks w = [] then 0 else length (wk_tasks w)
     + (case wk_place w of LoopTop \<Rightarrow> 1 | Polling \<Rightarrow> 1 | Starting \<Rightarrow> 2 | Clearing \<Rightarrow> 2 | Waiting \<Rightarrow> 3 | _ \<Rightarrow> 0))"

definition alive :: "'w worker \<Rightarrow> bool" where
  "alive w \<longleftrightarrow> \<not> wk_stop w \<and> wk_place w \<noteq> Done"

lemma alive_drain: "alive w \<Longrightarrow> onward \<noteq> Done \<Longrightarrow> alive (drain_step W onward w)"
  by (cases "wk_tasks w") (simp_all add: alive_def drain_step_nil drain_step_cons)

lemma alive_turn: "alive w \<Longrightarrow> alive (turn W t w)"
  using alive_drain [of w] by (cases "wk_place w") (auto simp: turn_def alive_def polled emit_def modifyS_def)

lemma alive_act: "alive w \<Longrightarrow> a \<noteq> Stop \<Longrightarrow> alive (act W w a)"
  by (cases a) (simp_all add: alive_turn, simp_all add: alive_def submit_def call_client_def)

lemma alive_run: "alive w \<Longrightarrow> Stop \<notin> set acts \<Longrightarrow> alive (foldl (act W) w acts)"
  by (induction acts arbitrary: w) (auto simp: alive_act)

lemma rank_turn: "alive w \<Longrightarrow> rank (turn W t w) \<le> rank w - 1"
  by (cases "wk_tasks w"; cases "wk_place w")
    (simp_all add: turn_def rank_def alive_def drain_step_nil drain_step_cons polled emit_def modifyS_def)

lemma rank_turns: "alive w \<Longrightarrow> rank w \<le> length ts \<Longrightarrow> rank (foldl (act W) w (map Turn ts)) = 0"
proof (induction ts arbitrary: w)
  case (Cons t ts)
  have "rank (turn W t w) \<le> length ts" using rank_turn [OF Cons.prems(1), of W t] Cons.prems(2) by simp
  then show ?case using Cons.IH [OF alive_turn [OF Cons.prems(1)]] by simp
qed (simp add: rank_def)

lemma rank_bound: "rank w \<le> length (wk_tasks w) + 3"
  by (cases "wk_place w") (simp_all add: rank_def)

lemma rank_0: "alive w \<Longrightarrow> rank w = 0 \<Longrightarrow> wk_tasks w = []"
  by (auto simp: rank_def split: if_splits)

lemma drained:
  assumes "alive w" "length (wk_tasks w) + 3 \<le> length ts"
  shows "wk_tasks (foldl (act W) w (map Turn ts)) = []"
proof (rule rank_0)
  show "alive (foldl (act W) w (map Turn ts))" by (rule alive_run [OF assms(1)]) auto
  show "rank (foldl (act W) w (map Turn ts)) = 0" by (rule rank_turns [OF assms(1)]) (use rank_bound [of w] assms(2) in simp)
qed

lemma submitted_turns: "submitted (map Turn ts) = []"
  by (induction ts) (simp_all add: submitted_def)

text \<open>A thread that waits is woken: when something is queued, or it should stop, then its flag is set.\<close>

definition woken :: "'w worker \<Rightarrow> bool" where
  "woken w \<longleftrightarrow> (wk_place w = Waiting \<and> (wk_tasks w \<noteq> [] \<or> wk_stop w) \<longrightarrow> wk_wake w) \<and> (wk_stop w \<and> wk_place w \<notin> {Clearing, LoopTop, FirstDrain, Done} \<longrightarrow> wk_wake w)"

interpretation worker_wakes: machine "act W" woken for W :: "'w platform"
proof unfold_locales
  fix w :: "'w worker" and a assume i: "woken w"
  show "woken (act W w a)"
  proof (cases a)
    case (Turn t)
    show ?thesis using i
      by (cases "wk_place w"; cases "wk_tasks w")
        (auto simp: Turn turn_def woken_def drain_step_nil drain_step_cons polled emit_def modifyS_def)
  qed (use i in \<open>auto simp: woken_def submit_def stop_def call_client_def\<close>)
qed

subsection \<open>The client behind the worker\<close>

text \<open>A relation between states of the client that its operations keep holds for whatever the worker and the interface do with it.\<close>

lemma on_store_bind: "on_store (bindS m f) = bindS (on_store m) (\<lambda>x. on_store (f x))"
  by (rule ext) (auto simp: on_store_def bindS_def Let_def split: prod.split sum.split)

lemma on_store_pure: "on_store (returnS x) = returnS x" "on_store (liftS r) = liftS r" "on_store (\<lambda>s. (f s, s)) = (\<lambda>c. (f (c_store c), c))"
  by (rule ext, simp add: on_store_def returnS_def liftS_def)+

definition on_client_state :: "('w client \<Rightarrow> 'w client \<Rightarrow> bool) \<Rightarrow> 'w desk \<Rightarrow> 'w desk \<Rightarrow> bool" where
  "on_client_state R d d' \<longleftrightarrow> R (dk_client d) (dk_client d')"

definition on_worker :: "('w client \<Rightarrow> 'w client \<Rightarrow> bool) \<Rightarrow> 'w worker \<Rightarrow> 'w worker \<Rightarrow> bool" where
  "on_worker R w w' \<longleftrightarrow> R (dk_client (wk_desk w)) (dk_client (wk_desk w'))"

sublocale acting_relation \<subseteq> desk: method_relation "on_client_state R"
  by unfold_locales (auto simp: on_client_state_def intro: R_refl R_trans)

sublocale acting_relation \<subseteq> worker: method_relation "on_worker R"
  by unfold_locales (auto simp: on_worker_def intro: R_refl R_trans)

context acting_relation
begin

lemma keeps_on_client: "keeps R m \<Longrightarrow> keeps (on_client_state R) (on_client m)"
  by (simp add: keeps_def on_client_def on_client_state_def split_beta Let_def)

lemma keeps_on_desk: "keeps (on_client_state R) m \<Longrightarrow> keeps (on_worker R) (on_desk m)"
  by (simp add: keeps_def on_desk_def on_worker_def on_client_state_def split_beta Let_def)

lemma keeps_mapR: "keeps R m \<Longrightarrow> keeps R (mapR f m)"
  unfolding mapR_def by (intro keeps_intros)

lemma keeps_read_files: "keeps (on_client_state R) (write_file W path data)"
  by (simp add: keeps_def write_file_def on_client_state_def R_refl)

lemma keeps_asking: "keeps R (\<lambda>c. (f (c_store c), c))"
  by (simp add: keeps_def R_refl)

lemma keeps_merge_bundle: "keeps R (on_store (merge_bundle C now rnd iid bundle))"
  unfolding merge_bundle_def on_store_bind on_store_pure case_prod_unfold by (intro keeps_intros keeps_merges keeps_asking)

lemma keeps_send_file_at: "su_env W = E \<Longrightarrow> keeps R (send_file_at W f cid path)"
proof -
  assume W: "su_env W = E"
  have "keeps R (ready_to_send E cid)"
    unfolding ready_to_send_def by (intro acting_intros keeps_contacts)
  then show ?thesis
    unfolding send_file_at_def W by (cases "read_file f") (auto intro!: keeps_intros keeps_send_file)
qed

lemma keeps_files:
  assumes W: "su_env W = E"
  shows "keeps (on_client_state R) (export_history_to W path passphrase since)" "keeps (on_client_state R) (import_history_from W path passphrase)"
proof -
  have "keeps R (history_export W passphrase since)"
    unfolding history_export_def W Let_def by (intro acting_intros)
  then show "keeps (on_client_state R) (export_history_to W path passphrase since)"
    unfolding export_history_to_def by (intro desk.keeps_intros keeps_on_client keeps_read_files)
  have "keeps R (urandoms E len n)" for len n
    by (rule keepsI) (simp add: urandoms_def R_reads)
  then have "keeps R (history_import W data passphrase)" for data
    unfolding history_import_def W Let_def by (intro acting_intros keeps_merge_bundle)
  then show "keeps (on_client_state R) (import_history_from W path passphrase)"
    unfolding import_history_from_def by (intro desk.keeps_intros keeps_on_client)
qed

lemma keeps_run_command: assumes "su_env W = E" shows "keeps (on_client_state R) (run_command W cmd)"
  by (cases cmd; simp only: run_command.simps assms;
      intro desk.keeps_intros keeps_on_client keeps_mapR keeps_provision keeps_send_text keeps_send_file_at [OF assms] keeps_mark_read
        keeps_history_calls keeps_files [OF assms] keeps_download)

lemma keeps_flags: "keeps (on_worker R) (emit e)" "keeps (on_worker R) (modifyS (\<lambda>w. w\<lparr>wk_next := f w\<rparr>))"
  by (simp_all add: keeps_def emit_def modifyS_def on_worker_def R_refl)

lemma keeps_run_task: "su_env W = E \<Longrightarrow> keeps (on_worker R) (run_task W t)"
  unfolding run_task_def Let_def
  by (intro worker.keeps_intros keeps_attempt keeps_on_desk keeps_run_command)
    (auto intro!: worker.keeps_intros keeps_flags split: sum.split option.split)

lemma keeps_poll: "su_env W = E \<Longrightarrow> keeps (on_worker R) (poll_safely W t)"
proof -
  assume W: "su_env W = E"
  have d: "keeps (on_worker R) (discover W now)" for now
    unfolding discover_def W
    by (intro worker.keeps_intros keeps_flags keeps_attempt keeps_on_desk keeps_on_client keeps_refresh_relays)
      (auto intro!: worker.keeps_intros keeps_flags split: sum.split)
  have "keeps (on_worker R) (poll_once W t)"
    unfolding poll_once_def W
    by (intro worker.keeps_intros keeps_flags d keeps_on_desk keeps_on_client keeps_sync keeps_flush_outbox)
  then show ?thesis
    unfolding poll_safely_def
    by (intro worker.keeps_intros keeps_attempt) (auto intro!: worker.keeps_intros keeps_flags split: sum.split)
qed

lemma keeps_turn: "su_env W = E \<Longrightarrow> (on_worker R) w (turn W t w)"
proof -
  assume W: "su_env W = E"
  have "on_worker R w (drain_step W onward w)" for onward
    using keeps_run_task [OF W, of "hd (wk_tasks w)", THEN keepsD, OF surjective_pairing, of "w\<lparr>wk_tasks := tl (wk_tasks w)\<rparr>"]
    by (cases "wk_tasks w") (simp_all add: drain_step_def on_worker_def R_refl)
  then show ?thesis
    using keeps_poll [OF W, of t]
    by (cases "wk_place w") (simp_all add: turn_def, simp_all add: on_worker_def keeps_def emit_def modifyS_def R_refl)
qed

lemma keeps_small_calls: "keeps R (card_string E)" "keeps R (client_devices E)"
  unfolding card_string_def client_devices_def by (intro acting_intros)+

lemma keeps_client_step:
  assumes "\<And>urls name n. R c (restart E urls name n c)"
  shows "R c (client_step E c opn)"
proof -
  note k = keeps_small_calls keeps_provision keeps_own_list(3) keeps_refresh_relays keeps_add_contact keeps_send_text keeps_send_file
    keeps_flush_outbox keeps_sync keeps_mark_read keeps_history_calls keeps_download keeps_close
  show ?thesis
    by (cases opn) (simp_all only: client_step.simps assms k [THEN keepsD, OF surjective_pairing])
qed

lemma keeps_act:
  assumes W: "su_env W = E" and "\<And>urls name n c. R c (restart E urls name n c)"
  shows "on_worker R w (foldl (act W) w acts)"
proof (induction acts arbitrary: w)
  case Nil
  then show ?case by (simp add: worker.R_refl)
next
  case (Cons a acts)
  have "on_worker R w (act W w a)"
    by (cases a) (simp_all add: keeps_turn [OF W], simp_all add: on_worker_def submit_def stop_def call_client_def R_refl W keeps_client_step assms)
  then show ?case using Cons worker.R_trans by simp
qed

end

subsection \<open>Connections\<close>

text \<open>The connections that lead from one state of the world to another.\<close>

inductive through :: "'w http_session \<Rightarrow> (http_request \<Rightarrow> (string \<times> string) list \<Rightarrow> bool) \<Rightarrow> 'w \<Rightarrow> 'w \<Rightarrow> bool" for send P where
  through_refl: "through send P w w"
| through_step: "through send P w v \<Longrightarrow> P q p \<Longrightarrow> through send P w (snd (send q p v))"

lemma through_trans: "through send P v w \<Longrightarrow> through send P u v \<Longrightarrow> through send P u w"
  by (induction rule: through.induct) (auto intro: through.intros)

text \<open>A connection to this machine or the local network, or one through the proxy.\<close>

definition guarded :: "string option \<Rightarrow> http_request \<Rightarrow> (string \<times> string) list \<Rightarrow> bool" where
  "guarded proxy q p \<longleftrightarrow> is_local (rq_url q) = Inr True \<or> (\<exists>u. proxy = Some u \<and> u \<noteq> [] \<and> p = [(''http'', u), (''https'', u)])"

lemma attempts_through: "P q p \<Longrightarrow> through send P w (snd (attempts send q p n w))"
proof (induction n arbitrary: w)
  case (Suc n)
  obtain r v where s: "send q p w = (r, v)" by force
  have "through send P w v" using through_step [where P = P and q = q and p = p, OF through_refl Suc.prems, of send w] by (simp add: s)
  then show ?case using Suc.IH [OF Suc.prems, of v] through_trans by (cases r) (auto simp: s)
qed (simp add: through_refl)

lemma request_through:
  assumes "t_fail_closed T"
  shows "through send (guarded (t_proxy_url T)) w (snd (request T send q w))"
proof (cases "proxies_for T (rq_url q)")
  case (Inl e)
  then show ?thesis by (simp add: request_def bindS_def liftS_def through_refl)
next
  case (Inr p)
  then have "guarded (t_proxy_url T) q p"
    using assms by (cases "t_proxy_url T") (auto simp: guarded_def proxies_for_def has_proxy_def res_simps split: if_splits)
  then show ?thesis using Inr by (simp add: request_def bindS_def liftS_def attempts_through)
qed

definition closed_env :: "'w env \<Rightarrow> string option \<Rightarrow> 'w http_session \<Rightarrow> 'w env" where
  "closed_env E proxy send = E\<lparr>e_request := request (make_transport 3 proxy True) send\<rparr>"

interpretation closed: acting_relation "\<lambda>c c'. through send (guarded proxy) (c_world c) (c_world c')" "closed_env E proxy send"
  for send :: "'w http_session" and proxy E
proof -
  have r: "through send (guarded proxy) w (snd (e_request (closed_env E proxy send) q w))" for q w
    using request_through [of "make_transport 3 proxy True" send w q] by (simp add: closed_env_def make_transport_def)
  show "acting_relation (\<lambda>c c'. through send (guarded proxy) (c_world c) (c_world c')) (closed_env E proxy send)"
    by unfold_locales (auto intro: through_refl through_trans r)
qed

lemma closed_run:
  fixes W :: "'w platform"
  assumes "e_request (su_env W) = request (make_transport 3 proxy True) send"
  shows "through send (guarded proxy) (c_world (dk_client (wk_desk w))) (c_world (dk_client (wk_desk (foldl (act W) w acts))))"
proof -
  have W: "su_env W = closed_env (su_env W) proxy send" by (simp add: closed_env_def flip: assms)
  have "c_world (restart E urls name n c) = c_world c" for E :: "'w env" and urls name n and c :: "'w client"
    by (auto simp: restart_def make_client_def make_pool_def Let_def res_simps split: sum.split if_splits)
  then have k: "through send (guarded proxy) (c_world c) (c_world (restart (closed_env (su_env W) proxy send) urls name n c))" for urls name n c
    by (simp add: through_refl)
  show ?thesis
    using closed.keeps_act [OF W k, where w = w and acts = acts] by (simp add: on_worker_def)
qed

subsection \<open>Theorems\<close>

lemma make_worker_facts [simp]: "alive (make_worker d p a i)" "finished (make_worker d p a i) = []" "wk_tasks (make_worker d p a i) = []"
  "woken (make_worker d p a i)" "wk_desk (make_worker d p a i) = d"
  by (simp_all add: make_worker_def alive_def finished_def woken_def)

text \<open>C4: what the interface hands to the worker is done.  Whatever happens, commands finish in the order they were submitted, each at most once.  As long as
  nobody stops the worker, every command submitted has finished, exactly once, after as many further turns of the thread as there were
  commands and three more: whatever the client raises, a command that fails, a poll that fails or a search for relays that fails never
  keeps the ones behind it from running.\<close>

theorem worker_runs_commands:
  "let start = make_worker d seconds_between auto interval; w = foldl (act W) start acts in
     (\<exists>rest. submitted acts = finished w @ rest)
     \<and> (Stop \<notin> set acts \<and> length (submitted acts) + 3 \<le> length ts \<longrightarrow> finished (foldl (act W) w (map Turn ts)) = submitted acts)"
proof -
  let ?start = "make_worker d seconds_between auto interval"
  let ?w = "foldl (act W) ?start acts"
  have a: "finished ?w @ map tk_name (wk_tasks ?w) = submitted acts"
    using run_account [of W ?start acts] by simp
  have "finished (foldl (act W) ?w (map Turn ts)) = submitted acts" if c: "Stop \<notin> set acts" "length (submitted acts) + 3 \<le> length ts"
  proof -
    have "length (wk_tasks ?w) \<le> length (submitted acts)" using arg_cong [OF a, of length] by simp
    then have "wk_tasks (foldl (act W) ?w (map Turn ts)) = []"
      using c alive_run [of ?start acts W] by (intro drained) simp_all
    then show ?thesis using run_account [of W ?w "map Turn ts"] a by (simp add: submitted_turns)
  qed
  then show ?thesis using a by (metis (mono_tags, lifting))
qed

theorem worker_runs_commands_witness:
  "let W = \<lparr>su_env = sample_env, su_vault = toy_vault, su_mime = (\<lambda>_. None), su_writable = (\<lambda>_. False)\<rparr>;
       start = make_worker \<lparr>dk_client = sample_client, dk_files = (\<lambda>_. Absent)\<rparr> 2 True 900;
       acts = [Submit \<lparr>tk_name = ''send_file'', tk_command = DoSendFile ''x'' ''/gone'', tk_notice = None\<rparr>] in
     finished (foldl (act W) (foldl (act W) start acts) (map Turn (replicate 4 (0, 0)))) = [''send_file'']"
proof -
  let ?acts = "[Submit \<lparr>tk_name = ''send_file'', tk_command = DoSendFile ''x'' ''/gone'', tk_notice = None\<rparr>]"
  have "submitted ?acts = [''send_file'']" by (simp add: submitted_def)
  then show ?thesis
    using worker_runs_commands [where d = "\<lparr>dk_client = sample_client, dk_files = (\<lambda>_. Absent)\<rparr>" and seconds_between = 2 and auto = True
        and interval = 900 and acts = ?acts and ts = "replicate 4 (0, 0)"
        and W = "\<lparr>su_env = sample_env, su_vault = toy_vault, su_mime = (\<lambda>_. None), su_writable = (\<lambda>_. False)\<rparr>"]
    unfolding Let_def by simp
qed

text \<open>The flag: whenever the thread is about to wait while something is queued, or while it should stop, it is woken at once.\<close>

lemma never_waits: "woken (foldl (act W) (make_worker d p a i) acts)"
  by (rule worker_wakes.run_inv) simp

text \<open>A worker that is stopped while it waits ends without looking at its queue again: what was submitted before is dropped, with no signal.\<close>

definition ending :: "'w worker \<Rightarrow> bool" where
  "ending w \<longleftrightarrow> wk_stop w \<and> wk_place w \<in> {Waiting, Clearing, LoopTop, Done}"

interpretation worker_ends: machine "act W" ending for W :: "'w platform"
proof unfold_locales
  fix w :: "'w worker" and a assume "ending w"
  then show "ending (act W w a)" by (cases a) (auto simp: ending_def turn_def submit_def stop_def call_client_def)
qed

lemma stopped_drops:
  assumes "wk_place w = Waiting"
  shows "finished (foldl (act W) (stop (submit t w)) acts) = finished w"
proof -
  have "finished (act W u a) = finished u" if "ending u" for u :: "'a worker" and a
    using that by (cases a) (auto simp: ending_def turn_def submit_def stop_def call_client_def)
  then have "finished (foldl (act W) (stop (submit t w)) acts) = finished (stop (submit t w))"
    by (rule worker_ends.run_frame) (use assms in \<open>simp_all add: ending_def stop_def submit_def\<close>)
  then show ?thesis by (simp add: stop_def submit_def)
qed

text \<open>Whatever the worker runs and whatever the interface does meanwhile, with any answers of relays and peers, any files that are imported
  and any exceptions, a client whose store satisfies the invariant of the database keeps it, every row of the outbox stays marked as accepted
  by a relay, and the client has a relay to talk to.\<close>

theorem worker_keeps_client:
  assumes "client_inv (dk_client d)"
  shows "let c = dk_client (wk_desk (foldl (act W) (make_worker d seconds_between auto interval) acts)) in
    store_inv (c_store c) \<and> all_sent (c_store c) \<and> c_backend c \<noteq> []"
proof -
  have "client_inv x \<longrightarrow> client_inv (restart (su_env W) urls name n x)" for urls name n x
    using client_machine.step_inv [of x "su_env W" "Restart urls name n"] by simp
  then have "client_inv (dk_client (wk_desk (foldl (act W) (make_worker d seconds_between auto interval) acts)))"
    using client_kept.keeps_act [where E = "su_env W" and W = W, OF refl, of "make_worker d seconds_between auto interval" acts] assms(1)
    by (simp add: on_worker_def)
  then show ?thesis by (simp add: client_inv_def used_store_def)
qed

theorem worker_keeps_client_witness:
  "store_inv (c_store (dk_client (wk_desk (foldl (act \<lparr>su_env = sample_env, su_vault = toy_vault, su_mime = (\<lambda>_. None), su_writable = (\<lambda>_. False)\<rparr>)
     (make_worker \<lparr>dk_client = sample_client, dk_files = (\<lambda>_. Absent)\<rparr> 2 True 900) [Turn (0, 0), Turn (0, 0), Turn (0, 0), Turn (0, 0)]))))"
  by (rule worker_keeps_client [unfolded Let_def, THEN conjunct1])
    (simp add: sample_client_def client_inv_def used_store_def all_sent_def initialize_inv, simp add: initialize_def)


definition closed_settings :: gui_settings where
  "closed_settings = (default_gui [])\<lparr>gs_fail_closed := JBool True\<rparr>"


end
