(* ===== verification/Chat.thy ===== *)
theory Chat
  imports Sync
begin

section \<open>What the desktop shows\<close>

text \<open>
  The rendering in \<^verbatim>\<open>gui/app.py\<close>: the page of a conversation, the rows of the contact list, the lines of the device dialog and the wording of
  a history window.  A page is HTML, so everything that comes from a peer has to be escaped in it; lists and labels are plain text.
  Characters outside ASCII are written as the bytes of their encoding, as everywhere in the model.  Days are computed on exact numbers,
  not on floating point.

  The theorems: escaping loses nothing and leaves no markup, a page has exactly the tags of its bubbles when the states of the messages are
  plain, and contacts of the same name can be told apart.
\<close>

subsection \<open>Escaping\<close>

text \<open>\<open>html.escape\<close>: five replacements, the ampersand's first, so each of them only meets characters of the text itself.\<close>

definition html_char :: "char \<Rightarrow> string" where
  "html_char c =
     (if c = CHR ''&'' then ''&amp;'' else if c = CHR ''<'' then ''&lt;'' else if c = CHR ''>'' then ''&gt;''
      else if c = CHR 0x22 then ''&quot;'' else if c = CHR 0x27 then ''&#x27;'' else [c])"

definition html_escape :: "string \<Rightarrow> string" where
  "html_escape s = concat (map html_char s)"

text \<open>Escaping a value: what is not a string has no \<open>replace\<close>.\<close>

definition escape_value :: "json \<Rightarrow> string res" where
  "escape_value v = (case v of JStr s \<Rightarrow> Inr (html_escape s) | _ \<Rightarrow> Inl AttributeError)"

text \<open>\<open>d.get(key, default)\<close> on any value.\<close>

definition get_else :: "json \<Rightarrow> string \<Rightarrow> json \<Rightarrow> json res" where
  "get_else v k x = (case v of JObj d \<Rightarrow> Inr (get_or d k x) | _ \<Rightarrow> Inl AttributeError)"

subsection \<open>A conversation\<close>

definition is_mine :: "message \<Rightarrow> bool" where
  "is_mine m \<longleftrightarrow> msg_direction m = JStr ''sent''"

definition message_body :: "message \<Rightarrow> json" where
  "message_body m = py_or (msg_body m) (JObj [])"

text \<open>The text of a bubble; a file also gives the name for the list of attachments.\<close>

definition bubble_text :: "message \<Rightarrow> (string \<times> string option) res" where
  "bubble_text m =
     (let body = message_body m in
      if msg_type m = JStr ''text'' then bindE (get_else body ''text'' (JStr [])) (\<lambda>v. bindE (escape_value v) (\<lambda>s. Inr (s, None)))
      else
        bindE (get_else body ''caption'' (JStr [])) (\<lambda>v.
        bindE (escape_value (py_or v (JStr []))) (\<lambda>caption.
        bindE (py_get body ''attachment'') (\<lambda>a.
        bindE (get_else (py_or a (JObj [])) ''name'' (JStr ''attachment'')) (\<lambda>n.
        bindE (escape_value n) (\<lambda>name.
        Inr (''[file: '' @ name @ ''] '' @ caption, Some name)))))))"

definition bubble_meta :: "message \<Rightarrow> string" where
  "bubble_meta m =
     (if is_mine m \<and> truthy (msg_state m) then py_str (msg_state m) else if is_mine m then ''sent'' else ''received'')"

definition bubble :: "bool \<Rightarrow> string \<Rightarrow> string \<Rightarrow> string" where
  "bubble mine txt meta =
     ''<div style='' @ [CHR 0x22] @ ''text-align:'' @ (if mine then ''right'' else ''left'') @ '';margin:6px 0;'' @ [CHR 0x22] @ ''>''
     @ ''<span style='' @ [CHR 0x22] @ ''background:'' @ (if mine then ''#3b82f6'' else ''#2b2d31'')
     @ '';padding:6px 10px;border-radius:8px;display:inline-block;max-width:70%;'' @ [CHR 0x22] @ ''>'' @ txt @ ''</span><br>''
     @ ''<span style='' @ [CHR 0x22] @ ''color:#8a8a8a;font-size:10px;'' @ [CHR 0x22] @ ''>'' @ meta @ ''</span></div>''"

definition render_message :: "message \<Rightarrow> (string \<times> (message \<times> string) option) res" where
  "render_message m =
     bindE (bubble_text m) (\<lambda>(txt, name). Inr (bubble (is_mine m) txt (bubble_meta m), map_option (\<lambda>n. (m, n)) name))"

definition chosen :: "('a \<times> 'b option) list \<Rightarrow> 'b list" where
  "chosen xs = concat (map (\<lambda>x. case snd x of None \<Rightarrow> [] | Some y \<Rightarrow> [y]) xs)"

definition render_messages :: "message list \<Rightarrow> (string \<times> (message \<times> string) list) res" where
  "render_messages ms =
     bindE (mapE render_message ms) (\<lambda>rows.
     let page = concat (map fst rows) in
     Inr (if page = [] then ''<i>No messages yet.</i>'' else page, chosen rows))"

text \<open>The header of a conversation: the nickname if there is one, and always the identifier.\<close>

definition chat_header :: "contact option \<Rightarrow> string \<Rightarrow> string" where
  "chat_header ct cid =
     (case ct of Some c \<Rightarrow> if truthy (ct_nickname c) then py_str (ct_nickname c) else take 12 cid | None \<Rightarrow> take 12 cid)"

subsection \<open>The list of contacts\<close>

definition base_label :: "contact \<Rightarrow> string" where
  "base_label ct = (if truthy (ct_nickname ct) then py_str (ct_nickname ct) else take 8 (ct_id ct))"

definition unread :: "message list \<Rightarrow> nat" where
  "unread ms = length (filter (\<lambda>m. msg_direction m = JStr ''received'' \<and> msg_state m = JStr ''received'') ms)"

definition DOT :: string where "DOT = [CHR '' '', CHR 0xC2, CHR 0xB7, CHR '' '']"

definition row_label :: "string list \<Rightarrow> contact \<Rightarrow> nat \<Rightarrow> string" where
  "row_label bases ct n =
     (let base = base_label ct; lab = (if 1 < count_list bases base then base @ DOT @ take 7 (ct_id ct) else base) in
      if 0 < n then lab @ '' ('' @ show_int (int n) @ '')'' else lab)"

definition contact_rows :: "contact list \<Rightarrow> (contact \<Rightarrow> message list) \<Rightarrow> (string \<times> string) list" where
  "contact_rows cs messages_of =
     (let bases = map base_label cs in map (\<lambda>c. (row_label bases c (unread (messages_of c)), ct_id c)) cs)"

text \<open>The row that is selected again after the list was rebuilt.\<close>

fun row_of :: "string \<Rightarrow> contact list \<Rightarrow> nat option" where
  "row_of cid [] = None"
| "row_of cid (c # cs) = (if ct_id c = cid then Some 0 else map_option Suc (row_of cid cs))"

subsection \<open>History windows\<close>

definition DAY_MS :: int where "DAY_MS = 24 * 3600 * 1000"

definition RANGE_CHOICES :: "(string \<times> int option) list" where
  "RANGE_CHOICES = [(''Last 30 days'', Some 30), (''Last 60 days'', Some 60), (''Last 90 days'', Some 90), (''Everything'', None)]"

datatype range_answer = Cancelled | Since "int option"

text \<open>The user picks one of the labels, or cancels.\<close>

definition ask_range :: "int \<Rightarrow> string option \<Rightarrow> range_answer res" where
  "ask_range now choice =
     (case choice of None \<Rightarrow> Inr Cancelled
      | Some lab \<Rightarrow> bindE (of_option KeyError (map_of RANGE_CHOICES lab)) (\<lambda>days. Inr (Since (map_option (\<lambda>n. now - n * DAY_MS) days))))"

text \<open>\<open>round\<close> takes a half to the even neighbour.\<close>

definition round_div :: "int \<Rightarrow> int \<Rightarrow> int" where
  "round_div n d = (let q = n div d; r = n mod d in if 2 * r < d \<or> (2 * r = d \<and> even q) then q else q + 1)"

text \<open>A window may come from another device.  Of the texts that \<open>float\<close> can read, those of whole numbers are modelled.\<close>

definition since_value :: "json \<Rightarrow> int res" where
  "since_value v = py_int v"

definition describe_range :: "int \<Rightarrow> json \<Rightarrow> string res" where
  "describe_range now since =
     (if \<not> truthy since then Inr ''everything''
      else bindE (since_value since) (\<lambda>n.
        let days = max 1 (round_div (now - n) DAY_MS) in
        Inr (''the last '' @ show_int days @ '' day'' @ (if days \<noteq> 1 then ''s'' else []))))"

subsection \<open>Devices and requests\<close>

definition or_unnamed :: "string \<Rightarrow> string" where
  "or_unnamed name = (if name = [] then ''unnamed device'' else name)"

definition sync_notes :: "sibling_status option \<Rightarrow> string list" where
  "sync_notes st =
     (case st of Some s \<Rightarrow>
        if \<not> ss_has_keys s then [''no sync keys yet '' @ [CHR 0xE2, CHR 0x80, CHR 0x94] @ '' update that device'']
        else (if ss_approved s then ''history approved'' else ''not approved'')
          # (if ss_received s \<noteq> 0 then [''received '' @ show_int (ss_received s) @ ''/'' @ (if ss_expected s \<noteq> 0 then show_int (ss_expected s) else ''?'') @ '' items''] else [])
      | None \<Rightarrow> [''no sync keys yet '' @ [CHR 0xE2, CHR 0x80, CHR 0x94] @ '' update that device''])"

fun intersperse :: "string \<Rightarrow> string list \<Rightarrow> string" where
  "intersperse sep [] = []"
| "intersperse sep [s] = s"
| "intersperse sep (s # ss) = s @ sep @ intersperse sep ss"

definition status_of :: "sibling_status list \<Rightarrow> string \<Rightarrow> sibling_status option" where
  "status_of st dev = map_of (rev (map (\<lambda>s. (ss_device_id s, s)) st)) dev"

definition device_label :: "string option \<Rightarrow> sibling_status list \<Rightarrow> device_entry \<Rightarrow> string res" where
  "device_label current st d =
     (let here = (current = Some (entry_device_id d));
          notes = (if here then [] else sync_notes (status_of st (entry_device_id d)));
          relays = (if entry_relays d = [] then ''(this device'' @ [CHR 0x27] @ ''s relays)'' else intersperse '', '' (entry_relays d)) in
      bindE (getitem (JObj (entry_inbox d)) ''id'') (\<lambda>box.
      bindE (case box of JStr s \<Rightarrow> Inr (take 10 s) | _ \<Rightarrow> Inl TypeError) (\<lambda>mailbox.
      Inr (intersperse [CHR 0x0A]
        ([or_unnamed (entry_name d) @ '' '' @ DOT @ '' '' @ take 10 (entry_device_id d) @ (if here then ''   '' @ [CHR 0xE2, CHR 0x86, CHR 0x90] @ '' this device'' else [])]
         @ (if notes \<noteq> [] then [''    '' @ intersperse DOT notes] else [])
         @ [''    mailbox '' @ mailbox @ [CHR 0xE2, CHR 0x80, CHR 0xA6] @ ''  '' @ [CHR 0xE2, CHR 0x86, CHR 0x92] @ ''  '' @ relays])))))"

definition request_label :: "int \<Rightarrow> pending_request \<Rightarrow> string res" where
  "request_label now r =
     bindE (describe_range now (pr_since r)) (\<lambda>range.
     Inr (or_unnamed (pr_name r) @ '' ('' @ take 10 (pr_device_id r) @ '') asked for '' @ range))"

text \<open>A device is announced once while its request is pending.\<close>

definition note_requests :: "string set \<Rightarrow> pending_request list \<Rightarrow> string set \<times> string option" where
  "note_requests seen pending =
     (if pending = [] then ({}, None)
      else let fresh = filter (\<lambda>r. pr_device_id r \<notin> seen) pending in
        if fresh = [] then (seen, None)
        else (seen \<union> set (map pr_device_id fresh),
          Some (intersperse '', '' (map (\<lambda>r. if pr_name r = [] then take 8 (pr_device_id r) else pr_name r) fresh)
            @ '' is asking for your history '' @ [CHR 0xE2, CHR 0x80, CHR 0x94] @ '' open Devices'')))"

subsection \<open>Escaped text\<close>

text \<open>Reading the five references back; a reference ends at its semicolon.\<close>

fun html_unescape :: "string \<Rightarrow> string res" where
  "html_unescape [] = Inr []"
| "html_unescape (c # cs) =
     (if c \<noteq> CHR ''&'' then bindE (html_unescape cs) (\<lambda>t. Inr (c # t))
      else if take 4 cs = ''amp;'' then bindE (html_unescape (drop 4 cs)) (\<lambda>t. Inr (CHR ''&'' # t))
      else if take 3 cs = ''lt;'' then bindE (html_unescape (drop 3 cs)) (\<lambda>t. Inr (CHR ''<'' # t))
      else if take 3 cs = ''gt;'' then bindE (html_unescape (drop 3 cs)) (\<lambda>t. Inr (CHR ''>'' # t))
      else if take 5 cs = ''quot;'' then bindE (html_unescape (drop 5 cs)) (\<lambda>t. Inr (CHR 0x22 # t))
      else if take 5 cs = ''#x27;'' then bindE (html_unescape (drop 5 cs)) (\<lambda>t. Inr (CHR 0x27 # t))
      else Inl ValueError)"

lemma html_escape_simps [simp]: "html_escape [] = []" "html_escape (c # cs) = html_char c @ html_escape cs"
  by (simp_all add: html_escape_def)

lemma unescape_escape: "html_unescape (html_escape s) = Inr s"
  by (induction s) (simp_all add: html_char_def)

interpretation html_codec: codec html_escape html_unescape "\<lambda>_. True"
  by unfold_locales (rule unescape_escape)

definition markup :: "char set" where "markup = {CHR ''<'', CHR ''>'', CHR 0x22, CHR 0x27}"

lemma html_char_plain: "set (html_char c) \<inter> markup = {}"
  by (simp add: html_char_def markup_def)

lemma escaped_plain: "set (html_escape s) \<inter> markup = {}"
  using html_char_plain by (auto simp: html_escape_def)

definition tags :: "string \<Rightarrow> nat" where
  "tags s = length (filter (\<lambda>c. c = CHR ''<'') s)"

lemma tags_simps [simp]: "tags [] = 0" "tags (c # s) = (if c = CHR ''<'' then 1 else 0) + tags s" "tags (s @ t) = tags s + tags t"
  by (simp_all add: tags_def)

lemma tags_plain: "set s \<inter> markup = {} \<Longrightarrow> tags s = 0"
  by (induction s) (auto simp: markup_def)

lemma tags_bubble: "tags (bubble mine txt meta) = 7 + tags txt + tags meta"
  by (simp add: bubble_def)

lemma escape_value_Inr_iff [res_simps]: "escape_value v = Inr t \<longleftrightarrow> (\<exists>s. v = JStr s \<and> t = html_escape s)"
  by (cases v) (auto simp: escape_value_def)

lemma bubble_text_plain: "bubble_text m = Inr (txt, name) \<Longrightarrow> set txt \<inter> markup = {}"
  using escaped_plain
  by (auto simp: bubble_text_def Let_def res_simps markup_def split: if_splits)

text \<open>A state that the page can show.\<close>

definition plain_state :: "message \<Rightarrow> bool" where
  "plain_state m \<longleftrightarrow> (is_mine m \<and> truthy (msg_state m) \<longrightarrow> set (py_str (msg_state m)) \<inter> markup = {})"

lemma meta_plain: "plain_state m \<Longrightarrow> tags (bubble_meta m) = 0"
  by (auto simp: plain_state_def bubble_meta_def intro: tags_plain)

lemma render_tags:
  assumes "list_all plain_state ms" "mapE render_message ms = Inr rows"
  shows "tags (concat (map fst rows)) = 7 * length ms"
  using assms
proof (induction ms arbitrary: rows)
  case (Cons m ms)
  then obtain row rs where r: "render_message m = Inr row" "mapE render_message ms = Inr rs" "rows = row # rs"
    by (auto simp: res_simps)
  obtain tx name where b: "bubble_text m = Inr (tx, name)" "fst row = bubble (is_mine m) tx (bubble_meta m)"
    using r(1) by (auto simp: render_message_def res_simps)
  have "tags (fst row) = 7" using Cons.prems(1) tags_plain [OF bubble_text_plain [OF b(1)]] by (simp add: b(2) tags_bubble meta_plain)
  then show ?case using Cons.IH [OF _ r(2)] Cons.prems(1) by (simp add: r(3))
qed simp

subsection \<open>Theorems\<close>

text \<open>What is shown of one message: a text is escaped, and reads back as it was sent.\<close>

lemma shown_text:
  assumes "msg_type m = JStr ''text''" "msg_body m = JObj d" "map_of d ''text'' = Some (JStr s)"
  shows "bubble_text m = Inr (html_escape s, None)"
  using assms by (cases d) (auto simp: bubble_text_def message_body_def py_or_def get_else_def get_or_def escape_value_def)

lemma rendered_rows:
  "mapE render_message ms = Inr rows \<Longrightarrow>
    \<exists>texts. mapE bubble_text ms = Inr texts \<and> map fst rows = map2 (\<lambda>m t. bubble (is_mine m) (fst t) (bubble_meta m)) ms texts"
proof (induction ms arbitrary: rows)
  case (Cons m ms)
  then obtain x rs where x: "render_message m = Inr x" "mapE render_message ms = Inr rs" "rows = x # rs" by (auto simp: res_simps)
  moreover obtain t where "bubble_text m = Inr t" "fst x = bubble (is_mine m) (fst t) (bubble_meta m)"
    using x(1) by (auto simp: render_message_def res_simps)
  ultimately have r: "bubble_text m = Inr t" "mapE render_message ms = Inr rs" "map fst rows = bubble (is_mine m) (fst t) (bubble_meta m) # map fst rs"
    by simp_all
  then show ?case using Cons.IH [OF r(2)] by (auto simp: res_simps)
qed (simp add: res_simps)


definition sample_bubble :: message where
  "sample_bubble = \<lparr>msg_id = ''1'', msg_identity = ''me'', msg_contact = JStr ''you'', msg_direction = JStr ''received'', msg_type = JStr ''text'',
     msg_body = JObj [(''text'', JStr ''<b>'')], msg_remote_id = JNull, msg_ts = 1, msg_state = JStr ''received'', msg_meta = JNull\<rparr>"

lemma rendered_sample: "render_messages [sample_bubble] = Inr (bubble False ''&lt;b&gt;'' ''received'', [])"
  by (simp add: render_messages_def render_message_def sample_bubble_def is_mine_def bubble_text_def message_body_def py_or_def get_else_def get_or_def
      escape_value_def html_char_def bubble_meta_def chosen_def bubble_def)


text \<open>The state of a sent message is not escaped, and a receipt of the peer sets it: one tag more than the bubble's seven.  And a text that is no
  string stops the whole page from being built.\<close>

lemma state_breaks_out:
  "tags (bubble_meta (sample_bubble\<lparr>msg_direction := JStr ''sent'', msg_state := JStr ''<img src=x>''\<rparr>)) = 1"
  by (simp add: bubble_meta_def is_mine_def sample_bubble_def)

lemma text_must_be_string:
  "render_messages (sample_bubble\<lparr>msg_body := JObj [(''text'', JInt 5)]\<rparr> # ms) = Inl AttributeError"
  by (simp add: render_messages_def render_message_def sample_bubble_def bubble_text_def message_body_def py_or_def get_else_def get_or_def escape_value_def)

lemma count_list_two: "c \<in> set cs \<Longrightarrow> d \<in> set cs \<Longrightarrow> c \<noteq> d \<Longrightarrow> f c = f d \<Longrightarrow> 1 < count_list (map f cs) (f c)"
proof (induction cs)
  case (Cons x xs)
  have *: "y \<in> set xs \<Longrightarrow> 0 < count_list (map f xs) (f y)" for y by (metis count_list_0_iff gr0I image_eqI set_map)
  show ?case using Cons * [of c] * [of d] by auto
qed simp

text \<open>Contacts that share a display name are told apart.  The list has one row per contact, in order, each with the contact's identifier; rows of
  two contacts with the same display name have different labels as soon as their identifiers differ in the first seven characters.\<close>

theorem same_named_contacts_differ:
  "map snd (contact_rows cs f) = map ct_id cs
   \<and> (\<forall>c \<in> set cs. \<forall>d \<in> set cs. base_label c = base_label d \<and> take 7 (ct_id c) \<noteq> take 7 (ct_id d)
        \<and> 7 \<le> length (ct_id c) \<and> 7 \<le> length (ct_id d) \<longrightarrow>
        row_label (map base_label cs) c (unread (f c)) \<noteq> row_label (map base_label cs) d (unread (f d)))"
proof -
  have "row_label (map base_label cs) c n \<noteq> row_label (map base_label cs) d k"
    if a: "c \<in> set cs" "d \<in> set cs" "base_label c = base_label d" "take 7 (ct_id c) \<noteq> take 7 (ct_id d)" "7 \<le> length (ct_id c)" "7 \<le> length (ct_id d)" for c d n k
  proof -
    have "1 < count_list (map base_label cs) (base_label c)" using a(1-4) by (intro count_list_two) auto
    then have "\<exists>r. row_label (map base_label cs) c n = base_label c @ DOT @ take 7 (ct_id c) @ r"
        "\<exists>r. row_label (map base_label cs) d k = base_label c @ DOT @ take 7 (ct_id d) @ r"
      using a(3) by (auto simp: row_label_def Let_def)
    then show ?thesis using a(4-6) by (auto simp: append_eq_append_conv)
  qed
  then show ?thesis by (simp add: contact_rows_def Let_def o_def)
qed

definition named :: "string \<Rightarrow> contact" where
  "named cid = \<lparr>ct_identity = ''me'', ct_id = cid, ct_nickname = JStr ''Bob'', ct_isign = [], ct_idh = [], ct_bundle_id = JNull, ct_inbox = JNull,
     ct_relays = JArr [], ct_session = JNull, ct_verified = False, ct_created_at = 1\<rparr>"

theorem same_named_contacts_differ_witness:
  "row_label (map base_label [named ''aaaaaaaa'', named ''aaaaaabb'']) (named ''aaaaaaaa'') 0
   \<noteq> row_label (map base_label [named ''aaaaaaaa'', named ''aaaaaabb'']) (named ''aaaaaabb'') 0"
  using same_named_contacts_differ [of "[named ''aaaaaaaa'', named ''aaaaaabb'']" "\<lambda>_. []"]
  by (simp add: named_def base_label_def unread_def)

text \<open>A window that was chosen is described by its days, and a request is announced once.\<close>

lemma describe_chosen:
  "(lab, Some n) \<in> set RANGE_CHOICES \<Longrightarrow> now \<noteq> n * DAY_MS \<Longrightarrow>
   ask_range now (Some lab) = Inr (Since (Some (now - n * DAY_MS)))
   \<and> describe_range now (JInt (now - n * DAY_MS)) = Inr (''the last '' @ show_int n @ '' days'')"
  by (auto simp: RANGE_CHOICES_def ask_range_def describe_range_def since_value_def round_div_def DAY_MS_def)

lemma announced_once: "note_requests seen rs = (seen', Some line) \<Longrightarrow> note_requests seen' rs = (seen', None)"
  by (auto simp: note_requests_def Let_def filter_empty_conv split: if_splits)

end
