(* ===== verification/Desktop.thy ===== *)
theory Desktop
  imports Worker Chat
begin

section \<open>The desktop application\<close>

text \<open>
  The controller class \<open>App\<close> of \<^verbatim>\<open>gui/app.py\<close> with the state of its screens, and \<^verbatim>\<open>build_client\<close> of \<^verbatim>\<open>gui/session.py\<close>.  Its state holds what the
  process keeps in memory and what it keeps on disk: the identity file, the settings file, the key of the local database and the database.
  The client in use is the client of the worker (\<^verbatim>\<open>self.client\<close> and the worker are set and dropped together).

  Every slot is a method: it changes the state, and it may raise; PyQt ends the process when an exception leaves a slot, so a run
  continues only after slots that return.  What the user answers in a dialog (a file name, yes or no) and how many turns the worker
  still makes while the interface waits for it to end are arguments.  A worker that is still busy after the three seconds of that wait is not
  followed further.  The guard against recursion in \<open>refresh\<close>, layout and style are left out.

  The theorems: settings keep the types they are declared with, the database keeps its invariant through the life of the process, locking
  leaves no client, no identity and nothing on the screen and ends all traffic until the next unlock, and unlocking opens what was saved.
\<close>

datatype screen = Welcome | CreateScreen | SeedScreen | RecoverScreen | UnlockScreen | MainScreen

record view =
  vw_id :: string
  vw_header :: string
  vw_header_id :: string
  vw_chat :: string
  vw_rows :: "(string \<times> string) list"
  vw_selected :: "nat option"
  vw_attachments :: "(message \<times> string) list"
  vw_input :: string
  vw_status :: string

record ('w, 'k) app =
  ap_settings :: gui_settings
  ap_identity_file :: file_state
  ap_settings_file :: file_state
  ap_keys :: "'k key_state"
  ap_database :: store
  ap_files :: "string \<Rightarrow> file_state"
  ap_world :: 'w
  ap_reads :: nat
  ap_transport :: transport
  ap_identity :: "identity option"
  ap_worker :: "'w worker option"
  ap_contact :: "string option"
  ap_pending :: "identity option"
  ap_pending_passphrase :: string
  ap_encrypted :: bool
  ap_notified :: "string set"
  ap_screen :: screen
  ap_view :: view
  ap_seed_words :: string
  ap_acknowledged :: bool
  ap_prompt_passphrase :: bool
  ap_boxes :: "string list"

text \<open>What stays the same while the process runs: the machine, the session of the requests package, the keyring, the home directory's files
  as names, and the texts of exceptions.\<close>

record ('w, 'k) desktop =
  de_platform :: "'w platform"
  de_send :: "'w http_session"
  de_keyring :: "'k keyring_api"
  de_no_keyring :: bool
  de_environ :: environ
  de_dir :: string
  de_error_text :: "pyerr \<Rightarrow> string"

type_synonym ('w, 'k, 'a) slot = "(('w, 'k) app, 'a) meth"

definition crypto_of :: "('w, 'k) desktop \<Rightarrow> crypto" where
  "crypto_of D = e_crypto (su_env (de_platform D))"

definition vault_of :: "('w, 'k) desktop \<Rightarrow> vault_prims" where
  "vault_of D = su_vault (de_platform D)"

text \<open>The platform with the transport of the running client.\<close>

definition running :: "('w, 'k) desktop \<Rightarrow> transport \<Rightarrow> 'w platform" where
  "running D T = (de_platform D)\<lparr>su_env := (su_env (de_platform D))\<lparr>e_request := request T (de_send D)\<rparr>\<rparr>"

definition blank_view :: view where
  "blank_view = \<lparr>vw_id = [], vw_header = ''Select a contact'', vw_header_id = [], vw_chat = [], vw_rows = [], vw_selected = None,
     vw_attachments = [], vw_input = [], vw_status = ''locked''\<rparr>"

subsection \<open>Small steps\<close>

definition show_screen :: "screen \<Rightarrow> ('w, 'k, unit) slot" where
  "show_screen s = modifyS (\<lambda>a. a\<lparr>ap_screen := s\<rparr>)"

definition box :: "string \<Rightarrow> ('w, 'k, unit) slot" where
  "box title = modifyS (\<lambda>a. a\<lparr>ap_boxes := ap_boxes a @ [title]\<rparr>)"

definition on_view :: "(view \<Rightarrow> view) \<Rightarrow> ('w, 'k, unit) slot" where
  "on_view f = modifyS (\<lambda>a. a\<lparr>ap_view := f (ap_view a)\<rparr>)"

definition set_status :: "string \<Rightarrow> ('w, 'k, unit) slot" where
  "set_status s = on_view (\<lambda>v. v\<lparr>vw_status := s\<rparr>)"

definition on_worker_state :: "('w worker \<Rightarrow> 'w worker) \<Rightarrow> ('w, 'k, unit) slot" where
  "on_worker_state f = modifyS (\<lambda>a. a\<lparr>ap_worker := map_option f (ap_worker a)\<rparr>)"

text \<open>A call of the client by the interface.\<close>

definition with_client :: "('w env \<Rightarrow> ('w, 'a) cmeth) \<Rightarrow> ('w, 'k) desktop \<Rightarrow> ('w, 'k, 'a) slot" where
  "with_client m D a =
     (case ap_worker a of None \<Rightarrow> (Inl AttributeError, a)
      | Some w \<Rightarrow> (let (r, d) = on_client (m (su_env (running D (ap_transport a)))) (wk_desk w) in (r, a\<lparr>ap_worker := Some (w\<lparr>wk_desk := d\<rparr>)\<rparr>)))"

definition store_settings :: "('w, 'k) desktop \<Rightarrow> ('w, 'k, unit) slot" where
  "store_settings D a =
     (if su_writable (de_platform D) (settings_path (de_dir D)) then (Inr (), a\<lparr>ap_settings_file := save_settings (ap_settings a)\<rparr>) else (Inl OSError, a))"

definition store_identity :: "('w, 'k) desktop \<Rightarrow> bytes \<Rightarrow> bytes \<Rightarrow> identity \<Rightarrow> string \<Rightarrow> ('w, 'k, unit) slot" where
  "store_identity D salt nonce i passphrase a =
     (if su_writable (de_platform D) (identity_path (de_dir D) ''identity'')
      then (Inr (), a\<lparr>ap_identity_file := save_identity (crypto_of D) (vault_of D) salt nonce i (if passphrase = [] then None else Some passphrase)\<rparr>)
      else (Inl OSError, a))"

subsection \<open>The client and its worker\<close>

text \<open>What the worker did is on disk: its database, the files it wrote, and the world outside.\<close>

definition settle :: "'w worker \<Rightarrow> ('w, 'k) app \<Rightarrow> ('w, 'k) app" where
  "settle w a =
     (let c = dk_client (wk_desk w) in
      a\<lparr>ap_database := c_store c, ap_files := dk_files (wk_desk w), ap_world := c_world c, ap_reads := c_reads c\<rparr>)"

definition current_store :: "('w, 'k) app \<Rightarrow> store" where
  "current_store a = (case ap_worker a of None \<Rightarrow> ap_database a | Some w \<Rightarrow> c_store (dk_client (wk_desk w)))"

text \<open>\<open>stop\<close> and \<open>wait(3000)\<close>: the thread makes some more turns.\<close>

definition stop_worker :: "('w, 'k) desktop \<Rightarrow> (int \<times> int) list \<Rightarrow> ('w, 'k, unit) slot" where
  "stop_worker D ts =
     modifyS (\<lambda>a. case ap_worker a of None \<Rightarrow> a
       | Some w \<Rightarrow> (let w' = foldl (act (running D (ap_transport a))) (stop w) (map Turn ts) in (settle w' a)\<lparr>ap_worker := None\<rparr>))"

text \<open>\<open>list(settings.relays)\<close>: a relay that is not a string is first used when it is stripped.\<close>

definition relays_of :: "gui_settings \<Rightarrow> string list res" where
  "relays_of s = bindE (py_iter (gs_relays s)) (mapE (\<lambda>r. case r of JStr u \<Rightarrow> Inr u | _ \<Rightarrow> Inl AttributeError))"

definition label_text :: "identity \<Rightarrow> string option" where
  "label_text i = (case label i of JStr s \<Rightarrow> Some s | _ \<Rightarrow> None)"

text \<open>The clock reading of \<open>register_identity\<close> counts like one of the client's.  An old client keeps running while the new one is built, on
  the same database.\<close>

definition put_store :: "store \<Rightarrow> ('w, 'k) app \<Rightarrow> ('w, 'k) app" where
  "put_store s a =
     (case ap_worker a of None \<Rightarrow> a\<lparr>ap_database := s\<rparr>
      | Some w \<Rightarrow> a\<lparr>ap_worker := Some (w\<lparr>wk_desk := (wk_desk w)\<lparr>dk_client := (dk_client (wk_desk w))\<lparr>c_store := s\<rparr>\<rparr>\<rparr>)\<rparr>)"

definition open_database :: "('w, 'k) desktop \<Rightarrow> key_random \<Rightarrow> int \<Rightarrow> identity \<Rightarrow> ('w, 'k, unit) slot" where
  "open_database D rnd now i a =
     (let iid = identity_id (crypto_of D) i;
          (r, ks) = resolve_store_key (crypto_of D) (vault_of D) (de_keyring D) (de_no_keyring D) rnd iid None (ap_keys a);
          a' = a\<lparr>ap_keys := ks\<rparr> in
      case r of Inl e \<Rightarrow> (Inl e, a')
      | Inr key \<Rightarrow>
         if length key \<noteq> LOCAL_KEY_SIZE then (Inl ValueError, a')
         else (let (q, s) = register_identity now iid (label i) (identity_path (de_dir D) ''identity'') (current_store a') in
          (q, put_store s a')))"

definition build_client :: "('w, 'k) desktop \<Rightarrow> key_random \<Rightarrow> int \<Rightarrow> identity \<Rightarrow> ('w, 'k, 'w client \<times> transport) slot" where
  "build_client D rnd now i =
     thenS (open_database D rnd now i)
     (bindS (getS id) (\<lambda>a.
      bindS (liftS (relays_of (ap_settings a))) (\<lambda>rs.
      bindS (liftS (build_transport (ap_settings a))) (\<lambda>T.
      bindS (liftS (make_client (su_env (running D T)) i (current_store a) rs (label_text i) DEFAULT_OPK_COUNT (ap_world a) (ap_reads a))) (\<lambda>c.
      returnS (c, T))))))"

text \<open>\<open>max(1, poll_seconds)\<close> compares numbers only; \<open>int(discovery_interval)\<close> also reads a text.\<close>

definition number :: "json \<Rightarrow> int res" where
  "number v = (case v of JInt n \<Rightarrow> Inr n | JBool b \<Rightarrow> Inr (if b then 1 else 0) | _ \<Rightarrow> Inl TypeError)"

definition provision_task :: task where
  "provision_task = \<lparr>tk_name = ''provision'', tk_command = DoProvision, tk_notice = None\<rparr>"

text \<open>The new worker takes over where the old one ended: same database, same files.\<close>

definition start_worker :: "('w, 'k) desktop \<Rightarrow> (int \<times> int) list \<Rightarrow> 'w client \<Rightarrow> transport \<Rightarrow> ('w, 'k, unit) slot" where
  "start_worker D ts c T =
     thenS (stop_worker D ts)
     (bindS (getS id) (\<lambda>a.
      bindS (liftS (number (gs_poll_seconds (ap_settings a)))) (\<lambda>p.
      bindS (liftS (py_int (gs_discovery_interval (ap_settings a)))) (\<lambda>n.
      modifyS (\<lambda>a. a\<lparr>ap_transport := T,
        ap_worker := Some (submit provision_task
          (make_worker \<lparr>dk_client = c\<lparr>c_store := ap_database a, c_world := ap_world a, c_reads := ap_reads a\<rparr>, dk_files = ap_files a\<rparr>
             p (truthy (gs_auto_discover (ap_settings a))) n))\<rparr>)))))"

subsection \<open>Rendering\<close>

definition render_chat :: "('w, 'k) desktop \<Rightarrow> ('w, 'k, unit) slot" where
  "render_chat D =
     bindS (getS id) (\<lambda>a.
     case ap_contact a of
       None \<Rightarrow> on_view (\<lambda>v. v\<lparr>vw_header := ''Select a contact'', vw_header_id := [], vw_chat := [], vw_attachments := []\<rparr>)
     | Some cid \<Rightarrow>
        bindS (with_client (\<lambda>E. getS (\<lambda>c. get_contact (account E c) cid (c_store c))) D) (\<lambda>ct.
        thenS (on_view (\<lambda>v. v\<lparr>vw_header := chat_header ct cid, vw_header_id := cid\<rparr>))
        (bindS (with_client (\<lambda>E. client_messages E cid) D) (\<lambda>ms.
         bindS (liftS (render_messages ms)) (\<lambda>(page, atts).
         on_view (\<lambda>v. v\<lparr>vw_chat := page, vw_attachments := atts\<rparr>))))))"

definition refresh :: "('w, 'k) desktop \<Rightarrow> ('w, 'k, unit) slot" where
  "refresh D =
     bindS (getS id) (\<lambda>a.
     if ap_worker a = None then returnS ()
     else bindS (with_client client_contacts D) (\<lambda>cs.
       bindS (with_client (\<lambda>E. getS (\<lambda>c ct. list_messages (account E c) (ct_id ct) (c_store c))) D) (\<lambda>f.
       thenS (on_view (\<lambda>v. v\<lparr>vw_rows := contact_rows cs f,
         vw_selected := (case ap_contact a of None \<Rightarrow> None | Some cid \<Rightarrow> row_of cid cs)\<rparr>))
       (render_chat D))))"

subsection \<open>Life of the client\<close>

text \<open>Where the readings of the outside world come from when a client is built: random bytes for the key, and the clock.\<close>

record fresh =
  fr_key :: key_random
  fr_now :: int
  fr_turns :: "(int \<times> int) list"

definition last_name_of :: "identity \<Rightarrow> json" where
  "last_name_of i = py_or (label i) (JStr [])"

definition build_or_report :: "('w, 'k) desktop \<Rightarrow> fresh \<Rightarrow> identity \<Rightarrow> string \<Rightarrow> ('w, 'k, ('w client \<times> transport) option) slot" where
  "build_or_report D fr i title =
     catchS (\<lambda>_. True) (mapR Some (build_client D (fr_key fr) (fr_now fr) i)) (thenS (box title) (returnS None))"

definition start_client :: "('w, 'k) desktop \<Rightarrow> fresh \<Rightarrow> identity \<Rightarrow> ('w, 'k, unit) slot" where
  "start_client D fr i =
     thenS (modifyS (\<lambda>a. a\<lparr>ap_identity := Some i\<rparr>))
     (bindS (getS (\<lambda>a. identity_is_encrypted (ap_identity_file a))) (\<lambda>r.
      bindS (liftS r) (\<lambda>enc.
      thenS (modifyS (\<lambda>a. a\<lparr>ap_encrypted := enc, ap_settings := (ap_settings a)\<lparr>gs_last_name := last_name_of i\<rparr>\<rparr>))
      (thenS (on_view (\<lambda>v. v\<lparr>vw_id := identity_id (crypto_of D) i\<rparr>))
      (thenS (store_settings D)
      (bindS (build_or_report D fr i ''Startup'') (\<lambda>built.
       case built of
         None \<Rightarrow> show_screen Welcome
       | Some (c, T) \<Rightarrow>
          thenS (start_worker D (fr_turns fr) c T)
          (thenS (show_screen MainScreen) (refresh D)))))))))"

definition restart_worker :: "('w, 'k) desktop \<Rightarrow> fresh \<Rightarrow> ('w, 'k, unit) slot" where
  "restart_worker D fr =
     bindS (getS id) (\<lambda>a.
     case (ap_worker a, ap_identity a) of
       (Some _, Some i) \<Rightarrow>
         bindS (build_or_report D fr i ''Settings'') (\<lambda>built.
         case built of None \<Rightarrow> returnS () | Some (c, T) \<Rightarrow> start_worker D (fr_turns fr) c T)
     | (Some _, None) \<Rightarrow> raiseS AttributeError
     | (None, _) \<Rightarrow> returnS ())"

definition teardown_client :: "('w, 'k) desktop \<Rightarrow> (int \<times> int) list \<Rightarrow> ('w, 'k, unit) slot" where
  "teardown_client D ts =
     thenS (stop_worker D ts)
     (modifyS (\<lambda>a. a\<lparr>ap_identity := None, ap_contact := None, ap_view := blank_view\<rparr>))"

definition prepare_unlock :: "bool \<Rightarrow> ('w, 'k, unit) slot" where
  "prepare_unlock enc = thenS (modifyS (\<lambda>a. a\<lparr>ap_prompt_passphrase := enc\<rparr>)) (show_screen UnlockScreen)"

definition lock :: "('w, 'k) desktop \<Rightarrow> (int \<times> int) list \<Rightarrow> ('w, 'k, unit) slot" where
  "lock D ts =
     bindS (getS id) (\<lambda>a.
     if ap_worker a = None then returnS ()
     else thenS (teardown_client D ts) (prepare_unlock (ap_encrypted a)))"

definition switch_identity :: "('w, 'k) desktop \<Rightarrow> bool \<Rightarrow> (int \<times> int) list \<Rightarrow> ('w, 'k, unit) slot" where
  "switch_identity D yes ts =
     (if \<not> yes then returnS ()
      else thenS (teardown_client D ts)
        (thenS (modifyS (\<lambda>a. a\<lparr>ap_pending := None, ap_pending_passphrase := []\<rparr>)) (show_screen Welcome)))"

subsection \<open>Onboarding\<close>

text \<open>An exception is recognised by its text: loading without a passphrase speaks of a passphrase when the vault is encrypted, or when its version,
  which is quoted, does.\<close>

fun mentions :: "string \<Rightarrow> string \<Rightarrow> bool" where
  "mentions pat [] = (pat = [])"
| "mentions pat (c # cs) = (take (length pat) (c # cs) = pat \<or> mentions pat cs)"

definition asks_passphrase :: "file_state \<Rightarrow> bool" where
  "asks_passphrase f =
     (case bindE (read_file f) loads_bytes of
        Inr (JObj d) \<Rightarrow>
          if json_is_int (map_of d ''v'') VAULT_VERSION then truthy (get_or d ''encrypted'' JNull)
          else mentions ''passphrase'' (map lower_char (py_str (get_or d ''v'' JNull)))
      | _ \<Rightarrow> False)"

definition bootstrap :: "('w, 'k) desktop \<Rightarrow> fresh \<Rightarrow> ('w, 'k, unit) slot" where
  "bootstrap D fr =
     bindS (getS ap_identity_file) (\<lambda>f.
     if f = Absent then show_screen Welcome
     else case load_identity (crypto_of D) (vault_of D) f None of
        Inr i \<Rightarrow> start_client D fr i
      | Inl e \<Rightarrow>
         if e \<noteq> IdentityError then raiseS e
         else if asks_passphrase f then bindS (liftS (identity_is_encrypted f)) prepare_unlock
         else thenS (box ''Identity'') (show_screen Welcome))"

text \<open>The words of a new identity are drawn by the library.\<close>

definition create_identity :: "('w, 'k) desktop \<Rightarrow> string \<Rightarrow> string \<Rightarrow> string \<Rightarrow> string \<Rightarrow> ('w, 'k, unit) slot" where
  "create_identity D words name passphrase again =
     (if passphrase \<noteq> again then box ''Passphrase''
      else let nm = strip name in
        bindS (liftS (generate (crypto_of D) (vault_of D) words (JStr (if nm = [] then ''me'' else nm)) (if passphrase = [] then None else Some passphrase))) (\<lambda>(i, mnemonic).
        thenS (modifyS (\<lambda>a. a\<lparr>ap_pending := Some i, ap_pending_passphrase := passphrase, ap_seed_words := mnemonic, ap_acknowledged := False\<rparr>))
        (show_screen SeedScreen)))"

text \<open>The button is enabled by the check box.\<close>

definition confirm_seed :: "('w, 'k) desktop \<Rightarrow> bytes \<Rightarrow> bytes \<Rightarrow> fresh \<Rightarrow> ('w, 'k, unit) slot" where
  "confirm_seed D salt nonce fr =
     bindS (getS id) (\<lambda>a.
     if \<not> ap_acknowledged a then returnS ()
     else case ap_pending a of None \<Rightarrow> returnS ()
      | Some i \<Rightarrow> thenS (store_identity D salt nonce i (ap_pending_passphrase a)) (start_client D fr i))"

definition recover_identity :: "('w, 'k) desktop \<Rightarrow> bytes \<Rightarrow> bytes \<Rightarrow> fresh \<Rightarrow> string \<Rightarrow> string \<Rightarrow> string \<Rightarrow> ('w, 'k, unit) slot" where
  "recover_identity D salt nonce fr mnemonic name passphrase =
     (let nm = strip name in
      case from_mnemonic (crypto_of D) (vault_of D) (strip mnemonic) (if passphrase = [] then None else Some passphrase)
             (JStr (if nm = [] then ''recovered'' else nm)) of
        Inl e \<Rightarrow> if e = IdentityError then box ''Recover'' else raiseS e
      | Inr i \<Rightarrow> thenS (store_identity D salt nonce i passphrase) (start_client D fr i))"

definition unlock :: "('w, 'k) desktop \<Rightarrow> fresh \<Rightarrow> string \<Rightarrow> ('w, 'k, unit) slot" where
  "unlock D fr passphrase =
     bindS (getS ap_identity_file) (\<lambda>f.
     case load_identity (crypto_of D) (vault_of D) f (Some passphrase) of
       Inl e \<Rightarrow> if e = IdentityError then box ''Unlock'' else raiseS e
     | Inr i \<Rightarrow> start_client D fr i)"

subsection \<open>Settings\<close>

definition accept_settings :: "('w, 'k) desktop \<Rightarrow> fresh \<Rightarrow> dialog \<Rightarrow> ('w, 'k, unit) slot" where
  "accept_settings D fr w =
     thenS (modifyS (\<lambda>a. a\<lparr>ap_settings := apply_to w (ap_settings a)\<rparr>))
     (thenS (store_settings D) (thenS (restart_worker D fr) (refresh D)))"

definition relays_changed :: "('w, 'k) desktop \<Rightarrow> string list \<Rightarrow> ('w, 'k, unit) slot" where
  "relays_changed D rs =
     bindS (getS id) (\<lambda>a.
     if rs = [] \<or> JArr (map JStr rs) = gs_relays (ap_settings a) then returnS ()
     else thenS (modifyS (\<lambda>a. a\<lparr>ap_settings := (ap_settings a)\<lparr>gs_relays := JArr (map JStr rs)\<rparr>\<rparr>))
       (thenS (store_settings D) (set_status (''online'' @ DOT @ show_int (int (length rs)) @ '' relays''))))"

subsection \<open>Actions\<close>

definition give_task :: "string \<Rightarrow> command \<Rightarrow> notice option \<Rightarrow> ('w, 'k, unit) slot" where
  "give_task name cmd n = on_worker_state (submit \<lparr>tk_name = name, tk_command = cmd, tk_notice = n\<rparr>)"

definition when_running :: "('w, 'k, unit) slot \<Rightarrow> ('w, 'k, unit) slot" where
  "when_running m = bindS (getS ap_worker) (\<lambda>w. if w = None then returnS () else m)"

definition show_my_card :: "('w, 'k) desktop \<Rightarrow> ('w, 'k, string option) slot" where
  "show_my_card D =
     bindS (getS ap_worker) (\<lambda>w. if w = None then returnS None
     else catchS (\<lambda>_. True) (mapR Some (with_client card_string D)) (thenS (box ''Card'') (returnS None)))"

text \<open>The lines of the dialog: one per device, and one per request.\<close>

definition show_devices :: "('w, 'k) desktop \<Rightarrow> int \<Rightarrow> ('w, 'k, string list) slot" where
  "show_devices D now =
     bindS (getS ap_worker) (\<lambda>w. if w = None then returnS []
     else bindS (catchS (\<lambda>_. True) (mapR Some (with_client client_devices D)) (thenS (box ''Devices'') (returnS None))) (\<lambda>r.
       case r of None \<Rightarrow> returnS []
       | Some ds \<Rightarrow>
          bindS (with_client (\<lambda>E. getS c_device_id) D) (\<lambda>here.
          bindS (with_client sync_status D) (\<lambda>st.
          bindS (with_client history_requests D) (\<lambda>rs.
          bindS (liftS (mapE (device_label here st) ds)) (\<lambda>ls.
          bindS (liftS (mapE (request_label now) rs)) (\<lambda>qs. returnS (ls @ qs))))))))"

definition note_pending_requests :: "('w, 'k) desktop \<Rightarrow> ('w, 'k, unit) slot" where
  "note_pending_requests D =
     when_running
      (bindS (catchS (\<lambda>_. True) (mapR Some (with_client history_requests D)) (returnS None)) (\<lambda>r.
       case r of None \<Rightarrow> returnS ()
       | Some pending \<Rightarrow> bindS (getS (\<lambda>a. note_requests (ap_notified a) pending)) (\<lambda>(seen, line).
           thenS (modifyS (\<lambda>a. a\<lparr>ap_notified := seen\<rparr>)) (case line of None \<Rightarrow> returnS () | Some s \<Rightarrow> set_status s))))"

definition request_history_clicked :: "int \<Rightarrow> string option \<Rightarrow> ('w, 'k, unit) slot" where
  "request_history_clicked now choice =
     when_running (bindS (liftS (ask_range now choice)) (\<lambda>r.
       case r of Cancelled \<Rightarrow> returnS ()
       | Since since \<Rightarrow> thenS (set_status (''asking your other devices'' @ [CHR 0xE2, CHR 0x80, CHR 0xA6]))
           (give_task ''request_history'' (DoRequestHistory since) (Some (HistoryDone ''request'')))))"

definition approve_clicked :: "string \<Rightarrow> int option \<Rightarrow> ('w, 'k, unit) slot" where
  "approve_clicked dev since =
     when_running (thenS (set_status (''sending history'' @ [CHR 0xE2, CHR 0x80, CHR 0xA6]))
       (give_task ''approve_history'' (DoApproveHistory dev since) (Some (HistoryDone ''approve''))))"

definition deny_clicked :: "('w, 'k) desktop \<Rightarrow> string \<Rightarrow> ('w, 'k, unit) slot" where
  "deny_clicked D dev = when_running (thenS (with_client (\<lambda>E. deny_history E dev) D) (set_status ''request denied''))"

definition export_clicked :: "int \<Rightarrow> string option \<Rightarrow> string \<Rightarrow> string \<Rightarrow> ('w, 'k, unit) slot" where
  "export_clicked now choice passphrase path =
     when_running (bindS (liftS (ask_range now choice)) (\<lambda>r.
       case r of Cancelled \<Rightarrow> returnS ()
       | Since since \<Rightarrow>
          if passphrase = [] \<or> path = [] then returnS ()
          else thenS (set_status (''exporting history'' @ [CHR 0xE2, CHR 0x80, CHR 0xA6]))
            (give_task ''export_history'' (DoExport path passphrase since) (Some (HistoryDone ''export'')))))"

definition the_files :: "('w, 'k) app \<Rightarrow> string \<Rightarrow> file_state" where
  "the_files a = (case ap_worker a of None \<Rightarrow> ap_files a | Some w \<Rightarrow> dk_files (wk_desk w))"

text \<open>The preview reads the counts of the file before anything is asked.\<close>

definition preview_counts :: "file_state \<Rightarrow> json res" where
  "preview_counts f =
     bindE (bindE (read_file f) read_export_header) (\<lambda>h. getitem h ''counts'')"

definition import_clicked :: "string \<Rightarrow> bool \<Rightarrow> string \<Rightarrow> ('w, 'k, unit) slot" where
  "import_clicked path yes passphrase =
     when_running (if path = [] then returnS ()
       else bindS (getS (\<lambda>a. the_files a path)) (\<lambda>f.
         case bindE (read_file f) read_export_header of
           Inl e \<Rightarrow> box ''Import history''
         | Inr h \<Rightarrow>
            bindS (liftS (bindE (preview_counts f) (\<lambda>n. mapE (getitem n) [''messages'', ''contacts'', ''chunks'', ''skipped'']))) (\<lambda>_.
            if \<not> yes \<or> passphrase = [] then returnS ()
            else thenS (set_status (''importing history'' @ [CHR 0xE2, CHR 0x80, CHR 0xA6]))
              (give_task ''import_history'' (DoImport path passphrase) (Some (HistoryDone ''import''))))))"

definition copy_identity_id :: "('w, 'k) desktop \<Rightarrow> ('w, 'k, string option) slot" where
  "copy_identity_id D =
     bindS (getS ap_identity) (\<lambda>i. case i of None \<Rightarrow> returnS None
     | Some x \<Rightarrow> thenS (set_status ''ID copied to clipboard'') (returnS (Some (identity_id (crypto_of D) x))))"

definition add_contact_accepted :: "('w, 'k) desktop \<Rightarrow> string \<Rightarrow> string \<Rightarrow> ('w, 'k, unit) slot" where
  "add_contact_accepted D card_text nickname =
     when_running
      (bindS (catchS (\<lambda>_. True)
         (mapR (\<lambda>_. True) (with_client (\<lambda>E. add_contact E (strip card_text) (if strip nickname = [] then JNull else JStr (strip nickname))) D))
         (thenS (box ''Add contact'') (returnS False))) (\<lambda>ok.
       if ok then refresh D else returnS ()))"

definition mark_read_tasks :: "string \<Rightarrow> message list \<Rightarrow> 'w worker \<Rightarrow> 'w worker" where
  "mark_read_tasks cid ms w =
     foldl (\<lambda>w m. submit \<lparr>tk_name = ''mark_read'', tk_command = DoMarkRead cid (msg_id m), tk_notice = None\<rparr> w) w
       (filter (\<lambda>m. msg_direction m = JStr ''received'' \<and> msg_state m = JStr ''received'') ms)"

definition select_contact :: "('w, 'k) desktop \<Rightarrow> int \<Rightarrow> ('w, 'k, unit) slot" where
  "select_contact D k =
     bindS (getS ap_worker) (\<lambda>w.
     bindS (if w = None then returnS [] else with_client client_contacts D) (\<lambda>cs.
     if k < 0 \<or> int (length cs) \<le> k then modifyS (\<lambda>a. a\<lparr>ap_contact := None\<rparr>)
     else let cid = ct_id (cs ! nat k) in
       thenS (modifyS (\<lambda>a. a\<lparr>ap_contact := Some cid\<rparr>))
       (thenS (refresh D)
       (when_running (bindS (with_client (\<lambda>E. client_messages E cid) D) (\<lambda>ms. on_worker_state (mark_read_tasks cid ms)))))))"

definition send_text_clicked :: "('w, 'k) desktop \<Rightarrow> ('w, 'k, unit) slot" where
  "send_text_clicked D =
     bindS (getS id) (\<lambda>a.
     let s = strip (vw_input (ap_view a)) in
     case ap_contact a of None \<Rightarrow> returnS ()
     | Some cid \<Rightarrow>
        if s = [] \<or> ap_worker a = None then returnS ()
        else thenS (on_view (\<lambda>v. v\<lparr>vw_input := []\<rparr>))
          (thenS (give_task ''send_text'' (DoSendText cid s) None) (refresh D)))"

definition send_file_clicked :: "('w, 'k) desktop \<Rightarrow> string \<Rightarrow> ('w, 'k, unit) slot" where
  "send_file_clicked D path =
     bindS (getS id) (\<lambda>a.
     case ap_contact a of None \<Rightarrow> returnS ()
     | Some cid \<Rightarrow>
        if ap_worker a = None \<or> path = [] then returnS ()
        else thenS (give_task ''send_file'' (DoSendFile cid path) None) (refresh D))"

definition download_clicked :: "nat \<Rightarrow> ('w, 'k, unit) slot" where
  "download_clicked k =
     bindS (getS id) (\<lambda>a.
     if k < length (vw_attachments (ap_view a)) then
       (let (m, name) = vw_attachments (ap_view a) ! k in
        when_running (give_task ''download_attachment'' (DoDownload m) (Some (AttachmentReady name))))
     else returnS ())"

definition write_user_file :: "('w, 'k) desktop \<Rightarrow> string \<Rightarrow> bytes \<Rightarrow> ('w, 'k, unit) slot" where
  "write_user_file D path data a =
     (case ap_worker a of
        Some w \<Rightarrow> (let (r, d) = write_file (de_platform D) path data (wk_desk w) in (r, a\<lparr>ap_worker := Some (w\<lparr>wk_desk := d\<rparr>)\<rparr>))
      | None \<Rightarrow> if su_writable (de_platform D) path then (Inr (), a\<lparr>ap_files := (ap_files a)(path := Content data)\<rparr>) else (Inl OSError, a))"

definition save_attachment :: "('w, 'k) desktop \<Rightarrow> outcome \<Rightarrow> string \<Rightarrow> ('w, 'k, unit) slot" where
  "save_attachment D r path =
     (case r of GotData data \<Rightarrow>
        if data = [] \<or> path = [] then returnS () else thenS (write_user_file D path data) (box ''Saved'')
      | _ \<Rightarrow> returnS ())"

text \<open>The kind says which command has finished.\<close>

definition history_finished :: "('w, 'k) desktop \<Rightarrow> string \<Rightarrow> outcome \<Rightarrow> ('w, 'k, unit) slot" where
  "history_finished D kind r =
     (if r = Nothing then set_status ''offline''
      else if kind = ''request'' then
        (case r of GotDevices asked \<Rightarrow>
           if asked \<noteq> [] then
             thenS (set_status (''asked '' @ show_int (int (length asked)) @ '' device(s) '' @ [CHR 0xE2, CHR 0x80, CHR 0x94] @ '' approve the request there''))
               (box ''History requested'')
           else set_status ''no other device could be asked''
         | _ \<Rightarrow> raiseS TypeError)
      else if kind = ''approve'' then
        (case r of GotApproved (_, _, items, _) \<Rightarrow> thenS (set_status (''sent '' @ show_int items @ '' item(s)'')) (thenS (box ''History approved'') (refresh D))
         | _ \<Rightarrow> raiseS TypeError)
      else if kind = ''export'' then
        (case r of GotExport path _ _ \<Rightarrow> thenS (set_status (''exported to '' @ base_name path)) (box ''Export history'') | _ \<Rightarrow> raiseS TypeError)
      else
        (case r of GotCounts c \<Rightarrow>
           thenS (set_status (''imported '' @ show_int (n_messages c) @ '' message(s)'')) (thenS (box ''Import history'') (refresh D))
         | _ \<Rightarrow> raiseS TypeError))"

definition first_chars :: "nat \<Rightarrow> string \<Rightarrow> string" where
  "first_chars n s = concat (take n (code_points s))"

text \<open>A signal of the worker arrives; a file that was downloaded is saved where the user says.\<close>

definition on_signal :: "('w, 'k) desktop \<Rightarrow> event \<Rightarrow> string \<Rightarrow> ('w, 'k, unit) slot" where
  "on_signal D e path =
     (case e of
        Received _ \<Rightarrow> refresh D
      | StatusChanged s \<Rightarrow> set_status s
      | Failed x \<Rightarrow> set_status (''offline: '' @ first_chars 60 (de_error_text D x))
      | DiscoveryFailed x \<Rightarrow> set_status (''offline: '' @ first_chars 60 (''relay discovery: '' @ de_error_text D x))
      | TaskFinished _ _ \<Rightarrow> thenS (refresh D) (note_pending_requests D)
      | RelaysChanged rs \<Rightarrow> relays_changed D rs
      | Notified (HistoryDone kind) r \<Rightarrow> history_finished D kind r
      | Notified (AttachmentReady _) r \<Rightarrow> save_attachment D r path)"

subsection \<open>The process\<close>

text \<open>What the user does, a turn of the worker's thread, and a signal that arrives.  A button can only be pressed on its screen; the shortcut for
  locking works everywhere.\<close>

datatype app_op =
    ShowCreate | ShowRecover | Back
  | Create string string string string | Acknowledge bool | ConfirmSeed bytes bytes fresh
  | RecoverNow bytes bytes fresh string string string | UnlockNow fresh string
  | LockNow "(int \<times> int) list" | SwitchNow bool "(int \<times> int) list" | CloseWindow "(int \<times> int) list"
  | AcceptSettings fresh dialog | TypeText string
  | ShowCard | ShowDevices int | CopyId | AddContactNow string string | SelectRow int
  | SendTextNow | SendFileNow string | DownloadNow nat
  | RequestNow int "string option" | ApproveNow string "int option" | DenyNow string
  | ExportNow int "string option" string string | ImportNow string bool string
  | Signal event string | WorkerTurn "int \<times> int"

definition on_screen :: "screen list \<Rightarrow> ('w, 'k, unit) slot \<Rightarrow> ('w, 'k, unit) slot" where
  "on_screen ss m = bindS (getS ap_screen) (\<lambda>s. if s \<in> set ss then m else returnS ())"

definition worker_turn :: "('w, 'k) desktop \<Rightarrow> int \<times> int \<Rightarrow> ('w, 'k, unit) slot" where
  "worker_turn D t = modifyS (\<lambda>a. a\<lparr>ap_worker := map_option (turn (running D (ap_transport a)) t) (ap_worker a)\<rparr>)"

fun app_step :: "('w, 'k) desktop \<Rightarrow> app_op \<Rightarrow> ('w, 'k, unit) slot" where
  "app_step D ShowCreate = on_screen [Welcome] (show_screen CreateScreen)"
| "app_step D ShowRecover = on_screen [Welcome] (show_screen RecoverScreen)"
| "app_step D Back = on_screen [CreateScreen, RecoverScreen] (show_screen Welcome)"
| "app_step D (Create words name passphrase again) = on_screen [CreateScreen] (create_identity D words name passphrase again)"
| "app_step D (Acknowledge b) = on_screen [SeedScreen] (modifyS (\<lambda>a. a\<lparr>ap_acknowledged := b\<rparr>))"
| "app_step D (ConfirmSeed salt nonce fr) = on_screen [SeedScreen] (confirm_seed D salt nonce fr)"
| "app_step D (RecoverNow salt nonce fr mnemonic name passphrase) = on_screen [RecoverScreen] (recover_identity D salt nonce fr mnemonic name passphrase)"
| "app_step D (UnlockNow fr passphrase) = on_screen [UnlockScreen] (unlock D fr passphrase)"
| "app_step D (LockNow ts) = lock D ts"
| "app_step D (SwitchNow yes ts) = on_screen [UnlockScreen] (switch_identity D yes ts)"
| "app_step D (CloseWindow ts) = teardown_client D ts"
| "app_step D (AcceptSettings fr w) = on_screen [MainScreen] (accept_settings D fr w)"
| "app_step D (TypeText s) = on_screen [MainScreen] (on_view (\<lambda>v. v\<lparr>vw_input := s\<rparr>))"
| "app_step D ShowCard = on_screen [MainScreen] (mapR (\<lambda>_. ()) (show_my_card D))"
| "app_step D (ShowDevices now) = on_screen [MainScreen] (mapR (\<lambda>_. ()) (show_devices D now))"
| "app_step D CopyId = on_screen [MainScreen] (mapR (\<lambda>_. ()) (copy_identity_id D))"
| "app_step D (AddContactNow card_text nickname) = on_screen [MainScreen] (add_contact_accepted D card_text nickname)"
| "app_step D (SelectRow k) = on_screen [MainScreen] (select_contact D k)"
| "app_step D SendTextNow = on_screen [MainScreen] (send_text_clicked D)"
| "app_step D (SendFileNow path) = on_screen [MainScreen] (send_file_clicked D path)"
| "app_step D (DownloadNow k) = on_screen [MainScreen] (download_clicked k)"
| "app_step D (RequestNow now choice) = on_screen [MainScreen] (request_history_clicked now choice)"
| "app_step D (ApproveNow dev since) = on_screen [MainScreen] (approve_clicked dev since)"
| "app_step D (DenyNow dev) = on_screen [MainScreen] (deny_clicked D dev)"
| "app_step D (ExportNow now choice passphrase path) = on_screen [MainScreen] (export_clicked now choice passphrase path)"
| "app_step D (ImportNow path yes passphrase) = on_screen [MainScreen] (import_clicked path yes passphrase)"
| "app_step D (Signal e path) = on_signal D e path"
| "app_step D (WorkerTurn t) = worker_turn D t"

text \<open>Starting the program on what is on disk.\<close>

definition opened :: "gui_settings \<Rightarrow> ('w, 'k) app \<Rightarrow> ('w, 'k) app" where
  "opened s a = a\<lparr>ap_settings := s, ap_identity := None, ap_worker := None, ap_contact := None, ap_pending := None, ap_pending_passphrase := [],
     ap_encrypted := False, ap_notified := {}, ap_screen := Welcome, ap_view := blank_view, ap_seed_words := [], ap_acknowledged := False,
     ap_prompt_passphrase := True, ap_boxes := []\<rparr>"

text \<open>When the process ends, the database is as the client left it.\<close>

definition closed_app :: "('w, 'k) app \<Rightarrow> ('w, 'k) app" where
  "closed_app a = (case ap_worker a of None \<Rightarrow> a | Some w \<Rightarrow> settle w a)"

definition launch :: "('w, 'k) desktop \<Rightarrow> fresh \<Rightarrow> ('w, 'k) app \<Rightarrow> unit res \<times> ('w, 'k) app" where
  "launch D fr disk =
     (case load_settings (de_environ D) (ap_settings_file disk) of
        Inl e \<Rightarrow> (Inl e, disk)
      | Inr s \<Rightarrow> bootstrap D fr (opened s (closed_app disk)))"

definition dialog_ok :: "dialog \<Rightarrow> bool" where
  "dialog_ok w \<longleftrightarrow> list_all str_ok (map strip (splitlines (dlg_relays w))) \<and> str_ok (strip (dlg_proxy_url w))"

text \<open>What a user types and what relays call themselves is text.\<close>

definition op_ok :: "app_op \<Rightarrow> bool" where
  "op_ok p = (case p of
     Create _ name _ _ \<Rightarrow> str_ok (strip name) | RecoverNow _ _ _ _ name _ \<Rightarrow> str_ok (strip name)
   | AcceptSettings _ w \<Rightarrow> dialog_ok w | Signal (RelaysChanged rs) _ \<Rightarrow> list_all str_ok rs | _ \<Rightarrow> True)"

text \<open>The states of the program, over any number of runs on one disk.\<close>

inductive reached :: "('w, 'k) desktop \<Rightarrow> ('w, 'k) app \<Rightarrow> ('w, 'k) app \<Rightarrow> bool" for D disk where
  launched: "launch D fr disk = (Inr (), a) \<Longrightarrow> reached D disk a"
| relaunched: "reached D disk a \<Longrightarrow> launch D fr a = (Inr (), b) \<Longrightarrow> reached D disk b"
| stepped: "reached D disk a \<Longrightarrow> op_ok p \<Longrightarrow> app_step D p a = (Inr (), b) \<Longrightarrow> reached D disk b"
| crashed: "reached D disk a \<Longrightarrow> op_ok p \<Longrightarrow> app_step D p a = (Inl e, b) \<Longrightarrow> launch D fr b = (Inr (), c) \<Longrightarrow> reached D disk c"

subsection \<open>What the client's slots leave alone\<close>

text \<open>Everything that uses the client or builds one leaves the settings, the pending identity and the identity file as they are.\<close>

definition same_papers :: "('w, 'k) app \<Rightarrow> ('w, 'k) app \<Rightarrow> bool" where
  "same_papers a b \<longleftrightarrow> ap_settings b = ap_settings a \<and> ap_pending b = ap_pending a \<and> ap_identity_file b = ap_identity_file a
     \<and> ap_settings_file b = ap_settings_file a"

interpretation papers: method_relation same_papers
  by unfold_locales (auto simp: same_papers_def)

lemma looking_changes_nothing: "snd (with_client (\<lambda>E. getS (f E)) D a) = a"
  by (cases "ap_worker a") (simp_all add: with_client_def on_client_def getS_def)

text \<open>The basic steps, for any relation that they keep.\<close>

locale slot_relation = method_relation R for R :: "('w, 'k) app \<Rightarrow> ('w, 'k) app \<Rightarrow> bool" +
  fixes D :: "('w, 'k) desktop"
  assumes R_screen: "R a (a\<lparr>ap_screen := s\<rparr>)" and R_box: "R a (a\<lparr>ap_boxes := bs\<rparr>)" and R_view: "R a (a\<lparr>ap_view := v\<rparr>)"
    and R_contact: "R a (a\<lparr>ap_contact := cid\<rparr>)" and R_notified: "R a (a\<lparr>ap_notified := ns\<rparr>)"
    and R_task: "R a (a\<lparr>ap_worker := map_option (submit t) (ap_worker a)\<rparr>)"
    and R_tasks: "R a (a\<lparr>ap_worker := map_option (mark_read_tasks cd ms) (ap_worker a)\<rparr>)"
begin

lemma keeps_looking: "keeps R (with_client (\<lambda>E. getS (f E)) D)"
  by (simp add: keeps_def looking_changes_nothing R_refl)

lemma keeps_small: "keeps R (show_screen s)" "keeps R (box title)" "keeps R (on_view f)" "keeps R (set_status st)"
  "keeps R (give_task name cmd n)" "keeps R (on_worker_state (mark_read_tasks cd ms))"
  by (simp_all add: keeps_def show_screen_def box_def on_view_def set_status_def modifyS_def give_task_def on_worker_state_def R_screen R_box R_view R_task R_tasks)

lemma keeps_modified: "keeps R (modifyS (\<lambda>a. a\<lparr>ap_contact := f a\<rparr>))" "keeps R (modifyS (\<lambda>a. a\<lparr>ap_notified := g a\<rparr>))"
  by (simp_all add: keeps_def modifyS_def R_contact R_notified)

lemma keeps_reading: "keeps R (with_client client_contacts D)" "keeps R (with_client (\<lambda>E. client_messages E cid) D)"
proof -
  show "keeps R (with_client client_contacts D)" using keeps_looking [of "\<lambda>E c. list_contacts (account E c) (c_store c)"]
    by (simp add: client_contacts_def [abs_def])
  show "keeps R (with_client (\<lambda>E. client_messages E cid) D)" using keeps_looking [of "\<lambda>E c. list_messages (account E c) cid (c_store c)"]
    by (simp add: client_messages_def)
qed

lemmas slot_intros = keeps_intros keeps_small keeps_modified keeps_looking keeps_reading

lemma keeps_render_chat: "keeps R (render_chat D)"
  unfolding render_chat_def by (intro slot_intros)

lemma keeps_refresh: "keeps R (refresh D)"
  unfolding refresh_def by (intro slot_intros keeps_render_chat)

lemma keeps_when_running: "keeps R m \<Longrightarrow> keeps R (when_running m)"
  unfolding when_running_def by (intro slot_intros)

lemma keeps_on_screen: "keeps R m \<Longrightarrow> keeps R (on_screen ss m)"
  unfolding on_screen_def by (intro slot_intros)

lemma keeps_mapped: "keeps R m \<Longrightarrow> keeps R (mapR f m)"
  unfolding mapR_def by (intro slot_intros)

lemma keeps_case_range: "(\<And>x. r = Since x \<Longrightarrow> keeps R (f x)) \<Longrightarrow> keeps R m \<Longrightarrow> keeps R (case r of Cancelled \<Rightarrow> m | Since x \<Rightarrow> f x)"
  by (cases r) auto

text \<open>Slots that at most look something up in the client, or hand a task to the worker.\<close>

lemma keeps_task_slots:
  "keeps R (request_history_clicked now choice)" "keeps R (approve_clicked dev since)" "keeps R (export_clicked now choice passphrase path)"
  "keeps R (import_clicked path yes passphrase)" "keeps R (select_contact D k)" "keeps R (send_text_clicked D)" "keeps R (send_file_clicked D path)"
  "keeps R (download_clicked j)" "keeps R (copy_identity_id D)"
proof -
  show "keeps R (request_history_clicked now choice)" "keeps R (approve_clicked dev since)" "keeps R (export_clicked now choice passphrase path)"
    unfolding request_history_clicked_def approve_clicked_def export_clicked_def by (intro keeps_when_running slot_intros keeps_case_range)+
  show "keeps R (import_clicked path yes passphrase)"
    unfolding import_clicked_def by (intro keeps_when_running slot_intros) (auto intro!: slot_intros split: sum.split)
  show "keeps R (select_contact D k)"
    unfolding select_contact_def Let_def by (intro slot_intros keeps_refresh keeps_when_running)
  show "keeps R (send_text_clicked D)" "keeps R (send_file_clicked D path)"
    unfolding send_text_clicked_def send_file_clicked_def Let_def by (intro slot_intros keeps_refresh)+
  show "keeps R (download_clicked j)" "keeps R (copy_identity_id D)"
    unfolding download_clicked_def copy_identity_id_def Let_def by (intro slot_intros keeps_when_running)+
qed

lemma keeps_history_finished: "keeps R (history_finished D kind r)"
  unfolding history_finished_def
  by (intro slot_intros) (auto intro!: slot_intros keeps_refresh split: outcome.split)

end

text \<open>Slots that also run the client, for a relation that those calls keep.\<close>

locale calling_relation = slot_relation +
  assumes R_calls: "keeps R (with_client card_string D)" "keeps R (with_client client_devices D)" "keeps R (with_client sync_status D)"
      "keeps R (with_client history_requests D)" "keeps R (with_client (\<lambda>E. deny_history E dev) D)" "keeps R (with_client (\<lambda>E. add_contact E txt nick) D)"
    and R_file: "keeps R (write_user_file D path data)"
begin

lemma keeps_calls:
  "keeps R (show_my_card D)" "keeps R (show_devices D now)" "keeps R (note_pending_requests D)" "keeps R (deny_clicked D dev)"
  "keeps R (add_contact_accepted D card_text nickname)" "keeps R (save_attachment D r path)"
proof -
  show "keeps R (show_my_card D)" "keeps R (show_devices D now)"
    unfolding show_my_card_def show_devices_def by (intro slot_intros keeps_mapped R_calls)+
  show "keeps R (note_pending_requests D)" "keeps R (deny_clicked D dev)" "keeps R (add_contact_accepted D card_text nickname)"
    unfolding note_pending_requests_def deny_clicked_def add_contact_accepted_def by (intro keeps_when_running slot_intros keeps_mapped R_calls keeps_refresh)+
  show "keeps R (save_attachment D r path)"
    unfolding save_attachment_def by (cases r) (auto intro!: slot_intros R_file)
qed

lemma keeps_signal:
  assumes "\<And>rs. keeps R (relays_changed D rs)"
  shows "keeps R (on_signal D e path)"
  unfolding on_signal_def
  by (cases e) (auto intro!: slot_intros keeps_refresh assms keeps_calls keeps_history_finished split: notice.split)

end

lemma with_client_frame: "\<exists>w. snd (with_client m D a) = a\<lparr>ap_worker := w\<rparr>"
proof (cases "ap_worker a")
  case None
  then show ?thesis by (intro exI [of _ None]) (simp add: with_client_def)
qed (auto simp: with_client_def split_beta Let_def)

lemma papers_with_client: "keeps same_papers (with_client m D)"
proof (rule keepsI)
  fix a :: "('a, 'b) app"
  obtain w where "snd (with_client m D a) = a\<lparr>ap_worker := w\<rparr>" using with_client_frame by blast
  then show "same_papers a (snd (with_client m D a))" by (simp add: same_papers_def)
qed

lemma papers_user_file: "keeps same_papers (write_user_file D path data)"
  by (simp add: keeps_def write_user_file_def same_papers_def split_beta Let_def split: option.split)

interpretation papers: calling_relation same_papers D for D
  by unfold_locales (simp_all add: same_papers_def papers_with_client papers_user_file)

lemma put_store_frame [simp]: "ap_settings (put_store s a) = ap_settings a" "ap_pending (put_store s a) = ap_pending a"
  "ap_identity_file (put_store s a) = ap_identity_file a" "ap_settings_file (put_store s a) = ap_settings_file a"
  "current_store (put_store s a) = s" "ap_identity (put_store s a) = ap_identity a" "ap_world (put_store s a) = ap_world a"
  "ap_worker (put_store s a) = None \<longleftrightarrow> ap_worker a = None"
  by (simp_all add: put_store_def current_store_def split: option.split)

lemma papers_stop_worker: "keeps same_papers (stop_worker D ts)"
  by (simp add: keeps_def stop_worker_def modifyS_def same_papers_def settle_def Let_def split: option.split)

lemma papers_open_database: "keeps same_papers (open_database D rnd now i)"
  by (simp add: keeps_def open_database_def same_papers_def split_beta Let_def split: sum.split)

lemma papers_build: "keeps same_papers (build_client D rnd now i)" "keeps same_papers (build_or_report D fr i title)"
proof -
  show b: "keeps same_papers (build_client D rnd now i)" for rnd now
    unfolding build_client_def by (intro papers.slot_intros papers_open_database)
  show "keeps same_papers (build_or_report D fr i title)"
    unfolding build_or_report_def by (intro papers.slot_intros papers.keeps_mapped b)
qed

lemma papers_start_worker: "keeps same_papers (start_worker D ts c T)"
  unfolding start_worker_def
  by (intro papers.slot_intros papers_stop_worker) (simp add: keeps_def modifyS_def same_papers_def)

lemma papers_teardown: "keeps same_papers (teardown_client D ts)"
  unfolding teardown_client_def
  by (intro papers.slot_intros papers_stop_worker) (simp add: keeps_def modifyS_def same_papers_def)

lemma papers_restart: "keeps same_papers (restart_worker D fr)"
  unfolding restart_worker_def
  by (intro papers.slot_intros) (auto intro!: papers.slot_intros papers_build papers_start_worker split: option.split)

lemma papers_lock: "keeps same_papers (lock D ts)"
  unfolding lock_def prepare_unlock_def
  by (intro papers.slot_intros papers_teardown) (simp add: keeps_def modifyS_def same_papers_def)

subsection \<open>Settings keep their types\<close>

definition label_ok :: "identity \<Rightarrow> bool" where
  "label_ok i \<longleftrightarrow> label i = JNull \<or> jtext (label i)"

text \<open>Whatever passphrase opens the file, the label is a text or missing.\<close>

definition file_labels :: "('w, 'k) desktop \<Rightarrow> file_state \<Rightarrow> bool" where
  "file_labels D f \<longleftrightarrow> (\<forall>p i. load_identity (crypto_of D) (vault_of D) f p = Inr i \<longrightarrow> label_ok i)"

text \<open>The settings in memory have the types that the dataclass declares, and so have those that the file gives when it can be read.\<close>

definition file_typed :: "environ \<Rightarrow> file_state \<Rightarrow> bool" where
  "file_typed env f \<longleftrightarrow> (\<forall>s. load_settings env f = Inr s \<longrightarrow> settings_typed s)"

definition typed_app :: "('w, 'k) desktop \<Rightarrow> ('w, 'k) app \<Rightarrow> bool" where
  "typed_app D a \<longleftrightarrow> settings_typed (ap_settings a) \<and> file_typed (de_environ D) (ap_settings_file a)
     \<and> (\<forall>i. ap_pending a = Some i \<longrightarrow> label_ok i) \<and> file_labels D (ap_identity_file a)"

lemma saved_typed: "settings_typed s \<Longrightarrow> file_typed env (save_settings s)"
  by (simp add: file_typed_def settings_reload)

interpretation typed: method_relation "\<lambda>a b. typed_app D a \<longrightarrow> typed_app D b" for D
  by unfold_locales auto

lemma typed_papers: "keeps same_papers m \<Longrightarrow> keeps (\<lambda>a b. typed_app D a \<longrightarrow> typed_app D b) m"
  by (simp add: keeps_def same_papers_def typed_app_def)

lemma last_name_typed: "label_ok i \<Longrightarrow> jtext (last_name_of i)"
  by (auto simp: label_ok_def jtext_def last_name_of_def py_or_def str_ok_ascii ascii_def)

lemma jtexts_ok: "jtexts (JArr (map JStr xs)) \<longleftrightarrow> list_all str_ok xs"
proof -
  have "map JStr xs = map JStr ys \<Longrightarrow> xs = ys" for ys by (metis inj_map_eq_map inj_onI json.inject(3))
  then show ?thesis by (auto simp: jtexts_def)
qed

lemma load_label:
  assumes "from_vault C V data p = Inr i"
  obtains d where "loads_bytes data = Inr (JObj d)" "label i = get_or d ''label'' JNull"
proof -
  obtain tx v where v: "utf8_decode data = Inr tx" "json_loads tx = Inr v"
    using assms by (auto simp: from_vault_def res_simps)
  then obtain d where "v = JObj d" "label i = get_or d ''label'' JNull"
    using assms by (cases v) (auto simp: from_vault_def from_private_bytes_def res_simps split: if_splits)
  then show ?thesis using that v by (simp add: loads_bytes_def)
qed

lemma saved_labels:
  assumes "label_ok i"
  shows "file_labels D (save_identity C V salt nonce i p)"
  unfolding file_labels_def
proof (intro allI impI)
  fix q j
  let ?d = "to_vault C V salt nonce i p"
  assume "load_identity (crypto_of D) (vault_of D) (save_identity C V salt nonce i p) q = Inr j"
  then have "from_vault (crypto_of D) (vault_of D) (file_text Indented (JObj ?d)) q = Inr j"
    by (simp add: save_identity_def load_identity_def read_file_def)
  then obtain d where d: "loads_bytes (file_text Indented (JObj ?d)) = Inr (JObj d)" "label j = get_or d ''label'' JNull"
    by (rule load_label)
  have lab: "simple_label (label i)" "json_ok (label i)" "jsort (label i) = label i"
    using assms typed_ok(3) [of "label i"] by (auto simp: label_ok_def simple_label_def jtext_def)
  have "json_ok (JObj ?d)" using lab(2) by (auto simp: to_vault_def Let_def json_ok_obj str_ok_ascii ascii_def simp del: b64e.simps)
  then have "jsort (JObj ?d) = JObj d" using d(1) by (simp add: loads_file_text)
  then have "map_of d ''label'' = map_option jsort (map_of ?d ''label'')" by (rule vault_lookup [OF lab(1)])
  then have "label j = label i" using d(2) lab(3) by (auto simp: get_or_def to_vault_def Let_def split: option.split)
  then show "label_ok j" using assms by (simp add: label_ok_def)
qed

text \<open>The slots that write papers.\<close>

lemma typed_store_settings: "keeps (\<lambda>a b. typed_app D a \<longrightarrow> typed_app D b) (store_settings D')"
  by (simp add: keeps_def store_settings_def typed_app_def saved_typed)

lemma typed_store_identity: "label_ok i \<Longrightarrow> keeps (\<lambda>a b. typed_app D a \<longrightarrow> typed_app D b) (store_identity D salt nonce i p)"
  by (simp add: keeps_def store_identity_def typed_app_def saved_labels)

lemmas typed_small = papers.keeps_small [THEN typed_papers] papers_build [THEN typed_papers] papers_start_worker [THEN typed_papers]
  papers.keeps_refresh [THEN typed_papers] typed_store_settings typed_store_identity

lemma typed_start_client:
  assumes "label_ok i"
  shows "keeps (\<lambda>a b. typed_app D a \<longrightarrow> typed_app D b) (start_client D fr i)"
proof -
  have n: "keeps (\<lambda>a b. typed_app D a \<longrightarrow> typed_app D b) (modifyS (\<lambda>a. a\<lparr>ap_encrypted := enc, ap_settings := (ap_settings a)\<lparr>gs_last_name := last_name_of i\<rparr>\<rparr>))" for enc
    using last_name_typed [OF assms] by (simp add: keeps_def modifyS_def typed_app_def settings_typed_def)
  have m: "keeps (\<lambda>a b. typed_app D a \<longrightarrow> typed_app D b) (modifyS (\<lambda>a. a\<lparr>ap_identity := Some i\<rparr>))"
    by (simp add: keeps_def modifyS_def typed_app_def)
  show ?thesis unfolding start_client_def by (intro typed.keeps_intros typed_small n m)
qed

lemma typed_with_file:
  assumes "\<And>f. file_labels D f \<Longrightarrow> keeps (\<lambda>a b. typed_app D a \<longrightarrow> typed_app D b) (m f)"
  shows "keeps (\<lambda>a b. typed_app D a \<longrightarrow> typed_app D b) (bindS (getS ap_identity_file) m)"
  using assms by (auto simp: keeps_def bindS_def getS_def typed_app_def)

lemma typed_loading: "keeps (\<lambda>a b. typed_app D a \<longrightarrow> typed_app D b) (bootstrap D fr)" "keeps (\<lambda>a b. typed_app D a \<longrightarrow> typed_app D b) (unlock D fr passphrase)"
proof -
  have p: "keeps (\<lambda>a b. typed_app D a \<longrightarrow> typed_app D b) (prepare_unlock enc)" for enc
    unfolding prepare_unlock_def by (intro typed.keeps_intros typed_small) (simp add: keeps_def modifyS_def typed_app_def)
  show "keeps (\<lambda>a b. typed_app D a \<longrightarrow> typed_app D b) (bootstrap D fr)"
    unfolding bootstrap_def
    by (rule typed_with_file) (auto intro!: typed.keeps_intros typed_small p typed_start_client simp: file_labels_def split: sum.split)
  show "keeps (\<lambda>a b. typed_app D a \<longrightarrow> typed_app D b) (unlock D fr passphrase)"
    unfolding unlock_def
    by (rule typed_with_file) (auto intro!: typed.keeps_intros typed_small typed_start_client simp: file_labels_def split: sum.split)
qed

lemma typed_name: "str_ok s \<Longrightarrow> label_ok \<lparr>ed_private = e, x_private = x, label = JStr s\<rparr>"
  by (simp add: label_ok_def jtext_def)

lemma typed_create:
  assumes "str_ok (strip name)"
  shows "keeps (\<lambda>a b. typed_app D a \<longrightarrow> typed_app D b) (create_identity D words name passphrase again)"
proof -
  let ?n = "if strip name = [] then ''me'' else strip name"
  have ok: "str_ok ?n" using assms by (simp add: str_ok_ascii ascii_def)
  have "label_ok i" if "generate (crypto_of D) (vault_of D) words (JStr ?n) p = Inr (i, mn)" for i p mn
    using that typed_name [OF ok] by (auto simp: generate_def from_mnemonic_def Let_def res_simps split: if_splits prod.splits)
  then have "typed_app D a \<longrightarrow> typed_app D (snd (create_identity D words name passphrase again a))" for a
    by (cases "generate (crypto_of D) (vault_of D) words (JStr ?n) (if passphrase = [] then None else Some passphrase)")
      (auto simp: create_identity_def Let_def box_def show_screen_def meth_defs typed_app_def)
  then show ?thesis by (simp add: keeps_def)
qed

lemma typed_confirm: "keeps (\<lambda>a b. typed_app D a \<longrightarrow> typed_app D b) (confirm_seed D salt nonce fr)"
proof (rule keepsI, rule impI)
  fix a assume t: "typed_app D a"
  show "typed_app D (snd (confirm_seed D salt nonce fr a))"
  proof (cases "ap_pending a")
    case None
    then show ?thesis using t by (simp add: confirm_seed_def bind_getS returnS_def)
  next
    case (Some i)
    then have "label_ok i" using t by (simp add: typed_app_def)
    then have "keeps (\<lambda>a b. typed_app D a \<longrightarrow> typed_app D b) (thenS (store_identity D salt nonce i (ap_pending_passphrase a)) (start_client D fr i))"
      by (intro typed.keeps_intros typed_small typed_start_client)
    then show ?thesis using t Some by (simp add: confirm_seed_def bind_getS returnS_def keeps_def)
  qed
qed

lemma typed_recover:
  assumes "str_ok (strip name)"
  shows "keeps (\<lambda>a b. typed_app D a \<longrightarrow> typed_app D b) (recover_identity D salt nonce fr mnemonic name passphrase)"
proof -
  let ?n = "if strip name = [] then ''recovered'' else strip name"
  have ok: "str_ok ?n" using assms by (simp add: str_ok_ascii ascii_def)
  have "label_ok i" if "from_mnemonic (crypto_of D) (vault_of D) (strip mnemonic) p (JStr ?n) = Inr i" for i p
    using that typed_name [OF ok] by (auto simp: from_mnemonic_def Let_def split: if_splits prod.splits)
  then show ?thesis
    unfolding recover_identity_def Let_def by (auto intro!: typed.keeps_intros typed_small typed_start_client split: sum.split)
qed

lemma typed_relays:
  assumes "list_all str_ok rs"
  shows "keeps (\<lambda>a b. typed_app D a \<longrightarrow> typed_app D b) (relays_changed D' rs)"
  unfolding relays_changed_def
  by (intro typed.keeps_intros typed_small) (simp add: keeps_def modifyS_def typed_app_def settings_typed_def jtexts_ok assms del: list.map)

lemma typed_apply:
  assumes "dialog_ok w" "settings_typed s"
  shows "settings_typed (apply_to w s)"
proof -
  let ?rs = "filter (\<lambda>r. r \<noteq> []) (map strip (splitlines (dlg_relays w)))"
  have "list_all str_ok (if ?rs \<noteq> [] then ?rs else [''http://127.0.0.1:8000''])"
    using assms(1) by (auto simp: dialog_ok_def list_all_iff str_ok_ascii ascii_def)
  moreover have "gs_relays (apply_to w s) = JArr (map JStr (if ?rs \<noteq> [] then ?rs else [''http://127.0.0.1:8000'']))"
    by (simp add: apply_to_def Let_def)
  ultimately have "jtexts (gs_relays (apply_to w s))" by (simp only: jtexts_ok)
  then show ?thesis
    using assms by (auto simp: apply_to_def Let_def settings_typed_def dialog_ok_def jbool_def jint_def jtext_def)
qed

lemma typed_accept:
  assumes "dialog_ok w"
  shows "keeps (\<lambda>a b. typed_app D a \<longrightarrow> typed_app D b) (accept_settings D fr w)"
proof -
  have "keeps (\<lambda>a b. typed_app D a \<longrightarrow> typed_app D b) (modifyS (\<lambda>a. a\<lparr>ap_settings := apply_to w (ap_settings a)\<rparr>))"
    using typed_apply [OF assms] by (simp add: keeps_def modifyS_def typed_app_def)
  then show ?thesis
    unfolding accept_settings_def by (intro typed.keeps_intros typed_small papers_restart [THEN typed_papers])
qed

lemma typed_switch: "keeps (\<lambda>a b. typed_app D a \<longrightarrow> typed_app D b) (switch_identity D yes ts)"
  unfolding switch_identity_def
  by (intro typed.keeps_intros typed_small papers_teardown [THEN typed_papers]) (simp add: keeps_def modifyS_def typed_app_def)

lemma typed_on_screen: "keeps (\<lambda>a b. typed_app D a \<longrightarrow> typed_app D b) m \<Longrightarrow> keeps (\<lambda>a b. typed_app D a \<longrightarrow> typed_app D b) (on_screen ss m)"
  unfolding on_screen_def by (intro typed.keeps_intros)

lemma typed_signal:
  assumes "op_ok (Signal e path)"
  shows "keeps (\<lambda>a b. typed_app D a \<longrightarrow> typed_app D b) (on_signal D e path)"
proof (cases "\<exists>rs. e = RelaysChanged rs")
  case True
  then show ?thesis using assms typed_relays by (auto simp: on_signal_def op_ok_def)
next
  case False
  have "keeps same_papers (on_signal D e path)"
    unfolding on_signal_def using False
    by (cases e) (auto intro!: papers.slot_intros papers.keeps_refresh papers.keeps_calls papers.keeps_history_finished split: notice.split)
  then show ?thesis by (rule typed_papers)
qed

lemma typed_step:
  assumes "op_ok p"
  shows "keeps (\<lambda>a b. typed_app D a \<longrightarrow> typed_app D b) (app_step D p)"
proof -
  have m: "keeps (\<lambda>a b. typed_app D a \<longrightarrow> typed_app D b) (modifyS (\<lambda>a. a\<lparr>ap_acknowledged := b\<rparr>))" "keeps (\<lambda>a b. typed_app D a \<longrightarrow> typed_app D b) (worker_turn D t)" for b t
    by (simp_all add: keeps_def modifyS_def typed_app_def worker_turn_def)
  note k = typed_on_screen typed_small m typed_create typed_confirm typed_recover typed_loading(2) typed_switch typed_accept
    papers_lock [THEN typed_papers] papers_teardown [THEN typed_papers] papers.keeps_task_slots [THEN typed_papers]
    papers.keeps_calls [THEN typed_papers] papers.keeps_mapped [OF papers.keeps_calls(1), THEN typed_papers]
    papers.keeps_mapped [OF papers.keeps_calls(2), THEN typed_papers] papers.keeps_mapped [OF papers.keeps_task_slots(9), THEN typed_papers]
  show ?thesis
    using assms by (cases p) (simp_all only: app_step.simps, auto intro!: k typed_signal simp: op_ok_def)
qed

text \<open>Starting the program again reads what was saved.\<close>

lemma closed_frame [simp]: "ap_settings_file (closed_app a) = ap_settings_file a" "ap_identity_file (closed_app a) = ap_identity_file a"
  by (simp_all add: closed_app_def settle_def Let_def split: option.split)

lemma typed_launch:
  assumes "file_typed (de_environ D) (ap_settings_file a)" "file_labels D (ap_identity_file a)" "launch D fr a = (Inr (), b)"
  shows "typed_app D b"
proof -
  obtain s where s: "load_settings (de_environ D) (ap_settings_file a) = Inr s" "bootstrap D fr (opened s (closed_app a)) = (Inr (), b)"
    using assms(3) by (auto simp: launch_def split: sum.splits)
  have "typed_app D (opened s (closed_app a))" using assms(1,2) s(1) by (simp add: typed_app_def opened_def file_typed_def)
  then show ?thesis using typed_loading(1) [of D fr] s(2) by (auto simp: keeps_def dest: spec [of _ "opened s (closed_app a)"])
qed

lemma typed_again: "typed_app D a \<Longrightarrow> launch D fr a = (Inr (), b) \<Longrightarrow> typed_app D b"
  by (rule typed_launch) (simp_all add: typed_app_def)

lemma typed_reached:
  assumes "reached D disk a" "file_typed (de_environ D) (ap_settings_file disk)" "file_labels D (ap_identity_file disk)"
  shows "typed_app D a"
  using assms
proof (induction rule: reached.induct)
  case (launched fr a)
  then show ?case by (blast intro: typed_launch)
next
  case (relaunched a fr b)
  then show ?case by (blast intro: typed_again)
next
  case (stepped a p b)
  then show ?case using keepsD [OF typed_step] by blast
next
  case (crashed a p e b fr c)
  then have "typed_app D b" using keepsD [OF typed_step] by blast
  then show ?case using crashed.hyps(4) by (blast intro: typed_again)
qed

subsection \<open>The database keeps its invariant\<close>

context method_relation
begin

lemma keeps_bind_result:
  assumes "keeps R m" "\<And>s x t. m s = (Inr x, t) \<Longrightarrow> P x" "\<And>x. P x \<Longrightarrow> keeps R (f x)"
  shows "keeps R (bindS m f)"
proof (rule keepsI)
  fix s
  show "R s (snd (bindS m f s))"
  proof (rule rel_bind)
    show "R s (snd (m s))" using assms(1) by (simp add: keeps_def)
    fix x assume "m s = (Inr x, snd (m s))"
    then have "keeps R (f x)" using assms(2,3) by blast
    then show "R (snd (m s)) (snd (f x (snd (m s))))" by (simp add: keeps_def)
  qed
qed

end

definition sound_app :: "('w, 'k) app \<Rightarrow> bool" where
  "sound_app a \<longleftrightarrow> used_store (ap_database a) \<and> (\<forall>w. ap_worker a = Some w \<longrightarrow> client_inv (dk_client (wk_desk w)))"

interpretation sound: method_relation "\<lambda>a b. sound_app a \<longrightarrow> sound_app b"
  by unfold_locales auto

lemma sound_with_client:
  assumes "\<And>E. keeps (\<lambda>c c'. client_inv c \<longrightarrow> client_inv c') (m E)"
  shows "keeps (\<lambda>a b. sound_app a \<longrightarrow> sound_app b) (with_client m D)"
  using assms by (auto simp: keeps_def sound_app_def with_client_def on_client_def split_beta Let_def split: option.split)

lemma sound_user_file: "keeps (\<lambda>a b. sound_app a \<longrightarrow> sound_app b) (write_user_file D path data)"
  by (auto simp: keeps_def write_user_file_def write_file_def sound_app_def split: option.split)

lemma mark_read_desk: "wk_desk (mark_read_tasks cid ms w) = wk_desk w"
proof -
  have "wk_desk (foldl (\<lambda>w m. submit (f m) w) w xs) = wk_desk w" for f :: "message \<Rightarrow> task" and xs
    by (induction xs arbitrary: w) (simp_all add: submit_def)
  then show ?thesis by (simp add: mark_read_tasks_def)
qed

lemmas sound_calls = client_kept.keeps_small_calls client_kept.keeps_history_calls client_kept.keeps_add_contact

interpretation sound: calling_relation "\<lambda>a b. sound_app a \<longrightarrow> sound_app b" D for D :: "('w, 'k) desktop"
proof unfold_locales
  fix dev crd nick
  show "keeps (\<lambda>a b. sound_app a \<longrightarrow> sound_app b) (with_client card_string D)"
    "keeps (\<lambda>a b. sound_app a \<longrightarrow> sound_app b) (with_client client_devices D)"
    "keeps (\<lambda>a b. sound_app a \<longrightarrow> sound_app b) (with_client sync_status D)"
    "keeps (\<lambda>a b. sound_app a \<longrightarrow> sound_app b) (with_client history_requests D)"
    "keeps (\<lambda>a b. sound_app a \<longrightarrow> sound_app b) (with_client (\<lambda>E. deny_history E dev) D)"
    "keeps (\<lambda>a b. sound_app a \<longrightarrow> sound_app b) (with_client (\<lambda>E. add_contact E crd nick) D)"
    by (rule sound_with_client, rule sound_calls)+
qed (simp_all add: sound_user_file, auto simp: sound_app_def submit_def mark_read_desk)

lemma inv_after: "keeps (\<lambda>c c'. client_inv c \<longrightarrow> client_inv c') m \<Longrightarrow> client_inv c \<Longrightarrow> client_inv (snd (m c))"
  by (simp add: keeps_def)

lemma worker_inv: "client_inv (dk_client (wk_desk w)) \<Longrightarrow> client_inv (dk_client (wk_desk (foldl (act W) w acts)))"
proof -
  have "client_inv x \<longrightarrow> client_inv (restart (su_env W) urls name n x)" for urls name n x
    using client_machine.step_inv [of x "su_env W" "Restart urls name n"] by simp
  then show "client_inv (dk_client (wk_desk w)) \<Longrightarrow> ?thesis"
    using client_kept.keeps_act [where E = "su_env W" and W = W, OF refl, of w acts] by (simp add: on_worker_def)
qed

lemma sound_stop_worker: "keeps (\<lambda>a b. sound_app a \<longrightarrow> sound_app b) (stop_worker D ts)"
proof -
  have "client_inv (dk_client (wk_desk (foldl (act W) (stop w) xs)))" if "client_inv (dk_client (wk_desk w))" for W xs and w :: "'a worker"
    using worker_inv [of "stop w" W xs] that by (simp add: stop_def)
  then show ?thesis
    by (auto simp: keeps_def stop_worker_def modifyS_def sound_app_def settle_def client_inv_def Let_def split: option.split)
qed

lemma sound_frame: "ap_database b = ap_database a \<Longrightarrow> ap_worker b = ap_worker a \<Longrightarrow> sound_app a \<longrightarrow> sound_app b"
  by (simp add: sound_app_def)

lemma sound_papers:
  "keeps (\<lambda>a b. sound_app a \<longrightarrow> sound_app b) (store_settings D)" "keeps (\<lambda>a b. sound_app a \<longrightarrow> sound_app b) (store_identity D salt nonce i p)"
  by (simp_all add: keeps_def store_settings_def store_identity_def sound_app_def)

lemma used_register: "used_store s \<Longrightarrow> used_store (snd (register_identity now iid lab path s))"
  using used_store_step [of "RegisterIdentity now iid lab path" s] by (simp add: own_op_def)

lemma sound_put_store: "used_store s \<Longrightarrow> sound_app a \<Longrightarrow> sound_app (put_store s a)"
  by (auto simp: put_store_def sound_app_def client_inv_def split: option.split)

lemma sound_current: "sound_app a \<Longrightarrow> used_store (current_store a)"
  by (auto simp: sound_app_def current_store_def client_inv_def split: option.split)

lemma sound_open_database:
  fixes D :: "('w, 'k) desktop"
  shows "keeps (\<lambda>a b. sound_app a \<longrightarrow> sound_app b) (open_database D rnd now i)"
proof (rule keepsI, rule impI)
  fix a :: "('w, 'k) app" assume a: "sound_app a"
  obtain r ks where k: "resolve_store_key (crypto_of D) (vault_of D) (de_keyring D) (de_no_keyring D) rnd (identity_id (crypto_of D) i) None (ap_keys a) = (r, ks)"
    by force
  have b: "sound_app (a\<lparr>ap_keys := ks\<rparr>)" using a by (simp add: sound_app_def)
  show "sound_app (snd (open_database D rnd now i a))"
    using b sound_put_store [OF used_register [OF sound_current [OF b]] b]
    by (cases r) (simp_all add: open_database_def k split_beta Let_def)
qed

lemma sound_build: "keeps (\<lambda>a b. sound_app a \<longrightarrow> sound_app b) (build_or_report D fr i title)"
proof -
  have "keeps (\<lambda>a b. sound_app a \<longrightarrow> sound_app b) (build_client D rnd now i)" for rnd now
    unfolding build_client_def by (intro sound.slot_intros sound_open_database)
  then show ?thesis unfolding build_or_report_def by (intro sound.slot_intros sound.keeps_mapped)
qed

lemma built_client:
  assumes "build_or_report D fr i title a = (Inr (Some (c, T)), b)"
  shows "c_backend c \<noteq> [] \<and> c_identity c = i \<and> build_transport (ap_settings a) = Inr T"
proof -
  have "build_client D (fr_key fr) (fr_now fr) i a = (Inr (c, T), b)"
    using assms by (auto simp: build_or_report_def catchS_def mapR_def bindS_def thenS_def returnS_def box_def modifyS_def split: prod.splits sum.splits)
  then obtain b1 rs where b: "open_database D (fr_key fr) (fr_now fr) i a = (Inr (), b1)" "build_transport (ap_settings b1) = Inr T"
    "make_client (su_env (running D T)) i (current_store b1) rs (label_text i) DEFAULT_OPK_COUNT (ap_world b1) (ap_reads b1) = Inr c"
    by (auto simp: build_client_def thenS_def bindS_def getS_def liftS_def returnS_def split: prod.splits sum.splits)
  have "ap_settings b1 = ap_settings a" using papers_open_database [THEN keepsD, OF b(1)] by (simp add: same_papers_def)
  moreover have "c_identity c = i" using b(3) by (auto simp: make_client_def Let_def res_simps split: if_splits)
  ultimately show ?thesis using b(2) made_client [OF b(3)] by simp
qed

lemma sound_start_worker:
  assumes "c_backend c \<noteq> []"
  shows "keeps (\<lambda>a b. sound_app a \<longrightarrow> sound_app b) (start_worker D ts c T)"
  unfolding start_worker_def
  by (intro sound.keeps_intros sound_stop_worker)
    (use assms in \<open>simp add: keeps_def modifyS_def sound_app_def submit_def make_worker_def client_inv_def\<close>)

lemma sound_teardown: "keeps (\<lambda>a b. sound_app a \<longrightarrow> sound_app b) (teardown_client D ts)"
  unfolding teardown_client_def by (intro sound.keeps_intros sound_stop_worker) (simp add: keeps_def modifyS_def sound_app_def)

lemma sound_modified: "(\<And>a. ap_database (f a) = ap_database a) \<Longrightarrow> (\<And>a. ap_worker (f a) = ap_worker a) \<Longrightarrow>
  keeps (\<lambda>a b. sound_app a \<longrightarrow> sound_app b) (modifyS f)"
  by (simp add: keeps_def modifyS_def sound_app_def)

lemma sound_after_build:
  assumes "\<And>c T. c_backend c \<noteq> [] \<Longrightarrow> keeps (\<lambda>a b. sound_app a \<longrightarrow> sound_app b) (f (Some (c, T)))" "keeps (\<lambda>a b. sound_app a \<longrightarrow> sound_app b) (f None)"
  shows "keeps (\<lambda>a b. sound_app a \<longrightarrow> sound_app b) (bindS (build_or_report D fr i title) f)"
proof (rule sound.keeps_bind_result [OF sound_build])
  let ?P = "\<lambda>x. \<forall>c T. x = Some (c, T) \<longrightarrow> c_backend c \<noteq> []"
  show "?P x" if "build_or_report D fr i title s = (Inr x, t)" for s x t
    using built_client that by blast
  show "keeps (\<lambda>a b. sound_app a \<longrightarrow> sound_app b) (f x)" if P: "?P x" for x
  proof (cases x)
    case None
    then show ?thesis using assms(2) by simp
  next
    case (Some y)
    then show ?thesis using P assms(1) [of "fst y" "snd y"] by (cases y) simp
  qed
qed

lemma sound_start_client: "keeps (\<lambda>a b. sound_app a \<longrightarrow> sound_app b) (start_client D fr i)"
proof -
  have built: "keeps (\<lambda>a b. sound_app a \<longrightarrow> sound_app b) (bindS (build_or_report D fr i title) (\<lambda>built. case built of None \<Rightarrow> show_screen Welcome
      | Some (c, T) \<Rightarrow> thenS (start_worker D ts c T) (thenS (show_screen MainScreen) (refresh D))))" for title ts
    by (rule sound_after_build) (auto intro!: sound.slot_intros sound_start_worker sound.keeps_refresh)
  show ?thesis
    unfolding start_client_def
    by (rule sound.keeps_then, rule sound_modified, simp, simp, rule sound.keeps_bind, rule sound.keeps_pure, rule sound.keeps_bind, rule sound.keeps_pure,
        rule sound.keeps_then, rule sound_modified, simp, simp, rule sound.keeps_then, rule sound.keeps_small, rule sound.keeps_then, rule sound_papers, rule built)
qed

lemma sound_restart: "keeps (\<lambda>a b. sound_app a \<longrightarrow> sound_app b) (restart_worker D fr)"
proof -
  have "keeps (\<lambda>a b. sound_app a \<longrightarrow> sound_app b)
      (bindS (build_or_report D fr i title) (\<lambda>built. case built of None \<Rightarrow> returnS () | Some (c, T) \<Rightarrow> start_worker D ts c T))" for i title ts
    by (rule sound_after_build) (simp_all add: sound_start_worker sound.keeps_pure)
  then show ?thesis
    unfolding restart_worker_def
    by (intro sound.keeps_bind [OF sound.keeps_pure(4)]) (auto intro: sound.keeps_pure split: option.split)
qed

lemma sound_onboarding:
  "keeps (\<lambda>a b. sound_app a \<longrightarrow> sound_app b) (bootstrap D fr)" "keeps (\<lambda>a b. sound_app a \<longrightarrow> sound_app b) (unlock D fr passphrase)"
  "keeps (\<lambda>a b. sound_app a \<longrightarrow> sound_app b) (create_identity D words name passphrase again)"
  "keeps (\<lambda>a b. sound_app a \<longrightarrow> sound_app b) (confirm_seed D salt nonce fr)"
  "keeps (\<lambda>a b. sound_app a \<longrightarrow> sound_app b) (recover_identity D salt nonce fr mnemonic name passphrase)"
proof -
  have p: "keeps (\<lambda>a b. sound_app a \<longrightarrow> sound_app b) (prepare_unlock enc)" for enc
    unfolding prepare_unlock_def by (intro sound.slot_intros sound_modified) simp_all
  note k = sound.slot_intros sound_start_client sound_papers p
  show "keeps (\<lambda>a b. sound_app a \<longrightarrow> sound_app b) (bootstrap D fr)" "keeps (\<lambda>a b. sound_app a \<longrightarrow> sound_app b) (unlock D fr passphrase)"
    unfolding bootstrap_def unlock_def by (intro k; auto intro!: k split: sum.split)+
  show "keeps (\<lambda>a b. sound_app a \<longrightarrow> sound_app b) (create_identity D words name passphrase again)"
    unfolding create_identity_def Let_def by (intro k sound_modified) simp_all
  show "keeps (\<lambda>a b. sound_app a \<longrightarrow> sound_app b) (confirm_seed D salt nonce fr)"
    unfolding confirm_seed_def by (intro k)
  show "keeps (\<lambda>a b. sound_app a \<longrightarrow> sound_app b) (recover_identity D salt nonce fr mnemonic name passphrase)"
    unfolding recover_identity_def Let_def by (rule keeps_case_sum) (intro k)+
qed

lemma turn_inv: "client_inv (dk_client (wk_desk w)) \<Longrightarrow> client_inv (dk_client (wk_desk (turn W t w)))"
  using worker_inv [of w W "[Turn t]"] by simp

lemma sound_rest:
  "keeps (\<lambda>a b. sound_app a \<longrightarrow> sound_app b) (lock D ts)" "keeps (\<lambda>a b. sound_app a \<longrightarrow> sound_app b) (switch_identity D yes ts)"
  "keeps (\<lambda>a b. sound_app a \<longrightarrow> sound_app b) (accept_settings D fr w)" "keeps (\<lambda>a b. sound_app a \<longrightarrow> sound_app b) (relays_changed D rs)"
  "keeps (\<lambda>a b. sound_app a \<longrightarrow> sound_app b) (worker_turn D t)"
proof -
  show "keeps (\<lambda>a b. sound_app a \<longrightarrow> sound_app b) (lock D ts)" "keeps (\<lambda>a b. sound_app a \<longrightarrow> sound_app b) (switch_identity D yes ts)"
    "keeps (\<lambda>a b. sound_app a \<longrightarrow> sound_app b) (accept_settings D fr w)" "keeps (\<lambda>a b. sound_app a \<longrightarrow> sound_app b) (relays_changed D rs)"
    unfolding lock_def switch_identity_def accept_settings_def relays_changed_def prepare_unlock_def
    by (intro sound.slot_intros sound_teardown sound_restart sound_papers sound.keeps_refresh sound_modified; simp)+
  show "keeps (\<lambda>a b. sound_app a \<longrightarrow> sound_app b) (worker_turn D t)"
    using turn_inv [where t = t] by (auto simp: keeps_def worker_turn_def modifyS_def sound_app_def)
qed

lemma sound_step: "keeps (\<lambda>a b. sound_app a \<longrightarrow> sound_app b) (app_step D p)"
proof -
  have m: "keeps (\<lambda>a b. sound_app a \<longrightarrow> sound_app b) (modifyS (\<lambda>a. a\<lparr>ap_acknowledged := b\<rparr>))" for b
    by (rule sound_modified) simp_all
  note k = sound.keeps_on_screen sound.keeps_small m sound_onboarding(2-5) sound_rest sound_teardown sound.keeps_task_slots sound.keeps_calls
    sound.keeps_mapped [OF sound.keeps_calls(1)] sound.keeps_mapped [OF sound.keeps_calls(2)] sound.keeps_mapped [OF sound.keeps_task_slots(9)]
    sound.keeps_signal [OF sound_rest(4)]
  show ?thesis by (cases p) (simp_all only: app_step.simps, auto intro!: k)
qed

lemma sound_launch: "sound_app a \<Longrightarrow> launch D fr a = (Inr (), b) \<Longrightarrow> sound_app b"
proof -
  assume a: "sound_app a" and l: "launch D fr a = (Inr (), b)"
  obtain s where s: "bootstrap D fr (opened s (closed_app a)) = (Inr (), b)"
    using l by (auto simp: launch_def split: sum.splits)
  have "sound_app (opened s (closed_app a))"
    using a by (auto simp: sound_app_def opened_def closed_app_def settle_def client_inv_def Let_def split: option.split)
  then show "sound_app b" using sound_onboarding(1) [THEN keepsD, OF s] by blast
qed

lemma sound_reached: "reached D disk a \<Longrightarrow> sound_app disk \<Longrightarrow> sound_app a"
proof (induction rule: reached.induct)
  case (stepped a p b)
  then show ?case using keepsD [OF sound_step] by blast
next
  case (crashed a p e b fr c)
  then have "sound_app b" using keepsD [OF sound_step] by blast
  then show ?case using crashed.hyps(4) by (rule sound_launch)
qed (blast intro: sound_launch)+

subsection \<open>Without a worker nothing is sent\<close>

definition world_of :: "('w, 'k) app \<Rightarrow> 'w" where
  "world_of a = (case ap_worker a of None \<Rightarrow> ap_world a | Some w \<Rightarrow> c_world (dk_client (wk_desk w)))"

definition still :: "('w, 'k) app \<Rightarrow> ('w, 'k) app \<Rightarrow> bool" where
  "still a b \<longleftrightarrow> world_of b = world_of a"

definition idle :: "('w, 'k) app \<Rightarrow> ('w, 'k) app \<Rightarrow> bool" where
  "idle a b \<longleftrightarrow> (ap_worker a = None \<longrightarrow> ap_worker b = None \<and> ap_world b = ap_world a)"

interpretation still: slot_relation still D for D
  by unfold_locales (auto simp: still_def world_of_def submit_def mark_read_desk split: option.split)

lemma idle_with_client: "keeps idle (with_client m D)"
  by (simp add: keeps_def idle_def with_client_def)

interpretation idle: calling_relation idle D for D
  by unfold_locales (simp_all add: idle_def idle_with_client, simp add: keeps_def idle_def write_user_file_def)

lemma idle_modified: "(\<And>a. ap_worker (f a) = ap_worker a) \<Longrightarrow> (\<And>a. ap_world (f a) = ap_world a) \<Longrightarrow> keeps idle (modifyS f)"
  by (simp add: keeps_def modifyS_def idle_def)

lemma idle_stop: "keeps idle (stop_worker D ts)" "keeps idle (store_settings D)" "keeps idle (store_identity D salt nonce i p)" "keeps idle (worker_turn D t)"
  by (simp_all add: keeps_def stop_worker_def store_settings_def store_identity_def worker_turn_def modifyS_def idle_def)

lemma idle_build: "keeps idle (build_or_report D fr i title)"
proof -
  have "keeps idle (open_database D rnd now i)" for rnd now
    by (simp add: keeps_def open_database_def idle_def split_beta Let_def split: sum.split)
  then have "keeps idle (build_client D rnd now i)" for rnd now
    unfolding build_client_def by (intro idle.slot_intros)
  then show ?thesis unfolding build_or_report_def by (intro idle.slot_intros idle.keeps_mapped)
qed

lemma idle_lifecycle:
  "keeps idle (lock D ts)" "keeps idle (switch_identity D yes ts)" "keeps idle (teardown_client D ts)" "keeps idle (accept_settings D fr w)"
  "keeps idle (relays_changed D rs)" "keeps idle (create_identity D words name passphrase again)"
proof -
  show t: "keeps idle (teardown_client D ts)"
    unfolding teardown_client_def by (intro idle.slot_intros idle_stop idle_modified) simp_all
  have "keeps idle (restart_worker D fr)"
    by (simp add: keeps_def restart_worker_def idle_def bind_getS returnS_def)
  then show "keeps idle (lock D ts)" "keeps idle (switch_identity D yes ts)" "keeps idle (accept_settings D fr w)"
    "keeps idle (relays_changed D rs)" "keeps idle (create_identity D words name passphrase again)"
    unfolding lock_def switch_identity_def accept_settings_def relays_changed_def create_identity_def prepare_unlock_def Let_def
    by (intro idle.slot_intros t idle_stop idle.keeps_refresh idle_modified; simp)+
qed

text \<open>Slots that may start a worker: from a state without one, they leave the world as it is.\<close>

definition silent :: "('w, 'k, 'a) slot \<Rightarrow> bool" where
  "silent m \<longleftrightarrow> (\<forall>a. ap_worker a = None \<longrightarrow> world_of (snd (m a)) = ap_world a)"

lemma silent_idle: "keeps idle m \<Longrightarrow> silent m"
  by (simp add: keeps_def idle_def silent_def world_of_def)

lemma silent_bind: "keeps idle m \<Longrightarrow> (\<And>x. silent (f x)) \<Longrightarrow> silent (bindS m f)"
  unfolding silent_def
proof (intro allI impI)
  fix a :: "('a, 'b) app"
  assume m: "keeps idle m" and f: "\<And>x. \<forall>a. ap_worker a = None \<longrightarrow> world_of (snd (f x a)) = ap_world a" and a: "ap_worker a = None"
  obtain r b where r: "m a = (r, b)" by force
  then have "ap_worker b = None" "ap_world b = ap_world a" using m a by (auto simp: keeps_def idle_def dest: spec [of _ a])
  then show "world_of (snd (bindS m f a)) = ap_world a" using f r by (cases r) (simp_all add: bindS_def world_of_def)
qed

lemma silent_then: "keeps idle m \<Longrightarrow> silent k \<Longrightarrow> silent (thenS m k)"
  unfolding thenS_def by (rule silent_bind)

lemma silent_still: "silent m \<Longrightarrow> (\<And>x. keeps still (f x)) \<Longrightarrow> silent (bindS m f)"
  unfolding silent_def
proof (intro allI impI)
  fix a :: "('a, 'b) app"
  assume m: "\<forall>a. ap_worker a = None \<longrightarrow> world_of (snd (m a)) = ap_world a" and f: "\<And>x. keeps still (f x)" and a: "ap_worker a = None"
  obtain r b where r: "m a = (r, b)" by force
  then have b: "world_of b = ap_world a" using m a by (auto dest: spec [of _ a])
  show "world_of (snd (bindS m f a)) = ap_world a"
  proof (cases r)
    case (Inr x)
    then show ?thesis using f [of x] r b by (simp add: bindS_def keeps_def still_def)
  qed (simp add: r b bindS_def)
qed

lemma silent_start_worker: "silent (start_worker D ts c T)"
  by (auto simp: silent_def start_worker_def stop_worker_def number_def meth_defs world_of_def submit_def make_worker_def split: sum.split)

lemma silent_start_client: "silent (start_client D fr i)"
proof -
  have b: "silent (case built of None \<Rightarrow> show_screen Welcome | Some (c, T) \<Rightarrow> thenS (start_worker D ts c T) (thenS (show_screen MainScreen) (refresh D)))"
    for built ts
  proof (cases built)
    case None
    then show ?thesis by (simp add: silent_idle idle.keeps_small)
  next
    case (Some y)
    have "silent (thenS (start_worker D ts (fst y) (snd y)) (thenS (show_screen MainScreen) (refresh D)))"
      unfolding thenS_def [of "start_worker D ts (fst y) (snd y)"]
      by (intro silent_still [OF silent_start_worker] still.slot_intros still.keeps_refresh)
    then show ?thesis using Some by (simp add: split_beta)
  qed
  have e: "keeps idle (modifyS (\<lambda>a. a\<lparr>ap_identity := Some i\<rparr>))"
    "keeps idle (modifyS (\<lambda>a. a\<lparr>ap_encrypted := enc, ap_settings := (ap_settings a)\<lparr>gs_last_name := last_name_of i\<rparr>\<rparr>))" for enc
    by (rule idle_modified, simp, simp)+
  show ?thesis
    unfolding start_client_def
    by (intro silent_then silent_bind e idle.keeps_pure idle.keeps_small idle_stop idle_build b)
qed

lemma silent_cases:
  "(\<And>e. x = Inl e \<Longrightarrow> silent (f e)) \<Longrightarrow> (\<And>y. x = Inr y \<Longrightarrow> silent (g y)) \<Longrightarrow> silent (case x of Inl e \<Rightarrow> f e | Inr y \<Rightarrow> g y)"
  by (cases x) auto

lemma silent_onboarding: "silent (unlock D fr passphrase)" "silent (confirm_seed D salt nonce fr)" "silent (recover_identity D salt nonce fr mnemonic name passphrase)"
proof -
  show "silent (unlock D fr passphrase)"
    unfolding unlock_def
    by (rule silent_bind [OF idle.keeps_pure(4)], rule silent_cases) (rule silent_idle, intro idle.slot_intros, rule silent_start_client)
  show "silent (confirm_seed D salt nonce fr)"
    unfolding confirm_seed_def
    by (rule silent_bind [OF idle.keeps_pure(4)])
      (auto intro!: silent_then [OF idle_stop(3) silent_start_client] silent_idle [OF idle.keeps_pure(1)] split: option.split)
  show "silent (recover_identity D salt nonce fr mnemonic name passphrase)"
    unfolding recover_identity_def Let_def
    by (rule silent_cases) (rule silent_idle, intro idle.slot_intros, rule silent_then [OF idle_stop(3) silent_start_client])
qed

lemma silent_on_screen: "silent m \<Longrightarrow> silent (on_screen ss m)"
  unfolding on_screen_def by (rule silent_bind [OF idle.keeps_pure(4)]) (auto intro!: silent_idle idle.slot_intros)

lemma silent_step: "silent (app_step D p)"
proof -
  have m: "keeps idle (modifyS (\<lambda>a. a\<lparr>ap_acknowledged := b\<rparr>))" for b
    by (rule idle_modified) simp_all
  note k = idle.keeps_on_screen idle.keeps_small m idle_lifecycle idle_stop idle.keeps_task_slots idle.keeps_calls
    idle.keeps_mapped [OF idle.keeps_calls(1)] idle.keeps_mapped [OF idle.keeps_calls(2)] idle.keeps_mapped [OF idle.keeps_task_slots(9)]
    idle.keeps_signal [OF idle_lifecycle(5)]
  show ?thesis
    by (cases p) (simp_all only: app_step.simps, (rule silent_on_screen, rule silent_onboarding | rule silent_idle, (intro k; fail))+)
qed

subsection \<open>Theorems\<close>

text \<open>C35: the settings keep the types that they are declared with.  A file of settings is read without checking types; but if what is on disk has the declared
  types (or cannot be read), and identities on disk have a text as label, then in every state that the program reaches, over any number of
  runs on that disk, crashes included, the settings in memory have those types, and reading the file that is on disk then gives settings
  of those types: the worker and the settings dialog never meet another value.\<close>

theorem settings_stay_typed:
  assumes "reached D disk a" "file_typed (de_environ D) (ap_settings_file disk)" "file_labels D (ap_identity_file disk)"
  shows "settings_typed (ap_settings a) \<and> file_typed (de_environ D) (ap_settings_file a)
    \<and> (\<exists>n. number (gs_poll_seconds (ap_settings a)) = Inr n) \<and> (\<exists>rs. relays_of (ap_settings a) = Inr rs) \<and> (\<exists>T. build_transport (ap_settings a) = Inr T)"
proof -
  have t: "settings_typed (ap_settings a)" "file_typed (de_environ D) (ap_settings_file a)"
    using typed_reached [OF assms] by (simp_all add: typed_app_def)
  have "mapE (\<lambda>r. case r of JStr u \<Rightarrow> Inr u | _ \<Rightarrow> Inl AttributeError) (map JStr xs) = Inr xs" for xs
    by (induction xs) simp_all
  then have "\<exists>rs. relays_of (ap_settings a) = Inr rs" using t(1) by (auto simp: settings_typed_def jtexts_def relays_of_def py_iter_def)
  then show ?thesis
    using t by (auto simp: settings_typed_def jint_def jtext_def jbool_def number_def build_transport_def)
qed

text \<open>C3: the database keeps its invariant through the life of the program: when it holds for the database on disk, then in every state that the
  program reaches, over any number of runs on that disk, crashes, locks and changes of identity included, it holds for the database (also the
  one that the running client uses), every row of the outbox is marked as accepted by a relay, and a client that runs has a relay to
  talk to.\<close>

theorem desktop_keeps_database:
  assumes "reached D disk a" "store_inv (ap_database disk)" "all_sent (ap_database disk)" "ap_worker disk = None"
  shows "store_inv (current_store a) \<and> all_sent (current_store a) \<and> (\<forall>w. ap_worker a = Some w \<longrightarrow> c_backend (dk_client (wk_desk w)) \<noteq> [])"
proof -
  have "sound_app disk" using assms(2-4) by (simp add: sound_app_def used_store_def)
  then have s: "sound_app a" by (rule sound_reached [OF assms(1)])
  then show ?thesis using sound_current [OF s] by (simp add: used_store_def sound_app_def client_inv_def)
qed

lemma locked:
  assumes "ap_worker a = Some w"
  shows "lock D ts a = (Inr (), (settle (foldl (act (running D (ap_transport a))) (stop w) (map Turn ts)) a)\<lparr>ap_worker := None, ap_identity := None,
    ap_contact := None, ap_view := blank_view, ap_prompt_passphrase := ap_encrypted a, ap_screen := UnlockScreen\<rparr>)"
  using assms by (simp add: lock_def bind_getS teardown_client_def stop_worker_def prepare_unlock_def show_screen_def meth_defs Let_def settle_def)


text \<open>What locking does not clear: an identity that was created in this run of the program, its passphrase and its seed words.\<close>

lemma lock_leaves_pending:
  assumes "ap_worker a \<noteq> None"
  shows "ap_pending (snd (lock D ts a)) = ap_pending a \<and> ap_pending_passphrase (snd (lock D ts a)) = ap_pending_passphrase a
    \<and> ap_seed_words (snd (lock D ts a)) = ap_seed_words a"
proof -
  obtain w where w: "ap_worker a = Some w" using assms by blast
  show ?thesis unfolding locked [OF w] by (simp add: settle_def Let_def)
qed

text \<open>New settings whose relays cannot be used leave the old client running, over the transport it was built with, although the settings are saved.\<close>

interpretation transport_kept: method_relation "\<lambda>a b. ap_transport b = ap_transport a"
  by unfold_locales auto

lemma build_keeps_transport: "keeps (\<lambda>a b. ap_transport b = ap_transport a) (build_client D rnd now i)"
proof -
  have "ap_transport (put_store s a) = ap_transport a" for s and a :: "('a, 'b) app"
    by (simp add: put_store_def split: option.split)
  then have "keeps (\<lambda>a b. ap_transport b = ap_transport a) (open_database D rnd now i)"
    by (simp add: keeps_def open_database_def split_beta Let_def split: sum.split)
  then show ?thesis unfolding build_client_def by (intro transport_kept.keeps_intros)
qed

lemma failed_restart:
  assumes "ap_worker a = Some w" "ap_identity a = Some i" "build_client D (fr_key fr) (fr_now fr) i a = (Inl e, b)"
  shows "restart_worker D fr a = (Inr (), b\<lparr>ap_boxes := ap_boxes b @ [''Settings'']\<rparr>) \<and> ap_transport b = ap_transport a"
  using assms build_keeps_transport [THEN keepsD, OF assms(3)]
  by (simp add: restart_worker_def bind_getS build_or_report_def mapR_def box_def meth_defs)

lemma saved_asks:
  assumes "simple_label (label i)" "json_ok (label i)"
  shows "asks_passphrase (save_identity C V salt nonce i p) = has_passphrase p" "save_identity C V salt nonce i p \<noteq> Absent"
proof -
  let ?d = "to_vault C V salt nonce i p"
  obtain d where d: "jsort (JObj ?d) = JObj d" by (simp add: jsort_obj)
  have "json_ok (JObj ?d)" using assms(2) by (auto simp: to_vault_def Let_def json_ok_obj str_ok_ascii ascii_def simp del: b64e.simps)
  then have l: "loads_bytes (file_text Indented (JObj ?d)) = Inr (JObj d)" using d by (simp add: loads_file_text)
  have "map_of d ''encrypted'' = Some (JBool (has_passphrase p))" "map_of d ''v'' = Some (JInt VAULT_VERSION)"
    by (subst vault_lookup [OF assms(1) d], auto simp: to_vault_def Let_def has_passphrase_def split: option.split)+
  then show "asks_passphrase (save_identity C V salt nonce i p) = has_passphrase p"
    by (simp add: asks_passphrase_def save_identity_def read_file_def l get_or_def json_is_int_def)
qed (simp add: save_identity_def)

lemma blank_is_none: "from_vault C V data (Some []) = from_vault C V data None"
proof -
  have v: "vault_secret V d blob (Some []) = vault_secret V d blob None" for d blob
    by (simp add: vault_secret_def)
  show ?thesis unfolding from_vault_def v ..
qed

text \<open>C13: what the desktop saved opens again.  After an identity was saved with a passphrase (or with none), entering that passphrase on the unlock screen starts the
  client of this very identity; an empty passphrase, or one for an identity that was saved without, is refused with a message and changes nothing
  else; and when the program starts it opens an identity without a passphrase at once, and asks for the passphrase of the other.\<close>

theorem unlock_opens_saved:
  assumes "gcm_correct (vault_of D)" "identity_wf i" "label_ok i" "store_identity D salt nonce i p a0 = (Inr (), a)"
  shows "unlock D fr p a = start_client D fr i a
    \<and> (p \<noteq> [] \<longrightarrow> unlock D fr [] a = (Inr (), a\<lparr>ap_boxes := ap_boxes a @ [''Unlock'']\<rparr>))
    \<and> (p = [] \<and> q \<noteq> [] \<longrightarrow> unlock D fr q a = (Inr (), a\<lparr>ap_boxes := ap_boxes a @ [''Unlock'']\<rparr>))
    \<and> bootstrap D fr a = (if p = [] then start_client D fr i a else (Inr (), a\<lparr>ap_prompt_passphrase := True, ap_screen := UnlockScreen\<rparr>))"
proof -
  let ?f = "save_identity (crypto_of D) (vault_of D) salt nonce i (Some p)"
  have blank: "save_identity (crypto_of D) (vault_of D) salt nonce i (if p = [] then None else Some p) = ?f"
    by (simp add: save_identity_def to_vault_def Let_def)
  have f: "ap_identity_file a = ?f" using assms(4) blank by (auto simp: store_identity_def split: if_splits)
  have none: "p = [] \<Longrightarrow> ?f = save_identity (crypto_of D) (vault_of D) salt nonce i None" using blank by simp
  note lab = assms(3) [unfolded label_ok_def]
  note r = identity_reload [OF assms(1,2) lab refl, where p = "Some p" and C = "crypto_of D" and salt = salt and nonce = nonce]
  note n = identity_reload [OF assms(1,2) lab refl, where p = None and C = "crypto_of D" and salt = salt and nonce = nonce]
  have e: "load_identity (crypto_of D) (vault_of D) ?f (Some []) = load_identity (crypto_of D) (vault_of D) ?f None"
    by (simp add: load_identity_def blank_is_none)
  have 1: "unlock D fr p a = start_client D fr i a" using r(1) by (simp add: unlock_def bind_getS f)
  have 2: "p \<noteq> [] \<longrightarrow> unlock D fr [] a = (Inr (), a\<lparr>ap_boxes := ap_boxes a @ [''Unlock'']\<rparr>)"
    using r(2) e by (simp add: unlock_def bind_getS f has_passphrase_def box_def modifyS_def)
  have 3: "p = [] \<and> q \<noteq> [] \<longrightarrow> unlock D fr q a = (Inr (), a\<lparr>ap_boxes := ap_boxes a @ [''Unlock'']\<rparr>)"
    using n(4) [of q] none by (auto simp: unlock_def bind_getS f box_def modifyS_def)
  have "simple_label (label i)" "json_ok (label i)"
    using lab typed_ok(3) [of "label i"] by (auto simp: simple_label_def jtext_def)
  then have "asks_passphrase ?f = has_passphrase (Some p)" "?f \<noteq> Absent" by (rule saved_asks)+
  then have 4: "bootstrap D fr a = (if p = [] then start_client D fr i a else (Inr (), a\<lparr>ap_prompt_passphrase := True, ap_screen := UnlockScreen\<rparr>))"
    using r(2,3,5) by (auto simp: bootstrap_def bind_getS f has_passphrase_def prepare_unlock_def show_screen_def meth_defs)
  show ?thesis using 1 2 3 4 by simp
qed

subsection \<open>Concrete inputs\<close>

definition sample_desktop :: "(unit, ((string \<times> string) \<times> string) list) desktop" where
  "sample_desktop = \<lparr>de_platform = \<lparr>su_env = sample_env, su_vault = toy_vault, su_mime = (\<lambda>_. None), su_writable = (\<lambda>_. True)\<rparr>,
     de_send = (\<lambda>q p w. (None, w)), de_keyring = toy_keyring, de_no_keyring = True, de_environ = [], de_dir = ''d'', de_error_text = (\<lambda>_. [])\<rparr>"

definition sample_disk :: "(unit, ((string \<times> string) \<times> string) list) app" where
  "sample_disk = \<lparr>ap_settings = default_gui [], ap_identity_file = Absent, ap_settings_file = Absent, ap_keys = \<lparr>key_file = None, keyring = []\<rparr>,
     ap_database = initialize, ap_files = (\<lambda>_. Absent), ap_world = (), ap_reads = 0, ap_transport = make_transport 3 None False,
     ap_identity = None, ap_worker = None, ap_contact = None, ap_pending = None, ap_pending_passphrase = [], ap_encrypted = False,
     ap_notified = {}, ap_screen = Welcome, ap_view = blank_view, ap_seed_words = [], ap_acknowledged = False, ap_prompt_passphrase = True,
     ap_boxes = []\<rparr>"

definition sample_fresh :: fresh where
  "sample_fresh = \<lparr>fr_key = sample_random 3, fr_now = 0, fr_turns = []\<rparr>"

lemma sample_reached: "reached sample_desktop sample_disk (opened (default_gui []) sample_disk)"
  by (rule reached.launched [of _ sample_fresh])
    (simp add: launch_def bootstrap_def sample_disk_def sample_desktop_def load_settings_def closed_app_def bind_getS show_screen_def modifyS_def opened_def)

theorem settings_stay_typed_witness: "settings_typed (ap_settings (opened (default_gui []) sample_disk))"
  by (rule settings_stay_typed [OF sample_reached, THEN conjunct1])
    (simp_all add: sample_disk_def sample_desktop_def file_typed_def load_settings_def default_typed file_labels_def load_identity_def read_file_def)

theorem desktop_keeps_database_witness: "store_inv (current_store (opened (default_gui []) sample_disk))"
  by (rule desktop_keeps_database [OF sample_reached, THEN conjunct1])
    (simp_all add: sample_disk_def initialize_inv, simp add: all_sent_def initialize_def)

definition sample_running :: "(unit, ((string \<times> string) \<times> string) list) app" where
  "sample_running = sample_disk\<lparr>ap_worker := Some (make_worker \<lparr>dk_client = sample_client, dk_files = (\<lambda>_. Absent)\<rparr> 2 True 900), ap_screen := MainScreen\<rparr>"


theorem unlock_opens_saved_witness:
  "unlock sample_desktop sample_fresh [] (snd (store_identity sample_desktop [3] [4] sample_identity ''pw'' sample_disk))
   = (Inr (), (snd (store_identity sample_desktop [3] [4] sample_identity ''pw'' sample_disk))\<lparr>ap_boxes := [''Unlock'']\<rparr>)"
proof -
  have s: "store_identity sample_desktop [3] [4] sample_identity ''pw'' sample_disk
      = (Inr (), snd (store_identity sample_desktop [3] [4] sample_identity ''pw'' sample_disk))"
    by (simp add: store_identity_def sample_desktop_def)
  have "ap_boxes (snd (store_identity sample_desktop [3] [4] sample_identity ''pw'' sample_disk)) = []"
    by (simp add: store_identity_def sample_desktop_def sample_disk_def)
  then show ?thesis
    using unlock_opens_saved [OF _ sample_identity_wf _ s, of sample_fresh]
    by (simp add: vault_of_def sample_desktop_def toy_gcm label_ok_def sample_identity_def jtext_def str_ok_ascii ascii_def)
qed

end
