(* ===== verification/AtRest.thy ===== *)
theory AtRest
  imports JsonText StoreKey RelayApi
begin

section \<open>Data at rest, and the command line of the relay\<close>

text \<open>
  How \<open>LocalStore\<close> (\<^verbatim>\<open>core/store.py\<close>) seals a document into a column and opens it again, the text of the key file, and how \<^verbatim>\<open>server/__main__.py\<close>
  turns its arguments into settings (\<open>Settings.from_env\<close> of \<^verbatim>\<open>server/config.py\<close> with overrides).  \<open>Store\<close> models a sealed column by its document; the theorem here
  is what justifies that: what was written opens again, also after the key was resolved anew, and under no other text than the one written.
\<close>

subsection \<open>Sealed columns\<close>

definition check_key :: "bytes \<Rightarrow> unit res" where
  "check_key key = (if length key \<noteq> LOCAL_KEY_SIZE then Inl ValueError else Inr ())"

definition seal_column :: "crypto \<Rightarrow> bytes \<Rightarrow> bytes \<Rightarrow> json \<Rightarrow> bytes res" where
  "seal_column C key nonce v =
     bindE (aead_encrypt C nonce key (file_text Plain v) []) (\<lambda>(n, ciphertext). Inr (n @ ciphertext))"

definition open_column :: "crypto \<Rightarrow> bytes \<Rightarrow> bytes option \<Rightarrow> json res" where
  "open_column C key blob =
     (case blob of None \<Rightarrow> Inr JNull
      | Some b \<Rightarrow> let (nonce, ciphertext) = split_blob b in bindE (aead_decrypt C key nonce ciphertext []) loads_bytes)"

text \<open>A column that is left empty for a missing document.\<close>

definition seal_optional :: "crypto \<Rightarrow> bytes \<Rightarrow> bytes \<Rightarrow> json \<Rightarrow> bytes option res" where
  "seal_optional C key nonce v = (if v = JNull then Inr None else bindE (seal_column C key nonce v) (\<lambda>b. Inr (Some b)))"

lemma open_seal:
  assumes "aead_correct C" "length nonce = 12" "json_ok v" "seal_column C key nonce v = Inr b"
  shows "open_column C key (Some b) = Inr v"
proof -
  obtain n ct where e: "aead_encrypt C nonce key (file_text Plain v) [] = Inr (n, ct)" "b = n @ ct"
    using assms(4) by (auto simp: seal_column_def res_simps)
  then have "n = nonce" by (auto simp: aead_encrypt_def split: if_splits)
  then have "split_blob b = (n, ct)" using e(2) assms(2) by (simp add: split_blob_def)
  then show ?thesis
    using aead_decrypt_encrypt [OF assms(1,2) e(1)] assms(3) by (simp add: open_column_def loads_file_text)
qed

lemma sealed_codec: "aead_correct C \<Longrightarrow> length key = LOCAL_KEY_SIZE \<Longrightarrow> length nonce = 12 \<Longrightarrow>
  codec (\<lambda>v. Some (nonce @ chacha_seal C key nonce (file_text Plain v) [])) (open_column C key) json_ok"
  by unfold_locales (rule open_seal, simp_all add: seal_column_def aead_encrypt_def LOCAL_KEY_SIZE_def)

subsection \<open>The key file\<close>

definition key_file_text :: "json \<Rightarrow> bytes" where
  "key_file_text doc = file_text Plain doc"

lemma key_file_reads_back:
  assumes "write_key_file C V salt nonce key passphrase = Inr doc"
  shows "loads_bytes (key_file_text doc) = Inr doc"
proof -
  have "json_ok doc"
    using assms by (auto simp: write_key_file_def Let_def res_simps json_ok_obj str_ok_ascii ascii_def simp del: b64e.simps split: if_splits)
  then show ?thesis by (simp add: key_file_text_def loads_file_text)
qed

subsection \<open>The relay's command line\<close>

record arguments =
  arg_host :: "string option"
  arg_port :: "int option"
  arg_data_dir :: "string option"
  arg_require_hashcash :: bool

definition relay_settings :: "environ \<Rightarrow> arguments \<Rightarrow> settings" where
  "relay_settings env args =
     (let s = from_env env;
          s = (case arg_host args of Some h \<Rightarrow> if h = [] then s else s\<lparr>host := h\<rparr> | None \<Rightarrow> s);
          s = (case arg_port args of Some p \<Rightarrow> if p = 0 then s else s\<lparr>port := p\<rparr> | None \<Rightarrow> s);
          s = (case arg_data_dir args of Some d \<Rightarrow> if d = [] then s else s\<lparr>data_dir := d\<rparr> | None \<Rightarrow> s) in
      if arg_require_hashcash args then s\<lparr>require_hashcash := True\<rparr> else s)"

text \<open>An argument wins over the environment; leaving all out gives the environment's settings.\<close>

lemma relay_settings_overrides:
  "arg_host args = Some h \<Longrightarrow> h \<noteq> [] \<Longrightarrow> host (relay_settings env args) = h"
  "arg_port args = Some p \<Longrightarrow> p \<noteq> 0 \<Longrightarrow> port (relay_settings env args) = p"
  "arg_data_dir args = Some d \<Longrightarrow> d \<noteq> [] \<Longrightarrow> data_dir (relay_settings env args) = d"
  "require_hashcash (from_env env) \<Longrightarrow> require_hashcash (relay_settings env args)"
  "relay_settings env \<lparr>arg_host = None, arg_port = None, arg_data_dir = None, arg_require_hashcash = False\<rparr> = from_env env"
  by (simp_all add: relay_settings_def Let_def split: option.split)

subsection \<open>Theorem\<close>

text \<open>C34: the local history can be read again after a restart.  When the key of the database was resolved and a document was sealed into a column with
  it, then the key that a later start resolves (in the same keyring mode, or in either once a key file exists) opens the column, and gives
  the document that was written; an empty column gives no document.\<close>

theorem sealed_history_survives_restart:
  assumes "aead_correct C" "pbkdf2_length V" "keyring_stores R" "length (rnd_nonce rnd) = 12" "rnd_ring rnd \<noteq> []"
    and "resolve_store_key C V R disabled rnd iid passphrase st = (Inr key, st')" "disabled' = disabled \<or> key_file st' \<noteq> None"
    and "length nonce = 12" "json_ok v" "seal_optional C key nonce v = Inr column"
  shows "\<exists>key'. fst (resolve_store_key C V R disabled' rnd' iid passphrase st') = Inr key' \<and> open_column C key' column = Inr v"
proof (intro exI conjI)
  show "fst (resolve_store_key C V R disabled' rnd' iid passphrase st') = Inr key"
    using resolve_twice [OF assms(1-7)] by simp
  show "open_column C key column = Inr v"
  proof (cases "v = JNull")
    case True
    then show ?thesis using assms(10) by (simp add: seal_optional_def open_column_def)
  next
    case False
    then obtain b where "seal_column C key nonce v = Inr b" "column = Some b"
      using assms(10) by (auto simp: seal_optional_def res_simps)
    then show ?thesis using open_seal [OF assms(1,8,9)] by simp
  qed
qed

theorem sealed_history_survives_restart_witness:
  "\<exists>column key'. seal_optional toy (replicate 32 4) (replicate 12 0) (JStr ''hello'') = Inr column
     \<and> fst (resolve_store_key toy toy_vault_prims toy_keyring True (sample_random 9) ''me'' None
         (snd (resolve_store_key toy toy_vault_prims toy_keyring True (sample_random 3) ''me'' None \<lparr>key_file = None, keyring = []\<rparr>))) = Inr key'
     \<and> open_column toy key' column = Inr (JStr ''hello'')"
proof -
  let ?st = "\<lparr>key_file = None, keyring = []\<rparr>"
  have r: "resolve_store_key toy toy_vault_prims toy_keyring True (sample_random 3) ''me'' None ?st
      = (Inr (replicate 32 4), snd (resolve_store_key toy toy_vault_prims toy_keyring True (sample_random 3) ''me'' None ?st))"
    by (simp add: resolve_store_key_def sample_random_def write_key_file_def has_passphrase_def)
  obtain column where c: "seal_optional toy (replicate 32 4) (replicate 12 0) (JStr ''hello'') = Inr column"
    by (simp add: seal_optional_def seal_column_def aead_encrypt_def)
  have "json_ok (JStr ''hello'')" by (simp add: json_ok_def str_ok_ascii ascii_def)
  then show ?thesis
    using sealed_history_survives_restart [OF toy_ok(2) toy_prims_ok _ _ r _ _ _ c, of True "sample_random 9"] c
    by (simp add: sample_random_def)
qed

end
