(* ===== verification/Spec2Isabelle.thy ===== *)
theory Spec2Isabelle
  imports Padding RateLimit Provisioning Desktop AtRest
begin

text \<open>
  \<^bold>\<open>A verification library for noknowledge\<close>

  noknowledge is a messenger whose servers learn as little as possible.  A client encrypts every message end to end and leaves
  it, as an opaque blob, in a mailbox on several relays; the recipient fetches it with a read token that only
  the recipient holds.  This development models the program's own code under \<^verbatim>\<open>src/noknowledge\<close> as HOL functions and proves
  what makes it correct.  Third-party code (the \<open>cryptography\<close>, \<open>requests\<close>, \<open>keyring\<close> and mnemonic packages, \<open>zlib\<close>, SQLite,
  FastAPI) appears as parameters with named hypotheses.

  \<^bold>\<open>Conventions\<close> (theory \<open>Prelude\<close>).  Exceptions are values of \<open>pyerr\<close>, results are \<open>pyerr + 'a\<close>.  A method that changes the state of its object is a
  function from states to a result and a state, so that what a raising method leaves behind is part of the model.
  Random bytes, generated keys and clock readings are arguments.  Python integers are \<open>int\<close>, bytes are 8-bit words, a text is its UTF-8 encoding.
  Three interfaces recur and are locales: \<open>codec\<close>, \<open>machine\<close> and \<open>method_relation\<close>; two more belong to single layers:
  \<open>signed_record\<close> (theory \<open>Signed\<close>) for the signed documents, \<open>keyed_table\<close> (theory \<open>Store\<close>) for tables with a key.  The client's methods are covered by a
  hierarchy of extensions of \<open>method_relation\<close>: a relation between the states before and after that looking things up keeps (\<open>looking_relation\<close>), that reading, requesting,
  writing, merging, provisioning, sending, talking, receiving and finally every public operation keeps (\<open>acting_relation\<close>, \<open>store_relation\<close>).  The lemmas
  about the methods are proved once inside them, and each invariant or frame property is an interpretation.  Every locale is interpreted on
  the model's own definitions.

  \<^bold>\<open>Encoding and primitives.\<close>
  \<^item> \<open>Json\<close>, \<open>Encoding\<close>: \<^verbatim>\<open>crypto/encoding.py\<close> with a printer and a parser for JSON and what Python does with parsed values.  Printing is
    injective up to the order of keys and parsing undoes it; the parsers use fuel bounded by the length of the input, and more fuel never
    changes a result.
  \<^item> \<open>Crypto\<close>: \<^verbatim>\<open>crypto/kdf.py\<close> and \<^verbatim>\<open>crypto/aead.py\<close> over a record of primitives.
  \<^item> \<open>Padding\<close>: \<^verbatim>\<open>crypto/padding.py\<close>; padded sizes reveal only the bucket, and padding is undone.

  \<^bold>\<open>End-to-end encryption.\<close>
  \<^item> \<open>Ratchet\<close>: \<^verbatim>\<open>crypto/ratchet.py\<close>, the Double Ratchet.  Conversations decrypt; failing decryption changes nothing; each incoming message is
    decided as specified; every reachable state can be stored and read back.
  \<^item> \<open>Identity\<close>: \<^verbatim>\<open>crypto/identity.py\<close> and \<^verbatim>\<open>crypto/devicekeys.py\<close>: keys, fingerprints, signatures and the vault.
  \<^item> \<open>Handshake\<close>: \<^verbatim>\<open>crypto/prekeys.py\<close> and \<^verbatim>\<open>crypto/x3dh.py\<close>: both sides agree on the session key; bundles and senders are authenticated.
  \<^item> \<open>Protocol\<close>: \<^verbatim>\<open>wire/protocol.py\<close> and \<^verbatim>\<open>core/session.py\<close>: the first message of a conversation goes from bundle to plaintext through handshake, ratchet
    and framing.

  \<^bold>\<open>Signed documents and devices.\<close>
  \<^item> \<open>Signed\<close>, \<open>Cards\<close>: contact cards and mailbox capabilities (\<^verbatim>\<open>core/card.py\<close>, \<^verbatim>\<open>wire/backends/base.py\<close>).
  \<^item> \<open>Devices\<close>, \<open>DeviceChannel\<close>: device lists, device keys and the records between devices (\<^verbatim>\<open>core/devices.py\<close>, \<^verbatim>\<open>core/device_channel.py\<close>).
  \<^item> \<open>Attachments\<close>: \<^verbatim>\<open>core/attachments.py\<close>.
  What is written is read back, and what is accepted was signed by the account or device it names.

  \<^bold>\<open>The client's data.\<close>
  \<^item> \<open>Store\<close>, \<open>StoreKey\<close>: \<^verbatim>\<open>core/store.py\<close>.  An invariant of every reachable state of the local database; cursors never move back; clearing
    the outbox is exact; the key of the database is stable.
  \<^item> \<open>History\<close>: \<^verbatim>\<open>core/history.py\<close>.  Merging a bundle is idempotent and never damages what is there; an export opens with its passphrase.

  \<^bold>\<open>Relays.\<close>
  \<^item> \<open>RelayDb\<close>, \<open>RateLimit\<close>, \<open>RelayApi\<close>: \<^verbatim>\<open>server/\<close>.  Invariant of the database, isolation of mailboxes, authorisation of every change, paging,
    one-time prekeys handed out once, and a limiter that refines the sliding-window specification.
  \<^item> \<open>Transport\<close>, \<open>Backends\<close>: \<^verbatim>\<open>wire/transport.py\<close>, \<^verbatim>\<open>wire/backends/http_relay.py\<close> and \<^verbatim>\<open>wire/backends/multi_relay.py\<close>.  Fail-closed mode, and
    the availability of the pool, composed with the endpoints of the server: one live relay is enough.

  \<^item> \<open>Discovery\<close>: \<^verbatim>\<open>wire/discovery.py\<close>.  Discovery keeps the relays in use and adds only new ones that pass the filter and are alive.

  \<^bold>\<open>The client.\<close>  The state of the class \<open>Client\<close> holds its attributes, the local store and the world behind the transport; an environment gives
  the readings of the clock, of the random source and of the order in which threads run, each by the number of the reading.
  \<^item> \<open>ClientState\<close>: the attributes, the pool of relays as methods on that state, the account's own device list.
  \<^item> \<open>Sync\<close>: \<^verbatim>\<open>core/sync.py\<close>, the records between the devices of an account.  Approvals come from authenticated records only, history and mirrored messages
    go to the mailboxes of approved devices only, and the outcome of a transfer is decided by its count and its digest.
  \<^item> \<open>Client\<close>: \<^verbatim>\<open>core/client.py\<close>, every method: provisioning, relays, contacts, sessions per device, sending, receiving, receipts, attachments.
  \<^item> \<open>ClientRun\<close>: an invariant of all runs of the public operations, restarts included; a provisioned client's \<open>sync\<close> returns whatever it finds and
    acknowledges what it fetched.
  \<^item> \<open>Receiving\<close>: a new message is filed under its authenticated sender; a one-time prekey introduces at most one session.
  \<^item> \<open>Introductions\<close>: two clients that share nothing but the relays exchange a first message.
  \<^item> \<open>Provisioning\<close>: what makes a client reachable survives a restart.

  \<^bold>\<open>Files and data at rest.\<close>
  \<^item> \<open>JsonText\<close>: the texts that \<^verbatim>\<open>json.dumps\<close> writes, plain and indented, with everything outside ASCII escaped.  Reading such a text gives the document
    that was written.
  \<^item> \<open>AtRest\<close>: how \<^verbatim>\<open>core/store.py\<close> seals a document into a column, and the command line of \<^verbatim>\<open>server/__main__.py\<close>.  The history opens again after a restart,
    with the key that is resolved anew.
  \<^item> \<open>Settings\<close>: \<^verbatim>\<open>gui/settings.py\<close>, \<^verbatim>\<open>gui/session.py\<close> and the identity file.  What is saved is loaded.

  \<^bold>\<open>The desktop.\<close>  The interface and the thread that runs the client share a queue, two flags and the client; the interface learns of results by signals.
  \<^item> \<open>Worker\<close>: \<^verbatim>\<open>gui/worker.py\<close> as a machine whose turns mix with what the interface does.  Every command that is submitted runs, in order, whatever
    fails; a thread that should act is never left waiting; the relations and invariants of the client carry over to the worker; and in proxy-only mode nothing is sent past the proxy.
  \<^item> \<open>Chat\<close>: what \<^verbatim>\<open>gui/app.py\<close> puts on the screen: conversations, contacts, devices, requests.  Received text cannot add markup to a page, and contacts
    of the same name stay distinguishable.
  \<^item> \<open>Desktop\<close>: the class \<open>App\<close> of \<^verbatim>\<open>gui/app.py\<close>, one method for each slot, and the runs of the program over any number of starts on one disk, slots that
    raise included.  The database keeps its invariant, the settings keep their types, locking signs out, and unlocking opens what was saved.

  \<^bold>\<open>Fuel and bounds.\<close>  Loops are recursive functions with termination proofs (\<open>measure\<close> on lengths).  Fuel occurs in the JSON parser only, where the
  length of the input is enough.  The long poll of the server takes the observations it makes as a list; without enough of them the model has no result, and the
  theorems that use it show the result.

  \<^bold>\<open>Not modelled.\<close>  Layout and style of the desktop's widgets, the QR code, the clipboard and the start of the toolkit (they hold no state of the
  program); a worker that is still busy after the three seconds for which the interface waits, and interleavings inside a single call of the client (no order of
  statements is fixed there by the code); parsing of command lines and the start of the web server (libraries); the demonstration script, which only calls the client; JSON
  floats, texts of error messages, file permissions, SQLite's files and locking, connections and their closing, progress callbacks.

  This theory holds the property that spans the signed documents.
\<close>

section \<open>Signatures of different kinds\<close>

lemma labels:
  "CARD_SIGN_INFO = [110, 107, 47, 99, 97, 114, 100, 47, 118, 49]"
  "SPK_SIGN_INFO = [110, 107, 47, 115, 112, 107, 47, 118, 49]"
  "AUTH_SIGN_INFO = [110, 107, 47, 97, 117, 116, 104, 47, 118, 49]"
  "DEVICE_SIGN_INFO = [110, 107, 47, 100, 101, 118, 105, 99, 101, 115, 47, 118, 49]"
  "DEVICE_KEYS_SIGN_INFO = [110, 107, 47, 100, 101, 118, 105, 99, 101, 115, 47, 118, 49, 47, 107, 101, 121, 115, 47, 115, 105, 103]"
  by (simp_all add: CARD_SIGN_INFO_def SPK_SIGN_INFO_def AUTH_SIGN_INFO_def DEVICE_SIGN_INFO_def DEVICE_KEYS_SIGN_INFO_def str_encode_def)

lemma canonical_object_cons: "canonical_json (JObj d) = 123 # tl (canonical_json (JObj d))"
  using canonical_object_head [of d] by auto

text \<open>C24: A signature made for one purpose is never valid for another: the byte strings that are signed for a contact card, a device list, a
  device's keys, a signed prekey, a sender's proof and a record between devices are pairwise different, whatever they contain.\<close>

theorem signature_domains_disjoint:
  "distinct ([signed_bytes c, dl_signed_bytes C l, dk_signed_bytes C k, auth_message C sid init shared, canonical_json (JObj (unsigned_header h))]
     @ (case spk_message bid n key of Inr m \<Rightarrow> [m] | Inl _ \<Rightarrow> []))"
proof -
  have p: "to_be_signed i d = i @ 123 # tl (canonical_json (JObj d))" for i d
    unfolding to_be_signed_def by (subst canonical_object_cons) simp
  have h: "canonical_json (JObj (unsigned_header h)) = 123 # tl (canonical_json (JObj (unsigned_header h)))"
    by (rule canonical_object_cons)
  have s: "(case spk_message bid n key of Inr m \<Rightarrow> [m] | Inl _ \<Rightarrow> []) = (case to_bytes4 n of Inr b \<Rightarrow> [SPK_SIGN_INFO @ bid @ b @ key] | Inl _ \<Rightarrow> [])"
    by (simp add: spk_message_def split: sum.split)
  show ?thesis
    unfolding s signed_bytes_def dl_signed_bytes_def dk_signed_bytes_def p auth_message_def
    by (subst h) (simp add: labels split: sum.split)
qed

end
